(* ===== verification/Hyrule_Prelude.thy ===== *)
theory Hyrule_Prelude
  imports Main "HOL-Library.Word" "HOL-Library.Monad_Syntax"
begin

unbundle bit_operations_syntax

text \<open>
  Shared vocabulary of the development: the C integer types as fixed-width words, the
  collections of rewrite rules that the component theories fill, and the facts on lists,
  options and words that more than one component needs.
\<close>

type_synonym u8 = "8 word"
type_synonym u16 = "16 word"
type_synonym u32 = "32 word"
type_synonym u64 = "64 word"

text \<open>
  \<open>template_code\<close> collects the definitions of the assembly templates, \<open>x86_run\<close> the rules
  that run them symbolically, \<open>rv_ref\<close> the definitions of the reference instruction set.
\<close>

named_theorems template_code
named_theorems x86_run
named_theorems rv_ref

subsection \<open>Lists and options\<close>

lemma bind_eq_Some_D:
  "Option.bind x f = Some y \<Longrightarrow> \<exists>z. x = Some z \<and> f z = Some y"
  by (cases x) auto

text \<open>The C \<open>ASSERT\<close>: the process exits when the condition fails.\<close>

definition ASSERT :: "bool \<Rightarrow> 'a option \<Rightarrow> 'a option" where
  "ASSERT c k = (if c then k else None)"

lemma ASSERT_True [simp]: "ASSERT True k = k"
  by (simp add: ASSERT_def)

lemma ASSERT_False [simp]: "ASSERT False k = None"
  by (simp add: ASSERT_def)

lemma ASSERT_eq_Some [simp]: "ASSERT c k = Some x \<longleftrightarrow> c \<and> k = Some x"
  by (simp add: ASSERT_def)

lemma ASSERT_eq_None [simp]: "ASSERT c k = None \<longleftrightarrow> (c \<longrightarrow> k = None)"
  by (simp add: ASSERT_def)

subsection \<open>Words\<close>

text \<open>
  A 32-bit register write of the host clears the upper half of the 64-bit register; reading
  it back through the 32-bit name gives the value written.
\<close>

lemma ucast_32_64_32 [simp]: "(ucast (ucast (x :: u32) :: u64) :: u32) = x"
  by (rule bit_word_eqI) (simp add: bit_simps)

lemma unat_ucast_32_64 [simp]: "unat (ucast (x :: u32) :: u64) = unat x"
  by transfer (simp add: take_bit_eq_mod)

text \<open>A difference of two signed 32-bit values, wrapped back into the signed range.\<close>

lemma signed_wrap:
  fixes d :: int
  assumes "- (2 ^ 32) \<le> d" "d < 2 ^ 32"
  shows "signed_take_bit 31 d =
    (if d < - (2 ^ 31) then d + 2 ^ 32 else if d < 2 ^ 31 then d else d - 2 ^ 32)"
proof -
  have shift: "signed_take_bit 31 d = (d + 2 ^ 31) mod 2 ^ 32 - 2 ^ 31"
    by (simp add: signed_take_bit_eq_take_bit_shift take_bit_eq_mod)
  have "(d + 2 ^ 31) mod 2 ^ 32 = d + 2 ^ 31 + 2 ^ 32" if "d < - (2 ^ 31)"
  proof -
    have "(d + 2 ^ 31 + 2 ^ 32) mod 2 ^ 32 = d + 2 ^ 31 + 2 ^ 32"
      by (rule mod_pos_pos_trivial) (use assms that in simp_all)
    then show ?thesis by (simp only: mod_add_self2)
  qed
  moreover have "(d + 2 ^ 31) mod 2 ^ 32 = d + 2 ^ 31" if "- (2 ^ 31) \<le> d" "d < 2 ^ 31"
    by (rule mod_pos_pos_trivial) (use that in simp_all)
  moreover have "(d + 2 ^ 31) mod 2 ^ 32 = d - 2 ^ 31" if "2 ^ 31 \<le> d"
  proof -
    have "(d - 2 ^ 31) mod 2 ^ 32 = d - 2 ^ 31"
      by (rule mod_pos_pos_trivial) (use assms that in simp_all)
    moreover have "d + 2 ^ 31 = (d - 2 ^ 31) + 2 ^ 32" by simp
    ultimately show ?thesis by (simp only: mod_add_self2)
  qed
  ultimately show ?thesis unfolding shift by simp
qed

lemma sint_32_range: "- (2 ^ 31) \<le> sint (x :: u32)" "sint (x :: u32) < 2 ^ 31"
  using sint_ge [of x] sint_lt [of x] by simp_all

lemma sint_diff_cases:
  fixes a b :: u32
  shows "sint (b - a) =
    (if sint b - sint a < - (2 ^ 31) then sint b - sint a + 2 ^ 32
     else if sint b - sint a < 2 ^ 31 then sint b - sint a else sint b - sint a - 2 ^ 32)"
  using signed_wrap [of "sint b - sint a"] sint_32_range [of a] sint_32_range [of b]
  by (simp add: sint_word_diff)

subsection \<open>Little-endian bytes\<close>

text \<open>A word as the host stores it: the least significant byte first.\<close>

primrec le_word :: "u8 list \<Rightarrow> u64" where
  "le_word [] = 0"
| "le_word (b # bs) = ucast b OR push_bit 8 (le_word bs)"

definition le_bytes :: "nat \<Rightarrow> u64 \<Rightarrow> u8 list" where
  "le_bytes n v = map (\<lambda>i. ucast (drop_bit (8 * i) v)) [0..<n]"

lemma length_le_bytes [simp]: "length (le_bytes n v) = n"
  by (simp add: le_bytes_def)

lemma le_bytes_Suc: "le_bytes (Suc n) v = ucast v # le_bytes n (drop_bit 8 v)"
proof -
  have "drop_bit (8 * i) (drop_bit 8 v) = drop_bit (8 + 8 * i) v" for i
    by (simp add: ac_simps)
  then show ?thesis
    by (simp add: le_bytes_def upt_conv_Cons map_Suc_upt [symmetric] comp_def del: upt_Suc)
qed

lemma le_word_le_bytes: "le_word (le_bytes n v) = take_bit (8 * n) v"
proof (induction n arbitrary: v)
  case 0
  then show ?case by (simp add: le_bytes_def)
next
  case (Suc n)
  have "ucast (ucast v :: u8) OR push_bit 8 (take_bit (8 * n) (drop_bit 8 v)) = take_bit (8 + 8 * n) v"
    by (rule bit_word_eqI) (auto simp: bit_simps)
  with Suc show ?case by (simp add: le_bytes_Suc)
qed

lemma le_bytes_ucast:
  "8 * n \<le> LENGTH('a) \<Longrightarrow> le_bytes n (ucast (ucast v :: 'a::len word)) = le_bytes n v"
  unfolding le_bytes_def
  by (intro map_cong refl) (rule bit_word_eqI, auto simp: bit_simps dest: bit_imp_le_length)

end
