(* ===== verification/X86_Syntax.thy ===== *)
theory X86_Syntax
  imports Hyrule_Prelude
begin

text \<open>
  The host instructions that the assembly templates of \<open>sandbox/translate_*.c\<close> are made of,
  in AT\&T operand order (source first), and the macros of \<open>sandbox/translation.h\<close> that every
  template expands. An instruction is named after its mnemonic; a suffix tells the operand
  forms apart where a mnemonic has more than one.
\<close>

datatype hreg = RAX | RBX | RCX | RDX | RSI | RDI | R8 | R12 | R13 | R14 | R15

text \<open>The C functions (and the assembly entry point) whose address a template loads.\<close>

datatype csym =
    enter_vmm_dbg_shell_sym | vmm_entry_point_sym
  | mmu_read8_sym | mmu_read16_sym | mmu_read32_sym
  | mmu_write8_sym | mmu_write16_sym | mmu_write32_sym
  | amo_instruction_slowpath_sym | flush_translation_cache_sym
  | ebreak_callback_sym | mret_callback_sym | sret_callback_sym
  | sfence_vma_callback_sym | ecall_callback_sym | wfi_callback_sym
  | riscv_generic_csr_callback_sym

datatype cond = cNE | cE | cGE | cAE | cL | cB

datatype alu_op = aADD | aSUB | aAND | aOR | aXOR
datatype shift_op = sSHL | sSHR | sSAR
datatype ext_op = eZBL | eSBL | eZWL | eSWL
datatype muldiv_op = mIMULL | mMULL | mIMULQ | mIDIVL | mDIVL

datatype x86 =
    Movl_param nat hreg        \<comment> \<open>\<open>movl PIC_PARAM(n), %r32\<close>\<close>
  | Movl_load hreg hreg        \<comment> \<open>\<open>movl (%r64), %r32\<close>\<close>
  | Movl_store hreg hreg       \<comment> \<open>\<open>movl %r32, (%r64)\<close>\<close>
  | Movl hreg hreg             \<comment> \<open>\<open>movl %r32, %r32\<close>\<close>
  | Movl_imm u32 hreg          \<comment> \<open>\<open>movl $imm, %r32\<close>\<close>
  | Movl_imm_store u32 hreg    \<comment> \<open>\<open>movl $imm, (%r64)\<close>\<close>
  | Addl_imm_store u32 hreg    \<comment> \<open>\<open>addl $imm, (%r64)\<close>\<close>
  | Alu_imm alu_op u32 hreg
  | Alu alu_op hreg hreg
  | Shl_imm nat hreg           \<comment> \<open>\<open>shl $imm, %r32\<close>\<close>
  | Shrq_imm nat hreg          \<comment> \<open>\<open>shr $imm, %r64\<close>\<close>
  | Shift_cl shift_op hreg
  | Addq hreg hreg
  | Cmpl hreg hreg | Cmpl_imm u32 hreg | Cmpl_param nat hreg
  | Setcc cond hreg            \<comment> \<open>\<open>setl %r8\<close>, \<open>setb %r8\<close>\<close>
  | Movx ext_op hreg hreg
  | Movsxd hreg hreg
  | Muldiv muldiv_op hreg
  | Btr_imm nat hreg
  | Jcc cond nat | Jmp nat | Label nat
  | Movq hreg hreg | Movq_imm u64 hreg | Movq_sym csym hreg
  | Pushq hreg | Popq hreg | Call hreg
  | Jmp_end                    \<comment> \<open>\<open>jmp <indicator>_translation_end\<close>\<close>
  | Jmpq hreg

text \<open>The mnemonics of the grouped instructions, as the templates write them.\<close>

abbreviation "Addl \<equiv> Alu aADD"
abbreviation "Subl \<equiv> Alu aSUB"
abbreviation "Andl \<equiv> Alu aAND"
abbreviation "Orl \<equiv> Alu aOR"
abbreviation "Xorl \<equiv> Alu aXOR"
abbreviation "Addl_imm \<equiv> Alu_imm aADD"
abbreviation "Andl_imm \<equiv> Alu_imm aAND"
abbreviation "Shl_cl \<equiv> Shift_cl sSHL"
abbreviation "Shr_cl \<equiv> Shift_cl sSHR"
abbreviation "Sar_cl \<equiv> Shift_cl sSAR"
abbreviation "Setl \<equiv> Setcc cL"
abbreviation "Setb \<equiv> Setcc cB"
abbreviation "Movzbl \<equiv> Movx eZBL"
abbreviation "Movsbl \<equiv> Movx eSBL"
abbreviation "Movzwl \<equiv> Movx eZWL"
abbreviation "Movswl \<equiv> Movx eSWL"
abbreviation "Imull \<equiv> Muldiv mIMULL"
abbreviation "Mull \<equiv> Muldiv mMULL"
abbreviation "Imulq \<equiv> Muldiv mIMULQ"
abbreviation "Idivl \<equiv> Muldiv mIDIVL"
abbreviation "Divl \<equiv> Muldiv mDIVL"

subsection \<open>The macros around a template\<close>

definition SAVE_GUEST_CONTEXT_SWITCH_REGS :: "x86 list" where
  "SAVE_GUEST_CONTEXT_SWITCH_REGS = [Pushq R15, Pushq R14, Pushq R13, Pushq R12]"

definition RESTORE_GUEST_CONTEXT_SWITCH_REGS :: "x86 list" where
  "RESTORE_GUEST_CONTEXT_SWITCH_REGS = [Popq R12, Popq R13, Popq R14, Popq R15]"

text \<open>\<open>NATIVE_DEBUGER\<close> is defined in \<open>config.h\<close>: every block opens with a breakpoint check.\<close>

definition BEGIN_TRANSLATION :: "x86 list" where
  "BEGIN_TRANSLATION =
     [Movq R12 RDI, Movq_imm 1 RSI, Movq_sym enter_vmm_dbg_shell_sym RAX]
     @ SAVE_GUEST_CONTEXT_SWITCH_REGS @ [Call RAX] @ RESTORE_GUEST_CONTEXT_SWITCH_REGS"

definition PROCEED_TO_NEXT_INSTRUCTION :: "x86 list" where
  "PROCEED_TO_NEXT_INSTRUCTION = [Addl_imm_store 4 R14]"

definition RESET_ZERO_REGISTER :: "x86 list" where
  "RESET_ZERO_REGISTER = [Movl_imm_store 0 R15]"

text \<open>\<open>DEBUG_TRACE\<close> is not defined, so both endings are the short ones.\<close>

definition END_INSTRUCTION :: "x86 list" where
  "END_INSTRUCTION = [Jmp_end]"

definition TRAP_TO_VMM :: "x86 list" where
  "TRAP_TO_VMM = [Movq_sym vmm_entry_point_sym RAX, Jmpq RAX]"

text \<open>The code at \<open>vmm_jumper_begin\<close> in \<open>sandbox/vmm_trap.S\<close>.\<close>

definition vmm_jumper :: "x86 list" where
  "vmm_jumper = [Movq_sym vmm_entry_point_sym RAX, Jmpq RAX]"

lemmas translation_macros [template_code] =
  SAVE_GUEST_CONTEXT_SWITCH_REGS_def RESTORE_GUEST_CONTEXT_SWITCH_REGS_def BEGIN_TRANSLATION_def
  PROCEED_TO_NEXT_INSTRUCTION_def RESET_ZERO_REGISTER_def END_INSTRUCTION_def TRAP_TO_VMM_def
  vmm_jumper_def

subsection \<open>The templates\<close>

text \<open>The indicator that names a template, \<open>''add_instruction''\<close> and so on.\<close>

type_synonym indicator = string

text \<open>
  A block of the translation cache: the instructions of its template and the words of its
  parameter schema, which \<open>PARAM32\<close> fills with a marker until they are patched.
\<close>

record tc_block =
  blk_code :: "x86 list"
  blk_params :: "u32 list"
  blk_len :: int

definition PARAM32 :: u32 where
  "PARAM32 = 0xcccccccc"

end
