(* ===== verification/Array_Algorithms.thy ===== *)
theory Array_Algorithms
  imports Hyrule_Prelude "HOL-Library.Multiset"
begin

text \<open>
  The array macros of \<open>sandbox/sort.h\<close> and \<open>sandbox/search.h\<close>. An array is a list, its
  number of live elements a separate count; a comparator is a C function that returns an
  \<open>int\<close> or, where it contains an \<open>ASSERT\<close>, does not return (\<open>None\<close>). The index variables
  are C ints and start at \<open>num - 1\<close> or \<open>num - 2\<close>, so they are \<open>int\<close> here.
\<close>

type_synonym 'a comparator = "'a \<Rightarrow> 'a \<Rightarrow> int option"

subsection \<open>SEARCH: binary search\<close>

function SEARCH_loop :: "'a comparator \<Rightarrow> 'a list \<Rightarrow> 'a \<Rightarrow> int \<Rightarrow> int \<Rightarrow> nat option option" where
  "SEARCH_loop cmp base target idx_low idx_high =
     (if idx_low \<le> idx_high then
        Option.bind (cmp target (base ! nat idx_low)) (\<lambda>c_low.
        if c_low = 0 then Some (Some (nat idx_low))
        else Option.bind (cmp target (base ! nat idx_high)) (\<lambda>c_high.
        if c_high = 0 then Some (Some (nat idx_high))
        else if (idx_low + idx_high) div 2 = idx_low \<or> (idx_low + idx_high) div 2 = idx_high
        then Some None
        else Option.bind (cmp target (base ! nat ((idx_low + idx_high) div 2))) (\<lambda>c_mid.
          if c_mid < 0 then SEARCH_loop cmp base target idx_low ((idx_low + idx_high) div 2)
          else SEARCH_loop cmp base target ((idx_low + idx_high) div 2) idx_high)))
      else Some None)"
  by pat_completeness auto
termination
  by (relation "measure (\<lambda>(cmp, base, target, idx_low, idx_high). nat (idx_high - idx_low))") auto

declare SEARCH_loop.simps [simp del]

definition SEARCH :: "'a comparator \<Rightarrow> 'a list \<Rightarrow> nat \<Rightarrow> 'a \<Rightarrow> nat option option" where
  "SEARCH cmp base num target = SEARCH_loop cmp base target 0 (int num - 1)"

subsection \<open>INSERTION_SORT: insertion of the last element\<close>

function INSERTION_point :: "'a comparator \<Rightarrow> 'a list \<Rightarrow> 'a \<Rightarrow> int \<Rightarrow> int \<Rightarrow> int option" where
  "INSERTION_point cmp base target idx_low idx_high =
     (if idx_low \<le> idx_high then
        Option.bind (cmp target (base ! nat idx_low)) (\<lambda>c_low.
        if c_low \<le> 0 then Some idx_low
        else Option.bind (cmp (base ! nat idx_high) target) (\<lambda>c_high.
        if c_high \<le> 0 then Some (idx_high + 1)
        else if (idx_low + idx_high) div 2 = idx_low \<or> (idx_low + idx_high) div 2 = idx_high
        then Some ((idx_low + idx_high) div 2 + 1)
        else Option.bind (cmp target (base ! nat ((idx_low + idx_high) div 2))) (\<lambda>c_mid.
          if c_mid < 0 then INSERTION_point cmp base target idx_low ((idx_low + idx_high) div 2)
          else INSERTION_point cmp base target ((idx_low + idx_high) div 2) idx_high)))
      else Some 0)"
  by pat_completeness auto
termination
  by (relation "measure (\<lambda>(cmp, base, target, idx_low, idx_high). nat (idx_high - idx_low))") auto

declare INSERTION_point.simps [simp del]

text \<open>The moving loop: elements \<open>idx_move .. idx - 1\<close> go up by one place, the last one first.\<close>

fun INSERTION_move :: "'a list \<Rightarrow> nat \<Rightarrow> nat \<Rightarrow> 'a list" where
  "INSERTION_move base 0 idx_move = base"
| "INSERTION_move base (Suc idx) idx_move =
     (if idx_move < Suc idx then INSERTION_move (base[Suc idx := base ! idx]) idx idx_move else base)"

definition INSERTION_SORT :: "'a comparator \<Rightarrow> 'a list \<Rightarrow> nat \<Rightarrow> 'a list option" where
  "INSERTION_SORT cmp base num =
     (if num = 0 then Some base
      else let elem_target = base ! (num - 1) in
        Option.bind (INSERTION_point cmp base elem_target 0 (int num - 2)) (\<lambda>idx_move.
          if idx_move < int num - 1
          then Some ((INSERTION_move base (num - 1) (nat idx_move)) [nat idx_move := elem_target])
          else Some base))"

subsection \<open>SORT: bubble sort\<close>

definition SORT_step :: "'a comparator \<Rightarrow> nat \<Rightarrow> 'a list \<Rightarrow> 'a list option" where
  "SORT_step cmp idx_in base =
     Option.bind (cmp (base ! idx_in) (base ! (idx_in + 1))) (\<lambda>c.
       if c > 0 then Some (base[idx_in := base ! (idx_in + 1), idx_in + 1 := base ! idx_in])
       else Some base)"

fun SORT_inner :: "'a comparator \<Rightarrow> nat \<Rightarrow> 'a list \<Rightarrow> 'a list option" where
  "SORT_inner cmp 0 base = Some base"
| "SORT_inner cmp (Suc n) base = Option.bind (SORT_inner cmp n base) (SORT_step cmp n)"

fun SORT_outer :: "'a comparator \<Rightarrow> nat \<Rightarrow> 'a list \<Rightarrow> 'a list option" where
  "SORT_outer cmp 0 base = Some base"
| "SORT_outer cmp (Suc n) base = Option.bind (SORT_inner cmp (Suc n) base) (SORT_outer cmp n)"

definition SORT :: "'a comparator \<Rightarrow> 'a list \<Rightarrow> nat \<Rightarrow> 'a list option" where
  "SORT cmp base num = SORT_outer cmp (num - 1) base"

subsection \<open>SEARCH is exact\<close>

text \<open>
  What a binary search needs of the array: seen from the target, the signs of the comparisons
  never go up along the array, positive first, then zeros, then negative.
\<close>

definition sign_split :: "(nat \<Rightarrow> int) \<Rightarrow> nat \<Rightarrow> bool" where
  "sign_split c num \<longleftrightarrow>
     (\<forall>i j. i < j \<longrightarrow> j < num \<longrightarrow> (0 < c j \<longrightarrow> 0 < c i) \<and> (c i < 0 \<longrightarrow> c j < 0))"

definition search_result :: "(nat \<Rightarrow> int) \<Rightarrow> nat \<Rightarrow> nat option option \<Rightarrow> bool" where
  "search_result c num r \<longleftrightarrow>
     (case r of None \<Rightarrow> False
      | Some None \<Rightarrow> (\<forall>i < num. c i \<noteq> 0)
      | Some (Some i) \<Rightarrow> i < num \<and> c i = 0)"

lemma zeros_below_mid:
  assumes "sign_split c num" "mid < num" "c mid < 0" "i < num" "c i = 0"
  shows "i < mid"
  using assms unfolding sign_split_def by (metis less_irrefl linorder_neqE_nat)

lemma zeros_above_mid:
  assumes "sign_split c num" "mid < num" "0 < c mid" "i < num" "c i = 0"
  shows "mid < i"
  using assms unfolding sign_split_def by (metis less_irrefl linorder_neqE_nat)

text \<open>Either half that the loop keeps still holds a zero if the whole range did.\<close>

lemma zero_in_half:
  assumes "sign_split c num" "0 \<le> low" "low < mid" "mid < high" "high < int num"
    and "\<exists>k. c k = 0 \<and> low \<le> int k \<and> int k \<le> high"
  shows "c (nat mid) < 0 \<Longrightarrow> \<exists>k. c k = 0 \<and> low \<le> int k \<and> int k \<le> mid"
    and "\<not> c (nat mid) < 0 \<Longrightarrow> \<exists>k. c k = 0 \<and> mid \<le> int k \<and> int k \<le> high"
proof -
  from assms(6) obtain k where k: "c k = 0" "low \<le> int k" "int k \<le> high" by blast
  with assms have rng: "k < num" "nat mid < num" by linarith+
  { assume "c (nat mid) < 0"
    with zeros_below_mid [OF assms(1) rng(2) _ rng(1)] k have "k < nat mid" by blast
    then have "int k \<le> mid" by linarith
    with k show "\<exists>k. c k = 0 \<and> low \<le> int k \<and> int k \<le> mid" by blast }
  { assume nn: "\<not> c (nat mid) < 0"
    show "\<exists>k. c k = 0 \<and> mid \<le> int k \<and> int k \<le> high"
    proof (cases "c (nat mid) = 0")
      case True
      with assms show ?thesis by (intro exI [of _ "nat mid"]) auto
    next
      case False
      with nn have "nat mid < k" using zeros_above_mid [OF assms(1) rng(2) _ rng(1)] k by linarith
      then have "mid \<le> int k" by linarith
      with k show ?thesis by blast
    qed }
qed

lemma SEARCH_loop_exact:
  assumes cmp: "\<And>i. i < num \<Longrightarrow> cmp t (base ! i) = Some (c i)"
    and mono: "sign_split c num"
    and "0 \<le> low" "high < int num"
    and "\<And>i. i < num \<Longrightarrow> c i = 0 \<Longrightarrow> \<exists>k. c k = 0 \<and> low \<le> int k \<and> int k \<le> high"
  shows "search_result c num (SEARCH_loop cmp base t low high)"
  using assms(3-)
proof (induction "nat (high - low)" arbitrary: low high rule: less_induct)
  case less
  define mid where "mid = (low + high) div 2"
  note unfold = SEARCH_loop.simps [of cmp base t low high, folded mid_def]
  show ?case
  proof (cases "low \<le> high")
    case False
    then have "\<forall>i < num. c i \<noteq> 0" using less.prems(3) by fastforce
    with False show ?thesis by (simp add: unfold search_result_def)
  next
    case True
    then have mid_bounds: "low \<le> mid" "mid \<le> high" "mid = low \<or> mid = high \<Longrightarrow> high \<le> low + 1"
      unfolding mid_def by linarith+
    with True less.prems have rng: "nat low < num" "nat high < num" "nat mid < num" by linarith+
    show ?thesis
    proof (cases "c (nat low) = 0 \<or> c (nat high) = 0")
      case True
      with \<open>low \<le> high\<close> rng show ?thesis by (auto simp: unfold cmp search_result_def)
    next
      case ends: False
      show ?thesis
      proof (cases "mid = low \<or> mid = high")
        case True
        have "c i \<noteq> 0" if "i < num" for i
        proof
          assume "c i = 0"
          with less.prems(3) that obtain k where "c k = 0" "low \<le> int k" "int k \<le> high" by blast
          with ends have "int k \<noteq> low" "int k \<noteq> high" by auto
          with mid_bounds(3) [OF True] \<open>low \<le> int k\<close> \<open>int k \<le> high\<close> show False by linarith
        qed
        with True ends rng \<open>low \<le> high\<close> show ?thesis by (simp add: unfold cmp search_result_def)
      next
        case inner: False
        with mid_bounds have mid: "low < mid" "mid < high" by linarith+
        note half = zero_in_half [OF mono less.prems(1) mid less.prems(2)]
        have "search_result c num (SEARCH_loop cmp base t low mid)" if "c (nat mid) < 0"
          using less.prems mid half(1) [OF less.prems(3) that] by (intro less.hyps) auto
        moreover have "search_result c num (SEARCH_loop cmp base t mid high)" if "\<not> c (nat mid) < 0"
          using less.prems mid half(2) [OF less.prems(3) that] by (intro less.hyps) auto
        ultimately show ?thesis using inner ends rng \<open>low \<le> high\<close> by (simp add: unfold cmp)
      qed
    qed
  qed
qed

lemma SEARCH_exact:
  assumes "\<And>i. i < num \<Longrightarrow> cmp t (base ! i) = Some (c i)" and "sign_split c num"
  shows "search_result c num (SEARCH cmp base num t)"
  unfolding SEARCH_def
proof (rule SEARCH_loop_exact)
  fix i assume "i < num" "c i = 0"
  then show "\<exists>k. c k = 0 \<and> 0 \<le> int k \<and> int k \<le> int num - 1" by (intro exI [of _ i]) auto
qed (use assms in auto)

text \<open>Without any assumption on the array, an element that is found compares equal.\<close>

lemma SEARCH_loop_sound:
  "0 \<le> low \<Longrightarrow> high < int num \<Longrightarrow> SEARCH_loop cmp base t low high = Some (Some i) \<Longrightarrow>
   i < num \<and> cmp t (base ! i) = Some 0"
proof (induction "nat (high - low)" arbitrary: low high rule: less_induct)
  case less
  define mid where "mid = (low + high) div 2"
  have step: "nat (mid - low) < nat (high - low)" "nat (high - mid) < nat (high - low)" "0 \<le> mid" "mid < int num"
    if "low \<le> high" "mid \<noteq> low" "mid \<noteq> high"
    using that less.prems(1,2) unfolding mid_def by linarith+
  show ?case
    using less.prems less.hyps [of mid low] less.hyps [of high mid] step
    by (subst (asm) SEARCH_loop.simps)
       (auto simp: mid_def [symmetric] split: if_splits bind_splits)
qed

lemma SEARCH_sound: "SEARCH cmp base num t = Some (Some i) \<Longrightarrow> i < num \<and> cmp t (base ! i) = Some 0"
  unfolding SEARCH_def by (rule SEARCH_loop_sound [of 0 "int num - 1"]) auto

text \<open>Whatever the comparator says, a sort that returns has only exchanged elements.\<close>

lemma SORT_step_perm:
  assumes "SORT_step cmp n base = Some b" "Suc n < m" "m \<le> length base"
  shows "length b = length base \<and> mset (take m b) = mset (take m base) \<and> drop m b = drop m base"
proof -
  have "mset (take m (base[n := base ! Suc n, Suc n := base ! n])) = mset (take m base)"
    using mset_swap [of "Suc n" "take m base" n] assms(2,3) by (simp add: take_update_swap)
  with assms show ?thesis by (auto simp: SORT_step_def split: bind_splits if_splits)
qed

lemma SORT_inner_perm:
  "SORT_inner cmp n base = Some b \<Longrightarrow> n < m \<Longrightarrow> m \<le> length base \<Longrightarrow>
   length b = length base \<and> mset (take m b) = mset (take m base) \<and> drop m b = drop m base"
proof (induction n arbitrary: b)
  case (Suc n)
  from Suc.prems(1) obtain b1 where b1: "SORT_inner cmp n base = Some b1" "SORT_step cmp n b1 = Some b"
    by (auto split: bind_splits)
  with Suc SORT_step_perm [OF b1(2), of m] show ?case by simp
qed simp

lemma SORT_outer_perm:
  "SORT_outer cmp n base = Some b \<Longrightarrow> n < m \<Longrightarrow> m \<le> length base \<Longrightarrow>
   length b = length base \<and> mset (take m b) = mset (take m base) \<and> drop m b = drop m base"
proof (induction n arbitrary: base)
  case (Suc n)
  from Suc.prems(1) obtain b1 where b1: "SORT_inner cmp (Suc n) base = Some b1" "SORT_outer cmp n b1 = Some b"
    by (auto simp del: SORT_inner.simps split: bind_splits)
  with SORT_inner_perm [OF b1(1), of m] Suc.prems Suc.IH [OF b1(2)] show ?case by simp
qed simp

lemma SORT_perm:
  "SORT cmp base num = Some b \<Longrightarrow> num \<le> length base \<Longrightarrow>
   length b = length base \<and> mset (take num b) = mset (take num base) \<and> drop num b = drop num base"
  using SORT_outer_perm [of cmp "num - 1" base b num] by (cases num) (auto simp: SORT_def)

subsection \<open>The moving loop\<close>

lemma length_INSERTION_move [simp]: "length (INSERTION_move base idx m) = length base"
  by (induction base idx m rule: INSERTION_move.induct) auto

lemma INSERTION_move_nth:
  "idx < length base \<Longrightarrow> j < length base \<Longrightarrow>
   INSERTION_move base idx m ! j = (if m < j \<and> j \<le> idx then base ! (j - 1) else base ! j)"
  by (induction base idx m rule: INSERTION_move.induct) (auto simp: nth_list_update le_Suc_eq)

lemma INSERTION_move_eq:
  assumes "n < length base" "m \<le> n"
  shows "(INSERTION_move base n m)[m := base ! n] =
    take m base @ base ! n # drop m (take n base) @ drop (Suc n) base" (is "?l = ?r")
proof (rule nth_equalityI)
  show "length ?l = length ?r" using assms by simp
next
  fix j assume "j < length ?l"
  then have "j < length base" by simp
  with assms show "?l ! j = ?r ! j"
    by (auto simp: nth_append nth_list_update INSERTION_move_nth nth_Cons' min_def)
qed

subsection \<open>Comparators that compare keys\<close>

text \<open>
  The contract a comparator gives to its callers on a set \<open>A\<close> of elements: it returns, and
  the sign of its result is the order of the elements' keys.
\<close>

definition splits_at :: "('a \<Rightarrow> nat) \<Rightarrow> 'a list \<Rightarrow> nat \<Rightarrow> nat \<Rightarrow> nat \<Rightarrow> bool" where
  "splits_at key base n k m \<longleftrightarrow> m \<le> n \<and>
     (\<forall>i < m. key (base ! i) \<le> k) \<and> (\<forall>i. m \<le> i \<longrightarrow> i < n \<longrightarrow> k \<le> key (base ! i))"

lemma take_subset: "(\<And>i. i \<le> n \<Longrightarrow> base ! i \<in> A) \<Longrightarrow> set (take (Suc n) base) \<subseteq> A"
  by (auto simp: in_set_conv_nth less_Suc_eq_le)

locale keyed_comparator =
  fixes cmp :: "'a comparator" and key :: "'a \<Rightarrow> nat" and A :: "'a set"
  assumes cmp_key: "a \<in> A \<Longrightarrow> b \<in> A \<Longrightarrow>
    \<exists>c. cmp a b = Some c \<and> (c < 0 \<longleftrightarrow> key a < key b) \<and> (0 < c \<longleftrightarrow> key b < key a)"
begin

lemma cmp_obtain:
  assumes "a \<in> A" "b \<in> A"
  obtains c where "cmp a b = Some c" "c < 0 \<longleftrightarrow> key a < key b" "0 < c \<longleftrightarrow> key b < key a"
  using cmp_key [OF assms] by blast

lemma SEARCH_key:
  assumes "t \<in> A" "\<And>i. i < num \<Longrightarrow> base ! i \<in> A"
    and "\<And>i j. i < j \<Longrightarrow> j < num \<Longrightarrow> key (base ! i) \<le> key (base ! j)"
  shows "case SEARCH cmp base num t of None \<Rightarrow> False
    | Some None \<Rightarrow> (\<forall>i < num. key (base ! i) \<noteq> key t)
    | Some (Some i) \<Rightarrow> i < num \<and> key (base ! i) = key t"
proof -
  define c where "c i = the (cmp t (base ! i))" for i
  have c: "cmp t (base ! i) = Some (c i)" "c i < 0 \<longleftrightarrow> key t < key (base ! i)"
    "0 < c i \<longleftrightarrow> key (base ! i) < key t" if "i < num" for i
    using cmp_key [OF assms(1) assms(2) [OF that]] by (auto simp: c_def)
  have "sign_split c num"
    unfolding sign_split_def using c assms(3) by (meson less_trans order_le_less_trans order_less_le_trans)
  with c(1) have "search_result c num (SEARCH cmp base num t)" by (rule SEARCH_exact)
  moreover have "c i = 0 \<longleftrightarrow> key (base ! i) = key t" if "i < num" for i
    using c(2,3) [OF that] by linarith
  ultimately show ?thesis by (auto simp: search_result_def split: option.splits)
qed

lemma INSERTION_point_key:
  assumes t: "t \<in> A" and A: "\<And>i. i < n \<Longrightarrow> base ! i \<in> A"
    and sorted: "\<And>i j. i \<le> j \<Longrightarrow> j < n \<Longrightarrow> key (base ! i) \<le> key (base ! j)"
    and "0 \<le> low" "high < int n" "low \<le> high"
    and "\<And>i. int i < low \<Longrightarrow> key (base ! i) \<le> key t"
    and "\<And>i. high < int i \<Longrightarrow> i < n \<Longrightarrow> key t \<le> key (base ! i)"
  shows "\<exists>m. INSERTION_point cmp base t low high = Some (int m) \<and> splits_at key base n (key t) m"
  using assms(4-)
proof (induction "nat (high - low)" arbitrary: low high rule: less_induct)
  case less
  define mid where "mid = (low + high) div 2"
  note unfold = INSERTION_point.simps [of cmp base t low high, folded mid_def]
  have mid: "low \<le> mid" "mid \<le> high" "mid = low \<or> mid = high \<Longrightarrow> high \<le> low + 1"
    unfolding mid_def using less.prems(3) by linarith+
  from less.prems mid(1,2) have rng: "nat low < n" "nat high < n" "nat mid < n" by linarith+
  obtain cl where cl: "cmp t (base ! nat low) = Some cl" "0 < cl \<longleftrightarrow> key (base ! nat low) < key t"
    using cmp_obtain [OF t A [OF rng(1)]] by metis
  obtain ch where ch: "cmp (base ! nat high) t = Some ch" "0 < ch \<longleftrightarrow> key t < key (base ! nat high)"
    using cmp_obtain [OF A [OF rng(2)] t] by metis
  obtain cm where cm: "cmp t (base ! nat mid) = Some cm" "cm < 0 \<longleftrightarrow> key t < key (base ! nat mid)"
    using cmp_obtain [OF t A [OF rng(3)]] by metis
  have below: "key (base ! i) \<le> key t" if "i \<le> j" "key (base ! j) \<le> key t" "j < n" for i j
    using sorted [OF that(1,3)] that(2) by linarith
  have above: "key t \<le> key (base ! i)" if "j \<le> i" "key t \<le> key (base ! j)" "i < n" for i j
    using sorted [OF that(1,3)] that(2) by linarith
  consider "\<not> 0 < cl" | "0 < cl" "\<not> 0 < ch"
    | "0 < cl" "0 < ch" "mid = low \<or> mid = high" | "0 < cl" "0 < ch" "low < mid" "mid < high"
    using mid(1,2) by linarith
  then show ?case
  proof cases
    case 1
    with less.prems cl unfold have "INSERTION_point cmp base t low high = Some (int (nat low))" by simp
    moreover have "splits_at key base n (key t) (nat low)"
      using 1 cl(2) less.prems(1,4) rng above [of "nat low"] by (auto simp: splits_at_def)
    ultimately show ?thesis by blast
  next
    case 2
    with less.prems cl ch unfold have "INSERTION_point cmp base t low high = Some (int (nat (high + 1)))" by simp
    moreover have "splits_at key base n (key t) (nat (high + 1))"
      using 2 ch(2) less.prems rng below [of _ "nat high"] by (auto simp: splits_at_def)
    ultimately show ?thesis by blast
  next
    case 3
    then have high: "high = low + 1"
      using less.prems(1,3) cl(2) ch(2) mid by (cases "low = high") force+
    then have "mid = low" unfolding mid_def by linarith
    with high 3 less.prems cl ch unfold have "INSERTION_point cmp base t low high = Some (int (nat high))" by simp
    moreover have "splits_at key base n (key t) (nat high)"
      using 3 cl(2) ch(2) less.prems(1) rng high below [of _ "nat low"] above [of "nat high"]
      by (auto simp: splits_at_def)
    ultimately show ?thesis by blast
  next
    case 4
    show ?thesis
    proof (cases "cm < 0")
      case True
      have "key t \<le> key (base ! i)" if "mid < int i" "i < n" for i
        using True cm(2) that by (intro above [of "nat mid" i]) auto
      then have "\<exists>m. INSERTION_point cmp base t low mid = Some (int m) \<and> splits_at key base n (key t) m"
        using 4 less.prems by (intro less.hyps) auto
      with True 4 cl ch cm less.prems(3) show ?thesis by (simp add: unfold)
    next
      case False
      have "key (base ! i) \<le> key t" if "int i < mid" for i
      proof (rule below [of i "nat mid"])
        show "i \<le> nat mid" using that by linarith
        show "key (base ! nat mid) \<le> key t" using False cm(2) by simp
      qed (rule rng(3))
      then have "\<exists>m. INSERTION_point cmp base t mid high = Some (int m) \<and> splits_at key base n (key t) m"
        using 4 less.prems by (intro less.hyps) auto
      with False 4 cl ch cm less.prems(3) show ?thesis by (simp add: unfold)
    qed
  qed
qed

text \<open>
  Inserting the last of \<open>num\<close> elements into the sorted rest gives a sorted array with the same
  elements, and leaves the unused part of the array alone.
\<close>

lemma INSERTION_SORT_key:
  assumes "0 < num" "num \<le> length base" "\<And>i. i < num \<Longrightarrow> base ! i \<in> A"
    and "sorted (map key (take (num - 1) base))"
  shows "\<exists>base'. INSERTION_SORT cmp base num = Some base' \<and>
    length base' = length base \<and> drop num base' = drop num base \<and>
    mset (take num base') = mset (take num base) \<and> sorted (map key (take num base'))"
proof -
  obtain n where n: "num = Suc n" using assms(1) by (cases num) auto
  with assms have len: "n < length base" by simp
  let ?t = "base ! n"
  have sorted: "key (base ! i) \<le> key (base ! j)" if "i \<le> j" "j < n" for i j
    using sorted_nth_mono [OF assms(4), of i j] that n len by simp
  have "\<exists>m. INSERTION_point cmp base ?t 0 (int n - 1) = Some (int m) \<and> splits_at key base n (key ?t) m"
  proof (cases "n = 0")
    case True
    then show ?thesis
      by (intro exI [of _ 0]) (simp add: INSERTION_point.simps [of cmp base _ 0 "-1"] splits_at_def)
  next
    case False
    with assms(3) n sorted show ?thesis by (intro INSERTION_point_key) auto
  qed
  then obtain m where m: "INSERTION_point cmp base ?t 0 (int n - 1) = Some (int m)"
    and split: "splits_at key base n (key ?t) m" by blast
  then have "m \<le> n" by (simp add: splits_at_def)
  define base' where "base' = take m base @ ?t # drop m (take n base) @ drop (Suc n) base"
  have "INSERTION_SORT cmp base num = Some base'"
    using m \<open>m \<le> n\<close> len
    by (cases "m = n") (simp_all add: INSERTION_SORT_def n base'_def INSERTION_move_eq id_take_nth_drop [symmetric])
  moreover have "drop num base' = drop num base"
    using n len \<open>m \<le> n\<close> by (simp add: base'_def Suc_diff_le)
  moreover have take: "take num base' = take m base @ ?t # drop m (take n base)"
    using n len \<open>m \<le> n\<close> by (simp add: base'_def Suc_diff_le)
  have "mset (take num base') = mset (take num base)"
  proof -
    have "take num base = take m (take n base) @ drop m (take n base) @ [?t]"
      using n len by (simp only: append_assoc [symmetric] append_take_drop_id take_Suc_conv_app_nth)
    then show ?thesis using \<open>m \<le> n\<close> by (simp add: take min_def)
  qed
  moreover have "sorted (map key (take num base'))"
  proof -
    from assms(4) n have s: "sorted (map key (take n base))" by simp
    have "sorted (map key (take m base))" "sorted (map key (drop m (take n base)))"
      using sorted_wrt_take [OF s, of m] sorted_wrt_drop [OF s, of m] \<open>m \<le> n\<close>
      by (simp_all add: take_map drop_map min_def)
    moreover have "\<forall>x \<in> set (take m base). key x \<le> key ?t"
      "\<forall>y \<in> set (drop m (take n base)). key ?t \<le> key y"
      using split len by (auto simp: splits_at_def in_set_conv_nth)
    ultimately show ?thesis by (fastforce simp: take sorted_append)
  qed
  moreover have "length base' = length base" using len \<open>m \<le> n\<close> by (simp add: base'_def)
  ultimately show ?thesis by blast
qed

text \<open>One pass of the bubble sort carries a greatest element to the end of its range.\<close>

lemma SORT_step_key:
  assumes "Suc n < length base" "base ! n \<in> A" "base ! Suc n \<in> A"
  shows "\<exists>b. SORT_step cmp n base = Some b \<and> length b = length base \<and>
    drop (Suc (Suc n)) b = drop (Suc (Suc n)) base \<and> take n b = take n base \<and>
    mset (take (Suc (Suc n)) b) = mset (take (Suc (Suc n)) base) \<and>
    key (b ! n) \<le> key (b ! Suc n) \<and> key (base ! n) \<le> key (b ! Suc n)"
proof -
  obtain c where c: "cmp (base ! n) (base ! Suc n) = Some c"
    "0 < c \<longleftrightarrow> key (base ! Suc n) < key (base ! n)"
    using cmp_obtain [OF assms(2,3)] by metis
  have "take (Suc (Suc n)) (base[n := base ! Suc n, Suc n := base ! n])
      = (take (Suc (Suc n)) base)[n := take (Suc (Suc n)) base ! Suc n, Suc n := take (Suc (Suc n)) base ! n]"
    by (simp add: take_update_swap)
  then have "mset (take (Suc (Suc n)) (base[n := base ! Suc n, Suc n := base ! n]))
      = mset (take (Suc (Suc n)) base)"
    using assms(1) by (simp only:) (rule mset_swap, simp_all)
  with c assms(1) show ?thesis
    by (cases "0 < c") (auto simp: SORT_step_def nth_list_update)
qed

lemma SORT_inner_key:
  assumes "n < length base" "\<And>i. i \<le> n \<Longrightarrow> base ! i \<in> A"
  shows "\<exists>b. SORT_inner cmp n base = Some b \<and> length b = length base \<and>
    drop (Suc n) b = drop (Suc n) base \<and> mset (take (Suc n) b) = mset (take (Suc n) base) \<and>
    (\<forall>x \<in> set (take n b). key x \<le> key (b ! n))"
  using assms
proof (induction n)
  case (Suc n)
  then obtain b where b: "SORT_inner cmp n base = Some b" "length b = length base"
    "drop (Suc n) b = drop (Suc n) base" "mset (take (Suc n) b) = mset (take (Suc n) base)"
    "\<forall>x \<in> set (take n b). key x \<le> key (b ! n)"
    by fastforce
  have "b ! Suc n = base ! Suc n"
    using b(2,3) Suc.prems(1) by (metis Cons_nth_drop_Suc list.inject)
  moreover have "b ! n \<in> set (take (Suc n) base)"
    using b(2,4) Suc.prems(1) by (metis Suc_lessD in_set_conv_nth length_take lessI min_less_iff_conj nth_take set_mset_mset)
  ultimately have A: "b ! n \<in> A" "b ! Suc n \<in> A"
    using Suc.prems(2) [of "Suc n"] take_subset [of n base A] Suc.prems(2) by auto
  from b(2) Suc.prems(1) obtain b' where b': "SORT_step cmp n b = Some b'" "length b' = length b"
    "drop (Suc (Suc n)) b' = drop (Suc (Suc n)) b" "take n b' = take n b"
    "mset (take (Suc (Suc n)) b') = mset (take (Suc (Suc n)) b)"
    "key (b' ! n) \<le> key (b' ! Suc n)" "key (b ! n) \<le> key (b' ! Suc n)"
    using SORT_step_key [OF _ A] by auto
  have "drop (Suc (Suc n)) b = drop (Suc (Suc n)) base"
    using b(3) by (metis drop_Suc tl_drop)
  moreover have "mset (take (Suc (Suc n)) b) = mset (take (Suc (Suc n)) base)"
    using b(2,4) \<open>b ! Suc n = base ! Suc n\<close> Suc.prems(1) by (simp add: take_Suc_conv_app_nth)
  moreover have "take (Suc n) b' = take n b @ [b' ! n]"
    using b'(2,4) b(2) Suc.prems(1) by (simp add: take_Suc_conv_app_nth)
  then have "\<forall>x \<in> set (take (Suc n) b'). key x \<le> key (b' ! Suc n)"
    using b(5) b'(6,7) by fastforce
  ultimately show ?case using b b' by simp
qed (auto intro: exI [of _ base])

lemma SORT_outer_key:
  assumes "n < length base" "\<And>i. i \<le> n \<Longrightarrow> base ! i \<in> A"
  shows "\<exists>b. SORT_outer cmp n base = Some b \<and> length b = length base \<and>
    drop (Suc n) b = drop (Suc n) base \<and> mset (take (Suc n) b) = mset (take (Suc n) base) \<and>
    sorted (map key (take (Suc n) b))"
  using assms
proof (induction n arbitrary: base)
  case (Suc n)
  obtain b where b: "SORT_inner cmp (Suc n) base = Some b" "length b = length base"
    "drop (Suc (Suc n)) b = drop (Suc (Suc n)) base"
    "mset (take (Suc (Suc n)) b) = mset (take (Suc (Suc n)) base)"
    "\<forall>x \<in> set (take (Suc n) b). key x \<le> key (b ! Suc n)"
    using SORT_inner_key [OF Suc.prems] by auto
  have in_A: "b ! i \<in> A" if "i \<le> Suc n" for i
  proof -
    have "b ! i \<in> set (take (Suc (Suc n)) b)"
      using that b(2) Suc.prems(1) by (auto simp: in_set_conv_nth intro!: exI [of _ i])
    then have "b ! i \<in> set (take (Suc (Suc n)) base)" using b(4) by (metis set_mset_mset)
    then show ?thesis using take_subset [OF Suc.prems(2)] by auto
  qed
  obtain b' where b': "SORT_outer cmp n b = Some b'" "length b' = length b"
    "drop (Suc n) b' = drop (Suc n) b" "mset (take (Suc n) b') = mset (take (Suc n) b)"
    "sorted (map key (take (Suc n) b'))"
    using Suc.IH [of b] in_A b(2) Suc.prems(1) by auto
  have last: "b' ! Suc n = b ! Suc n"
    using b'(2,3) b(2) Suc.prems(1) by (metis Cons_nth_drop_Suc list.inject)
  have "take (Suc (Suc n)) b' = take (Suc n) b' @ [b ! Suc n]"
    using b'(2) b(2) Suc.prems(1) last by (simp add: take_Suc_conv_app_nth)
  moreover have "take (Suc (Suc n)) b = take (Suc n) b @ [b ! Suc n]"
    using b(2) Suc.prems(1) by (simp add: take_Suc_conv_app_nth)
  moreover have "\<forall>x \<in> set (take (Suc n) b'). key x \<le> key (b ! Suc n)"
    using b(5) b'(4) by (metis set_mset_mset)
  moreover have "drop (Suc (Suc n)) b' = drop (Suc (Suc n)) base"
    using b'(3) b(3) by (metis drop_Suc tl_drop)
  ultimately show ?case using b b' by (auto simp: sorted_append)
qed (auto intro: exI [of _ base] simp: take_Suc_conv_app_nth)

lemma SORT_key:
  assumes "num \<le> length base" "\<And>i. i < num \<Longrightarrow> base ! i \<in> A"
  shows "\<exists>b. SORT cmp base num = Some b \<and> length b = length base \<and>
    drop num b = drop num base \<and> mset (take num b) = mset (take num base) \<and>
    sorted (map key (take num b))"
proof (cases num)
  case 0
  then show ?thesis by (simp add: SORT_def)
next
  case (Suc n)
  with assms show ?thesis using SORT_outer_key [of n base] by (auto simp: SORT_def)
qed

end

end
