(* ===== verification/Hart.thy ===== *)
theory Hart
  imports X86_Syntax Array_Algorithms
begin

text \<open>
  \<open>struct hart\<close> of \<open>sandbox/hart.h\<close> and the translation cache that \<open>sandbox/hart.c\<close> keeps in it.
  The fields of the scheduler (task state, wait queue, list links) belong to the scheduler
  theories. The register file is the array that \<open>HART_REG\<close> indexes; the mapping array has
  \<open>MAX_INSTRUCTIONS_TOTRANSLATE\<close> slots of which the first \<open>nr_translated_instructions\<close> are live.
  The bytes of the translation cache are kept as blocks: a map from an offset to the block
  that was copied there.
\<close>

definition TRANSLATION_CACHE_SIZE :: int where
  "TRANSLATION_CACHE_SIZE = 1024 * 64"

definition MAX_INSTRUCTIONS_TOTRANSLATE :: nat where
  "MAX_INSTRUCTIONS_TOTRANSLATE = 512"

definition HART_MAGIC_WORD :: u32 where
  "HART_MAGIC_WORD = 0xdeadbeef"

definition PRIVILEGE_LEVEL_USER :: "2 word" where "PRIVILEGE_LEVEL_USER = 0"
definition PRIVILEGE_LEVEL_SUPERVISOR :: "2 word" where "PRIVILEGE_LEVEL_SUPERVISOR = 1"
definition PRIVILEGE_LEVEL_MACHINE :: "2 word" where "PRIVILEGE_LEVEL_MACHINE = 3"

record program_counter_mapping_item =
  guest_pc :: u32
  tc_offset :: u32

record status_control_blob =
  uie :: "1 word"
  sie :: "1 word"
  mie :: "1 word"
  upie :: "1 word"
  spie :: "1 word"
  mpie :: "1 word"
  spp :: "1 word"
  mpp :: "2 word"

text \<open>
  An entry of the (direct-mapped) TLBs. A \<open>struct pm_region_operation *\<close> is the index of the
  region in the array of the machine. The two page-table pointers of the entry are stored
  and never read; they are left out.
\<close>

record tlb_entry =
  va_tag :: u32
  pa_tag :: u32
  page_mask :: u32
  entry_valid :: bool
  tlb_pmr :: nat

text \<open>A \<open>struct virtual_machine *\<close> is a number; the machines are a map from it.\<close>

type_synonym vmptr = nat

record hart =
  registers :: "u32 list"
  pc :: u32
  hart_id :: u32
  native_vmptr :: vmptr
  nr_translated_instructions :: nat
  pc_mappings :: "program_counter_mapping_item list"
  translation_cache :: "int \<rightharpoonup> tc_block"
  translation_cache_ptr :: int
  csrs :: "12 word \<Rightarrow> u32"
  hart_magic :: u32
  idelegation :: u32
  ienable :: u32
  ipending :: u32
  status :: status_control_blob
  privilege_level :: "2 word"
  itlb :: "tlb_entry list"
  dtlb :: "tlb_entry list"
  tsc :: u64

record prefetch_blob =
  next_instruction_to_fetch :: u32
  is_to_stop :: bool
  is_flushable :: bool

text \<open>
  What the assembler and the linker decide: the size of each template
  (\<open>TRANSLATION_SIZE\<close>) and of the jumper (\<open>vmm_jumper_end - vmm_jumper_begin\<close>).
\<close>

record layout =
  TRANSLATION_SIZE :: "indicator \<Rightarrow> int"
  jumper_size :: int

subsection \<open>Operations\<close>

definition reset_registers :: "hart \<Rightarrow> hart" where
  "reset_registers h = h\<lparr>registers := replicate 32 0, pc := 0\<rparr>"

definition flush_translation_cache :: "hart \<Rightarrow> hart" where
  "flush_translation_cache h = h\<lparr>nr_translated_instructions := 0, translation_cache_ptr := 0\<rparr>"

text \<open>
  The allocations of \<open>hart_init\<close> are taken to succeed (it exits otherwise). No CSR is
  registered: the body of \<open>register_csr_entry\<close> is compiled out, so \<open>csr_registery_init\<close>
  walks an empty list and the CSR array stays cleared. The TLB pointers stay null.
\<close>

definition hart_init :: "u32 \<Rightarrow> hart" where
  "hart_init hid = flush_translation_cache
     \<lparr>registers = replicate 32 0, pc = 0, hart_id = hid, native_vmptr = 0,
      nr_translated_instructions = 0,
      pc_mappings = replicate MAX_INSTRUCTIONS_TOTRANSLATE \<lparr>guest_pc = 0, tc_offset = 0\<rparr>,
      translation_cache = Map.empty, translation_cache_ptr = 0, csrs = (\<lambda>_. 0),
      hart_magic = HART_MAGIC_WORD, idelegation = 0, ienable = 0, ipending = 0,
      status = \<lparr>uie = 0, sie = 0, mie = 0, upie = 0, spie = 0, mpie = 0, spp = 0, mpp = 0\<rparr>,
      privilege_level = PRIVILEGE_LEVEL_MACHINE, itlb = [], dtlb = [], tsc = 0\<rparr>"

definition unoccupied_cache_size :: "layout \<Rightarrow> hart \<Rightarrow> int" where
  "unoccupied_cache_size lay h =
     (if nr_translated_instructions h < MAX_INSTRUCTIONS_TOTRANSLATE
      then TRANSLATION_CACHE_SIZE - translation_cache_ptr h - jumper_size lay
      else 0)"

text \<open>The macro subtracts two unsigned words and reads the difference as an \<open>int\<close>.\<close>

definition comparing_mapping_item :: "program_counter_mapping_item comparator" where
  "comparing_mapping_item pa pb = Some (sint (guest_pc pa - guest_pc pb))"

text \<open>A \<open>memcpy\<close> of a block destroys every older block it overlaps.\<close>

definition tc_memcpy :: "int \<Rightarrow> tc_block \<Rightarrow> (int \<rightharpoonup> tc_block) \<Rightarrow> (int \<rightharpoonup> tc_block)" where
  "tc_memcpy off b tc = (\<lambda>o'. if o' = off then Some b
     else case tc o' of None \<Rightarrow> None
       | Some b' \<Rightarrow> if o' < off + blk_len b \<and> off < o' + blk_len b' then None else Some b')"

definition add_translation_item :: "layout \<Rightarrow> hart \<Rightarrow> u32 \<Rightarrow> tc_block \<Rightarrow> (int \<times> hart) option" where
  "add_translation_item lay h guest_instruction_address block =
     (if unoccupied_cache_size lay h < blk_len block then Some (-1, h)
      else if nr_translated_instructions h \<ge> MAX_INSTRUCTIONS_TOTRANSLATE then Some (-2, h)
      else let ptr = translation_cache_ptr h; n = nr_translated_instructions h;
               mappings = (pc_mappings h)
                 [n := \<lparr>guest_pc = guest_instruction_address, tc_offset = word_of_int ptr\<rparr>] in
        Option.bind (INSERTION_SORT comparing_mapping_item mappings (Suc n)) (\<lambda>sorted_mappings.
          Some (0, h\<lparr>translation_cache := tc_memcpy ptr block (translation_cache h),
                     translation_cache_ptr := ptr + blk_len block,
                     nr_translated_instructions := Suc n,
                     pc_mappings := sorted_mappings\<rparr>)))"

text \<open>\<open>comparing_mapping_item\<close> has no \<open>ASSERT\<close>, so the search always returns.\<close>

definition search_translation_item :: "hart \<Rightarrow> u32 \<Rightarrow> program_counter_mapping_item option" where
  "search_translation_item h guest_instruction_address =
     (case SEARCH comparing_mapping_item (pc_mappings h) (nr_translated_instructions h)
             \<lparr>guest_pc = guest_instruction_address, tc_offset = 0\<rparr> of
        Some (Some i) \<Rightarrow> Some (pc_mappings h ! i)
      | _ \<Rightarrow> None)"

subsection \<open>The macros of translation.h that fill the cache\<close>

text \<open>The first component is \<open>True\<close> where the macro returns from the translator.\<close>

definition PRECHECK_TRANSLATION_CACHE ::
  "layout \<Rightarrow> indicator \<Rightarrow> prefetch_blob \<Rightarrow> hart \<Rightarrow> bool \<times> prefetch_blob \<times> hart" where
  "PRECHECK_TRANSLATION_CACHE lay ind blob h =
     (if TRANSLATION_SIZE lay ind > unoccupied_cache_size lay h then
        (if is_flushable blob
         then (False, blob\<lparr>is_flushable := False\<rparr>, flush_translation_cache h)
         else (True, blob\<lparr>is_to_stop := True\<rparr>, h))
      else (False, blob\<lparr>is_flushable := False\<rparr>, h))"

text \<open>
  The parameters are written over the last words of the block that the search finds at the
  instruction's address. A block of another shape there would be corrupted; that outcome has
  no model and is \<open>None\<close>, like a failed \<open>ASSERT\<close>.
\<close>

definition patch_params :: "int \<Rightarrow> int \<Rightarrow> u32 list \<Rightarrow> (int \<rightharpoonup> tc_block) \<Rightarrow> (int \<rightharpoonup> tc_block) option" where
  "patch_params off len params tc =
     (case tc off of
        Some b \<Rightarrow> if blk_len b = len \<and> length (blk_params b) = length params
                 then Some (tc(off \<mapsto> b\<lparr>blk_params := params\<rparr>)) else None
      | None \<Rightarrow> None)"

definition COMMIT_TRANSLATION ::
  "layout \<Rightarrow> indicator \<Rightarrow> x86 list \<Rightarrow> u32 list \<Rightarrow> hart \<Rightarrow> u32 \<Rightarrow> hart option" where
  "COMMIT_TRANSLATION lay ind code params h instruction_linear_addr =
     (let len = TRANSLATION_SIZE lay ind;
          block = \<lparr>blk_code = code, blk_params = replicate (length params) PARAM32, blk_len = len\<rparr> in
      Option.bind (add_translation_item lay h instruction_linear_addr block) (\<lambda>(rc, h1).
      ASSERT (rc = 0)
      (case search_translation_item h1 instruction_linear_addr of
         None \<Rightarrow> None
       | Some item \<Rightarrow> ASSERT (guest_pc item = instruction_linear_addr)
           (Option.bind (patch_params (uint (tc_offset item)) len params (translation_cache h1)) (\<lambda>tc.
              Some (h1\<lparr>translation_cache := tc\<rparr>))))))"

text \<open>
  The body that all translators share: check the room, copy and patch the template, then
  either stop the translation unit or go on with the next instruction.
\<close>

definition emit_translation ::
  "layout \<Rightarrow> indicator \<Rightarrow> x86 list \<Rightarrow> u32 list \<Rightarrow> bool \<Rightarrow> prefetch_blob \<Rightarrow> hart \<Rightarrow>
   (prefetch_blob \<times> hart) option" where
  "emit_translation lay ind code params stop blob h =
     (let addr = next_instruction_to_fetch blob;
          (returned, blob1, h1) = PRECHECK_TRANSLATION_CACHE lay ind blob h in
      if returned then Some (blob1, h1)
      else Option.bind (COMMIT_TRANSLATION lay ind code params h1 addr) (\<lambda>h2.
        Some (if stop then blob1\<lparr>is_to_stop := True\<rparr>
              else blob1\<lparr>next_instruction_to_fetch := addr + 4\<rparr>, h2)))"

end
