(* ===== verification/X86_Host.thy ===== *)
theory X86_Host
  imports Hart "HOL-Library.Signed_Division"
begin

text \<open>
  What the host does when it runs a block of the translation cache. Before control enters the
  cache, \<open>vmresume\<close> (and \<open>do_trap\<close>) load \<open>r15\<close> with the address of the register file, \<open>r14\<close>
  with the address of the guest pc, \<open>r13\<close> with the cache and \<open>r12\<close> with the hart. The register
  file is the first field of \<open>struct hart\<close> and the pc follows its 32 words, so a host pointer
  into the hart is an offset: \<open>4 * i\<close> for register \<open>i\<close> and 128 for the pc.

  A host value is a plain 64-bit number, such a pointer, the address of a C function, the
  address of the cache, or unknown (a caller-saved register after a call). An operation on a
  value of the wrong kind, an access outside the register file and the pc, or a jump on flags
  that no comparison has set is \<open>Stuck\<close>: no template may ever get there. A C function that a
  template calls is a parameter \<open>cc\<close> of the execution; it returns, leaves through
  \<open>vmm_entry_point\<close> (\<open>do_trap\<close>), or exits the process.
\<close>

datatype hval = Vundef | Vint u64 | Vhart u64 | Vsym csym | Vtc

record eflags_t =
  ZF :: bool
  CF :: bool
  SF :: bool
  OF :: bool

record 'w host =
  gpr :: "hreg \<Rightarrow> hval"
  eflags :: "eflags_t option"
  stk :: "hval list"
  cpu :: hart
  world :: 'w

datatype 'w cresult = Returned hval hart 'w | Trapped hart 'w | Exit

datatype 'w outcome = At_end "'w host" | To_vmm hart 'w | Divide_error | Exited | Stuck

datatype 'w step = Next "'w host" | Goto nat "'w host" | Done "'w outcome"

type_synonym 'w ccalls = "csym \<Rightarrow> hval list \<Rightarrow> hart \<Rightarrow> 'w \<Rightarrow> 'w cresult"

subsection \<open>Registers, memory and flags\<close>

definition load32 :: "hart \<Rightarrow> u64 \<Rightarrow> u32 option" where
  "load32 h off =
     (if unat off < 128 \<and> unat off mod 4 = 0
      then Some (registers h ! (unat off div 4))
      else if unat off = 128 then Some (pc h) else None)"

definition store32 :: "u64 \<Rightarrow> u32 \<Rightarrow> hart \<Rightarrow> hart option" where
  "store32 off v h =
     (if unat off < 128 \<and> unat off mod 4 = 0
      then Some (h\<lparr>registers := (registers h)[unat off div 4 := v]\<rparr>)
      else if unat off = 128 then Some (h\<lparr>pc := v\<rparr>) else None)"

definition with64 :: "'w host \<Rightarrow> hreg \<Rightarrow> (u64 \<Rightarrow> 'w step) \<Rightarrow> 'w step" where
  "with64 s r k = (case gpr s r of Vint x \<Rightarrow> k x | _ \<Rightarrow> Done Stuck)"

definition with32 :: "'w host \<Rightarrow> hreg \<Rightarrow> (u32 \<Rightarrow> 'w step) \<Rightarrow> 'w step" where
  "with32 s r k = with64 s r (\<lambda>x. k (ucast x))"

definition with_param :: "u32 list \<Rightarrow> nat \<Rightarrow> (u32 \<Rightarrow> 'w step) \<Rightarrow> 'w step" where
  "with_param ps n k = (if n < length ps then k (ps ! n) else Done Stuck)"

definition with_addr :: "'w host \<Rightarrow> hreg \<Rightarrow> (u64 \<Rightarrow> 'w step) \<Rightarrow> 'w step" where
  "with_addr s r k = (case gpr s r of Vhart off \<Rightarrow> k off | _ \<Rightarrow> Done Stuck)"

definition set_reg :: "hreg \<Rightarrow> hval \<Rightarrow> 'w host \<Rightarrow> 'w host" where
  "set_reg r v s = s\<lparr>gpr := (gpr s)(r := v)\<rparr>"

definition set32 :: "hreg \<Rightarrow> u32 \<Rightarrow> 'w host \<Rightarrow> 'w host" where
  "set32 r v s = set_reg r (Vint (ucast v)) s"

definition no_flags :: "'w host \<Rightarrow> 'w host" where
  "no_flags s = s\<lparr>eflags := None\<rparr>"

definition mem_load :: "'w host \<Rightarrow> u64 \<Rightarrow> (u32 \<Rightarrow> 'w step) \<Rightarrow> 'w step" where
  "mem_load s off k = (case load32 (cpu s) off of Some v \<Rightarrow> k v | None \<Rightarrow> Done Stuck)"

definition mem_store :: "'w host \<Rightarrow> u64 \<Rightarrow> u32 \<Rightarrow> 'w step" where
  "mem_store s off v =
     (case store32 off v (cpu s) of Some h \<Rightarrow> Next (s\<lparr>cpu := h\<rparr>) | None \<Rightarrow> Done Stuck)"

text \<open>\<open>cmpl a, b\<close> sets the flags of \<open>b - a\<close>.\<close>

definition cmp_flags :: "u32 \<Rightarrow> u32 \<Rightarrow> eflags_t" where
  "cmp_flags a b =
     \<lparr>ZF = (b - a = 0), CF = (b < a), SF = bit (b - a) 31,
      OF = (sint (b - a) \<noteq> sint b - sint a)\<rparr>"

fun holds :: "cond \<Rightarrow> eflags_t \<Rightarrow> bool" where
  "holds cE f = ZF f"
| "holds cNE f = (\<not> ZF f)"
| "holds cB f = CF f"
| "holds cAE f = (\<not> CF f)"
| "holds cL f = (SF f \<noteq> OF f)"
| "holds cGE f = (SF f = OF f)"

definition with_flags :: "'w host \<Rightarrow> (eflags_t \<Rightarrow> 'w step) \<Rightarrow> 'w step" where
  "with_flags s k = (case eflags s of Some f \<Rightarrow> k f | None \<Rightarrow> Done Stuck)"

fun alu_fun :: "alu_op \<Rightarrow> u32 \<Rightarrow> u32 \<Rightarrow> u32" where
  "alu_fun aADD y x = y + x"
| "alu_fun aSUB y x = y - x"
| "alu_fun aAND y x = y AND x"
| "alu_fun aOR y x = y OR x"
| "alu_fun aXOR y x = y XOR x"

text \<open>A shift of a 32-bit operand by \<open>%cl\<close> uses the low five bits of the count.\<close>

fun shift_fun :: "shift_op \<Rightarrow> nat \<Rightarrow> u32 \<Rightarrow> u32" where
  "shift_fun sSHL n x = push_bit n x"
| "shift_fun sSHR n x = drop_bit n x"
| "shift_fun sSAR n x = signed_drop_bit n x"

fun ext_fun :: "ext_op \<Rightarrow> u32 \<Rightarrow> u32" where
  "ext_fun eZBL x = ucast (ucast x :: u8)"
| "ext_fun eSBL x = scast (ucast x :: u8)"
| "ext_fun eZWL x = ucast (ucast x :: u16)"
| "ext_fun eSWL x = scast (ucast x :: u16)"

text \<open>The one-operand multiplications and divisions work on \<open>edx:eax\<close>.\<close>

definition mul_edx_eax :: "(u32 \<Rightarrow> u64) \<Rightarrow> hreg \<Rightarrow> 'w host \<Rightarrow> 'w step" where
  "mul_edx_eax ext r s = with32 s RAX (\<lambda>a. with32 s r (\<lambda>b.
     let p = ext a * ext b in
     Next (no_flags (set32 RDX (ucast (drop_bit 32 p)) (set32 RAX (ucast p) s)))))"

definition edx_eax :: "u32 \<Rightarrow> u32 \<Rightarrow> u64" where
  "edx_eax d a = push_bit 32 (ucast d) OR ucast a"

definition idiv_edx_eax :: "hreg \<Rightarrow> 'w host \<Rightarrow> 'w step" where
  "idiv_edx_eax r s = with32 s RAX (\<lambda>a. with32 s RDX (\<lambda>d. with32 s r (\<lambda>b.
     let n = sint (edx_eax d a); q = n sdiv sint b in
     if sint b = 0 \<or> q < - (2 ^ 31) \<or> 2 ^ 31 \<le> q then Done Divide_error
     else Next (no_flags (set32 RDX (word_of_int (n smod sint b)) (set32 RAX (word_of_int q) s))))))"

definition div_edx_eax :: "hreg \<Rightarrow> 'w host \<Rightarrow> 'w step" where
  "div_edx_eax r s = with32 s RAX (\<lambda>a. with32 s RDX (\<lambda>d. with32 s r (\<lambda>b.
     let n = uint (edx_eax d a); q = n div uint b in
     if uint b = 0 \<or> 2 ^ 32 \<le> q then Done Divide_error
     else Next (no_flags (set32 RDX (word_of_int (n mod uint b)) (set32 RAX (word_of_int q) s))))))"

fun muldiv :: "muldiv_op \<Rightarrow> hreg \<Rightarrow> 'w host \<Rightarrow> 'w step" where
  "muldiv mIMULL r s = mul_edx_eax scast r s"
| "muldiv mMULL r s = mul_edx_eax ucast r s"
| "muldiv mIMULQ r s = with64 s RAX (\<lambda>a. with64 s r (\<lambda>b.
     let p = (scast a :: 128 word) * scast b in
     Next (no_flags (set_reg RDX (Vint (ucast (drop_bit 64 p))) (set_reg RAX (Vint (ucast p)) s)))))"
| "muldiv mIDIVL r s = idiv_edx_eax r s"
| "muldiv mDIVL r s = div_edx_eax r s"

text \<open>
  The C calling convention: five arguments in registers, the result in \<open>rax\<close>; the other
  caller-saved registers and the flags are unknown afterwards.
\<close>

definition call_args :: "'w host \<Rightarrow> hval list" where
  "call_args s = [gpr s RDI, gpr s RSI, gpr s RDX, gpr s RCX, gpr s R8]"

definition after_call :: "hval \<Rightarrow> hart \<Rightarrow> 'w \<Rightarrow> 'w host \<Rightarrow> 'w host" where
  "after_call v h w s =
     s\<lparr>gpr := (gpr s)(RAX := v, RCX := Vundef, RDX := Vundef, RSI := Vundef, RDI := Vundef,
                      R8 := Vundef),
       eflags := None, cpu := h, world := w\<rparr>"

subsection \<open>One instruction\<close>

fun x86_step :: "'w ccalls \<Rightarrow> u32 list \<Rightarrow> x86 \<Rightarrow> 'w host \<Rightarrow> 'w step" where
  "x86_step cc ps (Movl_param n r) s = with_param ps n (\<lambda>v. Next (set32 r v s))"
| "x86_step cc ps (Movl_load a r) s = with_addr s a (\<lambda>off. mem_load s off (\<lambda>v. Next (set32 r v s)))"
| "x86_step cc ps (Movl_store r a) s = with_addr s a (\<lambda>off. with32 s r (mem_store s off))"
| "x86_step cc ps (Movl a b) s = with32 s a (\<lambda>v. Next (set32 b v s))"
| "x86_step cc ps (Movl_imm i r) s = Next (set32 r i s)"
| "x86_step cc ps (Movl_imm_store i a) s = with_addr s a (\<lambda>off. mem_store s off i)"
| "x86_step cc ps (Addl_imm_store i a) s =
     with_addr s a (\<lambda>off. mem_load s off (\<lambda>v. mem_store (no_flags s) off (v + i)))"
| "x86_step cc ps (Alu_imm f i r) s = with32 s r (\<lambda>v. Next (no_flags (set32 r (alu_fun f v i) s)))"
| "x86_step cc ps (Shl_imm n r) s = with32 s r (\<lambda>v. Next (no_flags (set32 r (push_bit n v) s)))"
| "x86_step cc ps (Shrq_imm n r) s = with64 s r (\<lambda>v. Next (no_flags (set_reg r (Vint (drop_bit n v)) s)))"
| "x86_step cc ps (Addq a b) s =
     (case (gpr s a, gpr s b) of
        (Vhart off, Vint x) \<Rightarrow> Next (no_flags (set_reg b (Vhart (off + x)) s))
      | (Vint x, Vint y) \<Rightarrow> Next (no_flags (set_reg b (Vint (y + x)) s))
      | _ \<Rightarrow> Done Stuck)"
| "x86_step cc ps (Alu f a b) s =
     (if f = aXOR \<and> a = b then Next (no_flags (set32 b 0 s))
      else with32 s a (\<lambda>x. with32 s b (\<lambda>y. Next (no_flags (set32 b (alu_fun f y x) s)))))"
| "x86_step cc ps (Shift_cl f r) s =
     with32 s RCX (\<lambda>c. with32 s r (\<lambda>x.
       Next (no_flags (set32 r (shift_fun f (unat (c AND 31)) x) s))))"
| "x86_step cc ps (Cmpl a b) s =
     with32 s a (\<lambda>x. with32 s b (\<lambda>y. Next (s\<lparr>eflags := Some (cmp_flags x y)\<rparr>)))"
| "x86_step cc ps (Cmpl_imm i b) s = with32 s b (\<lambda>y. Next (s\<lparr>eflags := Some (cmp_flags i y)\<rparr>))"
| "x86_step cc ps (Cmpl_param n b) s =
     with_param ps n (\<lambda>x. with32 s b (\<lambda>y. Next (s\<lparr>eflags := Some (cmp_flags x y)\<rparr>)))"
| "x86_step cc ps (Setcc c r) s = with_flags s (\<lambda>f. with64 s r (\<lambda>x.
     Next (set_reg r (Vint ((x AND NOT 0xff) OR (if holds c f then 1 else 0))) s)))"
| "x86_step cc ps (Movx f a b) s = with32 s a (\<lambda>x. Next (set32 b (ext_fun f x) s))"
| "x86_step cc ps (Movsxd a b) s = with32 s a (\<lambda>x. Next (set_reg b (Vint (scast x)) s))"
| "x86_step cc ps (Muldiv f r) s = muldiv f r s"
| "x86_step cc ps (Btr_imm n r) s =
     with32 s r (\<lambda>x. Next (no_flags (set32 r (x AND NOT (push_bit n 1)) s)))"
| "x86_step cc ps (Jcc c l) s = with_flags s (\<lambda>f. if holds c f then Goto l s else Next s)"
| "x86_step cc ps (Jmp l) s = Goto l s"
| "x86_step cc ps (Label l) s = Next s"
| "x86_step cc ps (Movq a b) s = Next (set_reg b (gpr s a) s)"
| "x86_step cc ps (Movq_imm i r) s = Next (set_reg r (Vint i) s)"
| "x86_step cc ps (Movq_sym f r) s = Next (set_reg r (Vsym f) s)"
| "x86_step cc ps (Pushq r) s = Next (s\<lparr>stk := gpr s r # stk s\<rparr>)"
| "x86_step cc ps (Popq r) s =
     (case stk s of v # vs \<Rightarrow> Next (set_reg r v (s\<lparr>stk := vs\<rparr>)) | [] \<Rightarrow> Done Stuck)"
| "x86_step cc ps (Call r) s =
     (case gpr s r of
        Vsym f \<Rightarrow> (case cc f (call_args s) (cpu s) (world s) of
            Returned v h w \<Rightarrow> Next (after_call v h w s)
          | Trapped h w \<Rightarrow> Done (To_vmm h w)
          | Exit \<Rightarrow> Done Exited)
      | _ \<Rightarrow> Done Stuck)"
| "x86_step cc ps Jmp_end s = Done (At_end s)"
| "x86_step cc ps (Jmpq r) s =
     (if gpr s r = Vsym vmm_entry_point_sym then Done (To_vmm (cpu s) (world s)) else Done Stuck)"

subsection \<open>A block\<close>

text \<open>The templates jump forward only, to a numeric label further down (\<open>1f\<close>, \<open>2f\<close>).\<close>

fun after_label :: "nat \<Rightarrow> x86 list \<Rightarrow> x86 list" where
  "after_label l [] = []"
| "after_label l (i # is) = (if i = Label l then is else after_label l is)"

lemma length_after_label: "length (after_label l is) \<le> length is"
  by (induction l "is" rule: after_label.induct) auto

text \<open>Running past the last instruction would execute the parameter words.\<close>

function x86_exec :: "'w ccalls \<Rightarrow> u32 list \<Rightarrow> x86 list \<Rightarrow> 'w host \<Rightarrow> 'w outcome" where
  "x86_exec cc ps [] s = Stuck"
| "x86_exec cc ps (i # is) s =
     (case x86_step cc ps i s of
        Next s' \<Rightarrow> x86_exec cc ps is s'
      | Goto l s' \<Rightarrow> x86_exec cc ps (after_label l is) s'
      | Done r \<Rightarrow> r)"
  by pat_completeness auto
termination
  by (relation "measure (\<lambda>(cc, ps, is, s). length is)")
     (auto simp: le_imp_less_Suc length_after_label)

end
