(* ===== verification/Riscv_Spec.thy ===== *)
theory Riscv_Spec
  imports Hart "HOL-Library.Signed_Division"
begin

text \<open>
  The abstract specification of the guest: the RV32IM user-level instructions, their decoding
  and their effect on the register file and the pc, written from the instruction set and not
  from the translators. Register 0 reads as zero and ignores writes. Register numbers are
  5-bit words, immediates are the sign-extended 32-bit values.
\<close>

datatype rv_op =
    rADD | rSUB | rSLL | rSLT | rSLTU | rXOR | rSRL | rSRA | rOR | rAND
  | rMUL | rMULH | rMULHSU | rMULHU | rDIV | rDIVU | rREM | rREMU

datatype rv_branch = rBEQ | rBNE | rBLT | rBGE | rBLTU | rBGEU

datatype rv_load = rLB | rLH | rLW | rLBU | rLHU

datatype rv_store = rSB | rSH | rSW

subsection \<open>Registers\<close>

definition wf_hart :: "hart \<Rightarrow> bool" where
  "wf_hart h \<longleftrightarrow> length (registers h) = 32 \<and> registers h ! 0 = 0"

definition rv_x :: "hart \<Rightarrow> 5 word \<Rightarrow> u32" where
  "rv_x h r = (if r = 0 then 0 else registers h ! unat r)"

definition rv_set :: "5 word \<Rightarrow> u32 \<Rightarrow> hart \<Rightarrow> hart" where
  "rv_set r v h = (if r = 0 then h else h\<lparr>registers := (registers h)[unat r := v]\<rparr>)"

definition rv_next :: "hart \<Rightarrow> hart" where
  "rv_next h = h\<lparr>pc := pc h + 4\<rparr>"

definition rv_goto :: "u32 \<Rightarrow> hart \<Rightarrow> hart" where
  "rv_goto t h = h\<lparr>pc := t\<rparr>"

subsection \<open>Operations\<close>

fun rv_alu :: "rv_op \<Rightarrow> u32 \<Rightarrow> u32 \<Rightarrow> u32" where
  "rv_alu rADD a b = a + b"
| "rv_alu rSUB a b = a - b"
| "rv_alu rSLL a b = push_bit (unat b mod 32) a"
| "rv_alu rSLT a b = (if sint a < sint b then 1 else 0)"
| "rv_alu rSLTU a b = (if a < b then 1 else 0)"
| "rv_alu rXOR a b = a XOR b"
| "rv_alu rSRL a b = drop_bit (unat b mod 32) a"
| "rv_alu rSRA a b = signed_drop_bit (unat b mod 32) a"
| "rv_alu rOR a b = a OR b"
| "rv_alu rAND a b = a AND b"
| "rv_alu rMUL a b = a * b"
| "rv_alu rMULH a b = word_of_int ((sint a * sint b) div 2 ^ 32)"
| "rv_alu rMULHSU a b = word_of_int ((sint a * uint b) div 2 ^ 32)"
| "rv_alu rMULHU a b = word_of_int ((uint a * uint b) div 2 ^ 32)"
| "rv_alu rDIV a b = (if b = 0 then - 1 else word_of_int (sint a sdiv sint b))"
| "rv_alu rDIVU a b = (if b = 0 then - 1 else a div b)"
| "rv_alu rREM a b = (if b = 0 then a else word_of_int (sint a smod sint b))"
| "rv_alu rREMU a b = (if b = 0 then a else a mod b)"

fun rv_taken :: "rv_branch \<Rightarrow> u32 \<Rightarrow> u32 \<Rightarrow> bool" where
  "rv_taken rBEQ a b = (a = b)"
| "rv_taken rBNE a b = (a \<noteq> b)"
| "rv_taken rBLT a b = (sint a < sint b)"
| "rv_taken rBGE a b = (sint b \<le> sint a)"
| "rv_taken rBLTU a b = (a < b)"
| "rv_taken rBGEU a b = (b \<le> a)"

subsection \<open>Effect of the instructions that stay inside the hart\<close>

definition rv_exec_op :: "rv_op \<Rightarrow> 5 word \<Rightarrow> 5 word \<Rightarrow> 5 word \<Rightarrow> hart \<Rightarrow> hart" where
  "rv_exec_op f rd rs1 rs2 h = rv_next (rv_set rd (rv_alu f (rv_x h rs1) (rv_x h rs2)) h)"

definition rv_exec_op_imm :: "rv_op \<Rightarrow> 5 word \<Rightarrow> 5 word \<Rightarrow> u32 \<Rightarrow> hart \<Rightarrow> hart" where
  "rv_exec_op_imm f rd rs1 imm h = rv_next (rv_set rd (rv_alu f (rv_x h rs1) imm) h)"

definition rv_exec_branch :: "rv_branch \<Rightarrow> 5 word \<Rightarrow> 5 word \<Rightarrow> u32 \<Rightarrow> hart \<Rightarrow> hart" where
  "rv_exec_branch f rs1 rs2 off h =
     (if rv_taken f (rv_x h rs1) (rv_x h rs2) then rv_goto (pc h + off) h else rv_next h)"

definition rv_exec_lui :: "5 word \<Rightarrow> u32 \<Rightarrow> hart \<Rightarrow> hart" where
  "rv_exec_lui rd imm h = rv_next (rv_set rd imm h)"

definition rv_exec_auipc :: "5 word \<Rightarrow> u32 \<Rightarrow> hart \<Rightarrow> hart" where
  "rv_exec_auipc rd imm h = rv_next (rv_set rd (pc h + imm) h)"

definition rv_exec_jal :: "5 word \<Rightarrow> u32 \<Rightarrow> hart \<Rightarrow> hart" where
  "rv_exec_jal rd off h = rv_goto (pc h + off) (rv_set rd (pc h + 4) h)"

definition rv_exec_jalr :: "5 word \<Rightarrow> 5 word \<Rightarrow> u32 \<Rightarrow> hart \<Rightarrow> hart" where
  "rv_exec_jalr rd rs1 off h =
     rv_goto ((rv_x h rs1 + off) AND NOT 1) (rv_set rd (pc h + 4) h)"

subsection \<open>Loads and stores\<close>

text \<open>The memory of the guest is little-endian: a load takes the bytes at its address in order.\<close>

fun rv_load_size :: "rv_load \<Rightarrow> nat" where
  "rv_load_size rLB = 1"
| "rv_load_size rLBU = 1"
| "rv_load_size rLH = 2"
| "rv_load_size rLHU = 2"
| "rv_load_size rLW = 4"

fun rv_load_value :: "rv_load \<Rightarrow> u8 list \<Rightarrow> u32" where
  "rv_load_value rLB bs = scast (ucast (le_word bs) :: u8)"
| "rv_load_value rLBU bs = ucast (ucast (le_word bs) :: u8)"
| "rv_load_value rLH bs = scast (ucast (le_word bs) :: u16)"
| "rv_load_value rLHU bs = ucast (ucast (le_word bs) :: u16)"
| "rv_load_value rLW bs = ucast (le_word bs)"

fun rv_store_size :: "rv_store \<Rightarrow> nat" where
  "rv_store_size rSB = 1"
| "rv_store_size rSH = 2"
| "rv_store_size rSW = 4"

definition rv_ea :: "5 word \<Rightarrow> u32 \<Rightarrow> hart \<Rightarrow> u32" where
  "rv_ea rs1 off h = rv_x h rs1 + off"

definition rv_exec_load :: "rv_load \<Rightarrow> 5 word \<Rightarrow> u8 list \<Rightarrow> hart \<Rightarrow> hart" where
  "rv_exec_load f rd bs h = rv_next (rv_set rd (rv_load_value f bs) h)"

definition rv_store_bytes :: "rv_store \<Rightarrow> 5 word \<Rightarrow> hart \<Rightarrow> u8 list" where
  "rv_store_bytes f rs2 h = le_bytes (rv_store_size f) (ucast (rv_x h rs2))"

lemmas rv_exec_defs [rv_ref] =
  rv_exec_op_def rv_exec_op_imm_def rv_exec_branch_def rv_exec_lui_def rv_exec_auipc_def
  rv_exec_jal_def rv_exec_jalr_def rv_ea_def rv_exec_load_def rv_store_bytes_def

subsection \<open>Well-formedness is kept\<close>

lemma unat_5_less [simp]: "unat (r :: 5 word) < 32"
proof -
  have "unat r < 2 ^ LENGTH(5)" by (rule unsigned_less)
  then show ?thesis by simp
qed

lemma wf_hart_length: "wf_hart h \<Longrightarrow> length (registers h) = 32"
  by (simp add: wf_hart_def)

lemma wf_rv_set [simp]: "wf_hart h \<Longrightarrow> wf_hart (rv_set r v h)"
  by (auto simp: wf_hart_def rv_set_def nth_list_update unat_eq_zero)

lemma wf_rv_next [simp]: "wf_hart (rv_next h) = wf_hart h"
  by (simp add: wf_hart_def rv_next_def)

lemma wf_rv_goto [simp]: "wf_hart (rv_goto t h) = wf_hart h"
  by (simp add: wf_hart_def rv_goto_def)

lemma rv_x_nth: "wf_hart h \<Longrightarrow> registers h ! unat r = rv_x h r"
  by (auto simp: wf_hart_def rv_x_def)

text \<open>
  A template writes \<open>rd\<close> unconditionally and clears register 0 afterwards; on a well-formed
  hart that is a guest register write.
\<close>

lemma write_then_clear_zero:
  assumes "wf_hart h"
  shows "h\<lparr>registers := (registers h)[unat r := v, 0 := 0]\<rparr> = rv_set r v h"
proof -
  from assms have zero: "(registers h)[0 := 0] = registers h"
    by (metis list_update_id wf_hart_def)
  show ?thesis
  proof (cases "r = 0")
    case True
    with zero show ?thesis by (simp add: rv_set_def)
  next
    case False
    then have "unat r \<noteq> 0" by (simp add: unat_eq_zero)
    then have "(registers h)[unat r := v, 0 := 0] = (registers h)[unat r := v]"
      by (metis list_update_swap zero)
    with False show ?thesis by (simp add: rv_set_def)
  qed
qed

end
