(* ===== verification/X86_Run.thy ===== *)
theory X86_Run
  imports X86_Host Riscv_Spec
begin

text \<open>
  The rules that run a template symbolically, and the interface between a template and the C
  functions of the monitor. \<open>entered\<close> is the state in which control arrives at a block (from
  \<open>vmresume\<close> or from the block before); \<open>completes\<close> says that a block runs to its end and
  arrives at the next one with a given hart, \<open>leaves\<close> that it traps to the monitor.
\<close>

definition entered :: "'w host \<Rightarrow> hart \<Rightarrow> 'w \<Rightarrow> bool" where
  "entered s h w \<longleftrightarrow> gpr s R15 = Vhart 0 \<and> gpr s R14 = Vhart 128 \<and> gpr s R13 = Vtc \<and>
     gpr s R12 = Vhart 0 \<and> cpu s = h \<and> world s = w \<and> wf_hart h"

definition completes :: "'w ccalls \<Rightarrow> u32 list \<Rightarrow> x86 list \<Rightarrow> 'w host \<Rightarrow> hart \<Rightarrow> 'w \<Rightarrow> bool" where
  "completes cc ps code s h' w' \<longleftrightarrow>
     (\<exists>s'. x86_exec cc ps code s = At_end s' \<and> entered s' h' w' \<and> stk s' = stk s)"

definition leaves :: "'w ccalls \<Rightarrow> u32 list \<Rightarrow> x86 list \<Rightarrow> 'w host \<Rightarrow> hart \<Rightarrow> 'w \<Rightarrow> bool" where
  "leaves cc ps code s h' w' \<longleftrightarrow> x86_exec cc ps code s = To_vmm h' w' \<and> wf_hart h'"

lemma enteredD:
  assumes "entered s h w"
  shows "gpr s R15 = Vhart 0" "gpr s R14 = Vhart 128" "gpr s R13 = Vtc" "gpr s R12 = Vhart 0"
    "cpu s = h" "world s = w" "wf_hart h"
  using assms by (simp_all add: entered_def)

lemmas x86_defs [x86_run] =
  completes_def leaves_def entered_def
  with64_def with32_def with_param_def with_addr_def set_reg_def set32_def no_flags_def
  mem_load_def mem_store_def with_flags_def call_args_def after_call_def

subsection \<open>Addresses inside the hart\<close>

abbreviation reg_param :: "5 word \<Rightarrow> u32" where
  "reg_param r \<equiv> ucast r"

lemma unat_reg_param [simp]: "unat (reg_param r) = unat r"
  by transfer (simp add: take_bit_eq_mod)

lemma unat_reg_offset: "unat (ucast (push_bit 2 (reg_param r) :: u32) :: u64) = 4 * unat r"
proof -
  have "unat r * 4 < 4294967296" using unat_5_less [of r] by linarith
  then show ?thesis by (simp add: push_bit_eq_mult unat_word_ariths)
qed

lemma load32_reg [x86_run]:
  "load32 h (ucast (push_bit 2 (reg_param r))) = Some (registers h ! unat r)"
  unfolding load32_def unat_reg_offset by simp

lemma store32_reg [x86_run]:
  "store32 (ucast (push_bit 2 (reg_param r))) v h = Some (h\<lparr>registers := (registers h)[unat r := v]\<rparr>)"
  unfolding store32_def unat_reg_offset by simp

lemma store32_zero [x86_run]: "store32 0 v h = Some (h\<lparr>registers := (registers h)[0 := v]\<rparr>)"
  by (simp add: store32_def)

lemma load32_pc [x86_run]: "load32 h 128 = Some (pc h)"
  by (simp add: load32_def)

lemma store32_pc [x86_run]: "store32 128 v h = Some (h\<lparr>pc := v\<rparr>)"
  by (simp add: store32_def)

text \<open>Retiring an instruction: the stores of a template, read as guest state changes.\<close>

lemma retire_pc [x86_run]: "h\<lparr>pc := p\<rparr> = rv_goto p h"
  by (simp add: rv_goto_def)

lemma rv_next_goto [x86_run]: "rv_next h = rv_goto (pc h + 4) h"
  by (simp add: rv_next_def rv_goto_def)

lemmas retire_rules [x86_run] = write_then_clear_zero rv_x_nth

lemma pc_rv_set [simp]: "pc (rv_set r v h) = pc h"
  by (simp add: rv_set_def)

subsection \<open>Conditions after a comparison\<close>

lemma cmp_flags_less: "(SF (cmp_flags a b) \<noteq> OF (cmp_flags a b)) \<longleftrightarrow> sint b < sint a"
proof -
  have "bit (b - a) 31 \<longleftrightarrow> sint (b - a) < 0"
    using bit_last_iff [of "b - a"] by simp
  then show ?thesis
    using sint_32_range [of a] sint_32_range [of b]
    by (auto simp: cmp_flags_def sint_diff_cases)
qed

text \<open>What each condition code says of the two operands of the comparison before it.\<close>

lemma holds_cmp [x86_run]:
  "holds cE (cmp_flags a b) \<longleftrightarrow> b = a"
  "holds cNE (cmp_flags a b) \<longleftrightarrow> b \<noteq> a"
  "holds cB (cmp_flags a b) \<longleftrightarrow> b < a"
  "holds cAE (cmp_flags a b) \<longleftrightarrow> a \<le> b"
  "holds cL (cmp_flags a b) \<longleftrightarrow> sint b < sint a"
  "holds cGE (cmp_flags a b) \<longleftrightarrow> sint a \<le> sint b"
  using cmp_flags_less [of a b] by (auto simp: cmp_flags_def not_less)

declare holds.simps [simp del]

subsection \<open>The interface to the C functions\<close>

text \<open>
  What every template needs of its environment: the breakpoint check at its start returns
  and changes nothing when no breakpoint is set at the guest pc (\<open>quiet\<close>).
\<close>

locale vmm_calls =
  fixes cc :: "'w ccalls" and quiet :: "hart \<Rightarrow> 'w \<Rightarrow> bool"
  assumes debug_check:
    "quiet h w \<Longrightarrow> cc enter_vmm_dbg_shell_sym (Vhart 0 # Vint 1 # args) h w = Returned Vundef h w"
begin

lemma prologue:
  assumes "entered s h w" "quiet h w"
  shows "\<exists>s'. entered s' h w \<and> stk s' = stk s \<and>
    x86_exec cc ps (BEGIN_TRANSLATION @ code) s = x86_exec cc ps code s'"
  using assms debug_check
  by (intro exI [of _ "s\<lparr>gpr := (gpr s)(RAX := Vundef, RCX := Vundef, RDX := Vundef, RSI := Vundef,
        RDI := Vundef, R8 := Vundef), eflags := None\<rparr>"])
     (auto simp: template_code x86_run entered_def fun_eq_iff intro!: arg_cong [of _ _ "x86_exec cc ps code"])

lemma completes_body:
  assumes "entered s h w" "quiet h w"
    and "\<And>s. entered s h w \<Longrightarrow> completes cc ps code s h' w'"
  shows "completes cc ps (BEGIN_TRANSLATION @ code) s h' w'"
  using prologue [OF assms(1,2), of ps code] assms(3) by (fastforce simp: completes_def)

lemma leaves_body:
  assumes "entered s h w" "quiet h w"
    and "\<And>s. entered s h w \<Longrightarrow> leaves cc ps code s h' w'"
  shows "leaves cc ps (BEGIN_TRANSLATION @ code) s h' w'"
  using prologue [OF assms(1,2), of ps code] assms(3) by (auto simp: leaves_def)

lemma faults_body:
  assumes "entered s h w" "quiet h w"
    and "\<And>s. entered s h w \<Longrightarrow> x86_exec cc ps code s = Divide_error"
  shows "x86_exec cc ps (BEGIN_TRANSLATION @ code) s = Divide_error"
  using prologue [OF assms(1,2), of ps code] assms(3) by auto

end

end
