(* ===== verification/Riscv_Decode.thy ===== *)
theory Riscv_Decode
  imports X86_Run
begin

text \<open>
  Instruction decoding: \<open>sign_extend32\<close> of \<open>sandbox/util.h\<close> and
  \<open>instruction_decoding_per_type\<close> of \<open>sandbox/translation.c\<close>, with the fields and immediates
  of the instruction set that they must agree with.
\<close>

datatype INSTRUCTION_ENCODING_TYPE =
    ENCODING_TYPE_UNKNOWN | ENCODING_TYPE_U | ENCODING_TYPE_I | ENCODING_TYPE_UJ
  | ENCODING_TYPE_S | ENCODING_TYPE_B | ENCODING_TYPE_R

record decoding =
  instr_encoding_type :: INSTRUCTION_ENCODING_TYPE
  opcode :: u8
  funct3 :: u8
  rd_index :: u8
  rs1_index :: u8
  rs2_index :: u8
  funct7 :: u8
  imm :: u32

definition sign_extend32 :: "u32 \<Rightarrow> nat \<Rightarrow> u32" where
  "sign_extend32 data sign_bit =
     (let sign = drop_bit sign_bit data AND 1 in
      fold (\<lambda>bit_position ret. ret OR push_bit bit_position sign) [sign_bit..<32] data)"

definition cleared_decoding :: "INSTRUCTION_ENCODING_TYPE \<Rightarrow> u32 \<Rightarrow> decoding" where
  "cleared_decoding t intrs =
     \<lparr>instr_encoding_type = t, opcode = ucast (intrs AND 0x7f), funct3 = 0, rd_index = 0,
      rs1_index = 0, rs2_index = 0, funct7 = 0, imm = 0\<rparr>"

fun instruction_decoding_per_type :: "u32 \<Rightarrow> INSTRUCTION_ENCODING_TYPE \<Rightarrow> decoding option" where
  "instruction_decoding_per_type intrs ENCODING_TYPE_U =
     Some ((cleared_decoding ENCODING_TYPE_U intrs)
       \<lparr>rd_index := ucast (drop_bit 7 intrs AND 0x1f),
        imm := drop_bit 12 intrs AND 0xfffff\<rparr>)"
| "instruction_decoding_per_type intrs ENCODING_TYPE_UJ =
     Some ((cleared_decoding ENCODING_TYPE_UJ intrs)
       \<lparr>rd_index := ucast (drop_bit 7 intrs AND 0x1f),
        imm := (drop_bit 21 intrs AND 0x3ff)
            OR push_bit 10 (drop_bit 20 intrs AND 0x1)
            OR push_bit 11 (drop_bit 12 intrs AND 0xff)
            OR push_bit 19 (drop_bit 31 intrs AND 0x1)\<rparr>)"
| "instruction_decoding_per_type intrs ENCODING_TYPE_I =
     Some ((cleared_decoding ENCODING_TYPE_I intrs)
       \<lparr>rd_index := ucast (drop_bit 7 intrs AND 0x1f),
        funct3 := ucast (drop_bit 12 intrs AND 7),
        rs1_index := ucast (drop_bit 15 intrs AND 0x1f),
        imm := drop_bit 20 intrs AND 0xfff\<rparr>)"
| "instruction_decoding_per_type intrs ENCODING_TYPE_S =
     Some ((cleared_decoding ENCODING_TYPE_S intrs)
       \<lparr>funct3 := ucast (drop_bit 12 intrs AND 7),
        rs1_index := ucast (drop_bit 15 intrs AND 0x1f),
        rs2_index := ucast (drop_bit 20 intrs AND 0x1f),
        imm := (drop_bit 7 intrs AND 0x1f) OR push_bit 5 (drop_bit 25 intrs AND 0x7f)\<rparr>)"
| "instruction_decoding_per_type intrs ENCODING_TYPE_B =
     Some ((cleared_decoding ENCODING_TYPE_B intrs)
       \<lparr>funct3 := ucast (drop_bit 12 intrs AND 0x7),
        rs1_index := ucast (drop_bit 15 intrs AND 0x1f),
        rs2_index := ucast (drop_bit 20 intrs AND 0x1f),
        imm := (drop_bit 8 intrs AND 0xf)
            OR push_bit 4 (drop_bit 25 intrs AND 0x3f)
            OR push_bit 10 (drop_bit 7 intrs AND 0x1)
            OR push_bit 11 (drop_bit 31 intrs AND 0x1)\<rparr>)"
| "instruction_decoding_per_type intrs ENCODING_TYPE_R =
     Some ((cleared_decoding ENCODING_TYPE_R intrs)
       \<lparr>funct3 := ucast (drop_bit 12 intrs AND 0x7),
        rd_index := ucast (drop_bit 7 intrs AND 0x1f),
        rs1_index := ucast (drop_bit 15 intrs AND 0x1f),
        rs2_index := ucast (drop_bit 20 intrs AND 0x1f),
        funct7 := ucast (drop_bit 25 intrs AND 0x7f)\<rparr>)"
| "instruction_decoding_per_type intrs ENCODING_TYPE_UNKNOWN = None"

subsection \<open>The fields of the instruction set\<close>

definition rv_bits :: "u32 \<Rightarrow> nat \<Rightarrow> nat \<Rightarrow> u32" where
  "rv_bits w hi lo = take_bit (hi + 1 - lo) (drop_bit lo w)"

definition rv_rd :: "u32 \<Rightarrow> 5 word" where "rv_rd w = ucast (rv_bits w 11 7)"
definition rv_rs1 :: "u32 \<Rightarrow> 5 word" where "rv_rs1 w = ucast (rv_bits w 19 15)"
definition rv_rs2 :: "u32 \<Rightarrow> 5 word" where "rv_rs2 w = ucast (rv_bits w 24 20)"
definition rv_opcode :: "u32 \<Rightarrow> u32" where "rv_opcode w = rv_bits w 6 0"
definition rv_funct3 :: "u32 \<Rightarrow> u32" where "rv_funct3 w = rv_bits w 14 12"
definition rv_funct7 :: "u32 \<Rightarrow> u32" where "rv_funct7 w = rv_bits w 31 25"

definition rv_imm_U :: "u32 \<Rightarrow> u32" where
  "rv_imm_U w = push_bit 12 (rv_bits w 31 12)"

definition rv_imm_I :: "u32 \<Rightarrow> u32" where
  "rv_imm_I w = signed_take_bit 11 (rv_bits w 31 20)"

definition rv_imm_S :: "u32 \<Rightarrow> u32" where
  "rv_imm_S w = signed_take_bit 11 (push_bit 5 (rv_bits w 31 25) OR rv_bits w 11 7)"

definition rv_imm_B :: "u32 \<Rightarrow> u32" where
  "rv_imm_B w = signed_take_bit 12
     (push_bit 12 (rv_bits w 31 31) OR push_bit 11 (rv_bits w 7 7)
      OR push_bit 5 (rv_bits w 30 25) OR push_bit 1 (rv_bits w 11 8))"

definition rv_imm_J :: "u32 \<Rightarrow> u32" where
  "rv_imm_J w = signed_take_bit 20
     (push_bit 20 (rv_bits w 31 31) OR push_bit 12 (rv_bits w 19 12)
      OR push_bit 11 (rv_bits w 20 20) OR push_bit 1 (rv_bits w 30 21))"

subsection \<open>Agreement\<close>

lemma bit_sign_extend32:
  "bit (sign_extend32 data sb) i \<longleftrightarrow> bit data i \<or> (sb \<le> i \<and> i < 32 \<and> bit data sb)"
proof -
  have "bit (fold (\<lambda>p r. r OR push_bit p s) xs acc) i \<longleftrightarrow>
      bit acc i \<or> (\<exists>p \<in> set xs. bit (push_bit p s) i)" for xs acc and s :: u32
    by (induction xs arbitrary: acc) (auto simp: bit_or_iff)
  then show ?thesis
    unfolding sign_extend32_def Let_def
    by (simp only:) (auto simp: bit_simps)
qed

text \<open>On data that fits below the sign bit, the loop is sign extension.\<close>

lemma sign_extend32_signed_take_bit:
  assumes "take_bit (Suc sb) data = data" "sb < 32"
  shows "sign_extend32 data sb = signed_take_bit sb data"
proof (rule bit_word_eqI)
  fix i assume "i < LENGTH(32)"
  moreover have "\<not> bit data i" if "sb < i"
    using that assms(1) bit_take_bit_iff [of "Suc sb" data i] by simp
  ultimately show "bit (sign_extend32 data sb) i = bit (signed_take_bit sb data) i"
    using assms(2) by (cases "i \<le> sb") (auto simp: bit_sign_extend32 bit_signed_take_bit_iff min_def)
qed

lemma and_field_masks:
  "x AND (0x1 :: u32) = take_bit 1 x" "x AND (0x7 :: u32) = take_bit 3 x"
  "x AND (0xf :: u32) = take_bit 4 x" "x AND (0x1f :: u32) = take_bit 5 x"
  "x AND (0x3f :: u32) = take_bit 6 x" "x AND (0x7f :: u32) = take_bit 7 x"
  "x AND (0xff :: u32) = take_bit 8 x" "x AND (0x3ff :: u32) = take_bit 10 x"
  "x AND (0xfff :: u32) = take_bit 12 x" "x AND (0xfffff :: u32) = take_bit 20 x"
  by (simp_all add: take_bit_eq_mask mask_numeral numeral_eq_Suc mask_Suc_exp)


lemma take_bit_field_orders [simp]:
  "take_bit 12 (drop_bit 20 (w :: u32)) = drop_bit 20 w"
  "take_bit 7 (drop_bit 25 (w :: u32)) = drop_bit 25 w"
  "take_bit 20 (drop_bit 12 (w :: u32)) = drop_bit 12 w"
  by (rule bit_word_eqI; auto simp: bit_simps dest: bit_imp_le_length)+

text \<open>The register fields: the masked byte the decoder stores is the 5-bit register number.\<close>

lemma decode_reg_field:
  "(ucast (drop_bit 7 w AND 0x1f) :: u8) = ucast (rv_rd w)"
  "(ucast (drop_bit 15 w AND 0x1f) :: u8) = ucast (rv_rs1 w)"
  "(ucast (drop_bit 20 w AND 0x1f) :: u8) = ucast (rv_rs2 w)"
  by (rule bit_word_eqI;
      auto simp: rv_rd_def rv_rs1_def rv_rs2_def rv_bits_def and_field_masks bit_simps)+

lemma ucast_reg_index [simp]: "(ucast (ucast (r :: 5 word) :: u8) :: u32) = ucast r"
  by (rule bit_word_eqI) (auto simp: bit_simps dest: bit_imp_le_length)

text \<open>The immediates: what the translators compute from the decoded field is the immediate.\<close>

lemma imm_I_agrees: "sign_extend32 (drop_bit 20 w AND 0xfff) 11 = rv_imm_I w"
  unfolding and_field_masks
  by (subst sign_extend32_signed_take_bit) (simp_all add: rv_imm_I_def rv_bits_def)

lemma imm_S_agrees:
  "sign_extend32 ((drop_bit 7 w AND 0x1f) OR push_bit 5 (drop_bit 25 w AND 0x7f)) 11 = rv_imm_S w"
  unfolding and_field_masks
  by (subst sign_extend32_signed_take_bit)
     (simp_all add: rv_imm_S_def rv_bits_def take_bit_or take_bit_push_bit or.commute)


lemma imm_B_agrees:
  "sign_extend32 (push_bit 1 ((drop_bit 8 w AND 0xf) OR push_bit 4 (drop_bit 25 w AND 0x3f)
     OR push_bit 10 (drop_bit 7 w AND 0x1) OR push_bit 11 (drop_bit 31 w AND 0x1))) 12 = rv_imm_B w"
  unfolding and_field_masks
  by (subst sign_extend32_signed_take_bit)
     (simp_all add: rv_imm_B_def rv_bits_def take_bit_or take_bit_push_bit push_bit_or ac_simps
        del: take_bit_Suc_0 push_bit_Suc One_nat_def, simp only: One_nat_def)

lemma imm_J_agrees:
  "sign_extend32 (push_bit 1 ((drop_bit 21 w AND 0x3ff) OR push_bit 10 (drop_bit 20 w AND 0x1)
     OR push_bit 11 (drop_bit 12 w AND 0xff) OR push_bit 19 (drop_bit 31 w AND 0x1))) 20 = rv_imm_J w"
  unfolding and_field_masks
  by (subst sign_extend32_signed_take_bit)
     (simp_all add: rv_imm_J_def rv_bits_def take_bit_or take_bit_push_bit push_bit_or ac_simps
        del: take_bit_Suc_0 push_bit_Suc One_nat_def, simp only: One_nat_def)

lemma imm_U_agrees: "push_bit 12 (drop_bit 12 w AND 0xfffff) = rv_imm_U w"
  unfolding and_field_masks by (simp add: rv_imm_U_def rv_bits_def)

lemma decode_small_field:
  "(ucast (drop_bit 12 w AND 0x7) :: u8) = ucast (rv_funct3 w)"
  "(ucast (drop_bit 25 w AND 0x7f) :: u8) = ucast (rv_funct7 w)"
  "(ucast (w AND 0x7f) :: u8) = ucast (rv_opcode w)"
  by (simp_all add: rv_funct3_def rv_funct7_def rv_opcode_def rv_bits_def and_field_masks)

end
