(* ===== verification/Translate_Arithmetic.thy ===== *)
theory Translate_Arithmetic
  imports Riscv_Decode
begin

text \<open>
  \<open>sandbox/translate_arithmetic.c\<close>: the register-register instructions of the base set. Every
  translator is one template and the parameters it patches in (indices of \<open>rs1\<close>, \<open>rs2\<close>,
  \<open>rd\<close>). The lemmas say that a block made from the template computes the instruction.
\<close>

type_synonym translator_result = "(prefetch_blob \<times> hart) option"

type_synonym instruction_sub_translator =
  "layout \<Rightarrow> decoding \<Rightarrow> prefetch_blob \<Rightarrow> hart \<Rightarrow> translator_result"

definition op_params :: "decoding \<Rightarrow> u32 list" where
  "op_params dec = [ucast (rs1_index dec), ucast (rs2_index dec), ucast (rd_index dec)]"

definition add_instruction_code :: "x86 list" where
  "add_instruction_code = BEGIN_TRANSLATION @
     [Movl_param 0 RDX, Shl_imm 2 RDX, Addq R15 RDX, Movl_load RDX RSI,
      Movl_param 1 RDX, Shl_imm 2 RDX, Addq R15 RDX, Movl_load RDX RAX,
      Addl RSI RAX,
      Movl_param 2 RDX, Shl_imm 2 RDX, Addq R15 RDX, Movl_store RAX RDX]
     @ RESET_ZERO_REGISTER @ PROCEED_TO_NEXT_INSTRUCTION @ END_INSTRUCTION"

definition riscv_add_translator :: instruction_sub_translator where
  "riscv_add_translator lay dec blob h =
     emit_translation lay ''add_instruction'' add_instruction_code (op_params dec) False blob h"

definition sub_instruction_code :: "x86 list" where
  "sub_instruction_code = BEGIN_TRANSLATION @
     [Movl_param 0 RDX, Shl_imm 2 RDX, Addq R15 RDX, Movl_load RDX RAX,
      Movl_param 1 RDX, Shl_imm 2 RDX, Addq R15 RDX, Movl_load RDX RSI,
      Subl RSI RAX,
      Movl_param 2 RDX, Shl_imm 2 RDX, Addq R15 RDX, Movl_store RAX RDX]
     @ RESET_ZERO_REGISTER @ PROCEED_TO_NEXT_INSTRUCTION @ END_INSTRUCTION"

definition riscv_sub_translator :: instruction_sub_translator where
  "riscv_sub_translator lay dec blob h =
     emit_translation lay ''sub_instruction'' sub_instruction_code (op_params dec) False blob h"

definition riscv_add_sub_translator :: instruction_sub_translator where
  "riscv_add_sub_translator lay dec blob h =
     (if funct7 dec = 0x20 then riscv_sub_translator lay dec blob h
      else ASSERT (funct7 dec = 0) (riscv_add_translator lay dec blob h))"

definition and_instruction_code :: "x86 list" where
  "and_instruction_code = BEGIN_TRANSLATION @
     [Movl_param 0 RDX, Shl_imm 2 RDX, Addq R15 RDX, Movl_load RDX RSI,
      Movl_param 1 RDX, Shl_imm 2 RDX, Addq R15 RDX, Movl_load RDX RAX,
      Andl RSI RAX,
      Movl_param 2 RDX, Shl_imm 2 RDX, Addq R15 RDX, Movl_store RAX RDX]
     @ RESET_ZERO_REGISTER @ PROCEED_TO_NEXT_INSTRUCTION @ END_INSTRUCTION"

definition riscv_and_translator :: instruction_sub_translator where
  "riscv_and_translator lay dec blob h =
     emit_translation lay ''and_instruction'' and_instruction_code (op_params dec) False blob h"

definition or_instruction_code :: "x86 list" where
  "or_instruction_code = BEGIN_TRANSLATION @
     [Movl_param 0 RDX, Shl_imm 2 RDX, Addq R15 RDX, Movl_load RDX RSI,
      Movl_param 1 RDX, Shl_imm 2 RDX, Addq R15 RDX, Movl_load RDX RAX,
      Orl RSI RAX,
      Movl_param 2 RDX, Shl_imm 2 RDX, Addq R15 RDX, Movl_store RAX RDX]
     @ RESET_ZERO_REGISTER @ PROCEED_TO_NEXT_INSTRUCTION @ END_INSTRUCTION"

definition riscv_or_translator :: instruction_sub_translator where
  "riscv_or_translator lay dec blob h =
     emit_translation lay ''or_instruction'' or_instruction_code (op_params dec) False blob h"

definition xor_instruction_code :: "x86 list" where
  "xor_instruction_code = BEGIN_TRANSLATION @
     [Movl_param 0 RDX, Shl_imm 2 RDX, Addq R15 RDX, Movl_load RDX RSI,
      Movl_param 1 RDX, Shl_imm 2 RDX, Addq R15 RDX, Movl_load RDX RAX,
      Xorl RSI RAX,
      Movl_param 2 RDX, Shl_imm 2 RDX, Addq R15 RDX, Movl_store RAX RDX]
     @ RESET_ZERO_REGISTER @ PROCEED_TO_NEXT_INSTRUCTION @ END_INSTRUCTION"

definition riscv_xor_translator :: instruction_sub_translator where
  "riscv_xor_translator lay dec blob h =
     emit_translation lay ''xor_instruction'' xor_instruction_code (op_params dec) False blob h"

definition slt_instruction_code :: "x86 list" where
  "slt_instruction_code = BEGIN_TRANSLATION @
     [Xorl RCX RCX,
      Movl_param 0 RDX, Shl_imm 2 RDX, Addq R15 RDX, Movl_load RDX RSI,
      Movl_param 1 RDX, Shl_imm 2 RDX, Addq R15 RDX, Movl_load RDX RDI,
      Cmpl RDI RSI, Setl RCX, Movzbl RCX RCX,
      Movl_param 2 RDX, Shl_imm 2 RDX, Addq R15 RDX, Movl_store RCX RDX]
     @ RESET_ZERO_REGISTER @ PROCEED_TO_NEXT_INSTRUCTION @ END_INSTRUCTION"

definition riscv_slt_translator :: instruction_sub_translator where
  "riscv_slt_translator lay dec blob h =
     emit_translation lay ''slt_instruction'' slt_instruction_code (op_params dec) False blob h"

definition sltu_instruction_code :: "x86 list" where
  "sltu_instruction_code = BEGIN_TRANSLATION @
     [Xorl RCX RCX,
      Movl_param 0 RDX, Shl_imm 2 RDX, Addq R15 RDX, Movl_load RDX RSI,
      Movl_param 1 RDX, Shl_imm 2 RDX, Addq R15 RDX, Movl_load RDX RDI,
      Cmpl RDI RSI, Setb RCX, Movzbl RCX RCX,
      Movl_param 2 RDX, Shl_imm 2 RDX, Addq R15 RDX, Movl_store RCX RDX]
     @ RESET_ZERO_REGISTER @ PROCEED_TO_NEXT_INSTRUCTION @ END_INSTRUCTION"

definition riscv_sltu_translator :: instruction_sub_translator where
  "riscv_sltu_translator lay dec blob h =
     emit_translation lay ''sltu_instruction'' sltu_instruction_code (op_params dec) False blob h"

definition sll_instruction_code :: "x86 list" where
  "sll_instruction_code = BEGIN_TRANSLATION @
     [Movl_param 0 RDX, Shl_imm 2 RDX, Addq R15 RDX, Movl_load RDX RAX,
      Movl_param 1 RDX, Shl_imm 2 RDX, Addq R15 RDX, Movl_load RDX RCX,
      Andl_imm 0x1f RCX, Shl_cl RAX,
      Movl_param 2 RDX, Shl_imm 2 RDX, Addq R15 RDX, Movl_store RAX RDX]
     @ RESET_ZERO_REGISTER @ PROCEED_TO_NEXT_INSTRUCTION @ END_INSTRUCTION"

definition riscv_sll_translator :: instruction_sub_translator where
  "riscv_sll_translator lay dec blob h =
     emit_translation lay ''sll_instruction'' sll_instruction_code (op_params dec) False blob h"

definition srl_instruction_code :: "x86 list" where
  "srl_instruction_code = BEGIN_TRANSLATION @
     [Movl_param 0 RDX, Shl_imm 2 RDX, Addq R15 RDX, Movl_load RDX RAX,
      Movl_param 1 RDX, Shl_imm 2 RDX, Addq R15 RDX, Movl_load RDX RCX,
      Andl_imm 0x1f RCX, Shr_cl RAX,
      Movl_param 2 RDX, Shl_imm 2 RDX, Addq R15 RDX, Movl_store RAX RDX]
     @ RESET_ZERO_REGISTER @ PROCEED_TO_NEXT_INSTRUCTION @ END_INSTRUCTION"

definition riscv_srl_translator :: instruction_sub_translator where
  "riscv_srl_translator lay dec blob h =
     emit_translation lay ''srl_instruction'' srl_instruction_code (op_params dec) False blob h"

definition sra_instruction_code :: "x86 list" where
  "sra_instruction_code = BEGIN_TRANSLATION @
     [Movl_param 0 RDX, Shl_imm 2 RDX, Addq R15 RDX, Movl_load RDX RAX,
      Movl_param 1 RDX, Shl_imm 2 RDX, Addq R15 RDX, Movl_load RDX RCX,
      Andl_imm 0x1f RCX, Sar_cl RAX,
      Movl_param 2 RDX, Shl_imm 2 RDX, Addq R15 RDX, Movl_store RAX RDX]
     @ RESET_ZERO_REGISTER @ PROCEED_TO_NEXT_INSTRUCTION @ END_INSTRUCTION"

definition riscv_sra_translator :: instruction_sub_translator where
  "riscv_sra_translator lay dec blob h =
     emit_translation lay ''sra_instruction'' sra_instruction_code (op_params dec) False blob h"

definition riscv_srl_sra_translator :: instruction_sub_translator where
  "riscv_srl_sra_translator lay dec blob h =
     (if funct7 dec = 0x20 then riscv_sra_translator lay dec blob h
      else ASSERT (funct7 dec = 0) (riscv_srl_translator lay dec blob h))"

text \<open>The table that \<open>arithmetic_constructor\<close> fills.\<close>

definition arithmetic_handlers :: "u8 \<Rightarrow> instruction_sub_translator option" where
  "arithmetic_handlers f3 =
     (if f3 = 0x0 then Some riscv_add_sub_translator
      else if f3 = 0x7 then Some riscv_and_translator
      else if f3 = 0x6 then Some riscv_or_translator
      else if f3 = 0x4 then Some riscv_xor_translator
      else if f3 = 0x2 then Some riscv_slt_translator
      else if f3 = 0x3 then Some riscv_sltu_translator
      else if f3 = 0x1 then Some riscv_sll_translator
      else if f3 = 0x5 then Some riscv_srl_sra_translator
      else None)"

definition riscv_arithmetic_instructions_class0_translation_entry :: instruction_sub_translator where
  "riscv_arithmetic_instructions_class0_translation_entry lay dec blob h =
     (case arithmetic_handlers (funct3 dec) of
        None \<Rightarrow> None
      | Some handler \<Rightarrow> handler lay dec blob h)"

lemmas arithmetic_templates [template_code] =
  add_instruction_code_def sub_instruction_code_def and_instruction_code_def or_instruction_code_def xor_instruction_code_def slt_instruction_code_def sltu_instruction_code_def sll_instruction_code_def srl_instruction_code_def sra_instruction_code_def

subsection \<open>The templates compute the instructions\<close>

lemma shift_amount: "unat (c AND 31 AND (31 :: u32)) = unat c mod 32" "unat (c AND (31 :: u32)) = unat c mod 32"
proof -
  have "c AND 31 = take_bit 5 c" by (simp add: take_bit_eq_mask mask_eq_exp_minus_1)
  then show "unat (c AND (31 :: u32)) = unat c mod 32"
    by (simp only: unsigned_take_bit_eq) (simp add: take_bit_eq_mod)
  then show "unat (c AND 31 AND (31 :: u32)) = unat c mod 32" by (simp add: and.assoc)
qed

context vmm_calls
begin

lemma add_block:
  assumes "entered s h w" "quiet h w"
  shows "completes cc [reg_param rs1, reg_param rs2, reg_param rd] add_instruction_code s
    (rv_exec_op rADD rd rs1 rs2 h) w"
  unfolding add_instruction_code_def
  by (rule completes_body [OF assms]) (simp add: template_code x86_run rv_ref add.commute)

lemma sub_block:
  assumes "entered s h w" "quiet h w"
  shows "completes cc [reg_param rs1, reg_param rs2, reg_param rd] sub_instruction_code s
    (rv_exec_op rSUB rd rs1 rs2 h) w"
  unfolding sub_instruction_code_def by (rule completes_body [OF assms]) (simp add: template_code x86_run rv_ref)

lemma and_block:
  assumes "entered s h w" "quiet h w"
  shows "completes cc [reg_param rs1, reg_param rs2, reg_param rd] and_instruction_code s
    (rv_exec_op rAND rd rs1 rs2 h) w"
  unfolding and_instruction_code_def
  by (rule completes_body [OF assms]) (simp add: template_code x86_run rv_ref and.commute)

lemma or_block:
  assumes "entered s h w" "quiet h w"
  shows "completes cc [reg_param rs1, reg_param rs2, reg_param rd] or_instruction_code s
    (rv_exec_op rOR rd rs1 rs2 h) w"
  unfolding or_instruction_code_def
  by (rule completes_body [OF assms]) (simp add: template_code x86_run rv_ref or.commute)

lemma xor_block:
  assumes "entered s h w" "quiet h w"
  shows "completes cc [reg_param rs1, reg_param rs2, reg_param rd] xor_instruction_code s
    (rv_exec_op rXOR rd rs1 rs2 h) w"
  unfolding xor_instruction_code_def
  by (rule completes_body [OF assms]) (simp add: template_code x86_run rv_ref xor.commute)

lemma slt_block:
  assumes "entered s h w" "quiet h w"
  shows "completes cc [reg_param rs1, reg_param rs2, reg_param rd] slt_instruction_code s
    (rv_exec_op rSLT rd rs1 rs2 h) w"
  unfolding slt_instruction_code_def by (rule completes_body [OF assms]) (simp add: template_code x86_run rv_ref)

lemma sltu_block:
  assumes "entered s h w" "quiet h w"
  shows "completes cc [reg_param rs1, reg_param rs2, reg_param rd] sltu_instruction_code s
    (rv_exec_op rSLTU rd rs1 rs2 h) w"
  unfolding sltu_instruction_code_def by (rule completes_body [OF assms]) (simp add: template_code x86_run rv_ref)

lemma sll_block:
  assumes "entered s h w" "quiet h w"
  shows "completes cc [reg_param rs1, reg_param rs2, reg_param rd] sll_instruction_code s
    (rv_exec_op rSLL rd rs1 rs2 h) w"
  unfolding sll_instruction_code_def
  by (rule completes_body [OF assms]) (simp add: template_code x86_run rv_ref shift_amount)

lemma srl_block:
  assumes "entered s h w" "quiet h w"
  shows "completes cc [reg_param rs1, reg_param rs2, reg_param rd] srl_instruction_code s
    (rv_exec_op rSRL rd rs1 rs2 h) w"
  unfolding srl_instruction_code_def
  by (rule completes_body [OF assms]) (simp add: template_code x86_run rv_ref shift_amount)

lemma sra_block:
  assumes "entered s h w" "quiet h w"
  shows "completes cc [reg_param rs1, reg_param rs2, reg_param rd] sra_instruction_code s
    (rv_exec_op rSRA rd rs1 rs2 h) w"
  unfolding sra_instruction_code_def
  by (rule completes_body [OF assms]) (simp add: template_code x86_run rv_ref shift_amount)

end

end
