(* ===== verification/Translate_Arithmetic_Immediate.thy ===== *)
theory Translate_Arithmetic_Immediate
  imports Translate_Arithmetic
begin

text \<open>
  \<open>sandbox/translate_arithmetic_immediate.c\<close>: the register-immediate instructions. The
  parameters are the immediate (sign-extended, or raw for the shifts), \<open>rs1\<close> and \<open>rd\<close>.
\<close>

definition signed_imm_params :: "decoding \<Rightarrow> u32 list" where
  "signed_imm_params dec =
     [sign_extend32 (imm dec) 11, ucast (rs1_index dec), ucast (rd_index dec)]"

definition raw_imm_params :: "decoding \<Rightarrow> u32 list" where
  "raw_imm_params dec = [imm dec, ucast (rs1_index dec), ucast (rd_index dec)]"

definition addi_instruction_code :: "x86 list" where
  "addi_instruction_code = BEGIN_TRANSLATION @
     [Movl_param 1 RDX, Shl_imm 2 RDX, Addq R15 RDX, Movl_load RDX RAX,
      Movl_param 0 RDX, Addl RDX RAX,
      Movl_param 2 RDX, Shl_imm 2 RDX, Addq R15 RDX, Movl_store RAX RDX]
     @ RESET_ZERO_REGISTER @ PROCEED_TO_NEXT_INSTRUCTION @ END_INSTRUCTION"

definition riscv_addi_translator :: instruction_sub_translator where
  "riscv_addi_translator lay dec blob h =
     emit_translation lay ''addi_instruction'' addi_instruction_code (signed_imm_params dec) False blob h"

definition stli_instruction_code :: "x86 list" where
  "stli_instruction_code = BEGIN_TRANSLATION @
     [Xorl RCX RCX,
      Movl_param 1 RDX, Shl_imm 2 RDX, Addq R15 RDX, Movl_load RDX RAX,
      Cmpl_param 0 RAX, Setl RCX, Movzbl RCX RCX,
      Movl_param 2 RDX, Shl_imm 2 RDX, Addq R15 RDX, Movl_store RCX RDX]
     @ RESET_ZERO_REGISTER @ PROCEED_TO_NEXT_INSTRUCTION @ END_INSTRUCTION"

definition riscv_stli_translator :: instruction_sub_translator where
  "riscv_stli_translator lay dec blob h =
     emit_translation lay ''stli_instruction'' stli_instruction_code (signed_imm_params dec) False blob h"

definition stliu_instruction_code :: "x86 list" where
  "stliu_instruction_code = BEGIN_TRANSLATION @
     [Xorl RCX RCX,
      Movl_param 1 RDX, Shl_imm 2 RDX, Addq R15 RDX, Movl_load RDX RAX,
      Cmpl_param 0 RAX, Setb RCX, Movzbl RCX RCX,
      Movl_param 2 RDX, Shl_imm 2 RDX, Addq R15 RDX, Movl_store RCX RDX]
     @ RESET_ZERO_REGISTER @ PROCEED_TO_NEXT_INSTRUCTION @ END_INSTRUCTION"

definition riscv_stliu_translator :: instruction_sub_translator where
  "riscv_stliu_translator lay dec blob h =
     emit_translation lay ''stliu_instruction'' stliu_instruction_code (signed_imm_params dec) False blob h"

definition xori_instruction_code :: "x86 list" where
  "xori_instruction_code = BEGIN_TRANSLATION @
     [Xorl RCX RCX,
      Movl_param 1 RDX, Shl_imm 2 RDX, Addq R15 RDX, Movl_load RDX RAX,
      Movl_param 0 RDX, Xorl RDX RAX,
      Movl_param 2 RDX, Shl_imm 2 RDX, Addq R15 RDX, Movl_store RAX RDX]
     @ RESET_ZERO_REGISTER @ PROCEED_TO_NEXT_INSTRUCTION @ END_INSTRUCTION"

definition riscv_xori_translator :: instruction_sub_translator where
  "riscv_xori_translator lay dec blob h =
     emit_translation lay ''xori_instruction'' xori_instruction_code (signed_imm_params dec) False blob h"

definition ori_instruction_code :: "x86 list" where
  "ori_instruction_code = BEGIN_TRANSLATION @
     [Xorl RCX RCX,
      Movl_param 1 RDX, Shl_imm 2 RDX, Addq R15 RDX, Movl_load RDX RAX,
      Movl_param 0 RDX, Orl RDX RAX,
      Movl_param 2 RDX, Shl_imm 2 RDX, Addq R15 RDX, Movl_store RAX RDX]
     @ RESET_ZERO_REGISTER @ PROCEED_TO_NEXT_INSTRUCTION @ END_INSTRUCTION"

definition riscv_ori_translator :: instruction_sub_translator where
  "riscv_ori_translator lay dec blob h =
     emit_translation lay ''ori_instruction'' ori_instruction_code (signed_imm_params dec) False blob h"

definition andi_instruction_code :: "x86 list" where
  "andi_instruction_code = BEGIN_TRANSLATION @
     [Xorl RCX RCX,
      Movl_param 1 RDX, Shl_imm 2 RDX, Addq R15 RDX, Movl_load RDX RAX,
      Movl_param 0 RDX, Andl RDX RAX,
      Movl_param 2 RDX, Shl_imm 2 RDX, Addq R15 RDX, Movl_store RAX RDX]
     @ RESET_ZERO_REGISTER @ PROCEED_TO_NEXT_INSTRUCTION @ END_INSTRUCTION"

definition riscv_andi_translator :: instruction_sub_translator where
  "riscv_andi_translator lay dec blob h =
     emit_translation lay ''andi_instruction'' andi_instruction_code (signed_imm_params dec) False blob h"

definition slli_instruction_code :: "x86 list" where
  "slli_instruction_code = BEGIN_TRANSLATION @
     [Xorl RCX RCX,
      Movl_param 1 RDX, Shl_imm 2 RDX, Addq R15 RDX, Movl_load RDX RAX,
      Movl_param 0 RCX, Andl_imm 0x1f RCX, Shl_cl RAX,
      Movl_param 2 RDX, Shl_imm 2 RDX, Addq R15 RDX, Movl_store RAX RDX]
     @ RESET_ZERO_REGISTER @ PROCEED_TO_NEXT_INSTRUCTION @ END_INSTRUCTION"

definition riscv_slli_translator :: instruction_sub_translator where
  "riscv_slli_translator lay dec blob h =
     emit_translation lay ''slli_instruction'' slli_instruction_code (raw_imm_params dec) False blob h"

definition srli_instruction_code :: "x86 list" where
  "srli_instruction_code = BEGIN_TRANSLATION @
     [Xorl RCX RCX,
      Movl_param 1 RDX, Shl_imm 2 RDX, Addq R15 RDX, Movl_load RDX RAX,
      Movl_param 0 RCX, Andl_imm 0x1f RCX, Shr_cl RAX,
      Movl_param 2 RDX, Shl_imm 2 RDX, Addq R15 RDX, Movl_store RAX RDX]
     @ RESET_ZERO_REGISTER @ PROCEED_TO_NEXT_INSTRUCTION @ END_INSTRUCTION"

definition srai_instruction_code :: "x86 list" where
  "srai_instruction_code = BEGIN_TRANSLATION @
     [Xorl RCX RCX,
      Movl_param 1 RDX, Shl_imm 2 RDX, Addq R15 RDX, Movl_load RDX RAX,
      Movl_param 0 RCX, Andl_imm 0x1f RCX, Sar_cl RAX,
      Movl_param 2 RDX, Shl_imm 2 RDX, Addq R15 RDX, Movl_store RAX RDX]
     @ RESET_ZERO_REGISTER @ PROCEED_TO_NEXT_INSTRUCTION @ END_INSTRUCTION"

definition riscv_right_shift_translator :: instruction_sub_translator where
  "riscv_right_shift_translator lay dec blob h =
     (if imm dec AND 0x400 = 0
      then emit_translation lay ''srli_instruction'' srli_instruction_code (raw_imm_params dec) False blob h
      else emit_translation lay ''srai_instruction'' srai_instruction_code (raw_imm_params dec) False blob h)"

text \<open>The table that \<open>arithmetic_immediate_constructor\<close> fills.\<close>

definition arithmetic_immediate_handlers :: "u8 \<Rightarrow> instruction_sub_translator option" where
  "arithmetic_immediate_handlers f3 =
     (if f3 = 0x0 then Some riscv_addi_translator
      else if f3 = 0x1 then Some riscv_slli_translator
      else if f3 = 0x2 then Some riscv_stli_translator
      else if f3 = 0x3 then Some riscv_stliu_translator
      else if f3 = 0x4 then Some riscv_xori_translator
      else if f3 = 0x5 then Some riscv_right_shift_translator
      else if f3 = 0x6 then Some riscv_ori_translator
      else if f3 = 0x7 then Some riscv_andi_translator
      else None)"

type_synonym instruction_translator =
  "layout \<Rightarrow> prefetch_blob \<Rightarrow> u32 \<Rightarrow> hart \<Rightarrow> translator_result"

definition riscv_arithmetic_immediate_instructions_translation_entry :: instruction_translator where
  "riscv_arithmetic_immediate_instructions_translation_entry lay blob instruction h =
     Option.bind (instruction_decoding_per_type instruction ENCODING_TYPE_I) (\<lambda>dec.
     case arithmetic_immediate_handlers (funct3 dec) of
       None \<Rightarrow> None
     | Some handler \<Rightarrow> handler lay dec blob h)"

subsection \<open>The templates compute the instructions\<close>

context vmm_calls
begin

lemma addi_block:
  assumes "entered s h w" "quiet h w"
  shows "completes cc [i, reg_param rs1, reg_param rd] addi_instruction_code s
    (rv_exec_op_imm rADD rd rs1 i h) w"
  unfolding addi_instruction_code_def
  by (rule completes_body [OF assms]) (simp add: template_code x86_run rv_ref)

lemma stli_block:
  assumes "entered s h w" "quiet h w"
  shows "completes cc [i, reg_param rs1, reg_param rd] stli_instruction_code s
    (rv_exec_op_imm rSLT rd rs1 i h) w"
  unfolding stli_instruction_code_def
  by (rule completes_body [OF assms]) (simp add: template_code x86_run rv_ref)

lemma stliu_block:
  assumes "entered s h w" "quiet h w"
  shows "completes cc [i, reg_param rs1, reg_param rd] stliu_instruction_code s
    (rv_exec_op_imm rSLTU rd rs1 i h) w"
  unfolding stliu_instruction_code_def
  by (rule completes_body [OF assms]) (simp add: template_code x86_run rv_ref)

lemma xori_block:
  assumes "entered s h w" "quiet h w"
  shows "completes cc [i, reg_param rs1, reg_param rd] xori_instruction_code s
    (rv_exec_op_imm rXOR rd rs1 i h) w"
  unfolding xori_instruction_code_def
  by (rule completes_body [OF assms]) (simp add: template_code x86_run rv_ref)

lemma ori_block:
  assumes "entered s h w" "quiet h w"
  shows "completes cc [i, reg_param rs1, reg_param rd] ori_instruction_code s
    (rv_exec_op_imm rOR rd rs1 i h) w"
  unfolding ori_instruction_code_def
  by (rule completes_body [OF assms]) (simp add: template_code x86_run rv_ref)

lemma andi_block:
  assumes "entered s h w" "quiet h w"
  shows "completes cc [i, reg_param rs1, reg_param rd] andi_instruction_code s
    (rv_exec_op_imm rAND rd rs1 i h) w"
  unfolding andi_instruction_code_def
  by (rule completes_body [OF assms]) (simp add: template_code x86_run rv_ref)

lemma slli_block:
  assumes "entered s h w" "quiet h w"
  shows "completes cc [i, reg_param rs1, reg_param rd] slli_instruction_code s
    (rv_exec_op_imm rSLL rd rs1 i h) w"
  unfolding slli_instruction_code_def
  by (rule completes_body [OF assms]) (simp add: template_code x86_run rv_ref shift_amount)

lemma srli_block:
  assumes "entered s h w" "quiet h w"
  shows "completes cc [i, reg_param rs1, reg_param rd] srli_instruction_code s
    (rv_exec_op_imm rSRL rd rs1 i h) w"
  unfolding srli_instruction_code_def
  by (rule completes_body [OF assms]) (simp add: template_code x86_run rv_ref shift_amount)

lemma srai_block:
  assumes "entered s h w" "quiet h w"
  shows "completes cc [i, reg_param rs1, reg_param rd] srai_instruction_code s
    (rv_exec_op_imm rSRA rd rs1 i h) w"
  unfolding srai_instruction_code_def
  by (rule completes_body [OF assms]) (simp add: template_code x86_run rv_ref shift_amount)

end

end
