(* ===== verification/Translate_Branch.thy ===== *)
theory Translate_Branch
  imports Translate_Arithmetic_Immediate
begin

text \<open>
  \<open>sandbox/translate_branch.c\<close>: the conditional branches. A branch ends its translation unit:
  the block stores the next pc and traps to the monitor. The parameters are \<open>rs1\<close>, \<open>rs2\<close> and
  the address of the taken branch, which the translator computes from the address of the
  instruction.
\<close>

definition branch_params :: "decoding \<Rightarrow> u32 \<Rightarrow> u32 list" where
  "branch_params dec instruction_linear_address =
     [ucast (rs1_index dec), ucast (rs2_index dec),
      instruction_linear_address + sign_extend32 (push_bit 1 (imm dec)) 12]"

definition beq_instruction_code :: "x86 list" where
  "beq_instruction_code = BEGIN_TRANSLATION @
     [Movl_param 0 RDX, Shl_imm 2 RDX, Addq R15 RDX, Movl_load RDX RSI,
      Movl_param 1 RDX, Shl_imm 2 RDX, Addq R15 RDX, Movl_load RDX RDI,
      Movl_load R14 RDX, Addl_imm 4 RDX,
      Cmpl RSI RDI, Jcc cNE 1,
      Movl_param 2 RDX,
      Label 1,
      Movl_store RDX R14]
     @ TRAP_TO_VMM"

definition riscv_beq_translator :: instruction_sub_translator where
  "riscv_beq_translator lay dec blob h =
     emit_translation lay ''beq_instruction'' beq_instruction_code 
       (branch_params dec (next_instruction_to_fetch blob)) True blob h"

definition bne_instruction_code :: "x86 list" where
  "bne_instruction_code = BEGIN_TRANSLATION @
     [Movl_param 0 RDX, Shl_imm 2 RDX, Addq R15 RDX, Movl_load RDX RSI,
      Movl_param 1 RDX, Shl_imm 2 RDX, Addq R15 RDX, Movl_load RDX RDI,
      Movl_load R14 RDX, Addl_imm 4 RDX,
      Cmpl RSI RDI, Jcc cE 1,
      Movl_param 2 RDX,
      Label 1,
      Movl_store RDX R14]
     @ TRAP_TO_VMM"

definition riscv_bne_translator :: instruction_sub_translator where
  "riscv_bne_translator lay dec blob h =
     emit_translation lay ''bne_instruction'' bne_instruction_code 
       (branch_params dec (next_instruction_to_fetch blob)) True blob h"

definition blt_instruction_code :: "x86 list" where
  "blt_instruction_code = BEGIN_TRANSLATION @
     [Movl_param 0 RDX, Shl_imm 2 RDX, Addq R15 RDX, Movl_load RDX RSI,
      Movl_param 1 RDX, Shl_imm 2 RDX, Addq R15 RDX, Movl_load RDX RDI,
      Movl_load R14 RDX, Addl_imm 4 RDX,
      Cmpl RDI RSI, Jcc cGE 1,
      Movl_param 2 RDX,
      Label 1,
      Movl_store RDX R14]
     @ TRAP_TO_VMM"

definition riscv_blt_translator :: instruction_sub_translator where
  "riscv_blt_translator lay dec blob h =
     emit_translation lay ''blt_instruction'' blt_instruction_code 
       (branch_params dec (next_instruction_to_fetch blob)) True blob h"

definition bltu_instruction_code :: "x86 list" where
  "bltu_instruction_code = BEGIN_TRANSLATION @
     [Movl_param 0 RDX, Shl_imm 2 RDX, Addq R15 RDX, Movl_load RDX RSI,
      Movl_param 1 RDX, Shl_imm 2 RDX, Addq R15 RDX, Movl_load RDX RDI,
      Movl_load R14 RDX, Addl_imm 4 RDX,
      Cmpl RDI RSI, Jcc cAE 1,
      Movl_param 2 RDX,
      Label 1,
      Movl_store RDX R14]
     @ TRAP_TO_VMM"

definition riscv_bltu_translator :: instruction_sub_translator where
  "riscv_bltu_translator lay dec blob h =
     emit_translation lay ''bltu_instruction'' bltu_instruction_code 
       (branch_params dec (next_instruction_to_fetch blob)) True blob h"

definition bge_instruction_code :: "x86 list" where
  "bge_instruction_code = BEGIN_TRANSLATION @
     [Movl_param 0 RDX, Shl_imm 2 RDX, Addq R15 RDX, Movl_load RDX RSI,
      Movl_param 1 RDX, Shl_imm 2 RDX, Addq R15 RDX, Movl_load RDX RDI,
      Movl_load R14 RDX, Addl_imm 4 RDX,
      Cmpl RDI RSI, Jcc cL 1,
      Movl_param 2 RDX,
      Label 1,
      Movl_store RDX R14]
     @ TRAP_TO_VMM"

definition riscv_bge_translator :: instruction_sub_translator where
  "riscv_bge_translator lay dec blob h =
     emit_translation lay ''bge_instruction'' bge_instruction_code 
       (branch_params dec (next_instruction_to_fetch blob)) True blob h"

definition bgeu_instruction_code :: "x86 list" where
  "bgeu_instruction_code = BEGIN_TRANSLATION @
     [Movl_param 0 RDX, Shl_imm 2 RDX, Addq R15 RDX, Movl_load RDX RSI,
      Movl_param 1 RDX, Shl_imm 2 RDX, Addq R15 RDX, Movl_load RDX RDI,
      Movl_load R14 RDX, Addl_imm 4 RDX,
      Cmpl RDI RSI, Jcc cB 1,
      Movl_param 2 RDX,
      Label 1,
      Movl_store RDX R14]
     @ TRAP_TO_VMM"

definition riscv_bgeu_translator :: instruction_sub_translator where
  "riscv_bgeu_translator lay dec blob h =
     emit_translation lay ''bgeu_instruction'' bgeu_instruction_code 
       (branch_params dec (next_instruction_to_fetch blob)) True blob h"

text \<open>The table that \<open>branch_constructor\<close> fills.\<close>

definition branch_handlers :: "u8 \<Rightarrow> instruction_sub_translator option" where
  "branch_handlers f3 =
     (if f3 = 0x0 then Some riscv_beq_translator
      else if f3 = 0x1 then Some riscv_bne_translator
      else if f3 = 0x4 then Some riscv_blt_translator
      else if f3 = 0x6 then Some riscv_bltu_translator
      else if f3 = 0x5 then Some riscv_bge_translator
      else if f3 = 0x7 then Some riscv_bgeu_translator
      else None)"

definition riscv_branch_instructions_translation_entry :: instruction_translator where
  "riscv_branch_instructions_translation_entry lay blob instruction h =
     Option.bind (instruction_decoding_per_type instruction ENCODING_TYPE_B) (\<lambda>dec.
     case branch_handlers (funct3 dec) of
       None \<Rightarrow> None
     | Some handler \<Rightarrow> handler lay dec blob h)"

subsection \<open>The templates compute the branches\<close>

context vmm_calls
begin

lemma beq_block:
  assumes "entered s h w" "quiet h w"
  shows "leaves cc [reg_param rs1, reg_param rs2, pc h + off] beq_instruction_code s
    (rv_exec_branch rBEQ rs1 rs2 off h) w"
  unfolding beq_instruction_code_def
  by (rule leaves_body [OF assms]) (auto simp: template_code x86_run rv_ref)

lemma bne_block:
  assumes "entered s h w" "quiet h w"
  shows "leaves cc [reg_param rs1, reg_param rs2, pc h + off] bne_instruction_code s
    (rv_exec_branch rBNE rs1 rs2 off h) w"
  unfolding bne_instruction_code_def
  by (rule leaves_body [OF assms]) (auto simp: template_code x86_run rv_ref)

lemma blt_block:
  assumes "entered s h w" "quiet h w"
  shows "leaves cc [reg_param rs1, reg_param rs2, pc h + off] blt_instruction_code s
    (rv_exec_branch rBLT rs1 rs2 off h) w"
  unfolding blt_instruction_code_def
  by (rule leaves_body [OF assms]) (auto simp: template_code x86_run rv_ref)

lemma bltu_block:
  assumes "entered s h w" "quiet h w"
  shows "leaves cc [reg_param rs1, reg_param rs2, pc h + off] bltu_instruction_code s
    (rv_exec_branch rBLTU rs1 rs2 off h) w"
  unfolding bltu_instruction_code_def
  by (rule leaves_body [OF assms]) (auto simp: template_code x86_run rv_ref)

lemma bge_block:
  assumes "entered s h w" "quiet h w"
  shows "leaves cc [reg_param rs1, reg_param rs2, pc h + off] bge_instruction_code s
    (rv_exec_branch rBGE rs1 rs2 off h) w"
  unfolding bge_instruction_code_def
  by (rule leaves_body [OF assms]) (auto simp: template_code x86_run rv_ref)

lemma bgeu_block:
  assumes "entered s h w" "quiet h w"
  shows "leaves cc [reg_param rs1, reg_param rs2, pc h + off] bgeu_instruction_code s
    (rv_exec_branch rBGEU rs1 rs2 off h) w"
  unfolding bgeu_instruction_code_def
  by (rule leaves_body [OF assms]) (auto simp: template_code x86_run rv_ref)

end

end
