(* ===== verification/Translate_Muldiv.thy ===== *)
theory Translate_Muldiv
  imports Translate_Branch
begin

text \<open>
  \<open>sandbox/translate_multiplication_and_division.c\<close>: the M extension on the host's one-operand
  multiplications and divisions. The host raises a divide error on a zero divisor and on a
  quotient that does not fit; the guest instructions never trap. The lemmas say where the
  two agree and where the block takes the host fault.
\<close>

definition mul_instruction_code :: "x86 list" where
  "mul_instruction_code = BEGIN_TRANSLATION @
     [Movl_param 0 RSI, Shl_imm 2 RSI, Addq R15 RSI, Movl_load RSI RDX,
      Movl_param 1 RSI, Shl_imm 2 RSI, Addq R15 RSI, Movl_load RSI RAX,
      Imull RDX,
      Movl_param 2 RDI, Shl_imm 2 RDI, Addq R15 RDI, Movl_store RAX RDI]
     @ RESET_ZERO_REGISTER @ PROCEED_TO_NEXT_INSTRUCTION @ END_INSTRUCTION"

definition riscv_mul_translator :: instruction_sub_translator where
  "riscv_mul_translator lay dec blob h =
     emit_translation lay ''mul_instruction'' mul_instruction_code (op_params dec) False blob h"

definition mulh_instruction_code :: "x86 list" where
  "mulh_instruction_code = BEGIN_TRANSLATION @
     [Movl_param 0 RSI, Shl_imm 2 RSI, Addq R15 RSI, Movl_load RSI RDX,
      Movl_param 1 RSI, Shl_imm 2 RSI, Addq R15 RSI, Movl_load RSI RAX,
      Imull RDX,
      Movl_param 2 RDI, Shl_imm 2 RDI, Addq R15 RDI, Movl_store RDX RDI]
     @ RESET_ZERO_REGISTER @ PROCEED_TO_NEXT_INSTRUCTION @ END_INSTRUCTION"

definition riscv_mulh_translator :: instruction_sub_translator where
  "riscv_mulh_translator lay dec blob h =
     emit_translation lay ''mulh_instruction'' mulh_instruction_code (op_params dec) False blob h"

definition mulhu_instruction_code :: "x86 list" where
  "mulhu_instruction_code = BEGIN_TRANSLATION @
     [Movl_param 0 RSI, Shl_imm 2 RSI, Addq R15 RSI, Movl_load RSI RDX,
      Movl_param 1 RSI, Shl_imm 2 RSI, Addq R15 RSI, Movl_load RSI RAX,
      Mull RDX,
      Movl_param 2 RDI, Shl_imm 2 RDI, Addq R15 RDI, Movl_store RDX RDI]
     @ RESET_ZERO_REGISTER @ PROCEED_TO_NEXT_INSTRUCTION @ END_INSTRUCTION"

definition riscv_mulhu_translator :: instruction_sub_translator where
  "riscv_mulhu_translator lay dec blob h =
     emit_translation lay ''mulhu_instruction'' mulhu_instruction_code (op_params dec) False blob h"

definition mulhsu_instruction_code :: "x86 list" where
  "mulhsu_instruction_code = BEGIN_TRANSLATION @
     [Movl_param 0 RSI, Shl_imm 2 RSI, Addq R15 RSI, Movl_load RSI RAX,
      Movsxd RAX RAX,
      Movl_param 1 RSI, Shl_imm 2 RSI, Addq R15 RSI, Movl_load RSI RDX,
      Imulq RDX, Shrq_imm 32 RAX,
      Movl_param 2 RDI, Shl_imm 2 RDI, Addq R15 RDI, Movl_store RAX RDI]
     @ RESET_ZERO_REGISTER @ PROCEED_TO_NEXT_INSTRUCTION @ END_INSTRUCTION"

definition riscv_mulhsu_translator :: instruction_sub_translator where
  "riscv_mulhsu_translator lay dec blob h =
     emit_translation lay ''mulhsu_instruction'' mulhsu_instruction_code (op_params dec) False blob h"

definition div_instruction_code :: "x86 list" where
  "div_instruction_code = BEGIN_TRANSLATION @
     [Movl_param 0 RSI, Shl_imm 2 RSI, Addq R15 RSI, Movl_load RSI RAX,
      Movsxd RAX RDX, Shrq_imm 32 RDX,
      Movl_param 1 RSI, Shl_imm 2 RSI, Addq R15 RSI, Movl_load RSI RBX,
      Movl RBX R8, Cmpl_imm 0 R8, Jcc cNE 1, Movl_imm 0xffffffff RAX, Jmp 2,
      Label 1, Idivl RBX,
      Label 2, Movl_param 2 RDI, Shl_imm 2 RDI, Addq R15 RDI, Movl_store RAX RDI]
     @ RESET_ZERO_REGISTER @ PROCEED_TO_NEXT_INSTRUCTION @ END_INSTRUCTION"

definition riscv_div_translator :: instruction_sub_translator where
  "riscv_div_translator lay dec blob h =
     emit_translation lay ''div_instruction'' div_instruction_code (op_params dec) False blob h"

definition rem_instruction_code :: "x86 list" where
  "rem_instruction_code = BEGIN_TRANSLATION @
     [Movl_param 0 RSI, Shl_imm 2 RSI, Addq R15 RSI, Movl_load RSI RAX,
      Movsxd RAX RDX, Shrq_imm 32 RDX,
      Movl_param 1 RSI, Shl_imm 2 RSI, Addq R15 RSI, Movl_load RSI RBX,
      Idivl RBX,
      Movl_param 2 RDI, Shl_imm 2 RDI, Addq R15 RDI, Movl_store RDX RDI]
     @ RESET_ZERO_REGISTER @ PROCEED_TO_NEXT_INSTRUCTION @ END_INSTRUCTION"

definition riscv_rem_translator :: instruction_sub_translator where
  "riscv_rem_translator lay dec blob h =
     emit_translation lay ''rem_instruction'' rem_instruction_code (op_params dec) False blob h"

definition divu_instruction_code :: "x86 list" where
  "divu_instruction_code = BEGIN_TRANSLATION @
     [Movl_param 0 RSI, Shl_imm 2 RSI, Addq R15 RSI, Movl_load RSI RAX,
      Xorl RDX RDX,
      Movl_param 1 RSI, Shl_imm 2 RSI, Addq R15 RSI, Movl_load RSI RBX,
      Movl RBX R8, Cmpl_imm 0 R8, Jcc cNE 1, Movl_imm 0xffffffff RAX, Jmp 2,
      Label 1, Divl RBX,
      Label 2, Movl_param 2 RDI, Shl_imm 2 RDI, Addq R15 RDI, Movl_store RAX RDI]
     @ RESET_ZERO_REGISTER @ PROCEED_TO_NEXT_INSTRUCTION @ END_INSTRUCTION"

definition riscv_divu_translator :: instruction_sub_translator where
  "riscv_divu_translator lay dec blob h =
     emit_translation lay ''divu_instruction'' divu_instruction_code (op_params dec) False blob h"

definition remu_instruction_code :: "x86 list" where
  "remu_instruction_code = BEGIN_TRANSLATION @
     [Movl_param 0 RSI, Shl_imm 2 RSI, Addq R15 RSI, Movl_load RSI RAX,
      Xorl RDX RDX,
      Movl_param 1 RSI, Shl_imm 2 RSI, Addq R15 RSI, Movl_load RSI RBX,
      Divl RBX,
      Movl_param 2 RDI, Shl_imm 2 RDI, Addq R15 RDI, Movl_store RDX RDI]
     @ RESET_ZERO_REGISTER @ PROCEED_TO_NEXT_INSTRUCTION @ END_INSTRUCTION"

definition riscv_remu_translator :: instruction_sub_translator where
  "riscv_remu_translator lay dec blob h =
     emit_translation lay ''remu_instruction'' remu_instruction_code (op_params dec) False blob h"

text \<open>The table that \<open>mul_and_div_constructor\<close> fills.\<close>

definition mul_div_handlers :: "u8 \<Rightarrow> instruction_sub_translator option" where
  "mul_div_handlers f3 =
     (if f3 = 0x0 then Some riscv_mul_translator
      else if f3 = 0x1 then Some riscv_mulh_translator
      else if f3 = 0x3 then Some riscv_mulhu_translator
      else if f3 = 0x2 then Some riscv_mulhsu_translator
      else if f3 = 0x4 then Some riscv_div_translator
      else if f3 = 0x5 then Some riscv_divu_translator
      else if f3 = 0x6 then Some riscv_rem_translator
      else if f3 = 0x7 then Some riscv_remu_translator
      else None)"

definition riscv_mul_div_instructions_translation_entry :: instruction_sub_translator where
  "riscv_mul_div_instructions_translation_entry lay dec blob h =
     (case mul_div_handlers (funct3 dec) of
        None \<Rightarrow> None
      | Some handler \<Rightarrow> handler lay dec blob h)"

subsection \<open>Products\<close>

lemma ucast_word_of_int [simp]:
  "(ucast (word_of_int v :: u64) :: u32) = word_of_int v"
  "(ucast (word_of_int v :: 128 word) :: u64) = word_of_int v"
  by (rule bit_word_eqI; simp add: bit_simps)+

lemma high_word_of_int:
  "(ucast (drop_bit 32 (word_of_int v :: u64)) :: u32) = word_of_int (v div 2 ^ 32)"
proof -
  have "v div 2 ^ 32 = drop_bit 32 v" by (simp add: drop_bit_eq_div)
  then show ?thesis by (simp only:) (rule bit_word_eqI, simp add: bit_simps)
qed

lemma scast_32_64: "(scast (x :: u32) :: u64) = word_of_int (sint x)"
  by (rule scast_eq)

lemma ucast_32_64: "(ucast (x :: u32) :: u64) = word_of_int (uint x)"
  by (rule ucast_eq)

lemma mul_low: "(ucast ((scast (x :: u32) :: u64) * scast (y :: u32)) :: u32) = x * y"
proof -
  have "(ucast ((scast x :: u64) * scast y) :: u32) = word_of_int (sint x * sint y)"
    by (simp only: scast_32_64 wi_hom_mult ucast_word_of_int)
  also have "\<dots> = x * y" by (simp add: wi_hom_mult [symmetric])
  finally show ?thesis .
qed

lemma mulh_high:
  "(ucast (drop_bit 32 ((scast (x :: u32) :: u64) * scast (y :: u32))) :: u32)
   = word_of_int ((sint x * sint y) div 2 ^ 32)"
  by (simp only: scast_32_64 wi_hom_mult high_word_of_int)

lemma mulhu_high:
  "(ucast (drop_bit 32 ((ucast (x :: u32) :: u64) * ucast (y :: u32))) :: u32)
   = word_of_int ((uint x * uint y) div 2 ^ 32)"
  by (simp only: ucast_32_64 wi_hom_mult high_word_of_int)

lemma sint_scast_32_64: "sint (scast (x :: u32) :: u64) = sint x"
  by (rule sint_up_scast) (simp add: is_up)

lemma sint_ucast_32_64: "sint (ucast (x :: u32) :: u64) = uint x"
  by (rule bit_eqI) (auto simp: bit_simps min_def dest: bit_imp_le_length)

lemma mulhsu_high:
  "(ucast (drop_bit 32 (ucast ((scast (scast (x :: u32) :: u64) :: 128 word) * scast (ucast (y :: u32) :: u64)) :: u64)) :: u32)
   = word_of_int ((sint x * uint y) div 2 ^ 32)"
proof -
  have "(scast (scast x :: u64) :: 128 word) = word_of_int (sint x)"
    by (simp only: scast_eq [of "scast x :: u64"] sint_scast_32_64)
  moreover have "(scast (ucast y :: u64) :: 128 word) = word_of_int (uint y)"
    by (simp only: scast_eq [of "ucast y :: u64"] sint_ucast_32_64)
  ultimately show ?thesis by (simp only: wi_hom_mult ucast_word_of_int high_word_of_int)
qed

subsection \<open>Quotients\<close>

text \<open>\<open>movsxd\<close> and a shift by 32 leave the sign of \<open>rs1\<close> in \<open>edx\<close>.\<close>

lemma edx_eax_signed: "edx_eax (ucast (drop_bit 32 (scast (x :: u32) :: u64))) x = scast x"
proof (rule bit_word_eqI)
  fix n
  assume "n < LENGTH(64)"
  then consider "n < 31" | "n = 31" | "32 \<le> n" "n < 64" by fastforce
  then show "bit (edx_eax (ucast (drop_bit 32 (scast x :: u64))) x) n = bit (scast x :: u64) n"
    by cases (auto simp: edx_eax_def bit_simps min_def dest: bit_imp_le_length)
qed

lemma edx_eax_unsigned: "edx_eax 0 x = ucast x"
  by (simp add: edx_eax_def)

text \<open>The one quotient of two signed words that does not fit.\<close>

definition div_overflow :: "u32 \<Rightarrow> u32 \<Rightarrow> bool" where
  "div_overflow a b \<longleftrightarrow> a = 0x80000000 \<and> b = - 1"

lemma quotient_fits:
  fixes a b :: u32
  assumes "b \<noteq> 0"
  shows "(sint a sdiv sint b < - (2 ^ 31) \<or> 2 ^ 31 \<le> sint a sdiv sint b) \<longleftrightarrow> div_overflow a b"
proof -
  have range: "- \<bar>sint a\<bar> \<le> sint a sdiv sint b" "sint a sdiv sint b \<le> \<bar>sint a\<bar>"
    using sdiv_int_range [of "sint a" "sint b"] by auto
  have "a = 0x80000000 \<longleftrightarrow> sint a = - (2 ^ 31)" using word_eq_iff_signed [of a "0x80000000"] by simp
  moreover have "b = - 1 \<longleftrightarrow> sint b = - 1" using word_eq_iff_signed [of b "- 1"] by simp
  moreover have "sint a = - (2 ^ 31) \<Longrightarrow> sint a sdiv sint b = 2 ^ 31 \<longleftrightarrow> sint b = - 1"
    using int_sdiv_negated_is_minus1 [of "sint a" "sint b"] by simp
  ultimately show ?thesis
    using range sint_32_range [of a] unfolding div_overflow_def by linarith
qed

lemma unsigned_quotient:
  fixes a b :: u32
  shows "uint (ucast a :: u64) = uint a" "\<not> 4294967296 \<le> uint a div uint b"
    "word_of_int (uint a div uint b) = a div b" "word_of_int (uint a mod uint b) = a mod b"
    "uint b = 0 \<longleftrightarrow> b = 0"
proof -
  show "uint (ucast a :: u64) = uint a" by (simp add: uint_up_ucast is_up)
  have "uint a div uint b \<le> uint a"
    by (metis div_by_0 div_le_dividend uint_nat uint_div_distrib unat_div_distrib zle_int)
  then show "\<not> 4294967296 \<le> uint a div uint b" using uint_bounded [of a] by simp
qed (simp_all add: word_div_def word_mod_def uint_0_iff)

lemma div_overflow_nonzero: "div_overflow a b \<Longrightarrow> b \<noteq> 0"
  by (auto simp: div_overflow_def)

lemma sint_eq_0: "sint (b :: u32) = 0 \<longleftrightarrow> b = 0"
  by (rule signed_eq_0_iff)

lemma all_ones: "(0xffffffff :: u32) = - 1"
  by simp

lemmas division_steps =
  all_ones sint_eq_0 idiv_edx_eax_def div_edx_eax_def edx_eax_signed edx_eax_unsigned sint_scast_32_64
  unsigned_quotient

context vmm_calls
begin

lemma mul_block:
  assumes "entered s h w" "quiet h w"
  shows "completes cc [reg_param rs1, reg_param rs2, reg_param rd] mul_instruction_code s
    (rv_exec_op rMUL rd rs1 rs2 h) w"
  unfolding mul_instruction_code_def
  by (rule completes_body [OF assms]) (simp add: template_code x86_run rv_ref mul_edx_eax_def mul_low mult.commute)

lemma mulh_block:
  assumes "entered s h w" "quiet h w"
  shows "completes cc [reg_param rs1, reg_param rs2, reg_param rd] mulh_instruction_code s
    (rv_exec_op rMULH rd rs1 rs2 h) w"
  unfolding mulh_instruction_code_def
  by (rule completes_body [OF assms]) (simp add: template_code x86_run rv_ref mul_edx_eax_def mulh_high mult.commute)

lemma mulhu_block:
  assumes "entered s h w" "quiet h w"
  shows "completes cc [reg_param rs1, reg_param rs2, reg_param rd] mulhu_instruction_code s
    (rv_exec_op rMULHU rd rs1 rs2 h) w"
  unfolding mulhu_instruction_code_def
  by (rule completes_body [OF assms]) (simp add: template_code x86_run rv_ref mul_edx_eax_def mulhu_high mult.commute)

lemma mulhsu_block:
  assumes "entered s h w" "quiet h w"
  shows "completes cc [reg_param rs1, reg_param rs2, reg_param rd] mulhsu_instruction_code s
    (rv_exec_op rMULHSU rd rs1 rs2 h) w"
  unfolding mulhsu_instruction_code_def
  by (rule completes_body [OF assms]) (simp add: template_code x86_run rv_ref mulhsu_high Let_def)

lemma divu_block:
  assumes "entered s h w" "quiet h w"
  shows "completes cc [reg_param rs1, reg_param rs2, reg_param rd] divu_instruction_code s
    (rv_exec_op rDIVU rd rs1 rs2 h) w"
  unfolding divu_instruction_code_def
  by (rule completes_body [OF assms])
     (simp add: template_code x86_run rv_ref division_steps Let_def)

lemma div_block:
  assumes "entered s h w" "quiet h w" "\<not> div_overflow (rv_x h rs1) (rv_x h rs2)"
  shows "completes cc [reg_param rs1, reg_param rs2, reg_param rd] div_instruction_code s
    (rv_exec_op rDIV rd rs1 rs2 h) w"
  unfolding div_instruction_code_def
  using assms(3) quotient_fits [of "rv_x h rs2" "rv_x h rs1"]
  by (intro completes_body [OF assms(1,2)])
     (auto simp add: template_code x86_run rv_ref division_steps Let_def)

lemma div_block_overflow:
  assumes "entered s h w" "quiet h w" "div_overflow (rv_x h rs1) (rv_x h rs2)"
  shows "x86_exec cc [reg_param rs1, reg_param rs2, reg_param rd] div_instruction_code s = Divide_error"
  unfolding div_instruction_code_def
  using assms(3) quotient_fits [of "rv_x h rs2" "rv_x h rs1"]
  by (intro faults_body [OF assms(1,2)])
     (auto simp add: template_code x86_run rv_ref division_steps Let_def dest: div_overflow_nonzero)

lemma rem_block:
  assumes "entered s h w" "quiet h w"
    and "rv_x h rs2 \<noteq> 0" "\<not> div_overflow (rv_x h rs1) (rv_x h rs2)"
  shows "completes cc [reg_param rs1, reg_param rs2, reg_param rd] rem_instruction_code s
    (rv_exec_op rREM rd rs1 rs2 h) w"
  unfolding rem_instruction_code_def
  using assms(3,4) quotient_fits [of "rv_x h rs2" "rv_x h rs1"]
  by (intro completes_body [OF assms(1,2)])
     (auto simp add: template_code x86_run rv_ref division_steps Let_def)

lemma rem_block_fault:
  assumes "entered s h w" "quiet h w"
    and "rv_x h rs2 = 0 \<or> div_overflow (rv_x h rs1) (rv_x h rs2)"
  shows "x86_exec cc [reg_param rs1, reg_param rs2, reg_param rd] rem_instruction_code s = Divide_error"
  unfolding rem_instruction_code_def
  using assms(3) quotient_fits [of "rv_x h rs2" "rv_x h rs1"]
  by (intro faults_body [OF assms(1,2)])
     (auto simp add: template_code x86_run rv_ref division_steps Let_def dest: div_overflow_nonzero)

lemma remu_block:
  assumes "entered s h w" "quiet h w" "rv_x h rs2 \<noteq> 0"
  shows "completes cc [reg_param rs1, reg_param rs2, reg_param rd] remu_instruction_code s
    (rv_exec_op rREMU rd rs1 rs2 h) w"
  unfolding remu_instruction_code_def
  using assms(3)
  by (intro completes_body [OF assms(1,2)])
     (auto simp add: template_code x86_run rv_ref division_steps Let_def)

lemma remu_block_fault:
  assumes "entered s h w" "quiet h w" "rv_x h rs2 = 0"
  shows "x86_exec cc [reg_param rs1, reg_param rs2, reg_param rd] remu_instruction_code s = Divide_error"
  unfolding remu_instruction_code_def
  using assms(3)
  by (intro faults_body [OF assms(1,2)])
     (auto simp add: template_code x86_run rv_ref division_steps Let_def)

end

end
