(* ===== verification/Translate_Jump.thy ===== *)
theory Translate_Jump
  imports Translate_Muldiv
begin

text \<open>
  \<open>sandbox/translate_unconditional_jump_intrs.c\<close>: \<open>jal\<close> and \<open>jalr\<close>. Both write the return
  address, which the translator computes from the address of the instruction, store the
  target in the pc and trap to the monitor.
\<close>

definition jal_instruction_without_target_code :: "x86 list" where
  "jal_instruction_without_target_code = BEGIN_TRANSLATION @
     [Movl_param 0 RDX, Shl_imm 2 RDX, Addq R15 RDX,
      Movl_param 1 RAX, Movl_store RAX RDX,
      Movl_param 2 RAX, Movl_store RAX R14]
     @ RESET_ZERO_REGISTER @ TRAP_TO_VMM"

definition riscv_jal_translator :: instruction_translator where
  "riscv_jal_translator lay blob instruction h =
     (let instruction_linear_address = next_instruction_to_fetch blob in
      Option.bind (instruction_decoding_per_type instruction ENCODING_TYPE_UJ) (\<lambda>dec.
      let jump_target = instruction_linear_address + sign_extend32 (push_bit 1 (imm dec)) 20 in
      emit_translation lay ''jal_instruction_without_target'' jal_instruction_without_target_code
        [ucast (rd_index dec), instruction_linear_address + 4, jump_target] True blob h))"

definition jalr_instruction_code :: "x86 list" where
  "jalr_instruction_code = BEGIN_TRANSLATION @
     [Movl_param 2 RDX, Shl_imm 2 RDX, Addq R15 RDX, Movl_load RDX RBX,
      Movl_param 3 RAX, Addl RAX RBX, Btr_imm 0 RBX,
      Movl_param 0 RDX, Shl_imm 2 RDX, Addq R15 RDX,
      Movl_param 1 RAX, Movl_store RAX RDX,
      Movl_store RBX R14]
     @ RESET_ZERO_REGISTER @ TRAP_TO_VMM"

definition riscv_jalr_translator :: instruction_translator where
  "riscv_jalr_translator lay blob instruction h =
     (let instruction_linear_address = next_instruction_to_fetch blob in
      Option.bind (instruction_decoding_per_type instruction ENCODING_TYPE_I) (\<lambda>dec.
      let signed_offset = sign_extend32 (imm dec) 11 in
      emit_translation lay ''jalr_instruction'' jalr_instruction_code
        [ucast (rd_index dec), instruction_linear_address + 4, ucast (rs1_index dec), signed_offset]
        True blob h))"

text \<open>These templates clear register 0 after the pc is written.\<close>

lemma rv_goto_registers [x86_run]:
  "registers (rv_goto p h) = registers h"
  "(rv_goto p h)\<lparr>registers := r\<rparr> = rv_goto p (h\<lparr>registers := r\<rparr>)"
  by (simp_all add: rv_goto_def)

context vmm_calls
begin

lemma jal_block:
  assumes "entered s h w" "quiet h w"
  shows "leaves cc [reg_param rd, pc h + 4, pc h + off] jal_instruction_without_target_code s
    (rv_exec_jal rd off h) w"
  unfolding jal_instruction_without_target_code_def
  by (rule leaves_body [OF assms]) (auto simp: template_code x86_run rv_ref)

lemma jalr_block:
  assumes "entered s h w" "quiet h w"
  shows "leaves cc [reg_param rd, pc h + 4, reg_param rs1, off] jalr_instruction_code s
    (rv_exec_jalr rd rs1 off h) w"
  unfolding jalr_instruction_code_def
  by (rule leaves_body [OF assms]) (auto simp: template_code x86_run rv_ref)

end

end
