(* ===== verification/Translate_Load.thy ===== *)
theory Translate_Load
  imports Translate_Jump
begin

text \<open>
  \<open>sandbox/translate_memory_load.c\<close>: the loads. A block computes the address, calls the
  \<open>mmu_read\<close> function of its width and extends what comes back. The locale \<open>memory_calls\<close>
  is the contract of those functions: a read of mapped bytes returns their little-endian
  value in the low part of the result register, a write of mapped bytes changes them.
\<close>

definition load_params :: "decoding \<Rightarrow> u32 list" where
  "load_params dec = [sign_extend32 (imm dec) 11, ucast (rs1_index dec), ucast (rd_index dec)]"

definition lb_instruction_code :: "x86 list" where
  "lb_instruction_code = BEGIN_TRANSLATION @
     [Movl_param 1 RDX, Shl_imm 2 RDX, Addq R15 RDX, Movl_load RDX RSI,
      Movl_param 0 RDX, Addl RDX RSI,
      Movq R12 RDI, Movq_sym mmu_read8_sym RAX]
     @ SAVE_GUEST_CONTEXT_SWITCH_REGS @ [Call RAX] @ RESTORE_GUEST_CONTEXT_SWITCH_REGS @
     [Movl_param 2 RDX, Shl_imm 2 RDX, Addq R15 RDX, Movsbl RAX RAX, Movl_store RAX RDX]
     @ RESET_ZERO_REGISTER @ PROCEED_TO_NEXT_INSTRUCTION @ END_INSTRUCTION"

definition riscv_lb_translator :: instruction_sub_translator where
  "riscv_lb_translator lay dec blob h =
     emit_translation lay ''lb_instruction'' lb_instruction_code (load_params dec) False blob h"

definition lbu_instruction_code :: "x86 list" where
  "lbu_instruction_code = BEGIN_TRANSLATION @
     [Movl_param 1 RDX, Shl_imm 2 RDX, Addq R15 RDX, Movl_load RDX RSI,
      Movl_param 0 RDX, Addl RDX RSI,
      Movq R12 RDI, Movq_sym mmu_read8_sym RAX]
     @ SAVE_GUEST_CONTEXT_SWITCH_REGS @ [Call RAX] @ RESTORE_GUEST_CONTEXT_SWITCH_REGS @
     [Movl_param 2 RDX, Shl_imm 2 RDX, Addq R15 RDX, Movzbl RAX RAX, Movl_store RAX RDX]
     @ RESET_ZERO_REGISTER @ PROCEED_TO_NEXT_INSTRUCTION @ END_INSTRUCTION"

definition riscv_lbu_translator :: instruction_sub_translator where
  "riscv_lbu_translator lay dec blob h =
     emit_translation lay ''lbu_instruction'' lbu_instruction_code (load_params dec) False blob h"

definition lh_instruction_code :: "x86 list" where
  "lh_instruction_code = BEGIN_TRANSLATION @
     [Movl_param 1 RDX, Shl_imm 2 RDX, Addq R15 RDX, Movl_load RDX RSI,
      Movl_param 0 RDX, Addl RDX RSI,
      Movq R12 RDI, Movq_sym mmu_read16_sym RAX]
     @ SAVE_GUEST_CONTEXT_SWITCH_REGS @ [Call RAX] @ RESTORE_GUEST_CONTEXT_SWITCH_REGS @
     [Movl_param 2 RDX, Shl_imm 2 RDX, Addq R15 RDX, Movswl RAX RAX, Movl_store RAX RDX]
     @ RESET_ZERO_REGISTER @ PROCEED_TO_NEXT_INSTRUCTION @ END_INSTRUCTION"

definition riscv_lh_translator :: instruction_sub_translator where
  "riscv_lh_translator lay dec blob h =
     emit_translation lay ''lh_instruction'' lh_instruction_code (load_params dec) False blob h"

definition lhu_instruction_code :: "x86 list" where
  "lhu_instruction_code = BEGIN_TRANSLATION @
     [Movl_param 1 RDX, Shl_imm 2 RDX, Addq R15 RDX, Movl_load RDX RSI,
      Movl_param 0 RDX, Addl RDX RSI,
      Movq R12 RDI, Movq_sym mmu_read16_sym RAX]
     @ SAVE_GUEST_CONTEXT_SWITCH_REGS @ [Call RAX] @ RESTORE_GUEST_CONTEXT_SWITCH_REGS @
     [Movl_param 2 RDX, Shl_imm 2 RDX, Addq R15 RDX, Movzwl RAX RAX, Movl_store RAX RDX]
     @ RESET_ZERO_REGISTER @ PROCEED_TO_NEXT_INSTRUCTION @ END_INSTRUCTION"

definition riscv_lhu_translator :: instruction_sub_translator where
  "riscv_lhu_translator lay dec blob h =
     emit_translation lay ''lhu_instruction'' lhu_instruction_code (load_params dec) False blob h"

definition lw_instruction_code :: "x86 list" where
  "lw_instruction_code = BEGIN_TRANSLATION @
     [Movl_param 1 RDX, Shl_imm 2 RDX, Addq R15 RDX, Movl_load RDX RSI,
      Movl_param 0 RDX, Addl RDX RSI,
      Movq R12 RDI, Movq_sym mmu_read32_sym RAX]
     @ SAVE_GUEST_CONTEXT_SWITCH_REGS @ [Call RAX] @ RESTORE_GUEST_CONTEXT_SWITCH_REGS @
     [Movl_param 2 RDX, Shl_imm 2 RDX, Addq R15 RDX, Movl_store RAX RDX]
     @ RESET_ZERO_REGISTER @ PROCEED_TO_NEXT_INSTRUCTION @ END_INSTRUCTION"

definition riscv_lw_translator :: instruction_sub_translator where
  "riscv_lw_translator lay dec blob h =
     emit_translation lay ''lw_instruction'' lw_instruction_code (load_params dec) False blob h"

text \<open>The table that \<open>memory_load_constructor\<close> fills.\<close>

definition load_handlers :: "u8 \<Rightarrow> instruction_sub_translator option" where
  "load_handlers f3 =
     (if f3 = 2 then Some riscv_lw_translator
      else if f3 = 1 then Some riscv_lh_translator
      else if f3 = 5 then Some riscv_lhu_translator
      else if f3 = 0 then Some riscv_lb_translator
      else if f3 = 4 then Some riscv_lbu_translator
      else None)"

definition riscv_memory_load_instructions_translation_entry :: instruction_translator where
  "riscv_memory_load_instructions_translation_entry lay blob instruction h =
     Option.bind (instruction_decoding_per_type instruction ENCODING_TYPE_I) (\<lambda>dec.
     case load_handlers (funct3 dec) of
       None \<Rightarrow> None
     | Some handler \<Rightarrow> handler lay dec blob h)"

text \<open>\<open>al\<close> and \<open>ax\<close> are the low part of \<open>rax\<close>.\<close>

lemma ucast_sub_registers [x86_run]:
  "(ucast (ucast (x :: u64) :: u32) :: u8) = ucast x"
  "(ucast (ucast (x :: u64) :: u32) :: u16) = ucast x"
  by (rule bit_word_eqI; simp add: bit_simps)+

subsection \<open>The contract of the memory functions\<close>

locale memory_calls = vmm_calls cc quiet
  for cc :: "'w ccalls" and quiet :: "hart \<Rightarrow> 'w \<Rightarrow> bool" +
  fixes mem_bytes :: "hart \<Rightarrow> 'w \<Rightarrow> u32 \<Rightarrow> nat \<Rightarrow> u8 list option"
    and mem_update :: "hart \<Rightarrow> 'w \<Rightarrow> u32 \<Rightarrow> u8 list \<Rightarrow> 'w option"
  assumes read8: "mem_bytes h w a 1 = Some bs \<Longrightarrow>
      \<exists>x. \<forall>args. cc mmu_read8_sym (Vhart 0 # Vint (ucast a) # args) h w = Returned (Vint x) h w \<and>
          (ucast x :: u8) = ucast (le_word bs)"
    and read16: "mem_bytes h w a 2 = Some bs \<Longrightarrow>
      \<exists>x. \<forall>args. cc mmu_read16_sym (Vhart 0 # Vint (ucast a) # args) h w = Returned (Vint x) h w \<and>
          (ucast x :: u16) = ucast (le_word bs)"
    and read32: "mem_bytes h w a 4 = Some bs \<Longrightarrow>
      \<exists>x. \<forall>args. cc mmu_read32_sym (Vhart 0 # Vint (ucast a) # args) h w = Returned (Vint x) h w \<and>
          (ucast x :: u32) = ucast (le_word bs)"
    and write8: "mem_update h w a (le_bytes 1 v) = Some w' \<Longrightarrow>
      cc mmu_write8_sym (Vhart 0 # Vint (ucast a) # Vint v # args) h w = Returned Vundef h w'"
    and write16: "mem_update h w a (le_bytes 2 v) = Some w' \<Longrightarrow>
      cc mmu_write16_sym (Vhart 0 # Vint (ucast a) # Vint v # args) h w = Returned Vundef h w'"
    and write32: "mem_update h w a (le_bytes 4 v) = Some w' \<Longrightarrow>
      cc mmu_write32_sym (Vhart 0 # Vint (ucast a) # Vint v # args) h w = Returned Vundef h w'"
    and read_back: "mem_update h w a bs = Some w' \<Longrightarrow> mem_bytes h w' a (length bs) = Some bs"
    and mem_bytes_pc: "mem_bytes (h\<lparr>pc := p\<rparr>) w a n = mem_bytes h w a n"
begin

lemma lb_block:
  assumes "entered s h w" "quiet h w"
    and "mem_bytes h w (rv_ea rs1 off h) (rv_load_size rLB) = Some bs"
  shows "completes cc [off, reg_param rs1, reg_param rd] lb_instruction_code s
    (rv_exec_load rLB rd bs h) w"
proof -
  obtain x where "\<forall>args. cc mmu_read8_sym (Vhart 0 # Vint (ucast (rv_x h rs1 + off)) # args) h w
      = Returned (Vint x) h w \<and> (ucast x :: u8) = ucast (le_word bs)"
    using read8 assms(3) unfolding rv_ea_def rv_load_size.simps by blast
  then show ?thesis
    unfolding lb_instruction_code_def
    by (intro completes_body [OF assms(1,2)]) (auto simp: template_code x86_run rv_ref)
qed

lemma lbu_block:
  assumes "entered s h w" "quiet h w"
    and "mem_bytes h w (rv_ea rs1 off h) (rv_load_size rLBU) = Some bs"
  shows "completes cc [off, reg_param rs1, reg_param rd] lbu_instruction_code s
    (rv_exec_load rLBU rd bs h) w"
proof -
  obtain x where "\<forall>args. cc mmu_read8_sym (Vhart 0 # Vint (ucast (rv_x h rs1 + off)) # args) h w
      = Returned (Vint x) h w \<and> (ucast x :: u8) = ucast (le_word bs)"
    using read8 assms(3) unfolding rv_ea_def rv_load_size.simps by blast
  then show ?thesis
    unfolding lbu_instruction_code_def
    by (intro completes_body [OF assms(1,2)]) (auto simp: template_code x86_run rv_ref)
qed

lemma lh_block:
  assumes "entered s h w" "quiet h w"
    and "mem_bytes h w (rv_ea rs1 off h) (rv_load_size rLH) = Some bs"
  shows "completes cc [off, reg_param rs1, reg_param rd] lh_instruction_code s
    (rv_exec_load rLH rd bs h) w"
proof -
  obtain x where "\<forall>args. cc mmu_read16_sym (Vhart 0 # Vint (ucast (rv_x h rs1 + off)) # args) h w
      = Returned (Vint x) h w \<and> (ucast x :: u16) = ucast (le_word bs)"
    using read16 assms(3) unfolding rv_ea_def rv_load_size.simps by blast
  then show ?thesis
    unfolding lh_instruction_code_def
    by (intro completes_body [OF assms(1,2)]) (auto simp: template_code x86_run rv_ref)
qed

lemma lhu_block:
  assumes "entered s h w" "quiet h w"
    and "mem_bytes h w (rv_ea rs1 off h) (rv_load_size rLHU) = Some bs"
  shows "completes cc [off, reg_param rs1, reg_param rd] lhu_instruction_code s
    (rv_exec_load rLHU rd bs h) w"
proof -
  obtain x where "\<forall>args. cc mmu_read16_sym (Vhart 0 # Vint (ucast (rv_x h rs1 + off)) # args) h w
      = Returned (Vint x) h w \<and> (ucast x :: u16) = ucast (le_word bs)"
    using read16 assms(3) unfolding rv_ea_def rv_load_size.simps by blast
  then show ?thesis
    unfolding lhu_instruction_code_def
    by (intro completes_body [OF assms(1,2)]) (auto simp: template_code x86_run rv_ref)
qed

lemma lw_block:
  assumes "entered s h w" "quiet h w"
    and "mem_bytes h w (rv_ea rs1 off h) (rv_load_size rLW) = Some bs"
  shows "completes cc [off, reg_param rs1, reg_param rd] lw_instruction_code s
    (rv_exec_load rLW rd bs h) w"
proof -
  obtain x where "\<forall>args. cc mmu_read32_sym (Vhart 0 # Vint (ucast (rv_x h rs1 + off)) # args) h w
      = Returned (Vint x) h w \<and> (ucast x :: u32) = ucast (le_word bs)"
    using read32 assms(3) unfolding rv_ea_def rv_load_size.simps by blast
  then show ?thesis
    unfolding lw_instruction_code_def
    by (intro completes_body [OF assms(1,2)]) (auto simp: template_code x86_run rv_ref)
qed

end

end
