(* ===== verification/Translate_Store.thy ===== *)
theory Translate_Store
  imports Translate_Load
begin

text \<open>
  \<open>sandbox/translate_memory_store.c\<close>: the stores. A block computes the address, masks the value
  to its width and calls the \<open>mmu_write\<close> function of that width.
\<close>

definition store_params :: "decoding \<Rightarrow> u32 list" where
  "store_params dec = [sign_extend32 (imm dec) 11, ucast (rs1_index dec), ucast (rs2_index dec)]"

definition sb_instruction_code :: "x86 list" where
  "sb_instruction_code = BEGIN_TRANSLATION @
     [Movl_param 1 RDX, Shl_imm 2 RDX, Addq R15 RDX, Movl_load RDX RSI,
      Movl_param 0 RDX, Addl RDX RSI,
      Movl_param 2 RDX, Shl_imm 2 RDX, Addq R15 RDX, Movl_load RDX RDX,
      Andl_imm 0xff RDX, Movq R12 RDI, Movq_sym mmu_write8_sym RAX]
     @ SAVE_GUEST_CONTEXT_SWITCH_REGS @ [Call RAX] @ RESTORE_GUEST_CONTEXT_SWITCH_REGS
     @ PROCEED_TO_NEXT_INSTRUCTION @ END_INSTRUCTION"

definition riscv_sb_translator :: instruction_sub_translator where
  "riscv_sb_translator lay dec blob h =
     emit_translation lay ''sb_instruction'' sb_instruction_code (store_params dec) False blob h"

definition sh_instruction_code :: "x86 list" where
  "sh_instruction_code = BEGIN_TRANSLATION @
     [Movl_param 1 RDX, Shl_imm 2 RDX, Addq R15 RDX, Movl_load RDX RSI,
      Movl_param 0 RDX, Addl RDX RSI,
      Movl_param 2 RDX, Shl_imm 2 RDX, Addq R15 RDX, Movl_load RDX RDX,
      Andl_imm 0xffff RDX, Movq R12 RDI, Movq_sym mmu_write16_sym RAX]
     @ SAVE_GUEST_CONTEXT_SWITCH_REGS @ [Call RAX] @ RESTORE_GUEST_CONTEXT_SWITCH_REGS
     @ PROCEED_TO_NEXT_INSTRUCTION @ END_INSTRUCTION"

definition riscv_sh_translator :: instruction_sub_translator where
  "riscv_sh_translator lay dec blob h =
     emit_translation lay ''sh_instruction'' sh_instruction_code (store_params dec) False blob h"

definition sw_instruction_code :: "x86 list" where
  "sw_instruction_code = BEGIN_TRANSLATION @
     [Movl_param 1 RDX, Shl_imm 2 RDX, Addq R15 RDX, Movl_load RDX RSI,
      Movl_param 0 RDX, Addl RDX RSI,
      Movl_param 2 RDX, Shl_imm 2 RDX, Addq R15 RDX, Movl_load RDX RDX,
      Movq R12 RDI, Movq_sym mmu_write32_sym RAX]
     @ SAVE_GUEST_CONTEXT_SWITCH_REGS @ [Call RAX] @ RESTORE_GUEST_CONTEXT_SWITCH_REGS
     @ PROCEED_TO_NEXT_INSTRUCTION @ END_INSTRUCTION"

definition riscv_sw_translator :: instruction_sub_translator where
  "riscv_sw_translator lay dec blob h =
     emit_translation lay ''sw_instruction'' sw_instruction_code (store_params dec) False blob h"

text \<open>The table that \<open>memory_store_constructor\<close> fills.\<close>

definition store_handlers :: "u8 \<Rightarrow> instruction_sub_translator option" where
  "store_handlers f3 =
     (if f3 = 0 then Some riscv_sb_translator
      else if f3 = 1 then Some riscv_sh_translator
      else if f3 = 2 then Some riscv_sw_translator
      else None)"

definition riscv_memory_store_instructions_translation_entry :: instruction_translator where
  "riscv_memory_store_instructions_translation_entry lay blob instruction h =
     Option.bind (instruction_decoding_per_type instruction ENCODING_TYPE_S) (\<lambda>dec.
     case store_handlers (funct3 dec) of
       None \<Rightarrow> None
     | Some handler \<Rightarrow> handler lay dec blob h)"

subsection \<open>The templates compute the stores\<close>

text \<open>The masks keep exactly the bytes that are stored.\<close>

lemma le_bytes_masked:
  "le_bytes (Suc 0) (ucast (v AND 0xff :: u32)) = le_bytes (Suc 0) (ucast v)"
  "le_bytes 2 (ucast (v AND 0xffff :: u32)) = le_bytes 2 (ucast v)"
proof -
  have masks: "v AND 0xff = take_bit 8 v" "v AND 0xffff = take_bit 16 v"
    by (simp_all add: take_bit_eq_mask mask_eq_exp_minus_1)
  show "le_bytes (Suc 0) (ucast (v AND 0xff :: u32)) = le_bytes (Suc 0) (ucast v)"
    unfolding masks by (simp add: le_bytes_def) (rule bit_word_eqI, auto simp: bit_simps)
  show "le_bytes 2 (ucast (v AND 0xffff :: u32)) = le_bytes 2 (ucast v)"
    unfolding masks le_bytes_def by (intro map_cong refl) (rule bit_word_eqI, auto simp: bit_simps)
qed

context memory_calls
begin

lemma sb_block:
  assumes "entered s h w" "quiet h w"
    and "mem_update h w (rv_ea rs1 off h) (rv_store_bytes rSB rs2 h) = Some w'"
  shows "completes cc [off, reg_param rs1, reg_param rs2] sb_instruction_code s (rv_next h) w'"
  unfolding sb_instruction_code_def
  using assms(3) write8 [of h w "rv_x h rs1 + off"]
  by (intro completes_body [OF assms(1,2)]) (auto simp: template_code x86_run rv_ref le_bytes_masked)

lemma sh_block:
  assumes "entered s h w" "quiet h w"
    and "mem_update h w (rv_ea rs1 off h) (rv_store_bytes rSH rs2 h) = Some w'"
  shows "completes cc [off, reg_param rs1, reg_param rs2] sh_instruction_code s (rv_next h) w'"
  unfolding sh_instruction_code_def
  using assms(3) write16 [of h w "rv_x h rs1 + off"]
  by (intro completes_body [OF assms(1,2)]) (auto simp: template_code x86_run rv_ref le_bytes_masked)

lemma sw_block:
  assumes "entered s h w" "quiet h w"
    and "mem_update h w (rv_ea rs1 off h) (rv_store_bytes rSW rs2 h) = Some w'"
  shows "completes cc [off, reg_param rs1, reg_param rs2] sw_instruction_code s (rv_next h) w'"
  unfolding sw_instruction_code_def
  using assms(3) write32 [of h w "rv_x h rs1 + off"]
  by (intro completes_body [OF assms(1,2)]) (auto simp: template_code x86_run rv_ref le_bytes_masked)

text \<open>A word that is stored and loaded again comes back unchanged.\<close>

lemma store_then_load:
  assumes "entered s h w" "quiet h w" "quiet (rv_next h) w'"
    and up: "mem_update h w (rv_ea rs1 off h) (rv_store_bytes rSW rs2 h) = Some w'"
  shows "\<exists>s1. x86_exec cc [off, reg_param rs1, reg_param rs2] sw_instruction_code s = At_end s1 \<and>
    completes cc [off, reg_param rs1, reg_param rd] lw_instruction_code s1
      (rv_next (rv_set rd (rv_x h rs2) (rv_next h))) w'"
proof -
  obtain s1 where s1: "x86_exec cc [off, reg_param rs1, reg_param rs2] sw_instruction_code s = At_end s1"
    "entered s1 (rv_next h) w'"
    using sw_block [OF assms(1,2) up] by (auto simp: completes_def)
  have "mem_bytes (rv_next h) w' (rv_ea rs1 off (rv_next h)) (rv_load_size rLW) = Some (rv_store_bytes rSW rs2 h)"
  proof -
    have "rv_ea rs1 off (rv_next h) = rv_ea rs1 off h" by (simp add: rv_ea_def rv_x_def rv_next_def)
    with read_back [OF up] show ?thesis by (simp add: rv_next_def mem_bytes_pc rv_store_bytes_def)
  qed
  from lw_block [OF s1(2) assms(3) this]
  have "completes cc [off, reg_param rs1, reg_param rd] lw_instruction_code s1
      (rv_exec_load rLW rd (rv_store_bytes rSW rs2 h) (rv_next h)) w'" .
  moreover have "rv_load_value rLW (rv_store_bytes rSW rs2 h) = rv_x h rs2"
    unfolding rv_store_bytes_def rv_store_size.simps rv_load_value.simps le_word_le_bytes
    by (rule bit_word_eqI) (auto simp: bit_simps)
  ultimately show ?thesis using s1(1) by (simp add: rv_exec_load_def)
qed

end

end
