(* ===== verification/Translate_Fence.thy ===== *)
theory Translate_Fence
  imports Translate_Store
begin

text \<open>
  \<open>sandbox/translate_fence.c\<close>: \<open>fence\<close> does nothing but advance the pc; \<open>fence.i\<close> flushes the
  translation cache through the C function and ends the translation unit, so the
  instructions after it are translated again.
\<close>

definition fence_i_instruction_code :: "x86 list" where
  "fence_i_instruction_code = BEGIN_TRANSLATION @
     [Movq R12 RDI, Movq_sym flush_translation_cache_sym RAX]
     @ SAVE_GUEST_CONTEXT_SWITCH_REGS @ [Call RAX] @ RESTORE_GUEST_CONTEXT_SWITCH_REGS
     @ PROCEED_TO_NEXT_INSTRUCTION @ TRAP_TO_VMM"

definition riscv_fence_i_translator :: instruction_sub_translator where
  "riscv_fence_i_translator lay dec blob h =
     emit_translation lay ''fence_i_instruction'' fence_i_instruction_code
       [next_instruction_to_fetch blob] True blob h"

definition fence_instruction_code :: "x86 list" where
  "fence_instruction_code = BEGIN_TRANSLATION @ PROCEED_TO_NEXT_INSTRUCTION @ END_INSTRUCTION"

definition riscv_fence_translator :: instruction_sub_translator where
  "riscv_fence_translator lay dec blob h =
     emit_translation lay ''fence_instruction'' fence_instruction_code
       [next_instruction_to_fetch blob] False blob h"

text \<open>The table that \<open>fence_constructor\<close> fills.\<close>

definition fence_handlers :: "u8 \<Rightarrow> instruction_sub_translator option" where
  "fence_handlers f3 =
     (if f3 = 0x0 then Some riscv_fence_translator
      else if f3 = 0x1 then Some riscv_fence_i_translator
      else None)"

definition riscv_fence_instructions_translation_entry :: instruction_translator where
  "riscv_fence_instructions_translation_entry lay blob instruction h =
     Option.bind (instruction_decoding_per_type instruction ENCODING_TYPE_S) (\<lambda>dec.
     case fence_handlers (funct3 dec) of
       None \<Rightarrow> None
     | Some handler \<Rightarrow> handler lay dec blob h)"

context vmm_calls
begin

lemma fence_block:
  assumes "entered s h w" "quiet h w"
  shows "completes cc ps fence_instruction_code s (rv_next h) w"
  unfolding fence_instruction_code_def
  by (rule completes_body [OF assms]) (simp add: template_code x86_run rv_ref)

text \<open>The C function gets the hart in its first argument; the block goes on with what it leaves.\<close>

lemma fence_i_block:
  assumes "entered s h w" "quiet h w"
    and "\<And>args. cc flush_translation_cache_sym (Vhart 0 # args) h w = Returned r (flush_translation_cache h) w"
  shows "leaves cc ps fence_i_instruction_code s (rv_next (flush_translation_cache h)) w"
proof -
  have "wf_hart (flush_translation_cache h)"
    using enteredD(7) [OF assms(1)] by (simp add: wf_hart_def flush_translation_cache_def)
  then show ?thesis
    unfolding fence_i_instruction_code_def
    using assms(3) by (intro leaves_body [OF assms(1,2)]) (auto simp: template_code x86_run rv_ref)
qed

end

end
