(* ===== verification/Translate_Privileged.thy ===== *)
theory Translate_Privileged
  imports Translate_Fence
begin

text \<open>
  \<open>sandbox/translate_privileged_instr.c\<close>: each instruction is a call of a C callback. Only
  \<open>ecall\<close> is reachable: \<open>riscv_funct3_000_translator\<close> refuses everything else and the CSR
  handlers are not installed. The others are kept as the file has them.
\<close>

definition ebreak_instruction_code :: "x86 list" where
  "ebreak_instruction_code = BEGIN_TRANSLATION @
     [Movq R12 RDI, Movq_sym ebreak_callback_sym RAX]
     @ SAVE_GUEST_CONTEXT_SWITCH_REGS @ [Call RAX] @ RESTORE_GUEST_CONTEXT_SWITCH_REGS
     @ PROCEED_TO_NEXT_INSTRUCTION @ END_INSTRUCTION"

definition riscv_ebreak_translator :: instruction_sub_translator where
  "riscv_ebreak_translator lay dec blob h =
     emit_translation lay ''ebreak_instruction'' ebreak_instruction_code
       [next_instruction_to_fetch blob] False blob h"

definition mret_instruction_code :: "x86 list" where
  "mret_instruction_code = BEGIN_TRANSLATION @
     [Movq R12 RDI, Movq_sym mret_callback_sym RAX]
     @ SAVE_GUEST_CONTEXT_SWITCH_REGS @ [Call RAX] @ RESTORE_GUEST_CONTEXT_SWITCH_REGS
     @ TRAP_TO_VMM"

definition riscv_mret_translator :: instruction_sub_translator where
  "riscv_mret_translator lay dec blob h =
     emit_translation lay ''mret_instruction'' mret_instruction_code
       [next_instruction_to_fetch blob] True blob h"

definition sret_instruction_code :: "x86 list" where
  "sret_instruction_code = BEGIN_TRANSLATION @
     [Movq R12 RDI, Movq_sym sret_callback_sym RAX]
     @ SAVE_GUEST_CONTEXT_SWITCH_REGS @ [Call RAX] @ RESTORE_GUEST_CONTEXT_SWITCH_REGS
     @ TRAP_TO_VMM"

definition riscv_sret_translator :: instruction_sub_translator where
  "riscv_sret_translator lay dec blob h =
     emit_translation lay ''sret_instruction'' sret_instruction_code
       [next_instruction_to_fetch blob] True blob h"

definition sfence_vma_instruction_code :: "x86 list" where
  "sfence_vma_instruction_code = BEGIN_TRANSLATION @
     [Movq R12 RDI, Movq_sym sfence_vma_callback_sym RAX]
     @ SAVE_GUEST_CONTEXT_SWITCH_REGS @ [Call RAX] @ RESTORE_GUEST_CONTEXT_SWITCH_REGS
     @ PROCEED_TO_NEXT_INSTRUCTION @ TRAP_TO_VMM"

definition riscv_sfence_vma_translator :: instruction_sub_translator where
  "riscv_sfence_vma_translator lay dec blob h =
     emit_translation lay ''sfence_vma_instruction'' sfence_vma_instruction_code
       [next_instruction_to_fetch blob] True blob h"

definition ecall_instruction_code :: "x86 list" where
  "ecall_instruction_code = BEGIN_TRANSLATION @
     [Movq R12 RDI, Movq_sym ecall_callback_sym RAX]
     @ SAVE_GUEST_CONTEXT_SWITCH_REGS @ [Call RAX] @ RESTORE_GUEST_CONTEXT_SWITCH_REGS
     @ PROCEED_TO_NEXT_INSTRUCTION @ TRAP_TO_VMM"

definition riscv_ecall_translator :: instruction_sub_translator where
  "riscv_ecall_translator lay dec blob h =
     emit_translation lay ''ecall_instruction'' ecall_instruction_code
       [next_instruction_to_fetch blob] True blob h"

definition wfi_instruction_code :: "x86 list" where
  "wfi_instruction_code = BEGIN_TRANSLATION @
     [Movq R12 RDI, Movq_sym wfi_callback_sym RAX]
     @ SAVE_GUEST_CONTEXT_SWITCH_REGS @ [Call RAX] @ RESTORE_GUEST_CONTEXT_SWITCH_REGS
     @ PROCEED_TO_NEXT_INSTRUCTION @ TRAP_TO_VMM"

definition riscv_wfi_translator :: instruction_sub_translator where
  "riscv_wfi_translator lay dec blob h =
     ASSERT (0x8 = drop_bit 5 (imm dec))
       (emit_translation lay ''wfi_instruction'' wfi_instruction_code
         [next_instruction_to_fetch blob] True blob h)"

definition riscv_funct3_000_translator :: instruction_sub_translator where
  "riscv_funct3_000_translator lay dec blob h =
     (if rs2_index dec = 0x0 then riscv_ecall_translator lay dec blob h else None)"

text \<open>The table that \<open>supervisor_level_constructor\<close> fills.\<close>

definition supervisor_level_handlers :: "u8 \<Rightarrow> instruction_sub_translator option" where
  "supervisor_level_handlers f3 = (if f3 = 0x0 then Some riscv_funct3_000_translator else None)"

definition riscv_supervisor_level_instructions_translation_entry :: instruction_translator where
  "riscv_supervisor_level_instructions_translation_entry lay blob instruction h =
     Option.bind (instruction_decoding_per_type instruction
       (if drop_bit 12 instruction AND 0x7 = 0 then ENCODING_TYPE_S else ENCODING_TYPE_I)) (\<lambda>dec.
     case supervisor_level_handlers (funct3 dec) of
       None \<Rightarrow> None
     | Some handler \<Rightarrow> handler lay dec blob h)"

context vmm_calls
begin

text \<open>The pc still points at the \<open>ecall\<close> while the callback runs; it is advanced afterwards.\<close>

lemma ecall_block:
  assumes "entered s h w" "quiet h w"
    and "\<And>args. cc ecall_callback_sym (Vhart 0 # args) h w = Returned r h' w'"
    and "wf_hart h'"
  shows "leaves cc ps ecall_instruction_code s (rv_next h') w'"
  unfolding ecall_instruction_code_def
  using assms(3,4) by (intro leaves_body [OF assms(1,2)]) (auto simp: template_code x86_run rv_ref)

text \<open>A return from a trap leaves the pc as the callback set it.\<close>

lemma mret_block:
  assumes "entered s h w" "quiet h w"
    and "\<And>args. cc mret_callback_sym (Vhart 0 # args) h w = Returned r h' w'"
    and "wf_hart h'"
  shows "leaves cc ps mret_instruction_code s h' w'"
  unfolding mret_instruction_code_def
  using assms(3,4) by (intro leaves_body [OF assms(1,2)]) (auto simp: template_code x86_run rv_ref)

end

end
