(* ===== verification/Pm_Region.thy ===== *)
theory Pm_Region
  imports Hart
begin

text \<open>
  The memory map of a guest process: \<open>sandbox/pm_region.c\<close> on the fields of
  \<open>struct virtual_machine\<close> (\<open>sandbox/vm.h\<close>) that it works on. The regions are an array of
  \<open>MAX_VMA_NR\<close> slots of which the first \<open>nr_pmr_ops\<close> are live, kept sorted by address; a pointer
  to a region is its index. The host memory behind a region is a block of the host heap,
  named by \<open>host_base\<close>. The description string and the opaque pointer are left out.
\<close>

definition MAX_NR_PM_REGIONS :: nat where "MAX_NR_PM_REGIONS = 256"
definition MAX_VMA_NR :: nat where "MAX_VMA_NR = 128"

text \<open>The callbacks that the sandbox registers; a null pointer is \<open>None\<close>.\<close>

datatype pm_region_callback = vma_generic_cb

record pm_region_operation =
  addr_low :: u32
  addr_high :: u32
  pmr_read :: "pm_region_callback option"
  pmr_write :: "pm_region_callback option"
  pmr_direct :: "pm_region_callback option"
  pmr_reclaim :: "pm_region_callback option"
  pmr_flags :: u32
  host_base :: "nat option"

definition empty_pmr :: pm_region_operation where
  "empty_pmr = \<lparr>addr_low = 0, addr_high = 0, pmr_read = None, pmr_write = None, pmr_direct = None,
     pmr_reclaim = None, pmr_flags = 0, host_base = None\<rparr>"

record virtual_machine =
  nr_pmr_ops :: nat
  pmr_ops :: "pm_region_operation list"
  vma_heap :: "nat option"
  vma_stack :: "nat option"
  vm_pid :: u32
  vm_ppid :: u32
  vm_tgid :: u32
  parent_vm :: "vmptr option"
  cloned_vm :: bool
  cloned_files :: bool
  cloned_fs :: bool
  ref_count :: int

subsection \<open>Operations\<close>

text \<open>\<open>BUILD_TYPE\<close> is the debug build: regions that overlap without containment are not reached.\<close>

definition pm_region_operation_compare :: "pm_region_operation comparator" where
  "pm_region_operation_compare pmr1 pmr2 =
     ASSERT (addr_low pmr1 \<le> addr_high pmr1) (ASSERT (addr_low pmr2 \<le> addr_high pmr2)
       (if addr_high pmr1 \<le> addr_low pmr2 then Some (-1)
        else if addr_low pmr1 \<ge> addr_high pmr2 then Some 1
        else if (addr_low pmr1 \<le> addr_low pmr2 \<and> addr_high pmr1 \<ge> addr_high pmr2) \<or>
                (addr_low pmr2 \<le> addr_low pmr1 \<and> addr_high pmr2 \<ge> addr_high pmr1)
        then Some 0 else None))"

definition search_pm_region_callback :: "virtual_machine \<Rightarrow> u64 \<Rightarrow> nat option option" where
  "search_pm_region_callback vm guest_pa =
     SEARCH pm_region_operation_compare (pmr_ops vm) (nr_pmr_ops vm)
       (empty_pmr\<lparr>addr_low := ucast guest_pa, addr_high := ucast (guest_pa + 1)\<rparr>)"

text \<open>A null \<open>vma\<close> would be dereferenced.\<close>

definition is_vma_eligible :: "virtual_machine \<Rightarrow> nat option \<Rightarrow> bool option" where
  "is_vma_eligible vm vma =
     (case vma of None \<Rightarrow> None
      | Some v \<Rightarrow> Some (v < nr_pmr_ops vm \<and>
          list_all (\<lambda>idx. idx = v \<or>
              \<not> (addr_low (pmr_ops vm ! idx) > addr_low (pmr_ops vm ! v) \<and>
                 addr_low (pmr_ops vm ! idx) < addr_high (pmr_ops vm ! v)))
            [0..<nr_pmr_ops vm]))"

definition is_range_eligible :: "virtual_machine \<Rightarrow> u32 \<Rightarrow> u32 \<Rightarrow> bool" where
  "is_range_eligible vm low high =
     list_all (\<lambda>idx. addr_high (pmr_ops vm ! idx) \<le> low \<or> addr_low (pmr_ops vm ! idx) \<ge> high)
       [0..<nr_pmr_ops vm]"

fun search_free_loop :: "pm_region_operation list \<Rightarrow> u32 \<Rightarrow> nat \<Rightarrow> u32" where
  "search_free_loop ops len 0 = 0"
| "search_free_loop ops len (Suc idx) =
     (if (idx \<noteq> 0 \<and> addr_low (ops ! idx) - addr_high (ops ! (idx - 1)) > len) \<or>
         (idx = 0 \<and> addr_low (ops ! idx) > len)
      then addr_low (ops ! idx) - len
      else search_free_loop ops len idx)"

definition search_free_mmap_region :: "virtual_machine \<Rightarrow> u32 \<Rightarrow> u32 option" where
  "search_free_mmap_region vm sz =
     (let len = sz + 4096; addr_found = search_free_loop (pmr_ops vm) len (nr_pmr_ops vm) in
      ASSERT (addr_found = 0 \<or> is_range_eligible vm addr_found (addr_found + sz)) (Some addr_found))"

text \<open>
  The bound that is checked is \<open>MAX_NR_PM_REGIONS\<close>, the array has \<open>MAX_VMA_NR\<close> slots: between the
  two the copy would overwrite the fields behind the array, which has no model (\<open>None\<close>).
\<close>

definition register_pm_region_operation ::
  "virtual_machine \<Rightarrow> pm_region_operation \<Rightarrow> virtual_machine option" where
  "register_pm_region_operation vm pmr =
     ASSERT (pmr_read pmr \<noteq> None \<and> pmr_write pmr \<noteq> None)
     (Option.bind (search_pm_region_callback vm (ucast (addr_low pmr))) (\<lambda>found.
     ASSERT (found = None) (ASSERT (nr_pmr_ops vm < MAX_NR_PM_REGIONS)
     (if \<not> nr_pmr_ops vm < length (pmr_ops vm) then None else
      let n = Suc (nr_pmr_ops vm) in
      Option.bind (SORT pm_region_operation_compare ((pmr_ops vm)[nr_pmr_ops vm := pmr]) n) (\<lambda>ops.
      let vm1 = vm\<lparr>nr_pmr_ops := n, pmr_ops := ops\<rparr> in
      Option.bind (search_pm_region_callback vm1 (ucast (addr_low pmr))) (\<lambda>found1.
      Option.bind (is_vma_eligible vm1 found1) (\<lambda>ok. ASSERT ok (Some vm1))))))))"

text \<open>The moving loop of \<open>unregister_pm_region\<close>.\<close>

fun unregister_move :: "pm_region_operation list \<Rightarrow> nat \<Rightarrow> nat \<Rightarrow> pm_region_operation list" where
  "unregister_move ops idx 0 = ops"
| "unregister_move ops idx (Suc k) = unregister_move (ops[idx := ops ! (idx + 1)]) (idx + 1) k"

definition unregister_pm_region :: "virtual_machine \<Rightarrow> nat \<Rightarrow> virtual_machine option" where
  "unregister_pm_region vm pmr =
     ASSERT (pmr < nr_pmr_ops vm)
       (Some (vm\<lparr>pmr_ops := unregister_move (pmr_ops vm) pmr (nr_pmr_ops vm - 1 - pmr),
                nr_pmr_ops := nr_pmr_ops vm - 1\<rparr>))"

subsection \<open>The invariant of the memory map\<close>

definition live_regions :: "virtual_machine \<Rightarrow> pm_region_operation list" where
  "live_regions vm = take (nr_pmr_ops vm) (pmr_ops vm)"

definition in_region :: "u32 \<Rightarrow> pm_region_operation \<Rightarrow> bool" where
  "in_region a r \<longleftrightarrow> addr_low r \<le> a \<and> a < addr_high r"

definition vm_wf :: "virtual_machine \<Rightarrow> bool" where
  "vm_wf vm \<longleftrightarrow> length (pmr_ops vm) = MAX_VMA_NR \<and> nr_pmr_ops vm \<le> MAX_VMA_NR \<and>
     (\<forall>r \<in> set (live_regions vm). addr_low r < addr_high r) \<and>
     sorted_wrt (\<lambda>r1 r2. addr_high r1 \<le> addr_low r2) (live_regions vm)"

lemma live_regions_nth:
  "vm_wf vm \<Longrightarrow> i < nr_pmr_ops vm \<Longrightarrow> live_regions vm ! i = pmr_ops vm ! i"
  by (simp add: live_regions_def)

lemma length_live_regions: "vm_wf vm \<Longrightarrow> length (live_regions vm) = nr_pmr_ops vm"
  by (simp add: vm_wf_def live_regions_def)

lemma set_live_regions:
  "nr_pmr_ops vm \<le> length (pmr_ops vm) \<Longrightarrow> set (live_regions vm) = (\<lambda>i. pmr_ops vm ! i) ` {..< nr_pmr_ops vm}"
  by (simp add: live_regions_def nth_image [symmetric] lessThan_atLeast0)

lemma vm_wf_gap:
  assumes "vm_wf vm" "i < j" "j < nr_pmr_ops vm"
  shows "addr_high (pmr_ops vm ! i) \<le> addr_low (pmr_ops vm ! j)"
  using assms sorted_wrt_nth_less [of "\<lambda>r1 r2. addr_high r1 \<le> addr_low r2" "live_regions vm" i j]
  by (simp add: vm_wf_def live_regions_def)

lemma vm_wf_nonempty:
  "vm_wf vm \<Longrightarrow> i < nr_pmr_ops vm \<Longrightarrow> addr_low (pmr_ops vm ! i) < addr_high (pmr_ops vm ! i)"
  using set_live_regions [of vm] by (auto simp: vm_wf_def)

subsection \<open>Looking an address up\<close>

text \<open>The one-byte target that the lookup compares with the regions.\<close>

lemma ucast_address: "(ucast (ucast (a :: u32) :: u64) :: u32) = a"
  "(ucast ((ucast (a :: u32) :: u64) + 1) :: u32) = a + 1"
  by (simp, transfer, simp add: take_bit_eq_mod mod_mod_cancel mod_add_left_eq)

lemma unat_minus_1: "unat (- 1 :: u32) = 2 ^ 32 - 1"
  by (simp add: unsigned_minus_1_eq_mask mask_eq_exp_minus_1)

lemma unat_plus_1: "a \<noteq> - 1 \<Longrightarrow> unat (a + 1) = Suc (unat (a :: u32))"
proof -
  assume "a \<noteq> - 1"
  then have "unat a \<noteq> unat (- 1 :: u32)" by (metis word_unat_eq_iff)
  moreover have "unat a < 2 ^ 32" using unsigned_less [of a] by simp
  ultimately show ?thesis by (simp add: unat_word_ariths unat_minus_1)
qed

lemma word_Suc_le: "a \<noteq> - 1 \<Longrightarrow> a + 1 \<le> l \<longleftrightarrow> a < (l :: u32)"
  by (simp add: word_le_nat_alt word_less_nat_alt unat_plus_1 Suc_le_eq)

definition byte_side :: "u32 \<Rightarrow> pm_region_operation \<Rightarrow> int" where
  "byte_side a r = (if a < addr_low r then -1 else if a \<ge> addr_high r then 1 else 0)"

lemma compare_byte:
  assumes "a \<noteq> - 1" "addr_low r < addr_high r"
  shows "pm_region_operation_compare (empty_pmr\<lparr>addr_low := a, addr_high := a + 1\<rparr>) r = Some (byte_side a r)"
proof -
  have "a \<le> a + 1" using assms(1) by (simp add: word_le_nat_alt unat_plus_1)
  moreover have "a + 1 \<le> addr_high r" if "a < addr_high r" using that assms(1) by (simp add: word_Suc_le)
  ultimately show ?thesis
    using assms by (auto simp: pm_region_operation_compare_def byte_side_def word_Suc_le not_less not_le)
qed

lemma byte_side_zero: "addr_low r < addr_high r \<Longrightarrow> byte_side a r = 0 \<longleftrightarrow> in_region a r"
  by (auto simp: byte_side_def in_region_def)

lemma byte_side_split:
  assumes "vm_wf vm"
  shows "sign_split (\<lambda>i. byte_side a (pmr_ops vm ! i)) (nr_pmr_ops vm)"
  unfolding sign_split_def
proof (intro allI impI conjI)
  fix i j
  assume ij: "i < j" "j < nr_pmr_ops vm"
  note order = vm_wf_nonempty [OF assms, of i] vm_wf_nonempty [OF assms ij(2)] vm_wf_gap [OF assms ij]
  show "0 < byte_side a (pmr_ops vm ! i)" if "0 < byte_side a (pmr_ops vm ! j)"
    using that order ij by (auto simp: byte_side_def split: if_splits)
  show "byte_side a (pmr_ops vm ! j) < 0" if "byte_side a (pmr_ops vm ! i) < 0"
    using that order ij by (auto simp: byte_side_def split: if_splits)
qed

text \<open>
  The lookup is exact: it returns (no \<open>ASSERT\<close> fails), the region it returns contains the
  address, and it returns none only if no region does.
\<close>

lemma search_pm_region_exact:
  assumes "vm_wf vm" "a \<noteq> - 1"
  shows "case search_pm_region_callback vm (ucast a) of None \<Rightarrow> False
    | Some None \<Rightarrow> (\<forall>r \<in> set (live_regions vm). \<not> in_region a r)
    | Some (Some i) \<Rightarrow> i < nr_pmr_ops vm \<and> in_region a (pmr_ops vm ! i)"
proof -
  have "search_result (\<lambda>i. byte_side a (pmr_ops vm ! i)) (nr_pmr_ops vm) (search_pm_region_callback vm (ucast a))"
    unfolding search_pm_region_callback_def ucast_address
    using assms vm_wf_nonempty byte_side_split by (intro SEARCH_exact) (auto simp: compare_byte)
  moreover have "byte_side a (pmr_ops vm ! i) = 0 \<longleftrightarrow> in_region a (pmr_ops vm ! i)" if "i < nr_pmr_ops vm" for i
    using vm_wf_nonempty [OF assms(1) that] by (rule byte_side_zero)
  moreover have "set (live_regions vm) = (\<lambda>i. pmr_ops vm ! i) ` {..< nr_pmr_ops vm}"
    using assms(1) by (intro set_live_regions) (simp add: vm_wf_def)
  ultimately show ?thesis by (auto simp: search_result_def split: option.splits)
qed

lemma in_region_unique:
  assumes "vm_wf vm" "i < nr_pmr_ops vm" "j < nr_pmr_ops vm"
    and "in_region a (pmr_ops vm ! i)" "in_region a (pmr_ops vm ! j)"
  shows "i = j"
  using assms vm_wf_gap [OF assms(1), of i j] vm_wf_gap [OF assms(1), of j i]
  by (cases i j rule: linorder_cases) (auto simp: in_region_def)

lemma search_pm_region_iff:
  assumes "vm_wf vm" "a \<noteq> - 1"
  shows "search_pm_region_callback vm (ucast a) = Some (Some i) \<longleftrightarrow>
      i < nr_pmr_ops vm \<and> in_region a (pmr_ops vm ! i)"
    and "search_pm_region_callback vm (ucast a) = Some None \<longleftrightarrow>
      (\<forall>r \<in> set (live_regions vm). \<not> in_region a r)"
proof -
  have set: "set (live_regions vm) = (\<lambda>i. pmr_ops vm ! i) ` {..< nr_pmr_ops vm}"
    using assms(1) by (intro set_live_regions) (simp add: vm_wf_def)
  show "search_pm_region_callback vm (ucast a) = Some (Some i) \<longleftrightarrow>
      i < nr_pmr_ops vm \<and> in_region a (pmr_ops vm ! i)"
    using search_pm_region_exact [OF assms] set in_region_unique [OF assms(1)]
    by (auto split: option.splits)
  show "search_pm_region_callback vm (ucast a) = Some None \<longleftrightarrow>
      (\<forall>r \<in> set (live_regions vm). \<not> in_region a r)"
    using search_pm_region_exact [OF assms] set by (auto split: option.splits)
qed

text \<open>The last address of the guest has no one-byte target: the comparison's \<open>ASSERT\<close> fails on it.\<close>

lemma search_last_address:
  assumes "0 < nr_pmr_ops vm"
  shows "search_pm_region_callback vm (ucast (- 1 :: u32)) = None"
proof -
  have "\<not> (- 1 :: u32) \<le> - 1 + 1" by (simp add: word_le_nat_alt unat_minus_1)
  then have "pm_region_operation_compare (empty_pmr\<lparr>addr_low := - 1, addr_high := - 1 + 1\<rparr>) r = None" for r
    by (simp add: pm_region_operation_compare_def)
  then show ?thesis
    unfolding search_pm_region_callback_def ucast_address SEARCH_def
    using assms by (subst SEARCH_loop.simps) simp
qed

subsection \<open>Disjoint regions\<close>

definition disjoint_regions :: "pm_region_operation set \<Rightarrow> bool" where
  "disjoint_regions R \<longleftrightarrow> (\<forall>r \<in> R. addr_low r < addr_high r) \<and>
     (\<forall>r1 \<in> R. \<forall>r2 \<in> R. r1 = r2 \<or> addr_high r1 \<le> addr_low r2 \<or> addr_high r2 \<le> addr_low r1)"

text \<open>On disjoint regions the comparison is the order of the start addresses.\<close>

interpretation region_order:
  keyed_comparator pm_region_operation_compare "\<lambda>r. unat (addr_low r)"
    "{r \<in> R. disjoint_regions R}" for R
proof
  fix a b
  assume "a \<in> {r \<in> R. disjoint_regions R}" "b \<in> {r \<in> R. disjoint_regions R}"
  then have "addr_low a < addr_high a" "addr_low b < addr_high b"
    "a = b \<or> addr_high a \<le> addr_low b \<or> addr_high b \<le> addr_low a"
    by (auto simp: disjoint_regions_def)
  then show "\<exists>c. pm_region_operation_compare a b = Some c \<and>
      (c < 0 \<longleftrightarrow> unat (addr_low a) < unat (addr_low b)) \<and> (0 < c \<longleftrightarrow> unat (addr_low b) < unat (addr_low a))"
    by (auto simp: pm_region_operation_compare_def word_less_nat_alt [symmetric])
qed

lemma sorted_disjoint:
  assumes "sorted (map (\<lambda>r. unat (addr_low r)) rs)" "distinct rs" "disjoint_regions (set rs)"
  shows "sorted_wrt (\<lambda>r1 r2. addr_high r1 \<le> addr_low r2) rs"
  unfolding sorted_wrt_iff_nth_less
proof (intro allI impI)
  fix i j
  assume ij: "i < j" "j < length rs"
  then have "unat (addr_low (rs ! i)) \<le> unat (addr_low (rs ! j))"
    using sorted_nth_mono [OF assms(1), of i j] by simp
  then have "addr_low (rs ! i) \<le> addr_low (rs ! j)" by (simp add: word_le_nat_alt)
  moreover have "rs ! i \<noteq> rs ! j" using ij assms(2) by (simp add: nth_eq_iff_index_eq)
  moreover have "rs ! i \<in> set rs" "rs ! j \<in> set rs" using ij by auto
  ultimately show "addr_high (rs ! i) \<le> addr_low (rs ! j)"
    using assms(3) by (force simp: disjoint_regions_def)
qed

lemma vm_wf_distinct:
  assumes "vm_wf vm"
  shows "distinct (live_regions vm)"
  unfolding distinct_conv_nth
proof (intro allI impI)
  fix i j
  assume ij: "i < length (live_regions vm)" "j < length (live_regions vm)" "i \<noteq> j"
  then have n: "i < nr_pmr_ops vm" "j < nr_pmr_ops vm" using length_live_regions [OF assms] by auto
  show "live_regions vm ! i \<noteq> live_regions vm ! j"
    using ij(3) in_region_unique [OF assms n, of "addr_low (pmr_ops vm ! i)"]
      vm_wf_nonempty [OF assms n(1)] vm_wf_nonempty [OF assms n(2)] n
    by (auto simp: live_regions_nth [OF assms] in_region_def)
qed

lemma vm_wf_disjoint:
  assumes "vm_wf vm"
  shows "disjoint_regions (set (live_regions vm))"
proof -
  have "set (live_regions vm) = (\<lambda>i. pmr_ops vm ! i) ` {..< nr_pmr_ops vm}"
    using assms by (intro set_live_regions) (simp add: vm_wf_def)
  moreover have "pmr_ops vm ! i = pmr_ops vm ! j \<or> addr_high (pmr_ops vm ! i) \<le> addr_low (pmr_ops vm ! j) \<or>
      addr_high (pmr_ops vm ! j) \<le> addr_low (pmr_ops vm ! i)" if "i < nr_pmr_ops vm" "j < nr_pmr_ops vm" for i j
    using vm_wf_gap [OF assms, of i j] vm_wf_gap [OF assms, of j i] that
    by (cases i j rule: linorder_cases) auto
  ultimately show ?thesis using vm_wf_nonempty [OF assms] by (auto simp: disjoint_regions_def)
qed

text \<open>
  The array after a successful registration, up to its order; then the same for a disjoint
  region, where the order is right as well.
\<close>

lemma sorted_array_wf:
  assumes "vm_wf vm" "nr_pmr_ops vm < MAX_VMA_NR"
    and "SORT pm_region_operation_compare ((pmr_ops vm)[nr_pmr_ops vm := pmr]) (Suc (nr_pmr_ops vm)) = Some ops"
    and "disjoint_regions (insert pmr (set (live_regions vm)))" "pmr \<notin> set (live_regions vm)"
  shows "vm_wf (vm\<lparr>nr_pmr_ops := Suc (nr_pmr_ops vm), pmr_ops := ops\<rparr>)"
proof -
  let ?n = "nr_pmr_ops vm" and ?base = "(pmr_ops vm)[nr_pmr_ops vm := pmr]"
  let ?R = "insert pmr (set (live_regions vm))"
  have len: "?n < length (pmr_ops vm)" "length (pmr_ops vm) = MAX_VMA_NR"
    using assms(1,2) by (auto simp: vm_wf_def)
  have take: "take (Suc ?n) ?base = live_regions vm @ [pmr]"
    using len by (simp add: live_regions_def take_Suc_conv_app_nth)
  have "?base ! i \<in> {r \<in> ?R. disjoint_regions ?R}" if "i < Suc ?n" for i
  proof -
    have "?base ! i \<in> set (take (Suc ?n) ?base)"
      using that len by (auto simp: in_set_conv_nth intro!: exI [of _ i])
    then show ?thesis unfolding take using assms(4) by auto
  qed
  then obtain b where "SORT pm_region_operation_compare ?base (Suc ?n) = Some b" "length b = length ?base"
    "mset (take (Suc ?n) b) = mset (take (Suc ?n) ?base)"
    "sorted (map (\<lambda>r. unat (addr_low r)) (take (Suc ?n) b))"
    using region_order.SORT_key [of "Suc ?n" ?base ?R] len by auto
  with assms(3) take have ops: "length ops = MAX_VMA_NR" "mset (take (Suc ?n) ops) = mset (pmr # live_regions vm)"
    "sorted (map (\<lambda>r. unat (addr_low r)) (take (Suc ?n) ops))"
    using len by auto
  have "distinct (take (Suc ?n) ops)"
    using mset_eq_imp_distinct_iff [OF ops(2)] vm_wf_distinct [OF assms(1)] assms(5) by simp
  moreover have set: "set (take (Suc ?n) ops) = ?R"
    using ops(2) by (metis list.set(2) set_mset_mset)
  ultimately have "sorted_wrt (\<lambda>r1 r2. addr_high r1 \<le> addr_low r2) (take (Suc ?n) ops)"
    using ops(3) assms(4) by (intro sorted_disjoint) simp_all
  then show ?thesis
    using ops(1) assms(2,4) set by (simp add: vm_wf_def live_regions_def disjoint_regions_def)
qed

subsection \<open>Registering a region\<close>

lemma compare_byte_zero:
  assumes "pm_region_operation_compare (empty_pmr\<lparr>addr_low := a, addr_high := a + 1\<rparr>) r = Some 0"
  shows "in_region a r"
proof -
  have "a \<noteq> - 1" using assms by (auto simp: pm_region_operation_compare_def word_le_nat_alt unat_minus_1)
  then show ?thesis
    using assms by (auto simp: pm_region_operation_compare_def in_region_def word_Suc_le not_le split: if_splits)
qed

lemma low_not_last: "addr_low r < addr_high r \<Longrightarrow> addr_low r \<noteq> - 1"
  by (metis word_order.extremum_strict)

lemma search_sound:
  assumes "search_pm_region_callback vm (ucast a) = Some (Some i)"
  shows "i < nr_pmr_ops vm \<and> in_region a (pmr_ops vm ! i)"
  using SEARCH_sound [of pm_region_operation_compare "pmr_ops vm" "nr_pmr_ops vm" _ i] assms compare_byte_zero
  unfolding search_pm_region_callback_def ucast_address by blast

lemma register_elim:
  assumes "register_pm_region_operation vm pmr = Some vm'"
  obtains ops v where
    "search_pm_region_callback vm (ucast (addr_low pmr)) = Some None" "nr_pmr_ops vm < length (pmr_ops vm)"
    "SORT pm_region_operation_compare ((pmr_ops vm)[nr_pmr_ops vm := pmr]) (Suc (nr_pmr_ops vm)) = Some ops"
    "vm' = vm\<lparr>nr_pmr_ops := Suc (nr_pmr_ops vm), pmr_ops := ops\<rparr>"
    "search_pm_region_callback vm' (ucast (addr_low pmr)) = Some (Some v)"
    "\<forall>idx < nr_pmr_ops vm'. idx = v \<or> \<not> (addr_low (pmr_ops vm' ! v) < addr_low (pmr_ops vm' ! idx) \<and>
       addr_low (pmr_ops vm' ! idx) < addr_high (pmr_ops vm' ! v))"
  using assms
  by (auto simp: register_pm_region_operation_def is_vma_eligible_def Let_def list_all_iff
      split: bind_splits if_splits option.splits)

text \<open>
  Safety of registration: from a well-formed map, whatever non-empty region is given, either
  an \<open>ASSERT\<close> stops the process or the map afterwards is well-formed (sorted, disjoint) and
  has exactly the one region more.
\<close>

lemma register_pm_region_safe:
  assumes wf: "vm_wf vm" and ne: "addr_low pmr < addr_high pmr"
    and reg: "register_pm_region_operation vm pmr = Some vm'"
  shows "vm_wf vm' \<and> set (live_regions vm') = insert pmr (set (live_regions vm)) \<and>
    pmr \<notin> set (live_regions vm)"
proof -
  from reg obtain ops v where r:
    "search_pm_region_callback vm (ucast (addr_low pmr)) = Some None" "nr_pmr_ops vm < length (pmr_ops vm)"
    "SORT pm_region_operation_compare ((pmr_ops vm)[nr_pmr_ops vm := pmr]) (Suc (nr_pmr_ops vm)) = Some ops"
    "vm' = vm\<lparr>nr_pmr_ops := Suc (nr_pmr_ops vm), pmr_ops := ops\<rparr>"
    "search_pm_region_callback vm' (ucast (addr_low pmr)) = Some (Some v)"
    "\<forall>idx < nr_pmr_ops vm'. idx = v \<or> \<not> (addr_low (pmr_ops vm' ! v) < addr_low (pmr_ops vm' ! idx) \<and>
       addr_low (pmr_ops vm' ! idx) < addr_high (pmr_ops vm' ! v))"
    by (rule register_elim)
  let ?n = "nr_pmr_ops vm"
  have fresh: "\<not> in_region (addr_low pmr) q" if "q \<in> set (live_regions vm)" for q
    using r(1) search_pm_region_iff(2) [OF wf low_not_last [OF ne]] that by blast
  have len: "?n < MAX_VMA_NR" using r(2) wf by (simp add: vm_wf_def)
  have "take (Suc ?n) ((pmr_ops vm)[?n := pmr]) = live_regions vm @ [pmr]"
    using r(2) by (simp add: live_regions_def take_Suc_conv_app_nth)
  with SORT_perm [OF r(3)] r(2) have mset: "mset (take (Suc ?n) ops) = mset (live_regions vm @ [pmr])"
    and lops: "length ops = length (pmr_ops vm)" by auto
  then have "set (take (Suc ?n) ops) = set (live_regions vm @ [pmr])" by (metis set_mset_mset)
  then have set: "set (live_regions vm') = insert pmr (set (live_regions vm))"
    using r(4) by (simp add: live_regions_def)
  have nth: "set (live_regions vm') = (\<lambda>i. pmr_ops vm' ! i) ` {..< nr_pmr_ops vm'}"
    using r(2,4) lops by (intro set_live_regions) simp
  have v: "v < nr_pmr_ops vm'" "in_region (addr_low pmr) (pmr_ops vm' ! v)" using search_sound [OF r(5)] by auto
  then have "pmr_ops vm' ! v = pmr" using nth set fresh by auto
  moreover have "pmr \<notin> set (live_regions vm)" using fresh [of pmr] ne by (auto simp: in_region_def)
  ultimately have apart: "\<not> (addr_low pmr < addr_low q \<and> addr_low q < addr_high pmr)"
    if "q \<in> set (live_regions vm)" for q
  proof -
    have "q \<in> (\<lambda>i. pmr_ops vm' ! i) ` {..< nr_pmr_ops vm'}" using that set nth by blast
    then obtain idx where "idx < nr_pmr_ops vm'" "q = pmr_ops vm' ! idx" by blast
    moreover have "idx \<noteq> v"
      using \<open>pmr_ops vm' ! v = pmr\<close> \<open>pmr \<notin> set (live_regions vm)\<close> that calculation(2) by blast
    ultimately show ?thesis using r(6) \<open>pmr_ops vm' ! v = pmr\<close> by blast
  qed
  have "addr_high q \<le> addr_low pmr \<or> addr_high pmr \<le> addr_low q" if "q \<in> set (live_regions vm)" for q
    using fresh [OF that] apart [OF that] by (auto simp: in_region_def not_less not_le)
  then have "disjoint_regions (insert pmr (set (live_regions vm)))"
    using vm_wf_disjoint [OF wf] ne by (auto simp: disjoint_regions_def)
  from sorted_array_wf [OF wf len r(3) this] \<open>pmr \<notin> set (live_regions vm)\<close> set r(4) show ?thesis by simp
qed

text \<open>Registration succeeds for a region that is disjoint from the others, while there is a slot.\<close>

lemma register_pm_region_complete:
  assumes wf: "vm_wf vm" and room: "nr_pmr_ops vm < MAX_VMA_NR"
    and cb: "pmr_read pmr \<noteq> None" "pmr_write pmr \<noteq> None"
    and disj: "disjoint_regions (insert pmr (set (live_regions vm)))" "pmr \<notin> set (live_regions vm)"
  shows "\<exists>vm'. register_pm_region_operation vm pmr = Some vm'"
proof -
  let ?n = "nr_pmr_ops vm" and ?base = "(pmr_ops vm)[nr_pmr_ops vm := pmr]"
  let ?R = "insert pmr (set (live_regions vm))"
  have ne: "addr_low pmr < addr_high pmr" using disj(1) by (simp add: disjoint_regions_def)
  note last = low_not_last [OF ne]
  have len: "?n < length (pmr_ops vm)" using wf room by (simp add: vm_wf_def)
  have take: "take (Suc ?n) ?base = live_regions vm @ [pmr]"
    using len by (simp add: live_regions_def take_Suc_conv_app_nth)
  have "\<not> in_region (addr_low pmr) q" if "q \<in> set (live_regions vm)" for q
    using disj that ne by (auto simp: disjoint_regions_def in_region_def)
  then have s1: "search_pm_region_callback vm (ucast (addr_low pmr)) = Some None"
    using search_pm_region_iff(2) [OF wf last] by blast
  have "?base ! i \<in> {r \<in> ?R. disjoint_regions ?R}" if "i < Suc ?n" for i
  proof -
    have "?base ! i \<in> set (take (Suc ?n) ?base)"
      using that len by (auto simp: in_set_conv_nth intro!: exI [of _ i])
    then show ?thesis unfolding take using disj(1) by auto
  qed
  then obtain ops where ops: "SORT pm_region_operation_compare ?base (Suc ?n) = Some ops"
    using region_order.SORT_key [of "Suc ?n" ?base ?R] len by auto
  let ?vm' = "vm\<lparr>nr_pmr_ops := Suc ?n, pmr_ops := ops\<rparr>"
  have wf': "vm_wf ?vm'" by (rule sorted_array_wf [OF wf room ops disj])
  have "mset (take (Suc ?n) ops) = mset (live_regions vm @ [pmr])"
    using SORT_perm [OF ops] len take by simp
  then have "set (take (Suc ?n) ops) = set (live_regions vm @ [pmr])" by (metis set_mset_mset)
  then have "pmr \<in> set (live_regions ?vm')" by (simp add: live_regions_def)
  then obtain v where v: "v < Suc ?n" "ops ! v = pmr"
    using set_live_regions [of ?vm'] wf' by (auto simp: vm_wf_def)
  then have s2: "search_pm_region_callback ?vm' (ucast (addr_low pmr)) = Some (Some v)"
    using search_pm_region_iff(1) [OF wf' last, of v] ne by (simp add: in_region_def)
  have "idx = v \<or> \<not> (addr_low (ops ! v) < addr_low (ops ! idx) \<and> addr_low (ops ! idx) < addr_high (ops ! v))"
    if "idx < Suc ?n" for idx
    using in_region_unique [OF wf', of idx v "addr_low (ops ! idx)"] vm_wf_nonempty [OF wf', of idx] that v(1)
    by (auto simp: in_region_def dest: less_imp_le)
  with s1 s2 ops v(1) cb len room show ?thesis
    by (auto simp: register_pm_region_operation_def is_vma_eligible_def Let_def list_all_iff
        MAX_NR_PM_REGIONS_def MAX_VMA_NR_def)
qed

subsection \<open>Removing a region\<close>

lemma unregister_move_eq:
  "i + k < length ops \<Longrightarrow>
   unregister_move ops i k = take i ops @ take k (drop (Suc i) ops) @ drop (i + k) ops"
proof (induction ops i k rule: unregister_move.induct)
  case (2 ops idx k)
  then have "unregister_move ops idx (Suc k)
      = take (idx + 1) (ops[idx := ops ! (idx + 1)]) @ take k (drop (Suc (idx + 1)) ops) @ drop (idx + 1 + k) ops"
    by simp
  moreover have "take (idx + 1) (ops[idx := ops ! (idx + 1)]) = take idx ops @ [ops ! (idx + 1)]"
    using 2(2) by (simp add: take_Suc_conv_app_nth)
  moreover have "take (Suc k) (drop (Suc idx) ops) = ops ! (idx + 1) # take k (drop (Suc (idx + 1)) ops)"
    using 2(2) by (simp add: Cons_nth_drop_Suc [symmetric])
  ultimately show ?case by simp
qed simp

lemma unregister_pm_region_live:
  assumes "vm_wf vm" "i < nr_pmr_ops vm"
  shows "\<exists>vm'. unregister_pm_region vm i = Some vm' \<and> vm_wf vm' \<and>
    live_regions vm' = take i (live_regions vm) @ drop (Suc i) (live_regions vm)"
proof -
  obtain k where k: "nr_pmr_ops vm = Suc (i + k)" using assms(2) less_imp_Suc_add by blast
  let ?vm' = "vm\<lparr>pmr_ops := unregister_move (pmr_ops vm) i k, nr_pmr_ops := i + k\<rparr>"
  have len: "nr_pmr_ops vm \<le> length (pmr_ops vm)" "length (pmr_ops vm) = MAX_VMA_NR"
    using assms(1) by (auto simp: vm_wf_def)
  have move: "unregister_move (pmr_ops vm) i k
      = take i (pmr_ops vm) @ take k (drop (Suc i) (pmr_ops vm)) @ drop (i + k) (pmr_ops vm)"
    using k len by (intro unregister_move_eq) simp
  have live: "live_regions ?vm' = take i (live_regions vm) @ drop (Suc i) (live_regions vm)"
    using k len unfolding live_regions_def by (auto simp: move min_def drop_take)
  have "sorted_wrt (\<lambda>r1 r2. addr_high r1 \<le> addr_low r2) (take i (live_regions vm) @ drop (Suc i) (live_regions vm))"
  proof -
    have "sorted_wrt (\<lambda>r1 r2. addr_high r1 \<le> addr_low r2)
        (take i (live_regions vm) @ (live_regions vm ! i) # drop (Suc i) (live_regions vm))"
      using assms id_take_nth_drop [of i "live_regions vm"] length_live_regions [OF assms(1)]
      by (simp add: vm_wf_def)
    then show ?thesis by (auto simp: sorted_wrt_append)
  qed
  moreover have "length (unregister_move (pmr_ops vm) i k) = MAX_VMA_NR"
    using move k len by simp
  moreover have "set (live_regions ?vm') \<subseteq> set (live_regions vm)"
    unfolding live by (auto dest: in_set_takeD in_set_dropD)
  ultimately have "vm_wf ?vm'"
    using assms(1) live k by (auto simp: vm_wf_def)
  with live k show ?thesis by (auto simp: unregister_pm_region_def)
qed

subsection \<open>Finding a free range\<close>

text \<open>The loop stops at the highest gap that is large enough.\<close>

lemma search_free_loop_gap:
  assumes "search_free_loop ops len n \<noteq> 0"
  obtains idx where "idx < n" "search_free_loop ops len n = addr_low (ops ! idx) - len"
    "idx = 0 \<and> len < addr_low (ops ! idx) \<or>
     idx \<noteq> 0 \<and> len < addr_low (ops ! idx) - addr_high (ops ! (idx - 1))"
  using assms by (induction n) (auto split: if_splits intro: less_SucI)

lemma unat_sub_less:
  assumes "b \<le> (a :: u32)" "len < a - b"
  shows "unat (a - len) = unat a - unat len" "unat b + unat len < unat a"
proof -
  have "unat len < unat (a - b)" using assms(2) by (simp add: word_less_nat_alt)
  moreover have "unat (a - b) = unat a - unat b" using assms(1) by (rule unat_sub)
  ultimately show less: "unat b + unat len < unat a" using assms(1) by (simp add: word_le_nat_alt)
  then have "len \<le> a" by (simp add: word_le_nat_alt)
  then show "unat (a - len) = unat a - unat len" by (rule unat_sub)
qed

text \<open>
  For a size that leaves room for the extra page, the search never fails its \<open>ASSERT\<close>, and an
  address it returns starts a free range that ends a page below the region above it.
\<close>

lemma search_free_loop_free:
  assumes wf: "vm_wf vm" and sz: "unat sz + 4096 < 2 ^ 32"
  defines "a \<equiv> search_free_loop (pmr_ops vm) (sz + 4096) (nr_pmr_ops vm)"
  assumes nz: "a \<noteq> 0"
  shows "unat a + unat sz + 4096 < 2 ^ 32 \<and> (\<forall>j<nr_pmr_ops vm. addr_high (pmr_ops vm ! j) \<le> a \<or>
    unat a + unat sz + 4096 \<le> unat (addr_low (pmr_ops vm ! j)))"
proof -
  let ?len = "sz + 4096" and ?n = "nr_pmr_ops vm"
  have len: "unat ?len = unat sz + 4096" using sz by (simp add: unat_word_ariths)
  obtain idx where idx: "idx < ?n" "a = addr_low (pmr_ops vm ! idx) - ?len"
    "idx = 0 \<and> ?len < addr_low (pmr_ops vm ! idx) \<or>
     idx \<noteq> 0 \<and> ?len < addr_low (pmr_ops vm ! idx) - addr_high (pmr_ops vm ! (idx - 1))"
    using search_free_loop_gap nz unfolding a_def by metis
  define b where "b = (if idx = 0 then 0 else addr_high (pmr_ops vm ! (idx - 1)))"
  have "b \<le> addr_low (pmr_ops vm ! idx)" "?len < addr_low (pmr_ops vm ! idx) - b"
    using idx(1,3) vm_wf_gap [OF wf, of "idx - 1" idx] by (auto simp: b_def)
  note gap = unat_sub_less [OF this]
  have a: "unat a + unat sz + 4096 = unat (addr_low (pmr_ops vm ! idx))"
    using gap len idx(2) by simp
  moreover have "unat (addr_low (pmr_ops vm ! idx)) < 2 ^ 32"
    using unsigned_less [of "addr_low (pmr_ops vm ! idx)"] by simp
  moreover have "addr_high (pmr_ops vm ! j) \<le> a \<or> unat a + unat sz + 4096 \<le> unat (addr_low (pmr_ops vm ! j))"
    if j: "j < ?n" for j
  proof (cases "j < idx")
    case True
    then have "addr_high (pmr_ops vm ! j) \<le> b"
    proof (cases "j = idx - 1")
      case False
      with True have "j < idx - 1" "idx - 1 < ?n" using idx(1) by auto
      then show ?thesis
        using vm_wf_gap [OF wf, of j "idx - 1"] vm_wf_nonempty [OF wf, of "idx - 1"] True by (simp add: b_def)
    qed (use True in \<open>simp add: b_def\<close>)
    moreover have "unat b \<le> unat a" using gap(2) a len by simp
    ultimately show ?thesis by (auto simp: word_le_nat_alt)
  next
    case False
    have "addr_low (pmr_ops vm ! idx) \<le> addr_low (pmr_ops vm ! j)"
      using False j vm_wf_gap [OF wf, of idx j] vm_wf_nonempty [OF wf, of idx] idx(1)
      by (cases "j = idx") auto
    then show ?thesis using a by (auto simp: word_le_nat_alt)
  qed
  ultimately show ?thesis by simp
qed

lemma search_free_mmap_region_free:
  assumes wf: "vm_wf vm" and sz: "unat sz + 4096 < 2 ^ 32"
  shows "\<exists>a. search_free_mmap_region vm sz = Some a \<and>
    (a \<noteq> 0 \<longrightarrow> is_range_eligible vm a (a + sz) \<and> unat a + unat sz + 4096 < 2 ^ 32 \<and>
       (\<forall>j<nr_pmr_ops vm. addr_high (pmr_ops vm ! j) \<le> a \<or> unat a + unat sz + 4096 \<le> unat (addr_low (pmr_ops vm ! j))))"
proof -
  let ?a = "search_free_loop (pmr_ops vm) (sz + 4096) (nr_pmr_ops vm)"
  note free = search_free_loop_free [OF wf sz]
  have "is_range_eligible vm ?a (?a + sz)" if "?a \<noteq> 0"
  proof -
    have "unat (?a + sz) = unat ?a + unat sz" using free [OF that] by (simp add: unat_word_ariths)
    then show ?thesis using free [OF that] by (fastforce simp: is_range_eligible_def list_all_iff word_le_nat_alt)
  qed
  with free show ?thesis by (auto simp: search_free_mmap_region_def Let_def ASSERT_def)
qed

end
