(* ===== verification/Hart_Trap.thy ===== *)
theory Hart_Trap
  imports Hart
begin

text \<open>
  Traps: \<open>sandbox/hart_trap.c\<close>, \<open>sandbox/hart_exception.c\<close>, \<open>sandbox/hart_interrupt.c\<close> and the return from
  traps in \<open>sandbox/hart_util.h\<close>. \<open>raise_trap_raw\<close> never returns to its caller: it ends in a jump to
  \<open>vmm_entry_point\<close>, so its result is the hart that the monitor finds there (\<open>None\<close>: a failed
  \<open>ASSERT\<close>).
\<close>

definition CSR_ADDRESS_MEPC :: "12 word" where "CSR_ADDRESS_MEPC = 0x341"
definition CSR_ADDRESS_MEDELEG :: "12 word" where "CSR_ADDRESS_MEDELEG = 0x302"
definition CSR_ADDRESS_MCAUSE :: "12 word" where "CSR_ADDRESS_MCAUSE = 0x342"
definition CSR_ADDRESS_MTVAL :: "12 word" where "CSR_ADDRESS_MTVAL = 0x343"
definition CSR_ADDRESS_MTVEC :: "12 word" where "CSR_ADDRESS_MTVEC = 0x305"
definition CSR_ADDRESS_STVEC :: "12 word" where "CSR_ADDRESS_STVEC = 0x105"
definition CSR_ADDRESS_SATP :: "12 word" where "CSR_ADDRESS_SATP = 0x180"
definition CSR_ADDRESS_SCAUSE :: "12 word" where "CSR_ADDRESS_SCAUSE = 0x142"
definition CSR_ADDRESS_STVAL :: "12 word" where "CSR_ADDRESS_STVAL = 0x143"
definition CSR_ADDRESS_SEPC :: "12 word" where "CSR_ADDRESS_SEPC = 0x141"

definition EXCEPTION_ILLEEGAL_INSTRUCTION :: u8 where "EXCEPTION_ILLEEGAL_INSTRUCTION = 0x2"
definition EXCEPTION_LOAD_ADDRESS_MISALIGN :: u8 where "EXCEPTION_LOAD_ADDRESS_MISALIGN = 0x4"
definition EXCEPTION_STORE_ADDRESS_MISALIGN :: u8 where "EXCEPTION_STORE_ADDRESS_MISALIGN = 0x6"
definition EXCEPTION_INSTRUCTION_PAGE_FAULT :: u8 where "EXCEPTION_INSTRUCTION_PAGE_FAULT = 0xc"
definition EXCEPTION_LOAD_PAGE_FAULT :: u8 where "EXCEPTION_LOAD_PAGE_FAULT = 0xd"
definition EXCEPTION_STORE_PAGE_FAULT :: u8 where "EXCEPTION_STORE_PAGE_FAULT = 0xf"

subsection \<open>Entering a trap\<close>

definition trap_vector :: "u32 \<Rightarrow> u32 \<Rightarrow> u32" where
  "trap_vector tvec cause =
     (let trap_mode = tvec AND 0x1 in
      if trap_mode = 0 \<or> cause AND 0x80000000 = 0 then tvec AND NOT 3
      else (tvec AND NOT 3) + (cause AND 0x7fffffff) * 4)"

definition setup_mmode_trap :: "hart \<Rightarrow> u32 \<Rightarrow> u32 \<Rightarrow> hart" where
  "setup_mmode_trap h cause tval =
     h\<lparr>csrs := (csrs h)(CSR_ADDRESS_MCAUSE := cause, CSR_ADDRESS_MTVAL := tval, CSR_ADDRESS_MEPC := pc h),
       status := (status h)\<lparr>mpp := privilege_level h, mpie := mie (status h), mie := 0\<rparr>,
       privilege_level := PRIVILEGE_LEVEL_MACHINE,
       pc := trap_vector (csrs h CSR_ADDRESS_MTVEC) cause\<rparr>"

text \<open>\<open>spp\<close> has one bit: the assignment keeps the low bit of the privilege level.\<close>

definition setup_smode_trap :: "hart \<Rightarrow> u32 \<Rightarrow> u32 \<Rightarrow> hart" where
  "setup_smode_trap h cause tval =
     h\<lparr>csrs := (csrs h)(CSR_ADDRESS_SCAUSE := cause, CSR_ADDRESS_STVAL := tval, CSR_ADDRESS_SEPC := pc h),
       status := (status h)\<lparr>spp := ucast (privilege_level h), spie := sie (status h), sie := 0\<rparr>,
       privilege_level := PRIVILEGE_LEVEL_SUPERVISOR,
       pc := trap_vector (csrs h CSR_ADDRESS_STVEC) cause\<rparr>"

definition raise_trap_raw :: "hart \<Rightarrow> u8 \<Rightarrow> u32 \<Rightarrow> u32 \<Rightarrow> hart option" where
  "raise_trap_raw h target_privilege_level cause tval =
     (if target_privilege_level = ucast PRIVILEGE_LEVEL_MACHINE
      then Some (flush_translation_cache (setup_mmode_trap h cause tval))
      else ASSERT (target_privilege_level = ucast PRIVILEGE_LEVEL_SUPERVISOR)
        (Some (flush_translation_cache (setup_smode_trap h cause tval))))"

definition exception_target_privilege_level :: "hart \<Rightarrow> u8 \<Rightarrow> u8" where
  "exception_target_privilege_level h exception_number =
     (if privilege_level h \<noteq> PRIVILEGE_LEVEL_MACHINE \<and>
         csrs h CSR_ADDRESS_MEDELEG AND push_bit (unat exception_number) 1 \<noteq> 0
      then ucast PRIVILEGE_LEVEL_SUPERVISOR else ucast PRIVILEGE_LEVEL_MACHINE)"

definition raise_exception_internal :: "hart \<Rightarrow> u8 \<Rightarrow> u32 \<Rightarrow> hart option" where
  "raise_exception_internal h exception_cause trap_value =
     (let target_pl = exception_target_privilege_level h exception_cause in
      ASSERT (exception_cause < 16)
        (raise_trap_raw h target_pl (ucast exception_cause) trap_value))"

definition interrupt_target_privilege_level :: "hart \<Rightarrow> u8 \<Rightarrow> u8 option" where
  "interrupt_target_privilege_level h vector =
     ASSERT (vector < 12)
       (Some (if idelegation h AND push_bit (unat vector) 1 \<noteq> 0
              then ucast PRIVILEGE_LEVEL_SUPERVISOR else ucast PRIVILEGE_LEVEL_MACHINE))"

definition is_interrupt_deliverable :: "hart \<Rightarrow> u8 \<Rightarrow> bool option" where
  "is_interrupt_deliverable h vector =
     Option.bind (interrupt_target_privilege_level h vector) (\<lambda>target_pl.
     Some (ucast (privilege_level h) \<le> target_pl \<and>
           ipending h AND push_bit (unat vector) 1 \<noteq> 0 \<and>
           ienable h AND push_bit (unat vector) 1 \<noteq> 0 \<and>
           ((target_pl = ucast PRIVILEGE_LEVEL_MACHINE \<and> mie (status h) \<noteq> 0) \<or>
            (target_pl = ucast PRIVILEGE_LEVEL_SUPERVISOR \<and> sie (status h) \<noteq> 0))))"

definition deliver_interrupt :: "hart \<Rightarrow> u8 \<Rightarrow> hart option" where
  "deliver_interrupt h vector =
     Option.bind (interrupt_target_privilege_level h vector) (\<lambda>target_pl.
     raise_trap_raw h target_pl (0x80000000 OR ucast vector) 0)"

subsection \<open>Leaving a trap\<close>

definition adjust_pc_upon_mret :: "hart \<Rightarrow> hart" where
  "adjust_pc_upon_mret h = h\<lparr>pc := csrs h CSR_ADDRESS_MEPC\<rparr>"

definition adjust_pc_upon_sret :: "hart \<Rightarrow> hart" where
  "adjust_pc_upon_sret h = h\<lparr>pc := csrs h CSR_ADDRESS_SEPC\<rparr>"

definition adjust_mstatus_upon_mret :: "hart \<Rightarrow> hart option" where
  "adjust_mstatus_upon_mret h =
     (let m = mpp (status h) in
      ASSERT (m = PRIVILEGE_LEVEL_USER \<or> m = PRIVILEGE_LEVEL_SUPERVISOR \<or> m = PRIVILEGE_LEVEL_MACHINE)
        (Some (h\<lparr>privilege_level := m,
          status := (status h)\<lparr>mpp := PRIVILEGE_LEVEL_USER, mie := mpie (status h), mpie := 1\<rparr>\<rparr>)))"

text \<open>The \<open>ASSERT\<close> on a one-bit \<open>spp\<close> always holds.\<close>

definition adjust_mstatus_upon_sret :: "hart \<Rightarrow> hart option" where
  "adjust_mstatus_upon_sret h =
     (let s = ucast (spp (status h)) in
      ASSERT (s = PRIVILEGE_LEVEL_USER \<or> s = PRIVILEGE_LEVEL_SUPERVISOR)
        (Some (h\<lparr>privilege_level := s,
          status := (status h)\<lparr>spp := 0, sie := spie (status h), spie := 1\<rparr>\<rparr>)))"

text \<open>\<open>Inr\<close> is a trap to the monitor, \<open>Inl\<close> a normal return.\<close>

definition assert_hart_running_in_mmode :: "hart \<Rightarrow> (hart + hart) option" where
  "assert_hart_running_in_mmode h =
     (if privilege_level h \<noteq> PRIVILEGE_LEVEL_MACHINE
      then map_option Inr (raise_exception_internal h EXCEPTION_ILLEEGAL_INSTRUCTION 0)
      else Some (Inl h))"

definition assert_hart_running_in_smode :: "hart \<Rightarrow> (hart + hart) option" where
  "assert_hart_running_in_smode h =
     (if privilege_level h \<noteq> PRIVILEGE_LEVEL_SUPERVISOR
      then map_option Inr (raise_exception_internal h EXCEPTION_ILLEEGAL_INSTRUCTION 0)
      else Some (Inl h))"

definition mret_callback :: "hart \<Rightarrow> (hart + hart) option" where
  "mret_callback h = Option.bind (assert_hart_running_in_mmode h) (\<lambda>r.
     case r of Inr h' \<Rightarrow> Some (Inr h')
     | Inl h' \<Rightarrow> map_option (\<lambda>h2. Inl (flush_translation_cache (adjust_pc_upon_mret h2)))
                 (adjust_mstatus_upon_mret h'))"

definition sret_callback :: "hart \<Rightarrow> (hart + hart) option" where
  "sret_callback h = Option.bind (assert_hart_running_in_smode h) (\<lambda>r.
     case r of Inr h' \<Rightarrow> Some (Inr h')
     | Inl h' \<Rightarrow> map_option (\<lambda>h2. Inl (flush_translation_cache (adjust_pc_upon_sret h2)))
                 (adjust_mstatus_upon_sret h'))"

lemmas privilege_levels = PRIVILEGE_LEVEL_USER_def PRIVILEGE_LEVEL_SUPERVISOR_def PRIVILEGE_LEVEL_MACHINE_def

lemmas trap_csrs = CSR_ADDRESS_MEPC_def CSR_ADDRESS_MEDELEG_def CSR_ADDRESS_MCAUSE_def
  CSR_ADDRESS_MTVAL_def CSR_ADDRESS_MTVEC_def CSR_ADDRESS_STVEC_def CSR_ADDRESS_SATP_def
  CSR_ADDRESS_SCAUSE_def CSR_ADDRESS_STVAL_def CSR_ADDRESS_SEPC_def

subsection \<open>Laws of the traps\<close>

text \<open>What \<open>deliver_interrupt\<close> and \<open>raise_exception\<close> keep: a trap that an exception raises always succeeds.\<close>

lemma raise_exception_internal_Some:
  "exception_cause < 16 \<Longrightarrow> \<exists>h'. raise_exception_internal h exception_cause v = Some h'"
  by (simp add: raise_exception_internal_def raise_trap_raw_def exception_target_privilege_level_def Let_def)

text \<open>
  The trap flushes the cache: after it no translation can be found, so no block that was
  translated under the old privilege level runs again.
\<close>

lemma raise_trap_raw_flushes:
  "raise_trap_raw h pl cause tval = Some h' \<Longrightarrow>
   nr_translated_instructions h' = 0 \<and> translation_cache_ptr h' = 0 \<and> registers h' = registers h"
  by (auto simp: raise_trap_raw_def flush_translation_cache_def setup_mmode_trap_def setup_smode_trap_def
      split: if_splits)

lemma two_bit_cases: "x = 0 \<or> x = 1 \<or> x = 2 \<or> x = (3 :: 2 word)"
proof -
  have "unat x < 4" using unsigned_less [of x] by simp
  then have "unat x = unat (0 :: 2 word) \<or> unat x = unat (1 :: 2 word) \<or>
      unat x = unat (2 :: 2 word) \<or> unat x = unat (3 :: 2 word)"
    by auto
  then show ?thesis by (simp only: word_unat_eq_iff [symmetric])
qed

text \<open>An \<open>mret\<close> right after a trap into machine mode undoes it.\<close>

lemma mret_after_trap:
  assumes "privilege_level h \<noteq> 2"
    and "raise_trap_raw h (ucast PRIVILEGE_LEVEL_MACHINE) cause tval = Some h'"
  shows "\<exists>h''. mret_callback h' = Some (Inl h'') \<and> pc h'' = pc h \<and> registers h'' = registers h \<and>
    privilege_level h'' = privilege_level h \<and> mie (status h'') = mie (status h)"
proof -
  have "privilege_level h = PRIVILEGE_LEVEL_USER \<or> privilege_level h = PRIVILEGE_LEVEL_SUPERVISOR \<or>
      privilege_level h = PRIVILEGE_LEVEL_MACHINE"
    using assms(1) two_bit_cases [of "privilege_level h"] by (auto simp: privilege_levels)
  with assms(2) show ?thesis
    by (auto simp: raise_trap_raw_def mret_callback_def assert_hart_running_in_mmode_def
        adjust_mstatus_upon_mret_def adjust_pc_upon_mret_def flush_translation_cache_def
        setup_mmode_trap_def trap_csrs Let_def ASSERT_def)
qed

end
