(* ===== verification/Mmu.thy ===== *)
theory Mmu
  imports Pm_Region Hart_Trap
begin

text \<open>
  Guest memory accesses: \<open>sandbox/mmu.c\<close> and \<open>sandbox/mmu.h\<close>, the TLB macros of \<open>sandbox/mmu_tlb.h\<close>, the
  page table walk of \<open>sandbox/mmu_pagewalker.c\<close>, \<open>get_linked_vm\<close> of \<open>sandbox/vm.h\<close>, and the callbacks
  of the regions (\<open>vma_generic_*\<close> in \<open>sandbox/app.c\<close>). A result is a value with the state after
  the access, a trap to the monitor, or the end of the process (a failed \<open>ASSERT\<close>, or an access
  outside the host block of a region, which C leaves undefined).
\<close>

record address_reservation_item =
  res_addr :: u32
  res_valid :: bool
  res_hartid :: u8

text \<open>
  What the C functions behind the templates share: the processes, the host heap blocks that
  back the regions, the reservations of \<open>lr\<close>/\<open>sc\<close> and the breakpoints of the debugger.
\<close>

record machine =
  vms :: "vmptr \<rightharpoonup> virtual_machine"
  hmem :: "nat \<rightharpoonup> u8 list"
  reservations :: "address_reservation_item list"
  next_pointer :: nat
  breakpoints :: "u32 list"
  nr_breakpoints :: nat

datatype 'a mmu_result = Mret 'a hart machine | Mtrap hart machine | Mexit

fun mmu_bind :: "'a mmu_result \<Rightarrow> ('a \<Rightarrow> hart \<Rightarrow> machine \<Rightarrow> 'b mmu_result) \<Rightarrow> 'b mmu_result" where
  "mmu_bind (Mret v h m) k = k v h m"
| "mmu_bind (Mtrap h m) k = Mtrap h m"
| "mmu_bind Mexit k = Mexit"

datatype linkage_hint = LINKAGE_HINT_NATIVE | LINKAGE_HINT_VM | LINKAGE_HINT_FILES | LINKAGE_HINT_FS

fun should_go :: "linkage_hint \<Rightarrow> virtual_machine \<Rightarrow> bool" where
  "should_go LINKAGE_HINT_VM vm = cloned_vm vm"
| "should_go LINKAGE_HINT_FS vm = cloned_fs vm"
| "should_go LINKAGE_HINT_FILES vm = cloned_files vm"
| "should_go LINKAGE_HINT_NATIVE vm = False"

text \<open>The loop up the chain of parents; on a cycle it would not end.\<close>

partial_function (option) get_linked_vm ::
  "(vmptr \<rightharpoonup> virtual_machine) \<Rightarrow> vmptr \<Rightarrow> linkage_hint \<Rightarrow> vmptr option" where
  "get_linked_vm ms current hint =
     (case ms current of None \<Rightarrow> None
      | Some vm \<Rightarrow>
          if should_go hint vm
          then (case parent_vm vm of None \<Rightarrow> None | Some p \<Rightarrow> get_linked_vm ms p hint)
          else Some current)"

declare get_linked_vm.simps [code]

definition linked_vm :: "machine \<Rightarrow> hart \<Rightarrow> virtual_machine option" where
  "linked_vm m h = Option.bind (get_linked_vm (vms m) (native_vmptr h) LINKAGE_HINT_VM) (vms m)"

subsection \<open>The callbacks of a region\<close>

text \<open>The offset of an address in the host block of a region, with the host's 64-bit wrap-around.\<close>

definition host_offset :: "u64 \<Rightarrow> pm_region_operation \<Rightarrow> nat" where
  "host_offset addr pmr = unat (addr - ucast (addr_low pmr))"

definition host_block :: "machine \<Rightarrow> pm_region_operation \<Rightarrow> u8 list option" where
  "host_block m pmr = Option.bind (host_base pmr) (hmem m)"

definition access_size_ok :: "nat \<Rightarrow> bool" where
  "access_size_ok n \<longleftrightarrow> n = 1 \<or> n = 2 \<or> n = 4 \<or> n = 8"

definition vma_generic_read :: "machine \<Rightarrow> u64 \<Rightarrow> nat \<Rightarrow> pm_region_operation \<Rightarrow> u64 option" where
  "vma_generic_read m addr access_size pmr =
     Option.bind (host_block m pmr) (\<lambda>block.
     ASSERT (access_size_ok access_size)
     (if host_offset addr pmr + access_size \<le> length block
      then Some (le_word (take access_size (drop (host_offset addr pmr) block)))
      else None))"

definition splice :: "u8 list \<Rightarrow> nat \<Rightarrow> u8 list \<Rightarrow> u8 list" where
  "splice block off bs = take off block @ bs @ drop (off + length bs) block"

definition vma_generic_write :: "machine \<Rightarrow> u64 \<Rightarrow> nat \<Rightarrow> u64 \<Rightarrow> pm_region_operation \<Rightarrow> machine option" where
  "vma_generic_write m addr access_size v pmr =
     Option.bind (host_base pmr) (\<lambda>b. Option.bind (hmem m b) (\<lambda>block.
     ASSERT (access_size_ok access_size)
     (if host_offset addr pmr + access_size \<le> length block
      then Some (m\<lparr>hmem := (hmem m)(b \<mapsto>
             splice block (host_offset addr pmr) (le_bytes access_size v))\<rparr>)
      else None)))"

definition pmr_do_read :: "machine \<Rightarrow> u64 \<Rightarrow> nat \<Rightarrow> pm_region_operation \<Rightarrow> u64 option" where
  "pmr_do_read m addr n pmr =
     (case pmr_read pmr of None \<Rightarrow> None | Some vma_generic_cb \<Rightarrow> vma_generic_read m addr n pmr)"

definition pmr_do_write :: "machine \<Rightarrow> u64 \<Rightarrow> nat \<Rightarrow> u64 \<Rightarrow> pm_region_operation \<Rightarrow> machine option" where
  "pmr_do_write m addr n v pmr =
     (case pmr_write pmr of None \<Rightarrow> None | Some vma_generic_cb \<Rightarrow> vma_generic_write m addr n v pmr)"

subsection \<open>Accesses without paging\<close>

text \<open>\<open>direct_read8\<close> to \<open>direct_read64\<close>: no region at the address ends the process.\<close>

definition direct_read :: "nat \<Rightarrow> machine \<Rightarrow> hart \<Rightarrow> u32 \<Rightarrow> u64 option" where
  "direct_read n m h a =
     Option.bind (linked_vm m h) (\<lambda>vm.
     Option.bind (search_pm_region_callback vm (ucast a)) (\<lambda>found.
     case found of None \<Rightarrow> None | Some i \<Rightarrow> pmr_do_read m (ucast a) n (pmr_ops vm ! i)))"

definition direct_write :: "nat \<Rightarrow> machine \<Rightarrow> hart \<Rightarrow> u32 \<Rightarrow> u64 \<Rightarrow> machine option" where
  "direct_write n m h a v =
     Option.bind (linked_vm m h) (\<lambda>vm.
     Option.bind (search_pm_region_callback vm (ucast a)) (\<lambda>found.
     case found of None \<Rightarrow> None | Some i \<Rightarrow> pmr_do_write m (ucast a) n v (pmr_ops vm ! i)))"

subsection \<open>The TLBs\<close>

definition PAGE_SHIFT_4K :: nat where "PAGE_SHIFT_4K = 12"
definition PAGE_SHIFT_4M :: nat where "PAGE_SHIFT_4M = 22"
definition PAGE_MASK_4K :: u32 where "PAGE_MASK_4K = 0xfffff000"
definition PAGE_MASK_4M :: u32 where "PAGE_MASK_4M = 0xffc00000"

definition tlb_slot :: "nat \<Rightarrow> tlb_entry list \<Rightarrow> u32 \<Rightarrow> nat" where
  "tlb_slot shift tlb va = unat (drop_bit shift va AND (word_of_nat (length tlb) - 1))"

abbreviation VA_TO_4K_TLB_ENTRY :: "tlb_entry list \<Rightarrow> u32 \<Rightarrow> nat" where
  "VA_TO_4K_TLB_ENTRY \<equiv> tlb_slot PAGE_SHIFT_4K"

abbreviation VA_TO_4M_TLB_ENTRY :: "tlb_entry list \<Rightarrow> u32 \<Rightarrow> nat" where
  "VA_TO_4M_TLB_ENTRY \<equiv> tlb_slot PAGE_SHIFT_4M"

text \<open>A slot beyond the array is a null or wild pointer (\<open>None\<close>).\<close>

definition VA_TO_TLB_ENTRY :: "tlb_entry list \<Rightarrow> u32 \<Rightarrow> nat option option" where
  "VA_TO_TLB_ENTRY tlb va =
     (let i = VA_TO_4K_TLB_ENTRY tlb va; j = VA_TO_4M_TLB_ENTRY tlb va in
      if \<not> i < length tlb then None
      else if entry_valid (tlb ! i) then Some (Some i)
      else if \<not> j < length tlb then None
      else Some (if entry_valid (tlb ! j) then Some j else None))"

definition invalidate_tlb :: "tlb_entry list \<Rightarrow> tlb_entry list" where
  "invalidate_tlb tlb = map (\<lambda>e. e\<lparr>entry_valid := False\<rparr>) tlb"

text \<open>\<open>pmr_direct\<close> and the read of the page table entry it points to.\<close>

definition read_pte :: "machine \<Rightarrow> virtual_machine \<Rightarrow> u32 \<Rightarrow> u32 option" where
  "read_pte m vm addr =
     Option.bind (search_pm_region_callback vm (ucast addr)) (\<lambda>found.
     case found of None \<Rightarrow> None
     | Some i \<Rightarrow> (case pmr_direct (pmr_ops vm ! i) of None \<Rightarrow> None
        | Some vma_generic_cb \<Rightarrow>
            Option.bind (host_block m (pmr_ops vm ! i)) (\<lambda>block.
            let off = host_offset (ucast addr) (pmr_ops vm ! i) in
            if off + 4 \<le> length block then Some (ucast (le_word (take 4 (drop off block)))) else None)))"

definition pte_valid :: "u32 \<Rightarrow> bool" where
  "pte_valid pte = bit pte 0"

definition pte_leaf :: "u32 \<Rightarrow> bool" where
  "pte_leaf pte = (bit pte 1 \<or> bit pte 2 \<or> bit pte 3)"

definition fill_tlb_entry ::
  "virtual_machine \<Rightarrow> tlb_entry list \<Rightarrow> nat \<Rightarrow> u32 \<Rightarrow> u32 \<Rightarrow> u32 \<Rightarrow> tlb_entry list option" where
  "fill_tlb_entry vm tlb i pmask va ppn =
     (let pa = push_bit 12 ppn AND pmask in
      if \<not> i < length tlb then None
      else Option.bind (search_pm_region_callback vm (ucast pa)) (\<lambda>found.
      case found of None \<Rightarrow> None
      | Some r \<Rightarrow> Some (tlb[i := \<lparr>va_tag = va AND pmask, pa_tag = pa, page_mask = pmask,
                               entry_valid = True, tlb_pmr = r\<rparr>])))"

text \<open>
  The walk returns the code of the C function and the TLB afterwards. The level-1 entry is
  addressed with \<open>satp << 12\<close>, which drops the mode bit and the upper bits of the page number.
\<close>

definition walk_page_table :: "machine \<Rightarrow> hart \<Rightarrow> u32 \<Rightarrow> tlb_entry list \<Rightarrow> (int \<times> tlb_entry list) option" where
  "walk_page_table m h va tlb =
     (let satp = csrs h CSR_ADDRESS_SATP in
      ASSERT (satp AND 0x80000000 \<noteq> 0)
      (Option.bind (linked_vm m h) (\<lambda>vm.
      let level1_base = push_bit 12 satp;
          level1_entry_offset = (drop_bit 22 va AND 0x3ff) * 4 in
      Option.bind (read_pte m vm (level1_base + level1_entry_offset)) (\<lambda>level1_pte.
      if \<not> pte_valid level1_pte then Some (-1, tlb)
      else let level1_ppn = drop_bit 10 level1_pte in
      if pte_leaf level1_pte then
        map_option (Pair 0) (fill_tlb_entry vm tlb (VA_TO_4M_TLB_ENTRY tlb va) PAGE_MASK_4M va level1_ppn)
      else
        let level2_base = push_bit 12 level1_ppn;
            level2_entry_offset = (drop_bit 12 va AND 0x3ff) * 4 in
        Option.bind (read_pte m vm (level2_base + level2_entry_offset)) (\<lambda>level2_pte.
        if \<not> pte_valid level2_pte then Some (-2, tlb)
        else map_option (Pair 0)
          (fill_tlb_entry vm tlb (VA_TO_4K_TLB_ENTRY tlb va) PAGE_MASK_4K va (drop_bit 10 level2_pte)))))))"

definition paging :: "hart \<Rightarrow> bool" where
  "paging h \<longleftrightarrow> privilege_level h < PRIVILEGE_LEVEL_MACHINE \<and> csrs h CSR_ADDRESS_SATP AND 0x80000000 \<noteq> 0"

text \<open>The lookup with its walk on a miss; the second component is the TLB to write back.\<close>

definition tlb_lookup :: "machine \<Rightarrow> hart \<Rightarrow> u32 \<Rightarrow> tlb_entry list \<Rightarrow> (nat option \<times> tlb_entry list) option" where
  "tlb_lookup m h va tlb =
     Option.bind (VA_TO_TLB_ENTRY tlb va) (\<lambda>e.
     case e of Some i \<Rightarrow> Some (Some i, tlb)
     | None \<Rightarrow> Option.bind (walk_page_table m h va tlb) (\<lambda>(rc, tlb').
                map_option (\<lambda>e'. (e', tlb')) (VA_TO_TLB_ENTRY tlb' va)))"

definition entry_address :: "tlb_entry \<Rightarrow> u32 \<Rightarrow> u64" where
  "entry_address e va = ucast (pa_tag e OR (va AND NOT (page_mask e)))"

definition raise_exception_with_tvalue :: "hart \<Rightarrow> machine \<Rightarrow> u8 \<Rightarrow> u32 \<Rightarrow> 'a mmu_result" where
  "raise_exception_with_tvalue h m cause tval =
     (case raise_exception_internal h cause tval of None \<Rightarrow> Mexit | Some h' \<Rightarrow> Mtrap h' m)"

definition ret_or_exit :: "'a option \<Rightarrow> hart \<Rightarrow> machine \<Rightarrow> 'a mmu_result" where
  "ret_or_exit r h m = (case r of None \<Rightarrow> Mexit | Some v \<Rightarrow> Mret v h m)"

definition write_or_exit :: "machine option \<Rightarrow> hart \<Rightarrow> unit mmu_result" where
  "write_or_exit r h = (case r of None \<Rightarrow> Mexit | Some m \<Rightarrow> Mret () h m)"

subsection \<open>The functions that the blocks call\<close>

text \<open>\<open>vmread8\<close> to \<open>vmread64\<close> and \<open>vmwrite8\<close> to \<open>vmwrite64\<close>, with the access size in bytes.\<close>

definition vmread :: "nat \<Rightarrow> hart \<Rightarrow> machine \<Rightarrow> u32 \<Rightarrow> u64 mmu_result" where
  "vmread n h m a =
     (if paging h then
        (case tlb_lookup m h a (dtlb h) of None \<Rightarrow> Mexit
         | Some (None, t) \<Rightarrow>
             raise_exception_with_tvalue (h\<lparr>dtlb := t\<rparr>) m EXCEPTION_LOAD_PAGE_FAULT a
         | Some (Some i, t) \<Rightarrow>
             (case linked_vm m h of None \<Rightarrow> Mexit
              | Some vm \<Rightarrow> ret_or_exit (pmr_do_read m (entry_address (t ! i) a) n (pmr_ops vm ! tlb_pmr (t ! i)))
                            (h\<lparr>dtlb := t\<rparr>) m))
      else ret_or_exit (direct_read n m h a) h m)"

definition vmwrite :: "nat \<Rightarrow> hart \<Rightarrow> machine \<Rightarrow> u32 \<Rightarrow> u64 \<Rightarrow> unit mmu_result" where
  "vmwrite n h m a v =
     (if paging h then
        (case tlb_lookup m h a (dtlb h) of None \<Rightarrow> Mexit
         | Some (None, t) \<Rightarrow>
             raise_exception_with_tvalue (h\<lparr>dtlb := t\<rparr>) m EXCEPTION_STORE_PAGE_FAULT a
         | Some (Some i, t) \<Rightarrow>
             (case linked_vm m h of None \<Rightarrow> Mexit
              | Some vm \<Rightarrow> write_or_exit (pmr_do_write m (entry_address (t ! i) a) n v (pmr_ops vm ! tlb_pmr (t ! i)))
                            (h\<lparr>dtlb := t\<rparr>)))
      else write_or_exit (direct_write n m h a v) h)"

definition mmu_read8 :: "hart \<Rightarrow> machine \<Rightarrow> u32 \<Rightarrow> u64 mmu_result" where
  "mmu_read8 h m a = vmread 1 h m a"

definition mmu_read16 :: "hart \<Rightarrow> machine \<Rightarrow> u32 \<Rightarrow> u64 mmu_result" where
  "mmu_read16 h m a = vmread 2 h m a"

definition mmu_read32 :: "hart \<Rightarrow> machine \<Rightarrow> u32 \<Rightarrow> u64 mmu_result" where
  "mmu_read32 h m a = vmread 4 h m a"

definition mmu_read32_aligned :: "hart \<Rightarrow> machine \<Rightarrow> u32 \<Rightarrow> u64 mmu_result" where
  "mmu_read32_aligned h m a =
     (if a AND 0x3 \<noteq> 0 then raise_exception_with_tvalue h m EXCEPTION_LOAD_ADDRESS_MISALIGN a
      else vmread 4 h m a)"

definition mmu_write8 :: "hart \<Rightarrow> machine \<Rightarrow> u32 \<Rightarrow> u8 \<Rightarrow> unit mmu_result" where
  "mmu_write8 h m a v = vmwrite 1 h m a (ucast v)"

definition mmu_write16 :: "hart \<Rightarrow> machine \<Rightarrow> u32 \<Rightarrow> u16 \<Rightarrow> unit mmu_result" where
  "mmu_write16 h m a v = vmwrite 2 h m a (ucast v)"

definition mmu_write32 :: "hart \<Rightarrow> machine \<Rightarrow> u32 \<Rightarrow> u32 \<Rightarrow> unit mmu_result" where
  "mmu_write32 h m a v = vmwrite 4 h m a (ucast v)"

text \<open>A misaligned store raises the exception of a load, as the source has it.\<close>

definition mmu_write32_aligned :: "hart \<Rightarrow> machine \<Rightarrow> u32 \<Rightarrow> u32 \<Rightarrow> unit mmu_result" where
  "mmu_write32_aligned h m a v =
     (if a AND 0x3 \<noteq> 0 then raise_exception_with_tvalue h m EXCEPTION_LOAD_ADDRESS_MISALIGN a
      else vmwrite 4 h m a (ucast v))"

definition mmu_instruction_read32 :: "hart \<Rightarrow> machine \<Rightarrow> u32 \<Rightarrow> u32 mmu_result" where
  "mmu_instruction_read32 h m va =
     (if paging h then
        (case tlb_lookup m h va (itlb h) of None \<Rightarrow> Mexit
         | Some (None, t) \<Rightarrow>
             raise_exception_with_tvalue (h\<lparr>itlb := t\<rparr>) m EXCEPTION_INSTRUCTION_PAGE_FAULT va
         | Some (Some i, t) \<Rightarrow>
             (case linked_vm m h of None \<Rightarrow> Mexit
              | Some vm \<Rightarrow> ret_or_exit (map_option ucast
                            (pmr_do_read m (entry_address (t ! i) va) 4 (pmr_ops vm ! tlb_pmr (t ! i))))
                            (h\<lparr>itlb := t\<rparr>) m))
      else ret_or_exit (map_option ucast (direct_read 4 m h va)) h m)"

subsection \<open>Following the parents\<close>

text \<open>
  The loop of \<open>get_linked_vm\<close> ends, without a failed \<open>ASSERT\<close>, when every cloned process has a
  live parent of smaller rank (processes get increasing numbers, so the pid is such a rank).
\<close>

definition parents_ranked :: "(vmptr \<rightharpoonup> virtual_machine) \<Rightarrow> linkage_hint \<Rightarrow> (vmptr \<Rightarrow> nat) \<Rightarrow> bool" where
  "parents_ranked ms hint rank \<longleftrightarrow>
     (\<forall>p vm. ms p = Some vm \<longrightarrow> should_go hint vm \<longrightarrow>
        (\<exists>q. parent_vm vm = Some q \<and> ms q \<noteq> None \<and> rank q < rank p))"

lemma get_linked_vm_terminates:
  assumes "parents_ranked ms hint rank" "ms p = Some vm"
  shows "\<exists>q vm'. get_linked_vm ms p hint = Some q \<and> ms q = Some vm' \<and> \<not> should_go hint vm'"
  using assms(2)
proof (induction "rank p" arbitrary: p vm rule: less_induct)
  case less
  show ?case
  proof (cases "should_go hint vm")
    case False
    with less.prems show ?thesis by (subst get_linked_vm.simps) simp
  next
    case True
    with assms(1) less.prems obtain q vm1 where q: "parent_vm vm = Some q" "ms q = Some vm1" "rank q < rank p"
      unfolding parents_ranked_def by blast
    with less.hyps [OF q(3,2)] less.prems True show ?thesis
      by (subst get_linked_vm.simps) simp
  qed
qed

lemma linked_vm_native:
  "vms m (native_vmptr h) = Some vm \<Longrightarrow> \<not> cloned_vm vm \<Longrightarrow> linked_vm m h = Some vm"
  unfolding linked_vm_def by (subst get_linked_vm.simps) simp

subsection \<open>The guest memory as bytes\<close>

definition region_at :: "virtual_machine \<Rightarrow> u32 \<Rightarrow> pm_region_operation option" where
  "region_at vm a = find (in_region a) (live_regions vm)"

definition region_offset :: "u32 \<Rightarrow> pm_region_operation \<Rightarrow> nat" where
  "region_offset a r = unat (a - addr_low r)"

definition guest_byte :: "machine \<Rightarrow> virtual_machine \<Rightarrow> u32 \<Rightarrow> u8 option" where
  "guest_byte m vm a =
     Option.bind (region_at vm a) (\<lambda>r. Option.bind (host_block m r) (\<lambda>block.
       if region_offset a r < length block then Some (block ! region_offset a r) else None))"

text \<open>
  The process whose memory is accessed: regions sorted and disjoint, with the callbacks of
  the sandbox, and no two of them on one host block.
\<close>

definition vm_mem_ok :: "virtual_machine \<Rightarrow> bool" where
  "vm_mem_ok vm \<longleftrightarrow> vm_wf vm \<and>
     (\<forall>r \<in> set (live_regions vm). pmr_read r \<noteq> None \<and> pmr_write r \<noteq> None) \<and>
     (\<forall>r1 \<in> set (live_regions vm). \<forall>r2 \<in> set (live_regions vm).
        host_base r1 \<noteq> None \<longrightarrow> host_base r1 = host_base r2 \<longrightarrow> r1 = r2)"

text \<open>An access of \<open>n\<close> bytes that starts in a region and stays inside its host block.\<close>

definition guest_bytes :: "hart \<Rightarrow> machine \<Rightarrow> u32 \<Rightarrow> nat \<Rightarrow> u8 list option" where
  "guest_bytes h m a n =
     (if paging h then None else
      Option.bind (linked_vm m h) (\<lambda>vm. if \<not> vm_wf vm then None else
      Option.bind (region_at vm a) (\<lambda>r. Option.bind (host_block m r) (\<lambda>block.
        if pmr_read r \<noteq> None \<and> pmr_write r \<noteq> None \<and> region_offset a r + n \<le> length block
        then Some (take n (drop (region_offset a r) block)) else None))))"

definition guest_update :: "hart \<Rightarrow> machine \<Rightarrow> u32 \<Rightarrow> u8 list \<Rightarrow> machine option" where
  "guest_update h m a bs =
     (if paging h then None else
      Option.bind (linked_vm m h) (\<lambda>vm. if \<not> vm_wf vm then None else
      Option.bind (region_at vm a) (\<lambda>r.
      Option.bind (host_base r) (\<lambda>b. Option.bind (hmem m b) (\<lambda>block.
        if pmr_read r \<noteq> None \<and> pmr_write r \<noteq> None \<and> region_offset a r + length bs \<le> length block
        then Some (m\<lparr>hmem := (hmem m)(b \<mapsto> splice block (region_offset a r) bs)\<rparr>) else None)))))"

lemma region_at_Some:
  assumes "vm_wf vm"
  shows "region_at vm a = Some r \<longleftrightarrow> (\<exists>i < nr_pmr_ops vm. r = pmr_ops vm ! i \<and> in_region a r)"
proof -
  have len: "length (live_regions vm) = nr_pmr_ops vm" by (rule length_live_regions [OF assms])
  note nth = live_regions_nth [OF assms]
  have find: "region_at vm a = Some r \<longleftrightarrow>
      (\<exists>i < nr_pmr_ops vm. in_region a (live_regions vm ! i) \<and> r = live_regions vm ! i \<and>
         (\<forall>j < i. \<not> in_region a (live_regions vm ! j)))"
    unfolding region_at_def find_Some_iff len by blast
  show ?thesis
  proof
    assume "region_at vm a = Some r"
    with find nth show "\<exists>i < nr_pmr_ops vm. r = pmr_ops vm ! i \<and> in_region a r" by metis
  next
    assume "\<exists>i < nr_pmr_ops vm. r = pmr_ops vm ! i \<and> in_region a r"
    then obtain i where i: "i < nr_pmr_ops vm" "r = pmr_ops vm ! i" "in_region a r" by blast
    have "\<not> in_region a (live_regions vm ! j)" if "j < i" for j
      using in_region_unique [OF assms, of i j a] i that nth [of j] by auto
    with i nth [OF i(1)] show "region_at vm a = Some r" unfolding find by metis
  qed
qed

lemma in_region_not_last: "in_region a r \<Longrightarrow> a \<noteq> - 1"
  by (auto simp: in_region_def)

lemma search_region_at:
  assumes "vm_wf vm" "region_at vm a = Some r"
  shows "\<exists>i. search_pm_region_callback vm (ucast a) = Some (Some i) \<and> pmr_ops vm ! i = r"
proof -
  obtain i where i: "i < nr_pmr_ops vm" "r = pmr_ops vm ! i" "in_region a r"
    using assms region_at_Some by blast
  with search_pm_region_iff(1) [OF assms(1) in_region_not_last [OF i(3)]] show ?thesis by auto
qed

lemma host_offset_region:
  assumes "in_region a r"
  shows "host_offset (ucast a) r = region_offset a r"
proof -
  have le: "addr_low r \<le> a" using assms by (simp add: in_region_def)
  then have "(ucast (addr_low r) :: u64) \<le> ucast a"
    by (simp add: word_le_nat_alt)
  then show ?thesis
    using le by (simp add: host_offset_def region_offset_def unat_sub)
qed

lemma region_at_in: "region_at vm a = Some r \<Longrightarrow> in_region a r"
  by (auto simp: region_at_def find_Some_iff)

text \<open>The C functions do what the byte view says.\<close>

lemma vmread_guest_bytes:
  assumes "guest_bytes h m a n = Some bs" "access_size_ok n"
  shows "vmread n h m a = Mret (le_word bs) h m"
proof -
  from assms(1) obtain vm r block where g: "\<not> paging h" "linked_vm m h = Some vm" "vm_wf vm"
    "region_at vm a = Some r" "host_block m r = Some block" "pmr_read r \<noteq> None"
    "region_offset a r + n \<le> length block" "bs = take n (drop (region_offset a r) block)"
    by (auto simp: guest_bytes_def split: if_splits bind_splits)
  obtain i where "search_pm_region_callback vm (ucast a) = Some (Some i)" "pmr_ops vm ! i = r"
    using search_region_at [OF g(3,4)] by blast
  with g assms(2) host_offset_region [OF region_at_in [OF g(4)]] show ?thesis
    by (auto simp: vmread_def direct_read_def pmr_do_read_def vma_generic_read_def ret_or_exit_def
        split: pm_region_callback.splits)
qed

lemma vmwrite_guest_update:
  assumes "guest_update h m a (le_bytes n v) = Some m'" "access_size_ok n"
  shows "vmwrite n h m a v = Mret () h m'"
proof -
  from assms(1) obtain vm r b block where g: "\<not> paging h" "linked_vm m h = Some vm" "vm_wf vm"
    "region_at vm a = Some r" "host_base r = Some b" "hmem m b = Some block" "pmr_write r \<noteq> None"
    "region_offset a r + n \<le> length block"
    "m' = m\<lparr>hmem := (hmem m)(b \<mapsto> splice block (region_offset a r) (le_bytes n v))\<rparr>"
    by (auto simp: guest_update_def split: if_splits bind_splits)
  obtain i where "search_pm_region_callback vm (ucast a) = Some (Some i)" "pmr_ops vm ! i = r"
    using search_region_at [OF g(3,4)] by blast
  with g assms(2) host_offset_region [OF region_at_in [OF g(4)]] show ?thesis
    by (auto simp: vmwrite_def direct_write_def pmr_do_write_def vma_generic_write_def write_or_exit_def
        split: pm_region_callback.splits)
qed

subsection \<open>Reading back what was written\<close>

lemma length_splice [simp]: "off + length bs \<le> length block \<Longrightarrow> length (splice block off bs) = length block"
  by (simp add: splice_def)

lemma nth_splice:
  "off + length bs \<le> length block \<Longrightarrow> j < length block \<Longrightarrow>
   splice block off bs ! j = (if off \<le> j \<and> j < off + length bs then bs ! (j - off) else block ! j)"
  by (auto simp: splice_def nth_append)

lemma splice_read: "off + length bs \<le> length block \<Longrightarrow> take (length bs) (drop off (splice block off bs)) = bs"
  by (simp add: splice_def)

lemma guest_update_elim:
  assumes "guest_update h m a bs = Some m'"
  obtains vm r b block where "\<not> paging h" "linked_vm m h = Some vm" "vm_wf vm" "region_at vm a = Some r"
    "host_base r = Some b" "hmem m b = Some block" "pmr_read r \<noteq> None" "pmr_write r \<noteq> None"
    "region_offset a r + length bs \<le> length block"
    "m' = m\<lparr>hmem := (hmem m)(b \<mapsto> splice block (region_offset a r) bs)\<rparr>"
  using assms by (auto simp: guest_update_def split: if_splits bind_splits)

lemma linked_vm_hmem [simp]: "linked_vm (m\<lparr>hmem := x\<rparr>) h = linked_vm m h"
  by (simp add: linked_vm_def)

lemma guest_update_read:
  assumes "guest_update h m a bs = Some m'"
  shows "guest_bytes h m' a (length bs) = Some bs"
  using assms by (rule guest_update_elim) (simp add: guest_bytes_def host_block_def splice_read)

lemma region_offset_less:
  assumes "in_region a r" "in_region x r"
  shows "region_offset a r \<le> region_offset x r \<longleftrightarrow> unat a \<le> unat x"
    and "region_offset x r < region_offset a r + n \<longleftrightarrow> unat x < unat a + n"
    and "region_offset x r - region_offset a r = unat x - unat a"
proof -
  have "region_offset a r = unat a - unat (addr_low r)" "unat (addr_low r) \<le> unat a"
    "region_offset x r = unat x - unat (addr_low r)" "unat (addr_low r) \<le> unat x"
    using assms by (simp_all add: region_offset_def in_region_def unat_sub word_le_nat_alt)
  then show "region_offset a r \<le> region_offset x r \<longleftrightarrow> unat a \<le> unat x"
    "region_offset x r < region_offset a r + n \<longleftrightarrow> unat x < unat a + n"
    "region_offset x r - region_offset a r = unat x - unat a" by linarith+
qed

text \<open>
  What a store changes, byte by byte: exactly the bytes of its range that lie in the region
  of its address. A byte of another region is never touched.
\<close>

lemma splice_guest_byte:
  assumes "vm_mem_ok vm" "region_at vm a = Some r" "host_base r = Some b" "hmem m b = Some block"
    and len: "region_offset a r + length bs \<le> length block"
  shows "guest_byte (m\<lparr>hmem := (hmem m)(b \<mapsto> splice block (region_offset a r) bs)\<rparr>) vm x =
    (if region_at vm x = region_at vm a \<and> unat a \<le> unat x \<and> unat x < unat a + length bs
     then Some (bs ! (unat x - unat a)) else guest_byte m vm x)" (is "guest_byte ?m' vm x = _")
proof (cases "region_at vm x")
  case None
  with assms(2) show ?thesis by (simp add: guest_byte_def)
next
  case (Some q)
  note in_q = region_at_in [OF Some] and in_r = region_at_in [OF assms(2)]
  show ?thesis
  proof (cases "q = r")
    case True
    note off = region_offset_less [OF in_r in_q [unfolded True]]
    show ?thesis
      using assms Some True off nth_splice [OF len, of "region_offset x r"]
      by (auto simp: guest_byte_def host_block_def)
  next
    case False
    have "q \<in> set (live_regions vm)" "r \<in> set (live_regions vm)"
      using Some assms(2) by (auto simp: region_at_def find_Some_iff)
    with False assms(1,3) have "host_base q \<noteq> Some b"
      by (force simp: vm_mem_ok_def)
    then have "host_block ?m' q = host_block m q"
      by (cases "host_base q") (auto simp: host_block_def)
    with False Some assms(2) show ?thesis by (simp add: guest_byte_def)
  qed
qed

lemma guest_update_byte:
  assumes "guest_update h m a bs = Some m'" "linked_vm m h = Some vm" "vm_mem_ok vm"
  shows "guest_byte m' vm x =
    (if region_at vm x = region_at vm a \<and> unat a \<le> unat x \<and> unat x < unat a + length bs
     then Some (bs ! (unat x - unat a)) else guest_byte m vm x)"
  using assms(1)
proof (rule guest_update_elim)
  fix vm1 r b block
  assume "linked_vm m h = Some vm1" "region_at vm1 a = Some r" "host_base r = Some b" "hmem m b = Some block"
    "region_offset a r + length bs \<le> length block" "m' = m\<lparr>hmem := (hmem m)(b \<mapsto> splice block (region_offset a r) bs)\<rparr>"
  with assms(2) splice_guest_byte [OF assms(3)] show ?thesis by simp
qed

end
