(* ===== verification/Amo.thy ===== *)
theory Amo
  imports Mmu Riscv_Spec
begin

text \<open>
  The slow paths of \<open>sandbox/translate_amo.c\<close>: the C functions behind the A extension. They work
  on the register array directly, so register 0 may hold the loaded value until the block
  that called them clears it. The reservations of \<open>lr.w\<close> are a table of 16 items.
\<close>

definition MAX_RESERVATION_ITEMS :: nat where "MAX_RESERVATION_ITEMS = 16"

definition write_reg :: "u8 \<Rightarrow> u32 \<Rightarrow> hart \<Rightarrow> hart" where
  "write_reg r v h = h\<lparr>registers := (registers h)[unat r := v]\<rparr>"

text \<open>
  The read-modify-write functions have one shape: both operands are copied first, the loaded
  value goes to \<open>rd\<close>, and what is stored is computed from \<open>rd\<close> and the copy of \<open>rs2\<close>.
\<close>

definition amo_rmw :: "(u32 \<Rightarrow> u32 \<Rightarrow> u32) \<Rightarrow> hart \<Rightarrow> machine \<Rightarrow> u8 \<Rightarrow> u8 \<Rightarrow> u8 \<Rightarrow> unit mmu_result" where
  "amo_rmw f h m rs1_index rs2_index rd_index =
     (let rs1 = registers h ! unat rs1_index; rs2 = registers h ! unat rs2_index in
      mmu_bind (mmu_read32_aligned h m rs1) (\<lambda>v h1 m1.
      let h2 = write_reg rd_index (ucast v) h1 in
      mmu_write32_aligned h2 m1 rs1 (f (registers h2 ! unat rd_index) rs2)))"

definition amoadd_slowpath :: "hart \<Rightarrow> machine \<Rightarrow> u8 \<Rightarrow> u8 \<Rightarrow> u8 \<Rightarrow> unit mmu_result" where
  "amoadd_slowpath = amo_rmw (\<lambda>x y. x + y)"

definition amoswap_slowpath :: "hart \<Rightarrow> machine \<Rightarrow> u8 \<Rightarrow> u8 \<Rightarrow> u8 \<Rightarrow> unit mmu_result" where
  "amoswap_slowpath = amo_rmw (\<lambda>x y. y)"

definition amoxor_slowpath :: "hart \<Rightarrow> machine \<Rightarrow> u8 \<Rightarrow> u8 \<Rightarrow> u8 \<Rightarrow> unit mmu_result" where
  "amoxor_slowpath = amo_rmw (\<lambda>x y. x XOR y)"

definition amoor_slowpath :: "hart \<Rightarrow> machine \<Rightarrow> u8 \<Rightarrow> u8 \<Rightarrow> u8 \<Rightarrow> unit mmu_result" where
  "amoor_slowpath = amo_rmw (\<lambda>x y. x OR y)"

definition amoand_slowpath :: "hart \<Rightarrow> machine \<Rightarrow> u8 \<Rightarrow> u8 \<Rightarrow> u8 \<Rightarrow> unit mmu_result" where
  "amoand_slowpath = amo_rmw (\<lambda>x y. x AND y)"

definition amomaxu_slowpath :: "hart \<Rightarrow> machine \<Rightarrow> u8 \<Rightarrow> u8 \<Rightarrow> u8 \<Rightarrow> unit mmu_result" where
  "amomaxu_slowpath = amo_rmw (\<lambda>x y. if x > y then x else y)"

text \<open>The first free item, or the item the rotating pointer designates when all are taken.\<close>

definition reservation_slot :: "machine \<Rightarrow> nat" where
  "reservation_slot m =
     (case find (\<lambda>idx. \<not> res_valid (reservations m ! idx)) [0..<MAX_RESERVATION_ITEMS] of
        Some idx \<Rightarrow> idx | None \<Rightarrow> next_pointer m)"

definition make_reservation :: "hart \<Rightarrow> machine \<Rightarrow> u32 \<Rightarrow> machine" where
  "make_reservation h m a =
     (let slot = reservation_slot m in
      m\<lparr>reservations := (reservations m)[slot := \<lparr>res_addr = a, res_valid = True, res_hartid = ucast (hart_id h)\<rparr>],
        next_pointer := (slot + 1) mod MAX_RESERVATION_ITEMS\<rparr>)"

definition lr_slowpath :: "hart \<Rightarrow> machine \<Rightarrow> u8 \<Rightarrow> u8 \<Rightarrow> u8 \<Rightarrow> unit mmu_result" where
  "lr_slowpath h m rs1_index rs2_index rd_index =
     (let rs1 = registers h ! unat rs1_index in
      mmu_bind (mmu_read32_aligned h m rs1) (\<lambda>v h1 m1.
      Mret () (write_reg rd_index (ucast v) h1) (make_reservation h1 m1 rs1)))"

text \<open>The eight-bit field is compared with the \<open>int\<close> hart id.\<close>

definition reservation_matches :: "hart \<Rightarrow> machine \<Rightarrow> u32 \<Rightarrow> nat \<Rightarrow> bool" where
  "reservation_matches h m a idx \<longleftrightarrow>
     (let r = reservations m ! idx in
      res_valid r \<and> res_addr r = a \<and> ucast (res_hartid r) = hart_id h)"

definition sc_slowpath :: "hart \<Rightarrow> machine \<Rightarrow> u8 \<Rightarrow> u8 \<Rightarrow> u8 \<Rightarrow> unit mmu_result" where
  "sc_slowpath h m rs1_index rs2_index rd_index =
     (let rs1 = registers h ! unat rs1_index; rs2 = registers h ! unat rs2_index in
      case find (reservation_matches h m rs1) [0..<MAX_RESERVATION_ITEMS] of
        Some idx \<Rightarrow>
          mmu_bind (mmu_write32_aligned (write_reg rd_index 0 h) m rs1 rs2) (\<lambda>_ h1 m1.
          Mret () h1 (m1\<lparr>reservations := (reservations m1)
                            [idx := (reservations m1 ! idx)\<lparr>res_valid := False\<rparr>]\<rparr>))
      | None \<Rightarrow> Mret () (write_reg rd_index 1 h) m)"

definition amo_instruction_slowpath :: "hart \<Rightarrow> machine \<Rightarrow> u8 \<Rightarrow> u8 \<Rightarrow> u8 \<Rightarrow> u32 \<Rightarrow> unit mmu_result" where
  "amo_instruction_slowpath h m rs1_index rs2_index rd_index funct5 =
     (if funct5 = 0x0 then amoadd_slowpath h m rs1_index rs2_index rd_index
      else if funct5 = 0x1 then amoswap_slowpath h m rs1_index rs2_index rd_index
      else if funct5 = 0x2 then lr_slowpath h m rs1_index rs2_index rd_index
      else if funct5 = 0x3 then sc_slowpath h m rs1_index rs2_index rd_index
      else if funct5 = 0x4 then amoxor_slowpath h m rs1_index rs2_index rd_index
      else if funct5 = 0x8 then amoor_slowpath h m rs1_index rs2_index rd_index
      else if funct5 = 0xc then amoand_slowpath h m rs1_index rs2_index rd_index
      else if funct5 = 0x1c then amomaxu_slowpath h m rs1_index rs2_index rd_index
      else Mexit)"

subsection \<open>The read-modify-write functions are atomic updates\<close>

lemma linked_vm_registers [simp]: "linked_vm m (h\<lparr>registers := r\<rparr>) = linked_vm m h"
  by (simp add: linked_vm_def)

lemma paging_registers [simp]: "paging (h\<lparr>registers := r\<rparr>) = paging h"
  by (simp add: paging_def)

lemma guest_update_registers [simp]: "guest_update (h\<lparr>registers := r\<rparr>) m a bs = guest_update h m a bs"
  by (simp add: guest_update_def)

lemma guest_bytes_registers [simp]: "guest_bytes (h\<lparr>registers := r\<rparr>) m a n = guest_bytes h m a n"
  by (simp add: guest_bytes_def)

text \<open>Bytes that can be read can be overwritten.\<close>

lemma guest_bytes_update:
  assumes "guest_bytes h m a n = Some bs" "length bs' = n"
  shows "\<exists>m'. guest_update h m a bs' = Some m'"
  using assms by (auto simp: guest_bytes_def guest_update_def host_block_def split: if_splits bind_splits)

lemma mmu_read32_aligned_bytes:
  "guest_bytes h m a 4 = Some bs \<Longrightarrow> a AND 3 = 0 \<Longrightarrow> mmu_read32_aligned h m a = Mret (le_word bs) h m"
  by (simp add: mmu_read32_aligned_def vmread_guest_bytes access_size_ok_def)

lemma mmu_write32_aligned_update:
  "guest_update h m a (le_bytes 4 (ucast v)) = Some m' \<Longrightarrow> a AND 3 = 0 \<Longrightarrow>
   mmu_write32_aligned h m a v = Mret () h m'"
  by (simp add: mmu_write32_aligned_def vmwrite_guest_update access_size_ok_def)

lemma amo_rmw_correct:
  assumes "guest_bytes h m (registers h ! unat rs1) 4 = Some bs" "registers h ! unat rs1 AND 3 = 0"
    and "unat rd < length (registers h)"
    and "guest_update h m (registers h ! unat rs1)
      (le_bytes 4 (ucast (f (ucast (le_word bs)) (registers h ! unat rs2)))) = Some m'"
  shows "amo_rmw f h m rs1 rs2 rd = Mret () (write_reg rd (ucast (le_word bs)) h) m'"
proof -
  have "registers (write_reg rd (ucast (le_word bs)) h) ! unat rd = ucast (le_word bs)"
    using assms(3) by (simp add: write_reg_def)
  moreover have "mmu_write32_aligned (write_reg rd (ucast (le_word bs)) h) m (registers h ! unat rs1)
      (f (ucast (le_word bs)) (registers h ! unat rs2)) = Mret () (write_reg rd (ucast (le_word bs)) h) m'"
    using assms(2,4) by (intro mmu_write32_aligned_update) (simp_all add: write_reg_def)
  ultimately show ?thesis
    using assms(1,2) by (simp add: amo_rmw_def mmu_read32_aligned_bytes)
qed

subsection \<open>Reservations\<close>

definition res_wf :: "machine \<Rightarrow> bool" where
  "res_wf m \<longleftrightarrow> length (reservations m) = MAX_RESERVATION_ITEMS \<and> next_pointer m < MAX_RESERVATION_ITEMS"

lemma reservation_slot_less:
  assumes "res_wf m"
  shows "reservation_slot m < MAX_RESERVATION_ITEMS"
  using assms by (auto simp: reservation_slot_def res_wf_def find_Some_iff split: option.splits)

lemma make_reservation_wf:
  assumes "res_wf m"
  shows "res_wf (make_reservation h m a)"
  using assms by (simp add: make_reservation_def res_wf_def Let_def MAX_RESERVATION_ITEMS_def)

lemma make_reservation_matches:
  assumes "res_wf m" "hart_id h < 256"
  shows "\<exists>idx < MAX_RESERVATION_ITEMS. reservation_matches h (make_reservation h m a) a idx"
proof -
  have "(ucast (ucast (hart_id h) :: u8) :: u32) = hart_id h"
  proof -
    have "unat (hart_id h) < 2 ^ 8" using assms(2) by (simp add: word_less_nat_alt)
    then have "unat (take_bit 8 (hart_id h)) = unat (hart_id h)"
      by (simp only: unsigned_take_bit_eq take_bit_nat_eq_self)
    then have "take_bit 8 (hart_id h) = hart_id h" by (simp only: word_unat_eq_iff)
    moreover have "(ucast (ucast (hart_id h) :: u8) :: u32) = take_bit 8 (hart_id h)"
      by (rule bit_word_eqI) (auto simp: bit_simps)
    ultimately show ?thesis by simp
  qed
  then show ?thesis
    using reservation_slot_less [OF assms(1)] assms(1)
    by (intro exI [of _ "reservation_slot m"])
       (simp add: reservation_matches_def make_reservation_def res_wf_def Let_def)
qed

text \<open>A store-conditional right after a load-reserved of the same address succeeds.\<close>

lemma find_matches:
  "\<exists>idx < MAX_RESERVATION_ITEMS. reservation_matches h m a idx \<Longrightarrow>
   \<exists>idx. find (reservation_matches h m a) [0..<MAX_RESERVATION_ITEMS] = Some idx \<and>
     idx < MAX_RESERVATION_ITEMS \<and> reservation_matches h m a idx"
proof -
  assume ex: "\<exists>idx < MAX_RESERVATION_ITEMS. reservation_matches h m a idx"
  then have "find (reservation_matches h m a) [0..<MAX_RESERVATION_ITEMS] \<noteq> None"
    by (auto simp: find_None_iff)
  then obtain idx where "find (reservation_matches h m a) [0..<MAX_RESERVATION_ITEMS] = Some idx" by blast
  then show ?thesis by (auto simp: find_Some_iff)
qed

lemma guest_update_other:
  assumes "guest_update h m a bs = Some m'"
  shows "\<exists>mem. m' = m\<lparr>hmem := mem\<rparr>"
  using assms by (rule guest_update_elim) blast

lemma linked_vm_reservations [simp]:
  "linked_vm (m\<lparr>reservations := r, next_pointer := n\<rparr>) h = linked_vm m h"
  by (simp add: linked_vm_def)

lemma guest_update_reservations:
  assumes "guest_update h m a bs = Some m'"
  shows "guest_update h (m\<lparr>reservations := r, next_pointer := n\<rparr>) a bs
    = Some (m'\<lparr>reservations := r, next_pointer := n\<rparr>)"
  using assms by (rule guest_update_elim) (simp add: guest_update_def)

text \<open>
  Load-reserved, then store-conditional of the same hart to the same address: the load returns
  the word, the store happens, and the result register says so.
\<close>

lemma lr_then_sc:
  assumes wf: "res_wf m" and id: "hart_id h < 256" and al: "registers h ! unat rs1 AND 3 = 0"
    and b: "guest_bytes h m (registers h ! unat rs1) 4 = Some bs"
    and r: "unat rd < length (registers h)" "unat rd2 < length (registers h)" "rd \<noteq> rs1" "rd \<noteq> rs2"
    and up: "guest_update h m (registers h ! unat rs1) (le_bytes 4 (ucast (registers h ! unat rs2))) = Some m'"
  shows "\<exists>m1 res np. lr_slowpath h m rs1 x rd = Mret () (write_reg rd (ucast (le_word bs)) h) m1 \<and>
    sc_slowpath (write_reg rd (ucast (le_word bs)) h) m1 rs1 rs2 rd2 =
      Mret () (write_reg rd2 0 (write_reg rd (ucast (le_word bs)) h)) (m'\<lparr>reservations := res, next_pointer := np\<rparr>)"
proof -
  let ?a = "registers h ! unat rs1" and ?h1 = "write_reg rd (ucast (le_word bs)) h"
  let ?m1 = "make_reservation h m ?a"
  obtain res np where m1: "?m1 = m\<lparr>reservations := res, next_pointer := np\<rparr>" by (simp add: make_reservation_def Let_def)
  have lr: "lr_slowpath h m rs1 x rd = Mret () ?h1 ?m1"
    using al b by (simp add: lr_slowpath_def mmu_read32_aligned_bytes)
  have regs: "registers ?h1 ! unat rs1 = ?a" "registers ?h1 ! unat rs2 = registers h ! unat rs2" "hart_id ?h1 = hart_id h"
    using r by (simp_all add: write_reg_def nth_list_update word_unat_eq_iff)
  have "\<exists>idx < MAX_RESERVATION_ITEMS. reservation_matches h ?m1 ?a idx"
    by (rule make_reservation_matches [OF wf id])
  then have "\<exists>idx < MAX_RESERVATION_ITEMS. reservation_matches ?h1 ?m1 ?a idx"
    using regs(3) by (simp add: reservation_matches_def)
  from find_matches [OF this] obtain idx where
    idx: "find (reservation_matches ?h1 ?m1 ?a) [0..<MAX_RESERVATION_ITEMS] = Some idx" by blast
  have "mmu_write32_aligned (write_reg rd2 0 ?h1) ?m1 ?a (registers h ! unat rs2)
      = Mret () (write_reg rd2 0 ?h1) (m'\<lparr>reservations := res, next_pointer := np\<rparr>)"
    using al guest_update_reservations [OF up] unfolding m1
    by (intro mmu_write32_aligned_update) (simp_all add: write_reg_def)
  with idx regs have "sc_slowpath ?h1 ?m1 rs1 rs2 rd2 = Mret () (write_reg rd2 0 ?h1)
      (m'\<lparr>reservations := res[idx := (res ! idx)\<lparr>res_valid := False\<rparr>], next_pointer := np\<rparr>)"
    by (simp add: sc_slowpath_def)
  with lr show ?thesis by blast
qed

end
