(* ===== verification/Translate_Amo.thy ===== *)
theory Translate_Amo
  imports Translate_Privileged Amo
begin

text \<open>
  The translator of \<open>sandbox/translate_amo.c\<close>: one template for all instructions of the A
  extension. It passes the register numbers and the function code to the C slow path, then
  clears register 0, which the slow path may have written.
\<close>

definition amo_instruction_code :: "x86 list" where
  "amo_instruction_code = BEGIN_TRANSLATION @
     [Movq R12 RDI, Movl_param 0 RSI, Movl_param 1 RDX, Movl_param 2 RCX, Movl_param 3 R8,
      Movq_sym amo_instruction_slowpath_sym RAX]
     @ SAVE_GUEST_CONTEXT_SWITCH_REGS @ [Call RAX] @ RESTORE_GUEST_CONTEXT_SWITCH_REGS
     @ RESET_ZERO_REGISTER @ PROCEED_TO_NEXT_INSTRUCTION @ END_INSTRUCTION"

definition amo_params :: "decoding \<Rightarrow> u32 list" where
  "amo_params dec = [ucast (rs1_index dec), ucast (rs2_index dec), ucast (rd_index dec),
     ucast (drop_bit 2 (funct7 dec))]"

definition riscv_amo_translator :: instruction_sub_translator where
  "riscv_amo_translator lay dec blob h =
     emit_translation lay ''amo_instruction'' amo_instruction_code (amo_params dec) False blob h"

text \<open>The table that \<open>amo_constructor\<close> fills.\<close>

definition amo_handlers :: "u8 \<Rightarrow> instruction_sub_translator option" where
  "amo_handlers f5 =
     (if f5 \<in> {0, 0x1, 0x2, 0x3, 0x4, 0x8, 0xc, 0x1c} then Some riscv_amo_translator else None)"

definition riscv_amo_instructions_translation_entry :: instruction_translator where
  "riscv_amo_instructions_translation_entry lay blob instruction h =
     Option.bind (instruction_decoding_per_type instruction ENCODING_TYPE_R) (\<lambda>dec.
     case amo_handlers (drop_bit 2 (funct7 dec)) of
       None \<Rightarrow> None
     | Some handler \<Rightarrow> handler lay dec blob h)"

text \<open>What the block makes of a hart that comes back from the slow path.\<close>

definition clear_zero :: "hart \<Rightarrow> hart" where
  "clear_zero h = h\<lparr>registers := (registers h)[0 := 0]\<rparr>"

lemma wf_clear_zero: "length (registers h) = 32 \<Longrightarrow> wf_hart (clear_zero h)"
  by (auto simp: wf_hart_def clear_zero_def)

lemma clear_zero_write_reg:
  assumes "wf_hart h"
  shows "clear_zero (write_reg (ucast r) v h) = rv_set r v h"
proof -
  have "unat (ucast r :: u8) = unat r" by transfer (simp add: take_bit_eq_mod)
  then show ?thesis
    using write_then_clear_zero [OF assms, of r v] by (simp add: clear_zero_def write_reg_def)
qed

context vmm_calls
begin

lemma amo_block:
  assumes "entered s h w" "quiet h w"
    and call: "cc amo_instruction_slowpath_sym
      [Vhart 0, Vint (ucast (reg_param rs1)), Vint (ucast (reg_param rs2)), Vint (ucast (reg_param rd)),
       Vint (ucast f5)] h w = Returned r h' w'"
    and "length (registers h') = 32"
  shows "completes cc [reg_param rs1, reg_param rs2, reg_param rd, f5] amo_instruction_code s
    (rv_next (clear_zero h')) w'"
  unfolding amo_instruction_code_def
  using call wf_clear_zero [OF assms(4)]
  by (intro completes_body [OF assms(1,2)])
     (auto simp: template_code x86_run rv_ref clear_zero_def)

end

end
