(* ===== verification/Translation_Cache.thy ===== *)
theory Translation_Cache
  imports Hart
begin

text \<open>
  The translation cache as its clients see it: a map from a guest pc to the block that was
  committed for it. \<open>tc_wf\<close> is the invariant of the mapping array and of the cache;
  \<open>cached\<close> reads the abstract map off the arrays through \<open>search_translation_item\<close>.

  The comparison of two program counters is a wrapping difference read as a signed number.
  It is an order only on a window of \<open>2 ^ 31\<close> addresses (which may wrap around zero), so the
  window is a parameter of the invariant.
\<close>

definition in_window :: "u32 \<Rightarrow> u32 \<Rightarrow> bool" where
  "in_window b p \<longleftrightarrow> unat (p - b) < 2 ^ 31"

definition pc_key :: "u32 \<Rightarrow> program_counter_mapping_item \<Rightarrow> nat" where
  "pc_key b i = unat (guest_pc i - b)"

lemma uint_small: "unat (u :: u32) < 2 ^ 31 \<Longrightarrow> uint u < 2 ^ 31"
proof -
  assume "unat u < 2 ^ 31"
  then have "int (unat u) < int (2 ^ 31)" by (simp only: of_nat_less_iff)
  then show ?thesis by simp
qed

lemma sint_small: "unat (u :: u32) < 2 ^ 31 \<Longrightarrow> sint u = uint u"
  using signed_wrap [of "uint u"] uint_small [of u] uint_ge_0 [of u] by (simp add: sint_uint)

lemma sint_diff_window:
  assumes "in_window b x" "in_window b y"
  shows "sint (x - y) = uint (x - b) - uint (y - b)"
proof -
  have "sint (x - b) = uint (x - b)" "sint (y - b) = uint (y - b)"
    using assms unfolding in_window_def by (simp_all only: sint_small)
  moreover have "uint (x - b) < 2 ^ 31" "uint (y - b) < 2 ^ 31"
    using assms unfolding in_window_def by (simp_all only: uint_small)
  moreover have "(if p - q < - (2 ^ 31) then p - q + 2 ^ 32 else if p - q < 2 ^ 31 then p - q
      else p - q - 2 ^ 32) = p - q" if "0 \<le> p" "0 \<le> q" "p < 2 ^ 31" "q < 2 ^ 31" for p q :: int
    using that by auto
  ultimately have "sint ((x - b) - (y - b)) = uint (x - b) - uint (y - b)"
    unfolding sint_diff_cases [of "x - b" "y - b"] by (simp only: uint_ge_0)
  then show ?thesis by simp
qed

lemma unat_less_uint: "unat x < unat y \<longleftrightarrow> uint x < uint y" for x y :: u32
  using word_less_nat_alt [of x y] word_less_alt [of x y] by simp

interpretation pc_window:
  keyed_comparator comparing_mapping_item "pc_key b" "{i. in_window b (guest_pc i)}" for b
  by unfold_locales
     (simp add: comparing_mapping_item_def pc_key_def sint_diff_window unat_less_uint)

lemma pc_key_inject: "pc_key b i = pc_key b j \<longleftrightarrow> guest_pc i = guest_pc j"
  by (simp add: pc_key_def word_unat_eq_iff [symmetric])

subsection \<open>The invariant\<close>

definition live_mappings :: "hart \<Rightarrow> program_counter_mapping_item list" where
  "live_mappings h = take (nr_translated_instructions h) (pc_mappings h)"

text \<open>The block of a live item lies inside the used part of the cache.\<close>

definition block_at :: "hart \<Rightarrow> program_counter_mapping_item \<Rightarrow> tc_block \<Rightarrow> bool" where
  "block_at h i blk \<longleftrightarrow> translation_cache h (uint (tc_offset i)) = Some blk \<and> 0 < blk_len blk \<and>
     uint (tc_offset i) + blk_len blk \<le> translation_cache_ptr h"

definition tc_wf :: "u32 \<Rightarrow> hart \<Rightarrow> bool" where
  "tc_wf b h \<longleftrightarrow>
     length (pc_mappings h) = MAX_INSTRUCTIONS_TOTRANSLATE \<and>
     nr_translated_instructions h \<le> MAX_INSTRUCTIONS_TOTRANSLATE \<and>
     0 \<le> translation_cache_ptr h \<and> translation_cache_ptr h \<le> TRANSLATION_CACHE_SIZE \<and>
     sorted (map (pc_key b) (live_mappings h)) \<and> distinct (map guest_pc (live_mappings h)) \<and>
     (\<forall>i \<in> set (live_mappings h). in_window b (guest_pc i) \<and> (\<exists>blk. block_at h i blk))"

definition cached :: "hart \<Rightarrow> u32 \<Rightarrow> (x86 list \<times> u32 list) option" where
  "cached h p = (case search_translation_item h p of None \<Rightarrow> None
     | Some item \<Rightarrow> map_option (\<lambda>blk. (blk_code blk, blk_params blk))
                     (translation_cache h (uint (tc_offset item))))"

lemma tc_wf_flush: "tc_wf b h \<Longrightarrow> tc_wf b (flush_translation_cache h)"
  by (simp add: tc_wf_def flush_translation_cache_def live_mappings_def TRANSLATION_CACHE_SIZE_def)

lemma tc_wf_hart_init: "tc_wf b (hart_init hid)"
  by (simp add: tc_wf_def hart_init_def flush_translation_cache_def live_mappings_def TRANSLATION_CACHE_SIZE_def)

subsection \<open>Searching\<close>

lemma search_translation_item_wf:
  assumes "tc_wf b h" "in_window b p"
  shows "case search_translation_item h p of
      None \<Rightarrow> p \<notin> guest_pc ` set (live_mappings h)
    | Some item \<Rightarrow> item \<in> set (live_mappings h) \<and> guest_pc item = p"
proof -
  let ?n = "nr_translated_instructions h" and ?m = "pc_mappings h"
  let ?t = "\<lparr>guest_pc = p, tc_offset = 0\<rparr>"
  have len: "?n \<le> length ?m" and live: "\<And>i. i < ?n \<Longrightarrow> ?m ! i \<in> set (live_mappings h)"
    using assms(1) by (auto simp: tc_wf_def live_mappings_def in_set_conv_nth)
  have sorted: "pc_key b (?m ! i) \<le> pc_key b (?m ! j)" if "i < j" "j < ?n" for i j
    using assms(1) sorted_nth_mono [of "map (pc_key b) (live_mappings h)" i j] that len
    by (simp add: tc_wf_def live_mappings_def)
  have "case SEARCH comparing_mapping_item ?m ?n ?t of None \<Rightarrow> False
    | Some None \<Rightarrow> (\<forall>i < ?n. pc_key b (?m ! i) \<noteq> pc_key b ?t)
    | Some (Some i) \<Rightarrow> i < ?n \<and> pc_key b (?m ! i) = pc_key b ?t"
    using assms live sorted by (intro pc_window.SEARCH_key) (auto simp: tc_wf_def)
  moreover have "set (live_mappings h) = (\<lambda>i. ?m ! i) ` {..< ?n}"
    using len by (simp add: live_mappings_def nth_image [symmetric] lessThan_atLeast0)
  ultimately show ?thesis
    by (auto simp: search_translation_item_def pc_key_inject split: option.splits)
qed

lemma search_Some_iff:
  assumes "tc_wf b h" "in_window b p"
  shows "search_translation_item h p = Some item \<longleftrightarrow> item \<in> set (live_mappings h) \<and> guest_pc item = p"
proof -
  have "inj_on guest_pc (set (live_mappings h))"
    using assms(1) by (simp add: tc_wf_def distinct_map)
  then show ?thesis
    using search_translation_item_wf [OF assms] by (auto split: option.splits dest: inj_onD)
qed

lemma search_None_iff:
  assumes "tc_wf b h" "in_window b p"
  shows "search_translation_item h p = None \<longleftrightarrow> p \<notin> guest_pc ` set (live_mappings h)"
  using search_translation_item_wf [OF assms] by (auto split: option.splits)

lemma cached_None_iff:
  assumes "tc_wf b h" "in_window b p"
  shows "cached h p = None \<longleftrightarrow> search_translation_item h p = None"
proof -
  have "cached h p \<noteq> None" if "search_translation_item h p = Some item" for item
    using that search_Some_iff [OF assms, of item] assms(1)
    by (auto simp: cached_def tc_wf_def block_at_def)
  then show ?thesis by (cases "search_translation_item h p") (auto simp: cached_def)
qed

lemma cached_ptr:
  assumes "tc_wf b h" "in_window b p" "cached h p \<noteq> None"
  shows "translation_cache_ptr h \<noteq> 0"
proof -
  obtain item where "item \<in> set (live_mappings h)"
    using assms cached_None_iff search_Some_iff by (metis option.exhaust)
  then obtain blk where "block_at h item blk" using assms(1) unfolding tc_wf_def by blast
  moreover have "0 \<le> uint (tc_offset item)" by simp
  ultimately show ?thesis unfolding block_at_def by linarith
qed

lemma cached_flush:
  assumes "tc_wf b h" "in_window b p"
  shows "cached (flush_translation_cache h) p = None"
  using cached_None_iff [OF tc_wf_flush [OF assms(1)] assms(2)]
    search_None_iff [OF tc_wf_flush [OF assms(1)] assms(2)]
  by (simp add: live_mappings_def flush_translation_cache_def)

subsection \<open>Committing a block\<close>

text \<open>The part of the hart that is not the cache.\<close>

definition arch :: "hart \<Rightarrow> hart" where
  "arch h = h\<lparr>nr_translated_instructions := 0, pc_mappings := [], translation_cache := Map.empty,
             translation_cache_ptr := 0\<rparr>"

lemma uint_tc_offset:
  "tc_wf b h \<Longrightarrow> uint (word_of_int (translation_cache_ptr h) :: u32) = translation_cache_ptr h"
  by (simp add: tc_wf_def TRANSLATION_CACHE_SIZE_def uint_word_of_int)

text \<open>A copy at the end of the used part leaves the blocks of the live items alone.\<close>

lemma block_at_memcpy:
  assumes "tc_wf b h" "i \<in> set (live_mappings h)"
  shows "tc_memcpy (translation_cache_ptr h) blk (translation_cache h) (uint (tc_offset i))
    = translation_cache h (uint (tc_offset i))"
  using assms by (auto simp: tc_wf_def block_at_def tc_memcpy_def split: option.splits)

lemma unoccupied_pos:
  "0 < unoccupied_cache_size lay h \<Longrightarrow>
   nr_translated_instructions h < MAX_INSTRUCTIONS_TOTRANSLATE \<and>
   unoccupied_cache_size lay h = TRANSLATION_CACHE_SIZE - translation_cache_ptr h - jumper_size lay"
  by (simp add: unoccupied_cache_size_def split: if_splits)

lemma add_translation_item_sorts:
  assumes "tc_wf b h" "in_window b addr" "nr_translated_instructions h < MAX_INSTRUCTIONS_TOTRANSLATE"
  defines "item \<equiv> \<lparr>guest_pc = addr, tc_offset = word_of_int (translation_cache_ptr h)\<rparr>"
  shows "\<exists>m. INSERTION_SORT comparing_mapping_item
      ((pc_mappings h)[nr_translated_instructions h := item]) (Suc (nr_translated_instructions h)) = Some m \<and>
    length m = MAX_INSTRUCTIONS_TOTRANSLATE \<and>
    mset (take (Suc (nr_translated_instructions h)) m) = add_mset item (mset (live_mappings h)) \<and>
    sorted (map (pc_key b) (take (Suc (nr_translated_instructions h)) m))"
proof -
  let ?n = "nr_translated_instructions h" and ?base = "(pc_mappings h)[nr_translated_instructions h := item]"
  have len: "?n < length (pc_mappings h)" "length (pc_mappings h) = MAX_INSTRUCTIONS_TOTRANSLATE"
    using assms(1,3) by (auto simp: tc_wf_def)
  have take: "take ?n ?base = live_mappings h" "take (Suc ?n) ?base = live_mappings h @ [item]"
    using len by (simp_all add: live_mappings_def take_Suc_conv_app_nth)
  have "?base ! i \<in> {i. in_window b (guest_pc i)}" if "i < Suc ?n" for i
  proof -
    have "?base ! i \<in> set (live_mappings h @ [item])"
      using that len by (subst take(2) [symmetric]) (auto simp: in_set_conv_nth intro!: exI [of _ i])
    then show ?thesis using assms(1,2) by (auto simp: tc_wf_def item_def)
  qed
  moreover have "sorted (map (pc_key b) (take (Suc ?n - 1) ?base))"
    using assms(1) take(1) by (simp add: tc_wf_def)
  ultimately show ?thesis
    using pc_window.INSERTION_SORT_key [of "Suc ?n" ?base b] len take(2) by auto
qed

lemma add_translation_item_fits:
  assumes "tc_wf b h" "in_window b addr" "addr \<notin> guest_pc ` set (live_mappings h)"
    and "0 < blk_len blk" "blk_len blk \<le> unoccupied_cache_size lay h" "0 \<le> jumper_size lay"
  shows "\<exists>h'. add_translation_item lay h addr blk = Some (0, h') \<and> tc_wf b h' \<and> arch h' = arch h \<and>
    translation_cache_ptr h' = translation_cache_ptr h + blk_len blk \<and>
    nr_translated_instructions h' = Suc (nr_translated_instructions h) \<and>
    set (live_mappings h') = insert \<lparr>guest_pc = addr, tc_offset = word_of_int (translation_cache_ptr h)\<rparr>
      (set (live_mappings h)) \<and>
    translation_cache h' = tc_memcpy (translation_cache_ptr h) blk (translation_cache h)"
proof -
  let ?n = "nr_translated_instructions h" and ?ptr = "translation_cache_ptr h"
  let ?item = "\<lparr>guest_pc = addr, tc_offset = word_of_int ?ptr\<rparr>"
  from assms(4,5) unoccupied_pos [of lay h] have room: "?n < MAX_INSTRUCTIONS_TOTRANSLATE"
    "?ptr + blk_len blk + jumper_size lay \<le> TRANSLATION_CACHE_SIZE" by auto
  obtain m where m: "INSERTION_SORT comparing_mapping_item ((pc_mappings h)[?n := ?item]) (Suc ?n) = Some m"
    "length m = MAX_INSTRUCTIONS_TOTRANSLATE"
    "mset (take (Suc ?n) m) = add_mset ?item (mset (live_mappings h))"
    "sorted (map (pc_key b) (take (Suc ?n) m))"
    using add_translation_item_sorts [OF assms(1,2) room(1)] by auto
  let ?h' = "h\<lparr>translation_cache := tc_memcpy ?ptr blk (translation_cache h),
    translation_cache_ptr := ?ptr + blk_len blk, nr_translated_instructions := Suc ?n, pc_mappings := m\<rparr>"
  have run: "add_translation_item lay h addr blk = Some (0, ?h')"
    using assms(5) room(1) m(1) by (simp add: add_translation_item_def Let_def)
  have live: "live_mappings ?h' = take (Suc ?n) m" by (simp add: live_mappings_def)
  have set: "set (live_mappings ?h') = insert ?item (set (live_mappings h))"
    unfolding live using m(3) by (metis set_mset_add_mset_insert set_mset_mset)
  have "mset (map guest_pc (live_mappings ?h')) = mset (addr # map guest_pc (live_mappings h))"
    unfolding live using m(3) by simp
  then have "distinct (map guest_pc (live_mappings ?h')) = distinct (addr # map guest_pc (live_mappings h))"
    by (rule mset_eq_imp_distinct_iff)
  then have "distinct (map guest_pc (live_mappings ?h'))"
    using assms(1,3) by (auto simp: tc_wf_def)
  moreover have "block_at ?h' ?item blk"
    using assms(4) uint_tc_offset [OF assms(1)] by (simp add: block_at_def tc_memcpy_def)
  moreover have "\<exists>blk. block_at ?h' i blk" if "i \<in> set (live_mappings h)" for i
    using assms(1,4) that block_at_memcpy [OF assms(1) that, of blk]
    by (fastforce simp: tc_wf_def block_at_def)
  ultimately have "tc_wf b ?h'"
    using assms(1,2,4,6) m(2,4) room set live by (auto simp: tc_wf_def)
  with run set show ?thesis by (intro exI [of _ ?h']) (simp add: arch_def)
qed

text \<open>
  The refinement of \<open>COMMIT_TRANSLATION\<close>: on a well-formed cache with room, for a pc that is
  not yet translated, it succeeds (no \<open>ASSERT\<close> fails), keeps the invariant and the rest of
  the hart, and is an insertion into the abstract map.
\<close>

lemma COMMIT_TRANSLATION_refines:
  assumes "tc_wf b h" "in_window b addr" "cached h addr = None"
    and "0 < TRANSLATION_SIZE lay ind" "TRANSLATION_SIZE lay ind \<le> unoccupied_cache_size lay h"
    and "0 \<le> jumper_size lay"
  shows "\<exists>h'. COMMIT_TRANSLATION lay ind code params h addr = Some h' \<and> tc_wf b h' \<and> arch h' = arch h \<and>
    translation_cache_ptr h' = translation_cache_ptr h + TRANSLATION_SIZE lay ind \<and>
    nr_translated_instructions h' = Suc (nr_translated_instructions h) \<and>
    (\<forall>p. in_window b p \<longrightarrow> cached h' p = ((cached h)(addr \<mapsto> (code, params))) p) \<and>
    set (live_mappings h') = insert \<lparr>guest_pc = addr, tc_offset = word_of_int (translation_cache_ptr h)\<rparr>
      (set (live_mappings h)) \<and>
    translation_cache h' = tc_memcpy (translation_cache_ptr h)
      \<lparr>blk_code = code, blk_params = params, blk_len = TRANSLATION_SIZE lay ind\<rparr> (translation_cache h)"
proof -
  let ?blk = "\<lparr>blk_code = code, blk_params = replicate (length params) PARAM32, blk_len = TRANSLATION_SIZE lay ind\<rparr>"
  let ?ptr = "translation_cache_ptr h"
  let ?item = "\<lparr>guest_pc = addr, tc_offset = word_of_int ?ptr\<rparr> :: program_counter_mapping_item"
  have fresh: "addr \<notin> guest_pc ` set (live_mappings h)"
    using assms(3) cached_None_iff [OF assms(1,2)] search_None_iff [OF assms(1,2)] by simp
  from add_translation_item_fits [OF assms(1,2) fresh, of ?blk lay] assms(4-6)
  obtain h1 where h1: "add_translation_item lay h addr ?blk = Some (0, h1)" "tc_wf b h1" "arch h1 = arch h"
    "translation_cache_ptr h1 = ?ptr + TRANSLATION_SIZE lay ind"
    "nr_translated_instructions h1 = Suc (nr_translated_instructions h)"
    "set (live_mappings h1) = insert ?item (set (live_mappings h))"
    "translation_cache h1 = tc_memcpy ?ptr ?blk (translation_cache h)"
    by auto
  let ?tc = "(translation_cache h1)(?ptr \<mapsto> ?blk\<lparr>blk_params := params\<rparr>)"
  let ?h2 = "h1\<lparr>translation_cache := ?tc\<rparr>"
  have off: "uint (tc_offset ?item) = ?ptr" using uint_tc_offset [OF assms(1)] by simp
  have "search_translation_item h1 addr = Some ?item"
    using search_Some_iff [OF h1(2) assms(2), of ?item] h1(6) by simp
  moreover have "patch_params (uint (tc_offset ?item)) (TRANSLATION_SIZE lay ind) params (translation_cache h1) = Some ?tc"
    unfolding off patch_params_def h1(7) by (simp add: tc_memcpy_def)
  ultimately have run: "COMMIT_TRANSLATION lay ind code params h addr = Some ?h2"
    using h1(1) by (simp add: COMMIT_TRANSLATION_def)
  have old: "translation_cache ?h2 (uint (tc_offset i)) = translation_cache h (uint (tc_offset i))"
    if "i \<in> set (live_mappings h)" for i
  proof -
    have "uint (tc_offset i) \<noteq> ?ptr" using that assms(1) by (force simp: tc_wf_def block_at_def)
    then show ?thesis using block_at_memcpy [OF assms(1) that] h1(7) by simp
  qed
  have live2: "live_mappings ?h2 = live_mappings h1" by (simp add: live_mappings_def)
  have "\<exists>blk. block_at ?h2 i blk" if "i \<in> set (live_mappings h1)" for i
  proof -
    have "Ex (block_at h1 i)" using h1(2) that by (simp add: tc_wf_def)
    then obtain blk where blk: "block_at h1 i blk" by blast
    show ?thesis
    proof (cases "uint (tc_offset i) = ?ptr")
      case True
      then show ?thesis using assms(4) h1(4) by (auto simp: block_at_def)
    next
      case False
      with blk show ?thesis by (auto simp: block_at_def)
    qed
  qed
  then have wf2: "tc_wf b ?h2" using h1(2) live2 by (auto simp: tc_wf_def)
  have "cached ?h2 p = ((cached h)(addr \<mapsto> (code, params))) p" if p: "in_window b p" for p
  proof (cases "search_translation_item ?h2 p")
    case None
    then show ?thesis
      using search_None_iff [OF wf2 p] search_None_iff [OF assms(1) p] h1(6) live2
      by (auto simp: cached_def)
  next
    case (Some i)
    then have i: "i \<in> insert ?item (set (live_mappings h))" "guest_pc i = p"
      using search_Some_iff [OF wf2 p, of i] h1(6) live2 by simp_all
    show ?thesis
    proof (cases "i = ?item")
      case True
      with i(2) Some off show ?thesis by (simp add: cached_def)
    next
      case False
      with i fresh have "p \<noteq> addr" "i \<in> set (live_mappings h)" by auto
      moreover from this i(2) have "search_translation_item h p = Some i"
        using search_Some_iff [OF assms(1) p] by simp
      ultimately show ?thesis using Some old by (simp add: cached_def)
    qed
  qed
  moreover have "arch ?h2 = arch h" using h1(3) by (simp add: arch_def)
  moreover have "translation_cache ?h2 = tc_memcpy ?ptr (?blk\<lparr>blk_params := params\<rparr>) (translation_cache h)"
    using h1(7) by (auto simp: tc_memcpy_def fun_eq_iff split: option.split)
  ultimately show ?thesis using run wf2 h1(4-6) live2 by (intro exI [of _ ?h2]) simp
qed

subsection \<open>Emitting a block\<close>

text \<open>What the assembler must guarantee: every template and the jumper fit into an empty cache.\<close>

definition layout_ok :: "layout \<Rightarrow> bool" where
  "layout_ok lay \<longleftrightarrow> 0 \<le> jumper_size lay \<and>
     (\<forall>ind. 0 < TRANSLATION_SIZE lay ind \<and>
        TRANSLATION_SIZE lay ind + jumper_size lay \<le> TRANSLATION_CACHE_SIZE)"

definition cache_full :: "layout \<Rightarrow> indicator \<Rightarrow> hart \<Rightarrow> bool" where
  "cache_full lay ind h \<longleftrightarrow> TRANSLATION_SIZE lay ind > unoccupied_cache_size lay h"

lemma arch_flush [simp]: "arch (flush_translation_cache h) = arch h"
  by (simp add: arch_def flush_translation_cache_def)

lemma unoccupied_flush:
  "unoccupied_cache_size lay (flush_translation_cache h) = TRANSLATION_CACHE_SIZE - jumper_size lay"
  by (simp add: unoccupied_cache_size_def flush_translation_cache_def MAX_INSTRUCTIONS_TOTRANSLATE_def)

text \<open>
  The body of every translator, on a well-formed cache and a pc that is not translated yet:
  it commits the block, after a flush if the cache is full and may still be flushed, or it
  stops and leaves the hart alone. The cache never grows into the room of the jumper.
\<close>

lemma emit_translation_refines:
  fixes ind :: indicator
  assumes "tc_wf b h" "in_window b (next_instruction_to_fetch blob)"
    and "cached h (next_instruction_to_fetch blob) = None" "layout_ok lay"
  defines "addr \<equiv> next_instruction_to_fetch blob"
    and "h0 \<equiv> if cache_full lay ind h then flush_translation_cache h else h"
  shows "\<exists>blob' h'. emit_translation lay ind code ps stop blob h = Some (blob', h') \<and>
    tc_wf b h' \<and> arch h' = arch h \<and>
    (if cache_full lay ind h \<and> \<not> is_flushable blob
     then h' = h \<and> blob' = blob\<lparr>is_to_stop := True\<rparr>
     else translation_cache_ptr h' + jumper_size lay \<le> TRANSLATION_CACHE_SIZE \<and>
          (\<forall>p. in_window b p \<longrightarrow> cached h' p = ((cached h0)(addr \<mapsto> (code, ps))) p) \<and>
          blob' = (if stop then blob\<lparr>is_flushable := False, is_to_stop := True\<rparr>
                   else blob\<lparr>is_flushable := False, next_instruction_to_fetch := addr + 4\<rparr>))"
proof (cases "cache_full lay ind h \<and> \<not> is_flushable blob")
  case True
  with assms(1) show ?thesis
    by (auto simp: emit_translation_def PRECHECK_TRANSLATION_CACHE_def cache_full_def)
next
  case False
  have wf0: "tc_wf b h0" using assms(1) by (simp add: h0_def tc_wf_flush)
  have fresh: "cached h0 addr = None"
    using assms(1-3) cached_flush by (simp add: h0_def addr_def)
  have room: "TRANSLATION_SIZE lay ind \<le> unoccupied_cache_size lay h0"
    using assms(4) by (auto simp: h0_def cache_full_def unoccupied_flush layout_ok_def le_diff_eq)
  have size: "0 < TRANSLATION_SIZE lay ind" "0 \<le> jumper_size lay" using assms(4) by (simp_all add: layout_ok_def)
  obtain h' where h': "COMMIT_TRANSLATION lay ind code ps h0 addr = Some h'" "tc_wf b h'" "arch h' = arch h0"
    "translation_cache_ptr h' = translation_cache_ptr h0 + TRANSLATION_SIZE lay ind"
    "\<forall>p. in_window b p \<longrightarrow> cached h' p = ((cached h0)(addr \<mapsto> (code, ps))) p"
    using COMMIT_TRANSLATION_refines [OF wf0 _ fresh size(1) room size(2)] assms(2) unfolding addr_def by blast
  have "unoccupied_cache_size lay h0 = TRANSLATION_CACHE_SIZE - translation_cache_ptr h0 - jumper_size lay"
    using unoccupied_pos [of lay h0] room size by auto
  then have "translation_cache_ptr h' + jumper_size lay \<le> TRANSLATION_CACHE_SIZE"
    using h'(4) room by simp
  moreover have "PRECHECK_TRANSLATION_CACHE lay ind blob h = (False, blob\<lparr>is_flushable := False\<rparr>, h0)"
    using False by (simp add: PRECHECK_TRANSLATION_CACHE_def h0_def cache_full_def)
  then have "emit_translation lay ind code ps stop blob h =
      Some (if stop then blob\<lparr>is_flushable := False, is_to_stop := True\<rparr>
            else blob\<lparr>is_flushable := False, next_instruction_to_fetch := addr + 4\<rparr>, h')"
    using h'(1) by (simp add: emit_translation_def addr_def)
  moreover have "arch h' = arch h" using h'(3) by (simp add: h0_def)
  ultimately show ?thesis unfolding if_not_P [OF False] using h'(2,5) by (simp del: fun_upd_apply)
qed

end
