(* ===== verification/Debug_Breakpoint.thy ===== *)
theory Debug_Breakpoint
  imports Mmu Translation_Cache
begin

text \<open>
  \<open>sandbox/debug_breakpoint.c\<close>: the sorted array of breakpoints that every translated block
  consults through \<open>enter_vmm_dbg_shell\<close>.
\<close>

definition MAX_BREAKPOINTS :: nat where "MAX_BREAKPOINTS = 256"

definition addr_cmp :: "u32 comparator" where
  "addr_cmp a0 a1 = Some (sint (a0 - a1))"

definition is_address_breakpoint :: "machine \<Rightarrow> u32 \<Rightarrow> bool" where
  "is_address_breakpoint m guest_addr =
     (case SEARCH addr_cmp (breakpoints m) (nr_breakpoints m) guest_addr of
        Some (Some i) \<Rightarrow> True | _ \<Rightarrow> False)"

definition add_breakpoint :: "machine \<Rightarrow> u32 \<Rightarrow> (int \<times> machine) option" where
  "add_breakpoint m guest_addr =
     (if guest_addr AND 0x3 \<noteq> 0 then Some (-2, m)
      else if nr_breakpoints m \<ge> MAX_BREAKPOINTS then Some (-1, m)
      else if is_address_breakpoint m guest_addr then Some (0, m)
      else let n = nr_breakpoints m in
        Option.bind (INSERTION_SORT addr_cmp ((breakpoints m)[n := guest_addr]) (Suc n)) (\<lambda>bps.
          Some (0, m\<lparr>breakpoints := bps, nr_breakpoints := Suc n\<rparr>)))"

interpretation bp_window:
  keyed_comparator addr_cmp "\<lambda>a. unat (a - b)" "{a. in_window b a}" for b
  by unfold_locales (simp add: addr_cmp_def sint_diff_window unat_less_uint)

definition live_breakpoints :: "machine \<Rightarrow> u32 list" where
  "live_breakpoints m = take (nr_breakpoints m) (breakpoints m)"

definition bp_wf :: "u32 \<Rightarrow> machine \<Rightarrow> bool" where
  "bp_wf b m \<longleftrightarrow> length (breakpoints m) = MAX_BREAKPOINTS \<and> nr_breakpoints m \<le> MAX_BREAKPOINTS \<and>
     sorted (map (\<lambda>a. unat (a - b)) (live_breakpoints m)) \<and>
     (\<forall>a \<in> set (live_breakpoints m). in_window b a)"

lemma is_address_breakpoint_iff:
  assumes "bp_wf b m" "in_window b a"
  shows "is_address_breakpoint m a \<longleftrightarrow> a \<in> set (live_breakpoints m)"
proof -
  let ?n = "nr_breakpoints m" and ?m = "breakpoints m"
  have len: "?n \<le> length ?m" using assms(1) by (simp add: bp_wf_def)
  have set: "set (live_breakpoints m) = (\<lambda>i. ?m ! i) ` {..< ?n}"
    using len by (simp add: live_breakpoints_def nth_image [symmetric] lessThan_atLeast0)
  have sorted: "unat (?m ! i - b) \<le> unat (?m ! j - b)" if "i < j" "j < ?n" for i j
    using assms(1) sorted_nth_mono [of "map (\<lambda>a. unat (a - b)) (live_breakpoints m)" i j] that len
    by (simp add: bp_wf_def live_breakpoints_def)
  have "case SEARCH addr_cmp ?m ?n a of None \<Rightarrow> False
    | Some None \<Rightarrow> (\<forall>i < ?n. unat (?m ! i - b) \<noteq> unat (a - b))
    | Some (Some i) \<Rightarrow> i < ?n \<and> unat (?m ! i - b) = unat (a - b)"
    using assms set sorted by (intro bp_window.SEARCH_key) (auto simp: bp_wf_def)
  then show ?thesis
    unfolding set is_address_breakpoint_def
    by (auto simp: word_unat_eq_iff [symmetric] split: option.splits)
qed

text \<open>
  Adding a breakpoint: it is refused when misaligned or when the table is full, and otherwise
  the set of breakpoints grows by exactly that address.
\<close>

lemma add_breakpoint_correct:
  assumes "bp_wf b m" "in_window b a"
  shows "\<exists>rc m'. add_breakpoint m a = Some (rc, m') \<and> bp_wf b m' \<and>
    (if a AND 3 \<noteq> 0 then rc = -2 \<and> m' = m
     else if nr_breakpoints m = MAX_BREAKPOINTS then rc = -1 \<and> m' = m
     else rc = 0 \<and> set (live_breakpoints m') = insert a (set (live_breakpoints m)))"
proof -
  let ?n = "nr_breakpoints m" and ?base = "(breakpoints m)[nr_breakpoints m := a]"
  consider "a AND 3 \<noteq> 0 \<or> ?n = MAX_BREAKPOINTS \<or> is_address_breakpoint m a"
    | "a AND 3 = 0" "?n < MAX_BREAKPOINTS" "\<not> is_address_breakpoint m a"
    using assms(1) by (force simp: bp_wf_def)
  then show ?thesis
  proof cases
    case 1
    with assms is_address_breakpoint_iff [OF assms] show ?thesis
      by (auto simp: add_breakpoint_def bp_wf_def)
  next
    case 2
    have len: "?n < length (breakpoints m)" "length (breakpoints m) = MAX_BREAKPOINTS"
      using assms(1) 2 by (auto simp: bp_wf_def)
    have take: "take ?n ?base = live_breakpoints m" "take (Suc ?n) ?base = live_breakpoints m @ [a]"
      using len by (simp_all add: live_breakpoints_def take_Suc_conv_app_nth)
    have "?base ! i \<in> {a. in_window b a}" if "i < Suc ?n" for i
    proof -
      have "?base ! i \<in> set (take (Suc ?n) ?base)"
        using that len by (auto simp: in_set_conv_nth intro!: exI [of _ i])
      then show ?thesis unfolding take using assms by (auto simp: bp_wf_def)
    qed
    then obtain bps where bps: "INSERTION_SORT addr_cmp ?base (Suc ?n) = Some bps" "length bps = length ?base"
      "mset (take (Suc ?n) bps) = mset (live_breakpoints m @ [a])"
      "sorted (map (\<lambda>a. unat (a - b)) (take (Suc ?n) bps))"
      using bp_window.INSERTION_SORT_key [of "Suc ?n" ?base b] len take assms(1) by (auto simp: bp_wf_def)
    have set: "set (take (Suc ?n) bps) = insert a (set (live_breakpoints m))"
      using bps(3) by (metis Un_insert_right empty_set list.simps(15) set_append set_mset_mset sup_bot.right_neutral)
    let ?m' = "m\<lparr>breakpoints := bps, nr_breakpoints := Suc ?n\<rparr>"
    have "add_breakpoint m a = Some (0, ?m')" using 2 bps(1) by (simp add: add_breakpoint_def)
    moreover have "bp_wf b ?m'"
      using bps set assms len 2 by (auto simp: bp_wf_def live_breakpoints_def)
    ultimately show ?thesis using 2 set by (auto simp: live_breakpoints_def)
  qed
qed

end
