(* ===== verification/Vmm_Calls.thy ===== *)
theory Vmm_Calls
  imports Translate_Amo Debug_Breakpoint
begin

text \<open>
  The C functions behind the addresses that the templates load, put together as the call
  environment of the host semantics, and the proof that it satisfies the interfaces
  \<open>vmm_calls\<close> and \<open>memory_calls\<close>. Two of them are parameters: the interactive part of the
  debugger shell (\<open>sandbox/debug.c\<close>) and the system call table (\<open>sandbox/syscall.c\<close>).
\<close>

type_synonym debug_shell = "hart \<Rightarrow> machine \<Rightarrow> machine cresult"
type_synonym syscall_handler = "hart \<Rightarrow> machine \<Rightarrow> u32 \<Rightarrow> u32 list \<Rightarrow> u32 mmu_result"

text \<open>The shell opens when the check of breakpoints is off, or on a breakpoint.\<close>

definition enter_vmm_dbg_shell :: "debug_shell \<Rightarrow> hart \<Rightarrow> machine \<Rightarrow> u32 \<Rightarrow> machine cresult" where
  "enter_vmm_dbg_shell shell h m check_bps =
     (if hart_magic h \<noteq> HART_MAGIC_WORD then Exit
      else if check_bps \<noteq> 0 \<and> \<not> is_address_breakpoint m (pc h) then Returned Vundef h m
      else shell h m)"

definition ebreak_callback :: "debug_shell \<Rightarrow> hart \<Rightarrow> machine \<Rightarrow> machine cresult" where
  "ebreak_callback shell h m = enter_vmm_dbg_shell shell h m 0"

definition sfence_vma_callback :: "hart \<Rightarrow> hart" where
  "sfence_vma_callback h =
     flush_translation_cache (h\<lparr>itlb := invalidate_tlb (itlb h), dtlb := invalidate_tlb (dtlb h)\<rparr>)"

text \<open>The arguments are \<open>a7\<close> and \<open>a0\<close> to \<open>a5\<close>; the result goes to \<open>a0\<close>.\<close>

definition ecall_callback :: "syscall_handler \<Rightarrow> hart \<Rightarrow> machine \<Rightarrow> unit mmu_result" where
  "ecall_callback do_syscall h m =
     mmu_bind (do_syscall h m (registers h ! 17) (map (\<lambda>i. registers h ! i) [10..<16])) (\<lambda>v h1 m1.
     Mret () (h1\<lparr>registers := (registers h1)[10 := v]\<rparr>) m1)"

definition from_mmu :: "('a \<Rightarrow> hval) \<Rightarrow> 'a mmu_result \<Rightarrow> machine cresult" where
  "from_mmu val r = (case r of Mret v h m \<Rightarrow> Returned (val v) h m | Mtrap h m \<Rightarrow> Trapped h m | Mexit \<Rightarrow> Exit)"

definition from_trap :: "(hart + hart) option \<Rightarrow> machine \<Rightarrow> machine cresult" where
  "from_trap r m = (case r of None \<Rightarrow> Exit | Some (Inl h) \<Rightarrow> Returned Vundef h m | Some (Inr h) \<Rightarrow> Trapped h m)"

text \<open>
  The call environment. Arguments arrive in the order \<open>rdi\<close>, \<open>rsi\<close>, \<open>rdx\<close>, \<open>rcx\<close>, \<open>r8\<close> and are
  truncated to the C parameter types; the entry point of the monitor is jumped to, never called.
\<close>

definition vmm_cc :: "debug_shell \<Rightarrow> syscall_handler \<Rightarrow> machine ccalls" where
  "vmm_cc shell do_syscall f args h m =
     (case (f, args) of
        (enter_vmm_dbg_shell_sym, Vhart _ # Vint c # _) \<Rightarrow> enter_vmm_dbg_shell shell h m (ucast c)
      | (mmu_read8_sym, Vhart _ # Vint a # _) \<Rightarrow> from_mmu Vint (mmu_read8 h m (ucast a))
      | (mmu_read16_sym, Vhart _ # Vint a # _) \<Rightarrow> from_mmu Vint (mmu_read16 h m (ucast a))
      | (mmu_read32_sym, Vhart _ # Vint a # _) \<Rightarrow> from_mmu Vint (mmu_read32 h m (ucast a))
      | (mmu_write8_sym, Vhart _ # Vint a # Vint v # _) \<Rightarrow> from_mmu (\<lambda>_. Vundef) (mmu_write8 h m (ucast a) (ucast v))
      | (mmu_write16_sym, Vhart _ # Vint a # Vint v # _) \<Rightarrow> from_mmu (\<lambda>_. Vundef) (mmu_write16 h m (ucast a) (ucast v))
      | (mmu_write32_sym, Vhart _ # Vint a # Vint v # _) \<Rightarrow> from_mmu (\<lambda>_. Vundef) (mmu_write32 h m (ucast a) (ucast v))
      | (amo_instruction_slowpath_sym, Vhart _ # Vint a # Vint b # Vint c # Vint d # _) \<Rightarrow>
          from_mmu (\<lambda>_. Vundef) (amo_instruction_slowpath h m (ucast a) (ucast b) (ucast c) (ucast d))
      | (flush_translation_cache_sym, Vhart _ # _) \<Rightarrow> Returned Vundef (flush_translation_cache h) m
      | (ebreak_callback_sym, Vhart _ # _) \<Rightarrow> ebreak_callback shell h m
      | (mret_callback_sym, Vhart _ # _) \<Rightarrow> from_trap (mret_callback h) m
      | (sret_callback_sym, Vhart _ # _) \<Rightarrow> from_trap (sret_callback h) m
      | (sfence_vma_callback_sym, Vhart _ # _) \<Rightarrow> Returned Vundef (sfence_vma_callback h) m
      | (ecall_callback_sym, Vhart _ # _) \<Rightarrow> from_mmu (\<lambda>_. Vundef) (ecall_callback do_syscall h m)
      | _ \<Rightarrow> Exit)"

text \<open>No breakpoint at the pc, on a hart that carries its magic word.\<close>

definition vmm_quiet :: "hart \<Rightarrow> machine \<Rightarrow> bool" where
  "vmm_quiet h m \<longleftrightarrow> hart_magic h = HART_MAGIC_WORD \<and> \<not> is_address_breakpoint m (pc h)"

lemma le_bytes_trunc:
  "le_bytes (Suc 0) (ucast (ucast v :: u8)) = le_bytes (Suc 0) v"
  "le_bytes 2 (ucast (ucast v :: u16)) = le_bytes 2 v"
  "le_bytes 4 (ucast (ucast v :: u32)) = le_bytes 4 v"
  by (simp_all add: le_bytes_ucast)

lemma guest_bytes_pc [simp]: "guest_bytes (h\<lparr>pc := p\<rparr>) m a n = guest_bytes h m a n"
  by (simp add: guest_bytes_def paging_def linked_vm_def)

text \<open>The environment keeps the contracts that the templates rely on.\<close>

interpretation vmm: memory_calls "vmm_cc shell do_syscall" vmm_quiet guest_bytes guest_update
  for shell do_syscall
proof (unfold_locales, goal_cases)
  case (1 h w args)
  then show ?case by (simp add: vmm_cc_def enter_vmm_dbg_shell_def vmm_quiet_def)
next
  case (2 h w a bs)
  then show ?case
    by (auto simp: vmm_cc_def mmu_read8_def vmread_guest_bytes access_size_ok_def from_mmu_def)
next
  case (3 h w a bs)
  then show ?case
    by (auto simp: vmm_cc_def mmu_read16_def vmread_guest_bytes access_size_ok_def from_mmu_def)
next
  case (4 h w a bs)
  then show ?case
    by (auto simp: vmm_cc_def mmu_read32_def vmread_guest_bytes access_size_ok_def from_mmu_def)
next
  case (5 h w a v w' args)
  then show ?case
    by (auto simp: vmm_cc_def mmu_write8_def from_mmu_def access_size_ok_def le_bytes_trunc
        vmwrite_guest_update [of h w a "Suc 0" "ucast (ucast v :: u8)" w'])
next
  case (6 h w a v w' args)
  then show ?case
    by (auto simp: vmm_cc_def mmu_write16_def from_mmu_def access_size_ok_def le_bytes_trunc
        vmwrite_guest_update [of h w a 2 "ucast (ucast v :: u16)" w'])
next
  case (7 h w a v w' args)
  then show ?case
    by (auto simp: vmm_cc_def mmu_write32_def from_mmu_def access_size_ok_def le_bytes_trunc
        vmwrite_guest_update [of h w a 4 "ucast (ucast v :: u32)" w'])
next
  case (8 h w a bs w')
  then show ?case by (rule guest_update_read)
next
  case (9 h p w a n)
  then show ?case by simp
qed

end
