(* ===== verification/Translation.thy ===== *)
theory Translation
  imports Vmm_Calls
begin

text \<open>
  \<open>sandbox/translation.c\<close>: the translators of \<open>lui\<close> and \<open>auipc\<close>, the table of translators, the loop
  that translates a unit of instructions ahead of the pc, and \<open>vmresume\<close>, which enters the
  cache. \<open>vmexit\<close> (a clock and a yield around \<open>vmresume\<close>) belongs to the scheduler.
\<close>

definition lui_instruction_code :: "x86 list" where
  "lui_instruction_code = BEGIN_TRANSLATION @
     [Movl_param 0 RAX, Movl_param 1 RDX, Shl_imm 12 RAX, Shl_imm 2 RDX, Addq R15 RDX,
      Movl_store RAX RDX]
     @ RESET_ZERO_REGISTER @ PROCEED_TO_NEXT_INSTRUCTION @ END_INSTRUCTION"

definition riscv_lui_translator :: instruction_translator where
  "riscv_lui_translator lay blob instruction h =
     Option.bind (instruction_decoding_per_type instruction ENCODING_TYPE_U) (\<lambda>dec.
     emit_translation lay ''lui_instruction'' lui_instruction_code
       [imm dec, ucast (rd_index dec)] False blob h)"

definition auipc_instruction_code :: "x86 list" where
  "auipc_instruction_code = BEGIN_TRANSLATION @
     [Movl_param 1 RDX, Shl_imm 2 RDX, Addq R15 RDX,
      Movl_param 0 RAX, Shl_imm 12 RAX, Movl_param 2 RCX, Addl RCX RAX,
      Movl_store RAX RDX]
     @ RESET_ZERO_REGISTER @ PROCEED_TO_NEXT_INSTRUCTION @ END_INSTRUCTION"

definition riscv_auipc_translator :: instruction_translator where
  "riscv_auipc_translator lay blob instruction h =
     Option.bind (instruction_decoding_per_type instruction ENCODING_TYPE_U) (\<lambda>dec.
     emit_translation lay ''auipc_instruction'' auipc_instruction_code
       [imm dec, ucast (rd_index dec), next_instruction_to_fetch blob] False blob h)"

definition riscv_arithmetic_instructions_translation_entry :: instruction_translator where
  "riscv_arithmetic_instructions_translation_entry lay blob instruction h =
     Option.bind (instruction_decoding_per_type instruction ENCODING_TYPE_R) (\<lambda>dec.
     if funct7 dec AND 0x3 = 0
     then riscv_arithmetic_instructions_class0_translation_entry lay dec blob h
     else ASSERT (funct7 dec AND 0x3 = 0x1)
       (riscv_mul_div_instructions_translation_entry lay dec blob h))"

subsection \<open>The table of translators\<close>

definition RISCV_OPCODE_LUI :: u8 where "RISCV_OPCODE_LUI = 0x37"
definition RISCV_OPCODE_AUIPC :: u8 where "RISCV_OPCODE_AUIPC = 0x17"
definition RISCV_OPCODE_JAL :: u8 where "RISCV_OPCODE_JAL = 0x6f"
definition RISCV_OPCODE_JARL :: u8 where "RISCV_OPCODE_JARL = 0x67"
definition RISCV_OPCODE_BRANCH :: u8 where "RISCV_OPCODE_BRANCH = 0x63"
definition RISCV_OPCODE_LOAD :: u8 where "RISCV_OPCODE_LOAD = 0x03"
definition RISCV_OPCODE_STORE :: u8 where "RISCV_OPCODE_STORE = 0x23"
definition RISCV_OPCODE_OP_IMM :: u8 where "RISCV_OPCODE_OP_IMM = 0x13"
definition RISCV_OPCODE_OP :: u8 where "RISCV_OPCODE_OP = 0x33"
definition RISCV_OPCODE_FENCE :: u8 where "RISCV_OPCODE_FENCE = 0x0f"
definition RISCV_OPCODE_SUPERVISOR_LEVEL :: u8 where "RISCV_OPCODE_SUPERVISOR_LEVEL = 0x73"
definition RISCV_OPCODE_AMO :: u8 where "RISCV_OPCODE_AMO = 0x2f"

lemmas riscv_opcodes =
  RISCV_OPCODE_LUI_def RISCV_OPCODE_AUIPC_def RISCV_OPCODE_JAL_def RISCV_OPCODE_JARL_def
  RISCV_OPCODE_BRANCH_def RISCV_OPCODE_LOAD_def RISCV_OPCODE_STORE_def RISCV_OPCODE_OP_IMM_def
  RISCV_OPCODE_OP_def RISCV_OPCODE_FENCE_def RISCV_OPCODE_SUPERVISOR_LEVEL_def RISCV_OPCODE_AMO_def

text \<open>The table that \<open>translation_init\<close> fills.\<close>

definition translators :: "u8 \<Rightarrow> instruction_translator option" where
  "translators opc =
     (if opc = RISCV_OPCODE_LUI then Some riscv_lui_translator
      else if opc = RISCV_OPCODE_AUIPC then Some riscv_auipc_translator
      else if opc = RISCV_OPCODE_JAL then Some riscv_jal_translator
      else if opc = RISCV_OPCODE_JARL then Some riscv_jalr_translator
      else if opc = RISCV_OPCODE_OP_IMM then Some riscv_arithmetic_immediate_instructions_translation_entry
      else if opc = RISCV_OPCODE_STORE then Some riscv_memory_store_instructions_translation_entry
      else if opc = RISCV_OPCODE_LOAD then Some riscv_memory_load_instructions_translation_entry
      else if opc = RISCV_OPCODE_BRANCH then Some riscv_branch_instructions_translation_entry
      else if opc = RISCV_OPCODE_OP then Some riscv_arithmetic_instructions_translation_entry
      else if opc = RISCV_OPCODE_FENCE then Some riscv_fence_instructions_translation_entry
      else if opc = RISCV_OPCODE_SUPERVISOR_LEVEL then Some riscv_supervisor_level_instructions_translation_entry
      else if opc = RISCV_OPCODE_AMO then Some riscv_amo_instructions_translation_entry
      else None)"

definition translate_instruction :: instruction_translator where
  "translate_instruction lay blob instruction h =
     (case translators (ucast (instruction AND 0x7f)) of
        None \<Rightarrow> None
      | Some per_category_translator \<Rightarrow> per_category_translator lay blob instruction h)"

definition prefetch_one_instruction ::
  "layout \<Rightarrow> prefetch_blob \<Rightarrow> hart \<Rightarrow> machine \<Rightarrow> prefetch_blob mmu_result" where
  "prefetch_one_instruction lay blob h m =
     mmu_bind (mmu_instruction_read32 h m (next_instruction_to_fetch blob)) (\<lambda>instruction h1 m1.
     case translate_instruction lay blob instruction h1 of
       None \<Rightarrow> Mexit
     | Some (blob1, h2) \<Rightarrow> Mret blob1 h2 m1)"

subsection \<open>Every translator emits one block\<close>

text \<open>
  For a given instruction word and address a translator either refuses (a failed \<open>ASSERT\<close>), or
  it is the common body \<open>emit_translation\<close> with a template and parameters that depend on
  nothing else.
\<close>

definition emits_one :: "(layout \<Rightarrow> prefetch_blob \<Rightarrow> hart \<Rightarrow> translator_result) \<Rightarrow> u32 \<Rightarrow> bool" where
  "emits_one t addr \<longleftrightarrow> (\<forall>lay blob h. t lay blob h = None) \<or>
     (\<exists>ind code ps stop. \<forall>lay blob h. next_instruction_to_fetch blob = addr \<longrightarrow>
        t lay blob h = emit_translation lay ind code ps stop blob h)"

lemma emits_oneI:
  "(\<And>lay blob h. next_instruction_to_fetch blob = addr \<Longrightarrow>
     t lay blob h = emit_translation lay ind code ps stop blob h) \<Longrightarrow> emits_one t addr"
  unfolding emits_one_def by blast

lemma emits_one_None: "emits_one (\<lambda>lay blob h. None) addr"
  by (simp add: emits_one_def)

lemma emits_one_if:
  "emits_one s addr \<Longrightarrow> emits_one t addr \<Longrightarrow>
   emits_one (\<lambda>lay blob h. if c then s lay blob h else t lay blob h) addr"
  by (cases c) simp_all

lemma emits_one_ASSERT: "emits_one s addr \<Longrightarrow> emits_one (\<lambda>lay blob h. ASSERT c (s lay blob h)) addr"
  by (cases c) (simp_all add: emits_one_None)

lemma arithmetic_handlers_basic:
  "emits_one (\<lambda>lay. riscv_add_translator lay dec) addr"
  "emits_one (\<lambda>lay. riscv_sub_translator lay dec) addr"
  "emits_one (\<lambda>lay. riscv_and_translator lay dec) addr"
  "emits_one (\<lambda>lay. riscv_or_translator lay dec) addr"
  "emits_one (\<lambda>lay. riscv_xor_translator lay dec) addr"
  "emits_one (\<lambda>lay. riscv_slt_translator lay dec) addr"
  "emits_one (\<lambda>lay. riscv_sltu_translator lay dec) addr"
  "emits_one (\<lambda>lay. riscv_sll_translator lay dec) addr"
  "emits_one (\<lambda>lay. riscv_srl_translator lay dec) addr"
  "emits_one (\<lambda>lay. riscv_sra_translator lay dec) addr"
  by (rule emits_oneI, simp only: riscv_add_translator_def riscv_sub_translator_def riscv_and_translator_def riscv_or_translator_def riscv_xor_translator_def riscv_slt_translator_def riscv_sltu_translator_def riscv_sll_translator_def riscv_srl_translator_def riscv_sra_translator_def)+

lemma arithmetic_immediate_handlers_basic:
  "emits_one (\<lambda>lay. riscv_addi_translator lay dec) addr"
  "emits_one (\<lambda>lay. riscv_stli_translator lay dec) addr"
  "emits_one (\<lambda>lay. riscv_stliu_translator lay dec) addr"
  "emits_one (\<lambda>lay. riscv_xori_translator lay dec) addr"
  "emits_one (\<lambda>lay. riscv_ori_translator lay dec) addr"
  "emits_one (\<lambda>lay. riscv_andi_translator lay dec) addr"
  "emits_one (\<lambda>lay. riscv_slli_translator lay dec) addr"
  by (rule emits_oneI, simp only: riscv_addi_translator_def riscv_stli_translator_def riscv_stliu_translator_def riscv_xori_translator_def riscv_ori_translator_def riscv_andi_translator_def riscv_slli_translator_def)+

lemma mul_div_handlers_basic:
  "emits_one (\<lambda>lay. riscv_mul_translator lay dec) addr"
  "emits_one (\<lambda>lay. riscv_mulh_translator lay dec) addr"
  "emits_one (\<lambda>lay. riscv_mulhu_translator lay dec) addr"
  "emits_one (\<lambda>lay. riscv_mulhsu_translator lay dec) addr"
  "emits_one (\<lambda>lay. riscv_div_translator lay dec) addr"
  "emits_one (\<lambda>lay. riscv_rem_translator lay dec) addr"
  "emits_one (\<lambda>lay. riscv_divu_translator lay dec) addr"
  "emits_one (\<lambda>lay. riscv_remu_translator lay dec) addr"
  by (rule emits_oneI, simp only: riscv_mul_translator_def riscv_mulh_translator_def riscv_mulhu_translator_def riscv_mulhsu_translator_def riscv_div_translator_def riscv_rem_translator_def riscv_divu_translator_def riscv_remu_translator_def)+

lemma branch_handlers_basic:
  "emits_one (\<lambda>lay. riscv_beq_translator lay dec) addr"
  "emits_one (\<lambda>lay. riscv_bne_translator lay dec) addr"
  "emits_one (\<lambda>lay. riscv_blt_translator lay dec) addr"
  "emits_one (\<lambda>lay. riscv_bltu_translator lay dec) addr"
  "emits_one (\<lambda>lay. riscv_bge_translator lay dec) addr"
  "emits_one (\<lambda>lay. riscv_bgeu_translator lay dec) addr"
  by (rule emits_oneI, simp only: riscv_beq_translator_def riscv_bne_translator_def riscv_blt_translator_def riscv_bltu_translator_def riscv_bge_translator_def riscv_bgeu_translator_def)+

lemma load_handlers_basic:
  "emits_one (\<lambda>lay. riscv_lb_translator lay dec) addr"
  "emits_one (\<lambda>lay. riscv_lbu_translator lay dec) addr"
  "emits_one (\<lambda>lay. riscv_lh_translator lay dec) addr"
  "emits_one (\<lambda>lay. riscv_lhu_translator lay dec) addr"
  "emits_one (\<lambda>lay. riscv_lw_translator lay dec) addr"
  by (rule emits_oneI, simp only: riscv_lb_translator_def riscv_lbu_translator_def riscv_lh_translator_def riscv_lhu_translator_def riscv_lw_translator_def)+

lemma store_handlers_basic:
  "emits_one (\<lambda>lay. riscv_sb_translator lay dec) addr"
  "emits_one (\<lambda>lay. riscv_sh_translator lay dec) addr"
  "emits_one (\<lambda>lay. riscv_sw_translator lay dec) addr"
  by (rule emits_oneI, simp only: riscv_sb_translator_def riscv_sh_translator_def riscv_sw_translator_def)+

lemma fence_handlers_basic:
  "emits_one (\<lambda>lay. riscv_fence_i_translator lay dec) addr"
  "emits_one (\<lambda>lay. riscv_fence_translator lay dec) addr"
  by (rule emits_oneI, simp only: riscv_fence_i_translator_def riscv_fence_translator_def)+

lemma supervisor_level_handlers_basic:
  "emits_one (\<lambda>lay. riscv_ecall_translator lay dec) addr"
  by (rule emits_oneI, simp only: riscv_ecall_translator_def)+

lemma amo_handlers_basic:
  "emits_one (\<lambda>lay. riscv_amo_translator lay dec) addr"
  by (rule emits_oneI, simp only: riscv_amo_translator_def)+

lemmas translators_basic = arithmetic_handlers_basic arithmetic_immediate_handlers_basic mul_div_handlers_basic branch_handlers_basic load_handlers_basic store_handlers_basic fence_handlers_basic supervisor_level_handlers_basic amo_handlers_basic

lemma composite_translators:
  "emits_one (\<lambda>lay. riscv_add_sub_translator lay dec) addr"
  "emits_one (\<lambda>lay. riscv_srl_sra_translator lay dec) addr"
  "emits_one (\<lambda>lay. riscv_funct3_000_translator lay dec) addr"
  unfolding riscv_add_sub_translator_def riscv_srl_sra_translator_def riscv_funct3_000_translator_def
  by (intro emits_one_if emits_one_ASSERT emits_one_None translators_basic)+

lemma right_shift_emit: "emits_one (\<lambda>lay. riscv_right_shift_translator lay dec) addr"
  unfolding riscv_right_shift_translator_def
  by (rule emits_one_if) (rule emits_oneI, rule refl)+

lemma arithmetic_handlers_emit: "arithmetic_handlers f3 = Some t \<Longrightarrow> emits_one (\<lambda>lay. t lay dec) addr"
  by (auto simp: arithmetic_handlers_def intro: translators_basic composite_translators right_shift_emit split: if_splits)

lemma arithmetic_immediate_handlers_emit: "arithmetic_immediate_handlers f3 = Some t \<Longrightarrow> emits_one (\<lambda>lay. t lay dec) addr"
  by (auto simp: arithmetic_immediate_handlers_def intro: translators_basic composite_translators right_shift_emit split: if_splits)

lemma mul_div_handlers_emit: "mul_div_handlers f3 = Some t \<Longrightarrow> emits_one (\<lambda>lay. t lay dec) addr"
  by (auto simp: mul_div_handlers_def intro: translators_basic composite_translators right_shift_emit split: if_splits)

lemma branch_handlers_emit: "branch_handlers f3 = Some t \<Longrightarrow> emits_one (\<lambda>lay. t lay dec) addr"
  by (auto simp: branch_handlers_def intro: translators_basic composite_translators right_shift_emit split: if_splits)

lemma load_handlers_emit: "load_handlers f3 = Some t \<Longrightarrow> emits_one (\<lambda>lay. t lay dec) addr"
  by (auto simp: load_handlers_def intro: translators_basic composite_translators right_shift_emit split: if_splits)

lemma store_handlers_emit: "store_handlers f3 = Some t \<Longrightarrow> emits_one (\<lambda>lay. t lay dec) addr"
  by (auto simp: store_handlers_def intro: translators_basic composite_translators right_shift_emit split: if_splits)

lemma fence_handlers_emit: "fence_handlers f3 = Some t \<Longrightarrow> emits_one (\<lambda>lay. t lay dec) addr"
  by (auto simp: fence_handlers_def intro: translators_basic composite_translators right_shift_emit split: if_splits)

lemma supervisor_level_handlers_emit: "supervisor_level_handlers f3 = Some t \<Longrightarrow> emits_one (\<lambda>lay. t lay dec) addr"
  by (auto simp: supervisor_level_handlers_def intro: translators_basic composite_translators right_shift_emit split: if_splits)

lemma amo_handlers_emit: "amo_handlers f3 = Some t \<Longrightarrow> emits_one (\<lambda>lay. t lay dec) addr"
  by (auto simp: amo_handlers_def intro: translators_basic composite_translators right_shift_emit split: if_splits)

lemmas handlers_emit =
  arithmetic_handlers_emit
  arithmetic_immediate_handlers_emit
  mul_div_handlers_emit
  branch_handlers_emit
  load_handlers_emit
  store_handlers_emit
  fence_handlers_emit
  supervisor_level_handlers_emit
  amo_handlers_emit

text \<open>Looking a handler up in one of the tables by the decoded function code.\<close>

lemma emits_one_table:
  assumes "\<And>t dec. tab (sel dec) = Some t \<Longrightarrow> emits_one (\<lambda>lay. t lay dec) addr"
  shows "emits_one (\<lambda>lay blob h. Option.bind (instruction_decoding_per_type w ty) (\<lambda>dec.
    case tab (sel dec) of None \<Rightarrow> None | Some handler \<Rightarrow> handler lay dec blob h)) addr"
proof (cases "instruction_decoding_per_type w ty")
  case (Some dec)
  then show ?thesis
    by (cases "tab (sel dec)") (simp_all add: emits_one_None assms)
qed (simp add: emits_one_None)

lemma arithmetic_entry_emit:
  "emits_one (\<lambda>lay blob. riscv_arithmetic_instructions_translation_entry lay blob w) addr"
proof -
  obtain dec where dec: "instruction_decoding_per_type w ENCODING_TYPE_R = Some dec" by simp
  have "emits_one (\<lambda>lay. riscv_arithmetic_instructions_class0_translation_entry lay dec) addr"
    unfolding riscv_arithmetic_instructions_class0_translation_entry_def
    by (cases "arithmetic_handlers (funct3 dec)") (simp_all add: emits_one_None arithmetic_handlers_emit)
  moreover have "emits_one (\<lambda>lay. riscv_mul_div_instructions_translation_entry lay dec) addr"
    unfolding riscv_mul_div_instructions_translation_entry_def
    by (cases "mul_div_handlers (funct3 dec)") (simp_all add: emits_one_None mul_div_handlers_emit)
  ultimately show ?thesis
    unfolding riscv_arithmetic_instructions_translation_entry_def dec bind.bind_lunit
    by (intro emits_one_if emits_one_ASSERT)
qed

lemma jump_emit:
  "emits_one (\<lambda>lay blob. riscv_lui_translator lay blob w) addr"
  "emits_one (\<lambda>lay blob. riscv_auipc_translator lay blob w) addr"
  "emits_one (\<lambda>lay blob. riscv_jal_translator lay blob w) addr"
  "emits_one (\<lambda>lay blob. riscv_jalr_translator lay blob w) addr"
  by (rule emits_oneI,
      simp only: riscv_lui_translator_def riscv_auipc_translator_def riscv_jal_translator_def
        riscv_jalr_translator_def instruction_decoding_per_type.simps bind.bind_lunit Let_def)+

lemma entries_emit:
  "emits_one (\<lambda>lay blob. riscv_arithmetic_immediate_instructions_translation_entry lay blob w) addr"
  "emits_one (\<lambda>lay blob. riscv_memory_store_instructions_translation_entry lay blob w) addr"
  "emits_one (\<lambda>lay blob. riscv_memory_load_instructions_translation_entry lay blob w) addr"
  "emits_one (\<lambda>lay blob. riscv_branch_instructions_translation_entry lay blob w) addr"
  "emits_one (\<lambda>lay blob. riscv_fence_instructions_translation_entry lay blob w) addr"
  "emits_one (\<lambda>lay blob. riscv_supervisor_level_instructions_translation_entry lay blob w) addr"
  "emits_one (\<lambda>lay blob. riscv_amo_instructions_translation_entry lay blob w) addr"
  unfolding riscv_arithmetic_immediate_instructions_translation_entry_def
    riscv_memory_store_instructions_translation_entry_def riscv_memory_load_instructions_translation_entry_def
    riscv_branch_instructions_translation_entry_def riscv_fence_instructions_translation_entry_def
    riscv_supervisor_level_instructions_translation_entry_def riscv_amo_instructions_translation_entry_def
  by (rule emits_one_table, erule handlers_emit)+

lemma translate_instruction_emits_one:
  "emits_one (\<lambda>lay blob. translate_instruction lay blob w) addr"
proof (cases "translators (ucast (w AND 0x7f))")
  case None
  then show ?thesis by (simp add: translate_instruction_def emits_one_def)
next
  case (Some t)
  then have "emits_one (\<lambda>lay blob. t lay blob w) addr"
    by (auto simp: translators_def intro: jump_emit arithmetic_entry_emit entries_emit split: if_splits)
  with Some show ?thesis by (simp add: translate_instruction_def emits_one_def)
qed

lemma translate_instruction_emits:
  assumes "translate_instruction lay blob w h = Some r"
  shows "\<exists>ind code ps stop. emit_translation lay ind code ps stop blob h = Some r"
  using translate_instruction_emits_one [of w "next_instruction_to_fetch blob"] assms
  unfolding emits_one_def by (metis option.distinct(1))

subsection \<open>The prefetch loop ends\<close>

text \<open>
  Every round that does not stop adds an item to the mapping array, except that the first
  round may flush the array once.
\<close>

lemma add_translation_item_count:
  "add_translation_item lay h a blk = Some (0, h') \<Longrightarrow>
   nr_translated_instructions h' = Suc (nr_translated_instructions h) \<and>
   nr_translated_instructions h' \<le> MAX_INSTRUCTIONS_TOTRANSLATE"
  by (auto simp: add_translation_item_def Let_def split: if_splits bind_splits)

lemma COMMIT_TRANSLATION_count:
  "COMMIT_TRANSLATION lay ind code ps h a = Some h' \<Longrightarrow>
   nr_translated_instructions h' = Suc (nr_translated_instructions h) \<and>
   nr_translated_instructions h' \<le> MAX_INSTRUCTIONS_TOTRANSLATE"
  by (auto simp: COMMIT_TRANSLATION_def Let_def split: if_splits bind_splits option.splits prod.splits
      dest!: add_translation_item_count)

lemma emit_translation_progress:
  assumes "emit_translation lay ind code ps stop blob h = Some (blob', h')" "\<not> is_to_stop blob'"
  shows "\<not> is_flushable blob' \<and> nr_translated_instructions h' \<le> MAX_INSTRUCTIONS_TOTRANSLATE \<and>
    (nr_translated_instructions h' = Suc (nr_translated_instructions h) \<or>
     is_flushable blob \<and> nr_translated_instructions h' = Suc 0)"
  using assms
  by (auto simp: emit_translation_def PRECHECK_TRANSLATION_CACHE_def flush_translation_cache_def Let_def
      split: if_splits bind_splits dest!: COMMIT_TRANSLATION_count)

lemma mmu_instruction_read32_keeps:
  assumes "mmu_instruction_read32 h m a = Mret instr h1 m1"
  shows "\<exists>t. h1 = h\<lparr>itlb := t\<rparr>" "m1 = m"
proof -
  have "\<exists>t. h = h\<lparr>itlb := t\<rparr>" by (rule exI [of _ "itlb h"]) simp
  with assms show "\<exists>t. h1 = h\<lparr>itlb := t\<rparr>" "m1 = m"
    by (auto simp: mmu_instruction_read32_def ret_or_exit_def raise_exception_with_tvalue_def
        split: if_splits option.splits)
qed

lemma prefetch_one_progress:
  assumes "prefetch_one_instruction lay blob h m = Mret blob' h' m'" "\<not> is_to_stop blob'"
  shows "\<not> is_flushable blob' \<and> nr_translated_instructions h' \<le> MAX_INSTRUCTIONS_TOTRANSLATE \<and>
    (nr_translated_instructions h' = Suc (nr_translated_instructions h) \<or>
     is_flushable blob \<and> nr_translated_instructions h' = Suc 0)"
proof -
  from assms(1) obtain instr h1 where f: "mmu_instruction_read32 h m (next_instruction_to_fetch blob) = Mret instr h1 m'"
    "translate_instruction lay blob instr h1 = Some (blob', h')"
    by (cases "mmu_instruction_read32 h m (next_instruction_to_fetch blob)")
       (auto simp: prefetch_one_instruction_def split: option.splits)
  obtain t where "h1 = h\<lparr>itlb := t\<rparr>" using mmu_instruction_read32_keeps(1) [OF f(1)] by blast
  then have "nr_translated_instructions h1 = nr_translated_instructions h" by simp
  moreover from translate_instruction_emits [OF f(2)]
  obtain ind code ps stop where e: "emit_translation lay ind code ps stop blob h1 = Some (blob', h')"
    by blast
  ultimately show ?thesis using emit_translation_progress [OF e assms(2)] by simp
qed

function prefetch_loop :: "layout \<Rightarrow> prefetch_blob \<Rightarrow> hart \<Rightarrow> machine \<Rightarrow> prefetch_blob mmu_result" where
  "prefetch_loop lay blob h m =
     (case search_translation_item h (next_instruction_to_fetch blob) of
        Some item \<Rightarrow> Mret blob h m
      | None \<Rightarrow>
          (case prefetch_one_instruction lay blob h m of
             Mret blob1 h1 m1 \<Rightarrow>
               if is_to_stop blob1 then Mret blob1 h1 m1 else prefetch_loop lay blob1 h1 m1
           | Mtrap h1 m1 \<Rightarrow> Mtrap h1 m1
           | Mexit \<Rightarrow> Mexit))"
  by pat_completeness auto
termination
proof (relation "measure (\<lambda>(lay, blob, h, m). (if is_flushable blob then Suc MAX_INSTRUCTIONS_TOTRANSLATE else 0)
    + (MAX_INSTRUCTIONS_TOTRANSLATE - nr_translated_instructions h))", simp)
  fix lay blob h m blob1 h1 m1
  assume "prefetch_one_instruction lay blob h m = Mret blob1 h1 m1" "\<not> is_to_stop blob1"
  from prefetch_one_progress [OF this]
  show "((lay, blob1, h1, m1), (lay, blob, h, m)) \<in> measure (\<lambda>(lay, blob, h, m).
      (if is_flushable blob then Suc MAX_INSTRUCTIONS_TOTRANSLATE else 0)
      + (MAX_INSTRUCTIONS_TOTRANSLATE - nr_translated_instructions h))"
    by auto
qed

declare prefetch_loop.simps [simp del]

definition append_jumper :: "layout \<Rightarrow> hart \<Rightarrow> hart" where
  "append_jumper lay h =
     h\<lparr>translation_cache := tc_memcpy (translation_cache_ptr h)
          \<lparr>blk_code = vmm_jumper, blk_params = [], blk_len = jumper_size lay\<rparr> (translation_cache h),
       translation_cache_ptr := translation_cache_ptr h + jumper_size lay\<rparr>"

definition prefetch_instructions :: "layout \<Rightarrow> hart \<Rightarrow> machine \<Rightarrow> unit mmu_result" where
  "prefetch_instructions lay h m =
     (let blob = \<lparr>next_instruction_to_fetch = pc h, is_to_stop = False, is_flushable = True\<rparr>;
          old_trans_ptr = translation_cache_ptr h in
      mmu_bind (prefetch_loop lay blob h m) (\<lambda>_ h1 m1.
      let new_trans_ptr = translation_cache_ptr h1 in
      if old_trans_ptr \<noteq> new_trans_ptr then Mret () (append_jumper lay h1) m1 else Mret () h1 m1))"

text \<open>The result is the offset in the cache to which control is transferred.\<close>

definition vmresume :: "layout \<Rightarrow> hart \<Rightarrow> machine \<Rightarrow> u32 mmu_result" where
  "vmresume lay h m =
     mmu_bind (prefetch_instructions lay h m) (\<lambda>_ h1 m1.
     case search_translation_item h1 (pc h1) of
       None \<Rightarrow> Mexit
     | Some ti \<Rightarrow> Mret (tc_offset ti) h1 m1)"

end
