(* ===== verification/Translation_Unit.thy ===== *)
theory Translation_Unit
  imports Translation
begin

text \<open>
  What \<open>prefetch_instructions\<close> and \<open>vmresume\<close> keep: the cache stays well-formed and within its
  bounds, and coherent with the guest memory: every cached block is the translation of the
  instruction word at its address. \<open>vmresume\<close> therefore enters a block that translates the
  instruction at the pc.
\<close>

definition probe_layout :: layout where
  "probe_layout = \<lparr>TRANSLATION_SIZE = (\<lambda>_. 1), jumper_size = 0\<rparr>"

definition unit_start :: "u32 \<Rightarrow> prefetch_blob" where
  "unit_start p = \<lparr>next_instruction_to_fetch = p, is_to_stop = False, is_flushable = True\<rparr>"

text \<open>
  The block that an instruction word is translated to at an address, and whether it ends the
  unit, read off a run of the translator on an empty cache.
\<close>

definition translation_of :: "u32 \<Rightarrow> u32 \<Rightarrow> (x86 list \<times> u32 list \<times> bool) option" where
  "translation_of w p =
     Option.bind (translate_instruction probe_layout (unit_start p) w (hart_init 0)) (\<lambda>(blob, h).
     map_option (\<lambda>(code, ps). (code, ps, is_to_stop blob)) (cached h p))"

definition is_translation :: "u32 \<Rightarrow> u32 \<Rightarrow> x86 list \<Rightarrow> u32 list \<Rightarrow> bool" where
  "is_translation w addr code ps \<longleftrightarrow> (\<exists>stop. translation_of w addr = Some (code, ps, stop))"

lemma in_window_self [simp]: "in_window p p"
  by (simp add: in_window_def)

lemma emit_probe:
  "\<exists>blob h. emit_translation probe_layout ind code ps stop (unit_start p) (hart_init 0) = Some (blob, h) \<and>
     cached h p = Some (code, ps) \<and> is_to_stop blob = stop"
proof -
  let ?h0 = "hart_init 0"
  have wf: "tc_wf p ?h0" by (rule tc_wf_hart_init)
  have "live_mappings ?h0 = []" by (simp add: live_mappings_def hart_init_def flush_translation_cache_def)
  then have "cached ?h0 p = None"
    using cached_None_iff [OF wf, of p] search_None_iff [OF wf, of p] by simp
  moreover have "layout_ok probe_layout"
    by (simp add: layout_ok_def probe_layout_def TRANSLATION_CACHE_SIZE_def)
  ultimately show ?thesis
    using emit_translation_refines [OF wf, of "unit_start p" probe_layout ind code ps stop]
    by (fastforce simp: unit_start_def split: if_splits)
qed

text \<open>That run says what the translator does on every other cache.\<close>

lemma translation_of_emits:
  assumes "\<And>lay blob h. next_instruction_to_fetch blob = p \<Longrightarrow>
      translate_instruction lay blob w h = emit_translation lay ind code ps stop blob h"
  shows "translation_of w p = Some (code, ps, stop)"
  using emit_probe [of ind code ps stop p] assms [of "unit_start p"]
  by (auto simp: translation_of_def unit_start_def)

lemma translation_of_cases:
  obtains "translation_of w p = None" "\<And>lay blob h. translate_instruction lay blob w h = None"
  | ind code ps stop where "translation_of w p = Some (code, ps, stop)"
      "\<And>lay blob h. next_instruction_to_fetch blob = p \<Longrightarrow>
         translate_instruction lay blob w h = emit_translation lay ind code ps stop blob h"
proof (cases "\<forall>lay blob h. translate_instruction lay blob w h = None")
  case True
  then show ?thesis using that(1) by (simp add: translation_of_def)
next
  case False
  then obtain ind code ps stop where "\<And>lay blob h. next_instruction_to_fetch blob = p \<Longrightarrow>
      translate_instruction lay blob w h = emit_translation lay ind code ps stop blob h"
    using translate_instruction_emits_one [of w p] unfolding emits_one_def by blast
  then show ?thesis using translation_of_emits by (intro that(2)) blast+
qed

definition fetched :: "machine \<Rightarrow> hart \<Rightarrow> u32 \<Rightarrow> u32 option" where
  "fetched m h p = map_option ucast (direct_read 4 m h p)"

definition coherent :: "u32 \<Rightarrow> hart \<Rightarrow> machine \<Rightarrow> bool" where
  "coherent b h m \<longleftrightarrow> (\<forall>p code ps. in_window b p \<longrightarrow> cached h p = Some (code, ps) \<longrightarrow>
     (\<exists>w. fetched m h p = Some w \<and> is_translation w p code ps))"

definition tu_inv :: "u32 \<Rightarrow> hart \<Rightarrow> machine \<Rightarrow> bool" where
  "tu_inv b h m \<longleftrightarrow> tc_wf b h \<and> coherent b h m \<and> \<not> paging h"

lemma arch_fields:
  assumes "arch h' = arch h"
  shows "pc h' = pc h" "registers h' = registers h" "native_vmptr h' = native_vmptr h"
    "paging h' = paging h" "hart_magic h' = hart_magic h" "linked_vm m h' = linked_vm m h" "fetched m h' p = fetched m h p"
proof -
  show "pc h' = pc h" "registers h' = registers h" "native_vmptr h' = native_vmptr h" "hart_magic h' = hart_magic h"
    using arg_cong [OF assms, of pc] arg_cong [OF assms, of registers] arg_cong [OF assms, of native_vmptr]
      arg_cong [OF assms, of hart_magic]
    by (simp_all add: arch_def)
  show "paging h' = paging h"
    using arg_cong [OF assms, of privilege_level] arg_cong [OF assms, of csrs] by (simp add: arch_def paging_def)
  show l: "linked_vm m h' = linked_vm m h"
    using arg_cong [OF assms, of native_vmptr] by (simp add: arch_def linked_vm_def)
  show "fetched m h' p = fetched m h p" using l by (simp add: fetched_def direct_read_def)
qed

lemma fetch_direct:
  assumes "\<not> paging h"
  shows "mmu_instruction_read32 h m p = (case fetched m h p of None \<Rightarrow> Mexit | Some w \<Rightarrow> Mret w h m)"
  using assms by (simp add: mmu_instruction_read32_def fetched_def ret_or_exit_def)

lemma unat_next_pc:
  fixes p b :: u32
  assumes "unat (p - b) + 4 < 2 ^ 32"
  shows "unat (p + 4 - b) = unat (p - b) + 4"
proof -
  have "p + 4 - b = (p - b) + 4" by simp
  moreover have "unat ((p - b) + 4) = unat (p - b) + 4" using assms by (simp add: unat_word_ariths)
  ultimately show ?thesis by (simp only:)
qed

subsection \<open>One instruction\<close>

text \<open>What one round of the loop does to a hart that satisfies the invariant.\<close>

definition committed :: "layout \<Rightarrow> u32 \<Rightarrow> prefetch_blob \<Rightarrow> hart \<Rightarrow> prefetch_blob \<Rightarrow> hart \<Rightarrow> bool" where
  "committed lay b blob h blob' h' \<longleftrightarrow>
     translation_cache_ptr h' + jumper_size lay \<le> TRANSLATION_CACHE_SIZE \<and>
     cached h' (next_instruction_to_fetch blob) \<noteq> None \<and>
     (\<not> is_flushable blob \<longrightarrow> (\<forall>p. in_window b p \<longrightarrow> cached h p \<noteq> None \<longrightarrow> cached h' p \<noteq> None)) \<and>
     \<not> is_flushable blob' \<and>
     (is_to_stop blob' \<or> next_instruction_to_fetch blob' = next_instruction_to_fetch blob + 4)"

lemma prefetch_one_inv:
  assumes inv: "tu_inv b h m" and win: "in_window b (next_instruction_to_fetch blob)"
    and fresh: "cached h (next_instruction_to_fetch blob) = None" and lay: "layout_ok lay"
    and run: "prefetch_one_instruction lay blob h m = Mret blob' h' m'"
  shows "m' = m \<and> tu_inv b h' m \<and> arch h' = arch h \<and>
    (h' = h \<and> is_to_stop blob' \<and> \<not> is_flushable blob \<or> committed lay b blob h blob' h')"
proof -
  let ?a = "next_instruction_to_fetch blob"
  have wf: "tc_wf b h" and coh: "coherent b h m" and np: "\<not> paging h" using inv by (auto simp: tu_inv_def)
  from run np obtain w where w: "fetched m h ?a = Some w" "translate_instruction lay blob w h = Some (blob', h')" "m' = m"
    by (auto simp: prefetch_one_instruction_def fetch_direct split: option.splits)
  obtain ind code ps stop where t: "\<And>lay blob h. next_instruction_to_fetch blob = ?a \<Longrightarrow>
      translate_instruction lay blob w h = emit_translation lay ind code ps stop blob h"
    and "translation_of w ?a = Some (code, ps, stop)"
    using w(2) by (cases rule: translation_of_cases [of w ?a]) auto
  then have tr: "is_translation w ?a code ps" unfolding is_translation_def by blast
  let ?h0 = "if cache_full lay ind h then flush_translation_cache h else h"
  from emit_translation_refines [OF wf win fresh lay, of ind code ps stop] w(2) t [of blob lay h]
  have e: "tc_wf b h'" "arch h' = arch h"
    "if cache_full lay ind h \<and> \<not> is_flushable blob then h' = h \<and> blob' = blob\<lparr>is_to_stop := True\<rparr>
     else translation_cache_ptr h' + jumper_size lay \<le> TRANSLATION_CACHE_SIZE \<and>
          (\<forall>p. in_window b p \<longrightarrow> cached h' p = ((cached ?h0)(?a \<mapsto> (code, ps))) p) \<and>
          blob' = (if stop then blob\<lparr>is_flushable := False, is_to_stop := True\<rparr>
                   else blob\<lparr>is_flushable := False, next_instruction_to_fetch := ?a + 4\<rparr>)"
    by auto
  show ?thesis
  proof (cases "cache_full lay ind h \<and> \<not> is_flushable blob")
    case True
    with e(3) inv w(3) show ?thesis by simp
  next
    case False
    with e(3) have c: "\<And>p. in_window b p \<Longrightarrow> cached h' p = ((cached ?h0)(?a \<mapsto> (code, ps))) p" by auto
    have old: "cached ?h0 p = None \<or> cached ?h0 p = cached h p" if "in_window b p" for p
      using cached_flush [OF wf that] by simp
    have "coherent b h' m"
      unfolding coherent_def
    proof (intro allI impI)
      fix p code' ps'
      assume p: "in_window b p" "cached h' p = Some (code', ps')"
      show "\<exists>w. fetched m h' p = Some w \<and> is_translation w p code' ps'"
      proof (cases "p = ?a")
        case True
        with c [OF p(1)] p(2) w(1) tr arch_fields(7) [OF e(2)] show ?thesis by auto
      next
        case False
        with c [OF p(1)] old [OF p(1)] p(2) have "cached h p = Some (code', ps')" by auto
        with coh p(1) arch_fields(7) [OF e(2)] show ?thesis unfolding coherent_def by auto
      qed
    qed
    then have "tu_inv b h' m" using e(1) np arch_fields(4) [OF e(2)] by (simp add: tu_inv_def)
    moreover have "committed lay b blob h blob' h'"
      unfolding committed_def using e(3) False c win by (auto split: if_splits)
    ultimately show ?thesis using w(3) e(2) by simp
  qed
qed

subsection \<open>The loop\<close>

text \<open>The rounds that are left: the measure of the loop's termination.\<close>

definition rounds_left :: "prefetch_blob \<Rightarrow> hart \<Rightarrow> nat" where
  "rounds_left blob h = (if is_flushable blob then Suc MAX_INSTRUCTIONS_TOTRANSLATE else 0)
     + (MAX_INSTRUCTIONS_TOTRANSLATE - nr_translated_instructions h)"

lemma rounds_left_decrease:
  assumes "prefetch_one_instruction lay blob h m = Mret blob' h' m'" "\<not> is_to_stop blob'"
  shows "rounds_left blob' h' < rounds_left blob h"
  using prefetch_one_progress [OF assms] by (auto simp: rounds_left_def)

lemma prefetch_loop_inv:
  assumes "tu_inv b h m" "layout_ok lay"
    and "unat (next_instruction_to_fetch blob - b) + 4 * rounds_left blob h < 2 ^ 31"
    and "prefetch_loop lay blob h m = Mret blob' h' m'"
  shows "m' = m \<and> tu_inv b h' m \<and> arch h' = arch h \<and>
    (h' = h \<or> translation_cache_ptr h' + jumper_size lay \<le> TRANSLATION_CACHE_SIZE) \<and>
    (is_flushable blob \<longrightarrow> cached h' (next_instruction_to_fetch blob) \<noteq> None) \<and>
    (\<not> is_flushable blob \<longrightarrow> (\<forall>p. in_window b p \<longrightarrow> cached h p \<noteq> None \<longrightarrow> cached h' p \<noteq> None))"
  using assms
proof (induction lay blob h m rule: prefetch_loop.induct)
  case (1 lay blob h m)
  let ?a = "next_instruction_to_fetch blob"
  have wf: "tc_wf b h" and win: "in_window b ?a" using 1(2,4) by (simp_all add: tu_inv_def in_window_def)
  show ?case
  proof (cases "search_translation_item h ?a")
    case (Some item)
    then have "cached h ?a \<noteq> None" using cached_None_iff [OF wf win] by simp
    with Some 1(2,5) show ?thesis by (simp add: prefetch_loop.simps [of lay blob h m])
  next
    case None
    then have fresh: "cached h ?a = None" using cached_None_iff [OF wf win] by simp
    from None 1(5) obtain blob1 h1 m1 where one: "prefetch_one_instruction lay blob h m = Mret blob1 h1 m1"
      by (auto simp: prefetch_loop.simps [of lay blob h m] split: mmu_result.splits)
    from prefetch_one_inv [OF 1(2) win fresh 1(3) one]
    have step: "m1 = m" "tu_inv b h1 m" "arch h1 = arch h"
      "h1 = h \<and> is_to_stop blob1 \<and> \<not> is_flushable blob \<or> committed lay b blob h blob1 h1" by auto
    show ?thesis
    proof (cases "is_to_stop blob1")
      case True
      with None one 1(5) have "blob' = blob1" "h' = h1" "m' = m1"
        by (simp_all add: prefetch_loop.simps [of lay blob h m])
      with step show ?thesis by (auto simp: committed_def)
    next
      case False
      with step(4) have com: "committed lay b blob h blob1 h1" by simp
      have rest: "prefetch_loop lay blob1 h1 m1 = Mret blob' h' m'"
        using None one False 1(5) by (simp add: prefetch_loop.simps [of lay blob h m])
      have nxt: "next_instruction_to_fetch blob1 = ?a + 4" "\<not> is_flushable blob1"
        using com False by (auto simp: committed_def)
      have "rounds_left blob1 h1 < rounds_left blob h" by (rule rounds_left_decrease [OF one False])
      then have "unat (next_instruction_to_fetch blob1 - b) + 4 * rounds_left blob1 h1 < 2 ^ 31"
        using 1(4) unat_next_pc [of ?a b] nxt(1) by simp
      from 1(1) [OF None one False _ 1(3) this] rest step(1,2)
      have "m' = m1 \<and> tu_inv b h' m1 \<and> arch h' = arch h1 \<and>
        (h' = h1 \<or> translation_cache_ptr h' + jumper_size lay \<le> TRANSLATION_CACHE_SIZE) \<and>
        (\<forall>p. in_window b p \<longrightarrow> cached h1 p \<noteq> None \<longrightarrow> cached h' p \<noteq> None)"
        using nxt(2) by simp
      with com step win show ?thesis unfolding committed_def by auto
    qed
  qed
qed

lemma append_jumper_inv:
  assumes "tu_inv b h m" "translation_cache_ptr h + jumper_size lay \<le> TRANSLATION_CACHE_SIZE" "0 \<le> jumper_size lay"
  shows "tu_inv b (append_jumper lay h) m \<and> arch (append_jumper lay h) = arch h \<and>
    (\<forall>p. in_window b p \<longrightarrow> cached (append_jumper lay h) p = cached h p)"
proof -
  let ?h' = "append_jumper lay h"
  have wf: "tc_wf b h" using assms(1) by (simp add: tu_inv_def)
  have live: "live_mappings ?h' = live_mappings h" by (simp add: live_mappings_def append_jumper_def)
  have tc: "translation_cache ?h' (uint (tc_offset i)) = translation_cache h (uint (tc_offset i))"
    if "i \<in> set (live_mappings h)" for i
    using block_at_memcpy [OF wf that] by (simp add: append_jumper_def)
  have ptr: "translation_cache_ptr ?h' = translation_cache_ptr h + jumper_size lay" by (simp add: append_jumper_def)
  have block: "\<exists>blk. block_at ?h' i blk" if "i \<in> set (live_mappings h)" for i
    using wf that tc [OF that] ptr assms(3) by (fastforce simp: tc_wf_def block_at_def)
  have same: "pc_mappings ?h' = pc_mappings h" "nr_translated_instructions ?h' = nr_translated_instructions h"
    by (simp_all add: append_jumper_def)
  then have wf': "tc_wf b ?h'" using wf live block ptr assms(2,3) by (simp add: tc_wf_def)
  have arch: "arch ?h' = arch h" by (simp add: arch_def append_jumper_def)
  have "search_translation_item ?h' p = search_translation_item h p" for p
    unfolding search_translation_item_def same ..
  note same_search = this
  have c: "cached ?h' p = cached h p" if "in_window b p" for p
  proof (cases "search_translation_item h p")
    case (Some i)
    then have "i \<in> set (live_mappings h)" using search_Some_iff [OF wf that, of i] by simp
    with Some tc same_search show ?thesis by (simp add: cached_def)
  qed (simp add: cached_def same_search)
  have "coherent b ?h' m"
    using assms(1) c arch_fields(7) [OF arch] by (auto simp: tu_inv_def coherent_def)
  then show ?thesis using wf' arch c assms(1) arch_fields(4) [OF arch] by (simp add: tu_inv_def)
qed

definition tu_room :: "u32 \<Rightarrow> hart \<Rightarrow> bool" where
  "tu_room b h \<longleftrightarrow> unat (pc h - b) + 4 * (2 * MAX_INSTRUCTIONS_TOTRANSLATE + 1) < 2 ^ 31"

lemma prefetch_instructions_inv:
  assumes "tu_inv b h m" "layout_ok lay" "tu_room b h" "prefetch_instructions lay h m = Mret u h' m'"
  shows "m' = m \<and> tu_inv b h' m \<and> arch h' = arch h \<and> cached h' (pc h) \<noteq> None"
proof -
  let ?blob = "\<lparr>next_instruction_to_fetch = pc h, is_to_stop = False, is_flushable = True\<rparr>"
  from assms(4) obtain blob1 h1 where loop: "prefetch_loop lay ?blob h m = Mret blob1 h1 m'"
    and h': "h' = (if translation_cache_ptr h \<noteq> translation_cache_ptr h1 then append_jumper lay h1 else h1)"
    by (cases "prefetch_loop lay ?blob h m") (auto simp: prefetch_instructions_def Let_def split: if_splits)
  have "rounds_left ?blob h \<le> 2 * MAX_INSTRUCTIONS_TOTRANSLATE + 1" by (simp add: rounds_left_def)
  then have "unat (next_instruction_to_fetch ?blob - b) + 4 * rounds_left ?blob h < 2 ^ 31"
    using assms(3) by (simp add: tu_room_def)
  from prefetch_loop_inv [OF assms(1,2) this loop]
  have l: "m' = m" "tu_inv b h1 m" "arch h1 = arch h" "cached h1 (pc h) \<noteq> None"
    "h1 = h \<or> translation_cache_ptr h1 + jumper_size lay \<le> TRANSLATION_CACHE_SIZE" by auto
  have win: "in_window b (pc h)" using assms(3) by (simp add: tu_room_def in_window_def)
  show ?thesis
  proof (cases "translation_cache_ptr h = translation_cache_ptr h1")
    case True
    with h' l show ?thesis by simp
  next
    case False
    with l(5) have "translation_cache_ptr h1 + jumper_size lay \<le> TRANSLATION_CACHE_SIZE" by auto
    from append_jumper_inv [OF l(2) this] assms(2) l h' False win show ?thesis by (simp add: layout_ok_def)
  qed
qed

text \<open>
  \<open>vmresume\<close>: when the prefetch returns, its \<open>ASSERT\<close> holds, and control goes to a block of the
  cache that is the translation of the instruction word at the pc.
\<close>

lemma vmresume_enters:
  assumes "tu_inv b h m" "layout_ok lay" "tu_room b h" "prefetch_instructions lay h m = Mret u h' m'"
  shows "\<exists>off blk w. vmresume lay h m = Mret off h' m \<and> tu_inv b h' m \<and> arch h' = arch h \<and>
    translation_cache h' (uint off) = Some blk \<and> fetched m h (pc h) = Some w \<and>
    is_translation w (pc h) (blk_code blk) (blk_params blk)"
proof -
  from prefetch_instructions_inv [OF assms]
  have p: "m' = m" "tu_inv b h' m" "arch h' = arch h" "cached h' (pc h) \<noteq> None" by auto
  have win: "in_window b (pc h)" using assms(3) by (simp add: tu_room_def in_window_def)
  obtain code ps where c: "cached h' (pc h) = Some (code, ps)" using p(4) by auto
  then obtain item blk where i: "search_translation_item h' (pc h) = Some item"
    "translation_cache h' (uint (tc_offset item)) = Some blk" "code = blk_code blk" "ps = blk_params blk"
    by (auto simp: cached_def split: option.splits)
  moreover obtain w where "fetched m h' (pc h) = Some w" "is_translation w (pc h) code ps"
    using p(2) c win unfolding tu_inv_def coherent_def by blast
  moreover have "vmresume lay h m = Mret (tc_offset item) h' m"
    using assms(4) p(1) i(1) arch_fields(1) [OF p(3)] by (simp add: vmresume_def)
  ultimately show ?thesis using p(2,3) arch_fields(7) [OF p(3)] by auto
qed

subsection \<open>The prefetch succeeds on supported code\<close>

text \<open>
  The code from an address up to the next instruction that ends a unit is mapped and every
  word of it has a translator, within \<open>n\<close> instructions.
\<close>

fun straight_line :: "machine \<Rightarrow> hart \<Rightarrow> nat \<Rightarrow> u32 \<Rightarrow> bool" where
  "straight_line m h 0 p = False"
| "straight_line m h (Suc n) p =
     (case fetched m h p of None \<Rightarrow> False
      | Some w \<Rightarrow> (case translation_of w p of None \<Rightarrow> False
          | Some (code, ps, stop) \<Rightarrow> stop \<or> straight_line m h n (p + 4)))"

lemma straight_line_arch:
  assumes "arch h' = arch h"
  shows "straight_line m h' n p = straight_line m h n p"
  by (induction n arbitrary: p) (simp_all add: arch_fields(7) [OF assms] cong: option.case_cong)

lemma emit_translation_next:
  "emit_translation lay ind code ps stop blob h = Some (blob', h') \<Longrightarrow>
   is_to_stop blob' \<or> \<not> stop \<and> next_instruction_to_fetch blob' = next_instruction_to_fetch blob + 4"
  by (auto simp: emit_translation_def PRECHECK_TRANSLATION_CACHE_def Let_def split: if_splits bind_splits)

lemma prefetch_one_returns:
  assumes "tu_inv b h m" "in_window b (next_instruction_to_fetch blob)"
    and "cached h (next_instruction_to_fetch blob) = None" "layout_ok lay"
    and "straight_line m h (Suc n) (next_instruction_to_fetch blob)"
  shows "\<exists>blob' h'. prefetch_one_instruction lay blob h m = Mret blob' h' m \<and>
    (is_to_stop blob' \<or> straight_line m h n (next_instruction_to_fetch blob'))"
proof -
  let ?a = "next_instruction_to_fetch blob"
  have wf: "tc_wf b h" and np: "\<not> paging h" using assms(1) by (auto simp: tu_inv_def)
  from assms(5) obtain w code ps stop where w: "fetched m h ?a = Some w" "translation_of w ?a = Some (code, ps, stop)"
    "stop \<or> straight_line m h n (?a + 4)"
    by (auto split: option.splits)
  obtain ind where t: "translate_instruction lay blob w h = emit_translation lay ind code ps stop blob h"
    using w(2) by (cases rule: translation_of_cases [of w ?a]) auto
  from emit_translation_refines [OF wf assms(2-4), of ind code ps stop]
  obtain blob' h' where e: "emit_translation lay ind code ps stop blob h = Some (blob', h')" by blast
  with emit_translation_next [OF e] t w fetch_direct [OF np] show ?thesis
    by (auto simp: prefetch_one_instruction_def)
qed

lemma prefetch_loop_returns:
  assumes "tu_inv b h m" "layout_ok lay" "straight_line m h n (next_instruction_to_fetch blob)"
    and "unat (next_instruction_to_fetch blob - b) + 4 * rounds_left blob h < 2 ^ 31"
  shows "\<exists>blob' h'. prefetch_loop lay blob h m = Mret blob' h' m"
  using assms
proof (induction n arbitrary: blob h)
  case (Suc n)
  let ?a = "next_instruction_to_fetch blob"
  have wf: "tc_wf b h" and win: "in_window b ?a" using Suc.prems(1,4) by (simp_all add: tu_inv_def in_window_def)
  show ?case
  proof (cases "search_translation_item h ?a")
    case None
    then have fresh: "cached h ?a = None" using cached_None_iff [OF wf win] by simp
    from prefetch_one_returns [OF Suc.prems(1) win fresh Suc.prems(2,3)]
    obtain blob1 h1 where one: "prefetch_one_instruction lay blob h m = Mret blob1 h1 m"
      "is_to_stop blob1 \<or> straight_line m h n (next_instruction_to_fetch blob1)" by blast
    show ?thesis
    proof (cases "is_to_stop blob1")
      case True
      with None one show ?thesis by (simp add: prefetch_loop.simps [of lay blob h m])
    next
      case False
      from prefetch_one_inv [OF Suc.prems(1) win fresh Suc.prems(2) one(1)] False
      have step: "tu_inv b h1 m" "arch h1 = arch h" "committed lay b blob h blob1 h1" by auto
      then have "next_instruction_to_fetch blob1 = ?a + 4" using False by (simp add: committed_def)
      then have "unat (next_instruction_to_fetch blob1 - b) + 4 * rounds_left blob1 h1 < 2 ^ 31"
        using Suc.prems(4) unat_next_pc [of ?a b] rounds_left_decrease [OF one(1) False] by simp
      from Suc.IH [OF step(1) Suc.prems(2) _ this] one(2) False straight_line_arch [OF step(2)]
      show ?thesis using None one(1) by (simp add: prefetch_loop.simps [of lay blob h m])
    qed
  qed (simp add: prefetch_loop.simps [of lay blob h m])
qed simp

lemma prefetch_instructions_returns:
  assumes "tu_inv b h m" "layout_ok lay" "tu_room b h" "straight_line m h n (pc h)"
  shows "\<exists>h'. prefetch_instructions lay h m = Mret () h' m"
proof -
  let ?blob = "\<lparr>next_instruction_to_fetch = pc h, is_to_stop = False, is_flushable = True\<rparr>"
  have "rounds_left ?blob h \<le> 2 * MAX_INSTRUCTIONS_TOTRANSLATE + 1" by (simp add: rounds_left_def)
  then have "unat (next_instruction_to_fetch ?blob - b) + 4 * rounds_left ?blob h < 2 ^ 31"
    using assms(3) by (simp add: tu_room_def)
  with prefetch_loop_returns [of b h m lay n ?blob] assms
  obtain blob1 h1 where "prefetch_loop lay ?blob h m = Mret blob1 h1 m" by auto
  then show ?thesis by (auto simp: prefetch_instructions_def Let_def)
qed

end
