(* ===== verification/Riscv_Step.thy ===== *)
theory Riscv_Step
  imports Translation_Unit
begin

text \<open>
  The guest instruction set as a whole: decoding an instruction word and the step it makes on
  the hart and the memory, written from the instruction set; the template that
  \<open>translate_instruction\<close> chooses for each instruction; and the theorem that a block of the
  cache does what its instruction does.
\<close>

datatype rv_amo = rAMOADD | rAMOSWAP | rAMOXOR | rAMOOR | rAMOAND | rAMOMAXU

datatype rv_instr =
    iLUI "5 word" u32
  | iAUIPC "5 word" u32
  | iJAL "5 word" u32
  | iJALR "5 word" "5 word" u32
  | iBRANCH rv_branch "5 word" "5 word" u32
  | iLOAD rv_load "5 word" "5 word" u32
  | iSTORE rv_store "5 word" "5 word" u32
  | iOP_IMM rv_op "5 word" "5 word" u32
  | iOP rv_op "5 word" "5 word" "5 word"
  | iFENCE
  | iFENCE_I
  | iAMO rv_amo "5 word" "5 word" "5 word"

subsection \<open>Decoding\<close>

definition rv_op_of :: "u32 \<Rightarrow> u32 \<Rightarrow> rv_op option" where
  "rv_op_of f3 f7 =
     (if f7 = 0 then
        (if f3 = 0 then Some rADD else if f3 = 1 then Some rSLL else if f3 = 2 then Some rSLT
         else if f3 = 3 then Some rSLTU else if f3 = 4 then Some rXOR else if f3 = 5 then Some rSRL
         else if f3 = 6 then Some rOR else if f3 = 7 then Some rAND else None)
      else if f7 = 0x20 then
        (if f3 = 0 then Some rSUB else if f3 = 5 then Some rSRA else None)
      else if f7 = 1 then
        (if f3 = 0 then Some rMUL else if f3 = 1 then Some rMULH else if f3 = 2 then Some rMULHSU
         else if f3 = 3 then Some rMULHU else if f3 = 4 then Some rDIV else if f3 = 5 then Some rDIVU
         else if f3 = 6 then Some rREM else if f3 = 7 then Some rREMU else None)
      else None)"

definition rv_op_imm_of :: "u32 \<Rightarrow> rv_op option" where
  "rv_op_imm_of f3 =
     (if f3 = 0 then Some rADD else if f3 = 2 then Some rSLT else if f3 = 3 then Some rSLTU
      else if f3 = 4 then Some rXOR else if f3 = 6 then Some rOR else if f3 = 7 then Some rAND else None)"

definition rv_shift_imm_of :: "u32 \<Rightarrow> u32 \<Rightarrow> rv_op option" where
  "rv_shift_imm_of f3 f7 =
     (if f3 = 1 \<and> f7 = 0 then Some rSLL else if f3 = 5 \<and> f7 = 0 then Some rSRL
      else if f3 = 5 \<and> f7 = 0x20 then Some rSRA else None)"

definition rv_branch_of :: "u32 \<Rightarrow> rv_branch option" where
  "rv_branch_of f3 =
     (if f3 = 0 then Some rBEQ else if f3 = 1 then Some rBNE else if f3 = 4 then Some rBLT
      else if f3 = 5 then Some rBGE else if f3 = 6 then Some rBLTU else if f3 = 7 then Some rBGEU else None)"

definition rv_load_of :: "u32 \<Rightarrow> rv_load option" where
  "rv_load_of f3 =
     (if f3 = 0 then Some rLB else if f3 = 1 then Some rLH else if f3 = 2 then Some rLW
      else if f3 = 4 then Some rLBU else if f3 = 5 then Some rLHU else None)"

definition rv_store_of :: "u32 \<Rightarrow> rv_store option" where
  "rv_store_of f3 = (if f3 = 0 then Some rSB else if f3 = 1 then Some rSH else if f3 = 2 then Some rSW else None)"

definition rv_amo_of :: "u32 \<Rightarrow> rv_amo option" where
  "rv_amo_of f5 =
     (if f5 = 0 then Some rAMOADD else if f5 = 1 then Some rAMOSWAP else if f5 = 4 then Some rAMOXOR
      else if f5 = 8 then Some rAMOOR else if f5 = 0xc then Some rAMOAND else if f5 = 0x1c then Some rAMOMAXU
      else None)"

text \<open>
  The instructions that have a reference step here. \<open>lr.w\<close> and \<open>sc.w\<close>, which a C function carries out on
  the table of reservations, and \<open>ecall\<close> are steps of \<open>Translation_Chain\<close>; the signed and unsigned
  minimum and the signed maximum of the A extension have no translator.
\<close>

definition rv_decode :: "u32 \<Rightarrow> rv_instr option" where
  "rv_decode w =
     (let opc = rv_opcode w; f3 = rv_funct3 w; f7 = rv_funct7 w;
          rd = rv_rd w; rs1 = rv_rs1 w; rs2 = rv_rs2 w in
      if opc = 0x37 then Some (iLUI rd (rv_imm_U w))
      else if opc = 0x17 then Some (iAUIPC rd (rv_imm_U w))
      else if opc = 0x6f then Some (iJAL rd (rv_imm_J w))
      else if opc = 0x67 then (if f3 = 0 then Some (iJALR rd rs1 (rv_imm_I w)) else None)
      else if opc = 0x63 then map_option (\<lambda>f. iBRANCH f rs1 rs2 (rv_imm_B w)) (rv_branch_of f3)
      else if opc = 0x03 then map_option (\<lambda>f. iLOAD f rd rs1 (rv_imm_I w)) (rv_load_of f3)
      else if opc = 0x23 then map_option (\<lambda>f. iSTORE f rs1 rs2 (rv_imm_S w)) (rv_store_of f3)
      else if opc = 0x13 then
        (if f3 = 1 \<or> f3 = 5 then map_option (\<lambda>f. iOP_IMM f rd rs1 (reg_param rs2)) (rv_shift_imm_of f3 f7)
         else map_option (\<lambda>f. iOP_IMM f rd rs1 (rv_imm_I w)) (rv_op_imm_of f3))
      else if opc = 0x33 then map_option (\<lambda>f. iOP f rd rs1 rs2) (rv_op_of f3 f7)
      else if opc = 0x0f then
        (if f3 = 0 then Some iFENCE else if f3 = 1 then Some iFENCE_I else None)
      else if opc = 0x2f \<and> f3 = 2 then map_option (\<lambda>f. iAMO f rd rs1 rs2) (rv_amo_of (rv_bits w 31 27))
      else None)"

subsection \<open>The step of an instruction\<close>

fun rv_amo_fun :: "rv_amo \<Rightarrow> u32 \<Rightarrow> u32 \<Rightarrow> u32" where
  "rv_amo_fun rAMOADD x y = x + y"
| "rv_amo_fun rAMOSWAP x y = y"
| "rv_amo_fun rAMOXOR x y = x XOR y"
| "rv_amo_fun rAMOOR x y = x OR y"
| "rv_amo_fun rAMOAND x y = x AND y"
| "rv_amo_fun rAMOMAXU x y = max x y"

text \<open>
  \<open>None\<close> where the memory of the instruction is not mapped or, for the atomic ones, not
  aligned. An instruction fence discards the translations.
\<close>

fun rv_step :: "rv_instr \<Rightarrow> hart \<Rightarrow> machine \<Rightarrow> (hart \<times> machine) option" where
  "rv_step (iLUI rd i) h m = Some (rv_exec_lui rd i h, m)"
| "rv_step (iAUIPC rd i) h m = Some (rv_exec_auipc rd i h, m)"
| "rv_step (iJAL rd off) h m = Some (rv_exec_jal rd off h, m)"
| "rv_step (iJALR rd rs1 off) h m = Some (rv_exec_jalr rd rs1 off h, m)"
| "rv_step (iBRANCH f rs1 rs2 off) h m = Some (rv_exec_branch f rs1 rs2 off h, m)"
| "rv_step (iLOAD f rd rs1 off) h m =
     map_option (\<lambda>bs. (rv_exec_load f rd bs h, m)) (guest_bytes h m (rv_ea rs1 off h) (rv_load_size f))"
| "rv_step (iSTORE f rs1 rs2 off) h m =
     map_option (\<lambda>m'. (rv_next h, m')) (guest_update h m (rv_ea rs1 off h) (rv_store_bytes f rs2 h))"
| "rv_step (iOP_IMM f rd rs1 i) h m = Some (rv_exec_op_imm f rd rs1 i h, m)"
| "rv_step (iOP f rd rs1 rs2) h m = Some (rv_exec_op f rd rs1 rs2 h, m)"
| "rv_step iFENCE h m = Some (rv_next h, m)"
| "rv_step iFENCE_I h m = Some (rv_next (flush_translation_cache h), m)"
| "rv_step (iAMO f rd rs1 rs2) h m =
     (let a = rv_x h rs1 in
      if a AND 3 \<noteq> 0 then None
      else Option.bind (guest_bytes h m a 4) (\<lambda>bs.
        let old = ucast (le_word bs) in
        map_option (\<lambda>m'. (rv_next (rv_set rd old h), m'))
          (guest_update h m a (le_bytes 4 (ucast (rv_amo_fun f old (rv_x h rs2)))))))"

text \<open>The divisions on which the host raises a divide error.\<close>

fun host_fault :: "rv_instr \<Rightarrow> hart \<Rightarrow> bool" where
  "host_fault (iOP rDIV rd rs1 rs2) h = div_overflow (rv_x h rs1) (rv_x h rs2)"
| "host_fault (iOP rREM rd rs1 rs2) h = (rv_x h rs2 = 0 \<or> div_overflow (rv_x h rs1) (rv_x h rs2))"
| "host_fault (iOP rREMU rd rs1 rs2) h = (rv_x h rs2 = 0)"
| "host_fault _ h = False"

subsection \<open>The template of an instruction\<close>

fun op_template :: "rv_op \<Rightarrow> indicator \<times> x86 list" where
  "op_template rADD = (''add_instruction'', add_instruction_code)"
| "op_template rSUB = (''sub_instruction'', sub_instruction_code)"
| "op_template rSLL = (''sll_instruction'', sll_instruction_code)"
| "op_template rSLT = (''slt_instruction'', slt_instruction_code)"
| "op_template rSLTU = (''sltu_instruction'', sltu_instruction_code)"
| "op_template rXOR = (''xor_instruction'', xor_instruction_code)"
| "op_template rSRL = (''srl_instruction'', srl_instruction_code)"
| "op_template rSRA = (''sra_instruction'', sra_instruction_code)"
| "op_template rOR = (''or_instruction'', or_instruction_code)"
| "op_template rAND = (''and_instruction'', and_instruction_code)"
| "op_template rMUL = (''mul_instruction'', mul_instruction_code)"
| "op_template rMULH = (''mulh_instruction'', mulh_instruction_code)"
| "op_template rMULHSU = (''mulhsu_instruction'', mulhsu_instruction_code)"
| "op_template rMULHU = (''mulhu_instruction'', mulhu_instruction_code)"
| "op_template rDIV = (''div_instruction'', div_instruction_code)"
| "op_template rDIVU = (''divu_instruction'', divu_instruction_code)"
| "op_template rREM = (''rem_instruction'', rem_instruction_code)"
| "op_template rREMU = (''remu_instruction'', remu_instruction_code)"

fun op_imm_template :: "rv_op \<Rightarrow> indicator \<times> x86 list" where
  "op_imm_template rADD = (''addi_instruction'', addi_instruction_code)"
| "op_imm_template rSLT = (''stli_instruction'', stli_instruction_code)"
| "op_imm_template rSLTU = (''stliu_instruction'', stliu_instruction_code)"
| "op_imm_template rXOR = (''xori_instruction'', xori_instruction_code)"
| "op_imm_template rOR = (''ori_instruction'', ori_instruction_code)"
| "op_imm_template rAND = (''andi_instruction'', andi_instruction_code)"
| "op_imm_template rSLL = (''slli_instruction'', slli_instruction_code)"
| "op_imm_template rSRL = (''srli_instruction'', srli_instruction_code)"
| "op_imm_template rSRA = (''srai_instruction'', srai_instruction_code)"
| "op_imm_template _ = ('''', [])"

fun branch_template :: "rv_branch \<Rightarrow> indicator \<times> x86 list" where
  "branch_template rBEQ = (''beq_instruction'', beq_instruction_code)"
| "branch_template rBNE = (''bne_instruction'', bne_instruction_code)"
| "branch_template rBLT = (''blt_instruction'', blt_instruction_code)"
| "branch_template rBGE = (''bge_instruction'', bge_instruction_code)"
| "branch_template rBLTU = (''bltu_instruction'', bltu_instruction_code)"
| "branch_template rBGEU = (''bgeu_instruction'', bgeu_instruction_code)"

fun load_template :: "rv_load \<Rightarrow> indicator \<times> x86 list" where
  "load_template rLB = (''lb_instruction'', lb_instruction_code)"
| "load_template rLH = (''lh_instruction'', lh_instruction_code)"
| "load_template rLW = (''lw_instruction'', lw_instruction_code)"
| "load_template rLBU = (''lbu_instruction'', lbu_instruction_code)"
| "load_template rLHU = (''lhu_instruction'', lhu_instruction_code)"

fun store_template :: "rv_store \<Rightarrow> indicator \<times> x86 list" where
  "store_template rSB = (''sb_instruction'', sb_instruction_code)"
| "store_template rSH = (''sh_instruction'', sh_instruction_code)"
| "store_template rSW = (''sw_instruction'', sw_instruction_code)"

fun amo_code :: "rv_amo \<Rightarrow> u32" where
  "amo_code rAMOADD = 0"
| "amo_code rAMOSWAP = 1"
| "amo_code rAMOXOR = 4"
| "amo_code rAMOOR = 8"
| "amo_code rAMOAND = 0xc"
| "amo_code rAMOMAXU = 0x1c"

text \<open>The template, its parameters at an address, and whether the block ends the unit.\<close>

fun template_of :: "rv_instr \<Rightarrow> u32 \<Rightarrow> (indicator \<times> x86 list) \<times> u32 list \<times> bool" where
  "template_of (iLUI rd i) p = ((''lui_instruction'', lui_instruction_code), [drop_bit 12 i, reg_param rd], False)"
| "template_of (iAUIPC rd i) p =
     ((''auipc_instruction'', auipc_instruction_code), [drop_bit 12 i, reg_param rd, p], False)"
| "template_of (iJAL rd off) p =
     ((''jal_instruction_without_target'', jal_instruction_without_target_code), [reg_param rd, p + 4, p + off], True)"
| "template_of (iJALR rd rs1 off) p =
     ((''jalr_instruction'', jalr_instruction_code), [reg_param rd, p + 4, reg_param rs1, off], True)"
| "template_of (iBRANCH f rs1 rs2 off) p = (branch_template f, [reg_param rs1, reg_param rs2, p + off], True)"
| "template_of (iLOAD f rd rs1 off) p = (load_template f, [off, reg_param rs1, reg_param rd], False)"
| "template_of (iSTORE f rs1 rs2 off) p = (store_template f, [off, reg_param rs1, reg_param rs2], False)"
| "template_of (iOP_IMM f rd rs1 i) p =
     (op_imm_template f, [if f = rSRA then 0x400 OR i else i, reg_param rs1, reg_param rd], False)"
| "template_of (iOP f rd rs1 rs2) p = (op_template f, [reg_param rs1, reg_param rs2, reg_param rd], False)"
| "template_of iFENCE p = ((''fence_instruction'', fence_instruction_code), [p], False)"
| "template_of iFENCE_I p = ((''fence_i_instruction'', fence_i_instruction_code), [p], True)"
| "template_of (iAMO f rd rs1 rs2) p =
     ((''amo_instruction'', amo_instruction_code), [reg_param rs1, reg_param rs2, reg_param rd, amo_code f], False)"

definition emits :: "layout \<Rightarrow> (indicator \<times> x86 list) \<times> u32 list \<times> bool \<Rightarrow> prefetch_blob \<Rightarrow> hart \<Rightarrow> translator_result" where
  "emits lay t blob h = emit_translation lay (fst (fst t)) (snd (fst t)) (fst (snd t)) (snd (snd t)) blob h"

subsection \<open>The translators choose the template\<close>

text \<open>The immediates as the decoder assembles them, before their sign extension.\<close>

definition raw_imm_S :: "u32 \<Rightarrow> u32" where
  "raw_imm_S w = (drop_bit 7 w AND 0x1f) OR push_bit 5 (drop_bit 25 w AND 0x7f)"

definition raw_imm_B :: "u32 \<Rightarrow> u32" where
  "raw_imm_B w = (drop_bit 8 w AND 0xf) OR push_bit 4 (drop_bit 25 w AND 0x3f)
     OR push_bit 10 (drop_bit 7 w AND 0x1) OR push_bit 11 (drop_bit 31 w AND 0x1)"

definition raw_imm_J :: "u32 \<Rightarrow> u32" where
  "raw_imm_J w = (drop_bit 21 w AND 0x3ff) OR push_bit 10 (drop_bit 20 w AND 0x1)
     OR push_bit 11 (drop_bit 12 w AND 0xff) OR push_bit 19 (drop_bit 31 w AND 0x1)"

lemma decoded_fields:
  "instruction_decoding_per_type w ENCODING_TYPE_R = Some \<lparr>instr_encoding_type = ENCODING_TYPE_R,
     opcode = ucast (rv_opcode w), funct3 = ucast (rv_funct3 w), rd_index = ucast (rv_rd w),
     rs1_index = ucast (rv_rs1 w), rs2_index = ucast (rv_rs2 w), funct7 = ucast (rv_funct7 w), imm = 0\<rparr>"
  "instruction_decoding_per_type w ENCODING_TYPE_I = Some \<lparr>instr_encoding_type = ENCODING_TYPE_I,
     opcode = ucast (rv_opcode w), funct3 = ucast (rv_funct3 w), rd_index = ucast (rv_rd w),
     rs1_index = ucast (rv_rs1 w), rs2_index = 0, funct7 = 0, imm = drop_bit 20 w AND 0xfff\<rparr>"
  "instruction_decoding_per_type w ENCODING_TYPE_S = Some \<lparr>instr_encoding_type = ENCODING_TYPE_S,
     opcode = ucast (rv_opcode w), funct3 = ucast (rv_funct3 w), rd_index = 0,
     rs1_index = ucast (rv_rs1 w), rs2_index = ucast (rv_rs2 w), funct7 = 0,
     imm = raw_imm_S w\<rparr>"
  "instruction_decoding_per_type w ENCODING_TYPE_B = Some \<lparr>instr_encoding_type = ENCODING_TYPE_B,
     opcode = ucast (rv_opcode w), funct3 = ucast (rv_funct3 w), rd_index = 0,
     rs1_index = ucast (rv_rs1 w), rs2_index = ucast (rv_rs2 w), funct7 = 0,
     imm = raw_imm_B w\<rparr>"
  "instruction_decoding_per_type w ENCODING_TYPE_U = Some \<lparr>instr_encoding_type = ENCODING_TYPE_U,
     opcode = ucast (rv_opcode w), funct3 = 0, rd_index = ucast (rv_rd w),
     rs1_index = 0, rs2_index = 0, funct7 = 0, imm = drop_bit 12 w AND 0xfffff\<rparr>"
  "instruction_decoding_per_type w ENCODING_TYPE_UJ = Some \<lparr>instr_encoding_type = ENCODING_TYPE_UJ,
     opcode = ucast (rv_opcode w), funct3 = 0, rd_index = ucast (rv_rd w),
     rs1_index = 0, rs2_index = 0, funct7 = 0,
     imm = raw_imm_J w\<rparr>"
  by (simp_all only: instruction_decoding_per_type.simps cleared_decoding_def decode_reg_field
      decode_small_field(1,2) decoding.simps raw_imm_S_def raw_imm_B_def raw_imm_J_def)
     (simp_all only: decode_small_field(3))

lemma raw_imm_agrees:
  "sign_extend32 (raw_imm_S w) 11 = rv_imm_S w"
  "sign_extend32 (raw_imm_B w * 2) 12 = rv_imm_B w"
  "sign_extend32 (raw_imm_J w * 2) 20 = rv_imm_J w"
  using imm_S_agrees [of w] imm_B_agrees [of w] imm_J_agrees [of w]
  by (simp_all only: raw_imm_S_def raw_imm_B_def raw_imm_J_def push_bit_eq_mult power_one_right)

declare instruction_decoding_per_type.simps [simp del]

text \<open>The table is indexed by the opcode of the word.\<close>

lemma translate_instruction_opcode:
  "translate_instruction lay blob w h =
     (case translators (ucast (rv_opcode w)) of None \<Rightarrow> None | Some t \<Rightarrow> t lay blob w h)"
  unfolding translate_instruction_def decode_small_field ..

lemmas translate_rules =
  translate_instruction_opcode translators_def riscv_opcodes emits_def decoded_fields

lemma translate_op:
  assumes "rv_opcode w = 0x33" "rv_op_of (rv_funct3 w) (rv_funct7 w) = Some f"
  shows "translate_instruction lay blob w h = emits lay (template_of (iOP f (rv_rd w) (rv_rs1 w) (rv_rs2 w)) p) blob h"
  using assms
  by (auto simp: translate_rules riscv_arithmetic_instructions_translation_entry_def op_params_def
      riscv_arithmetic_instructions_class0_translation_entry_def riscv_mul_div_instructions_translation_entry_def
      arithmetic_handlers_def mul_div_handlers_def riscv_add_sub_translator_def riscv_srl_sra_translator_def
      riscv_add_translator_def riscv_sub_translator_def riscv_and_translator_def riscv_or_translator_def riscv_xor_translator_def riscv_slt_translator_def riscv_sltu_translator_def riscv_sll_translator_def riscv_srl_translator_def riscv_sra_translator_def
      riscv_mul_translator_def riscv_mulh_translator_def riscv_mulhu_translator_def riscv_mulhsu_translator_def riscv_div_translator_def riscv_rem_translator_def riscv_divu_translator_def riscv_remu_translator_def
      rv_op_of_def split: if_splits)

lemma translate_op_imm:
  assumes "rv_opcode w = 0x13" "rv_op_imm_of (rv_funct3 w) = Some f"
  shows "translate_instruction lay blob w h = emits lay (template_of (iOP_IMM f (rv_rd w) (rv_rs1 w) (rv_imm_I w)) p) blob h"
  using assms
  by (auto simp: translate_rules riscv_arithmetic_immediate_instructions_translation_entry_def signed_imm_params_def
      imm_I_agrees arithmetic_immediate_handlers_def riscv_addi_translator_def riscv_stli_translator_def
      riscv_stliu_translator_def riscv_xori_translator_def riscv_ori_translator_def riscv_andi_translator_def
      rv_op_imm_of_def split: if_splits)

lemma translate_branch:
  assumes "rv_opcode w = 0x63" "rv_branch_of (rv_funct3 w) = Some f" "next_instruction_to_fetch blob = p"
  shows "translate_instruction lay blob w h = emits lay (template_of (iBRANCH f (rv_rs1 w) (rv_rs2 w) (rv_imm_B w)) p) blob h"
  using assms
  by (auto simp: translate_rules riscv_branch_instructions_translation_entry_def branch_params_def
      raw_imm_agrees branch_handlers_def riscv_beq_translator_def riscv_bne_translator_def
      riscv_blt_translator_def riscv_bltu_translator_def riscv_bge_translator_def riscv_bgeu_translator_def
      rv_branch_of_def split: if_splits)

lemma translate_load:
  assumes "rv_opcode w = 0x03" "rv_load_of (rv_funct3 w) = Some f"
  shows "translate_instruction lay blob w h = emits lay (template_of (iLOAD f (rv_rd w) (rv_rs1 w) (rv_imm_I w)) p) blob h"
  using assms
  by (auto simp: translate_rules riscv_memory_load_instructions_translation_entry_def load_params_def
      imm_I_agrees load_handlers_def riscv_lb_translator_def riscv_lbu_translator_def
      riscv_lh_translator_def riscv_lhu_translator_def riscv_lw_translator_def rv_load_of_def split: if_splits)

lemma translate_store:
  assumes "rv_opcode w = 0x23" "rv_store_of (rv_funct3 w) = Some f"
  shows "translate_instruction lay blob w h = emits lay (template_of (iSTORE f (rv_rs1 w) (rv_rs2 w) (rv_imm_S w)) p) blob h"
  using assms
  by (auto simp: translate_rules riscv_memory_store_instructions_translation_entry_def store_params_def
      raw_imm_agrees store_handlers_def riscv_sb_translator_def riscv_sh_translator_def riscv_sw_translator_def
      rv_store_of_def split: if_splits)

lemma translate_jumps:
  assumes "next_instruction_to_fetch blob = p"
  shows "rv_opcode w = 0x6f \<Longrightarrow>
      translate_instruction lay blob w h = emits lay (template_of (iJAL (rv_rd w) (rv_imm_J w)) p) blob h"
    and "rv_opcode w = 0x67 \<Longrightarrow>
      translate_instruction lay blob w h = emits lay (template_of (iJALR (rv_rd w) (rv_rs1 w) (rv_imm_I w)) p) blob h"
  using assms
  by (simp_all add: translate_rules riscv_jal_translator_def riscv_jalr_translator_def raw_imm_agrees imm_I_agrees Let_def)

lemma drop_imm_U: "drop_bit 12 (rv_imm_U w) = drop_bit 12 w AND 0xfffff"
  unfolding and_field_masks
  by (rule bit_word_eqI) (auto simp: rv_imm_U_def rv_bits_def bit_simps dest: bit_imp_le_length)

lemma translate_upper:
  assumes "next_instruction_to_fetch blob = p"
  shows "rv_opcode w = 0x37 \<Longrightarrow>
      translate_instruction lay blob w h = emits lay (template_of (iLUI (rv_rd w) (rv_imm_U w)) p) blob h"
    and "rv_opcode w = 0x17 \<Longrightarrow>
      translate_instruction lay blob w h = emits lay (template_of (iAUIPC (rv_rd w) (rv_imm_U w)) p) blob h"
  using assms
  by (simp_all add: translate_rules riscv_lui_translator_def riscv_auipc_translator_def drop_imm_U)

lemma translate_fence:
  assumes "rv_opcode w = 0x0f" "next_instruction_to_fetch blob = p"
  shows "rv_funct3 w = 0 \<Longrightarrow> translate_instruction lay blob w h = emits lay (template_of iFENCE p) blob h"
    and "rv_funct3 w = 1 \<Longrightarrow> translate_instruction lay blob w h = emits lay (template_of iFENCE_I p) blob h"
  using assms
  by (simp_all add: translate_rules riscv_fence_instructions_translation_entry_def fence_handlers_def
      riscv_fence_translator_def riscv_fence_i_translator_def)

text \<open>The shift amount and the bit that tells the two right shifts apart.\<close>

lemma raw_shift_imm: "drop_bit 20 w AND 0xfff = push_bit 5 (rv_funct7 w) OR reg_param (rv_rs2 w)"
  unfolding and_field_masks
  by (rule bit_word_eqI) (auto simp: rv_funct7_def rv_rs2_def rv_bits_def bit_simps dest: bit_imp_le_length)

lemma shift_imm_bit:
  "reg_param r AND 0x400 = 0" "(0x400 OR reg_param r) AND 0x400 \<noteq> 0"
proof -
  have one: "bit (0x400 :: u32) n \<longleftrightarrow> n = 10" for n
  proof -
    have "(0x400 :: u32) = 2 ^ 10" by simp
    then show ?thesis by (simp only: bit_exp_iff) (auto simp: possible_bit_def)
  qed
  show "reg_param r AND 0x400 = 0"
    by (rule bit_word_eqI) (simp only: bit_and_iff one bit_unsigned_iff, auto dest: bit_imp_le_length)
  have "bit ((0x400 OR reg_param r) AND 0x400) 10" by (simp add: bit_and_iff bit_or_iff one)
  then show "(0x400 OR reg_param r) AND 0x400 \<noteq> 0" by (metis bit_0_eq bot_apply bot_bool_def)
qed

lemma translate_shift_imm:
  assumes "rv_opcode w = 0x13" "rv_shift_imm_of (rv_funct3 w) (rv_funct7 w) = Some f"
  shows "translate_instruction lay blob w h =
    emits lay (template_of (iOP_IMM f (rv_rd w) (rv_rs1 w) (reg_param (rv_rs2 w))) p) blob h"
  using assms
  by (auto simp: translate_rules riscv_arithmetic_immediate_instructions_translation_entry_def raw_imm_params_def
      raw_shift_imm shift_imm_bit arithmetic_immediate_handlers_def riscv_slli_translator_def
      riscv_right_shift_translator_def rv_shift_imm_of_def split: if_splits)

lemma funct5_field:
  "drop_bit 2 (ucast (rv_funct7 w) :: u8) = ucast (rv_bits w 31 27)"
  "(ucast (ucast (rv_bits w 31 27) :: u8) :: u32) = rv_bits w 31 27"
  by (rule bit_word_eqI; auto simp: rv_funct7_def rv_bits_def bit_simps dest: bit_imp_le_length)+

lemma translate_amo:
  assumes "rv_opcode w = 0x2f" "rv_amo_of (rv_bits w 31 27) = Some f"
  shows "translate_instruction lay blob w h = emits lay (template_of (iAMO f (rv_rd w) (rv_rs1 w) (rv_rs2 w)) p) blob h"
  using assms
  by (auto simp: translate_rules riscv_amo_instructions_translation_entry_def amo_params_def funct5_field
      amo_handlers_def riscv_amo_translator_def rv_amo_of_def split: if_splits)

lemma translate_decoded:
  assumes "rv_decode w = Some i" "next_instruction_to_fetch blob = p"
  shows "translate_instruction lay blob w h = emits lay (template_of i p) blob h"
  using assms
  by (auto simp only: rv_decode_def Let_def map_option_eq_Some option.inject option.distinct split: if_splits
      intro: translate_op translate_op_imm translate_shift_imm translate_branch translate_load translate_store
        translate_jumps translate_upper translate_fence translate_amo)

text \<open>Every instruction that decodes has a translation: the block of its template.\<close>

lemma translation_of_decoded:
  assumes "rv_decode w = Some i"
  shows "translation_of w p = (case template_of i p of ((ind, code), ps, stop) \<Rightarrow> Some (code, ps, stop))"
proof -
  obtain ind code ps stop where t: "template_of i p = ((ind, code), ps, stop)" by (metis surj_pair)
  have "translation_of w p = Some (code, ps, stop)"
    using translate_decoded [OF assms] t by (intro translation_of_emits [of p w ind]) (simp add: emits_def)
  with t show ?thesis by simp
qed

subsection \<open>The template runs the instruction\<close>

context vmm_calls
begin

lemma lui_block:
  assumes "entered s h w" "quiet h w"
  shows "completes cc [i, reg_param rd] lui_instruction_code s (rv_exec_lui rd (push_bit 12 i) h) w"
  unfolding lui_instruction_code_def
  by (rule completes_body [OF assms]) (simp add: template_code x86_run rv_ref)

lemma auipc_block:
  assumes "entered s h w" "quiet h w"
  shows "completes cc [i, reg_param rd, pc h] auipc_instruction_code s (rv_exec_auipc rd (push_bit 12 i) h) w"
  unfolding auipc_instruction_code_def
  by (rule completes_body [OF assms]) (simp add: template_code x86_run rv_ref add.commute)

lemmas op_blocks = add_block sub_block sll_block slt_block sltu_block xor_block srl_block sra_block or_block
  and_block mul_block mulh_block mulhsu_block mulhu_block div_block divu_block rem_block remu_block

lemma op_block:
  assumes "entered s h w" "quiet h w" "\<not> host_fault (iOP f rd rs1 rs2) h"
  shows "completes cc [reg_param rs1, reg_param rs2, reg_param rd] (snd (op_template f)) s
    (rv_exec_op f rd rs1 rs2 h) w"
  using assms by (cases f) (simp_all add: op_blocks)

lemma op_block_fault:
  assumes "entered s h w" "quiet h w" "host_fault (iOP f rd rs1 rs2) h"
  shows "x86_exec cc [reg_param rs1, reg_param rs2, reg_param rd] (snd (op_template f)) s = Divide_error"
  using assms by (cases f) (simp_all add: div_block_overflow rem_block_fault remu_block_fault)

lemma branch_block:
  assumes "entered s h w" "quiet h w"
  shows "leaves cc [reg_param rs1, reg_param rs2, pc h + off] (snd (branch_template f)) s
    (rv_exec_branch f rs1 rs2 off h) w"
  using assms by (cases f) (simp_all add: beq_block bne_block blt_block bge_block bltu_block bgeu_block)

end

context memory_calls
begin

lemma load_block:
  assumes "entered s h w" "quiet h w" "mem_bytes h w (rv_ea rs1 off h) (rv_load_size f) = Some bs"
  shows "completes cc [off, reg_param rs1, reg_param rd] (snd (load_template f)) s (rv_exec_load f rd bs h) w"
  using assms by (cases f) (simp_all add: lb_block lh_block lw_block lbu_block lhu_block)

lemma store_block:
  assumes "entered s h w" "quiet h w" "mem_update h w (rv_ea rs1 off h) (rv_store_bytes f rs2 h) = Some w'"
  shows "completes cc [off, reg_param rs1, reg_param rs2] (snd (store_template f)) s (rv_next h) w'"
  using assms by (cases f) (simp_all add: sb_block sh_block sw_block)

end

text \<open>The shift by the raw field of \<open>srai\<close>, whose tenth bit the host ignores.\<close>

lemma srai_shift_amount: "rv_alu rSRA a (0x400 OR reg_param r) = rv_alu rSRA a (reg_param r)"
proof -
  have "(0x400 OR reg_param r) AND 31 = reg_param r AND 31"
    by (simp add: bit.conj_disj_distrib2)
  then show ?thesis by (simp only: rv_alu.simps shift_amount(2) [symmetric])
qed

text \<open>What decoding guarantees of the operands of an instruction.\<close>

fun decoded_shape :: "rv_instr \<Rightarrow> bool" where
  "decoded_shape (iLUI rd i) = (push_bit 12 (drop_bit 12 i) = i)"
| "decoded_shape (iAUIPC rd i) = (push_bit 12 (drop_bit 12 i) = i)"
| "decoded_shape (iOP_IMM f rd rs1 i) =
     (snd (op_imm_template f) \<noteq> [] \<and> (f = rSRA \<longrightarrow> i = reg_param (ucast i)))"
| "decoded_shape _ = True"

lemma imm_U_shape: "push_bit 12 (drop_bit 12 (rv_imm_U w)) = rv_imm_U w"
  by (rule bit_word_eqI) (auto simp: rv_imm_U_def rv_bits_def bit_simps)

lemma op_imm_codes: "rv_op_imm_of f3 = Some f \<Longrightarrow> snd (op_imm_template f) \<noteq> [] \<and> f \<noteq> rSRA"
  "rv_shift_imm_of f3 f7 = Some f \<Longrightarrow> snd (op_imm_template f) \<noteq> []"
  by (auto simp: rv_op_imm_of_def rv_shift_imm_of_def template_code BEGIN_TRANSLATION_def
      addi_instruction_code_def stli_instruction_code_def stliu_instruction_code_def xori_instruction_code_def
      ori_instruction_code_def andi_instruction_code_def slli_instruction_code_def srli_instruction_code_def
      srai_instruction_code_def split: if_splits)

lemma reg_param_ucast: "reg_param (ucast (reg_param r)) = reg_param r"
  by (rule bit_word_eqI) (auto simp: bit_simps dest: bit_imp_le_length)

lemma rv_decode_shape: "rv_decode w = Some i \<Longrightarrow> decoded_shape i"
  by (auto simp: rv_decode_def Let_def imm_U_shape reg_param_ucast dest: op_imm_codes split: if_splits)

context vmm_calls
begin

lemmas op_imm_blocks = addi_block stli_block stliu_block xori_block ori_block andi_block slli_block srli_block srai_block

lemma op_imm_block:
  assumes "entered s h w" "quiet h w" "decoded_shape (iOP_IMM f rd rs1 i)"
  shows "completes cc [if f = rSRA then 0x400 OR i else i, reg_param rs1, reg_param rd]
    (snd (op_imm_template f)) s (rv_exec_op_imm f rd rs1 i h) w"
proof (cases "f = rSRA")
  case True
  then have "i = reg_param (ucast i)" using assms(3) by simp
  then have "rv_exec_op_imm rSRA rd rs1 (0x400 OR i) h = rv_exec_op_imm rSRA rd rs1 i h"
    using srai_shift_amount unfolding rv_exec_op_imm_def by metis
  with True srai_block [OF assms(1,2), of "0x400 OR i" rs1 rd] show ?thesis by simp
next
  case False
  with assms show ?thesis by (cases f) (simp_all add: op_imm_blocks)
qed

end

lemma vmm_amo_call:
  "vmm_cc shell do_syscall amo_instruction_slowpath_sym
     [Vhart 0, Vint (ucast (reg_param rs1)), Vint (ucast (reg_param rs2)), Vint (ucast (reg_param rd)), Vint (ucast f5)] h m
   = from_mmu (\<lambda>_. Vundef) (amo_instruction_slowpath h m (ucast rs1) (ucast rs2) (ucast rd) f5)"
proof -
  have "(ucast (ucast (reg_param r) :: u64) :: u8) = ucast r" for r
    by (rule bit_word_eqI) (auto simp: bit_simps)
  then show ?thesis by (simp add: vmm_cc_def)
qed

lemma unat_reg_byte: "unat (ucast (r :: 5 word) :: u8) = unat r"
  by transfer (simp add: take_bit_eq_mod)

lemma amo_slowpath_rmw:
  "amo_instruction_slowpath h m a b c (amo_code f) = amo_rmw (rv_amo_fun f) h m a b c"
proof -
  have "(\<lambda>x y. if y < x then x else y :: u32) = max"
    by (auto simp: fun_eq_iff max_def)
  then have "rv_amo_fun rAMOMAXU = (\<lambda>x y. if y < x then x else y)" by (auto simp: fun_eq_iff)
  moreover have "rv_amo_fun rAMOADD = (\<lambda>x y. x + y)" "rv_amo_fun rAMOSWAP = (\<lambda>x y. y)" "rv_amo_fun rAMOXOR = (\<lambda>x y. x XOR y)"
    "rv_amo_fun rAMOOR = (\<lambda>x y. x OR y)" "rv_amo_fun rAMOAND = (\<lambda>x y. x AND y)"
    by (simp_all add: fun_eq_iff)
  ultimately show ?thesis
    by (cases f) (simp_all add: amo_instruction_slowpath_def amoadd_slowpath_def amoswap_slowpath_def
        amoxor_slowpath_def amoor_slowpath_def amoand_slowpath_def amomaxu_slowpath_def)
qed

lemma amo_runs:
  assumes "entered s h m" "vmm_quiet h m" "rv_step (iAMO f rd rs1 rs2) h m = Some (h', m')"
  shows "completes (vmm_cc shell do_syscall) [reg_param rs1, reg_param rs2, reg_param rd, amo_code f]
    amo_instruction_code s h' m'"
proof -
  have wf: "wf_hart h" by (rule enteredD(7) [OF assms(1)])
  from assms(3) obtain bs where b: "rv_x h rs1 AND 3 = 0" "guest_bytes h m (rv_x h rs1) 4 = Some bs"
    "guest_update h m (rv_x h rs1) (le_bytes 4 (ucast (rv_amo_fun f (ucast (le_word bs)) (rv_x h rs2)))) = Some m'"
    "h' = rv_next (rv_set rd (ucast (le_word bs)) h)"
    by (auto simp: Let_def split: if_splits bind_splits)
  have "amo_rmw (rv_amo_fun f) h m (ucast rs1) (ucast rs2) (ucast rd)
      = Mret () (write_reg (ucast rd) (ucast (le_word bs)) h) m'"
    using b wf by (intro amo_rmw_correct) (simp_all add: unat_reg_byte rv_x_nth wf_hart_length)
  then have "vmm_cc shell do_syscall amo_instruction_slowpath_sym
      [Vhart 0, Vint (ucast (reg_param rs1)), Vint (ucast (reg_param rs2)), Vint (ucast (reg_param rd)),
       Vint (ucast (amo_code f))] h m = Returned Vundef (write_reg (ucast rd) (ucast (le_word bs)) h) m'"
    unfolding vmm_amo_call amo_slowpath_rmw by (simp add: from_mmu_def)
  from vmm.amo_block [OF assms(1,2) this] show ?thesis
    using wf b(4) by (simp add: write_reg_def wf_hart_length clear_zero_write_reg [OF wf, unfolded write_reg_def])
qed

lemma fence_i_runs:
  assumes "entered s h m" "vmm_quiet h m"
  shows "leaves (vmm_cc shell do_syscall) ps fence_i_instruction_code s (rv_next (flush_translation_cache h)) m"
  by (rule vmm.fence_i_block [OF assms]) (simp add: vmm_cc_def)

text \<open>
  A block of the cache does what its instruction does: from the state in which control enters
  it, it arrives at the next block, or at the monitor if it ends the unit, with the hart and
  the memory of the instruction's step.
\<close>

lemma template_runs:
  assumes "decoded_shape i" "entered s h m" "vmm_quiet h m" "rv_step i h m = Some (h', m')"
    and "\<not> host_fault i h" "template_of i (pc h) = ((ind, code), ps, stop)"
  shows "if stop then leaves (vmm_cc shell do_syscall) ps code s h' m'
    else completes (vmm_cc shell do_syscall) ps code s h' m'"
proof (cases i)
  case (iOP f rd rs1 rs2)
  with assms vmm.op_block [OF assms(2,3), where f = f] show ?thesis by auto
next
  case (iOP_IMM f rd rs1 i')
  with assms vmm.op_imm_block [OF assms(2,3), where f = f and i = i'] show ?thesis by auto
next
  case (iBRANCH f rs1 rs2 off)
  with assms vmm.branch_block [OF assms(2,3), where f = f] show ?thesis by auto
next
  case (iLOAD f rd rs1 off)
  with assms vmm.load_block [OF assms(2,3), where f = f] show ?thesis by auto
next
  case (iSTORE f rs1 rs2 off)
  with assms vmm.store_block [OF assms(2,3), where f = f] show ?thesis by auto
next
  case (iLUI rd i')
  with assms vmm.lui_block [OF assms(2,3), where i = "drop_bit 12 i'"] show ?thesis by auto
next
  case (iAUIPC rd i')
  with assms vmm.auipc_block [OF assms(2,3), where i = "drop_bit 12 i'"] show ?thesis by auto
next
  case (iJAL rd off)
  with assms vmm.jal_block [OF assms(2,3)] show ?thesis by auto
next
  case (iJALR rd rs1 off)
  with assms vmm.jalr_block [OF assms(2,3)] show ?thesis by auto
next
  case iFENCE
  with assms vmm.fence_block [OF assms(2,3)] show ?thesis by auto
next
  case iFENCE_I
  with assms fence_i_runs [OF assms(2,3)] show ?thesis by auto
next
  case (iAMO f rd rs1 rs2)
  with assms amo_runs [OF assms(2,3)] show ?thesis by auto
qed

lemma template_faults:
  assumes "entered s h m" "vmm_quiet h m" "host_fault i h" "template_of i (pc h) = ((ind, code), ps, stop)"
  shows "x86_exec (vmm_cc shell do_syscall) ps code s = Divide_error"
proof (cases i)
  case (iOP f rd rs1 rs2)
  with assms vmm.op_block_fault [OF assms(1,2)] show ?thesis by fastforce
qed (use assms(3) in auto)

lemma translation_template:
  assumes "rv_decode w = Some i" "translation_of w p = Some (code, ps, stop)"
  obtains ind where "template_of i p = ((ind, code), ps, stop)"
  using assms(2) translation_of_decoded [OF assms(1), of p] that by (auto split: prod.splits)

lemma translation_runs:
  assumes "rv_decode w = Some i" "translation_of w (pc h) = Some (code, ps, stop)"
    and "entered s h m" "vmm_quiet h m" "rv_step i h m = Some (h', m')" "\<not> host_fault i h"
  shows "if stop then leaves (vmm_cc shell do_syscall) ps code s h' m'
    else completes (vmm_cc shell do_syscall) ps code s h' m'"
proof -
  obtain ind where "template_of i (pc h) = ((ind, code), ps, stop)" using translation_template [OF assms(1,2)] .
  then show ?thesis by (rule template_runs [OF rv_decode_shape [OF assms(1)] assms(3-6)])
qed

lemma translation_faults:
  assumes "rv_decode w = Some i" "translation_of w (pc h) = Some (code, ps, stop)"
    and "entered s h m" "vmm_quiet h m" "host_fault i h"
  shows "x86_exec (vmm_cc shell do_syscall) ps code s = Divide_error"
proof -
  obtain ind where "template_of i (pc h) = ((ind, code), ps, stop)" using translation_template [OF assms(1,2)] .
  then show ?thesis by (rule template_faults [OF assms(3-5)])
qed

end
