(* ===== verification/Translation_Chain.thy ===== *)
theory Translation_Chain
  imports Riscv_Step
begin

text \<open>
  What happens when a block has run: the host falls through to the code that lies behind it in
  the cache. The invariant \<open>linked\<close> says what lies there: the translation of the next guest
  instruction, or the jumper that goes back to the monitor. With it, running the cache from
  the block that \<open>vmresume\<close> enters executes guest instructions one after another until
  control is back in the monitor.
\<close>

definition jumper_block :: "layout \<Rightarrow> tc_block" where
  "jumper_block lay = \<lparr>blk_code = vmm_jumper, blk_params = [], blk_len = jumper_size lay\<rparr>"

definition block_end :: "hart \<Rightarrow> program_counter_mapping_item \<Rightarrow> int" where
  "block_end h i = uint (tc_offset i) +
     (case translation_cache h (uint (tc_offset i)) of Some blk \<Rightarrow> blk_len blk | None \<Rightarrow> 0)"

definition linked_at :: "layout \<Rightarrow> hart \<Rightarrow> int \<Rightarrow> u32 \<Rightarrow> bool" where
  "linked_at lay h off p \<longleftrightarrow>
     translation_cache h off = Some (jumper_block lay) \<and> off + jumper_size lay \<le> translation_cache_ptr h \<or>
     (\<exists>j \<in> set (live_mappings h). uint (tc_offset j) = off \<and> guest_pc j = p)"

definition linked :: "layout \<Rightarrow> hart \<Rightarrow> bool" where
  "linked lay h \<longleftrightarrow> (\<forall>i \<in> set (live_mappings h). linked_at lay h (block_end h i) (guest_pc i + 4))"

text \<open>While a unit is being translated its last block is still open at the end of the cache.\<close>

definition linked_upto :: "layout \<Rightarrow> hart \<Rightarrow> u32 \<Rightarrow> bool" where
  "linked_upto lay h nxt \<longleftrightarrow> (\<forall>i \<in> set (live_mappings h).
     linked_at lay h (block_end h i) (guest_pc i + 4) \<or>
     block_end h i = translation_cache_ptr h \<and> guest_pc i + 4 = nxt)"

lemma linked_upto: "linked lay h \<Longrightarrow> linked_upto lay h nxt"
  by (simp add: linked_def linked_upto_def)

lemma live_mappings_flush [simp]: "live_mappings (flush_translation_cache h) = []"
  by (simp add: live_mappings_def flush_translation_cache_def)

lemma linked_flush: "linked lay (flush_translation_cache h)"
  by (simp add: linked_def)

subsection \<open>Committing a block keeps the links\<close>

text \<open>A copy to the end of the used part keeps what lies in the used part.\<close>

lemma tc_memcpy_below:
  assumes "tc off = Some blk" "off + blk_len blk \<le> ptr" "off \<noteq> ptr"
  shows "tc_memcpy ptr new tc off = Some blk"
  using assms by (simp add: tc_memcpy_def)

lemma block_end_memcpy:
  assumes "tc_wf b h" "i \<in> set (live_mappings h)"
    and "translation_cache h' = tc_memcpy (translation_cache_ptr h) new (translation_cache h)"
  shows "block_end h' i = block_end h i"
  using block_at_memcpy [OF assms(1,2)] assms(3) by (simp add: block_end_def)

lemma linked_at_memcpy:
  assumes "linked_at lay h off p" "0 < jumper_size lay"
    and "translation_cache h' = tc_memcpy (translation_cache_ptr h) new (translation_cache h)"
    and "translation_cache_ptr h \<le> translation_cache_ptr h'"
    and "set (live_mappings h) \<subseteq> set (live_mappings h')"
  shows "linked_at lay h' off p"
proof (cases "\<exists>j \<in> set (live_mappings h). uint (tc_offset j) = off \<and> guest_pc j = p")
  case True
  with assms(5) show ?thesis by (auto simp: linked_at_def)
next
  case False
  with assms(1) have j: "translation_cache h off = Some (jumper_block lay)" "off + jumper_size lay \<le> translation_cache_ptr h"
    by (auto simp: linked_at_def)
  then have "translation_cache h' off = Some (jumper_block lay)"
    unfolding assms(3) using assms(2) by (intro tc_memcpy_below) (simp_all add: jumper_block_def)
  with j(2) assms(4) show ?thesis by (simp add: linked_at_def)
qed

lemma commit_linked:
  assumes "tc_wf b h" "linked_upto lay h addr" "0 < jumper_size lay" "0 \<le> blk_len blk"
    and "set (live_mappings h') = insert \<lparr>guest_pc = addr, tc_offset = word_of_int (translation_cache_ptr h)\<rparr>
      (set (live_mappings h))"
    and "translation_cache h' = tc_memcpy (translation_cache_ptr h) blk (translation_cache h)"
    and "translation_cache_ptr h' = translation_cache_ptr h + blk_len blk"
  shows "linked_upto lay h' (addr + 4)"
  unfolding linked_upto_def
proof (intro ballI)
  let ?item = "\<lparr>guest_pc = addr, tc_offset = word_of_int (translation_cache_ptr h)\<rparr>"
  fix i
  assume i: "i \<in> set (live_mappings h')"
  note off = uint_tc_offset [OF assms(1)]
  show "linked_at lay h' (block_end h' i) (guest_pc i + 4) \<or>
      block_end h' i = translation_cache_ptr h' \<and> guest_pc i + 4 = addr + 4"
  proof (cases "i \<in> set (live_mappings h)")
    case True
    note e = block_end_memcpy [OF assms(1) True assms(6)]
    have "linked_at lay h (block_end h i) (guest_pc i + 4) \<or> block_end h i = translation_cache_ptr h \<and> guest_pc i + 4 = addr"
      using assms(2) True by (auto simp: linked_upto_def)
    then show ?thesis
    proof
      assume "linked_at lay h (block_end h i) (guest_pc i + 4)"
      from linked_at_memcpy [OF this assms(3,6)] assms(4,5,7) e show ?thesis by auto
    next
      assume "block_end h i = translation_cache_ptr h \<and> guest_pc i + 4 = addr"
      with assms(5) off e show ?thesis by (auto simp: linked_at_def)
    qed
  next
    case False
    with i assms(5) have "i = ?item" by auto
    with off assms(6,7) show ?thesis by (simp add: block_end_def tc_memcpy_def)
  qed
qed

lemma emit_linked:
  assumes "tc_wf b h" "in_window b (next_instruction_to_fetch blob)"
    and "cached h (next_instruction_to_fetch blob) = None" "layout_ok lay" "0 < jumper_size lay"
    and "linked_upto lay h (next_instruction_to_fetch blob)"
    and run: "emit_translation lay ind code ps stop blob h = Some (blob', h')"
  shows "h' = h \<and> is_to_stop blob' \<or> linked_upto lay h' (next_instruction_to_fetch blob + 4)"
proof (cases "cache_full lay ind h \<and> \<not> is_flushable blob")
  case True
  with run show ?thesis by (auto simp: emit_translation_def PRECHECK_TRANSLATION_CACHE_def cache_full_def)
next
  case False
  let ?h0 = "if cache_full lay ind h then flush_translation_cache h else h" and ?a = "next_instruction_to_fetch blob"
  have wf0: "tc_wf b ?h0" using assms(1) by (simp add: tc_wf_flush)
  have fresh: "cached ?h0 ?a = None" using assms(1-3) cached_flush by simp
  have room: "TRANSLATION_SIZE lay ind \<le> unoccupied_cache_size lay ?h0"
    using assms(4) by (auto simp: cache_full_def unoccupied_flush layout_ok_def le_diff_eq)
  have size: "0 < TRANSLATION_SIZE lay ind" "0 \<le> jumper_size lay" using assms(4) by (simp_all add: layout_ok_def)
  from COMMIT_TRANSLATION_refines [OF wf0 assms(2) fresh size(1) room size(2), of code ps]
  obtain h2 where h2: "COMMIT_TRANSLATION lay ind code ps ?h0 ?a = Some h2"
    "translation_cache_ptr h2 = translation_cache_ptr ?h0 + TRANSLATION_SIZE lay ind"
    "set (live_mappings h2) = insert \<lparr>guest_pc = ?a, tc_offset = word_of_int (translation_cache_ptr ?h0)\<rparr> (set (live_mappings ?h0))"
    "translation_cache h2 = tc_memcpy (translation_cache_ptr ?h0)
       \<lparr>blk_code = code, blk_params = ps, blk_len = TRANSLATION_SIZE lay ind\<rparr> (translation_cache ?h0)"
    by blast
  have "PRECHECK_TRANSLATION_CACHE lay ind blob h = (False, blob\<lparr>is_flushable := False\<rparr>, ?h0)"
    using False by (simp add: PRECHECK_TRANSLATION_CACHE_def cache_full_def)
  with run h2(1) have "h' = h2" by (simp add: emit_translation_def)
  moreover have "linked_upto lay ?h0 ?a" using assms(6) linked_upto [OF linked_flush] by simp
  from commit_linked [OF wf0 this assms(5) _ h2(3,4)] h2(2) size(1) have "linked_upto lay h2 (?a + 4)" by simp
  ultimately show ?thesis by simp
qed

lemma prefetch_one_linked:
  assumes "tu_inv b h m" "in_window b (next_instruction_to_fetch blob)"
    and "cached h (next_instruction_to_fetch blob) = None" "layout_ok lay" "0 < jumper_size lay"
    and "linked_upto lay h (next_instruction_to_fetch blob)"
    and run: "prefetch_one_instruction lay blob h m = Mret blob' h' m'"
  shows "h' = h \<and> is_to_stop blob' \<or> linked_upto lay h' (next_instruction_to_fetch blob + 4)"
proof -
  have "tc_wf b h" and np: "\<not> paging h" using assms(1) by (auto simp: tu_inv_def)
  from run np obtain w where "translate_instruction lay blob w h = Some (blob', h')"
    by (auto simp: prefetch_one_instruction_def fetch_direct split: option.splits)
  from translate_instruction_emits [OF this]
  obtain ind code ps stop where "emit_translation lay ind code ps stop blob h = Some (blob', h')" by blast
  from emit_linked [OF \<open>tc_wf b h\<close> assms(2-6) this] show ?thesis .
qed

lemma prefetch_loop_linked:
  assumes "tu_inv b h m" "layout_ok lay" "0 < jumper_size lay"
    and "unat (next_instruction_to_fetch blob - b) + 4 * rounds_left blob h < 2 ^ 31"
    and "linked_upto lay h (next_instruction_to_fetch blob)"
    and "prefetch_loop lay blob h m = Mret blob' h' m'"
  shows "h' = h \<or> (\<exists>nxt. linked_upto lay h' nxt)"
  using assms
proof (induction lay blob h m rule: prefetch_loop.induct)
  case (1 lay blob h m)
  let ?a = "next_instruction_to_fetch blob"
  have wf: "tc_wf b h" and win: "in_window b ?a" using 1(2,5) by (simp_all add: tu_inv_def in_window_def)
  show ?case
  proof (cases "search_translation_item h ?a")
    case (Some item)
    with 1(7) show ?thesis by (simp add: prefetch_loop.simps [of lay blob h m])
  next
    case None
    then have fresh: "cached h ?a = None" using cached_None_iff [OF wf win] by simp
    from None 1(7) obtain blob1 h1 m1 where one: "prefetch_one_instruction lay blob h m = Mret blob1 h1 m1"
      by (auto simp: prefetch_loop.simps [of lay blob h m] split: mmu_result.splits)
    from prefetch_one_inv [OF 1(2) win fresh 1(3) one]
    have step: "m1 = m" "tu_inv b h1 m"
      "h1 = h \<and> is_to_stop blob1 \<and> \<not> is_flushable blob \<or> committed lay b blob h blob1 h1" by auto
    note l = prefetch_one_linked [OF 1(2) win fresh 1(3,4,6) one]
    show ?thesis
    proof (cases "is_to_stop blob1")
      case True
      with None one 1(7) have "h' = h1" by (simp add: prefetch_loop.simps [of lay blob h m])
      with l show ?thesis by auto
    next
      case False
      have rest: "prefetch_loop lay blob1 h1 m1 = Mret blob' h' m'"
        using None one False 1(7) by (simp add: prefetch_loop.simps [of lay blob h m])
      have nxt: "next_instruction_to_fetch blob1 = ?a + 4"
        using step(3) False by (auto simp: committed_def)
      have "rounds_left blob1 h1 < rounds_left blob h" by (rule rounds_left_decrease [OF one False])
      then have "unat (next_instruction_to_fetch blob1 - b) + 4 * rounds_left blob1 h1 < 2 ^ 31"
        using 1(5) unat_next_pc [of ?a b] nxt(1) by simp
      moreover have lk: "linked_upto lay h1 (next_instruction_to_fetch blob1)" using l False nxt by simp
      ultimately have "h' = h1 \<or> (\<exists>nxt. linked_upto lay h' nxt)"
        using 1(1) [OF None one False _ 1(3,4)] step(1,2) rest by simp
      with lk show ?thesis by auto
    qed
  qed
qed

lemma append_jumper_linked:
  assumes "tc_wf b h" "linked_upto lay h nxt" "0 < jumper_size lay"
  shows "linked lay (append_jumper lay h)"
  unfolding linked_def
proof (intro ballI)
  let ?h' = "append_jumper lay h"
  have tc: "translation_cache ?h' = tc_memcpy (translation_cache_ptr h) (jumper_block lay) (translation_cache h)"
    and ptr: "translation_cache_ptr ?h' = translation_cache_ptr h + jumper_size lay"
    and live: "live_mappings ?h' = live_mappings h"
    by (simp_all add: append_jumper_def jumper_block_def live_mappings_def)
  fix i
  assume "i \<in> set (live_mappings ?h')"
  then have i: "i \<in> set (live_mappings h)" using live by simp
  note e = block_end_memcpy [OF assms(1) i tc]
  consider "linked_at lay h (block_end h i) (guest_pc i + 4)" | "block_end h i = translation_cache_ptr h"
    using assms(2) i by (auto simp: linked_upto_def)
  then show "linked_at lay ?h' (block_end ?h' i) (guest_pc i + 4)"
  proof cases
    case 1
    from linked_at_memcpy [OF this assms(3) tc] ptr live assms(3) e show ?thesis by simp
  next
    case 2
    with e tc ptr show ?thesis by (simp add: linked_at_def tc_memcpy_def)
  qed
qed

text \<open>
  The condition on the cache pointer excludes the case in which a flush inside the prefetch
  brings the pointer back to its old value: then no jumper is appended.
\<close>

lemma prefetch_instructions_linked:
  assumes "tu_inv b h m" "layout_ok lay" "0 < jumper_size lay" "tu_room b h" "linked lay h"
    and "prefetch_instructions lay h m = Mret u h' m'"
    and "h' = h \<or> translation_cache_ptr h' \<noteq> translation_cache_ptr h"
  shows "linked lay h'"
proof -
  let ?blob = "\<lparr>next_instruction_to_fetch = pc h, is_to_stop = False, is_flushable = True\<rparr>"
  from assms(6) obtain blob1 h1 where loop: "prefetch_loop lay ?blob h m = Mret blob1 h1 m'"
    and h': "h' = (if translation_cache_ptr h \<noteq> translation_cache_ptr h1 then append_jumper lay h1 else h1)"
    by (cases "prefetch_loop lay ?blob h m") (auto simp: prefetch_instructions_def Let_def split: if_splits)
  have "rounds_left ?blob h \<le> 2 * MAX_INSTRUCTIONS_TOTRANSLATE + 1" by (simp add: rounds_left_def)
  then have room: "unat (next_instruction_to_fetch ?blob - b) + 4 * rounds_left ?blob h < 2 ^ 31"
    using assms(4) by (simp add: tu_room_def)
  have wf: "tc_wf b h1" using prefetch_loop_inv [OF assms(1,2) room loop] by (simp add: tu_inv_def)
  have "h1 = h \<or> (\<exists>nxt. linked_upto lay h1 nxt)"
    using prefetch_loop_linked [OF assms(1-3) room linked_upto [OF assms(5)] loop] .
  with append_jumper_linked [OF wf _ assms(3)] assms(5,7) h' show ?thesis by (auto split: if_splits)
qed

subsection \<open>Running the cache\<close>

text \<open>
  The host runs the block at an offset; if it arrives at its end it goes on with what lies
  behind it. \<open>None\<close> is running out of fuel.
\<close>

fun run_cache :: "nat \<Rightarrow> 'w ccalls \<Rightarrow> int \<Rightarrow> 'w host \<Rightarrow> 'w outcome option" where
  "run_cache 0 cc off s = None"
| "run_cache (Suc n) cc off s =
     (case translation_cache (cpu s) off of None \<Rightarrow> Some Stuck
      | Some blk \<Rightarrow> (case x86_exec cc (blk_params blk) (blk_code blk) s of
          At_end s' \<Rightarrow> run_cache n cc (off + blk_len blk) s'
        | out \<Rightarrow> Some out))"

text \<open>
  One step of the guest that the translated code can take: the instruction comes from the code
  as it was when it was translated, no breakpoint is set at the pc and the host does not fault.
\<close>

definition guest_step :: "(u32 \<rightharpoonup> u32) \<Rightarrow> hart \<times> machine \<Rightarrow> hart \<times> machine \<Rightarrow> bool" where
  "guest_step code x y \<longleftrightarrow> (\<exists>w i. code (pc (fst x)) = Some w \<and> rv_decode w = Some i \<and>
     rv_step i (fst x) (snd x) = Some y \<and> \<not> host_fault i (fst x) \<and> vmm_quiet (fst x) (snd x))"

definition coherent_code :: "u32 \<Rightarrow> hart \<Rightarrow> (u32 \<rightharpoonup> u32) \<Rightarrow> bool" where
  "coherent_code b h code \<longleftrightarrow> (\<forall>p c ps. in_window b p \<longrightarrow> cached h p = Some (c, ps) \<longrightarrow>
     (\<exists>w. code p = Some w \<and> is_translation w p c ps))"

definition same_cache :: "hart \<Rightarrow> hart \<Rightarrow> bool" where
  "same_cache h h' \<longleftrightarrow> pc_mappings h' = pc_mappings h \<and> translation_cache h' = translation_cache h \<and>
     nr_translated_instructions h' = nr_translated_instructions h \<and> translation_cache_ptr h' = translation_cache_ptr h"

lemma same_cache_refl [simp]: "same_cache h h"
  by (simp add: same_cache_def)

lemma same_cache_live: "same_cache h h' \<Longrightarrow> live_mappings h' = live_mappings h"
  by (simp add: same_cache_def live_mappings_def)

lemma same_cache_keeps:
  assumes "same_cache h h'"
  shows "tc_wf b h' = tc_wf b h" "linked lay h' = linked lay h" "coherent_code b h' code = coherent_code b h code"
    "search_translation_item h' p = search_translation_item h p"
proof -
  note live = same_cache_live [OF assms]
  have f: "pc_mappings h' = pc_mappings h" "translation_cache h' = translation_cache h"
    "nr_translated_instructions h' = nr_translated_instructions h" "translation_cache_ptr h' = translation_cache_ptr h"
    using assms by (simp_all add: same_cache_def)
  show "tc_wf b h' = tc_wf b h" by (simp add: tc_wf_def live block_at_def f)
  show "linked lay h' = linked lay h" by (simp add: linked_def linked_at_def block_end_def live f)
  have search: "search_translation_item h' p = search_translation_item h p" for p
    unfolding search_translation_item_def f ..
  then show "search_translation_item h' p = search_translation_item h p" .
  have "cached h' p = cached h p" for p unfolding cached_def search f ..
  then show "coherent_code b h' code = coherent_code b h code" by (simp add: coherent_code_def)
qed

lemma rv_set_same_cache: "same_cache h (rv_set r v h')  = same_cache h h'" "same_cache h (rv_next h') = same_cache h h'"
  "same_cache h (rv_goto t h') = same_cache h h'"
  by (simp_all add: same_cache_def rv_set_def rv_next_def rv_goto_def)

lemma pc_rv_next [simp]: "pc (rv_next h) = pc h + 4"
  by (simp add: rv_next_def)

text \<open>An instruction that does not end its unit keeps the cache and goes on at the next pc.\<close>

lemma rv_step_continues:
  assumes "rv_step i h m = Some (h', m')" "template_of i p = (t, ps, False)"
  shows "same_cache h h'" "pc h' = pc h + 4"
proof -
  have "same_cache h h' \<and> pc h' = pc h + 4"
  proof (cases i)
    case (iAMO f rd rs1 rs2)
    with assms(1) show ?thesis by (auto simp: rv_set_same_cache Let_def split: bind_splits if_splits)
  qed (use assms in \<open>auto simp: rv_exec_defs rv_set_same_cache\<close>)
  then show "same_cache h h'" "pc h' = pc h + 4" by auto
qed

lemma run_jumper:
  "translation_cache (cpu s) off = Some (jumper_block lay) \<Longrightarrow> run_cache (Suc n) cc off s = Some (To_vmm (cpu s) (world s))"
  by (simp add: jumper_block_def template_code x86_run)

lemma item_block:
  assumes "tc_wf b h" "coherent_code b h code" "item \<in> set (live_mappings h)"
  obtains blk w stop where "translation_cache h (uint (tc_offset item)) = Some blk" "0 < blk_len blk"
    "uint (tc_offset item) + blk_len blk \<le> translation_cache_ptr h" "code (guest_pc item) = Some w"
    "translation_of w (guest_pc item) = Some (blk_code blk, blk_params blk, stop)"
proof -
  have win: "in_window b (guest_pc item)" and "Ex (block_at h item)" using assms(1,3) by (auto simp: tc_wf_def)
  then obtain blk where blk: "block_at h item blk" by blast
  have "search_translation_item h (guest_pc item) = Some item"
    using search_Some_iff [OF assms(1) win] assms(3) by simp
  then have "cached h (guest_pc item) = Some (blk_code blk, blk_params blk)"
    using blk by (simp add: cached_def block_at_def)
  then obtain w stop where "code (guest_pc item) = Some w"
    "translation_of w (guest_pc item) = Some (blk_code blk, blk_params blk, stop)"
    using assms(2) win unfolding coherent_code_def is_translation_def by blast
  with blk that show thesis by (auto simp: block_at_def)
qed

subsection \<open>The instructions that the monitor carries out\<close>

text \<open>
  Two groups of instructions are carried out by C functions. \<open>lr.w\<close> and \<open>sc.w\<close> are done by the
  slow path of the A extension, which their block calls with the register numbers of the
  instruction; \<open>ecall\<close> is done by \<open>ecall_callback\<close>, and the pc moves on after it. A step of the
  machine is one of these or a step of the guest above.
\<close>

inductive vm_step :: "syscall_handler \<Rightarrow> (u32 \<rightharpoonup> u32) \<Rightarrow> hart \<times> machine \<Rightarrow> hart \<times> machine \<Rightarrow> bool"
  for do_syscall code where
  vm_guest: "guest_step code x y \<Longrightarrow> vm_step do_syscall code x y"
| vm_reserve: "code (pc h) = Some w \<Longrightarrow> rv_opcode w = 0x2f \<Longrightarrow> rv_funct3 w = 2 \<Longrightarrow> rv_bits w 31 27 \<in> {2, 3} \<Longrightarrow>
    vmm_quiet h m \<Longrightarrow>
    amo_instruction_slowpath h m (ucast (rv_rs1 w)) (ucast (rv_rs2 w)) (ucast (rv_rd w)) (rv_bits w 31 27) = Mret () h' m' \<Longrightarrow>
    vm_step do_syscall code (h, m) (rv_next (clear_zero h'), m')"
| vm_ecall: "code (pc h) = Some 0x73 \<Longrightarrow> vmm_quiet h m \<Longrightarrow> ecall_callback do_syscall h m = Mret () h' m' \<Longrightarrow>
    wf_hart h' \<Longrightarrow> vm_step do_syscall code (h, m) (rv_next h', m')"

lemma raise_returns_not [simp]: "raise_exception_with_tvalue h m e t \<noteq> Mret v h1 m1"
  by (simp add: raise_exception_with_tvalue_def split: option.splits)

lemma vmread_hart:
  assumes "vmread n h m a = Mret v h1 m1"
  shows "m1 = m \<and> (\<exists>t. h1 = h\<lparr>dtlb := t\<rparr>)"
proof (cases "paging h")
  case False
  then have "m1 = m" "h1 = h\<lparr>dtlb := dtlb h\<rparr>"
    using assms by (auto simp: vmread_def ret_or_exit_def split: option.splits)
  then show ?thesis by blast
qed (use assms in \<open>auto simp: vmread_def ret_or_exit_def split: option.splits prod.splits\<close>)

lemma vmwrite_hart:
  assumes "vmwrite n h m a v = Mret u h1 m1"
  shows "\<exists>t. h1 = h\<lparr>dtlb := t\<rparr>"
proof (cases "paging h")
  case False
  then have "h1 = h\<lparr>dtlb := dtlb h\<rparr>"
    using assms by (auto simp: vmwrite_def write_or_exit_def split: option.splits)
  then show ?thesis by blast
qed (use assms in \<open>auto simp: vmwrite_def write_or_exit_def split: option.splits prod.splits\<close>)

text \<open>What the slow paths of \<open>lr.w\<close> and \<open>sc.w\<close> keep of the hart.\<close>

lemma reservation_hart:
  assumes "amo_instruction_slowpath h m rs1 rs2 rd f5 = Mret () h' m'" "f5 \<in> {2, 3}"
  shows "same_cache h h' \<and> pc h' = pc h \<and> length (registers h') = length (registers h)"
proof -
  have lr: "same_cache h h' \<and> pc h' = pc h \<and> length (registers h') = length (registers h)"
    if "lr_slowpath h m rs1 rs2 rd = Mret () h' m'"
    using that by (cases "mmu_read32_aligned h m (registers h ! unat rs1)")
      (auto simp: lr_slowpath_def mmu_read32_aligned_def same_cache_def write_reg_def dest!: vmread_hart split: if_splits)
  have sc: "same_cache h h' \<and> pc h' = pc h \<and> length (registers h') = length (registers h)"
    if "sc_slowpath h m rs1 rs2 rd = Mret () h' m'"
    using that by (cases "mmu_write32_aligned (write_reg rd 0 h) m (registers h ! unat rs1) (registers h ! unat rs2)")
      (auto simp: sc_slowpath_def mmu_write32_aligned_def same_cache_def write_reg_def Let_def
        dest!: vmwrite_hart split: if_splits option.splits)
  show ?thesis using assms lr sc by (auto simp: amo_instruction_slowpath_def)
qed

lemma reservation_translation:
  assumes "rv_opcode w = 0x2f" "rv_bits w 31 27 \<in> {2, 3}"
  shows "translation_of w p = Some (amo_instruction_code,
    [reg_param (rv_rs1 w), reg_param (rv_rs2 w), reg_param (rv_rd w), rv_bits w 31 27], False)"
  using assms
  by (intro translation_of_emits [of p w "''amo_instruction''"])
     (auto simp: translate_rules riscv_amo_instructions_translation_entry_def amo_params_def funct5_field
        amo_handlers_def riscv_amo_translator_def)

lemma ecall_translation: "translation_of 0x73 p = Some (ecall_instruction_code, [p], True)"
proof -
  have "rv_opcode 0x73 = 0x73" "rv_rs2 0x73 = 0" "rv_funct3 0x73 = 0" by code_simp+
  then show ?thesis
    by (intro translation_of_emits [of p "0x73" "''ecall_instruction''"])
       (simp add: translate_rules riscv_supervisor_level_instructions_translation_entry_def
         supervisor_level_handlers_def riscv_funct3_000_translator_def riscv_ecall_translator_def)
qed

text \<open>The block of an instruction does the step of the machine, and stays in the cache or leaves it.\<close>

lemma vm_step_runs:
  assumes "vm_step do_syscall code (h, m) (h1, m1)" "code (pc h) = Some w"
    and "translation_of w (pc h) = Some (c, ps, stop)" "entered s h m"
  shows "if stop then leaves (vmm_cc shell do_syscall) ps c s h1 m1
    else completes (vmm_cc shell do_syscall) ps c s h1 m1 \<and> same_cache h h1 \<and> pc h1 = pc h + 4"
  using assms(1)
proof cases
  case vm_guest
  with assms(2) obtain i where i: "rv_decode w = Some i" "rv_step i h m = Some (h1, m1)" "\<not> host_fault i h" "vmm_quiet h m"
    by (auto simp: guest_step_def)
  obtain ind where "template_of i (pc h) = ((ind, c), ps, stop)" using translation_template [OF i(1) assms(3)] .
  with translation_runs [OF i(1) assms(3,4) i(4,2,3), of shell do_syscall] rv_step_continues [OF i(2)]
  show ?thesis by auto
next
  case (vm_reserve w' h')
  then have w: "w' = w" using assms(2) by simp
  have t: "c = amo_instruction_code" "stop = False"
    "ps = [reg_param (rv_rs1 w), reg_param (rv_rs2 w), reg_param (rv_rd w), rv_bits w 31 27]"
    using reservation_translation [of w "pc h"] vm_reserve w assms(3) by auto
  have k: "same_cache h h'" "pc h' = pc h" "length (registers h') = 32"
    using reservation_hart [OF vm_reserve(7)] vm_reserve(5) enteredD(7) [OF assms(4)] by (auto simp: wf_hart_length)
  have "completes (vmm_cc shell do_syscall) ps amo_instruction_code s h1 m1"
    unfolding t(3) vm_reserve(1)
    by (rule vmm.amo_block [OF assms(4) vm_reserve(6) _ k(3), where r = Vundef])
       (use vm_reserve(7) w in \<open>simp add: vmm_amo_call from_mmu_def\<close>)
  with t k vm_reserve(1) show ?thesis by (simp add: same_cache_def rv_next_def clear_zero_def)
next
  case (vm_ecall h')
  have t: "c = ecall_instruction_code" "stop = True" "ps = [pc h]"
    using assms(2,3) vm_ecall(2) ecall_translation [of "pc h"] by auto
  have "leaves (vmm_cc shell do_syscall) ps ecall_instruction_code s h1 m1"
    unfolding vm_ecall(1)
    by (rule vmm.ecall_block [OF assms(4) vm_ecall(3) _ vm_ecall(5), where r = Vundef]) (use vm_ecall(4) in \<open>simp add: vmm_cc_def from_mmu_def\<close>)
  with t show ?thesis by simp
qed

text \<open>
  The host goes from one block to what lies behind it. \<open>stopped_at\<close>: it has come from one block
  to the next as far as the block of the instruction at the pc of a state that has no step, and
  has fuel for the rest of the cache; a division that the templates do not guard ends the run there.
\<close>

definition block_step :: "'w ccalls \<Rightarrow> int \<times> 'w host \<Rightarrow> int \<times> 'w host \<Rightarrow> bool" where
  "block_step cc x y \<longleftrightarrow> (\<exists>blk. translation_cache (cpu (snd x)) (fst x) = Some blk \<and>
     x86_exec cc (blk_params blk) (blk_code blk) (snd x) = At_end (snd y) \<and> fst y = fst x + blk_len blk)"

definition stopped_at :: "machine ccalls \<Rightarrow> (u32 \<rightharpoonup> u32) \<Rightarrow> int \<Rightarrow> machine host \<Rightarrow> machine outcome option \<Rightarrow> hart \<Rightarrow> machine \<Rightarrow> bool" where
  "stopped_at cc code off s out h m \<longleftrightarrow> (\<exists>off2 s2 n blk w.
     (block_step cc)\<^sup>*\<^sup>* (off, s) (off2, s2) \<and> entered s2 h m \<and> out = run_cache (Suc n) cc off2 s2 \<and>
     translation_cache_ptr h - off2 \<le> int n \<and> translation_cache h off2 = Some blk \<and>
     code (pc h) = Some w \<and> is_translation w (pc h) (blk_code blk) (blk_params blk) \<and>
     (\<forall>i. rv_decode w = Some i \<and> host_fault i h \<and> vmm_quiet h m \<longrightarrow> out = Some Divide_error))"

lemma stopped_at_step:
  assumes "block_step cc (off, s) (off1, s1)" "stopped_at cc code off1 s1 out h m"
  shows "stopped_at cc code off s out h m"
  using assms converse_rtranclp_into_rtranclp [of "block_step cc" "(off, s)" "(off1, s1)"]
  unfolding stopped_at_def by metis

text \<open>
  Running the cache from the block of the pc is a run of the machine: either control comes back
  to the monitor after at least one instruction, with the hart and memory that the machine has
  then, or the machine reaches a state without a step and the host is at its block.
\<close>

lemma run_cache_simulates:
  fixes shell :: debug_shell and do_syscall :: syscall_handler and code :: "u32 \<rightharpoonup> u32"
  assumes "tc_wf b h" "linked lay h" "coherent_code b h code" "0 < jumper_size lay" "entered s h m"
    and "item \<in> set (live_mappings h)" "guest_pc item = pc h"
    and "nat (translation_cache_ptr h - uint (tc_offset item)) < n"
  defines "cc \<equiv> vmm_cc shell do_syscall" and "step \<equiv> vm_step do_syscall code"
  shows "\<exists>h' m'. step\<^sup>+\<^sup>+ (h, m) (h', m') \<and> run_cache n cc (uint (tc_offset item)) s = Some (To_vmm h' m') \<or>
    step\<^sup>*\<^sup>* (h, m) (h', m') \<and> \<not> (\<exists>y. step (h', m') y) \<and>
      stopped_at cc code (uint (tc_offset item)) s (run_cache n cc (uint (tc_offset item)) s) h' m'"
  using assms(1-8)
proof (induction n arbitrary: h m s item)
  case (Suc n)
  let ?off = "uint (tc_offset item)"
  obtain blk w stop where blk: "translation_cache h ?off = Some blk" "0 < blk_len blk"
    "?off + blk_len blk \<le> translation_cache_ptr h" "code (pc h) = Some w"
    "translation_of w (pc h) = Some (blk_code blk, blk_params blk, stop)"
    using item_block [OF Suc.prems(1,3,6)] Suc.prems(7) by metis
  have cpu: "cpu s = h" by (rule enteredD(5) [OF Suc.prems(5)])
  show ?case
  proof (cases "\<exists>y. step (h, m) y")
    case False
    have "stopped_at cc code ?off s (run_cache (Suc n) cc ?off s) h m"
      unfolding stopped_at_def
    proof (intro exI conjI allI impI)
      show "is_translation w (pc h) (blk_code blk) (blk_params blk)" using blk(5) by (auto simp: is_translation_def)
      show "run_cache (Suc n) cc ?off s = Some Divide_error"
        if "rv_decode w = Some i \<and> host_fault i h \<and> vmm_quiet h m" for i
        using translation_faults [OF _ blk(5) Suc.prems(5)] that blk(1) cpu unfolding cc_def by simp
          show "translation_cache_ptr h - ?off \<le> int n" using Suc.prems(8) by linarith
    qed (use blk Suc.prems(5) in auto)
    with False show ?thesis by blast
  next
    case True
    then obtain h1 m1 where g: "step (h, m) (h1, m1)" by auto
    note runs = vm_step_runs [OF g [unfolded step_def] blk(4,5) Suc.prems(5), of shell, folded cc_def]
    show ?thesis
    proof (cases stop)
      case True
      with runs blk(1) cpu have "run_cache (Suc n) cc ?off s = Some (To_vmm h1 m1)" by (simp add: leaves_def)
      with g show ?thesis by blast
    next
      case False
      with runs obtain s1 where s1: "x86_exec cc (blk_params blk) (blk_code blk) s = At_end s1" "entered s1 h1 m1"
        and cont: "same_cache h h1" "pc h1 = pc h + 4"
        by (auto simp: completes_def)
      have rest: "run_cache (Suc n) cc ?off s = run_cache n cc (?off + blk_len blk) s1"
        and bs: "block_step cc (?off, s) (?off + blk_len blk, s1)"
        using s1(1) blk(1) cpu by (simp_all add: block_step_def)
      note keeps = same_cache_keeps [OF cont(1)]
      have tc: "translation_cache h1 = translation_cache h" "translation_cache_ptr h1 = translation_cache_ptr h"
        using cont(1) by (simp_all add: same_cache_def)
      have "linked_at lay h (?off + blk_len blk) (pc h1)"
        using Suc.prems(2,6,7) blk(1) cont(2) by (auto simp: linked_def block_end_def)
      then consider "translation_cache h (?off + blk_len blk) = Some (jumper_block lay)"
          "?off + blk_len blk + jumper_size lay \<le> translation_cache_ptr h"
        | j where "j \<in> set (live_mappings h)" "uint (tc_offset j) = ?off + blk_len blk" "guest_pc j = pc h1"
        by (auto simp: linked_at_def)
      then show ?thesis
      proof cases
        case 1
        with Suc.prems(4,8) blk(2) obtain n' where "n = Suc n'" by (cases n) auto
        with 1 tc enteredD(5,6) [OF s1(2)] rest have "run_cache (Suc n) cc ?off s = Some (To_vmm h1 m1)"
          by (simp add: run_jumper del: run_cache.simps)
        with g show ?thesis by blast
      next
        case 2
        have "nat (translation_cache_ptr h1 - uint (tc_offset j)) < n"
          using Suc.prems(8) 2(2) blk(2,3) tc(2) by simp
        with Suc.IH [of h1 s1 m1 j] Suc.prems(1-4) keeps s1(2) 2(1,3) same_cache_live [OF cont(1)]
        obtain h' m' where "step\<^sup>+\<^sup>+ (h1, m1) (h', m') \<and> run_cache n cc (uint (tc_offset j)) s1 = Some (To_vmm h' m') \<or>
          step\<^sup>*\<^sup>* (h1, m1) (h', m') \<and> \<not> (\<exists>y. step (h', m') y) \<and>
            stopped_at cc code (uint (tc_offset j)) s1 (run_cache n cc (uint (tc_offset j)) s1) h' m'"
          by auto
        with rest 2(2) g stopped_at_step [OF bs] show ?thesis
          by (metis converse_rtranclp_into_rtranclp tranclp_into_tranclp2)
      qed
    qed
  qed
qed simp

text \<open>
  The cache has no room for more than \<open>TRANSLATION_CACHE_SIZE\<close> blocks, so that much fuel is
  enough for every run.
\<close>

definition cache_fuel :: nat where
  "cache_fuel = Suc (nat TRANSLATION_CACHE_SIZE)"

lemma vmresume_unit:
  assumes "tu_inv b h m" "layout_ok lay" "0 < jumper_size lay" "tu_room b h" "linked lay h"
    and "prefetch_instructions lay h m = Mret u h' m'"
    and "h' = h \<or> translation_cache_ptr h' \<noteq> translation_cache_ptr h"
  shows "\<exists>off. vmresume lay h m = Mret off h' m \<and> tu_inv b h' m \<and> linked lay h' \<and>
    (\<forall>s. entered s h' m \<longrightarrow> (\<exists>h2 m2.
      (vm_step do_syscall (fetched m h))\<^sup>+\<^sup>+ (h', m) (h2, m2) \<and>
        run_cache cache_fuel (vmm_cc shell do_syscall) (uint off) s = Some (To_vmm h2 m2) \<or>
      (vm_step do_syscall (fetched m h))\<^sup>*\<^sup>* (h', m) (h2, m2) \<and> \<not> (\<exists>y. vm_step do_syscall (fetched m h) (h2, m2) y) \<and>
        stopped_at (vmm_cc shell do_syscall) (fetched m h) (uint off) s
          (run_cache cache_fuel (vmm_cc shell do_syscall) (uint off) s) h2 m2))"
proof -
  from vmresume_enters [OF assms(1,2,4,6)] obtain off where
    off: "vmresume lay h m = Mret off h' m" "tu_inv b h' m" "arch h' = arch h" by blast
  have m': "m' = m" using prefetch_instructions_inv [OF assms(1,2,4,6)] by simp
  have win: "in_window b (pc h')"
    using assms(4) arch_fields(1) [OF off(3)] by (simp add: tu_room_def in_window_def)
  have wf: "tc_wf b h'" using off(2) by (simp add: tu_inv_def)
  from off(1) assms(6) m' obtain item where item: "search_translation_item h' (pc h') = Some item" "off = tc_offset item"
    by (auto simp: vmresume_def split: option.splits)
  then have live: "item \<in> set (live_mappings h')" "guest_pc item = pc h'"
    using search_Some_iff [OF wf win, of item] by simp_all
  have lk: "linked lay h'" by (rule prefetch_instructions_linked [OF assms])
  have code: "coherent_code b h' (fetched m h)"
    using off(2) arch_fields(7) [OF off(3)] by (simp add: tu_inv_def coherent_def coherent_code_def)
  have "translation_cache_ptr h' \<le> TRANSLATION_CACHE_SIZE" "0 \<le> uint (tc_offset item)"
    using wf by (simp_all add: tc_wf_def)
  then have "nat (translation_cache_ptr h' - uint (tc_offset item)) < cache_fuel"
    unfolding cache_fuel_def by linarith
  from run_cache_simulates [OF wf lk code assms(3) _ live this] off(1,2) lk item(2) show ?thesis by auto
qed

end
