(* ===== verification/Example_State.thy ===== *)
theory Example_State
  imports Translation_Chain
begin

text \<open>
  A small concrete guest on which the properties are instantiated: one process with one
  region of 32 bytes at \<open>0x1000\<close> that holds a few instructions, a hart that is about to run
  them, and sizes of the templates. Nothing here models code.
\<close>

definition demo_layout :: layout where
  "demo_layout = \<lparr>TRANSLATION_SIZE = (\<lambda>_. 256), jumper_size = 32\<rparr>"

definition demo_region :: pm_region_operation where
  "demo_region = \<lparr>addr_low = 0x1000, addr_high = 0x1020, pmr_read = Some vma_generic_cb,
     pmr_write = Some vma_generic_cb, pmr_direct = Some vma_generic_cb, pmr_reclaim = None,
     pmr_flags = 3, host_base = Some 0\<rparr>"

definition demo_vm :: virtual_machine where
  "demo_vm = \<lparr>nr_pmr_ops = 1, pmr_ops = demo_region # replicate 127 empty_pmr, vma_heap = None,
     vma_stack = None, vm_pid = 2, vm_ppid = 1, vm_tgid = 2, parent_vm = None, cloned_vm = False,
     cloned_files = False, cloned_fs = False, ref_count = 1\<rparr>"

text \<open>
  \<open>addi x1, x0, 5\<close>; \<open>add x2, x1, x1\<close>; \<open>sw x2, 24(x3)\<close>; \<open>lw x4, 24(x3)\<close>; \<open>jal x0, -16\<close>; data.
\<close>

definition demo_bytes :: "u8 list" where
  "demo_bytes =
     [0x93, 0x00, 0x50, 0x00, 0x33, 0x81, 0x10, 0x00, 0x23, 0xac, 0x21, 0x00, 0x03, 0xa2, 0x81, 0x01,
      0x6f, 0xf0, 0x1f, 0xff, 0, 0, 0, 0, 1, 2, 3, 4, 0, 0, 0, 0]"

definition demo_machine :: machine where
  "demo_machine = \<lparr>vms = [0 \<mapsto> demo_vm], hmem = [0 \<mapsto> demo_bytes],
     reservations = replicate MAX_RESERVATION_ITEMS \<lparr>res_addr = 0, res_valid = False, res_hartid = 0\<rparr>,
     next_pointer = 0, breakpoints = replicate MAX_BREAKPOINTS 0, nr_breakpoints = 0\<rparr>"

definition demo_hart :: hart where
  "demo_hart = (hart_init 0)\<lparr>pc := 0x1000, registers := (replicate 32 0)[3 := 0x1000]\<rparr>"

definition demo_host :: "machine host" where
  "demo_host = \<lparr>gpr = (\<lambda>r. if r = R15 then Vhart 0 else if r = R14 then Vhart 128 else
      if r = R13 then Vtc else if r = R12 then Vhart 0 else Vundef),
     eflags = None, stk = [], cpu = demo_hart, world = demo_machine\<rparr>"

lemma demo_layout_ok: "layout_ok demo_layout"
  by (simp add: layout_ok_def demo_layout_def TRANSLATION_CACHE_SIZE_def)

lemma demo_vm_wf: "vm_wf demo_vm"
  by (simp add: vm_wf_def demo_vm_def live_regions_def demo_region_def MAX_VMA_NR_def)

lemma demo_vm_mem_ok: "vm_mem_ok demo_vm"
  using demo_vm_wf by (simp add: vm_mem_ok_def demo_vm_def live_regions_def demo_region_def)

lemma demo_hart_fields:
  "pc demo_hart = 0x1000" "native_vmptr demo_hart = 0" "privilege_level demo_hart = PRIVILEGE_LEVEL_MACHINE"
  "hart_magic demo_hart = HART_MAGIC_WORD" "registers demo_hart = (replicate 32 0)[3 := 0x1000]" "hart_id demo_hart = 0"
  by (simp_all add: demo_hart_def hart_init_def flush_translation_cache_def)

lemma demo_paging: "\<not> paging demo_hart"
  by (simp add: paging_def demo_hart_fields)

lemma demo_linked_vm: "linked_vm demo_machine demo_hart = Some demo_vm"
  by (rule linked_vm_native) (simp_all add: demo_machine_def demo_hart_fields demo_vm_def)

lemma demo_wf_hart: "wf_hart demo_hart"
  by (simp add: wf_hart_def demo_hart_fields)

lemma demo_entered: "entered demo_host demo_hart demo_machine"
  by (simp add: entered_def demo_host_def demo_wf_hart)

lemma demo_quiet: "vmm_quiet demo_hart demo_machine"
  by (simp add: vmm_quiet_def demo_hart_fields is_address_breakpoint_def demo_machine_def SEARCH_def SEARCH_loop.simps)

lemma demo_tu_inv: "tu_inv 0x1000 demo_hart demo_machine"
proof -
  have "tc_wf 0x1000 demo_hart"
    using tc_wf_hart_init [of "0x1000" 0] by (simp add: demo_hart_def tc_wf_def live_mappings_def block_at_def)
  moreover have "live_mappings demo_hart = []"
    by (simp add: demo_hart_def hart_init_def flush_translation_cache_def live_mappings_def)
  ultimately have "cached demo_hart p = None" if "in_window 0x1000 p" for p
    using cached_None_iff [OF _ that] search_None_iff [OF _ that] by simp
  then show ?thesis
    using \<open>tc_wf 0x1000 demo_hart\<close> demo_paging by (simp add: tu_inv_def coherent_def)
qed

lemma demo_room: "tu_room 0x1000 demo_hart"
  by (simp add: tu_room_def demo_hart_fields MAX_INSTRUCTIONS_TOTRANSLATE_def)

text \<open>The memory of the example, and the instructions it holds.\<close>

lemma fetched_guest_bytes:
  assumes "guest_bytes h m p 4 = Some bs"
  shows "fetched m h p = Some (ucast (le_word bs))"
proof -
  have "\<not> paging h" using assms by (auto simp: guest_bytes_def split: if_splits)
  then show ?thesis
    using vmread_guest_bytes [OF assms]
    by (auto simp: vmread_def access_size_ok_def fetched_def ret_or_exit_def split: option.splits)
qed

lemma demo_guest_bytes:
  assumes "0x1000 \<le> p" "p < 0x1020" "unat (p - 0x1000) + n \<le> 32"
  shows "guest_bytes demo_hart demo_machine p n = Some (take n (drop (unat (p - 0x1000)) demo_bytes))"
  using assms demo_paging demo_linked_vm demo_vm_wf
  by (simp add: guest_bytes_def region_at_def live_regions_def demo_vm_def in_region_def demo_region_def
      host_block_def region_offset_def demo_machine_def demo_bytes_def)

lemma demo_program:
  "fetched demo_machine demo_hart 0x1000 = Some 0x00500093" "fetched demo_machine demo_hart 0x1004 = Some 0x00108133"
  "fetched demo_machine demo_hart 0x1008 = Some 0x0021ac23" "fetched demo_machine demo_hart 0x100c = Some 0x0181a203"
  "fetched demo_machine demo_hart 0x1010 = Some 0xff1ff06f"
  by (simp_all add: fetched_guest_bytes demo_guest_bytes demo_bytes_def le_word_def)

lemma demo_decode:
  "rv_decode 0x00500093 = Some (iOP_IMM rADD 1 0 5)" "rv_decode 0x00108133 = Some (iOP rADD 2 1 1)"
  "rv_decode 0x0021ac23 = Some (iSTORE rSW 3 2 24)" "rv_decode 0x0181a203 = Some (iLOAD rLW 4 3 24)"
  "rv_decode 0xff1ff06f = Some (iJAL 0 (- 16))"
  by code_simp+

lemma demo_straight_line: "straight_line demo_machine demo_hart 5 0x1000"
  by (simp add: demo_program translation_of_decoded [OF demo_decode(1)] translation_of_decoded [OF demo_decode(2)]
      translation_of_decoded [OF demo_decode(3)] translation_of_decoded [OF demo_decode(4)]
      translation_of_decoded [OF demo_decode(5)] numeral_eq_Suc)

lemma demo_guest_update:
  assumes "0x1000 \<le> p" "p < 0x1020" "unat (p - 0x1000) + length bs \<le> 32"
  shows "guest_update demo_hart demo_machine p bs =
    Some (demo_machine\<lparr>hmem := [0 \<mapsto> splice demo_bytes (unat (p - 0x1000)) bs]\<rparr>)"
  using assms demo_paging demo_linked_vm demo_vm_wf
  by (simp add: guest_update_def region_at_def live_regions_def demo_vm_def in_region_def demo_region_def
      region_offset_def demo_machine_def demo_bytes_def)

lemma demo_quiet_after:
  "vmm_quiet (rv_next demo_hart) (demo_machine\<lparr>hmem := mem\<rparr>)"
  by (simp add: vmm_quiet_def rv_next_def demo_hart_fields is_address_breakpoint_def demo_machine_def SEARCH_def
      SEARCH_loop.simps)

text \<open>
  The program is an endless loop: from any of its five instructions, with the address of the
  data in \<open>x3\<close>, it has a step, and the step leads to one of the five again.
\<close>

definition demo_running :: "hart \<times> machine \<Rightarrow> bool" where
  "demo_running x \<longleftrightarrow> pc (fst x) \<in> {0x1000, 0x1004, 0x1008, 0x100c, 0x1010} \<and> length (registers (fst x)) = 32 \<and>
     registers (fst x) ! 3 = 0x1000 \<and> native_vmptr (fst x) = 0 \<and> \<not> paging (fst x) \<and>
     hart_magic (fst x) = HART_MAGIC_WORD \<and>
     (\<exists>bs. length bs = 32 \<and> snd x = demo_machine\<lparr>hmem := [0 \<mapsto> bs]\<rparr>)"

lemma demo_running_start: "demo_running (demo_hart, demo_machine)"
proof -
  have "demo_machine = demo_machine\<lparr>hmem := [0 \<mapsto> demo_bytes]\<rparr>" by (simp add: demo_machine_def)
  moreover have "length demo_bytes = 32" by (simp add: demo_bytes_def)
  ultimately show ?thesis by (auto simp: demo_running_def demo_hart_fields demo_paging)
qed

lemma demo_running_arch:
  "arch h' = arch h \<Longrightarrow> demo_running (h', m) = demo_running (h, m)"
  using arch_fields [of h' h] by (simp add: demo_running_def)

lemma demo_running_mem:
  assumes "demo_running (h, m)"
  shows "\<exists>bs. length bs = 4 \<and> guest_bytes h m 0x1018 4 = Some bs"
    and "length vs = 4 \<Longrightarrow> \<exists>bs. length bs = 32 \<and>
      guest_update h m 0x1018 vs = Some (demo_machine\<lparr>hmem := [0 \<mapsto> bs]\<rparr>)"
proof -
  from assms obtain bs where bs: "length bs = 32" "m = demo_machine\<lparr>hmem := [0 \<mapsto> bs]\<rparr>" "\<not> paging h" "native_vmptr h = 0"
    by (auto simp: demo_running_def)
  have vm: "linked_vm demo_machine h = Some demo_vm"
    by (rule linked_vm_native) (simp_all add: bs demo_machine_def demo_vm_def)
  note rules = bs vm region_at_def live_regions_def demo_vm_def in_region_def demo_region_def host_block_def region_offset_def
  show "\<exists>bs. length bs = 4 \<and> guest_bytes h m 0x1018 4 = Some bs"
    using demo_vm_wf by (simp add: guest_bytes_def rules)
  show "\<exists>bs. length bs = 32 \<and> guest_update h m 0x1018 vs = Some (demo_machine\<lparr>hmem := [0 \<mapsto> bs]\<rparr>)"
    if "length vs = 4"
    using demo_vm_wf that by (intro exI [of _ "splice bs 24 vs"]) (simp add: guest_update_def rules)
qed

lemma demo_running_quiet: "demo_running (h, m) \<Longrightarrow> vmm_quiet h m"
  by (auto simp: demo_running_def vmm_quiet_def is_address_breakpoint_def demo_machine_def SEARCH_def SEARCH_loop.simps)

lemma demo_running_step:
  assumes "demo_running (h, m)"
  obtains w i y where "fetched demo_machine demo_hart (pc h) = Some w" "rv_decode w = Some i"
    "rv_step i h m = Some y" "demo_running y" "\<not> host_fault i h" "rv_opcode w \<noteq> 0x2f" "w \<noteq> 0x73"
proof -
  have x3: "rv_x h 3 = 0x1000" and len: "length (registers h) = 32"
    using assms by (simp_all add: demo_running_def rv_x_def)
  have ea: "rv_ea 3 24 h = 0x1018" by (simp add: rv_ea_def x3)
  have op: "rv_opcode 0x00500093 \<noteq> 0x2f" "rv_opcode 0x00108133 \<noteq> 0x2f" "rv_opcode 0x0021ac23 \<noteq> 0x2f"
    "rv_opcode 0x0181a203 \<noteq> 0x2f" "rv_opcode 0xff1ff06f \<noteq> 0x2f" by code_simp+
  have r3: "unat r = 3 \<longleftrightarrow> r = 3" for r :: "5 word" by (simp add: word_unat_eq_iff)
  have jump: "demo_running (rv_goto 0x1000 (rv_set 0 v h), m)" for v
    using assms by (auto simp: demo_running_def rv_goto_def rv_set_def paging_def)
  note rules = demo_running_def rv_next_def rv_set_def paging_def nth_list_update r3
  have keep: "demo_running (rv_next (rv_set r v h), m)" if "pc h \<in> {0x1000, 0x1004, 0x100c}" "r \<noteq> 3" for r v
    using assms that by (auto simp: rules)
  have store: "demo_running (rv_next h, demo_machine\<lparr>hmem := [0 \<mapsto> bs]\<rparr>)" if "pc h = 0x1008" "length bs = 32" for bs
    using assms that by (auto simp: rules)
  have "pc h \<in> {0x1000, 0x1004, 0x1008, 0x100c, 0x1010}" using assms by (simp add: demo_running_def)
  then consider "pc h = 0x1000" | "pc h = 0x1004" | "pc h = 0x1008" | "pc h = 0x100c" | "pc h = 0x1010" by blast
  then show thesis
  proof cases
    case 1
    with that [OF _ demo_decode(1)] demo_program(1) op show thesis
      by (simp add: rv_exec_defs keep)
  next
    case 2
    with that [OF _ demo_decode(2)] demo_program(2) op show thesis
      by (simp add: rv_exec_defs keep)
  next
    case 3
    with that [OF _ demo_decode(3)] demo_program(3) op show thesis
      using demo_running_mem(2) [OF assms, of "rv_store_bytes rSW 2 h"] by (auto simp: rv_store_bytes_def ea store)
  next
    case 4
    with that [OF _ demo_decode(4)] demo_program(4) op show thesis
      using demo_running_mem(1) [OF assms] by (auto simp: rv_exec_load_def ea keep)
  next
    case 5
    with that [OF _ demo_decode(5)] demo_program(5) op show thesis
      by (simp add: rv_exec_defs jump)
  qed
qed

lemma demo_never_stops:
  assumes "(vm_step do_syscall (fetched demo_machine demo_hart))\<^sup>*\<^sup>* x y" "demo_running x"
  shows "demo_running y \<and> (\<exists>z. vm_step do_syscall (fetched demo_machine demo_hart) y z)"
proof -
  have stays: "demo_running y" if "demo_running x" "vm_step do_syscall (fetched demo_machine demo_hart) x y" for x y
    using that(2)
  proof cases
    case vm_guest
    with that(1) demo_running_step [of "fst x" "snd x"] show ?thesis by (force simp: guest_step_def)
  qed (use that(1) in \<open>auto elim: demo_running_step\<close>)
  have goes: "\<exists>z. vm_step do_syscall (fetched demo_machine demo_hart) y z" if "demo_running y" for y
  proof -
    obtain h m where y: "y = (h, m)" by fastforce
    from that show ?thesis unfolding y
    proof (rule demo_running_step)
      fix w i z
      assume "fetched demo_machine demo_hart (pc h) = Some w" "rv_decode w = Some i" "rv_step i h m = Some z" "\<not> host_fault i h"
      then have "guest_step (fetched demo_machine demo_hart) (h, m) z"
        using demo_running_quiet that y by (auto simp: guest_step_def)
      then show "\<exists>z. vm_step do_syscall (fetched demo_machine demo_hart) (h, m) z" by (blast intro: vm_guest)
    qed
  qed
  from assms have "demo_running y" by induction (auto intro: stays)
  with goes show ?thesis by blast
qed

definition demo_region2 :: pm_region_operation where
  "demo_region2 = demo_region\<lparr>addr_low := 0x2000, addr_high := 0x3000, host_base := Some 1\<rparr>"

lemma demo_registers: "\<exists>vm'. register_pm_region_operation demo_vm demo_region2 = Some vm'"
  by (rule register_pm_region_complete [OF demo_vm_wf])
     (simp_all add: demo_vm_def demo_region2_def demo_region_def live_regions_def MAX_VMA_NR_def disjoint_regions_def)

lemma demo_bp_wf: "bp_wf 0 demo_machine"
  by (simp add: bp_wf_def demo_machine_def live_breakpoints_def MAX_BREAKPOINTS_def)

lemma demo_res_wf: "res_wf demo_machine"
  by (simp add: res_wf_def demo_machine_def MAX_RESERVATION_ITEMS_def)

end
