(* ===== verification/Intrusive_List.thy ===== *)
theory Intrusive_List
  imports Hyrule_Prelude
begin

text \<open>
  \<open>sandbox/list.c\<close> and \<open>sandbox/list.h\<close>: doubly linked lists whose links are embedded in the
  objects. The links live in a heap that maps the address of a \<open>struct list_elem\<close> to its two
  pointers; a null pointer is \<open>None\<close>. The head of a list is itself such an element, its \<open>next\<close>
  the first and its \<open>prev\<close> the last node; the first node has no \<open>prev\<close> and the last no \<open>next\<close>.
\<close>

record 'a list_elem =
  le_prev :: "'a option"
  le_next :: "'a option"

type_synonym 'a links = "'a \<Rightarrow> 'a list_elem"

definition set_prev :: "'a \<Rightarrow> 'a option \<Rightarrow> 'a links \<Rightarrow> 'a links" where
  "set_prev a v H = H(a := (H a)\<lparr>le_prev := v\<rparr>)"

definition set_next :: "'a \<Rightarrow> 'a option \<Rightarrow> 'a links \<Rightarrow> 'a links" where
  "set_next a v H = H(a := (H a)\<lparr>le_next := v\<rparr>)"

subsection \<open>Operations\<close>

definition list_init :: "'a links \<Rightarrow> 'a \<Rightarrow> 'a links" where
  "list_init H head = set_next head None (set_prev head None H)"

definition list_empty :: "'a links \<Rightarrow> 'a \<Rightarrow> bool" where
  "list_empty H head \<longleftrightarrow> le_next (H head) = None"

definition list_append :: "'a links \<Rightarrow> 'a \<Rightarrow> 'a \<Rightarrow> 'a links option" where
  "list_append H head elem =
     ASSERT (le_prev (H elem) = None) (ASSERT (le_next (H elem) = None)
     (let H1 = if le_next (H head) = None then set_next head (Some elem) H else H;
          H2 = (case le_prev (H1 head) of None \<Rightarrow> H1
                | Some last_elem \<Rightarrow> set_next last_elem (Some elem) (set_prev elem (Some last_elem) H1))
      in Some (set_prev head (Some elem) H2)))"

definition list_prepend :: "'a links \<Rightarrow> 'a \<Rightarrow> 'a \<Rightarrow> 'a links option" where
  "list_prepend H head elem =
     ASSERT (le_prev (H elem) = None) (ASSERT (le_next (H elem) = None)
     (let H1 = (case le_next (H head) of None \<Rightarrow> H
                | Some first_elem \<Rightarrow> set_prev first_elem (Some elem) (set_next elem (Some first_elem) H));
          H2 = set_next head (Some elem) H1
      in Some (if le_prev (H2 head) = None then set_prev head (Some elem) H2 else H2)))"

definition list_pop :: "'a links \<Rightarrow> 'a \<Rightarrow> ('a option \<times> 'a links) option" where
  "list_pop H head =
     (if list_empty H head then Some (None, H)
      else case le_prev (H head) of None \<Rightarrow> None
      | Some e \<Rightarrow>
          let H1 = set_prev head (le_prev (H e)) H;
              H2 = (case le_prev (H1 e) of Some p \<Rightarrow> set_next p None H1 | None \<Rightarrow> set_next head None H1);
              H3 = set_prev e None H2
          in ASSERT (le_next (H3 e) = None) (Some (Some e, H3)))"

definition list_fetch :: "'a links \<Rightarrow> 'a \<Rightarrow> ('a option \<times> 'a links) option" where
  "list_fetch H head =
     (case le_next (H head) of None \<Rightarrow> Some (None, H)
      | Some e \<Rightarrow>
          ASSERT (le_prev (H head) \<noteq> None)
          (let H1 = set_next head (le_next (H e)) H;
               H2 = (case le_next (H1 e) of Some n \<Rightarrow> set_prev n None H1 | None \<Rightarrow> set_prev head None H1);
               H3 = set_next e None H2
           in ASSERT (le_prev (H3 e) = None) (Some (Some e, H3))))"

text \<open>The loop that looks for an element; on a cyclic list it would not end.\<close>

partial_function (option) list_find :: "'a links \<Rightarrow> 'a option \<Rightarrow> 'a \<Rightarrow> bool option" where
  "list_find H cur elem =
     (case cur of None \<Rightarrow> Some False
      | Some e \<Rightarrow> if e = elem then Some True else list_find H (le_next (H e)) elem)"

declare list_find.simps [code]

definition list_delete :: "'a links \<Rightarrow> 'a \<Rightarrow> 'a \<Rightarrow> 'a links option" where
  "list_delete H head elem =
     Option.bind (list_find H (le_next (H head)) elem) (\<lambda>found. ASSERT found
     (ASSERT (le_prev (H head) = Some elem \<longrightarrow> le_next (H elem) = None)
     (let H1 = if le_prev (H head) = Some elem then set_prev head (le_prev (H elem)) H else H in
      ASSERT (le_next (H1 head) = Some elem \<longrightarrow> le_prev (H1 elem) = None)
      (let H2 = if le_next (H1 head) = Some elem then set_next head (le_next (H1 elem)) H1 else H1;
           H3 = (case le_next (H2 elem) of Some n \<Rightarrow> set_prev n (le_prev (H2 elem)) H2 | None \<Rightarrow> H2);
           H4 = (case le_prev (H3 elem) of Some p \<Rightarrow> set_next p (le_next (H3 elem)) H3 | None \<Rightarrow> H3)
       in Some (set_next elem None (set_prev elem None H4))))))"

definition element_in_list :: "'a links \<Rightarrow> 'a \<Rightarrow> 'a \<Rightarrow> bool option" where
  "element_in_list H head elem =
     (if le_next (H elem) = None \<and> le_prev (H elem) = None \<and>
         le_next (H head) \<noteq> Some elem \<and> le_prev (H head) \<noteq> Some elem
      then Some False else list_find H (le_next (H head)) elem)"

subsection \<open>The list that a head represents\<close>

definition head_of :: "'a list \<Rightarrow> 'a option \<Rightarrow> 'a option" where
  "head_of xs q = (case xs of [] \<Rightarrow> q | x # _ \<Rightarrow> Some x)"

definition last_of :: "'a list \<Rightarrow> 'a option \<Rightarrow> 'a option" where
  "last_of xs p = (if xs = [] then p else Some (last xs))"

primrec dseg :: "'a links \<Rightarrow> 'a option \<Rightarrow> 'a list \<Rightarrow> 'a option \<Rightarrow> bool" where
  "dseg H p [] q = True"
| "dseg H p (x # xs) q = (le_prev (H x) = p \<and> le_next (H x) = head_of xs q \<and> dseg H (Some x) xs q)"

definition dlist :: "'a links \<Rightarrow> 'a \<Rightarrow> 'a list \<Rightarrow> bool" where
  "dlist H l xs \<longleftrightarrow> distinct (l # xs) \<and> le_next (H l) = head_of xs None \<and>
     le_prev (H l) = last_of xs None \<and> dseg H None xs None"

lemma head_of_simps [simp]: "head_of [] q = q" "head_of (x # xs) q = Some x"
  "head_of (xs @ ys) q = head_of xs (head_of ys q)"
  by (simp_all add: head_of_def split: list.split)

lemma last_of_simps [simp]: "last_of [] p = p" "last_of (x # xs) p = last_of xs (Some x)"
  "last_of (xs @ ys) p = last_of ys (last_of xs p)"
  by (simp_all add: last_of_def)

lemma dseg_append: "dseg H p (xs @ ys) q \<longleftrightarrow> dseg H p xs (head_of ys q) \<and> dseg H (last_of xs p) ys q"
  by (induction xs arbitrary: p) auto

lemma dseg_frame: "(\<And>x. x \<in> set xs \<Longrightarrow> H' x = H x) \<Longrightarrow> dseg H' p xs q = dseg H p xs q"
  by (induction xs arbitrary: p) auto

lemma dlist_frame:
  "(\<And>x. x \<in> set (l # xs) \<Longrightarrow> H' x = H x) \<Longrightarrow> dlist H' l xs = dlist H l xs"
  using dseg_frame [of xs H' H None None] by (simp add: dlist_def)

lemma list_find_dseg: "dseg H p xs None \<Longrightarrow> list_find H (head_of xs None) e = Some (e \<in> set xs)"
proof (induction xs arbitrary: p)
  case Nil
  then show ?case by (subst list_find.simps) simp
next
  case (Cons x xs)
  then show ?case by (subst list_find.simps) auto
qed

lemmas link_updates = set_prev_def set_next_def

subsection \<open>The operations on that list\<close>

text \<open>
  What changes outside: nothing. Every lemma says which list is represented afterwards, and
  that the links of all other elements are untouched.
\<close>

definition only_changes :: "'a set \<Rightarrow> 'a links \<Rightarrow> 'a links \<Rightarrow> bool" where
  "only_changes A H H' \<longleftrightarrow> (\<forall>x. x \<notin> A \<longrightarrow> H' x = H x)"

definition detached :: "'a links \<Rightarrow> 'a \<Rightarrow> bool" where
  "detached H e \<longleftrightarrow> le_prev (H e) = None \<and> le_next (H e) = None"

lemma list_init_dlist: "dlist (list_init H l) l [] \<and> only_changes {l} H (list_init H l)"
  by (simp add: list_init_def dlist_def link_updates only_changes_def)

lemma list_append_dlist:
  assumes "dlist H l xs" "detached H e" "e \<noteq> l" "e \<notin> set xs"
  shows "\<exists>H'. list_append H l e = Some H' \<and> dlist H' l (xs @ [e]) \<and> only_changes (insert l (insert e (set xs))) H H'"
proof (cases xs rule: rev_cases)
  case Nil
  with assms show ?thesis
    by (simp add: list_append_def dlist_def detached_def link_updates only_changes_def Let_def)
next
  case (snoc ys y)
  have d: "distinct (l # ys @ [y, e])" using assms snoc by (auto simp: dlist_def)
  have seg: "dseg H None ys (Some y)" "le_prev (H y) = last_of ys None" "le_next (H l) = head_of ys (Some y)" "le_prev (H l) = Some y"
    using assms(1) snoc by (simp_all add: dlist_def dseg_append)
  obtain z where "le_next (H l) = Some z" using seg(3) by (cases ys) auto
  let ?H' = "set_prev l (Some e) (set_next y (Some e) (set_prev e (Some y) H))"
  have run: "list_append H l e = Some ?H'"
    using assms(2) seg(4) \<open>le_next (H l) = Some z\<close> by (simp add: list_append_def detached_def)
  have "dseg ?H' None ys (Some y) = dseg H None ys (Some y)"
    using d by (intro dseg_frame) (auto simp: link_updates)
  then have "dlist ?H' l (xs @ [e])"
    using d seg assms(2) snoc by (auto simp: dlist_def dseg_append link_updates detached_def)
  with run snoc show ?thesis by (auto simp: only_changes_def link_updates)
qed

lemma list_prepend_dlist:
  assumes "dlist H l xs" "detached H e" "e \<noteq> l" "e \<notin> set xs"
  shows "\<exists>H'. list_prepend H l e = Some H' \<and> dlist H' l (e # xs) \<and> only_changes (insert l (insert e (set xs))) H H'"
proof (cases xs)
  case Nil
  with assms show ?thesis
    by (simp add: list_prepend_def dlist_def detached_def link_updates only_changes_def Let_def)
next
  case (Cons y ys)
  have d: "distinct (l # e # y # ys)" using assms Cons by (auto simp: dlist_def)
  have seg: "dseg H (Some y) ys None" "le_next (H y) = head_of ys None" "le_next (H l) = Some y" "le_prev (H l) = last_of ys (Some y)"
    using assms(1) Cons by (simp_all add: dlist_def)
  obtain z where z: "le_prev (H l) = Some z" using seg(4) by (auto simp: last_of_def split: if_splits)
  have sym: "l \<noteq> e" "e \<noteq> l" "l \<noteq> y" "y \<noteq> l" "e \<noteq> y" "y \<noteq> e" using d by auto
  let ?H' = "set_next l (Some e) (set_prev y (Some e) (set_next e (Some y) H))"
  have run: "list_prepend H l e = Some ?H'"
    using assms(2) seg(3) z sym by (simp add: list_prepend_def detached_def Let_def link_updates)
  have "dseg ?H' (Some y) ys None = dseg H (Some y) ys None"
    using d by (intro dseg_frame) (auto simp: link_updates)
  then have "dlist ?H' l (e # xs)"
    using d seg assms(2) Cons by (auto simp: dlist_def link_updates detached_def)
  with run Cons show ?thesis by (auto simp: only_changes_def link_updates)
qed

lemma list_fetch_dlist:
  assumes "dlist H l xs"
  shows "\<exists>H'. list_fetch H l = Some (head_of xs None, H') \<and> dlist H' l (tl xs) \<and>
    only_changes (insert l (set xs)) H H' \<and> (xs \<noteq> [] \<longrightarrow> detached H' (hd xs))"
proof (cases xs)
  case Nil
  with assms show ?thesis by (simp add: list_fetch_def dlist_def only_changes_def)
next
  case (Cons x ys)
  have d: "distinct (l # x # ys)" using assms Cons by (simp add: dlist_def)
  have seg: "le_prev (H x) = None" "le_next (H x) = head_of ys None" "dseg H (Some x) ys None"
    "le_next (H l) = Some x" "le_prev (H l) = last_of ys (Some x)"
    using assms Cons by (simp_all add: dlist_def)
  obtain z where z: "le_prev (H l) = Some z" using seg(5) by (auto simp: last_of_def split: if_splits)
  have sym: "l \<noteq> x" "x \<noteq> l" using d by auto
  show ?thesis
  proof (cases ys)
    case Nil
    with Cons seg sym show ?thesis
      by (simp add: list_fetch_def dlist_def link_updates only_changes_def detached_def Let_def)
  next
    case c2: (Cons y zs)
    let ?H' = "set_next x None (set_prev y None (set_next l (Some y) H))"
    have sym2: "l \<noteq> y" "y \<noteq> l" "x \<noteq> y" "y \<noteq> x" using d c2 by auto
    have run: "list_fetch H l = Some (Some x, ?H')"
      using seg(1,2,4) z sym sym2 c2 by (simp add: list_fetch_def link_updates Let_def)
    have "dseg ?H' (Some y) zs None = dseg H (Some y) zs None"
      using d c2 by (intro dseg_frame) (auto simp: link_updates)
    then have "dlist ?H' l ys"
      using d seg c2 by (auto simp: dlist_def link_updates)
    with run Cons c2 d seg(1) show ?thesis by (auto simp: only_changes_def link_updates detached_def)
  qed
qed

lemma list_pop_dlist:
  assumes "dlist H l xs"
  shows "\<exists>H'. list_pop H l = Some (last_of xs None, H') \<and> dlist H' l (butlast xs) \<and>
    only_changes (insert l (set xs)) H H' \<and> (xs \<noteq> [] \<longrightarrow> detached H' (last xs))"
proof (cases xs rule: rev_cases)
  case Nil
  with assms show ?thesis by (simp add: list_pop_def list_empty_def dlist_def only_changes_def)
next
  case (snoc ys x)
  have d: "distinct (l # ys @ [x])" using assms snoc by (simp add: dlist_def)
  have seg: "dseg H None ys (Some x)" "le_prev (H x) = last_of ys None" "le_next (H x) = None"
    "le_next (H l) = head_of ys (Some x)" "le_prev (H l) = Some x"
    using assms snoc by (simp_all add: dlist_def dseg_append)
  obtain z where z: "le_next (H l) = Some z" using seg(4) by (cases ys) auto
  have sym: "l \<noteq> x" "x \<noteq> l" using d by auto
  show ?thesis
  proof (cases ys rule: rev_cases)
    case Nil
    with snoc seg sym show ?thesis
      by (simp add: list_pop_def list_empty_def dlist_def link_updates only_changes_def detached_def Let_def)
  next
    case s2: (snoc zs y)
    let ?H' = "set_prev x None (set_next y None (set_prev l (Some y) H))"
    have sym2: "l \<noteq> y" "y \<noteq> l" "x \<noteq> y" "y \<noteq> x" using d s2 by auto
    have run: "list_pop H l = Some (Some x, ?H')"
      using seg(2,3,5) z sym sym2 s2 by (simp add: list_pop_def list_empty_def link_updates Let_def)
    have "dseg ?H' None zs (Some y) = dseg H None zs (Some y)"
      using d s2 by (intro dseg_frame) (auto simp: link_updates)
    then have "dlist ?H' l ys"
      using d seg s2 by (auto simp: dlist_def link_updates dseg_append)
    with run snoc s2 d seg(3) show ?thesis
      by (auto simp: only_changes_def link_updates detached_def butlast_append)
  qed
qed

lemma list_delete_dlist:
  assumes "dlist H l (ys @ e # zs)"
  shows "\<exists>H'. list_delete H l e = Some H' \<and> dlist H' l (ys @ zs) \<and>
    only_changes (insert l (set (ys @ e # zs))) H H' \<and> detached H' e"
proof -
  have d: "distinct (l # ys @ e # zs)" using assms by (simp add: dlist_def)
  have seg: "dseg H None ys (Some e)" "le_prev (H e) = last_of ys None" "le_next (H e) = head_of zs None"
    "dseg H (Some e) zs None" "le_next (H l) = head_of ys (Some e)" "le_prev (H l) = last_of zs (Some e)"
    using assms by (simp_all add: dlist_def dseg_append)
  have found: "list_find H (le_next (H l)) e = Some True"
    using list_find_dseg [of H None "ys @ e # zs" e] assms by (simp add: dlist_def)
  have sym: "l \<noteq> e" "e \<noteq> l" using d by auto
  consider "ys = []" "zs = []" | z zs' where "ys = []" "zs = z # zs'"
    | y ys' where "ys = ys' @ [y]" "zs = []" | y ys' z zs' where "ys = ys' @ [y]" "zs = z # zs'"
    by (metis list.exhaust rev_exhaust)
  then show ?thesis
  proof cases
    case 1
    with seg found sym show ?thesis
      by (simp add: list_delete_def dlist_def link_updates only_changes_def detached_def Let_def)
  next
    case 2
    have o: "z \<noteq> l" "l \<noteq> z" "z \<noteq> e" "e \<noteq> z" using d 2 by auto
    let ?H' = "set_next e None (set_prev e None (set_prev z None (set_next l (Some z) H)))"
    have np: "le_prev (H l) \<noteq> Some e" using seg(6) d 2 by (auto simp: last_of_def split: if_splits)
    have run: "list_delete H l e = Some ?H'"
      using seg found sym o np 2 by (simp add: list_delete_def link_updates Let_def)
    have "dseg ?H' (Some z) zs' None = dseg H (Some z) zs' None"
      using d 2 by (intro dseg_frame) (auto simp: link_updates)
    then have "dlist ?H' l zs" using seg d o sym 2 by (auto simp: dlist_def link_updates)
    with run 2 show ?thesis by (auto simp: only_changes_def link_updates detached_def)
  next
    case 3
    have o: "y \<noteq> l" "l \<noteq> y" "y \<noteq> e" "e \<noteq> y" using d 3 by auto
    let ?H' = "set_next e None (set_prev e None (set_next y None (set_prev l (Some y) H)))"
    have nn: "le_next (H l) \<noteq> Some e" using seg(5) d 3 by (cases ys') auto
    have run: "list_delete H l e = Some ?H'"
      using seg found sym o nn 3 by (simp add: list_delete_def link_updates Let_def)
    have "dseg ?H' None ys' (Some y) = dseg H None ys' (Some y)"
      using d 3 by (intro dseg_frame) (auto simp: link_updates)
    then have "dlist ?H' l ys" using seg d o sym 3 by (auto simp: dlist_def link_updates dseg_append)
    with run 3 show ?thesis by (auto simp: only_changes_def link_updates detached_def)
  next
    case 4
    have o: "y \<noteq> l" "l \<noteq> y" "y \<noteq> e" "e \<noteq> y" "z \<noteq> l" "l \<noteq> z" "z \<noteq> e" "e \<noteq> z" "y \<noteq> z" "z \<noteq> y"
      using d 4 by auto
    let ?H' = "set_next e None (set_prev e None (set_next y (Some z) (set_prev z (Some y) H)))"
    have nn: "le_next (H l) \<noteq> Some e" using seg(5) d 4 by (cases ys') auto
    have np: "le_prev (H l) \<noteq> Some e" using seg(6) d 4 by (auto simp: last_of_def split: if_splits)
    have run: "list_delete H l e = Some ?H'"
      using seg found sym o nn np 4 by (simp add: list_delete_def link_updates Let_def)
    have "dseg ?H' None ys' (Some y) = dseg H None ys' (Some y)"
      "dseg ?H' (Some z) zs' None = dseg H (Some z) zs' None"
      using d 4 by (auto intro!: dseg_frame simp: link_updates)
    then have "dlist ?H' l (ys @ zs)" using seg d o sym 4 by (auto simp: dlist_def link_updates dseg_append)
    with run 4 show ?thesis by (auto simp: only_changes_def link_updates detached_def)
  qed
qed

lemma element_in_list_dlist:
  assumes "dlist H l xs"
  shows "element_in_list H l e = Some (e \<in> set xs)"
proof -
  have find: "list_find H (le_next (H l)) e = Some (e \<in> set xs)"
    using list_find_dseg [of H None xs e] assms by (simp add: dlist_def)
  have "e \<notin> set xs" if "detached H e" "le_next (H l) \<noteq> Some e"
  proof
    assume "e \<in> set xs"
    then obtain ys zs where "xs = ys @ e # zs" by (auto simp: in_set_conv_decomp)
    with assms that show False
      by (cases ys rule: rev_cases) (auto simp: dlist_def dseg_append detached_def)
  qed
  with find show ?thesis by (auto simp: element_in_list_def detached_def)
qed

subsection \<open>A family of lists in one heap\<close>

text \<open>
  \<open>lists_ok heads H Q\<close>: every head \<open>l\<close> of the set represents the list \<open>Q l\<close>, no node is in two
  lists or is itself a head, and the nodes in no list are detached.
\<close>

definition lists_ok :: "'a set \<Rightarrow> 'a links \<Rightarrow> ('a \<Rightarrow> 'a list) \<Rightarrow> bool" where
  "lists_ok heads H Q \<longleftrightarrow>
     (\<forall>l\<in>heads. dlist H l (Q l) \<and> set (Q l) \<inter> heads = {}) \<and>
     (\<forall>l\<in>heads. \<forall>m\<in>heads. l \<noteq> m \<longrightarrow> set (Q l) \<inter> set (Q m) = {}) \<and>
     (\<forall>e. e \<notin> heads \<longrightarrow> (\<forall>l\<in>heads. e \<notin> set (Q l)) \<longrightarrow> detached H e)"

definition list_next :: "'a links \<Rightarrow> 'a \<Rightarrow> 'a option" where
  "list_next H e = le_next (H e)"

lemma lists_ok_dlist: "lists_ok heads H Q \<Longrightarrow> l \<in> heads \<Longrightarrow> dlist H l (Q l)"
  by (simp add: lists_ok_def)

text \<open>
  One list of the family is replaced: the rest of the family is untouched, because the
  operation only changed the links of that list and of nodes in no list.
\<close>

lemma lists_ok_update:
  assumes ok: "lists_ok heads H Q" and l: "l \<in> heads"
    and new: "dlist H' l ys" "only_changes A H H'" "A \<subseteq> insert l (set (Q l) \<union> set ys)"
    and ys: "\<And>e. e \<in> set ys \<Longrightarrow> e \<in> set (Q l) \<or> e \<notin> heads \<and> (\<forall>m\<in>heads. e \<notin> set (Q m))"
    and gone: "\<And>e. e \<in> set (Q l) \<Longrightarrow> e \<notin> set ys \<Longrightarrow> detached H' e"
  shows "lists_ok heads H' (Q(l := ys))"
proof -
  have sep: "set (Q m) \<inter> set (Q l) = {}" if "m \<in> heads" "m \<noteq> l" for m
    using ok l that by (auto simp: lists_ok_def)
  have hd_l: "set (Q l) \<inter> heads = {}" using ok l by (auto simp: lists_ok_def)
  have other: "dlist H' m (Q m)" if "m \<in> heads" "m \<noteq> l" for m
  proof -
    have "H' x = H x" if "x \<in> set (m # Q m)" for x
    proof -
      have "l \<notin> set (Q m)" using ok l \<open>m \<in> heads\<close> by (auto simp: lists_ok_def)
      then have "x \<notin> A" using that new(3) sep [OF \<open>m \<in> heads\<close> \<open>m \<noteq> l\<close>] ys hd_l \<open>m \<in> heads\<close> \<open>m \<noteq> l\<close> by fastforce
      then show ?thesis using new(2) by (simp add: only_changes_def)
    qed
    then show ?thesis
      using dlist_frame [of m "Q m" H' H] lists_ok_dlist [OF ok \<open>m \<in> heads\<close>] by blast
  qed
  have free: "detached H' e" if "e \<notin> heads" "\<forall>m\<in>heads. e \<notin> set ((Q(l := ys)) m)" for e
  proof (cases "e \<in> set (Q l)")
    case True
    then show ?thesis using gone that l by auto
  next
    case False
    have "e \<notin> set ys" using that(2) l by (metis fun_upd_same)
    then have "e \<notin> A" using False that(1) l new(3) by auto
    moreover have "\<forall>m\<in>heads. e \<notin> set (Q m)" using that(2) False by (metis fun_upd_apply)
    ultimately show ?thesis
      using ok new(2) that(1) by (auto simp: lists_ok_def only_changes_def detached_def)
  qed
  have heads: "set ys \<inter> heads = {}" using ys hd_l by blast
  have disj: "set ys \<inter> set (Q m) = {}" if "m \<in> heads" "m \<noteq> l" for m
    using ys sep that by blast
  show ?thesis
    unfolding lists_ok_def
  proof (intro conjI ballI allI impI)
    fix m assume m: "m \<in> heads"
    show "dlist H' m ((Q(l := ys)) m)" using m new(1) other by simp
    show "set ((Q(l := ys)) m) \<inter> heads = {}" using m heads ok by (simp add: lists_ok_def)
  next
    fix m k assume mk: "m \<in> heads" "k \<in> heads" "m \<noteq> k"
    then show "set ((Q(l := ys)) m) \<inter> set ((Q(l := ys)) k) = {}"
      using disj [of m] disj [of k] ok by (auto simp: lists_ok_def)
  qed (rule free)
qed

subsection \<open>The interface of the lists\<close>

text \<open>
  What the scheduler, the wait queues and the task list rely on: append, fetch, delete and
  membership act on the represented lists as on HOL lists, never fail an \<open>ASSERT\<close>, and the
  successor of a node in the heap is its successor in the list.
\<close>

locale list_system =
  fixes rep :: "'n set \<Rightarrow> 'h \<Rightarrow> ('n \<Rightarrow> 'n list) \<Rightarrow> bool"
    and append_op :: "'h \<Rightarrow> 'n \<Rightarrow> 'n \<Rightarrow> 'h option"
    and fetch_op :: "'h \<Rightarrow> 'n \<Rightarrow> ('n option \<times> 'h) option"
    and delete_op :: "'h \<Rightarrow> 'n \<Rightarrow> 'n \<Rightarrow> 'h option"
    and member_op :: "'h \<Rightarrow> 'n \<Rightarrow> 'n \<Rightarrow> bool option"
    and next_op :: "'h \<Rightarrow> 'n \<Rightarrow> 'n option"
  assumes append_law: "rep heads H Q \<Longrightarrow> l \<in> heads \<Longrightarrow> e \<notin> heads \<Longrightarrow> (\<forall>m\<in>heads. e \<notin> set (Q m)) \<Longrightarrow>
      \<exists>H'. append_op H l e = Some H' \<and> rep heads H' (Q(l := Q l @ [e]))"
    and fetch_law: "rep heads H Q \<Longrightarrow> l \<in> heads \<Longrightarrow>
      \<exists>H'. fetch_op H l = Some (head_of (Q l) None, H') \<and> rep heads H' (Q(l := tl (Q l)))"
    and delete_law: "rep heads H Q \<Longrightarrow> l \<in> heads \<Longrightarrow> Q l = ys @ e # zs \<Longrightarrow>
      \<exists>H'. delete_op H l e = Some H' \<and> rep heads H' (Q(l := ys @ zs))"
    and member_law: "rep heads H Q \<Longrightarrow> l \<in> heads \<Longrightarrow> member_op H l e = Some (e \<in> set (Q l))"
    and first_law: "rep heads H Q \<Longrightarrow> l \<in> heads \<Longrightarrow> next_op H l = head_of (Q l) None"
    and next_law: "rep heads H Q \<Longrightarrow> l \<in> heads \<Longrightarrow> Q l = ys @ e # zs \<Longrightarrow> next_op H e = head_of zs None"
    and disjoint_law: "rep heads H Q \<Longrightarrow> l \<in> heads \<Longrightarrow> m \<in> heads \<Longrightarrow> l \<noteq> m \<Longrightarrow> set (Q l) \<inter> set (Q m) = {}"
    and node_law: "rep heads H Q \<Longrightarrow> l \<in> heads \<Longrightarrow> distinct (Q l) \<and> set (Q l) \<inter> heads = {}"
begin

lemma in_no_other:
  assumes "rep heads H Q" "l \<in> heads" "Q l = ys @ e # zs"
  shows "\<forall>m\<in>heads. e \<notin> set ((Q(l := ys @ zs)) m)"
proof
  fix m assume "m \<in> heads"
  show "e \<notin> set ((Q(l := ys @ zs)) m)"
  proof (cases "m = l")
    case True
    with node_law [OF assms(1,2)] assms(3) show ?thesis by simp
  next
    case False
    then have "set (Q l) \<inter> set (Q m) = {}" using disjoint_law [OF assms(1,2) \<open>m \<in> heads\<close>] by simp
    with False assms(3) show ?thesis by auto
  qed
qed

text \<open>A node moves from one list to the end of another: taken from the front, or from anywhere.\<close>

lemma delete_append:
  assumes "rep heads H Q" "l \<in> heads" "k \<in> heads" "k \<noteq> l" "Q l = ys @ e # zs"
  shows "\<exists>H1 H2. delete_op H l e = Some H1 \<and> append_op H1 k e = Some H2 \<and>
    rep heads H1 (Q(l := ys @ zs)) \<and> rep heads H2 (Q(l := ys @ zs, k := Q k @ [e]))"
proof -
  obtain H1 where H1: "delete_op H l e = Some H1" "rep heads H1 (Q(l := ys @ zs))"
    using delete_law assms by blast
  have "e \<notin> heads" using node_law [OF assms(1,2)] assms(5) by auto
  then obtain H2 where "append_op H1 k e = Some H2"
    "rep heads H2 ((Q(l := ys @ zs))(k := (Q(l := ys @ zs)) k @ [e]))"
    using append_law [OF H1(2) assms(3)] in_no_other [OF assms(1,2,5)] by blast
  with H1 assms(4) show ?thesis by auto
qed

lemma fetch_append:
  assumes "rep heads H Q" "l \<in> heads" "k \<in> heads" "k \<noteq> l" "Q l = e # zs"
  shows "\<exists>H1 H2. fetch_op H l = Some (Some e, H1) \<and> append_op H1 k e = Some H2 \<and>
    rep heads H1 (Q(l := zs)) \<and> rep heads H2 (Q(l := zs, k := Q k @ [e]))"
proof -
  obtain H1 where H1: "fetch_op H l = Some (Some e, H1)" "rep heads H1 (Q(l := zs))"
    using fetch_law [OF assms(1,2)] assms(5) by auto
  have "e \<notin> heads" using node_law [OF assms(1,2)] assms(5) by auto
  then obtain H2 where "append_op H1 k e = Some H2"
    "rep heads H2 ((Q(l := zs))(k := (Q(l := zs)) k @ [e]))"
    using append_law [OF H1(2) assms(3)] in_no_other [OF assms(1,2), of "[]" e zs] assms(5) by auto
  with H1 assms(4) show ?thesis by auto
qed

text \<open>Appending a node unless it is a member, deleting it if it is one.\<close>

lemma member_append:
  assumes "rep heads H Q" "l \<in> heads" "e \<notin> heads" "\<forall>m\<in>heads. m \<noteq> l \<longrightarrow> e \<notin> set (Q m)"
  shows "\<exists>b H'. member_op H l e = Some b \<and> (if b then Some H else append_op H l e) = Some H' \<and>
    rep heads H' (Q(l := if e \<in> set (Q l) then Q l else Q l @ [e]))"
  using member_law [OF assms(1,2), of e] append_law [OF assms(1,2,3)] assms by (cases "e \<in> set (Q l)") auto

lemma member_delete:
  assumes "rep heads H Q" "l \<in> heads"
  shows "\<exists>b H'. member_op H l e = Some b \<and> (if b then delete_op H l e else Some H) = Some H' \<and>
    rep heads H' (Q(l := remove1 e (Q l)))"
proof (cases "e \<in> set (Q l)")
  case True
  then obtain ys zs where split: "Q l = ys @ e # zs" "e \<notin> set ys" by (meson split_list_first)
  with delete_law [OF assms split(1)] member_law [OF assms, of e] show ?thesis
    by (auto simp: remove1_append)
next
  case False
  with member_law [OF assms, of e] assms show ?thesis by (auto simp: remove1_idem)
qed

end

lemma lists_ok_append:
  assumes "lists_ok heads H Q" "l \<in> heads" "e \<notin> heads" "\<forall>m\<in>heads. e \<notin> set (Q m)"
  shows "\<exists>H'. list_append H l e = Some H' \<and> lists_ok heads H' (Q(l := Q l @ [e]))"
proof -
  have "dlist H l (Q l)" "detached H e" using assms by (auto simp: lists_ok_def)
  then obtain H' where H': "list_append H l e = Some H'" "dlist H' l (Q l @ [e])"
    "only_changes (insert l (insert e (set (Q l)))) H H'"
    using list_append_dlist [of H l "Q l" e] assms by fastforce
  from assms(1,2) H'(2,3) have "lists_ok heads H' (Q(l := Q l @ [e]))"
    by (rule lists_ok_update) (use assms in auto)
  with H'(1) show ?thesis by blast
qed

lemma lists_ok_fetch:
  assumes "lists_ok heads H Q" "l \<in> heads"
  shows "\<exists>H'. list_fetch H l = Some (head_of (Q l) None, H') \<and> lists_ok heads H' (Q(l := tl (Q l)))"
proof -
  obtain H' where H': "list_fetch H l = Some (head_of (Q l) None, H')" "dlist H' l (tl (Q l))"
    "only_changes (insert l (set (Q l))) H H'" "Q l \<noteq> [] \<longrightarrow> detached H' (hd (Q l))"
    using list_fetch_dlist [OF lists_ok_dlist [OF assms]] by blast
  from assms H'(2,3) have "lists_ok heads H' (Q(l := tl (Q l)))"
    by (rule lists_ok_update) (use H'(4) in \<open>cases "Q l"; auto\<close>)+
  with H'(1) show ?thesis by blast
qed

lemma lists_ok_delete:
  assumes "lists_ok heads H Q" "l \<in> heads" "Q l = ys @ e # zs"
  shows "\<exists>H'. list_delete H l e = Some H' \<and> lists_ok heads H' (Q(l := ys @ zs))"
proof -
  obtain H' where H': "list_delete H l e = Some H'" "dlist H' l (ys @ zs)"
    "only_changes (insert l (set (ys @ e # zs))) H H'" "detached H' e"
    using list_delete_dlist [of H l ys e zs] lists_ok_dlist [OF assms(1,2)] assms(3) by auto
  from assms(1,2) H'(2,3) have "lists_ok heads H' (Q(l := ys @ zs))"
    by (rule lists_ok_update) (use H'(4) assms(3) in auto)
  with H'(1) show ?thesis by blast
qed

interpretation klist: list_system lists_ok list_append list_fetch list_delete element_in_list list_next
proof (unfold_locales, goal_cases)
  case (4 heads H Q l e)
  then show ?case by (simp add: element_in_list_dlist lists_ok_dlist)
next
  case (5 heads H Q l)
  then show ?case using lists_ok_dlist [of heads H Q l] by (simp add: list_next_def dlist_def)
next
  case (6 heads H Q l ys e zs)
  then show ?case using lists_ok_dlist [of heads H Q l] by (simp add: list_next_def dlist_def dseg_append)
next
  case (7 heads H Q l m)
  then show ?case by (simp add: lists_ok_def)
next
  case (8 heads H Q l)
  then show ?case by (simp add: lists_ok_def dlist_def)
qed (fact lists_ok_append lists_ok_fetch lists_ok_delete)+

lemma lists_ok_empty: "lists_ok heads (\<lambda>_. \<lparr>le_prev = None, le_next = None\<rparr>) (\<lambda>_. [])"
  by (simp add: lists_ok_def dlist_def detached_def)

end
