(* ===== verification/Task_Sched.thy ===== *)
theory Task_Sched
  imports Intrusive_List Hart
begin

text \<open>
  The cooperative scheduler: \<open>sandbox/task_sched.c\<close> and \<open>sandbox/vmm_sched.c\<close>. A task is a
  \<open>struct hart\<close>; of its fields this theory holds those that only the scheduler and the wait
  queues use. The queues are intrusive lists in one heap of links, so that a node can only be
  moved by the operations of \<open>list.c\<close>. \<open>None\<close> is a failed \<open>ASSERT\<close> or \<open>__not_reach\<close>.
\<close>

datatype task_state = TASK_STATE_ZOMBIE | TASK_STATE_RUNNING | TASK_STATE_INTERRUPTIBLE
  | TASK_STATE_UNINTERRUPTIBLE | TASK_STATE_EXITING | TASK_STATE_MAX

text \<open>The address of a hart: the static idle task, or the hart of a process.\<close>

datatype taskptr = idle_task | Task vmptr

text \<open>The addresses of all \<open>struct list_elem\<close> objects: list heads and embedded nodes.\<close>

datatype sched_node = running_tasks | blocking_tasks | exiting_tasks | global_task_list_head
  | Wq_pivot taskptr | Wait_blob_head taskptr
  | Hart_list taskptr | Vm_list_node vmptr | Wait_list nat | Wait_blob_node nat

text \<open>The frame of a task that does not run; \<open>rbp\<close> and the other registers are one array.\<close>

record x86_64_cpustate =
  cpu_rdi :: u64
  cpu_others :: "u64 list"
  cpu_rflag :: u64
  cpu_rip :: u64
  cpu_trap_reason :: u64

record task =
  task_state :: task_state
  non_stop_state :: task_state
  host_cpustate :: u64
  vmm_stack_ptr :: u64
  wait_state_exited :: bool
  wait_state_stopped :: bool
  wait_state_continued :: bool

text \<open>
  \<open>waiter n\<close> is the field \<open>task\<close> of the wait queue entry \<open>n\<close>; \<open>cpustates\<close> holds the frames that
  were built on the stacks of the monitor. A null pointer to a frame is 0.
\<close>

record sched =
  links :: "sched_node links"
  tasks :: "taskptr \<Rightarrow> task"
  waiter :: "nat \<Rightarrow> taskptr option"
  current :: "taskptr option"
  cpustates :: "u64 \<rightharpoonup> x86_64_cpustate"

abbreviation state_of :: "'z sched_scheme \<Rightarrow> taskptr \<Rightarrow> task_state" where
  "state_of s t \<equiv> task_state (tasks s t)"

definition upd_task :: "taskptr \<Rightarrow> (task \<Rightarrow> task) \<Rightarrow> 'z sched_scheme \<Rightarrow> 'z sched_scheme" where
  "upd_task t f s = s\<lparr>tasks := (tasks s)(t := f (tasks s t))\<rparr>"

definition USERSPACE_TRAP_REASON_INIT :: u64 where "USERSPACE_TRAP_REASON_INIT = 0"
definition SIZEOF_CPUSTATE :: u64 where "SIZEOF_CPUSTATE = 144"

subsection \<open>Task states\<close>

fun transition_table :: "task_state \<Rightarrow> task_state \<Rightarrow> bool" where
  "transition_table TASK_STATE_ZOMBIE TASK_STATE_ZOMBIE = True"
| "transition_table TASK_STATE_RUNNING TASK_STATE_RUNNING = True"
| "transition_table TASK_STATE_EXITING TASK_STATE_EXITING = True"
| "transition_table TASK_STATE_INTERRUPTIBLE TASK_STATE_INTERRUPTIBLE = True"
| "transition_table TASK_STATE_UNINTERRUPTIBLE TASK_STATE_UNINTERRUPTIBLE = True"
| "transition_table TASK_STATE_RUNNING TASK_STATE_INTERRUPTIBLE = True"
| "transition_table TASK_STATE_RUNNING TASK_STATE_UNINTERRUPTIBLE = True"
| "transition_table TASK_STATE_RUNNING TASK_STATE_EXITING = True"
| "transition_table TASK_STATE_INTERRUPTIBLE TASK_STATE_RUNNING = True"
| "transition_table TASK_STATE_INTERRUPTIBLE TASK_STATE_UNINTERRUPTIBLE = True"
| "transition_table TASK_STATE_UNINTERRUPTIBLE TASK_STATE_RUNNING = True"
| "transition_table TASK_STATE_UNINTERRUPTIBLE TASK_STATE_INTERRUPTIBLE = True"
| "transition_table _ _ = False"

definition transit_state :: "'z sched_scheme \<Rightarrow> taskptr \<Rightarrow> task_state \<Rightarrow> 'z sched_scheme option" where
  "transit_state s t target =
     ASSERT (target \<noteq> TASK_STATE_MAX) (ASSERT (transition_table (state_of s t) target)
       (Some (upd_task t (task_state_update (\<lambda>_. target)) s)))"

subsection \<open>The queues\<close>

definition append_to :: "sched_node \<Rightarrow> sched_node \<Rightarrow> 'z sched_scheme \<Rightarrow> 'z sched_scheme option" where
  "append_to l e s = map_option (\<lambda>H. s\<lparr>links := H\<rparr>) (list_append (links s) l e)"

definition delete_from :: "sched_node \<Rightarrow> sched_node \<Rightarrow> 'z sched_scheme \<Rightarrow> 'z sched_scheme option" where
  "delete_from l e s = map_option (\<lambda>H. s\<lparr>links := H\<rparr>) (list_delete (links s) l e)"

definition fetch_from :: "sched_node \<Rightarrow> 'z sched_scheme \<Rightarrow> (sched_node option \<times> 'z sched_scheme) option" where
  "fetch_from l s = map_option (\<lambda>(e, H). (e, s\<lparr>links := H\<rparr>)) (list_fetch (links s) l)"

definition schedule_task :: "'z sched_scheme \<Rightarrow> taskptr \<Rightarrow> 'z sched_scheme option" where
  "schedule_task s t =
     (case state_of s t of
        TASK_STATE_RUNNING \<Rightarrow> append_to running_tasks (Hart_list t) s
      | TASK_STATE_INTERRUPTIBLE \<Rightarrow> append_to blocking_tasks (Hart_list t) s
      | TASK_STATE_UNINTERRUPTIBLE \<Rightarrow> append_to blocking_tasks (Hart_list t) s
      | TASK_STATE_EXITING \<Rightarrow> append_to exiting_tasks (Hart_list t) s
      | _ \<Rightarrow> None)"

text \<open>
  The loops. Each follows the links of the heap, so that it need not end on a corrupt heap;
  a node that is not embedded in a hart has no hart around it (\<open>CONTAINER_OF\<close>).
\<close>

partial_function (option) blocking_loop ::
  "sched_node option \<Rightarrow> 'z sched_scheme \<Rightarrow> 'z sched_scheme option" where
  "blocking_loop cur s =
     (case cur of None \<Rightarrow> Some s
      | Some e \<Rightarrow>
          (case e of Hart_list t \<Rightarrow>
             let nxt = list_next (links s) e in
             (case state_of s t of
                TASK_STATE_RUNNING \<Rightarrow>
                  Option.bind (delete_from blocking_tasks e s) (\<lambda>s1.
                  Option.bind (schedule_task s1 t) (blocking_loop nxt))
              | TASK_STATE_EXITING \<Rightarrow>
                  Option.bind (delete_from blocking_tasks e s) (\<lambda>s1.
                  Option.bind (schedule_task s1 t) (blocking_loop nxt))
              | TASK_STATE_INTERRUPTIBLE \<Rightarrow> blocking_loop nxt s
              | TASK_STATE_UNINTERRUPTIBLE \<Rightarrow> blocking_loop nxt s
              | _ \<Rightarrow> None)
           | _ \<Rightarrow> None))"

definition process_blocking_list :: "'z sched_scheme \<Rightarrow> 'z sched_scheme option" where
  "process_blocking_list s = blocking_loop (list_next (links s) blocking_tasks) s"

partial_function (option) process_exiting_list :: "'z sched_scheme \<Rightarrow> 'z sched_scheme option" where
  "process_exiting_list s =
     Option.bind (fetch_from exiting_tasks s) (\<lambda>(e, s1).
       case e of None \<Rightarrow> Some s1 | Some _ \<Rightarrow> process_exiting_list s1)"

partial_function (option) process_running_list ::
  "'z sched_scheme \<Rightarrow> (taskptr option \<times> 'z sched_scheme) option" where
  "process_running_list s =
     Option.bind (fetch_from running_tasks s) (\<lambda>(e, s1).
       case e of None \<Rightarrow> Some (None, s1)
       | Some n \<Rightarrow>
           (case n of Hart_list t \<Rightarrow>
              if state_of s1 t = TASK_STATE_RUNNING then Some (Some t, s1)
              else Option.bind (schedule_task s1 t) process_running_list
            | _ \<Rightarrow> None))"

declare blocking_loop.simps [code] process_exiting_list.simps [code] process_running_list.simps [code]

definition sched_pre_init :: "'z sched_scheme \<Rightarrow> 'z sched_scheme" where
  "sched_pre_init s = s\<lparr>links := list_init (list_init (list_init (links s) running_tasks) blocking_tasks) exiting_tasks\<rparr>"

subsection \<open>Switching between tasks\<close>

definition task_vmm_sched_init :: "'z sched_scheme \<Rightarrow> taskptr \<Rightarrow> u64 \<Rightarrow> u64 \<Rightarrow> 'z sched_scheme" where
  "task_vmm_sched_init s t next_func opaque =
     (let stack = (vmm_stack_ptr (tasks s t) - SIZEOF_CPUSTATE) AND (NOT 15);
          cpu = \<lparr>cpu_rdi = opaque, cpu_others = replicate 14 0, cpu_rflag = 0, cpu_rip = next_func, cpu_trap_reason = USERSPACE_TRAP_REASON_INIT\<rparr>
      in upd_task t (host_cpustate_update (\<lambda>_. stack)) (s\<lparr>cpustates := (cpustates s)(stack \<mapsto> cpu)\<rparr>))"

text \<open>The second component of the result is the stack that \<open>user_space_trap\<close> switches to.\<close>

definition userspace_trap_handler :: "'z sched_scheme \<Rightarrow> u64 \<Rightarrow> (u64 \<times> 'z sched_scheme) option" where
  "userspace_trap_handler s cpu =
     (case current s of None \<Rightarrow> None
      | Some cur \<Rightarrow>
          let s0 = upd_task cur (host_cpustate_update (\<lambda>_. cpu)) s in
          Option.bind (if cur \<noteq> idle_task then schedule_task s0 cur else Some s0) (\<lambda>s1.
          Option.bind (process_blocking_list s1) (\<lambda>s2.
          Option.bind (process_exiting_list s2) (\<lambda>s3.
          Option.bind (process_running_list s3) (\<lambda>(next_task, s4).
            let nxt = (case next_task of None \<Rightarrow> idle_task | Some t \<Rightarrow> t);
                s5 = s4\<lparr>current := Some nxt\<rparr>
            in ASSERT (host_cpustate (tasks s5 nxt) \<noteq> 0)
                 (Some (host_cpustate (tasks s5 nxt), s5)))))))"

text \<open>The start of the idle task: it becomes the current task and yields.\<close>

definition schedule_idle_task :: "'z sched_scheme \<Rightarrow> u64 \<Rightarrow> (u64 \<times> 'z sched_scheme) option" where
  "schedule_idle_task s cpu = userspace_trap_handler (s\<lparr>current := Some idle_task\<rparr>) cpu"

subsection \<open>The abstract scheduler\<close>

text \<open>
  Three queues of tasks, and what a switch does with them, given the state of each task: the
  current task goes to the end of the queue of its state; blocked tasks that became runnable
  follow it, and the first runnable task of the run queue is taken. Tasks in front of it that
  are not runnable any more move to the queue of their state; exiting tasks are dropped.
\<close>

record queues =
  runq :: "taskptr list"
  blkq :: "taskptr list"
  exq :: "taskptr list"

fun blocked :: "task_state \<Rightarrow> bool" where
  "blocked TASK_STATE_INTERRUPTIBLE = True"
| "blocked TASK_STATE_UNINTERRUPTIBLE = True"
| "blocked _ = False"

definition schedulable :: "task_state \<Rightarrow> bool" where
  "schedulable x \<longleftrightarrow> x = TASK_STATE_RUNNING \<or> x = TASK_STATE_EXITING \<or> blocked x"

definition running_in :: "(taskptr \<Rightarrow> task_state) \<Rightarrow> taskptr list \<Rightarrow> taskptr list" where
  "running_in st = filter (\<lambda>t. st t = TASK_STATE_RUNNING)"

definition blocked_in :: "(taskptr \<Rightarrow> task_state) \<Rightarrow> taskptr list \<Rightarrow> taskptr list" where
  "blocked_in st = filter (\<lambda>t. blocked (st t))"

definition exiting_in :: "(taskptr \<Rightarrow> task_state) \<Rightarrow> taskptr list \<Rightarrow> taskptr list" where
  "exiting_in st = filter (\<lambda>t. st t = TASK_STATE_EXITING)"

definition enqueue :: "(taskptr \<Rightarrow> task_state) \<Rightarrow> taskptr list \<Rightarrow> queues \<Rightarrow> queues" where
  "enqueue st ts q = \<lparr>runq = runq q @ running_in st ts, blkq = blkq q @ blocked_in st ts, exq = exq q @ exiting_in st ts\<rparr>"

definition stopped_prefix :: "(taskptr \<Rightarrow> task_state) \<Rightarrow> taskptr list \<Rightarrow> taskptr list" where
  "stopped_prefix st = takeWhile (\<lambda>t. st t \<noteq> TASK_STATE_RUNNING)"

definition runnable_suffix :: "(taskptr \<Rightarrow> task_state) \<Rightarrow> taskptr list \<Rightarrow> taskptr list" where
  "runnable_suffix st = dropWhile (\<lambda>t. st t \<noteq> TASK_STATE_RUNNING)"

definition pick :: "(taskptr \<Rightarrow> task_state) \<Rightarrow> queues \<Rightarrow> taskptr option \<times> queues" where
  "pick st q =
     (let rest = runnable_suffix st (runq q) in
      (head_of rest None, enqueue st (stopped_prefix st (runq q)) (q\<lparr>runq := []\<rparr>)\<lparr>runq := tl rest\<rparr>))"

definition wake_blocked :: "(taskptr \<Rightarrow> task_state) \<Rightarrow> queues \<Rightarrow> queues" where
  "wake_blocked st q = enqueue st (blkq q) (q\<lparr>blkq := []\<rparr>)"

definition switch_spec :: "(taskptr \<Rightarrow> task_state) \<Rightarrow> taskptr \<Rightarrow> queues \<Rightarrow> taskptr option \<times> queues" where
  "switch_spec st cur q =
     pick st ((wake_blocked st (if cur = idle_task then q else enqueue st [cur] q))\<lparr>exq := []\<rparr>)"

lemmas queue_spec_defs = enqueue_def running_in_def blocked_in_def exiting_in_def stopped_prefix_def
  runnable_suffix_def

lemma enqueue_Nil [simp]: "enqueue st [] q = q"
  by (simp add: queue_spec_defs)

lemma enqueue_append: "enqueue st (xs @ ys) q = enqueue st ys (enqueue st xs q)"
  by (simp add: queue_spec_defs)

subsection \<open>What the heap of links represents\<close>

definition sched_heads :: "sched_node set" where
  "sched_heads = {running_tasks, blocking_tasks, exiting_tasks, global_task_list_head}
     \<union> range Wq_pivot \<union> range Wait_blob_head"

definition sched_lists :: "queues \<Rightarrow> (sched_node \<Rightarrow> sched_node list) \<Rightarrow> sched_node \<Rightarrow> sched_node list" where
  "sched_lists q B = B(running_tasks := map Hart_list (runq q), blocking_tasks := map Hart_list (blkq q),
     exiting_tasks := map Hart_list (exq q))"

text \<open>\<open>B\<close> gives the lists of the other heads; no hart is linked into one of them.\<close>

definition queues_ok :: "sched_node links \<Rightarrow> queues \<Rightarrow> (sched_node \<Rightarrow> sched_node list) \<Rightarrow> bool" where
  "queues_ok H q B \<longleftrightarrow> lists_ok sched_heads H (sched_lists q B) \<and>
     (\<forall>l t. l \<in> sched_heads - {running_tasks, blocking_tasks, exiting_tasks} \<longrightarrow> Hart_list t \<notin> set (B l))"

definition queued :: "queues \<Rightarrow> taskptr set" where
  "queued q = set (runq q) \<union> set (blkq q) \<union> set (exq q)"

lemma sched_lists_simps [simp]:
  "sched_lists q B running_tasks = map Hart_list (runq q)"
  "sched_lists q B blocking_tasks = map Hart_list (blkq q)"
  "sched_lists q B exiting_tasks = map Hart_list (exq q)"
  by (simp_all add: sched_lists_def)

lemma sched_lists_upd:
  "(sched_lists q B)(running_tasks := map Hart_list xs) = sched_lists (q\<lparr>runq := xs\<rparr>) B"
  "(sched_lists q B)(blocking_tasks := map Hart_list xs) = sched_lists (q\<lparr>blkq := xs\<rparr>) B"
  "(sched_lists q B)(exiting_tasks := map Hart_list xs) = sched_lists (q\<lparr>exq := xs\<rparr>) B"
  by (simp_all add: sched_lists_def fun_eq_iff)

lemma sched_heads_simps [simp]:
  "running_tasks \<in> sched_heads" "blocking_tasks \<in> sched_heads" "exiting_tasks \<in> sched_heads"
  "global_task_list_head \<in> sched_heads" "Wq_pivot t \<in> sched_heads" "Wait_blob_head t \<in> sched_heads"
  "Hart_list t \<notin> sched_heads" "Vm_list_node v \<notin> sched_heads" "Wait_list n \<notin> sched_heads"
  "Wait_blob_node n \<notin> sched_heads"
  by (auto simp: sched_heads_def)

lemma queues_ok_free:
  assumes "queues_ok H q B" "t \<notin> queued q"
  shows "\<forall>m\<in>sched_heads. Hart_list t \<notin> set (sched_lists q B m)"
proof
  fix m assume m: "m \<in> sched_heads"
  show "Hart_list t \<notin> set (sched_lists q B m)"
  proof (cases "m \<in> {running_tasks, blocking_tasks, exiting_tasks}")
    case True
    with assms(2) show ?thesis by (auto simp: queued_def)
  next
    case False
    then have "sched_lists q B m = B m" by (simp add: sched_lists_def)
    with False m assms(1) show ?thesis by (simp add: queues_ok_def)
  qed
qed

lemma queues_ok_cong:
  assumes "queues_ok H q B" "lists_ok sched_heads H' L" "L = sched_lists q' B"
  shows "queues_ok H' q' B"
  using assms by (simp add: queues_ok_def)

subsection \<open>The operations refine the abstract scheduler\<close>

lemma append_queue_ok:
  assumes "queues_ok (links s) q B" "t \<notin> queued q"
    and "l = running_tasks \<or> l = blocking_tasks \<or> l = exiting_tasks"
    and "(sched_lists q B)(l := sched_lists q B l @ [Hart_list t]) = sched_lists q' B"
  shows "\<exists>H. append_to l (Hart_list t) s = Some (s\<lparr>links := H\<rparr>) \<and> queues_ok H q' B"
proof -
  have "lists_ok sched_heads (links s) (sched_lists q B)" using assms(1) by (simp add: queues_ok_def)
  then obtain H where "list_append (links s) l (Hart_list t) = Some H"
    "lists_ok sched_heads H ((sched_lists q B)(l := sched_lists q B l @ [Hart_list t]))"
    using klist.append_law [of sched_heads "links s" "sched_lists q B" l "Hart_list t"]
      queues_ok_free [OF assms(1,2)] assms(3) by auto
  with assms(1,4) show ?thesis by (auto simp: append_to_def intro: queues_ok_cong)
qed

lemma schedule_task_refines:
  assumes "queues_ok (links s) q B" "t \<notin> queued q" "schedulable (state_of s t)"
  shows "\<exists>H. schedule_task s t = Some (s\<lparr>links := H\<rparr>) \<and> queues_ok H (enqueue (state_of s) [t] q) B"
proof -
  note app = append_queue_ok [OF assms(1,2), where q' = "enqueue (state_of s) [t] q"]
  have "state_of s t = TASK_STATE_RUNNING \<or> state_of s t = TASK_STATE_EXITING \<or>
      state_of s t = TASK_STATE_INTERRUPTIBLE \<or> state_of s t = TASK_STATE_UNINTERRUPTIBLE"
    using assms(3) by (cases "state_of s t") (auto simp: schedulable_def)
  then show ?thesis
  proof (elim disjE)
    assume "state_of s t = TASK_STATE_RUNNING"
    then show ?thesis using app [of running_tasks] by (simp add: schedule_task_def queue_spec_defs sched_lists_def fun_upd_twist)
  next
    assume "state_of s t = TASK_STATE_EXITING"
    then show ?thesis using app [of exiting_tasks] by (simp add: schedule_task_def queue_spec_defs sched_lists_def fun_upd_twist)
  next
    assume "state_of s t = TASK_STATE_INTERRUPTIBLE"
    then show ?thesis using app [of blocking_tasks] by (simp add: schedule_task_def queue_spec_defs sched_lists_def fun_upd_twist)
  next
    assume "state_of s t = TASK_STATE_UNINTERRUPTIBLE"
    then show ?thesis using app [of blocking_tasks] by (simp add: schedule_task_def queue_spec_defs sched_lists_def fun_upd_twist)
  qed
qed

lemma queues_ok_lists: "queues_ok H q B \<Longrightarrow> lists_ok sched_heads H (sched_lists q B)"
  by (simp add: queues_ok_def)

lemma queues_distinct:
  assumes "queues_ok H q B"
  shows "distinct (runq q @ blkq q @ exq q)"
proof -
  note ok = queues_ok_lists [OF assms]
  have "distinct (map Hart_list (runq q))" "distinct (map Hart_list (blkq q))" "distinct (map Hart_list (exq q))"
    using klist.node_law [OF ok, of running_tasks] klist.node_law [OF ok, of blocking_tasks]
      klist.node_law [OF ok, of exiting_tasks] by simp_all
  moreover have "set (map Hart_list (runq q)) \<inter> set (map Hart_list (blkq q)) = {}"
    "set (map Hart_list (runq q)) \<inter> set (map Hart_list (exq q)) = {}"
    "set (map Hart_list (blkq q)) \<inter> set (map Hart_list (exq q)) = {}"
    using klist.disjoint_law [OF ok, of running_tasks blocking_tasks]
      klist.disjoint_law [OF ok, of running_tasks exiting_tasks]
      klist.disjoint_law [OF ok, of blocking_tasks exiting_tasks] by simp_all
  ultimately show ?thesis by (auto simp: distinct_map)
qed

lemma delete_queue_ok:
  assumes "queues_ok (links s) q B" "blkq q = ys @ t # zs"
  shows "\<exists>H. delete_from blocking_tasks (Hart_list t) s = Some (s\<lparr>links := H\<rparr>) \<and> queues_ok H (q\<lparr>blkq := ys @ zs\<rparr>) B"
proof -
  obtain H where "list_delete (links s) blocking_tasks (Hart_list t) = Some H"
    "lists_ok sched_heads H ((sched_lists q B)(blocking_tasks := map Hart_list ys @ map Hart_list zs))"
    using klist.delete_law [OF queues_ok_lists [OF assms(1)], of blocking_tasks "map Hart_list ys"
      "Hart_list t" "map Hart_list zs"] assms(2) by auto
  then have "queues_ok H (q\<lparr>blkq := ys @ zs\<rparr>) B"
    using queues_ok_cong [OF assms(1)] sched_lists_upd(2) [of q B "ys @ zs"] by simp
  with \<open>list_delete _ _ _ = _\<close> show ?thesis by (auto simp: delete_from_def)
qed

lemma fetch_run_ok:
  assumes "queues_ok (links s) q B"
  shows "\<exists>H. fetch_from running_tasks s = Some (map_option Hart_list (head_of (runq q) None), s\<lparr>links := H\<rparr>) \<and>
    queues_ok H (q\<lparr>runq := tl (runq q)\<rparr>) B"
proof -
  obtain H where H: "list_fetch (links s) running_tasks = Some (head_of (map Hart_list (runq q)) None, H)"
    "lists_ok sched_heads H ((sched_lists q B)(running_tasks := map Hart_list (tl (runq q))))"
    using klist.fetch_law [OF queues_ok_lists [OF assms], of running_tasks] by (auto simp: map_tl)
  then have "queues_ok H (q\<lparr>runq := tl (runq q)\<rparr>) B"
    using queues_ok_cong [OF assms] sched_lists_upd(1) by blast
  with H(1) show ?thesis by (cases "runq q") (auto simp: fetch_from_def)
qed

lemma fetch_exit_ok:
  assumes "queues_ok (links s) q B"
  shows "\<exists>H. fetch_from exiting_tasks s = Some (map_option Hart_list (head_of (exq q) None), s\<lparr>links := H\<rparr>) \<and>
    queues_ok H (q\<lparr>exq := tl (exq q)\<rparr>) B"
proof -
  obtain H where H: "list_fetch (links s) exiting_tasks = Some (head_of (map Hart_list (exq q)) None, H)"
    "lists_ok sched_heads H ((sched_lists q B)(exiting_tasks := map Hart_list (tl (exq q))))"
    using klist.fetch_law [OF queues_ok_lists [OF assms], of exiting_tasks] by (auto simp: map_tl)
  then have "queues_ok H (q\<lparr>exq := tl (exq q)\<rparr>) B"
    using queues_ok_cong [OF assms] sched_lists_upd(3) by blast
  with H(1) show ?thesis by (cases "exq q") (auto simp: fetch_from_def)
qed

lemma schedulable_cases:
  assumes "schedulable x"
  obtains "x = TASK_STATE_RUNNING" | "x = TASK_STATE_EXITING"
    | "x = TASK_STATE_INTERRUPTIBLE" | "x = TASK_STATE_UNINTERRUPTIBLE"
  using assms by (cases x) (auto simp: schedulable_def)

lemma blocking_loop_refines:
  assumes "queues_ok (links s) q B" "blkq q = ys @ zs" "\<forall>t\<in>set zs. schedulable (state_of s t)"
  shows "\<exists>H. blocking_loop (head_of (map Hart_list zs) None) s = Some (s\<lparr>links := H\<rparr>) \<and>
    queues_ok H (enqueue (state_of s) zs (q\<lparr>blkq := ys\<rparr>)) B"
  using assms
proof (induction zs arbitrary: s q ys)
  case Nil
  then have "q\<lparr>blkq := ys\<rparr> = q" by simp
  with Nil show ?case by (subst blocking_loop.simps) (auto intro: exI [of _ "links s"])
next
  case (Cons t zs)
  let ?st = "state_of s"
  have nxt: "list_next (links s) (Hart_list t) = head_of (map Hart_list zs) None"
    using klist.next_law [OF queues_ok_lists [OF Cons.prems(1)], of blocking_tasks "map Hart_list ys"
      "Hart_list t" "map Hart_list zs"] Cons.prems(2) by simp
  have sch: "schedulable (?st t)" "\<forall>t\<in>set zs. schedulable (?st t)" using Cons.prems(3) by auto
  show ?case
  proof (cases "blocked (?st t)")
    case True
    have "enqueue ?st zs (q\<lparr>blkq := ys @ [t]\<rparr>) = enqueue ?st (t # zs) (q\<lparr>blkq := ys\<rparr>)"
      using True by (cases "?st t") (simp_all add: queue_spec_defs)
    moreover have "blocking_loop (Some (Hart_list t)) s = blocking_loop (head_of (map Hart_list zs) None) s"
      using True nxt by (subst blocking_loop.simps) (cases "?st t"; simp)
    ultimately show ?thesis
      using Cons.IH [of s q "ys @ [t]"] Cons.prems sch by simp
  next
    case False
    obtain H1 where H1: "delete_from blocking_tasks (Hart_list t) s = Some (s\<lparr>links := H1\<rparr>)"
      "queues_ok H1 (q\<lparr>blkq := ys @ zs\<rparr>) B"
      using delete_queue_ok [OF Cons.prems(1,2)] by blast
    have "t \<notin> queued (q\<lparr>blkq := ys @ zs\<rparr>)"
      using queues_distinct [OF Cons.prems(1)] Cons.prems(2) by (auto simp: queued_def)
    then obtain H2 where H2: "schedule_task (s\<lparr>links := H1\<rparr>) t = Some (s\<lparr>links := H2\<rparr>)"
      "queues_ok H2 (enqueue ?st [t] (q\<lparr>blkq := ys @ zs\<rparr>)) B"
      using schedule_task_refines [of "s\<lparr>links := H1\<rparr>" "q\<lparr>blkq := ys @ zs\<rparr>" B t] H1(2) sch(1) by auto
    have "blkq (enqueue ?st [t] (q\<lparr>blkq := ys @ zs\<rparr>)) = ys @ zs"
      using False by (simp add: queue_spec_defs)
    then obtain H where H: "blocking_loop (head_of (map Hart_list zs) None) (s\<lparr>links := H2\<rparr>) = Some (s\<lparr>links := H\<rparr>)"
      "queues_ok H (enqueue ?st zs ((enqueue ?st [t] (q\<lparr>blkq := ys @ zs\<rparr>))\<lparr>blkq := ys\<rparr>)) B"
      using Cons.IH [of "s\<lparr>links := H2\<rparr>" _ ys] H2(2) sch(2) by fastforce
    have "enqueue ?st zs ((enqueue ?st [t] (q\<lparr>blkq := ys @ zs\<rparr>))\<lparr>blkq := ys\<rparr>) = enqueue ?st (t # zs) (q\<lparr>blkq := ys\<rparr>)"
      using False by (simp add: queue_spec_defs)
    moreover have "blocking_loop (Some (Hart_list t)) s = Some (s\<lparr>links := H\<rparr>)"
      using sch(1) False nxt H1(1) H2(1) H(1)
      by (subst blocking_loop.simps) (erule schedulable_cases; simp)
    ultimately show ?thesis using H(2) by auto
  qed
qed

lemma process_blocking_refines:
  assumes "queues_ok (links s) q B" "\<forall>t\<in>set (blkq q). schedulable (state_of s t)"
  shows "\<exists>H. process_blocking_list s = Some (s\<lparr>links := H\<rparr>) \<and> queues_ok H (wake_blocked (state_of s) q) B"
  using blocking_loop_refines [OF assms(1), of "[]" "blkq q"] assms
    klist.first_law [OF queues_ok_lists [OF assms(1)], of blocking_tasks]
  by (simp add: process_blocking_list_def wake_blocked_def)

lemma process_exiting_refines:
  assumes "queues_ok (links s) q B"
  shows "\<exists>H. process_exiting_list s = Some (s\<lparr>links := H\<rparr>) \<and> queues_ok H (q\<lparr>exq := []\<rparr>) B"
  using assms
proof (induction "exq q" arbitrary: s q)
  case Nil
  with fetch_exit_ok [OF Nil.prems] show ?case by (subst process_exiting_list.simps) auto
next
  case (Cons t ts)
  obtain H where H: "fetch_from exiting_tasks s = Some (Some (Hart_list t), s\<lparr>links := H\<rparr>)"
    "queues_ok H (q\<lparr>exq := ts\<rparr>) B"
    using fetch_exit_ok [OF Cons.prems] Cons.hyps(2) [symmetric] by auto
  with Cons.hyps(1) [of "q\<lparr>exq := ts\<rparr>" "s\<lparr>links := H\<rparr>"] show ?case
    by (subst process_exiting_list.simps) auto
qed

lemma pick_Cons_stopped:
  "st t \<noteq> TASK_STATE_RUNNING \<Longrightarrow> pick st (q\<lparr>runq := t # ts\<rparr>) = pick st ((enqueue st [t] (q\<lparr>runq := ts\<rparr>)))"
  by (simp add: pick_def queue_spec_defs Let_def)

lemma process_running_refines:
  assumes "queues_ok (links s) q B" "\<forall>t\<in>set (runq q). schedulable (state_of s t)"
  shows "\<exists>H. process_running_list s = Some (fst (pick (state_of s) q), s\<lparr>links := H\<rparr>) \<and>
    queues_ok H (snd (pick (state_of s) q)) B"
  using assms
proof (induction "runq q" arbitrary: s q)
  case Nil
  then have "pick (state_of s) q = (None, q\<lparr>runq := []\<rparr>)" by (simp add: pick_def queue_spec_defs)
  with fetch_run_ok [OF Nil.prems(1)] Nil.hyps show ?case by (subst process_running_list.simps) auto
next
  case (Cons t ts)
  obtain H where H: "fetch_from running_tasks s = Some (Some (Hart_list t), s\<lparr>links := H\<rparr>)"
    "queues_ok H (q\<lparr>runq := ts\<rparr>) B"
    using fetch_run_ok [OF Cons.prems(1)] Cons.hyps(2) [symmetric] by auto
  have q: "q = q\<lparr>runq := t # ts\<rparr>" using Cons.hyps(2) by simp
  show ?case
  proof (cases "state_of s t = TASK_STATE_RUNNING")
    case True
    have "pick (state_of s) q = (Some t, q\<lparr>runq := ts\<rparr>)"
      using True by (subst q) (simp add: pick_def queue_spec_defs Let_def)
    with H True show ?thesis by (subst process_running_list.simps) auto
  next
    case False
    let ?q = "enqueue (state_of s) [t] (q\<lparr>runq := ts\<rparr>)"
    have "t \<notin> queued (q\<lparr>runq := ts\<rparr>)"
      using queues_distinct [OF Cons.prems(1)] Cons.hyps(2) [symmetric] by (auto simp: queued_def)
    then obtain H2 where H2: "schedule_task (s\<lparr>links := H\<rparr>) t = Some (s\<lparr>links := H2\<rparr>)" "queues_ok H2 ?q B"
      using schedule_task_refines [of "s\<lparr>links := H\<rparr>" "q\<lparr>runq := ts\<rparr>" B t] H(2) Cons.prems(2)
        Cons.hyps(2) [symmetric] by auto
    have "ts = runq ?q" using False by (simp add: queue_spec_defs)
    with Cons.hyps(1) [of ?q "s\<lparr>links := H2\<rparr>"] H2(2) Cons.prems(2) Cons.hyps(2) [symmetric]
    obtain H3 where H3: "process_running_list (s\<lparr>links := H2\<rparr>) = Some (fst (pick (state_of s) ?q), s\<lparr>links := H3\<rparr>)"
      "queues_ok H3 (snd (pick (state_of s) ?q)) B" by fastforce
    have "pick (state_of s) q = pick (state_of s) ?q" using False by (subst q) (rule pick_Cons_stopped)
    with H H2 H3 False show ?thesis by (subst process_running_list.simps) auto
  qed
qed

subsection \<open>A switch of tasks\<close>

text \<open>
  The invariant between two switches: the links represent the queues, the current task is
  in none of them, the idle task is never queued, every task has a state that a queue exists
  for and a saved frame.
\<close>

definition sched_ok :: "'z sched_scheme \<Rightarrow> queues \<Rightarrow> (sched_node \<Rightarrow> sched_node list) \<Rightarrow> bool" where
  "sched_ok s q B \<longleftrightarrow> queues_ok (links s) q B \<and> idle_task \<notin> queued q \<and>
     (\<forall>t\<in>queued q. schedulable (state_of s t) \<and> host_cpustate (tasks s t) \<noteq> 0) \<and>
     (\<exists>cur. current s = Some cur \<and> cur \<notin> queued q \<and> (cur \<noteq> idle_task \<longrightarrow> schedulable (state_of s cur) \<and>
       host_cpustate (tasks s idle_task) \<noteq> 0))"

definition next_of :: "taskptr option \<Rightarrow> taskptr" where
  "next_of t = (case t of None \<Rightarrow> idle_task | Some t \<Rightarrow> t)"

lemma runnable_suffix_Cons:
  assumes "runnable_suffix st xs = t # ys"
  shows "xs = stopped_prefix st xs @ t # ys \<and> st t = TASK_STATE_RUNNING"
proof
  show "xs = stopped_prefix st xs @ t # ys"
    using takeWhile_dropWhile_id [of _ xs] assms by (metis runnable_suffix_def stopped_prefix_def)
  show "st t = TASK_STATE_RUNNING"
    using hd_dropWhile [of "\<lambda>t. st t \<noteq> TASK_STATE_RUNNING" xs] assms
    unfolding runnable_suffix_def by (metis list.distinct(1) list.sel(1))
qed

lemma stopped_prefix_D: "t \<in> set (stopped_prefix st xs) \<Longrightarrow> st t \<noteq> TASK_STATE_RUNNING \<and> t \<in> set xs"
  unfolding stopped_prefix_def by (auto dest: set_takeWhileD)

lemma runnable_suffix_append:
  "st t = TASK_STATE_RUNNING \<Longrightarrow> runnable_suffix st (xs @ t # zs) = runnable_suffix st xs @ t # zs"
  by (induction xs) (simp_all add: runnable_suffix_def)

lemma set_enqueue:
  "queued (enqueue st ts q) = queued q \<union> {t \<in> set ts. schedulable (st t)}"
  by (auto simp: queued_def queue_spec_defs schedulable_def)

lemma enqueue_sels:
  "set (runq (enqueue st ts q)) = set (runq q) \<union> {t \<in> set ts. st t = TASK_STATE_RUNNING}"
  "set (blkq (enqueue st ts q)) = set (blkq q) \<union> {t \<in> set ts. blocked (st t)}"
  "exq (q\<lparr>exq := []\<rparr>) = []"
  by (auto simp: queue_spec_defs)

lemma queued_wake: "queued (wake_blocked st q) \<subseteq> queued q"
  by (auto simp: wake_blocked_def queue_spec_defs queued_def)

lemma queued_pick:
  "queued (snd (pick st q)) \<union> set_option (fst (pick st q)) \<subseteq> queued q"
proof -
  have "set (stopped_prefix st (runq q)) \<union> set (runnable_suffix st (runq q)) = set (runq q)"
    by (simp add: stopped_prefix_def runnable_suffix_def flip: set_append)
  then show ?thesis
    by (cases "runnable_suffix st (runq q)")
      (auto simp: pick_def Let_def queued_def enqueue_def running_in_def blocked_in_def exiting_in_def)
qed

lemma userspace_trap_refines:
  assumes "queues_ok (links s) q B" "current s = Some cur" "cur \<notin> queued q"
    and "cur \<noteq> idle_task \<longrightarrow> schedulable (state_of s cur)" "\<forall>t\<in>queued q. schedulable (state_of s t)"
    and "\<forall>t\<in>insert idle_task (queued q) - {cur}. host_cpustate (tasks s t) \<noteq> 0" "cpu \<noteq> 0"
  defines "n \<equiv> next_of (fst (switch_spec (state_of s) cur q))"
    and "ts \<equiv> (tasks s)(cur := (tasks s cur)\<lparr>host_cpustate := cpu\<rparr>)"
  shows "\<exists>H. userspace_trap_handler s cpu = Some (host_cpustate (ts n), s\<lparr>tasks := ts, links := H, current := Some n\<rparr>) \<and>
    queues_ok H (snd (switch_spec (state_of s) cur q)) B"
proof -
  let ?s0 = "s\<lparr>tasks := ts\<rparr>" and ?st = "state_of s"
  have st: "task_state (ts t) = ?st t" for t by (auto simp: ts_def)
  have s0: "upd_task cur (host_cpustate_update (\<lambda>_. cpu)) s = ?s0" by (simp add: upd_task_def ts_def)
  define q1 where "q1 = (if cur = idle_task then q else enqueue ?st [cur] q)"
  have "\<exists>H. (if cur \<noteq> idle_task then schedule_task ?s0 cur else Some ?s0) = Some (?s0\<lparr>links := H\<rparr>) \<and> queues_ok H q1 B"
  proof (cases "cur = idle_task")
    case True
    then show ?thesis using assms(1) by (auto simp: q1_def intro: exI [of _ "links s"])
  next
    case False
    then show ?thesis
      using schedule_task_refines [of ?s0 q B cur] assms(1,3,4) False st by (simp add: q1_def)
  qed
  then obtain H1 where H1: "(if cur \<noteq> idle_task then schedule_task ?s0 cur else Some ?s0) = Some (?s0\<lparr>links := H1\<rparr>)"
    "queues_ok H1 q1 B" by blast
  have sub1: "queued q1 \<subseteq> insert cur (queued q)" "\<forall>t\<in>queued q1. schedulable (?st t)"
    using assms(4,5) by (auto simp: q1_def set_enqueue)
  obtain H2 where H2: "process_blocking_list (?s0\<lparr>links := H1\<rparr>) = Some (?s0\<lparr>links := H2\<rparr>)"
    "queues_ok H2 (wake_blocked ?st q1) B"
    using process_blocking_refines [of "?s0\<lparr>links := H1\<rparr>" q1 B] H1(2) sub1(2) st by (auto simp: queued_def)
  let ?q3 = "(wake_blocked ?st q1)\<lparr>exq := []\<rparr>"
  obtain H3 where H3: "process_exiting_list (?s0\<lparr>links := H2\<rparr>) = Some (?s0\<lparr>links := H3\<rparr>)" "queues_ok H3 ?q3 B"
    using process_exiting_refines [of "?s0\<lparr>links := H2\<rparr>" "wake_blocked ?st q1" B] H2(2) by auto
  have sub3: "queued ?q3 \<subseteq> queued q1" using queued_wake [of ?st q1] by (auto simp: queued_def)
  obtain H4 where H4: "process_running_list (?s0\<lparr>links := H3\<rparr>) = Some (fst (pick ?st ?q3), ?s0\<lparr>links := H4\<rparr>)"
    "queues_ok H4 (snd (pick ?st ?q3)) B"
    using process_running_refines [of "?s0\<lparr>links := H3\<rparr>" ?q3 B] H3(2) sub1(2) sub3 st by (force simp: queued_def)
  have spec: "switch_spec ?st cur q = pick ?st ?q3" by (simp add: switch_spec_def q1_def)
  have "n \<in> insert idle_task (queued q1)"
    using queued_pick [of ?st ?q3] sub3 by (auto simp: n_def spec next_of_def split: option.splits)
  then have "host_cpustate (ts n) \<noteq> 0" using assms(6,7) sub1(1) by (auto simp: ts_def)
  with H1(1) H2(1) H3(1) H4 assms(2) show ?thesis
    by (auto simp: userspace_trap_handler_def s0 spec n_def next_of_def ASSERT_def Let_def)
qed

lemma pick_not_queued:
  assumes "distinct (runq q @ blkq q @ exq q)" "fst (pick st q) = Some t"
  shows "t \<notin> queued (snd (pick st q))"
proof -
  obtain rest where rest: "runnable_suffix st (runq q) = t # rest"
    using assms(2) by (cases "runnable_suffix st (runq q)") (auto simp: pick_def Let_def)
  have split: "runq q = stopped_prefix st (runq q) @ t # rest"
    using runnable_suffix_Cons [OF rest] by simp
  have "t \<notin> set (stopped_prefix st (runq q))" "t \<notin> set rest" "t \<notin> set (blkq q)" "t \<notin> set (exq q)"
    using assms(1) by (subst (asm) split, auto)+
  then show ?thesis
    using rest by (auto simp: pick_def Let_def queued_def enqueue_def running_in_def blocked_in_def exiting_in_def)
qed

lemma userspace_trap_ok:
  assumes "sched_ok s q B" "current s = Some cur" "cpu \<noteq> 0"
  defines "n \<equiv> next_of (fst (switch_spec (state_of s) cur q))"
  shows "\<exists>s'. userspace_trap_handler s cpu = Some (host_cpustate (tasks s' n), s') \<and>
    current s' = Some n \<and> tasks s' = (tasks s)(cur := (tasks s cur)\<lparr>host_cpustate := cpu\<rparr>) \<and>
    sched_ok s' (snd (switch_spec (state_of s) cur q)) B"
proof -
  let ?q' = "snd (switch_spec (state_of s) cur q)"
  let ?ts = "(tasks s)(cur := (tasks s cur)\<lparr>host_cpustate := cpu\<rparr>)"
  have pre: "queues_ok (links s) q B" "cur \<notin> queued q" "cur \<noteq> idle_task \<longrightarrow> schedulable (state_of s cur)"
    "\<forall>t\<in>queued q. schedulable (state_of s t)" "idle_task \<notin> queued q"
    "\<forall>t\<in>insert idle_task (queued q) - {cur}. host_cpustate (tasks s t) \<noteq> 0"
    using assms(1,2) by (auto simp: sched_ok_def)
  then obtain H where H: "userspace_trap_handler s cpu = Some (host_cpustate (?ts n), s\<lparr>tasks := ?ts, links := H, current := Some n\<rparr>)"
    "queues_ok H ?q' B"
    using userspace_trap_refines [of s q B cur cpu] assms(2,3) by (auto simp: n_def)
  let ?s' = "s\<lparr>tasks := ?ts, links := H, current := Some n\<rparr>"
  define q3 where "q3 = (wake_blocked (state_of s) (if cur = idle_task then q else enqueue (state_of s) [cur] q))\<lparr>exq := []\<rparr>"
  have spec: "switch_spec (state_of s) cur q = pick (state_of s) q3" by (simp add: switch_spec_def q3_def)
  have q3: "queued q3 \<subseteq> (if cur = idle_task then {} else {cur}) \<union> queued q"
  proof -
    have "queued q3 \<subseteq> queued (if cur = idle_task then q else enqueue (state_of s) [cur] q)"
      using queued_wake by (fastforce simp: q3_def queued_def)
    then show ?thesis by (auto simp: set_enqueue split: if_splits)
  qed
  then have sub: "queued ?q' \<union> set_option (fst (switch_spec (state_of s) cur q)) \<subseteq> (if cur = idle_task then {} else {cur}) \<union> queued q"
    using queued_pick [of "state_of s" q3] unfolding spec by (rule order_trans [rotated])
  have dist: "distinct (runq q3 @ blkq q3 @ exq q3)"
    using queues_distinct [OF pre(1)] pre(2)
    by (auto simp: q3_def wake_blocked_def queue_spec_defs queued_def)
  have "n \<notin> queued ?q'"
  proof (cases "fst (switch_spec (state_of s) cur q)")
    case None
    then show ?thesis using sub pre(5) by (auto simp: n_def next_of_def split: if_splits)
  next
    case (Some t)
    then show ?thesis using pick_not_queued [OF dist] by (simp add: n_def next_of_def spec)
  qed
  moreover have "idle_task \<notin> queued ?q'" using sub pre(5) by (auto split: if_splits)
  moreover have "schedulable (state_of ?s' t)" "host_cpustate (tasks ?s' t) \<noteq> 0"
    if "t \<in> queued ?q' \<union> set_option (fst (switch_spec (state_of s) cur q))" for t
    using that sub pre(3,4,6) assms(3) by (cases "t = cur"; cases "cur = idle_task"; force)+
  moreover have "host_cpustate (tasks ?s' idle_task) \<noteq> 0"
    using pre(6) assms(3) by (cases "cur = idle_task") auto
  ultimately have "sched_ok ?s' ?q' B"
    using H(2) by (cases "fst (switch_spec (state_of s) cur q)") (auto simp: sched_ok_def n_def next_of_def)
  with H(1) show ?thesis by auto
qed

subsection \<open>Consequences of the abstract scheduler\<close>

lemma pick_running: "fst (pick st q) = Some t \<Longrightarrow> st t = TASK_STATE_RUNNING \<and> t \<in> set (runq q)"
  using runnable_suffix_Cons [of st "runq q"]
  by (cases "runnable_suffix st (runq q)") (auto simp: pick_def Let_def in_set_conv_decomp)

lemma pick_none: "fst (pick st q) = None \<Longrightarrow> t \<in> set (runq q) \<Longrightarrow> st t \<noteq> TASK_STATE_RUNNING"
  by (cases "runnable_suffix st (runq q)") (auto simp: pick_def Let_def runnable_suffix_def)

lemma switch_picks_running:
  fixes st :: "taskptr \<Rightarrow> task_state" and cur :: taskptr
  assumes "idle_task \<notin> set (runq q)" "idle_task \<notin> set (blkq q)"
  defines "n \<equiv> next_of (fst (switch_spec st cur q))"
  shows "n \<noteq> idle_task \<longrightarrow> st n = TASK_STATE_RUNNING"
    and "n = idle_task \<longrightarrow> (\<forall>t\<in>set (runq q) \<union> set (blkq q) \<union> ({cur} - {idle_task}). st t \<noteq> TASK_STATE_RUNNING)"
proof -
  define q3 where "q3 = (wake_blocked st (if cur = idle_task then q else enqueue st [cur] q))\<lparr>exq := []\<rparr>"
  have run: "set (runq q3) = set (runq q) \<union> {t \<in> set (blkq q) \<union> ({cur} - {idle_task}). st t = TASK_STATE_RUNNING}"
    by (auto simp: q3_def wake_blocked_def queue_spec_defs)
  have n: "n = next_of (fst (pick st q3))" by (simp add: n_def switch_spec_def q3_def)
  have idle: "idle_task \<notin> set (runq q3)" using run assms(1,2) by auto
  show "n \<noteq> idle_task \<longrightarrow> st n = TASK_STATE_RUNNING"
    using pick_running [of st q3] by (cases "fst (pick st q3)") (simp_all add: n next_of_def)
  have "fst (pick st q3) = None" if "n = idle_task"
    using that pick_running [of st q3 idle_task] idle by (cases "fst (pick st q3)") (simp_all add: n next_of_def)
  then show "n = idle_task \<longrightarrow> (\<forall>t\<in>set (runq q) \<union> set (blkq q) \<union> ({cur} - {idle_task}). st t \<noteq> TASK_STATE_RUNNING)"
    using pick_none [of st q3] run by blast
qed

lemma switch_keeps_live:
  assumes "t \<in> set (runq q) \<union> set (blkq q) \<union> ({cur} - {idle_task})" "schedulable (st t)" "st t \<noteq> TASK_STATE_EXITING"
  shows "t \<in> queued (snd (switch_spec st cur q)) \<union> set_option (fst (switch_spec st cur q))"
proof -
  define q3 where "q3 = (wake_blocked st (if cur = idle_task then q else enqueue st [cur] q))\<lparr>exq := []\<rparr>"
  have spec: "switch_spec st cur q = pick st q3" by (simp add: switch_spec_def q3_def)
  have in3: "t \<in> set (runq q3) \<union> set (blkq q3)"
    using assms by (cases "st t") (auto simp: q3_def wake_blocked_def queue_spec_defs schedulable_def)
  have "set (stopped_prefix st (runq q3)) \<union> set (runnable_suffix st (runq q3)) = set (runq q3)"
    by (simp add: stopped_prefix_def runnable_suffix_def flip: set_append)
  then show ?thesis
    using in3 assms(2,3) stopped_prefix_D [of t st "runq q3"] unfolding spec
    by (cases "runnable_suffix st (runq q3)")
      (auto simp: pick_def Let_def queued_def enqueue_def running_in_def blocked_in_def exiting_in_def schedulable_def)
qed

text \<open>A runnable task in the run queue is chosen, or strictly advances.\<close>

lemma switch_advances:
  assumes "runq q = xs @ t # ys" "st t = TASK_STATE_RUNNING"
  shows "fst (switch_spec st cur q) = Some t \<or>
    (\<exists>xs' ys'. runq (snd (switch_spec st cur q)) = xs' @ t # ys' \<and> length xs' < length xs)"
proof -
  define q3 where "q3 = (wake_blocked st (if cur = idle_task then q else enqueue st [cur] q))\<lparr>exq := []\<rparr>"
  have spec: "switch_spec st cur q = pick st q3" by (simp add: switch_spec_def q3_def)
  obtain zs where zs: "runq q3 = xs @ t # zs"
    using assms by (cases "cur = idle_task") (auto simp: q3_def wake_blocked_def queue_spec_defs)
  have suf: "runnable_suffix st (runq q3) = runnable_suffix st xs @ t # zs"
    using assms(2) by (simp add: zs runnable_suffix_append)
  have "length (runnable_suffix st xs) \<le> length xs" by (simp add: runnable_suffix_def length_dropWhile_le)
  then show ?thesis
    using suf by (cases "runnable_suffix st xs") (auto simp: spec pick_def Let_def)
qed

lemma switch_keeps_runnable:
  assumes "t \<in> set (runq q) \<union> set (blkq q) \<union> ({cur} - {idle_task})" "st t = TASK_STATE_RUNNING"
  shows "t \<in> set (runq (snd (switch_spec st cur q))) \<union> set_option (fst (switch_spec st cur q))"
proof -
  define q3 where "q3 = (wake_blocked st (if cur = idle_task then q else enqueue st [cur] q))\<lparr>exq := []\<rparr>"
  have spec: "switch_spec st cur q = pick st q3" by (simp add: switch_spec_def q3_def)
  have "t \<in> set (runq q3)" using assms by (auto simp: q3_def wake_blocked_def queue_spec_defs)
  then obtain xs zs where zs: "runq q3 = xs @ t # zs" by (auto simp: in_set_conv_decomp)
  have "runnable_suffix st (runq q3) = runnable_suffix st xs @ t # zs"
    using assms(2) by (simp add: zs runnable_suffix_append)
  then show ?thesis by (cases "runnable_suffix st xs") (auto simp: spec pick_def Let_def)
qed

lemma switch_drops_exiting:
  assumes "st cur = TASK_STATE_EXITING" "cur \<notin> queued q"
  shows "cur \<notin> queued (snd (switch_spec st cur q)) \<and> fst (switch_spec st cur q) \<noteq> Some cur"
proof -
  define q3 where "q3 = (wake_blocked st (if cur = idle_task then q else enqueue st [cur] q))\<lparr>exq := []\<rparr>"
  have "cur \<notin> queued q3" using assms by (auto simp: q3_def wake_blocked_def queue_spec_defs queued_def)
  moreover have "switch_spec st cur q = pick st q3" by (simp add: switch_spec_def q3_def)
  ultimately show ?thesis using queued_pick [of st q3] by auto
qed

text \<open>The tasks that a series of switches chooses, one for each saved frame of the list.\<close>

primrec chosen_tasks :: "'z sched_scheme \<Rightarrow> u64 list \<Rightarrow> taskptr list option" where
  "chosen_tasks s [] = Some []"
| "chosen_tasks s (cpu # cpus) =
     Option.bind (userspace_trap_handler s cpu) (\<lambda>(_, s').
     Option.bind (current s') (\<lambda>t. map_option ((#) t) (chosen_tasks s' cpus)))"

lemma chosen_tasks_total:
  "sched_ok s q B \<Longrightarrow> 0 \<notin> set cpus \<Longrightarrow> \<exists>ts. chosen_tasks s cpus = Some ts"
proof (induction cpus arbitrary: s q)
  case (Cons cpu cpus)
  obtain cur where "current s = Some cur" using Cons.prems(1) by (auto simp: sched_ok_def)
  then obtain s' where s': "userspace_trap_handler s cpu = Some (host_cpustate (tasks s' (next_of (fst (switch_spec (state_of s) cur q)))), s')"
    "current s' = Some (next_of (fst (switch_spec (state_of s) cur q)))" "sched_ok s' (snd (switch_spec (state_of s) cur q)) B"
    using userspace_trap_ok [OF Cons.prems(1)] Cons.prems(2) by (metis list.set_intros(1))
  with Cons.IH [OF s'(3)] Cons.prems(2) show ?case by auto
qed simp

lemma runnable_is_chosen:
  assumes "sched_ok s q B" "runq q = xs @ t # ys" "state_of s t = TASK_STATE_RUNNING"
    and "length xs < length cpus" "0 \<notin> set cpus"
  shows "\<exists>ts. chosen_tasks s cpus = Some ts \<and> t \<in> set ts"
  using assms
proof (induction cpus arbitrary: s q xs ys)
  case (Cons cpu cpus)
  obtain cur where cur: "current s = Some cur" using Cons.prems(1) by (auto simp: sched_ok_def)
  let ?sw = "switch_spec (state_of s) cur q"
  have "cpu \<noteq> 0" using Cons.prems(5) by auto
  then obtain s' where s': "userspace_trap_handler s cpu = Some (host_cpustate (tasks s' (next_of (fst ?sw))), s')"
    "current s' = Some (next_of (fst ?sw))" "sched_ok s' (snd ?sw) B"
    "tasks s' = (tasks s)(cur := (tasks s cur)\<lparr>host_cpustate := cpu\<rparr>)"
    using userspace_trap_ok [OF Cons.prems(1) cur] by blast
  from switch_advances [of q xs t ys "state_of s" cur, OF Cons.prems(2,3)] show ?case
  proof (elim disjE exE conjE)
    assume "fst ?sw = Some t"
    with s' chosen_tasks_total [OF s'(3), of cpus] Cons.prems(5) show ?thesis by (auto simp: next_of_def)
  next
    fix xs' ys' assume "runq (snd ?sw) = xs' @ t # ys'" "length xs' < length xs"
    moreover have "state_of s' t = TASK_STATE_RUNNING" using s'(4) Cons.prems(3) by auto
    ultimately show ?thesis using Cons.IH [OF s'(3)] Cons.prems(4,5) s'(1,2) by fastforce
  qed
qed simp

end
