(* ===== verification/Wait_Queue.thy ===== *)
theory Wait_Queue
  imports Task_Sched
begin

text \<open>
  Wait queues and wake-ups: \<open>sandbox/wait_queue.c\<close>, with \<open>raw_task_wake_up\<close>, \<open>do_exit\<close> and the task
  list of \<open>sandbox/task.c\<close>. The queue head \<open>wq_state_notification\<close> of a hart is the node
  \<open>Wq_pivot\<close>; entry \<open>n\<close> is linked in by its node \<open>Wait_list n\<close> and names its task by \<open>waiter\<close>.
\<close>

subsection \<open>Operations\<close>

definition initialize_wait_queue_head :: "'z sched_scheme \<Rightarrow> taskptr \<Rightarrow> 'z sched_scheme" where
  "initialize_wait_queue_head s t = s\<lparr>links := list_init (links s) (Wq_pivot t)\<rparr>"

definition initialize_wait_queue_entry :: "'z sched_scheme \<Rightarrow> nat \<Rightarrow> taskptr \<Rightarrow> 'z sched_scheme" where
  "initialize_wait_queue_entry s n t =
     s\<lparr>links := list_init (links s) (Wait_list n), waiter := (waiter s)(n := Some t)\<rparr>"

definition add_wait_queue_entry :: "'z sched_scheme \<Rightarrow> taskptr \<Rightarrow> nat \<Rightarrow> 'z sched_scheme option" where
  "add_wait_queue_entry s t n =
     Option.bind (element_in_list (links s) (Wq_pivot t) (Wait_list n)) (\<lambda>found.
       if \<not> found then append_to (Wq_pivot t) (Wait_list n) s else Some s)"

definition remove_wait_queue_entry :: "'z sched_scheme \<Rightarrow> taskptr \<Rightarrow> nat \<Rightarrow> 'z sched_scheme option" where
  "remove_wait_queue_entry s t n =
     Option.bind (element_in_list (links s) (Wq_pivot t) (Wait_list n)) (\<lambda>found.
       if found then delete_from (Wq_pivot t) (Wait_list n) s else Some s)"

definition raw_task_wake_up :: "'z sched_scheme \<Rightarrow> taskptr \<Rightarrow> 'z sched_scheme option" where
  "raw_task_wake_up s t =
     (case state_of s t of
        TASK_STATE_RUNNING \<Rightarrow> Some s
      | TASK_STATE_INTERRUPTIBLE \<Rightarrow> transit_state s t TASK_STATE_RUNNING
      | TASK_STATE_UNINTERRUPTIBLE \<Rightarrow>
          ASSERT (non_stop_state (tasks s t) = TASK_STATE_RUNNING \<or> non_stop_state (tasks s t) = TASK_STATE_INTERRUPTIBLE)
            (Some (upd_task t (non_stop_state_update (\<lambda>_. TASK_STATE_RUNNING)) s))
      | _ \<Rightarrow> None)"

partial_function (option) wake_up_loop :: "sched_node option \<Rightarrow> 'z sched_scheme \<Rightarrow> 'z sched_scheme option" where
  "wake_up_loop cur s =
     (case cur of None \<Rightarrow> Some s
      | Some e \<Rightarrow>
          (case e of Wait_list n \<Rightarrow>
             let nxt = list_next (links s) e in
             (case waiter s n of None \<Rightarrow> None
              | Some t \<Rightarrow> Option.bind (raw_task_wake_up s t) (wake_up_loop nxt))
           | _ \<Rightarrow> None))"

declare wake_up_loop.simps [code]

definition wake_up :: "'z sched_scheme \<Rightarrow> taskptr \<Rightarrow> 'z sched_scheme option" where
  "wake_up s t = wake_up_loop (list_next (links s) (Wq_pivot t)) s"

text \<open>The state in which \<open>do_exit\<close> yields; the task is not resumed afterwards.\<close>

definition do_exit :: "'z sched_scheme \<Rightarrow> taskptr \<Rightarrow> 'z sched_scheme option" where
  "do_exit s t =
     Option.bind (wake_up (upd_task t (wait_state_exited_update (\<lambda>_. True)) s) t) (\<lambda>s1.
       transit_state s1 t TASK_STATE_EXITING)"

definition register_task :: "'z sched_scheme \<Rightarrow> vmptr \<Rightarrow> 'z sched_scheme option" where
  "register_task s v = append_to global_task_list_head (Vm_list_node v) s"

definition unregister_task :: "'z sched_scheme \<Rightarrow> vmptr \<Rightarrow> 'z sched_scheme option" where
  "unregister_task s v =
     Option.bind (element_in_list (links s) global_task_list_head (Vm_list_node v)) (\<lambda>found.
       if found then delete_from global_task_list_head (Vm_list_node v) s else Some s)"

definition task_pre_init :: "'z sched_scheme \<Rightarrow> 'z sched_scheme" where
  "task_pre_init s = s\<lparr>links := list_init (links s) global_task_list_head\<rparr>"

subsection \<open>Adding and removing entries\<close>

lemma add_wait_queue_entry_ok:
  assumes "lists_ok sched_heads (links s) L" "\<forall>m\<in>sched_heads. m \<noteq> Wq_pivot t \<longrightarrow> Wait_list n \<notin> set (L m)"
  shows "\<exists>H. add_wait_queue_entry s t n = Some (s\<lparr>links := H\<rparr>) \<and>
    lists_ok sched_heads H (L(Wq_pivot t := if Wait_list n \<in> set (L (Wq_pivot t)) then L (Wq_pivot t)
      else L (Wq_pivot t) @ [Wait_list n]))"
  using klist.member_append [OF assms(1), of "Wq_pivot t" "Wait_list n"] assms(2)
  by (auto simp: add_wait_queue_entry_def append_to_def split: if_splits intro: exI [of _ "links s"])

lemma remove_wait_queue_entry_ok:
  assumes "lists_ok sched_heads (links s) L"
  shows "\<exists>H. remove_wait_queue_entry s t n = Some (s\<lparr>links := H\<rparr>) \<and>
    lists_ok sched_heads H (L(Wq_pivot t := remove1 (Wait_list n) (L (Wq_pivot t))))"
  using klist.member_delete [OF assms, of "Wq_pivot t" "Wait_list n"]
  by (auto simp: remove_wait_queue_entry_def delete_from_def split: if_splits intro: exI [of _ "links s"])

lemma register_task_ok:
  assumes "lists_ok sched_heads (links s) L" "\<forall>m\<in>sched_heads. Vm_list_node v \<notin> set (L m)"
  shows "\<exists>H. register_task s v = Some (s\<lparr>links := H\<rparr>) \<and>
    lists_ok sched_heads H (L(global_task_list_head := L global_task_list_head @ [Vm_list_node v]))"
  using klist.append_law [OF assms(1), of global_task_list_head "Vm_list_node v"] assms(2)
  by (auto simp: register_task_def append_to_def)

lemma unregister_task_ok:
  assumes "lists_ok sched_heads (links s) L"
  shows "\<exists>H. unregister_task s v = Some (s\<lparr>links := H\<rparr>) \<and>
    lists_ok sched_heads H (L(global_task_list_head := remove1 (Vm_list_node v) (L global_task_list_head)))"
  using klist.member_delete [OF assms, of global_task_list_head "Vm_list_node v"]
  by (auto simp: unregister_task_def delete_from_def split: if_splits intro: exI [of _ "links s"])

subsection \<open>What a wake-up does to a task\<close>

definition woken :: "task \<Rightarrow> task" where
  "woken tk = (case task_state tk of
      TASK_STATE_INTERRUPTIBLE \<Rightarrow> tk\<lparr>task_state := TASK_STATE_RUNNING\<rparr>
    | TASK_STATE_UNINTERRUPTIBLE \<Rightarrow> tk\<lparr>non_stop_state := TASK_STATE_RUNNING\<rparr>
    | _ \<Rightarrow> tk)"

definition wakeable :: "task \<Rightarrow> bool" where
  "wakeable tk \<longleftrightarrow> task_state tk = TASK_STATE_RUNNING \<or> task_state tk = TASK_STATE_INTERRUPTIBLE \<or>
     task_state tk = TASK_STATE_UNINTERRUPTIBLE \<and>
       (non_stop_state tk = TASK_STATE_RUNNING \<or> non_stop_state tk = TASK_STATE_INTERRUPTIBLE)"

definition wake_all :: "taskptr set \<Rightarrow> (taskptr \<Rightarrow> task) \<Rightarrow> taskptr \<Rightarrow> task" where
  "wake_all W ts = (\<lambda>u. if u \<in> W then woken (ts u) else ts u)"

lemma woken_woken [simp]: "woken (woken tk) = woken tk"
  by (simp add: woken_def split: task_state.split)

lemma wakeable_woken [simp]: "wakeable tk \<Longrightarrow> wakeable (woken tk)"
  by (auto simp: woken_def wakeable_def split: task_state.split)

lemma raw_task_wake_up_ok:
  "wakeable (tasks s t) \<Longrightarrow> raw_task_wake_up s t = Some (s\<lparr>tasks := wake_all {t} (tasks s)\<rparr>)"
  by (auto simp: raw_task_wake_up_def wakeable_def woken_def wake_all_def transit_state_def upd_task_def
      ASSERT_def fun_eq_iff split: task_state.split)

lemma wake_all_insert: "wake_all W (wake_all {t} ts) = wake_all (insert t W) ts"
  by (auto simp: wake_all_def)

lemma wake_up_loop_ok:
  assumes "lists_ok sched_heads (links s) L" "L (Wq_pivot t) = map Wait_list (ys @ zs)"
    and "\<forall>n\<in>set zs. waiter s n = Some (w n) \<and> wakeable (tasks s (w n))"
  shows "wake_up_loop (head_of (map Wait_list zs) None) s = Some (s\<lparr>tasks := wake_all (w ` set zs) (tasks s)\<rparr>)"
  using assms
proof (induction zs arbitrary: ys s)
  case Nil
  then show ?case by (subst wake_up_loop.simps) (simp add: wake_all_def)
next
  case (Cons n zs)
  let ?s = "s\<lparr>tasks := wake_all {w n} (tasks s)\<rparr>"
  have nxt: "list_next (links s) (Wait_list n) = head_of (map Wait_list zs) None"
    using klist.next_law [OF Cons.prems(1), of "Wq_pivot t" "map Wait_list ys" "Wait_list n" "map Wait_list zs"]
      Cons.prems(2) by simp
  have "wake_up_loop (head_of (map Wait_list zs) None) ?s = Some (?s\<lparr>tasks := wake_all (w ` set zs) (tasks ?s)\<rparr>)"
    using Cons.IH [of ?s "ys @ [n]"] Cons.prems by (simp add: wake_all_def)
  with nxt Cons.prems(3) raw_task_wake_up_ok [of s "w n"] show ?case
    by (subst wake_up_loop.simps) (simp add: wake_all_insert)
qed

lemma wake_up_ok:
  assumes "lists_ok sched_heads (links s) L" "L (Wq_pivot t) = map Wait_list ns"
    and "\<forall>n\<in>set ns. waiter s n = Some (w n) \<and> wakeable (tasks s (w n))"
  shows "wake_up s t = Some (s\<lparr>tasks := wake_all (w ` set ns) (tasks s)\<rparr>)"
  using wake_up_loop_ok [of s L t "[]" ns w] assms klist.first_law [OF assms(1), of "Wq_pivot t"]
  by (simp add: wake_up_def)

subsection \<open>The exit of a task\<close>

lemma do_exit_ok:
  assumes "sched_ok s q B" "current s = Some t" "t \<noteq> idle_task" "state_of s t = TASK_STATE_RUNNING"
    and "B (Wq_pivot t) = map Wait_list ns"
    and "\<forall>n\<in>set ns. waiter s n = Some (w n) \<and> wakeable (tasks s (w n))"
  shows "\<exists>s'. do_exit s t = Some s' \<and> sched_ok s' q B \<and> current s' = current s \<and>
    wait_state_exited (tasks s' t) \<and> state_of s' t = TASK_STATE_EXITING \<and>
    (\<forall>u. u \<noteq> t \<longrightarrow> tasks s' u = (if u \<in> w ` set ns then woken (tasks s u) else tasks s u))"
proof -
  let ?s1 = "upd_task t (wait_state_exited_update (\<lambda>_. True)) s"
  let ?ts = "wake_all (w ` set ns) (tasks ?s1)"
  have lists: "lists_ok sched_heads (links ?s1) (sched_lists q B)" "sched_lists q B (Wq_pivot t) = map Wait_list ns"
    using assms(1,5) by (auto simp: sched_ok_def queues_ok_def upd_task_def sched_lists_def)
  have "\<forall>n\<in>set ns. waiter ?s1 n = Some (w n) \<and> wakeable (tasks ?s1 (w n))"
    using assms(6) by (auto simp: upd_task_def wakeable_def)
  then have wake: "wake_up ?s1 t = Some (?s1\<lparr>tasks := ?ts\<rparr>)" using wake_up_ok [OF lists] by blast
  have t: "?ts t = (tasks s t)\<lparr>wait_state_exited := True\<rparr>"
    using assms(4) by (simp add: wake_all_def upd_task_def woken_def)
  define s' where "s' = upd_task t (task_state_update (\<lambda>_. TASK_STATE_EXITING)) (?s1\<lparr>tasks := ?ts\<rparr>)"
  have run: "do_exit s t = Some s'"
    using wake t assms(4) by (simp add: do_exit_def transit_state_def s'_def)
  have ts': "tasks s' u = (if u = t then (tasks s t)\<lparr>wait_state_exited := True, task_state := TASK_STATE_EXITING\<rparr>
      else if u \<in> w ` set ns then woken (tasks s u) else tasks s u)" for u
    using t by (auto simp: s'_def upd_task_def wake_all_def)
  have same: "links s' = links s" "current s' = current s" by (simp_all add: s'_def upd_task_def)
  have keep: "host_cpustate (woken tk) = host_cpustate tk" "schedulable (task_state tk) \<Longrightarrow> schedulable (task_state (woken tk))" for tk
    by (auto simp: woken_def schedulable_def split: task_state.split)
  have "schedulable TASK_STATE_EXITING" by (simp add: schedulable_def)
  then have "sched_ok s' q B"
    using assms(1-3) same by (auto simp: sched_ok_def ts' keep)
  with run same ts' show ?thesis by auto
qed

lemma exit_then_switch:
  assumes "sched_ok s q B" "current s = Some t" "t \<noteq> idle_task" "state_of s t = TASK_STATE_RUNNING"
    and "B (Wq_pivot t) = map Wait_list ns"
    and "\<forall>n\<in>set ns. waiter s n = Some (w n) \<and> wakeable (tasks s (w n))" "cpu \<noteq> 0"
  shows "\<exists>s1 s2 q2 stack n. do_exit s t = Some s1 \<and> userspace_trap_handler s1 cpu = Some (stack, s2) \<and>
    sched_ok s2 q2 B \<and> current s2 = Some n \<and> n \<noteq> t \<and> t \<notin> queued q2 \<and>
    (\<forall>p\<in>w ` set ns \<inter> set (blkq q). state_of s p = TASK_STATE_INTERRUPTIBLE \<longrightarrow>
       state_of s2 p = TASK_STATE_RUNNING \<and> (n = p \<or> p \<in> set (runq q2)))"
proof -
  obtain s1 where s1: "do_exit s t = Some s1" "sched_ok s1 q B" "current s1 = Some t"
    "state_of s1 t = TASK_STATE_EXITING"
    "\<And>u. u \<noteq> t \<Longrightarrow> tasks s1 u = (if u \<in> w ` set ns then woken (tasks s u) else tasks s u)"
    using do_exit_ok [OF assms(1-6)] assms(2) by auto
  let ?sw = "switch_spec (state_of s1) t q"
  obtain s2 where s2: "userspace_trap_handler s1 cpu = Some (host_cpustate (tasks s2 (next_of (fst ?sw))), s2)"
    "current s2 = Some (next_of (fst ?sw))" "tasks s2 = (tasks s1)(t := (tasks s1 t)\<lparr>host_cpustate := cpu\<rparr>)"
    "sched_ok s2 (snd ?sw) B"
    using userspace_trap_ok [OF s1(2,3) assms(7)] by blast
  have tq: "t \<notin> queued q" using assms(1,2) by (auto simp: sched_ok_def)
  have drop: "t \<notin> queued (snd ?sw)" "next_of (fst ?sw) \<noteq> t"
    using switch_drops_exiting [of "state_of s1" t q, OF s1(4) tq] assms(3) by (auto simp: next_of_def split: option.splits)
  have woke: "state_of s2 p = TASK_STATE_RUNNING \<and> (next_of (fst ?sw) = p \<or> p \<in> set (runq (snd ?sw)))"
    if p: "p \<in> w ` set ns" "p \<in> set (blkq q)" "state_of s p = TASK_STATE_INTERRUPTIBLE" for p
  proof -
    have "p \<noteq> t" using p(2) tq by (auto simp: queued_def)
    then have "state_of s1 p = TASK_STATE_RUNNING" using s1(5) [of p] p(1,3) by (simp add: woken_def)
    then show ?thesis
      using switch_keeps_runnable [of p q t "state_of s1"] p(2) s2(3) \<open>p \<noteq> t\<close>
      by (auto simp: next_of_def split: option.splits)
  qed
  from s1(1) s2 drop woke show ?thesis by blast
qed

end
