(* ===== verification/Task_Wait.thy ===== *)
theory Task_Wait
  imports Wait_Queue Mmu
begin

text \<open>
  Waiting for children: \<open>call_wait4\<close> of \<open>sandbox/task.c\<close>. The wait blobs that the call allocates
  are numbered; blob \<open>n\<close> has the nodes \<open>Wait_list n\<close> and \<open>Wait_blob_node n\<close>. The allocator is a
  parameter that picks the number of a blob from those in use. What the other tasks do
  while the caller is blocked is a parameter too.
\<close>

record world = sched +
  world_machine :: machine
  blob_vm :: "(nat \<times> vmptr) list"

type_synonym blob_alloc = "nat list \<Rightarrow> nat"

definition WNOHANG_MASK :: u32 where "WNOHANG_MASK = 1"
definition WUNTRACED_MASK :: u32 where "WUNTRACED_MASK = 2"

abbreviation vm_of :: "'z world_scheme \<Rightarrow> vmptr \<Rightarrow> virtual_machine option" where
  "vm_of w v \<equiv> vms (world_machine w) v"

text \<open>Which children the call waits for; the comparisons mix signed and unsigned numbers as in C.\<close>

definition is_child :: "virtual_machine \<Rightarrow> virtual_machine \<Rightarrow> bool" where
  "is_child vm child \<longleftrightarrow> \<not> (vm_pid vm \<noteq> vm_ppid child \<or> vm_pid vm = vm_pid child)"

definition is_to_wait :: "virtual_machine \<Rightarrow> u32 \<Rightarrow> virtual_machine \<Rightarrow> bool" where
  "is_to_wait vm pid_hint child =
     (if pid_hint = -1 then vm_pid vm = vm_ppid child
      else if sint pid_hint < -1 then vm_tgid child = - pid_hint
      else if pid_hint = 0 then vm_tgid child = vm_pid vm
      else vm_pid child = pid_hint)"

definition queue_wait_blob :: "blob_alloc \<Rightarrow> 'z world_scheme \<Rightarrow> vmptr \<Rightarrow> vmptr \<Rightarrow> 'z world_scheme option" where
  "queue_wait_blob alloc w v child =
     (let n = alloc (map fst (blob_vm w));
          w1 = initialize_wait_queue_entry
                 (w\<lparr>blob_vm := (n, child) # blob_vm w,
                    links := (links w)(Wait_blob_node n := \<lparr>le_prev = None, le_next = None\<rparr>)\<rparr>) n (Task v)
      in Option.bind (append_to (Wait_blob_head (Task v)) (Wait_blob_node n) w1) (\<lambda>w2.
           add_wait_queue_entry w2 (Task child) n))"

partial_function (option) wait4_scan ::
  "blob_alloc \<Rightarrow> vmptr \<Rightarrow> virtual_machine \<Rightarrow> u32 \<Rightarrow> u32 \<Rightarrow> sched_node option \<Rightarrow> u32 \<Rightarrow> 'z world_scheme
     \<Rightarrow> (u32 \<times> vmptr option \<times> 'z world_scheme) option" where
  "wait4_scan alloc v vm pid_hint options cur ret w =
     (case cur of None \<Rightarrow> Some (ret, None, w)
      | Some e \<Rightarrow>
          (case e of Vm_list_node c \<Rightarrow>
             let nxt = list_next (links w) e in
             (case vm_of w c of None \<Rightarrow> None
              | Some child \<Rightarrow>
                  if \<not> is_child vm child \<or> \<not> is_to_wait vm pid_hint child
                  then wait4_scan alloc v vm pid_hint options nxt ret w
                  else if wait_state_exited (tasks w (Task c)) then Some (vm_pid child, Some c, w)
                  else if options AND WNOHANG_MASK = 0
                  then Option.bind (queue_wait_blob alloc w v c) (wait4_scan alloc v vm pid_hint options nxt 0)
                  else wait4_scan alloc v vm pid_hint options nxt 0 w)
           | _ \<Rightarrow> None))"

definition wait_state_changed :: "u32 \<Rightarrow> task \<Rightarrow> bool" where
  "wait_state_changed options tk \<longleftrightarrow> wait_state_exited tk \<or>
     (options AND WUNTRACED_MASK \<noteq> 0 \<and> (wait_state_continued tk \<or> wait_state_stopped tk))"

partial_function (option) wait4_reap ::
  "vmptr \<Rightarrow> u32 \<Rightarrow> u32 \<Rightarrow> vmptr option \<Rightarrow> 'z world_scheme \<Rightarrow> (u32 \<times> vmptr option \<times> 'z world_scheme) option" where
  "wait4_reap v options ret target w =
     Option.bind (fetch_from (Wait_blob_head (Task v)) w) (\<lambda>(e, w1).
       case e of None \<Rightarrow> Some (ret, target, w1)
       | Some b \<Rightarrow>
           (case b of Wait_blob_node n \<Rightarrow>
              (case map_of (blob_vm w1) n of None \<Rightarrow> None
               | Some c \<Rightarrow>
                   (case vm_of w1 c of None \<Rightarrow> None
                    | Some child \<Rightarrow>
                        let found = sint ret \<le> 0 \<and> wait_state_changed options (tasks w1 (Task c));
                            ret' = (if found then vm_pid child else ret);
                            target' = (if found then Some c else target)
                        in Option.bind (remove_wait_queue_entry w1 (Task c) n) (\<lambda>w2.
                             wait4_reap v options ret' target'
                               (w2\<lparr>blob_vm := filter (\<lambda>p. fst p \<noteq> n) (blob_vm w2)\<rparr>))))
            | _ \<Rightarrow> None))"

declare wait4_scan.simps [code] wait4_reap.simps [code]

definition wait4_finish :: "vmptr \<Rightarrow> u32 \<Rightarrow> u32 \<Rightarrow> vmptr option \<Rightarrow> 'z world_scheme \<Rightarrow> (u32 \<times> 'z world_scheme) option" where
  "wait4_finish v options ret target w =
     Option.bind (wait4_reap v options ret target w) (\<lambda>(ret, target, w1).
       if 0 < sint ret
       then (case target of None \<Rightarrow> None
             | Some c \<Rightarrow> map_option (\<lambda>w2. (ret, w2)) (unregister_task w1 c))
       else Some (ret, w1))"

definition call_wait4 ::
  "blob_alloc \<Rightarrow> ('z world_scheme \<Rightarrow> 'z world_scheme option) \<Rightarrow> 'z world_scheme \<Rightarrow> vmptr \<Rightarrow> u32 \<Rightarrow> u32
     \<Rightarrow> (u32 \<times> 'z world_scheme) option" where
  "call_wait4 alloc yield_cpu w v pid_hint options =
     (case vm_of w v of None \<Rightarrow> None
      | Some vm \<Rightarrow>
          let w0 = w\<lparr>links := list_init (links w) (Wait_blob_head (Task v))\<rparr> in
          Option.bind (wait4_scan alloc v vm pid_hint options (list_next (links w0) global_task_list_head) (-1) w0)
            (\<lambda>(ret, target, w1).
              if \<not> list_empty (links w1) (Wait_blob_head (Task v))
              then Option.bind (transit_state w1 (Task v) TASK_STATE_INTERRUPTIBLE) (\<lambda>w2.
                   Option.bind (yield_cpu w2) (wait4_finish v options ret target))
              else wait4_finish v options ret target w1))"

subsection \<open>Fresh nodes\<close>

lemma detached_eq: "detached H e \<longleftrightarrow> H e = \<lparr>le_prev = None, le_next = None\<rparr>"
  by (cases "H e") (auto simp: detached_def)

lemma init_detached: "detached H e \<Longrightarrow> list_init H e = H"
  by (auto simp: list_init_def link_updates detached_eq)

lemma lists_ok_free_detached:
  "lists_ok heads H L \<Longrightarrow> e \<notin> heads \<Longrightarrow> \<forall>m\<in>heads. e \<notin> set (L m) \<Longrightarrow> detached H e"
  by (simp add: lists_ok_def)

lemma init_empty_list: "lists_ok heads H L \<Longrightarrow> l \<in> heads \<Longrightarrow> L l = [] \<Longrightarrow> list_init H l = H"
  using lists_ok_dlist [of heads H L l] by (intro init_detached) (simp add: dlist_def detached_def)

text \<open>Every wait node that is linked anywhere belongs to a blob that is in use.\<close>

definition blobs_ok :: "(nat \<times> vmptr) list \<Rightarrow> (sched_node \<Rightarrow> sched_node list) \<Rightarrow> bool" where
  "blobs_ok bs L \<longleftrightarrow> (\<forall>m\<in>sched_heads. \<forall>n. Wait_list n \<in> set (L m) \<or> Wait_blob_node n \<in> set (L m) \<longrightarrow> n \<in> fst ` set bs)"

definition alloc_fresh :: "blob_alloc \<Rightarrow> bool" where
  "alloc_fresh alloc \<longleftrightarrow> (\<forall>xs. alloc xs \<notin> set xs)"

definition with_blob :: "vmptr \<Rightarrow> nat \<Rightarrow> vmptr \<Rightarrow> (sched_node \<Rightarrow> sched_node list) \<Rightarrow> sched_node \<Rightarrow> sched_node list" where
  "with_blob v n c L = L(Wait_blob_head (Task v) := L (Wait_blob_head (Task v)) @ [Wait_blob_node n],
     Wq_pivot (Task c) := L (Wq_pivot (Task c)) @ [Wait_list n])"

lemma queue_wait_blob_ok:
  assumes "lists_ok sched_heads (links w) L" "blobs_ok (blob_vm w) L" "alloc_fresh alloc"
  defines "n \<equiv> alloc (map fst (blob_vm w))"
  shows "\<exists>H. queue_wait_blob alloc w v c = Some (w\<lparr>links := H, blob_vm := (n, c) # blob_vm w, waiter := (waiter w)(n := Some (Task v))\<rparr>) \<and>
    lists_ok sched_heads H (with_blob v n c L) \<and> blobs_ok ((n, c) # blob_vm w) (with_blob v n c L)"
proof -
  have new: "n \<notin> fst ` set (blob_vm w)"
    using assms(3) unfolding n_def alloc_fresh_def by (metis set_map)
  have free: "\<forall>m\<in>sched_heads. Wait_list n \<notin> set (L m)" "\<forall>m\<in>sched_heads. Wait_blob_node n \<notin> set (L m)"
    using assms(2) new by (auto simp: blobs_ok_def)
  have det: "detached (links w) (Wait_list n)" "detached (links w) (Wait_blob_node n)"
    using lists_ok_free_detached [OF assms(1)] free by auto
  let ?w1 = "w\<lparr>blob_vm := (n, c) # blob_vm w, waiter := (waiter w)(n := Some (Task v))\<rparr>"
  have init: "initialize_wait_queue_entry (w\<lparr>blob_vm := (n, c) # blob_vm w,
      links := (links w)(Wait_blob_node n := \<lparr>le_prev = None, le_next = None\<rparr>)\<rparr>) n (Task v) = ?w1"
    using det by (simp add: initialize_wait_queue_entry_def detached_eq init_detached fun_upd_idem)
  let ?L1 = "L(Wait_blob_head (Task v) := L (Wait_blob_head (Task v)) @ [Wait_blob_node n])"
  obtain H1 where H1: "list_append (links w) (Wait_blob_head (Task v)) (Wait_blob_node n) = Some H1"
    "lists_ok sched_heads H1 ?L1"
    using klist.append_law [OF assms(1), of "Wait_blob_head (Task v)" "Wait_blob_node n"] free(2) by auto
  have nm: "Wait_list n \<notin> set (L (Wq_pivot (Task c)))" using free(1) by auto
  have "\<forall>m\<in>sched_heads. Wait_list n \<notin> set (?L1 m)" using free(1) by auto
  then obtain H2 where H2: "add_wait_queue_entry (?w1\<lparr>links := H1\<rparr>) (Task c) n = Some (?w1\<lparr>links := H1\<rparr>\<lparr>links := H2\<rparr>)"
    "lists_ok sched_heads H2 (with_blob v n c L)"
    using add_wait_queue_entry_ok [of "?w1\<lparr>links := H1\<rparr>" ?L1 "Task c" n] H1(2) nm
    by (auto simp: with_blob_def)
  have "blobs_ok ((n, c) # blob_vm w) (with_blob v n c L)"
    using assms(2) by (auto simp: blobs_ok_def with_blob_def)
  moreover have "queue_wait_blob alloc w v c = Some (?w1\<lparr>links := H2\<rparr>)"
    using init H1(1) H2(1) by (simp add: queue_wait_blob_def append_to_def flip: n_def)
  ultimately show ?thesis using H2(2) by (auto intro!: exI [of _ H2])
qed

subsection \<open>The scan of the task list\<close>

definition waitable :: "'z world_scheme \<Rightarrow> vmptr \<Rightarrow> u32 \<Rightarrow> vmptr \<Rightarrow> bool" where
  "waitable w v pid_hint c = (case (vm_of w v, vm_of w c) of
     (Some vm, Some child) \<Rightarrow> is_child vm child \<and> is_to_wait vm pid_hint child | _ \<Rightarrow> False)"

definition exited :: "'z world_scheme \<Rightarrow> vmptr \<Rightarrow> bool" where
  "exited w c = wait_state_exited (tasks w (Task c))"

definition pid_of :: "'z world_scheme \<Rightarrow> vmptr \<Rightarrow> u32" where
  "pid_of w c = (case vm_of w c of Some child \<Rightarrow> vm_pid child | None \<Rightarrow> 0)"

text \<open>The children that are passed over before the first one that has exited, and that one.\<close>

definition alive_before :: "'z world_scheme \<Rightarrow> vmptr list \<Rightarrow> vmptr list" where
  "alive_before w cs = takeWhile (\<lambda>c. \<not> exited w c) cs"

definition scan_result :: "'z world_scheme \<Rightarrow> u32 \<Rightarrow> vmptr list \<Rightarrow> u32 \<times> vmptr option" where
  "scan_result w ret cs = (case dropWhile (\<lambda>c. \<not> exited w c) cs of
     [] \<Rightarrow> (if cs = [] then ret else 0, None) | c # _ \<Rightarrow> (pid_of w c, Some c))"

lemma scan_result_simps [simp]:
  "scan_result w ret [] = (ret, None)"
  "scan_result w ret (c # cs) = (if exited w c then (pid_of w c, Some c) else scan_result w 0 cs)"
  by (auto simp: scan_result_def split: list.splits)

lemma wait4_scan_step:
  assumes "vm_of w v = Some vm" "vm_of w c = Some child"
    and "list_next (links w) (Vm_list_node c) = nxt"
  shows "wait4_scan alloc v vm pid_hint options (Some (Vm_list_node c)) ret w =
    (if \<not> waitable w v pid_hint c then wait4_scan alloc v vm pid_hint options nxt ret w
     else if exited w c then Some (pid_of w c, Some c, w)
     else if options AND WNOHANG_MASK = 0
     then Option.bind (queue_wait_blob alloc w v c) (wait4_scan alloc v vm pid_hint options nxt 0)
     else wait4_scan alloc v vm pid_hint options nxt 0 w)"
  by (subst wait4_scan.simps) (simp add: assms waitable_def exited_def pid_of_def)

lemma global_next:
  assumes "lists_ok sched_heads (links w) L" "L global_task_list_head = map Vm_list_node (ys @ c # zs)"
  shows "list_next (links w) (Vm_list_node c) = head_of (map Vm_list_node zs) None"
  using klist.next_law [OF assms(1), of global_task_list_head "map Vm_list_node ys" "Vm_list_node c" "map Vm_list_node zs"]
    assms(2) by simp

lemma wait4_scan_nohang:
  assumes "lists_ok sched_heads (links w) L" "L global_task_list_head = map Vm_list_node (ys @ zs)"
    and "vm_of w v = Some vm" "\<forall>c\<in>set zs. vm_of w c \<noteq> None" "options AND WNOHANG_MASK \<noteq> 0"
  shows "wait4_scan alloc v vm pid_hint options (head_of (map Vm_list_node zs) None) ret w =
    (let (r, target) = scan_result w ret (filter (waitable w v pid_hint) zs) in Some (r, target, w))"
  using assms
proof (induction zs arbitrary: ys ret)
  case Nil
  then show ?case by (subst wait4_scan.simps) simp
next
  case (Cons c zs)
  obtain child where "vm_of w c = Some child" using Cons.prems(4) by auto
  note step = wait4_scan_step [OF Cons.prems(3) this global_next [OF Cons.prems(1,2)]]
  have "L global_task_list_head = map Vm_list_node ((ys @ [c]) @ zs)" using Cons.prems(2) by simp
  with Cons.IH [of "ys @ [c]"] Cons.prems(1,3-5) show ?case by (simp add: step)
qed

subsection \<open>Queueing behind the children that are alive\<close>

definition with_blobs :: "vmptr \<Rightarrow> (nat \<times> vmptr) list \<Rightarrow> (sched_node \<Rightarrow> sched_node list) \<Rightarrow> sched_node \<Rightarrow> sched_node list" where
  "with_blobs v bs L = fold (\<lambda>(n, c). with_blob v n c) bs L"

abbreviation queue_blobs :: "vmptr \<Rightarrow> sched_node links \<Rightarrow> (nat \<times> vmptr) list \<Rightarrow> 'z world_scheme \<Rightarrow> 'z world_scheme" where
  "queue_blobs v H bs w \<equiv> w\<lparr>links := H, blob_vm := rev bs @ blob_vm w,
     waiter := (\<lambda>n. if n \<in> fst ` set bs then Some (Task v) else waiter w n)\<rparr>"

lemma queue_keeps [simp]:
  "waitable (w\<lparr>links := H, blob_vm := b, waiter := f\<rparr>) = waitable w"
  "exited (w\<lparr>links := H, blob_vm := b, waiter := f\<rparr>) = exited w"
  "pid_of (w\<lparr>links := H, blob_vm := b, waiter := f\<rparr>) = pid_of w"
  by (simp_all add: fun_eq_iff waitable_def exited_def pid_of_def)

lemma queue_keeps_scan [simp]:
  "scan_result (w\<lparr>links := H, blob_vm := b, waiter := f\<rparr>) ret cs = scan_result w ret cs"
  "alive_before (w\<lparr>links := H, blob_vm := b, waiter := f\<rparr>) cs = alive_before w cs"
  by (induction cs arbitrary: ret) (simp_all add: alive_before_def)

lemma with_blobs_simps [simp]:
  "with_blobs v [] L = L" "with_blobs v ((n, c) # bs) L = with_blobs v bs (with_blob v n c L)"
  by (simp_all add: with_blobs_def)

lemma with_blob_other [simp]: "with_blob v n c L global_task_list_head = L global_task_list_head"
  by (simp add: with_blob_def)

lemma wait4_scan_queues:
  assumes "lists_ok sched_heads (links w) L" "L global_task_list_head = map Vm_list_node (ys @ zs)"
    and "vm_of w v = Some vm" "\<forall>c\<in>set zs. vm_of w c \<noteq> None" "options AND WNOHANG_MASK = 0"
    and "blobs_ok (blob_vm w) L" "alloc_fresh alloc"
  shows "\<exists>bs H. wait4_scan alloc v vm pid_hint options (head_of (map Vm_list_node zs) None) ret w =
      (let (r, target) = scan_result w ret (filter (waitable w v pid_hint) zs) in Some (r, target, queue_blobs v H bs w)) \<and>
    map snd bs = alive_before w (filter (waitable w v pid_hint) zs) \<and> distinct (map fst bs) \<and>
    fst ` set bs \<inter> fst ` set (blob_vm w) = {} \<and> lists_ok sched_heads H (with_blobs v bs L) \<and>
    blobs_ok (rev bs @ blob_vm w) (with_blobs v bs L)"
  using assms
proof (induction zs arbitrary: ys ret w L)
  case Nil
  then show ?case
    by (subst wait4_scan.simps) (auto simp: alive_before_def intro!: exI [of _ "[]"] exI [of _ "links w"])
next
  case (Cons c zs)
  obtain child where "vm_of w c = Some child" using Cons.prems(4) by auto
  note step = wait4_scan_step [OF Cons.prems(3) this global_next [OF Cons.prems(1,2)]]
  have glob: "L global_task_list_head = map Vm_list_node ((ys @ [c]) @ zs)" using Cons.prems(2) by simp
  consider "\<not> waitable w v pid_hint c" | "waitable w v pid_hint c" "exited w c"
    | "waitable w v pid_hint c" "\<not> exited w c" by blast
  then show ?case
  proof cases
    case 1
    then show ?thesis using Cons.IH [OF Cons.prems(1) glob] Cons.prems(3-7) by (simp add: step)
  next
    case 2
    then show ?thesis
      using Cons.prems by (auto simp: step alive_before_def intro!: exI [of _ "[]"] exI [of _ "links w"])
  next
    case 3
    define n where "n = alloc (map fst (blob_vm w))"
    have new: "n \<notin> fst ` set (blob_vm w)"
      using Cons.prems(7) unfolding n_def alloc_fresh_def by (metis set_map)
    let ?w = "\<lambda>H. w\<lparr>links := H, blob_vm := (n, c) # blob_vm w, waiter := (waiter w)(n := Some (Task v))\<rparr>"
    obtain H1 where H1: "queue_wait_blob alloc w v c = Some (?w H1)"
      "lists_ok sched_heads H1 (with_blob v n c L)" "blobs_ok ((n, c) # blob_vm w) (with_blob v n c L)"
      using queue_wait_blob_ok [OF Cons.prems(1,6,7)] unfolding n_def by blast
    obtain bs H where bs: "wait4_scan alloc v vm pid_hint options (head_of (map Vm_list_node zs) None) 0 (?w H1) =
        (let (r, target) = scan_result w 0 (filter (waitable w v pid_hint) zs) in Some (r, target, queue_blobs v H bs (?w H1)))"
      "map snd bs = alive_before w (filter (waitable w v pid_hint) zs)" "distinct (map fst bs)"
      "fst ` set bs \<inter> fst ` set ((n, c) # blob_vm w) = {}" "lists_ok sched_heads H (with_blobs v bs (with_blob v n c L))"
      "blobs_ok (rev bs @ (n, c) # blob_vm w) (with_blobs v bs (with_blob v n c L))"
      using Cons.IH [of "?w H1" "with_blob v n c L" "ys @ [c]" 0] H1(2,3) glob Cons.prems(3-7) by auto
    have same: "queue_blobs v H bs (?w H1) = queue_blobs v H ((n, c) # bs) w" by (auto simp: fun_eq_iff)
    have "wait4_scan alloc v vm pid_hint options (head_of (map Vm_list_node (c # zs)) None) ret w =
      (let (r, target) = scan_result w ret (filter (waitable w v pid_hint) (c # zs)) in Some (r, target, queue_blobs v H ((n, c) # bs) w))"
      using 3 Cons.prems(5) H1(1) bs(1) unfolding same by (simp add: step)
    with bs(2-6) new 3 show ?thesis
      by (intro exI [of _ "(n, c) # bs"] exI [of _ H]) (auto simp: alive_before_def)
  qed
qed

lemma with_blobs_at:
  "with_blobs v bs L (Wait_blob_head (Task v)) = L (Wait_blob_head (Task v)) @ map (\<lambda>b. Wait_blob_node (fst b)) bs"
  "with_blobs v bs L (Wq_pivot (Task c)) = L (Wq_pivot (Task c)) @ map (\<lambda>b. Wait_list (fst b)) (filter (\<lambda>b. snd b = c) bs)"
  "m \<noteq> Wait_blob_head (Task v) \<Longrightarrow> \<forall>c. m \<noteq> Wq_pivot (Task c) \<Longrightarrow> with_blobs v bs L m = L m"
  by (induction bs arbitrary: L) (auto simp: with_blob_def)

subsection \<open>Reaping\<close>

text \<open>The first of the children whose state has changed, for a caller that found none before.\<close>

definition reap_result :: "u32 \<Rightarrow> 'z world_scheme \<Rightarrow> u32 \<Rightarrow> vmptr option \<Rightarrow> vmptr list \<Rightarrow> u32 \<times> vmptr option" where
  "reap_result options w ret target cs =
     (if 0 < sint ret then (ret, target)
      else case filter (\<lambda>c. wait_state_changed options (tasks w (Task c))) cs of
        [] \<Rightarrow> (ret, target) | c # _ \<Rightarrow> (pid_of w c, Some c))"

definition unqueued :: "vmptr \<Rightarrow> nat set \<Rightarrow> (sched_node \<Rightarrow> sched_node list) \<Rightarrow> sched_node \<Rightarrow> sched_node list" where
  "unqueued v N L = (\<lambda>m. if m = Wait_blob_head (Task v) then [] else filter (\<lambda>e. e \<notin> Wait_list ` N) (L m))"

text \<open>Only the values at the heads of lists matter.\<close>

lemma lists_ok_ext: "lists_ok heads H L \<Longrightarrow> (\<And>m. m \<in> heads \<Longrightarrow> L' m = L m) \<Longrightarrow> lists_ok heads H L'"
  unfolding lists_ok_def by (metis (no_types, lifting))

lemma map_of_filter_fst: "map_of (filter (\<lambda>p. fst p \<noteq> n) xs) k = (if k = n then None else map_of xs k)"
  by (induction xs) auto

lemma reap_keeps:
  "reap_result options (w\<lparr>links := H, blob_vm := b\<rparr>) ret target cs = reap_result options w ret target cs"
  by (simp add: reap_result_def pid_of_def split: list.split)

lemma unqueued_step:
  assumes "lists_ok sched_heads H L" "Wait_list n \<in> set (L (Wq_pivot t))" "m \<in> sched_heads"
  shows "filter (\<lambda>e. e \<notin> Wait_list ` insert n N) (L m) =
    filter (\<lambda>e. e \<notin> Wait_list ` N) (if m = Wq_pivot t then remove1 (Wait_list n) (L m) else L m)"
proof (cases "m = Wq_pivot t")
  case True
  have "distinct (L m)" using klist.node_law [OF assms(1,3)] by simp
  then have "remove1 (Wait_list n) (L m) = filter (\<lambda>e. e \<noteq> Wait_list n) (L m)"
    by (simp add: distinct_remove1_removeAll removeAll_filter_not_eq eq_commute [of "Wait_list n"])
  with True show ?thesis by (auto intro: filter_cong)
next
  case False
  then have "set (L (Wq_pivot t)) \<inter> set (L m) = {}"
    using klist.disjoint_law [OF assms(1) _ assms(3), of "Wq_pivot t"] by simp
  with assms(2) False show ?thesis by (auto intro: filter_cong)
qed

lemma wait4_reap_ok:
  assumes "lists_ok sched_heads (links w) L" "L (Wait_blob_head (Task v)) = map (\<lambda>b. Wait_blob_node (fst b)) bs"
    and "\<forall>(n, c)\<in>set bs. map_of (blob_vm w) n = Some c \<and> vm_of w c \<noteq> None \<and> 0 < sint (pid_of w c) \<and>
      Wait_list n \<in> set (L (Wq_pivot (Task c)))" "distinct (map fst bs)"
  shows "\<exists>H. wait4_reap v options ret target w =
      (let (r, t) = reap_result options w ret target (map snd bs) in
       Some (r, t, w\<lparr>links := H, blob_vm := filter (\<lambda>p. fst p \<notin> fst ` set bs) (blob_vm w)\<rparr>)) \<and>
    lists_ok sched_heads H (unqueued v (fst ` set bs) L)"
  using assms
proof (induction bs arbitrary: w L ret target)
  case Nil
  obtain H where H: "list_fetch (links w) (Wait_blob_head (Task v)) = Some (None, H)"
    "lists_ok sched_heads H (L(Wait_blob_head (Task v) := []))"
    using klist.fetch_law [OF Nil.prems(1), of "Wait_blob_head (Task v)"] Nil.prems(2) by auto
  moreover have "L(Wait_blob_head (Task v) := []) = unqueued v {} L" by (auto simp: unqueued_def)
  ultimately show ?case
    by (subst wait4_reap.simps) (auto simp: fetch_from_def reap_result_def intro!: exI [of _ H])
next
  case (Cons b bs)
  obtain n c where b: "b = (n, c)" by (cases b)
  have c: "map_of (blob_vm w) n = Some c" "vm_of w c \<noteq> None" "0 < sint (pid_of w c)" "Wait_list n \<in> set (L (Wq_pivot (Task c)))"
    using Cons.prems(3) b by auto
  obtain child where child: "vm_of w c = Some child" using c(2) by auto
  let ?L1 = "L(Wait_blob_head (Task v) := map (\<lambda>b. Wait_blob_node (fst b)) bs)"
  obtain H1 where H1: "list_fetch (links w) (Wait_blob_head (Task v)) = Some (Some (Wait_blob_node n), H1)"
    "lists_ok sched_heads H1 ?L1"
    using klist.fetch_law [OF Cons.prems(1), of "Wait_blob_head (Task v)"] Cons.prems(2) b by auto
  let ?L2 = "?L1(Wq_pivot (Task c) := remove1 (Wait_list n) (L (Wq_pivot (Task c))))"
  obtain H2 where H2: "remove_wait_queue_entry (w\<lparr>links := H1\<rparr>) (Task c) n = Some (w\<lparr>links := H2\<rparr>)"
    "lists_ok sched_heads H2 ?L2"
    using remove_wait_queue_entry_ok [of "w\<lparr>links := H1\<rparr>" ?L1 "Task c" n] H1(2) by auto
  let ?w = "w\<lparr>links := H2, blob_vm := filter (\<lambda>p. fst p \<noteq> n) (blob_vm w)\<rparr>"
  let ?found = "sint ret \<le> 0 \<and> wait_state_changed options (tasks w (Task c))"
  let ?r = "if ?found then vm_pid child else ret" and ?t = "if ?found then Some c else target"
  have run: "wait4_reap v options ret target w = wait4_reap v options ?r ?t ?w"
    using H1(1) H2(1) c(1) child by (subst wait4_reap.simps) (simp add: fetch_from_def Let_def)
  have nb: "n \<notin> fst ` set bs" using Cons.prems(4) b by auto
  have rest: "\<forall>(k, d)\<in>set bs. map_of (blob_vm ?w) k = Some d \<and> vm_of ?w d \<noteq> None \<and> 0 < sint (pid_of ?w d) \<and>
      Wait_list k \<in> set (?L2 (Wq_pivot (Task d)))"
  proof (clarify)
    fix k d assume kd: "(k, d) \<in> set bs"
    then have "k \<noteq> n" using nb by (metis fst_conv image_eqI)
    moreover have "map_of (blob_vm w) k = Some d" "vm_of w d \<noteq> None" "0 < sint (pid_of w d)"
      "Wait_list k \<in> set (L (Wq_pivot (Task d)))" using Cons.prems(3) kd by auto
    ultimately show "map_of (blob_vm ?w) k = Some d \<and> vm_of ?w d \<noteq> None \<and> 0 < sint (pid_of ?w d) \<and>
        Wait_list k \<in> set (?L2 (Wq_pivot (Task d)))"
      by (auto simp: map_of_filter_fst pid_of_def)
  qed
  have p1: "lists_ok sched_heads (links ?w) ?L2" using H2(2) by simp
  have p2: "?L2 (Wait_blob_head (Task v)) = map (\<lambda>b. Wait_blob_node (fst b)) bs" by simp
  have p4: "distinct (map fst bs)" using Cons.prems(4) by simp
  obtain H where H: "wait4_reap v options ?r ?t ?w =
      (let (r, t) = reap_result options w ?r ?t (map snd bs) in
       Some (r, t, ?w\<lparr>links := H, blob_vm := filter (\<lambda>p. fst p \<notin> fst ` set bs) (blob_vm ?w)\<rparr>))"
    "lists_ok sched_heads H (unqueued v (fst ` set bs) ?L2)"
    using Cons.IH [OF p1 p2 rest p4, of ?r ?t] unfolding reap_keeps by blast
  have "unqueued v (fst ` set (b # bs)) L m = unqueued v (fst ` set bs) ?L2 m" if "m \<in> sched_heads" for m
    using unqueued_step [OF Cons.prems(1) c(4) that] b by (simp add: unqueued_def)
  then have "lists_ok sched_heads H (unqueued v (fst ` set (b # bs)) L)" using lists_ok_ext [OF H(2)] by blast
  moreover have "reap_result options w ret target (map snd (b # bs)) = reap_result options w ?r ?t (map snd bs)"
    using c(3) child b by (auto simp: reap_result_def pid_of_def)
  moreover have "filter (\<lambda>p. fst p \<notin> fst ` set bs) (blob_vm ?w) = filter (\<lambda>p. fst p \<notin> fst ` set (b # bs)) (blob_vm w)"
    using b by (auto intro: filter_cong)
  ultimately show ?case using H(1) by (auto simp: run)
qed

subsection \<open>The whole call\<close>

definition released :: "u32 \<Rightarrow> vmptr option \<Rightarrow> sched_node list \<Rightarrow> sched_node list" where
  "released ret target xs = (if 0 < sint ret then (case target of None \<Rightarrow> xs | Some c \<Rightarrow> remove1 (Vm_list_node c) xs) else xs)"

lemma wait4_finish_ok:
  assumes "lists_ok sched_heads (links w) L" "L (Wait_blob_head (Task v)) = map (\<lambda>b. Wait_blob_node (fst b)) bs"
    and "\<forall>(n, c)\<in>set bs. map_of (blob_vm w) n = Some c \<and> vm_of w c \<noteq> None \<and> 0 < sint (pid_of w c) \<and>
      Wait_list n \<in> set (L (Wq_pivot (Task c)))" "distinct (map fst bs)"
    and "0 < sint ret \<longrightarrow> target \<noteq> None" "reap_result options w ret target (map snd bs) = (r, t)"
  defines "L' \<equiv> unqueued v (fst ` set bs) L"
  shows "\<exists>H. wait4_finish v options ret target w =
      Some (r, w\<lparr>links := H, blob_vm := filter (\<lambda>p. fst p \<notin> fst ` set bs) (blob_vm w)\<rparr>) \<and>
    lists_ok sched_heads H (L'(global_task_list_head := released r t (L' global_task_list_head)))"
proof -
  obtain H1 where H1: "wait4_reap v options ret target w =
      Some (r, t, w\<lparr>links := H1, blob_vm := filter (\<lambda>p. fst p \<notin> fst ` set bs) (blob_vm w)\<rparr>)"
    "lists_ok sched_heads H1 L'"
    using wait4_reap_ok [OF assms(1-4), of options ret target] assms(6) by (auto simp: L'_def)
  let ?w = "w\<lparr>links := H1, blob_vm := filter (\<lambda>p. fst p \<notin> fst ` set bs) (blob_vm w)\<rparr>"
  show ?thesis
  proof (cases "0 < sint r")
    case False
    with H1 show ?thesis by (auto simp: wait4_finish_def released_def intro!: exI [of _ H1])
  next
    case True
    then obtain c where c: "t = Some c"
      using assms(5,6) by (auto simp: reap_result_def split: if_splits list.splits)
    obtain H where "unregister_task ?w c = Some (?w\<lparr>links := H\<rparr>)"
      "lists_ok sched_heads H (L'(global_task_list_head := remove1 (Vm_list_node c) (L' global_task_list_head)))"
      using unregister_task_ok [of ?w L' c] H1(2) by auto
    with H1(1) True c show ?thesis by (auto simp: wait4_finish_def released_def intro!: exI [of _ H])
  qed
qed

lemma scan_result_target: "scan_result w ret cs = (r, t) \<Longrightarrow> 0 < sint r \<Longrightarrow> sint ret \<le> 0 \<Longrightarrow> t \<noteq> None"
  by (induction cs arbitrary: ret) (auto split: if_splits)

lemma call_wait4_starts:
  assumes "lists_ok sched_heads (links w) L" "L (Wait_blob_head (Task v)) = []" "L global_task_list_head = map Vm_list_node cs"
    and "vm_of w v = Some vm"
  shows "call_wait4 alloc yield_cpu w v pid_hint options =
    Option.bind (wait4_scan alloc v vm pid_hint options (head_of (map Vm_list_node cs) None) (-1) w)
      (\<lambda>(ret, target, w1).
        if \<not> list_empty (links w1) (Wait_blob_head (Task v))
        then Option.bind (transit_state w1 (Task v) TASK_STATE_INTERRUPTIBLE) (\<lambda>w2.
             Option.bind (yield_cpu w2) (wait4_finish v options ret target))
        else wait4_finish v options ret target w1)"
proof -
  have "list_init (links w) (Wait_blob_head (Task v)) = links w" using init_empty_list [OF assms(1)] assms(2) by simp
  moreover have "list_next (links w) global_task_list_head = head_of (map Vm_list_node cs) None"
    using klist.first_law [OF assms(1), of global_task_list_head] assms(3) by simp
  ultimately show ?thesis using assms(4) by (simp add: call_wait4_def)
qed

lemma blob_head_empty:
  "lists_ok sched_heads H L \<Longrightarrow> list_empty H (Wait_blob_head t) \<longleftrightarrow> L (Wait_blob_head t) = []"
  using lists_ok_dlist [of sched_heads H L "Wait_blob_head t"]
  by (cases "L (Wait_blob_head t)") (auto simp: list_empty_def dlist_def)

lemma call_wait4_nohang:
  assumes "lists_ok sched_heads (links w) L" "L (Wait_blob_head (Task v)) = []" "L global_task_list_head = map Vm_list_node cs"
    and "vm_of w v = Some vm" "\<forall>c\<in>set cs. vm_of w c \<noteq> None" "options AND WNOHANG_MASK \<noteq> 0"
    and "scan_result w (-1) (filter (waitable w v pid_hint) cs) = (r, t)"
  shows "\<exists>w'. call_wait4 alloc yield_cpu w v pid_hint options = Some (r, w') \<and>
    lists_ok sched_heads (links w') (L(global_task_list_head := released r t (map Vm_list_node cs))) \<and>
    tasks w' = tasks w \<and> world_machine w' = world_machine w"
proof -
  have scan: "wait4_scan alloc v vm pid_hint options (head_of (map Vm_list_node cs) None) (-1) w = Some (r, t, w)"
    using wait4_scan_nohang [OF assms(1) _ assms(4,5,6), of "[]"] assms(3,7) by simp
  have "reap_result options w r t [] = (r, t)" by (simp add: reap_result_def)
  moreover have "0 < sint r \<longrightarrow> t \<noteq> None" using scan_result_target [OF assms(7)] by simp
  ultimately obtain H where H: "wait4_finish v options r t w = Some (r, w\<lparr>links := H, blob_vm := filter (\<lambda>p. True) (blob_vm w)\<rparr>)"
    "lists_ok sched_heads H ((unqueued v {} L)(global_task_list_head := released r t (unqueued v {} L global_task_list_head)))"
    using wait4_finish_ok [OF assms(1), of v "[]" r t options] assms(2) by auto
  have "unqueued v {} L = L" using assms(2) by (auto simp: unqueued_def)
  with H scan assms(2,3) blob_head_empty [OF assms(1)] call_wait4_starts [OF assms(1-4)] show ?thesis by auto
qed

lemma call_wait4_blocks:
  assumes "lists_ok sched_heads (links w) L" "L (Wait_blob_head (Task v)) = []" "L global_task_list_head = map Vm_list_node cs"
    and "vm_of w v = Some vm" "\<forall>c\<in>set cs. vm_of w c \<noteq> None" "options AND WNOHANG_MASK = 0"
    and "blobs_ok (blob_vm w) L" "alloc_fresh alloc" "state_of w (Task v) = TASK_STATE_RUNNING"
    and "scan_result w (-1) (filter (waitable w v pid_hint) cs) = (r, t)"
  defines "alive \<equiv> alive_before w (filter (waitable w v pid_hint) cs)"
  assumes "alive \<noteq> []"
  shows "\<exists>bs H. map snd bs = alive \<and> distinct (map fst bs) \<and>
    call_wait4 alloc yield_cpu w v pid_hint options =
      Option.bind (yield_cpu (upd_task (Task v) (task_state_update (\<lambda>_. TASK_STATE_INTERRUPTIBLE)) (queue_blobs v H bs w)))
        (wait4_finish v options r t) \<and>
    lists_ok sched_heads H (with_blobs v bs L) \<and> fst ` set bs \<inter> fst ` set (blob_vm w) = {}"
proof -
  obtain bs H where bs: "wait4_scan alloc v vm pid_hint options (head_of (map Vm_list_node cs) None) (-1) w = Some (r, t, queue_blobs v H bs w)"
    "map snd bs = alive" "distinct (map fst bs)" "lists_ok sched_heads H (with_blobs v bs L)"
    "fst ` set bs \<inter> fst ` set (blob_vm w) = {}"
    using wait4_scan_queues [OF assms(1) _ assms(4-8), where ys = "[]" and pid_hint = pid_hint and ret = "-1"] assms(3,10) by (auto simp: alive_def)
  have "bs \<noteq> []" using bs(2) assms(12) by auto
  then have "\<not> list_empty H (Wait_blob_head (Task v))"
    using blob_head_empty [OF bs(4), of "Task v"] by (simp add: with_blobs_at)
  moreover have "transit_state (queue_blobs v H bs w) (Task v) TASK_STATE_INTERRUPTIBLE =
      Some (upd_task (Task v) (task_state_update (\<lambda>_. TASK_STATE_INTERRUPTIBLE)) (queue_blobs v H bs w))"
    using assms(9) by (simp add: transit_state_def)
  ultimately show ?thesis
    using bs call_wait4_starts [OF assms(1-4)] by (intro exI [of _ bs] exI [of _ H]) simp
qed

lemma unqueued_with_blobs:
  assumes "L (Wait_blob_head (Task v)) = []" "blobs_ok bs0 L" "fst ` set bs \<inter> fst ` set bs0 = {}" "m \<in> sched_heads"
  shows "unqueued v (fst ` set bs) (with_blobs v bs L) m = L m"
proof -
  have old: "filter (\<lambda>e. e \<notin> Wait_list ` fst ` set bs) (L m) = L m"
    using assms(2-4) by (auto simp: blobs_ok_def intro!: filter_True)
  have new: "filter (\<lambda>e. e \<notin> Wait_list ` fst ` set bs) (map (\<lambda>b. Wait_list (fst b)) (filter (\<lambda>b. snd b = c) bs)) = []" for c
    by (auto simp: filter_empty_conv)
  show ?thesis
  proof (cases "m = Wait_blob_head (Task v)")
    case True
    with assms(1) show ?thesis by (simp add: unqueued_def)
  next
    case False
    then show ?thesis
      using old new with_blobs_at(2) [of v bs L] with_blobs_at(3) [of m v bs L]
      by (cases "\<exists>c. m = Wq_pivot (Task c)") (auto simp: unqueued_def)
  qed
qed

end
