(* ===== verification/Example_Tasks.thy ===== *)
theory Example_Tasks
  imports Task_Wait
begin

text \<open>
  Concrete tasks on which the properties of the scheduler and of \<open>wait4\<close> are instantiated. In
  \<open>demo_world\<close> process 1 runs, process 2 is runnable and process 3 has exited; both are children
  of process 1. In \<open>demo_exit\<close> process 2 runs and process 1 waits for it. Nothing here models
  code.
\<close>

definition null_links :: "sched_node list_elem" where
  "null_links = \<lparr>le_prev = None, le_next = None\<rparr>"

definition only_link :: "sched_node \<Rightarrow> sched_node list_elem" where
  "only_link e = \<lparr>le_prev = Some e, le_next = Some e\<rparr>"

definition demo_links :: "sched_node links" where
  "demo_links = (\<lambda>_. null_links)(running_tasks := only_link (Hart_list (Task 2)),
     global_task_list_head := \<lparr>le_prev = Some (Vm_list_node 3), le_next = Some (Vm_list_node 2)\<rparr>,
     Vm_list_node 2 := \<lparr>le_prev = None, le_next = Some (Vm_list_node 3)\<rparr>,
     Vm_list_node 3 := \<lparr>le_prev = Some (Vm_list_node 2), le_next = None\<rparr>)"

definition demo_lists :: "sched_node \<Rightarrow> sched_node list" where
  "demo_lists = (\<lambda>_. [])(global_task_list_head := [Vm_list_node 2, Vm_list_node 3])"

definition demo_queues :: queues where
  "demo_queues = \<lparr>runq = [Task 2], blkq = [], exq = []\<rparr>"

definition demo_task :: "task_state \<Rightarrow> bool \<Rightarrow> task" where
  "demo_task st ex = \<lparr>task_state = st, non_stop_state = TASK_STATE_RUNNING, host_cpustate = 0x1000,
     vmm_stack_ptr = 0x2000, wait_state_exited = ex, wait_state_stopped = False, wait_state_continued = False\<rparr>"

definition demo_proc :: "u32 \<Rightarrow> u32 \<Rightarrow> virtual_machine" where
  "demo_proc p pp = \<lparr>nr_pmr_ops = 0, pmr_ops = replicate 128 empty_pmr, vma_heap = None,
     vma_stack = None, vm_pid = p, vm_ppid = pp, vm_tgid = p, parent_vm = None, cloned_vm = False,
     cloned_files = False, cloned_fs = False, ref_count = 0\<rparr>"

definition demo_world :: world where
  "demo_world = \<lparr>links = demo_links,
     tasks = (\<lambda>_. demo_task TASK_STATE_RUNNING False)(Task 3 := demo_task TASK_STATE_EXITING True),
     waiter = (\<lambda>_. None), current = Some (Task 1), cpustates = Map.empty,
     world_machine = \<lparr>vms = [1 \<mapsto> demo_proc 1 1, 2 \<mapsto> demo_proc 2 1, 3 \<mapsto> demo_proc 3 1], hmem = Map.empty,
       reservations = [], next_pointer = 0, breakpoints = [], nr_breakpoints = 0\<rparr>,
     blob_vm = []\<rparr>"

definition demo_exit_links :: "sched_node links" where
  "demo_exit_links = (\<lambda>_. null_links)(blocking_tasks := only_link (Hart_list (Task 1)),
     Wq_pivot (Task 2) := only_link (Wait_list 0))"

definition demo_exit_lists :: "sched_node \<Rightarrow> sched_node list" where
  "demo_exit_lists = (\<lambda>_. [])(Wq_pivot (Task 2) := [Wait_list 0])"

definition demo_exit_queues :: queues where
  "demo_exit_queues = \<lparr>runq = [], blkq = [Task 1], exq = []\<rparr>"

definition demo_exit :: world where
  "demo_exit = demo_world\<lparr>links := demo_exit_links, current := Some (Task 2), waiter := [0 \<mapsto> Task 1],
     tasks := (\<lambda>_. demo_task TASK_STATE_RUNNING False)(Task 1 := demo_task TASK_STATE_INTERRUPTIBLE False)\<rparr>"

definition demo_alloc :: blob_alloc where
  "demo_alloc xs = Suc (sum_list xs)"

lemma demo_alloc_fresh: "alloc_fresh demo_alloc"
  using member_le_sum_list by (fastforce simp: alloc_fresh_def demo_alloc_def)

lemmas demo_link_defs = demo_links_def demo_exit_links_def null_links_def only_link_def

lemma demo_queues_ok: "queues_ok demo_links demo_queues demo_lists"
  by (auto simp: queues_ok_def lists_ok_def sched_lists_def demo_queues_def demo_lists_def dlist_def
      detached_def demo_link_defs)

lemma demo_exit_queues_ok: "queues_ok demo_exit_links demo_exit_queues demo_exit_lists"
  by (auto simp: queues_ok_def lists_ok_def sched_lists_def demo_exit_queues_def demo_exit_lists_def dlist_def
      detached_def demo_link_defs)

lemma demo_sched_ok: "sched_ok demo_world demo_queues demo_lists"
  using demo_queues_ok
  by (auto simp: sched_ok_def demo_world_def queued_def demo_queues_def demo_task_def schedulable_def)

lemma demo_exit_ok: "sched_ok demo_exit demo_exit_queues demo_exit_lists"
  using demo_exit_queues_ok
  by (auto simp: sched_ok_def demo_exit_def demo_world_def queued_def demo_exit_queues_def demo_task_def schedulable_def)

lemma demo_blobs_ok: "blobs_ok (blob_vm demo_world) (sched_lists demo_queues demo_lists)"
  by (auto simp: blobs_ok_def sched_lists_def demo_queues_def demo_lists_def split: if_splits)

lemma demo_wait:
  "filter (waitable demo_world 1 (-1)) [2, 3] = [2, 3]"
  "scan_result demo_world (-1) [2, 3] = (3, Some 3)" "alive_before demo_world [2, 3] = [2]"
  by (simp_all add: waitable_def exited_def pid_of_def alive_before_def demo_world_def demo_proc_def demo_task_def
      is_child_def is_to_wait_def)

text \<open>Process 1 was woken by the exit of process 2 and is about to collect it.\<close>

definition demo_woken_links :: "sched_node links" where
  "demo_woken_links = (\<lambda>_. null_links)(Wait_blob_head (Task 1) := only_link (Wait_blob_node 0),
     Wq_pivot (Task 2) := only_link (Wait_list 0), global_task_list_head := only_link (Vm_list_node 2))"

definition demo_woken_lists :: "sched_node \<Rightarrow> sched_node list" where
  "demo_woken_lists = (\<lambda>_. [])(Wait_blob_head (Task 1) := [Wait_blob_node 0], Wq_pivot (Task 2) := [Wait_list 0],
     global_task_list_head := [Vm_list_node 2])"

definition demo_woken :: world where
  "demo_woken = demo_world\<lparr>links := demo_woken_links, blob_vm := [(0, 2)], waiter := [0 \<mapsto> Task 1],
     tasks := (\<lambda>_. demo_task TASK_STATE_RUNNING False)(Task 2 := demo_task TASK_STATE_EXITING True)\<rparr>"

lemma demo_woken_ok: "lists_ok sched_heads (links demo_woken) demo_woken_lists"
  by (auto simp: lists_ok_def demo_woken_def demo_woken_lists_def demo_woken_links_def dlist_def
      detached_def null_links_def only_link_def)

lemma demo_wait_premises:
  "lists_ok sched_heads (links demo_world) (sched_lists demo_queues demo_lists)"
  "sched_lists demo_queues demo_lists (Wait_blob_head (Task 1)) = []"
  "sched_lists demo_queues demo_lists global_task_list_head = map Vm_list_node [2, 3]"
  "vm_of demo_world 1 = Some (demo_proc 1 1)" "\<forall>c\<in>set [2, 3]. vm_of demo_world c \<noteq> None"
  "state_of demo_world (Task 1) = TASK_STATE_RUNNING"
  "scan_result demo_world (-1) (filter (waitable demo_world 1 (-1)) [2, 3]) = (3, Some 3)"
  "alive_before demo_world (filter (waitable demo_world 1 (-1)) [2, 3]) \<noteq> []"
  using demo_sched_ok demo_wait
  by (simp_all add: sched_ok_def queues_ok_def sched_lists_def demo_lists_def demo_world_def demo_task_def)

end
