(* ===== verification/Path_Name.thy ===== *)
theory Path_Name
  imports Hyrule_Prelude
begin

text \<open>
  Canonical path names: \<open>canonicalize_path_name\<close> of \<open>sandbox/vfs.c\<close>. A C string is the list of its
  characters before the terminating NUL; reading at or behind its end gives NUL. Positions in
  the buffers are below \<open>MAX_PATH\<close> and fit the 16-bit variables of the code; the part of
  \<open>index_stack\<close> below \<open>index_ptr\<close> is a list.
\<close>

definition MAX_PATH :: nat where "MAX_PATH = 512"

abbreviation NUL :: char where "NUL \<equiv> CHR 0x00"
abbreviation slash :: char where "slash \<equiv> CHR ''/''"
abbreviation dot :: char where "dot \<equiv> CHR ''.''"

definition char_at :: "string \<Rightarrow> nat \<Rightarrow> char" where
  "char_at src i = (if i < length src then src ! i else NUL)"

definition c_string :: "char list \<Rightarrow> string" where
  "c_string = takeWhile (\<lambda>c. c \<noteq> NUL)"

subsection \<open>The code\<close>

text \<open>What is done where a word ends: the start of the next word and the new stack.\<close>

definition end_of_word :: "string \<Rightarrow> nat \<Rightarrow> nat \<Rightarrow> nat list \<Rightarrow> nat \<times> nat list" where
  "end_of_word src idx word_start index_stack =
     (let word_len = idx - word_start in
      if word_len = 1 then
        (if char_at src idx = NUL \<and> index_stack = [] then (word_start, index_stack @ [word_start]) else (idx, index_stack))
      else if word_len = 2 \<and> char_at src (idx - 1) = dot then (idx, index_stack)
      else if word_len = 3 \<and> char_at src (idx - 1) = dot \<and> char_at src (idx - 2) = dot
      then (idx, butlast index_stack)
      else (idx, index_stack @ [word_start]))"

text \<open>The loop that finds the words; the third argument counts the positions left.\<close>

fun word_scan :: "string \<Rightarrow> nat \<Rightarrow> nat \<Rightarrow> nat option \<Rightarrow> nat list \<Rightarrow> nat list" where
  "word_scan src idx 0 word_start index_stack = index_stack"
| "word_scan src idx (Suc k) word_start index_stack =
     (if char_at src idx \<noteq> slash \<and> char_at src idx \<noteq> NUL \<and> idx \<noteq> 0
      then word_scan src (Suc idx) k word_start index_stack
      else case word_start of
        None \<Rightarrow> if char_at src idx \<noteq> NUL then word_scan src (Suc idx) k (Some idx) index_stack else index_stack
      | Some start \<Rightarrow>
          let (start', stack') = end_of_word src idx start index_stack in
          if char_at src idx = NUL then stack' else word_scan src (Suc idx) k (Some start') stack')"

text \<open>The end of a word, which includes the terminator of the string.\<close>

fun word_end :: "string \<Rightarrow> nat \<Rightarrow> nat \<Rightarrow> nat" where
  "word_end src i 0 = 0"
| "word_end src i (Suc k) =
     (if char_at src i = slash then i else if char_at src i = NUL then Suc i else word_end src (Suc i) k)"

definition copy_word :: "string \<Rightarrow> nat \<Rightarrow> char list" where
  "copy_word src start = map (char_at src) [start..<word_end src (Suc start) (MAX_PATH - Suc start)]"

definition canonicalize_path_name :: "string \<Rightarrow> string" where
  "canonicalize_path_name src =
     c_string (concat (map (copy_word src) (word_scan src 0 MAX_PATH None [])) @ [NUL])"

subsection \<open>Paths as lists of components\<close>

definition path_of :: "string list \<Rightarrow> string" where
  "path_of cs = concat (map ((#) slash) cs)"

definition plain :: "string \<Rightarrow> bool" where
  "plain c \<longleftrightarrow> slash \<notin> set c \<and> NUL \<notin> set c"

text \<open>
  The reference: empty components and dots are dropped, two dots drop the component before
  them, and a path that ends in a slash and has no component left is the root.
\<close>

fun normal_comps :: "string list \<Rightarrow> string list \<Rightarrow> string list" where
  "normal_comps [] acc = acc"
| "normal_comps (c # cs) acc =
     (if c = [] then (if cs = [] \<and> acc = [] then [[]] else normal_comps cs acc)
      else if c = [dot] then normal_comps cs acc
      else if c = [dot, dot] then normal_comps cs (butlast acc)
      else normal_comps cs (acc @ [c]))"

definition component_at :: "string \<Rightarrow> nat \<Rightarrow> string" where
  "component_at src s = takeWhile (\<lambda>c. c \<noteq> slash \<and> c \<noteq> NUL) (drop (Suc s) src)"

lemma path_of_simps [simp]:
  "path_of [] = []" "path_of (c # cs) = slash # c @ path_of cs" "path_of (cs @ ds) = path_of cs @ path_of ds"
  by (simp_all add: path_of_def)

lemma component_at_path:
  assumes "plain c"
  shows "component_at (path_of pre @ slash # c @ path_of rest) (length (path_of pre)) = c"
proof -
  have "takeWhile (\<lambda>c. c \<noteq> slash \<and> c \<noteq> NUL) (c @ path_of rest) = c"
    using assms by (subst takeWhile_append2) (auto simp: plain_def takeWhile_eq_Nil_iff path_of_def split: list.splits, cases rest, auto)
  then show ?thesis by (simp add: component_at_def)
qed

lemma char_at_Nil [simp]: "char_at [] i = NUL"
  by (simp add: char_at_def)

lemma char_at_mid: "char_at (xs @ ys) (length xs + i) = char_at ys i"
  by (simp add: char_at_def nth_append)

lemma char_at_start: "char_at (xs @ ys) (length xs) = char_at ys 0"
  using char_at_mid [of xs ys 0] by simp

lemma scan_component:
  assumes "plain c" "0 < idx" "length c \<le> k" "\<And>i. i < length c \<Longrightarrow> char_at src (idx + i) = c ! i"
  shows "word_scan src idx k ws stk = word_scan src (idx + length c) (k - length c) ws stk"
  using assms
proof (induction c arbitrary: idx k)
  case (Cons x c)
  obtain k' where k: "k = Suc k'" using Cons.prems(3) by (cases k) auto
  have "char_at src idx = x" using Cons.prems(4) [of 0] by simp
  moreover have "x \<noteq> slash" "x \<noteq> NUL" "plain c" using Cons.prems(1) by (auto simp: plain_def)
  moreover have "word_scan src (Suc idx) k' ws stk = word_scan src (Suc idx + length c) (k' - length c) ws stk"
    using Cons.IH [of "Suc idx" k'] Cons.prems(2,3) Cons.prems(4) [of "Suc _"] \<open>plain c\<close> k by simp
  ultimately show ?case using Cons.prems(2) k by simp
qed simp

text \<open>What happens at the end of a component, in terms of the component.\<close>

definition push_word :: "nat \<Rightarrow> string \<Rightarrow> bool \<Rightarrow> nat list \<Rightarrow> nat list" where
  "push_word start c at_end stk =
     (if c = [] then (if at_end \<and> stk = [] then [start] else stk)
      else if c = [dot] then stk else if c = [dot, dot] then butlast stk else stk @ [start])"

lemma scan_boundary:
  assumes "src = pre @ slash # c @ rest" "rest = [] \<or> (\<exists>r. rest = slash # r)" "NUL \<notin> set c"
  defines "idx \<equiv> Suc (length pre + length c)"
  shows "word_scan src idx (Suc k) (Some (length pre)) stk =
    (if rest = [] then push_word (length pre) c True stk
     else word_scan src (Suc idx) k (Some idx) (push_word (length pre) c False stk))"
proof -
  have "src = (pre @ slash # c) @ rest" using assms(1) by simp
  then have at_idx: "char_at src idx = char_at rest 0"
    using char_at_start [of "pre @ slash # c" rest] by (simp add: idx_def)
  have in_c: "char_at src (Suc (length pre + i)) = c ! i" if "i < length c" for i
    using assms(1) that char_at_mid [of pre "slash # c @ rest" "Suc i"] by (simp add: char_at_def nth_append)
  have one: "idx - length pre = 2 \<and> char_at src (idx - 1) = dot \<longleftrightarrow> c = [dot]"
    using in_c [of 0] by (cases c) (auto simp: idx_def)
  have two: "idx - length pre = 3 \<and> char_at src (idx - 1) = dot \<and> char_at src (idx - 2) = dot \<longleftrightarrow> c = [dot, dot]"
    using in_c [of 0] in_c [of 1] by (cases c rule: remdups_adj.cases) (auto simp: idx_def)
  have zero: "idx - length pre = 1 \<longleftrightarrow> c = []" by (auto simp: idx_def)
  have eow: "end_of_word src idx (length pre) stk =
      (if c = [] \<and> char_at rest 0 = NUL \<and> stk = [] then length pre else idx, push_word (length pre) c (char_at rest 0 = NUL) stk)"
    unfolding end_of_word_def Let_def zero one two at_idx push_word_def by simp
  have "char_at rest 0 = slash \<and> rest \<noteq> [] \<or> char_at rest 0 = NUL \<and> rest = []"
    using assms(2) by (auto simp: char_at_def)
  then show ?thesis
    by (elim disjE) (simp_all add: eow at_idx)
qed

lemma component_push:
  assumes "component_at src start = c"
  shows "map (component_at src) (push_word start c at_end stk) =
    (if c = [] then (if at_end \<and> stk = [] then [[]] else map (component_at src) stk)
     else if c = [dot] then map (component_at src) stk
     else if c = [dot, dot] then butlast (map (component_at src) stk) else map (component_at src) stk @ [c])"
  using assms by (simp add: push_word_def map_butlast)

lemma sorted_push:
  assumes "sorted_wrt (<) (stk @ [start])" "start < idx" "\<forall>x\<in>set stk. P x" "P start"
  shows "sorted_wrt (<) (push_word start c at_end stk @ [idx]) \<and> (\<forall>x\<in>set (push_word start c at_end stk). P x)"
proof -
  have "sorted_wrt (<) (butlast stk)" "\<forall>x\<in>set (butlast stk). x < start" "\<forall>x\<in>set (butlast stk). P x"
    using assms by (auto simp: sorted_wrt_append butlast_conv_take sorted_wrt_take dest: in_set_takeD)
  moreover have "\<forall>x\<in>set stk. x < start" "sorted_wrt (<) stk" using assms(1) by (auto simp: sorted_wrt_append)
  moreover have "push_word start c at_end stk \<in> {stk, butlast stk, stk @ [start]} \<or> push_word start c at_end stk = [start]"
    by (simp add: push_word_def)
  ultimately show ?thesis using assms(2-4) by (elim disjE insertE) (auto simp: sorted_wrt_append)
qed

definition scan_from :: "string \<Rightarrow> string list \<Rightarrow> string \<Rightarrow> nat list \<Rightarrow> nat list" where
  "scan_from src pre c stk = word_scan src (Suc (length (path_of pre) + length c))
     (MAX_PATH - Suc (length (path_of pre) + length c)) (Some (length (path_of pre))) stk"

lemma scan_from_step:
  assumes "src = path_of pre @ path_of (c # rest)" "list_all plain (c # rest)" "length src < MAX_PATH"
  shows "scan_from src pre c stk = (case rest of [] \<Rightarrow> push_word (length (path_of pre)) c True stk
    | d # _ \<Rightarrow> scan_from src (pre @ [c]) d (push_word (length (path_of pre)) c False stk))"
proof -
  let ?idx = "Suc (length (path_of pre) + length c)"
  obtain k where k: "MAX_PATH - ?idx = Suc k"
    using assms(1,3) by (cases "MAX_PATH - ?idx") auto
  have bd: "word_scan src ?idx (Suc k) (Some (length (path_of pre))) stk =
    (if path_of rest = [] then push_word (length (path_of pre)) c True stk
     else word_scan src (Suc ?idx) k (Some ?idx) (push_word (length (path_of pre)) c False stk))"
    using assms(1,2) by (intro scan_boundary) (auto simp: plain_def neq_Nil_conv, cases rest, auto)
  show ?thesis
  proof (cases rest)
    case Nil
    then show ?thesis using bd by (simp add: scan_from_def k)
  next
    case (Cons d ds)
    let ?pre = "path_of (pre @ [c])" and ?stk = "push_word (length (path_of pre)) c False stk"
    have src': "src = ?pre @ path_of (d # ds)" using assms(1) Cons by simp
    have chars: "char_at src (Suc (length ?pre) + i) = d ! i" if "i < length d" for i
      using that char_at_mid [of ?pre "path_of (d # ds)" "Suc i"] unfolding src' by (simp add: char_at_def nth_append)
    have len: "length ?pre + length d < MAX_PATH" using src' assms(3) by simp
    have "word_scan src (Suc (length ?pre)) k (Some (length ?pre)) ?stk =
      word_scan src (Suc (length ?pre) + length d) (k - length d) (Some (length ?pre)) ?stk"
      using assms(2) Cons len k chars by (intro scan_component) auto
    moreover have "k - length d = MAX_PATH - Suc (length ?pre + length d)" using k by simp
    ultimately show ?thesis using bd Cons by (simp add: scan_from_def k)
  qed
qed

lemma scan_words:
  assumes "src = path_of pre @ path_of (c # rest)" "list_all plain (c # rest)" "length src < MAX_PATH"
    and "sorted_wrt (<) (stk @ [length (path_of pre)])" "\<forall>x\<in>set stk. char_at src x = slash"
  shows "map (component_at src) (scan_from src pre c stk) = normal_comps (c # rest) (map (component_at src) stk) \<and>
    sorted_wrt (<) (scan_from src pre c stk) \<and> (\<forall>x\<in>set (scan_from src pre c stk). char_at src x = slash)"
  using assms
proof (induction rest arbitrary: pre c stk)
  case Nil
  have comp: "component_at src (length (path_of pre)) = c"
    using component_at_path [of c pre "[]"] Nil.prems(1,2) by simp
  have start: "char_at src (length (path_of pre)) = slash"
    using Nil.prems(1) char_at_start [of "path_of pre" "path_of [c]"] by (simp add: char_at_def)
  show ?case
    using component_push [OF comp, of True stk] scan_from_step [OF Nil.prems(1-3), of stk] Nil.prems(5) start
      sorted_push [OF Nil.prems(4), of "Suc (length (path_of pre))" "\<lambda>x. char_at src x = slash" c True]
    by (auto simp: sorted_wrt_append)
next
  case (Cons d rest)
  let ?s = "length (path_of pre)"
  let ?stk = "push_word ?s c False stk"
  have comp: "component_at src ?s = c"
    using component_at_path [of c pre "d # rest"] Cons.prems(1,2) by simp
  have start: "char_at src ?s = slash"
    using Cons.prems(1) char_at_start [of "path_of pre" "path_of (c # d # rest)"] by (simp add: char_at_def)
  have sorted: "sorted_wrt (<) (?stk @ [length (path_of (pre @ [c]))]) \<and> (\<forall>x\<in>set ?stk. char_at src x = slash)"
    using sorted_push [OF Cons.prems(4), of "length (path_of (pre @ [c]))" "\<lambda>x. char_at src x = slash"] Cons.prems(5) start by simp
  have "normal_comps (d # rest) (map (component_at src) ?stk) = normal_comps (c # d # rest) (map (component_at src) stk)"
    using component_push [OF comp, of False stk] by simp
  with Cons.IH [of "pre @ [c]" d ?stk] sorted Cons.prems(1-3) scan_from_step [OF Cons.prems(1-3), of stk] show ?case by simp
qed

text \<open>Where the words begin: behind what was scanned; a proper component is kept.\<close>

lemma scan_from_after:
  assumes "src = path_of pre @ path_of (c # rest)" "list_all plain (c # rest)" "length src < MAX_PATH"
  shows "\<forall>x\<in>set (scan_from src pre c stk). x \<in> set stk \<or> length (path_of pre) \<le> x"
  using assms
proof (induction rest arbitrary: pre c stk)
  case Nil
  show ?case unfolding scan_from_step [OF Nil.prems] by (auto simp: push_word_def dest: in_set_butlastD)
next
  case (Cons d rest)
  have "\<forall>x\<in>set (push_word (length (path_of pre)) c False stk). x \<in> set stk \<or> length (path_of pre) \<le> x"
    by (auto simp: push_word_def dest: in_set_butlastD)
  moreover have "\<forall>x\<in>set (scan_from src (pre @ [c]) d (push_word (length (path_of pre)) c False stk)).
      x \<in> set (push_word (length (path_of pre)) c False stk) \<or> length (path_of (pre @ [c])) \<le> x"
    using Cons.prems by (intro Cons.IH) auto
  moreover have "length (path_of pre) \<le> length (path_of (pre @ [c]))" by simp
  ultimately show ?case unfolding scan_from_step [OF Cons.prems] list.case by (meson order_trans)
qed

subsection \<open>Copying the words\<close>

lemma word_end_component:
  assumes "length src < MAX_PATH" "s < length src" "NUL \<notin> set src"
  shows "word_end src (Suc s) (MAX_PATH - Suc s) =
    Suc s + length (component_at src s) + (if Suc s + length (component_at src s) = length src then 1 else 0)"
proof -
  have "word_end src i k = i + length (takeWhile (\<lambda>c. c \<noteq> slash \<and> c \<noteq> NUL) (drop i src)) +
      (if i + length (takeWhile (\<lambda>c. c \<noteq> slash \<and> c \<noteq> NUL) (drop i src)) = length src then 1 else 0)"
    if "length src - i < k" "i \<le> length src" for i k
    using that
  proof (induction k arbitrary: i)
    case (Suc k)
    show ?case
    proof (cases "i < length src")
      case True
      then have d: "drop i src = src ! i # drop (Suc i) src" by (rule Cons_nth_drop_Suc [symmetric])
      have "src ! i \<noteq> NUL" using assms(3) True by (metis nth_mem)
      with True Suc show ?thesis by (simp add: char_at_def d)
    next
      case False
      with Suc.prems show ?thesis by (simp add: char_at_def)
    qed
  qed simp
  from this [of "Suc s" "MAX_PATH - Suc s"] assms show ?thesis by (simp add: component_at_def)
qed

lemma copy_word_component:
  assumes "length src < MAX_PATH" "s < length src" "NUL \<notin> set src" "char_at src s = slash"
  shows "copy_word src s = slash # component_at src s @
    (if Suc s + length (component_at src s) = length src then [NUL] else [])"
proof -
  let ?c = "component_at src s"
  have "length ?c \<le> length src - Suc s" by (simp add: component_at_def length_takeWhile_le order_trans [OF length_takeWhile_le])
  then have len: "Suc s + length ?c \<le> length src" using assms(2) by simp
  have "map (char_at src) [Suc s..<Suc s + length ?c] = ?c"
  proof (rule nth_equalityI)
    fix i assume "i < length (map (char_at src) [Suc s..<Suc s + length ?c])"
    then have i: "i < length ?c" by (simp del: upt_Suc)
    then have "?c ! i = drop (Suc s) src ! i" unfolding component_at_def by (rule takeWhile_nth)
    with i len show "map (char_at src) [Suc s..<Suc s + length ?c] ! i = ?c ! i"
      by (simp add: char_at_def del: upt_Suc)
  qed (simp del: upt_Suc)
  moreover have "[s..<Suc s + length ?c] = s # [Suc s..<Suc s + length ?c]" by (rule upt_conv_Cons) simp
  ultimately have whole: "map (char_at src) [s..<Suc s + length ?c] = slash # ?c"
    using assms(4) by (simp del: upt_Suc add_Suc)
  show ?thesis
  proof (cases "Suc s + length ?c = length src")
    case True
    have "char_at src (length src) = NUL" by (simp add: char_at_def)
    with True whole show ?thesis
      by (simp add: copy_word_def word_end_component [OF assms(1-3)] del: add_Suc)
  next
    case False
    with whole show ?thesis by (simp add: copy_word_def word_end_component [OF assms(1-3)] del: add_Suc upt_Suc)
  qed
qed

lemma component_before:
  assumes "s < t" "t < length src" "char_at src t = slash"
  shows "Suc s + length (component_at src s) \<le> t"
proof (rule ccontr)
  assume "\<not> ?thesis"
  then have i: "t - Suc s < length (component_at src s)" using assms(1) by simp
  then have "component_at src s ! (t - Suc s) = drop (Suc s) src ! (t - Suc s)"
    unfolding component_at_def by (rule takeWhile_nth)
  also have "\<dots> = slash" using assms by (simp add: char_at_def)
  finally have "slash \<in> set (component_at src s)" using i by (metis nth_mem)
  then show False by (auto simp: component_at_def dest: set_takeWhileD)
qed

lemma copied_words:
  assumes "length src < MAX_PATH" "NUL \<notin> set src" "sorted_wrt (<) ws" "\<forall>s\<in>set ws. char_at src s = slash"
  shows "c_string (concat (map (copy_word src) ws) @ [NUL]) = path_of (map (component_at src) ws)"
  using assms(3,4)
proof (induction ws)
  case (Cons s ws)
  have lt: "t < length src" if "t \<in> set (s # ws)" for t
    using that Cons.prems(2) by (auto simp: char_at_def split: if_splits)
  have nonul: "\<forall>x\<in>set (component_at src s). x \<noteq> NUL" by (auto simp: component_at_def dest: set_takeWhileD)
  note copy = copy_word_component [OF assms(1) lt assms(2), of s] Cons.prems(2)
  show ?case
  proof (cases ws)
    case Nil
    with copy nonul show ?thesis by (simp add: c_string_def takeWhile_tail)
  next
    case (Cons t ts)
    then have "Suc s + length (component_at src s) < length src"
      using component_before [of s t src] Cons.prems lt [of t] by auto
    with copy nonul Cons.IH Cons.prems show ?thesis by (simp add: c_string_def)
  qed
qed (simp add: c_string_def)

lemma scan_start:
  assumes "list_all plain (c # cs)" "length (path_of (c # cs)) < MAX_PATH"
  shows "word_scan (path_of (c # cs)) 0 MAX_PATH None [] = scan_from (path_of (c # cs)) [] c []"
proof -
  let ?src = "path_of (c # cs)"
  obtain k where k: "MAX_PATH = Suc k" by (cases MAX_PATH) (auto simp: MAX_PATH_def)
  have "char_at ?src (1 + i) = c ! i" if "i < length c" for i using that by (simp add: char_at_def nth_append)
  then have "word_scan ?src 1 k (Some 0) [] = word_scan ?src (1 + length c) (k - length c) (Some 0) []"
    using assms(1,2) k by (intro scan_component) auto
  then show ?thesis by (simp add: k scan_from_def char_at_def)
qed

lemma scan_absolute:
  assumes "list_all plain (c # cs)" "length (path_of (c # cs)) < MAX_PATH"
  defines "ws \<equiv> word_scan (path_of (c # cs)) 0 MAX_PATH None []"
  shows "map (component_at (path_of (c # cs))) ws = normal_comps (c # cs) [] \<and>
    sorted_wrt (<) ws \<and> (\<forall>x\<in>set ws. char_at (path_of (c # cs)) x = slash)"
  unfolding ws_def scan_start [OF assms(1,2)] using scan_words [of "path_of (c # cs)" "[]" c cs "[]"] assms(1,2) by auto

lemma canonicalize_absolute:
  assumes "list_all plain (c # cs)" "length (path_of (c # cs)) < MAX_PATH"
  shows "canonicalize_path_name (path_of (c # cs)) = path_of (normal_comps (c # cs) [])"
proof -
  note words = scan_absolute [OF assms]
  have "NUL \<notin> set (path_of (c # cs))" using assms(1) by (auto simp: plain_def path_of_def list_all_iff)
  with copied_words [OF assms(2)] words show ?thesis
    unfolding canonicalize_path_name_def by simp
qed

subsection \<open>Canonical paths\<close>

text \<open>A name that is not special: what every component of a normalized path is, the root apart.\<close>

definition proper :: "string \<Rightarrow> bool" where
  "proper c \<longleftrightarrow> plain c \<and> c \<noteq> [] \<and> c \<noteq> [dot] \<and> c \<noteq> [dot, dot]"

lemma normal_comps_proper:
  "list_all plain cs \<Longrightarrow> list_all proper acc \<Longrightarrow> list_all proper (normal_comps cs acc) \<or> normal_comps cs acc = [[]]"
proof (induction cs arbitrary: acc)
  case (Cons c cs)
  have "list_all proper (butlast acc)" using Cons.prems(2) by (metis append_butlast_last_id butlast.simps(1) list_all_append)
  moreover have "c \<noteq> [] \<Longrightarrow> c \<noteq> [dot] \<Longrightarrow> c \<noteq> [dot, dot] \<Longrightarrow> proper c" using Cons.prems(1) by (simp add: proper_def)
  ultimately show ?case using Cons by simp
qed simp

lemma normal_append_proper:
  "list_all proper cs \<Longrightarrow> normal_comps (cs @ ds) acc = normal_comps ds (acc @ cs)"
  by (induction cs arbitrary: acc) (auto simp: proper_def)

lemma normal_all_proper: "list_all proper cs \<Longrightarrow> normal_comps cs acc = acc @ cs"
  using normal_append_proper [of cs "[]"] by simp

lemma length_path_normal: "length (path_of (normal_comps cs acc)) \<le> Suc (length (path_of cs)) + length (path_of acc)"
proof (induction cs arbitrary: acc)
  case (Cons c cs)
  have "length (path_of (butlast acc)) \<le> length (path_of acc)"
    by (cases acc rule: rev_cases) auto
  with Cons [of acc] Cons [of "butlast acc"] Cons [of "acc @ [c]"] show ?case by auto
qed simp

subsection \<open>Relative paths\<close>

text \<open>
  The character at position 0 is never looked at: the scan of a relative path is that of the
  path whose first character is a slash, so its first component is one character short.
\<close>

lemma char_at_tail: "0 < i \<Longrightarrow> char_at (x # t) i = char_at (y # t) i"
  by (cases i) (simp_all add: char_at_def)

lemma end_of_word_tail:
  assumes "s < idx"
  shows "end_of_word (x # t) idx s stk = end_of_word (y # t) idx s stk"
proof -
  have "char_at (x # t) idx = char_at (y # t) idx" using assms by (intro char_at_tail) simp
  moreover have "idx - s = 2 \<Longrightarrow> char_at (x # t) (idx - 1) = char_at (y # t) (idx - 1)"
    by (rule char_at_tail) simp
  moreover have "idx - s = 3 \<Longrightarrow> char_at (x # t) (idx - 1) = char_at (y # t) (idx - 1) \<and>
      char_at (x # t) (idx - 2) = char_at (y # t) (idx - 2)"
    by (intro conjI char_at_tail) simp_all
  ultimately show ?thesis unfolding end_of_word_def Let_def by auto
qed

lemma end_of_word_start: "s < idx \<Longrightarrow> fst (end_of_word src idx s stk) < Suc idx"
  by (simp add: end_of_word_def Let_def)

lemma word_scan_tail:
  "0 < idx \<Longrightarrow> s < idx \<Longrightarrow> word_scan (x # t) idx k (Some s) stk = word_scan (y # t) idx k (Some s) stk"
proof (induction k arbitrary: idx s stk)
  case (Suc k)
  obtain s' stk' where e: "end_of_word (y # t) idx s stk = (s', stk')" by (cases "end_of_word (y # t) idx s stk")
  have "s' < Suc idx" using end_of_word_start [OF Suc.prems(2), of "y # t" stk] e by simp
  with Suc.IH [of "Suc idx"] Suc.prems char_at_tail [of idx x t y] end_of_word_tail [OF Suc.prems(2), of x t stk y] e
  show ?case by (simp add: less_SucI)
qed simp

lemma word_end_tail: "0 < i \<Longrightarrow> word_end (x # t) i k = word_end (y # t) i k"
  by (induction k arbitrary: i) (simp_all add: char_at_tail [of _ x t y])

lemma copy_word_tail:
  "0 < s \<Longrightarrow> copy_word (x # t) s = copy_word (y # t) s"
  "copy_word (y # t) 0 \<noteq> [] \<Longrightarrow> copy_word (x # t) 0 = x # tl (copy_word (y # t) 0)"
proof -
  show "0 < s \<Longrightarrow> copy_word (x # t) s = copy_word (y # t) s"
    by (auto simp: copy_word_def word_end_tail [of _ x t _ y] intro: char_at_tail)
  assume ne: "copy_word (y # t) 0 \<noteq> []"
  define e where "e = word_end (x # t) 1 (MAX_PATH - 1)"
  have e': "word_end (y # t) (Suc 0) (MAX_PATH - Suc 0) = e" "word_end (x # t) (Suc 0) (MAX_PATH - Suc 0) = e"
    unfolding e_def using word_end_tail [of 1 y t "MAX_PATH - 1" x] by simp_all
  have "0 < e" using ne by (simp add: copy_word_def e')
  then have "[0..<e] = 0 # [1..<e]" by (simp add: upt_conv_Cons)
  moreover have "map (char_at (x # t)) [1..<e] = map (char_at (y # t)) [1..<e]" by (auto intro: char_at_tail)
  moreover have "char_at (x # t) 0 = x" by (simp add: char_at_def)
  ultimately show "copy_word (x # t) 0 = x # tl (copy_word (y # t) 0)"
    by (simp add: copy_word_def e')
qed

lemma canonicalize_relative_cases:
  assumes "list_all plain (c # cs)" "length (path_of (c # cs)) < MAX_PATH" "x \<noteq> NUL"
  shows "if \<exists>ws'. word_scan (path_of (c # cs)) 0 MAX_PATH None [] = 0 # ws'
    then \<exists>d ds. normal_comps (c # cs) [] = d # ds \<and> canonicalize_path_name (x # c @ path_of cs) = x # d @ path_of ds
    else canonicalize_path_name (x # c @ path_of cs) = path_of (normal_comps (c # cs) [])"
proof -
  let ?t = "c @ path_of cs" and ?src = "path_of (c # cs)"
  define ws where "ws = word_scan ?src 0 MAX_PATH None []"
  have ws: "word_scan (x # ?t) 0 MAX_PATH None [] = ws" 
  proof -
    obtain k where k: "MAX_PATH = Suc k" by (cases MAX_PATH) (auto simp: MAX_PATH_def)
    with assms(3) word_scan_tail [of 1 0 x ?t k "[]" slash] show ?thesis by (simp add: ws_def k char_at_def)
  qed
  have abs: "c_string (concat (map (copy_word ?src) ws) @ [NUL]) = path_of (normal_comps (c # cs) [])"
    using canonicalize_absolute [OF assms(1,2)] by (simp add: canonicalize_path_name_def ws_def)
  have words: "sorted_wrt (<) ws" "\<forall>s\<in>set ws. char_at ?src s = slash"
    unfolding ws_def using scan_absolute [OF assms(1,2)] by auto
  have canon: "canonicalize_path_name (x # ?t) = c_string (concat (map (copy_word (x # ?t)) ws) @ [NUL])"
    by (simp add: canonicalize_path_name_def ws)
  show ?thesis
  proof (cases "\<exists>ws'. ws = 0 # ws'")
    case False
    have "0 \<notin> set ws" using words(1) False by (cases ws) auto
    then have "map (copy_word (x # ?t)) ws = map (copy_word ?src) ws"
      by (intro map_cong) (auto intro!: copy_word_tail(1) gr0I)
    with canon abs have "canonicalize_path_name (x # ?t) = path_of (normal_comps (c # cs) [])" by simp
    with False show ?thesis unfolding ws_def by (simp only: if_False)
  next
    case True
    then obtain ws' where ws': "ws = 0 # ws'" by blast
    have rest: "map (copy_word (x # ?t)) ws' = map (copy_word ?src) ws'"
      using words(1) unfolding ws' by (intro map_cong) (auto intro!: copy_word_tail(1))
    obtain w where w: "copy_word ?src 0 = slash # w"
      using copy_word_component [OF assms(2), of 0] words(2) assms(1) ws'
      by (auto simp: plain_def path_of_def list_all_iff char_at_def)
    moreover have "copy_word (x # ?t) 0 = x # w"
      using w copy_word_tail(2) [of slash ?t x] by simp
    ultimately have "concat (map (copy_word (x # ?t)) ws) = x # w @ concat (map (copy_word ?src) ws')"
      "concat (map (copy_word ?src) ws) = slash # w @ concat (map (copy_word ?src) ws')"
      unfolding ws' list.map rest concat.simps by simp_all
    then have "canonicalize_path_name (x # ?t) = x # c_string (w @ concat (map (copy_word ?src) ws') @ [NUL])"
      "path_of (normal_comps (c # cs) []) = slash # c_string (w @ concat (map (copy_word ?src) ws') @ [NUL])"
      using assms(3) unfolding canon abs [symmetric] by (simp_all add: c_string_def)
    then have "\<exists>d ds. normal_comps (c # cs) [] = d # ds \<and> canonicalize_path_name (x # ?t) = x # d @ path_of ds"
      by (cases "normal_comps (c # cs) []") auto
    with True show ?thesis unfolding ws_def by (simp only: if_True)
  qed
qed

lemma canonicalize_relative:
  assumes "list_all plain (c # cs)" "length (path_of (c # cs)) < MAX_PATH" "x \<noteq> NUL"
  shows "canonicalize_path_name (x # c @ path_of cs) = path_of (normal_comps (c # cs) []) \<or>
    (\<exists>d ds. normal_comps (c # cs) [] = d # ds \<and> canonicalize_path_name (x # c @ path_of cs) = x # d @ path_of ds)"
  using canonicalize_relative_cases [OF assms] by argo

lemma scan_first:
  assumes "list_all plain (c # cs)" "length (path_of (c # cs)) < MAX_PATH"
  shows "word_scan (path_of (c # cs)) 0 MAX_PATH None [] = (case cs of [] \<Rightarrow> push_word 0 c True []
    | d # _ \<Rightarrow> scan_from (path_of (c # cs)) [c] d (push_word 0 c False []))"
proof -
  have "path_of (c # cs) = path_of [] @ path_of (c # cs)" by simp
  from scan_from_step [OF this assms, of "[]"] show ?thesis
    unfolding scan_start [OF assms] by (simp only: path_of_simps(1) append_Nil list.size(3))
qed

text \<open>A first component that is empty or a dot behind its first character is dropped, a proper one is kept with it.\<close>

lemma canonicalize_dropped:
  assumes "list_all plain cs" "length (path_of (c # cs)) < MAX_PATH" "x \<noteq> NUL" "c = [] \<and> cs \<noteq> [] \<or> c = [dot]"
  shows "canonicalize_path_name (x # c @ path_of cs) = path_of (normal_comps cs [])"
proof -
  have plain: "list_all plain (c # cs)" using assms(1,4) by (auto simp: plain_def)
  have "0 \<notin> set (word_scan (path_of (c # cs)) 0 MAX_PATH None [])"
  proof (cases cs)
    case Nil
    with assms(4) show ?thesis unfolding scan_first [OF plain assms(2)] by (auto simp: push_word_def)
  next
    case (Cons d ds)
    have "push_word 0 c False [] = []" using assms(4) by (auto simp: push_word_def)
    with scan_from_after [of "path_of (c # cs)" "[c]" d ds "[]"] plain assms(2) Cons show ?thesis
      unfolding scan_first [OF plain assms(2)] by auto
  qed
  then have "\<not> (\<exists>ws'. word_scan (path_of (c # cs)) 0 MAX_PATH None [] = 0 # ws')" by auto
  then have "canonicalize_path_name (x # c @ path_of cs) = path_of (normal_comps (c # cs) [])"
    using canonicalize_relative_cases [OF plain assms(2,3)] by simp
  also have "normal_comps (c # cs) [] = normal_comps cs []" using assms(4) by auto
  finally show ?thesis .
qed

lemma canonicalize_kept:
  assumes "list_all proper (c # cs)" "length (path_of (c # cs)) < MAX_PATH" "x \<noteq> NUL"
  shows "canonicalize_path_name (x # c @ path_of cs) = x # c @ path_of cs"
proof -
  have plain: "list_all plain (c # cs)" using assms(1) by (auto simp: proper_def list_all_iff)
  have "\<exists>ws. scan_from src pre d stk = stk @ ws"
    if "src = path_of pre @ path_of (d # ds)" "list_all proper (d # ds)" "length src < MAX_PATH" for src pre d ds stk
    using that
  proof (induction ds arbitrary: pre d stk)
    case Nil
    have "list_all plain [d]" using Nil.prems(2) by (simp add: proper_def)
    from scan_from_step [OF Nil.prems(1) this Nil.prems(3), of stk] Nil.prems(2) show ?case by (simp add: push_word_def proper_def)
  next
    case (Cons e ds)
    have "list_all plain (d # e # ds)" using Cons.prems(2) by (auto simp: proper_def list_all_iff)
    moreover have "push_word (length (path_of pre)) d False stk = stk @ [length (path_of pre)]"
      using Cons.prems(2) by (simp add: push_word_def proper_def)
    moreover obtain ws where "scan_from src (pre @ [d]) e (stk @ [length (path_of pre)]) = (stk @ [length (path_of pre)]) @ ws"
      using Cons.IH [of "pre @ [d]" e "stk @ [length (path_of pre)]"] Cons.prems by auto
    ultimately show ?case by (simp add: scan_from_step [OF Cons.prems(1) _ Cons.prems(3)])
  qed
  note keep = this
  have push: "push_word 0 c b [] = [0]" for b using assms(1) by (simp add: push_word_def proper_def)
  have "\<exists>ws. word_scan (path_of (c # cs)) 0 MAX_PATH None [] = 0 # ws"
  proof (cases cs)
    case Nil
    then show ?thesis unfolding scan_first [OF plain assms(2)] push by simp
  next
    case (Cons d ds)
    have "\<exists>ws. scan_from (path_of (c # cs)) [c] d [0] = [0] @ ws"
      using Cons assms(1,2) by (intro keep [where ds = ds]) auto
    with Cons show ?thesis unfolding scan_first [OF plain assms(2)] push by auto
  qed
  then have "\<exists>d ds. normal_comps (c # cs) [] = d # ds \<and> canonicalize_path_name (x # c @ path_of cs) = x # d @ path_of ds"
    using canonicalize_relative_cases [OF plain assms(2,3)] by argo
  then show ?thesis unfolding normal_all_proper [OF assms(1)] by simp
qed

text \<open>Components that do not lead upwards: behind a prefix that is not empty they only add names.\<close>

definition quiet :: "string \<Rightarrow> bool" where
  "quiet c \<longleftrightarrow> plain c \<and> c \<noteq> [dot, dot]"

definition names :: "string list \<Rightarrow> string list" where
  "names cs = filter (\<lambda>c. c \<noteq> [] \<and> c \<noteq> [dot]) cs"

lemma normal_quiet: "list_all quiet cs \<Longrightarrow> acc \<noteq> [] \<Longrightarrow> normal_comps cs acc = acc @ names cs"
  by (induction cs arbitrary: acc) (auto simp: quiet_def names_def)

lemma names_proper: "list_all quiet cs \<Longrightarrow> list_all proper (names cs)"
  by (auto simp: list_all_iff quiet_def names_def proper_def)

lemma quiet_proper: "list_all proper cs \<Longrightarrow> list_all quiet cs"
  by (auto simp: list_all_iff quiet_def proper_def)

lemma normal_comps_quiet: "list_all plain cs \<Longrightarrow> list_all quiet (normal_comps cs [])"
  using normal_comps_proper [of cs "[]"] quiet_proper by (auto simp: quiet_def plain_def)

lemma quiet_plain: "list_all quiet cs \<Longrightarrow> list_all plain cs"
  by (auto simp: list_all_iff quiet_def)

lemma split_path: "NUL \<notin> set t \<Longrightarrow> \<exists>c cs. t = c @ path_of cs \<and> list_all plain (c # cs)"
proof (induction t)
  case Nil
  then show ?case by (intro exI [of _ "[]"]) (simp add: plain_def)
next
  case (Cons x t)
  then obtain c cs where t: "t = c @ path_of cs" "list_all plain (c # cs)" by auto
  show ?case
  proof (cases "x = slash")
    case True
    with t show ?thesis by (intro exI [of _ "[] :: string"] exI [of _ "c # cs"]) (simp add: plain_def [of "[]"])
  next
    case False
    with t Cons.prems show ?thesis by (intro exI [of _ "x # c"] exI [of _ cs]) (auto simp: plain_def [of "x # c"] plain_def [of c])
  qed
qed

text \<open>A canonical path, behind a directory that ends in a slash, adds quiet components.\<close>

lemma canonicalize_adds_quiet:
  assumes "NUL \<notin> set p" "length p < MAX_PATH"
  shows "\<exists>qs. list_all quiet qs \<and> slash # canonicalize_path_name p = path_of qs \<and>
    length (canonicalize_path_name p) \<le> Suc (length p)"
proof (cases p)
  case Nil
  have "word_scan [] 0 (Suc k) None [] = []" for k by simp
  then have "word_scan [] 0 MAX_PATH None [] = []" by (metis word_scan.simps(1) not0_implies_Suc)
  then have "canonicalize_path_name [] = []" by (simp add: canonicalize_path_name_def c_string_def)
  with Nil show ?thesis by (intro exI [of _ "[[]]"]) (simp add: quiet_def plain_def)
next
  case (Cons x t)
  with assms(1) obtain c cs where t: "t = c @ path_of cs" "list_all plain (c # cs)" using split_path [of t] by auto
  let ?ns = "normal_comps (c # cs) []"
  have len: "length (path_of (c # cs)) < MAX_PATH" "length (path_of ?ns) \<le> Suc (length p)"
    using assms(2) Cons t(1) length_path_normal [of "c # cs" "[]"] by simp_all
  have quiet: "list_all quiet ?ns" by (rule normal_comps_quiet [OF t(2)])
  have same: "\<exists>qs. list_all quiet qs \<and> slash # path_of ?ns = path_of qs"
    using quiet by (intro exI [of _ "[] # ?ns"]) (simp add: quiet_def plain_def)
  show ?thesis
  proof (cases "x = slash")
    case True
    then have "p = path_of (c # cs)" using Cons t(1) by simp
    then show ?thesis using canonicalize_absolute [OF t(2) len(1)] same len(2) by simp
  next
    case False
    have "x \<noteq> NUL" using assms(1) Cons by auto
    from canonicalize_relative [OF t(2) len(1) this]
    show ?thesis
    proof (elim disjE exE conjE)
      fix d ds assume d: "?ns = d # ds" "canonicalize_path_name (x # c @ path_of cs) = x # d @ path_of ds"
      have "d \<noteq> [dot]" using normal_comps_proper [OF t(2), of "[]"] d(1) by (auto simp: proper_def)
      with False \<open>x \<noteq> NUL\<close> quiet d(1) have "list_all quiet ((x # d) # ds)" by (simp add: quiet_def plain_def)
      with d len(2) Cons t(1) show ?thesis by (intro exI [of _ "(x # d) # ds"]) simp
    qed (use same len(2) Cons t(1) in simp)
  qed
qed

end
