(* ===== verification/Address_Space.thy ===== *)
theory Address_Space
  imports Mmu
begin

text \<open>
  Building and changing the address space of a process: the regions that \<open>sandbox/app.c\<close> sets up,
  \<open>mmap\<close> and \<open>munmap\<close> of \<open>sandbox/vfs.c\<close>, \<open>brk\<close> of \<open>sandbox/syscall.c\<close>, and the duplication and
  release of an address space in \<open>sandbox/task.c\<close>. The allocator of the host is a parameter: it
  names a block of the host heap that is not in use, or fails.
\<close>

definition EBADF :: u32 where "EBADF = 9"
definition ENOMEM :: u32 where "ENOMEM = 12"
definition EINVAL :: u32 where "EINVAL = 22"
definition ENOSYS :: u32 where "ENOSYS = 38"

definition PROGRAM_READ :: u32 where "PROGRAM_READ = 4"
definition PROGRAM_WRITE :: u32 where "PROGRAM_WRITE = 2"
definition PROGRAM_EXECUTE :: u32 where "PROGRAM_EXECUTE = 1"
definition PROT_READ :: u32 where "PROT_READ = 1"
definition PROT_WRITE :: u32 where "PROT_WRITE = 2"
definition PROT_EXEC :: u32 where "PROT_EXEC = 4"
definition MAP_ANONYMOUS :: u32 where "MAP_ANONYMOUS = 0x20"
definition DEFAULT_STACK_SIZE :: u32 where "DEFAULT_STACK_SIZE = 1024 * 1024 * 8"
definition DEFAULT_STACK_CELIING :: u32 where "DEFAULT_STACK_CELIING = 0xE0000000"

type_synonym host_alloc = "(nat \<rightharpoonup> u8 list) \<Rightarrow> nat \<Rightarrow> nat option"

definition host_alloc_ok :: "host_alloc \<Rightarrow> bool" where
  "host_alloc_ok alloc \<longleftrightarrow> (\<forall>hm n b. finite (dom hm) \<longrightarrow> alloc hm n = Some b \<longrightarrow> hm b = None)"

definition preallocate_physical_memory :: "host_alloc \<Rightarrow> machine \<Rightarrow> nat \<Rightarrow> nat option \<times> machine" where
  "preallocate_physical_memory alloc m nr_bytes =
     (case alloc (hmem m) nr_bytes of None \<Rightarrow> (None, m)
      | Some b \<Rightarrow> (Some b, m\<lparr>hmem := (hmem m)(b \<mapsto> replicate nr_bytes 0)\<rparr>))"

text \<open>The region descriptor that all callers fill in, with the callbacks of \<open>app.c\<close>.\<close>

definition vma_region :: "u32 \<Rightarrow> u32 \<Rightarrow> u32 \<Rightarrow> nat option \<Rightarrow> pm_region_operation" where
  "vma_region low high flags base = \<lparr>addr_low = low, addr_high = high, pmr_read = Some vma_generic_cb,
     pmr_write = Some vma_generic_cb, pmr_direct = Some vma_generic_cb, pmr_reclaim = Some vma_generic_cb,
     pmr_flags = flags, host_base = base\<rparr>"

definition set_vm :: "vmptr \<Rightarrow> virtual_machine \<Rightarrow> machine \<Rightarrow> machine" where
  "set_vm v vm m = m\<lparr>vms := (vms m)(v \<mapsto> vm)\<rparr>"

definition register_region :: "machine \<Rightarrow> vmptr \<Rightarrow> pm_region_operation \<Rightarrow> machine option" where
  "register_region m v pmr =
     Option.bind (vms m v) (\<lambda>vm. map_option (\<lambda>vm'. set_vm v vm' m) (register_pm_region_operation vm pmr))"

subsection \<open>Setting up a process\<close>

definition stack_init :: "host_alloc \<Rightarrow> machine \<Rightarrow> hart \<Rightarrow> vmptr \<Rightarrow> (hart \<times> machine) option" where
  "stack_init alloc m h v =
     (case preallocate_physical_memory alloc m (unat DEFAULT_STACK_SIZE) of
        (None, _) \<Rightarrow> None
      | (Some b, m1) \<Rightarrow>
          let low = DEFAULT_STACK_CELIING - DEFAULT_STACK_SIZE;
              h1 = h\<lparr>registers := (registers h)[2 := DEFAULT_STACK_CELIING - 0x100]\<rparr>
          in Option.bind (register_region m1 v
               (vma_region low DEFAULT_STACK_CELIING (PROGRAM_READ OR PROGRAM_WRITE) (Some b))) (\<lambda>m2.
             Option.bind (vms m2 v) (\<lambda>vm. Option.bind (search_pm_region_callback vm (ucast low)) (\<lambda>found.
             ASSERT (found \<noteq> None) (Some (h1, set_vm v (vm\<lparr>vma_stack := found\<rparr>) m2))))))"

definition heap_init :: "machine \<Rightarrow> vmptr \<Rightarrow> u32 \<Rightarrow> machine option" where
  "heap_init m v proposed_prog_break =
     (let prog_break = (proposed_prog_break + 4096 * 16) AND NOT 4095 in
      Option.bind (register_region m v (vma_region (prog_break - 1) prog_break (PROGRAM_READ OR PROGRAM_WRITE) None)) (\<lambda>m1.
      Option.bind (vms m1 v) (\<lambda>vm. Option.bind (search_pm_region_callback vm (ucast (prog_break - 1))) (\<lambda>found.
      ASSERT (found \<noteq> None) (Some (set_vm v (vm\<lparr>vma_heap := found\<rparr>) m1))))))"

subsection \<open>mmap and munmap\<close>

definition mmap_setup :: "host_alloc \<Rightarrow> machine \<Rightarrow> vmptr \<Rightarrow> u32 \<Rightarrow> u32 \<Rightarrow> u32 \<Rightarrow> nat option \<Rightarrow> machine option" where
  "mmap_setup alloc m v low len flags base =
     (let (base', m1) = (if base = None then preallocate_physical_memory alloc m (unat len) else (base, m)) in
      register_region m1 v (vma_region low (low + len) flags base'))"

definition PAGE_ROUNDUP :: "u32 \<Rightarrow> u32" where
  "PAGE_ROUNDUP addr = (if addr AND 4095 \<noteq> 0 then (addr AND NOT 4095) + 4096 else addr)"

definition allocate_mmap_region :: "host_alloc \<Rightarrow> machine \<Rightarrow> vmptr \<Rightarrow> u32 \<Rightarrow> u32 \<Rightarrow> u32 \<Rightarrow> (u32 \<times> machine) option" where
  "allocate_mmap_region alloc m v proposal_addr len mprot =
     Option.bind (vms m v) (\<lambda>vm.
     let low = PAGE_ROUNDUP proposal_addr in
     if proposal_addr \<noteq> 0 \<and> is_range_eligible vm low (low + len)
     then map_option (\<lambda>m1. (low, m1)) (mmap_setup alloc m v low len mprot None)
     else Option.bind (search_free_mmap_region vm len) (\<lambda>addr_found.
       if addr_found = 0 then Some (- ENOMEM, m)
       else map_option (\<lambda>m1. (PAGE_ROUNDUP addr_found, m1)) (mmap_setup alloc m v (PAGE_ROUNDUP addr_found) len mprot None)))"

definition do_mmap :: "host_alloc \<Rightarrow> machine \<Rightarrow> vmptr \<Rightarrow> u32 \<Rightarrow> u32 \<Rightarrow> u32 \<Rightarrow> u32 \<Rightarrow> (u32 \<times> machine) option" where
  "do_mmap alloc m native proposal_addr len prot flags =
     (let mprot = (if flags AND PROT_READ \<noteq> 0 then PROGRAM_READ else 0) OR
                  (if flags AND PROT_WRITE \<noteq> 0 then PROGRAM_WRITE else 0) OR
                  (if flags AND PROT_EXEC \<noteq> 0 then PROGRAM_EXECUTE else 0) in
      Option.bind (get_linked_vm (vms m) native LINKAGE_HINT_VM) (\<lambda>v.
        if len = 0 then Some (- EINVAL, m)
        else ASSERT (flags AND MAP_ANONYMOUS \<noteq> 0) (allocate_mmap_region alloc m v proposal_addr len mprot)))"

definition vma_generic_reclaim :: "machine \<Rightarrow> vmptr \<Rightarrow> nat \<Rightarrow> machine option" where
  "vma_generic_reclaim m v i =
     map_option (\<lambda>vm.
       case host_base (pmr_ops vm ! i) of None \<Rightarrow> m
       | Some b \<Rightarrow> set_vm v (vm\<lparr>pmr_ops := (pmr_ops vm)[i := (pmr_ops vm ! i)\<lparr>host_base := None\<rparr>]\<rparr>)
                    (m\<lparr>hmem := (hmem m)(b := None)\<rparr>)) (vms m v)"

definition do_munmap :: "machine \<Rightarrow> vmptr \<Rightarrow> u32 \<Rightarrow> u32 \<Rightarrow> (u32 \<times> machine) option" where
  "do_munmap m native addr len =
     Option.bind (get_linked_vm (vms m) native LINKAGE_HINT_VM) (\<lambda>v.
     Option.bind (vms m v) (\<lambda>vm.
     Option.bind (search_pm_region_callback vm (ucast addr)) (\<lambda>found.
       case found of None \<Rightarrow> Some (- EINVAL, m)
       | Some i \<Rightarrow>
           if addr_high (pmr_ops vm ! i) - addr_low (pmr_ops vm ! i) \<noteq> len then Some (- EINVAL, m)
           else Option.bind (if pmr_reclaim (pmr_ops vm ! i) \<noteq> None then vma_generic_reclaim m v i else Some m) (\<lambda>m1.
                Option.bind (vms m1 v) (\<lambda>vm1.
                map_option (\<lambda>vm2. (0, set_vm v vm2 m1)) (unregister_pm_region vm1 i))))))"

subsection \<open>brk\<close>

text \<open>
  \<open>realloc\<close>: the name of the resized block with its bytes, or failure, which leaves the old
  block allocated.
\<close>

type_synonym host_realloc = "(nat \<rightharpoonup> u8 list) \<Rightarrow> nat option \<Rightarrow> nat \<Rightarrow> (nat \<times> u8 list) option"

definition host_realloc_ok :: "host_realloc \<Rightarrow> bool" where
  "host_realloc_ok ra \<longleftrightarrow> (\<forall>hm old n b bs. ra hm old n = Some (b, bs) \<longrightarrow>
     length bs = n \<and> (hm b = None \<or> old = Some b) \<and>
     (\<forall>p bs0. old = Some p \<longrightarrow> hm p = Some bs0 \<longrightarrow> take (min n (length bs0)) bs = take (min n (length bs0)) bs0))"

definition free_block :: "nat option \<Rightarrow> (nat \<rightharpoonup> u8 list) \<Rightarrow> (nat \<rightharpoonup> u8 list)" where
  "free_block old hm = (case old of None \<Rightarrow> hm | Some b \<Rightarrow> hm(b := None))"

definition call_brk :: "host_realloc \<Rightarrow> machine \<Rightarrow> vmptr \<Rightarrow> u32 \<Rightarrow> (u32 \<times> machine) option" where
  "call_brk ra m native addr =
     Option.bind (get_linked_vm (vms m) native LINKAGE_HINT_VM) (\<lambda>v.
     Option.bind (vms m v) (\<lambda>vm.
     Option.bind (vma_heap vm) (\<lambda>i.
       let heap = pmr_ops vm ! i; set_heap = (\<lambda>r. vm\<lparr>pmr_ops := (pmr_ops vm)[i := r]\<rparr>) in
       if addr = 0 \<or> addr \<le> addr_high heap then Some (addr_high heap, m)
       else let heap1 = heap\<lparr>addr_high := addr\<rparr> in
         Option.bind (is_vma_eligible (set_heap heap1) (Some i)) (\<lambda>ok.
           if \<not> ok then Some (- ENOMEM, m)
           else case ra (hmem m) (host_base heap) (unat (addr - addr_low heap)) of
             None \<Rightarrow> Some (- ENOMEM, set_vm v (set_heap (heap1\<lparr>host_base := None\<rparr>)) m)
           | Some (b, bs) \<Rightarrow>
               Some (addr, set_vm v (set_heap (heap1\<lparr>host_base := Some b\<rparr>))
                 (m\<lparr>hmem := (free_block (host_base heap) (hmem m))(b \<mapsto> bs)\<rparr>))))))"

subsection \<open>Adding a region\<close>

definition range_free :: "virtual_machine \<Rightarrow> nat \<Rightarrow> nat \<Rightarrow> bool" where
  "range_free vm lo hi \<longleftrightarrow> (\<forall>r\<in>set (live_regions vm). unat (addr_high r) \<le> lo \<or> hi \<le> unat (addr_low r))"

text \<open>Every region that names a host block names one that is allocated.\<close>

definition hosted :: "machine \<Rightarrow> virtual_machine \<Rightarrow> bool" where
  "hosted m vm \<longleftrightarrow> (\<forall>r\<in>set (live_regions vm). \<forall>b. host_base r = Some b \<longrightarrow> hmem m b \<noteq> None)"

lemma region_at_live:
  assumes "vm_wf vm"
  shows "region_at vm a = Some r \<longleftrightarrow> r \<in> set (live_regions vm) \<and> in_region a r"
  using region_at_Some [OF assms] set_live_regions [of vm] assms by (fastforce simp: vm_wf_def)

lemma region_at_none:
  "vm_wf vm \<Longrightarrow> region_at vm a = None \<longleftrightarrow> (\<forall>r\<in>set (live_regions vm). \<not> in_region a r)"
  using region_at_live [of vm a] by (cases "region_at vm a") auto

lemma vma_region_sels [simp]:
  "addr_low (vma_region low high fl b) = low" "addr_high (vma_region low high fl b) = high"
  "host_base (vma_region low high fl b) = b" "pmr_reclaim (vma_region low high fl b) = Some vma_generic_cb"
  "pmr_read (vma_region low high fl b) = Some vma_generic_cb" "pmr_write (vma_region low high fl b) = Some vma_generic_cb"
  by (simp_all add: vma_region_def)

lemma register_free_range:
  fixes flags :: u32 and base :: "nat option"
  assumes "vm_wf vm" "nr_pmr_ops vm < MAX_VMA_NR" "len \<noteq> 0" "unat low + unat len < 2 ^ 32"
    and "range_free vm (unat low) (unat low + unat len)"
  defines "r \<equiv> vma_region low (low + len) flags base"
  shows "\<exists>vm'. register_pm_region_operation vm r = Some vm' \<and> vm_wf vm' \<and>
    set (live_regions vm') = insert r (set (live_regions vm)) \<and> r \<notin> set (live_regions vm) \<and>
    cloned_vm vm' = cloned_vm vm"
proof -
  have high: "unat (low + len) = unat low + unat len" using assms(4) by (simp add: unat_word_ariths)
  have "0 < unat len" using assms(3) by (simp add: unat_gt_0)
  then have ne: "addr_low r < addr_high r" using high by (simp add: r_def word_less_nat_alt)
  have apart: "addr_high q \<le> addr_low r \<or> addr_high r \<le> addr_low q" if "q \<in> set (live_regions vm)" for q
    using assms(5) that high by (auto simp: range_free_def r_def word_le_nat_alt)
  have "r \<notin> set (live_regions vm)" using apart [of r] ne by auto
  moreover have "disjoint_regions (insert r (set (live_regions vm)))"
    using vm_wf_disjoint [OF assms(1)] ne apart unfolding disjoint_regions_def by blast
  ultimately obtain vm' where vm': "register_pm_region_operation vm r = Some vm'"
    using register_pm_region_complete [OF assms(1,2), of r] by (auto simp: r_def)
  moreover have "cloned_vm vm' = cloned_vm vm" using vm' by (auto elim!: register_elim)
  ultimately show ?thesis
    using register_pm_region_safe [OF assms(1) ne vm'] \<open>r \<notin> set (live_regions vm)\<close> by blast
qed

lemma region_offset_bound: "in_region a r \<Longrightarrow> region_offset a r < unat (addr_high r - addr_low r)"
  by (auto simp: region_offset_def in_region_def unat_sub word_less_nat_alt word_le_nat_alt intro: diff_less_mono)

lemma guest_byte_insert:
  assumes "vm_wf vm" "vm_wf vm'" "set (live_regions vm') = insert r (set (live_regions vm))" "r \<notin> set (live_regions vm)"
    and "hosted m vm" "hmem m b = None" "host_base r = Some b" "hmem m' = (hmem m)(b \<mapsto> bs)" "length bs = unat (addr_high r - addr_low r)"
  shows "guest_byte m' vm' a = (if in_region a r then Some (bs ! region_offset a r) else guest_byte m vm a)"
proof (cases "in_region a r")
  case True
  then have "region_at vm' a = Some r" using region_at_live [OF assms(2)] assms(3) by simp
  with True assms(7-9) region_offset_bound [OF True] show ?thesis
    by (simp add: guest_byte_def host_block_def)
next
  case False
  have "region_at vm' a = region_at vm a"
  proof (cases "region_at vm a")
    case None
    then have "region_at vm' a = None" using False assms(3) region_at_none [OF assms(1)] region_at_none [OF assms(2)] by simp
    with None show ?thesis by simp
  next
    case (Some q)
    then have "region_at vm' a = Some q" using assms(3) region_at_live [OF assms(1)] region_at_live [OF assms(2)] by simp
    with Some show ?thesis by simp
  qed
  moreover have "host_block m' q = host_block m q" if "q \<in> set (live_regions vm)" for q
    using assms(5,6,8) that by (cases "host_base q") (auto simp: host_block_def hosted_def)
  moreover have "q \<in> set (live_regions vm)" if "region_at vm a = Some q" for q
    using region_at_live [OF assms(1)] that by simp
  ultimately show ?thesis using False by (cases "region_at vm a") (simp_all add: guest_byte_def)
qed

subsection \<open>mmap\<close>

lemma page_parts: "unat (a AND NOT 4095) + unat (a AND 4095) = unat (a :: u32)" "unat (a AND 4095) < 4096"
  "unat (a AND NOT 4095) mod 4096 = 0"
proof -
  have m: "(4095 :: u32) = mask 12" by (simp add: mask_eq_exp_minus_1)
  have low: "unat (a AND 4095) = unat a mod 4096" by (simp add: m take_bit_eq_mask [symmetric] unsigned_take_bit_eq take_bit_eq_mod unat_mod)
  then show "unat (a AND 4095) < 4096" by simp
  have "a AND NOT (mask 12) = push_bit 12 (drop_bit 12 a)"
    by (rule bit_word_eqI) (auto simp: bit_simps)
  then have "unat (a AND NOT 4095) = unat (push_bit 12 (drop_bit 12 a))" by (simp add: m)
  also have "\<dots> = unat a div 4096 * 4096"
  proof -
    have "unat a div 4096 * 4096 \<le> unat a" by simp
    moreover have "unat a < 2 ^ 32" using unsigned_less [of a] by simp
    ultimately have "unat a div 4096 * 4096 < 2 ^ 32" by linarith
    moreover have "push_bit 12 (drop_bit 12 a) = a div 4096 * 4096" by (simp add: push_bit_eq_mult drop_bit_eq_div)
    ultimately show ?thesis by (simp add: unat_word_ariths(2) unat_div)
  qed
  finally have high: "unat (a AND NOT 4095) = unat a div 4096 * 4096" .
  show "unat (a AND NOT 4095) + unat (a AND 4095) = unat a" unfolding low high by simp
  show "unat (a AND NOT 4095) mod 4096 = 0" unfolding high by simp
qed

lemma page_roundup:
  assumes "unat a + 4096 < 2 ^ 32"
  shows "unat a \<le> unat (PAGE_ROUNDUP a)" "unat (PAGE_ROUNDUP a) < unat a + 4096" "unat (PAGE_ROUNDUP a) mod 4096 = 0"
proof -
  note pp = page_parts [of a]
  have "unat a \<le> unat (PAGE_ROUNDUP a) \<and> unat (PAGE_ROUNDUP a) < unat a + 4096 \<and> unat (PAGE_ROUNDUP a) mod 4096 = 0"
  proof (cases "a AND 4095 = 0")
    case True
    with pp show ?thesis by (simp add: PAGE_ROUNDUP_def)
  next
    case False
    then have "0 < unat (a AND 4095)" by (simp add: unat_gt_0)
    moreover have "unat ((a AND NOT 4095) + 4096) = unat (a AND NOT 4095) + 4096"
      using pp(1) assms by (simp add: unat_word_ariths)
    ultimately show ?thesis using False pp by (simp add: PAGE_ROUNDUP_def)
  qed
  then show "unat a \<le> unat (PAGE_ROUNDUP a)" "unat (PAGE_ROUNDUP a) < unat a + 4096" "unat (PAGE_ROUNDUP a) mod 4096 = 0" by auto
qed

lemma do_mmap_maps:
  assumes "get_linked_vm (vms m) native LINKAGE_HINT_VM = Some v" "vms m v = Some vm" "vm_wf vm" "nr_pmr_ops vm < MAX_VMA_NR"
    and "flags AND MAP_ANONYMOUS \<noteq> 0" "len \<noteq> 0" "unat len + 4096 < 2 ^ 32"
    and "alloc (hmem m) (unat len) = Some b" "search_free_mmap_region vm len = Some found" "found \<noteq> 0"
  shows "\<exists>vm' fl. do_mmap alloc m native 0 len prot flags =
      Some (PAGE_ROUNDUP found, set_vm v vm' (m\<lparr>hmem := (hmem m)(b \<mapsto> replicate (unat len) 0)\<rparr>)) \<and>
    vm_wf vm' \<and> set (live_regions vm') = insert (vma_region (PAGE_ROUNDUP found) (PAGE_ROUNDUP found + len) fl (Some b)) (set (live_regions vm)) \<and>
    vma_region (PAGE_ROUNDUP found) (PAGE_ROUNDUP found + len) fl (Some b) \<notin> set (live_regions vm) \<and>
    cloned_vm vm' = cloned_vm vm \<and> unat (PAGE_ROUNDUP found) mod 4096 = 0 \<and> unat (PAGE_ROUNDUP found) + unat len < 2 ^ 32"
proof -
  let ?a = "PAGE_ROUNDUP found"
  define fl where "fl = (if flags AND PROT_READ \<noteq> 0 then PROGRAM_READ else 0) OR
      (if flags AND PROT_WRITE \<noteq> 0 then PROGRAM_WRITE else 0) OR (if flags AND PROT_EXEC \<noteq> 0 then PROGRAM_EXECUTE else 0)"
  have free: "unat found + unat len + 4096 < 2 ^ 32"
    "\<forall>j<nr_pmr_ops vm. addr_high (pmr_ops vm ! j) \<le> found \<or> unat found + unat len + 4096 \<le> unat (addr_low (pmr_ops vm ! j))"
    using search_free_mmap_region_free [OF assms(3,7)] assms(9,10) by auto
  have round: "unat found \<le> unat ?a" "unat ?a < unat found + 4096" "unat ?a mod 4096 = 0"
    using page_roundup [of found] free(1) by auto
  have "range_free vm (unat ?a) (unat ?a + unat len)"
    unfolding range_free_def
  proof
    fix r assume "r \<in> set (live_regions vm)"
    then obtain j where "j < nr_pmr_ops vm" "r = pmr_ops vm ! j" using set_live_regions [of vm] assms(3) by (auto simp: vm_wf_def)
    then show "unat (addr_high r) \<le> unat ?a \<or> unat ?a + unat len \<le> unat (addr_low r)"
      using free(2) round by (fastforce simp: word_le_nat_alt)
  qed
  then obtain vm' where vm': "register_pm_region_operation vm (vma_region ?a (?a + len) fl (Some b)) = Some vm'" "vm_wf vm'"
    "set (live_regions vm') = insert (vma_region ?a (?a + len) fl (Some b)) (set (live_regions vm))"
    "vma_region ?a (?a + len) fl (Some b) \<notin> set (live_regions vm)" "cloned_vm vm' = cloned_vm vm"
    using register_free_range [OF assms(3,4,6), of ?a fl "Some b"] free(1) round(2) by auto
  have "do_mmap alloc m native 0 len prot flags = allocate_mmap_region alloc m v 0 len fl"
    using assms(1,5,6) by (simp add: do_mmap_def fl_def)
  also have "\<dots> = Some (?a, set_vm v vm' (m\<lparr>hmem := (hmem m)(b \<mapsto> replicate (unat len) 0)\<rparr>))"
    using assms(2,8,9,10) vm'(1)
    by (simp add: allocate_mmap_region_def mmap_setup_def preallocate_physical_memory_def register_region_def)
  finally show ?thesis using vm'(2-5) round free(1) by (intro exI [of _ vm'] exI [of _ fl]) auto
qed

subsection \<open>munmap\<close>

lemma live_regions_host_base:
  fixes c :: "nat option"
  assumes "vm_wf vm" "i < nr_pmr_ops vm"
  defines "vm1 \<equiv> vm\<lparr>pmr_ops := (pmr_ops vm)[i := (pmr_ops vm ! i)\<lparr>host_base := c\<rparr>]\<rparr>"
  shows "vm_wf vm1 \<and> live_regions vm1 = (live_regions vm)[i := (pmr_ops vm ! i)\<lparr>host_base := c\<rparr>]"
proof -
  have live: "live_regions vm1 = (live_regions vm)[i := (pmr_ops vm ! i)\<lparr>host_base := c\<rparr>]"
    by (simp add: vm1_def live_regions_def take_update_swap)
  have nth: "live_regions vm ! i = pmr_ops vm ! i" by (rule live_regions_nth [OF assms(1,2)])
  have i: "i < length (live_regions vm)" using length_live_regions [OF assms(1)] assms(2) by simp
  have low: "map addr_low (live_regions vm1) = map addr_low (live_regions vm)"
    and high: "map addr_high (live_regions vm1) = map addr_high (live_regions vm)"
    unfolding live using i nth by (auto simp: map_update list_eq_iff_nth_eq nth_list_update)
  have len: "length (live_regions vm1) = length (live_regions vm)" by (simp add: live)
  have pt: "addr_low (live_regions vm1 ! j) = addr_low (live_regions vm ! j)" "addr_high (live_regions vm1 ! j) = addr_high (live_regions vm ! j)"
    if "j < length (live_regions vm)" for j
    using that len low high by (metis nth_map)+
  have "vm_wf vm1"
    using assms(1) pt len unfolding vm_wf_def all_set_conv_all_nth sorted_wrt_iff_nth_less
    by (simp add: vm1_def)
  with live show ?thesis by simp
qed

lemma set_remove_nth:
  "distinct xs \<Longrightarrow> i < length xs \<Longrightarrow> set (take i xs @ drop (Suc i) xs) = set xs - {xs ! i}"
proof -
  assume d: "distinct xs" and i: "i < length xs"
  from i have "xs = take i xs @ xs ! i # drop (Suc i) xs" by (rule id_take_nth_drop)
  then obtain as bs where xs: "xs = as @ xs ! i # bs" "as = take i xs" "bs = drop (Suc i) xs" by simp
  then have "distinct (as @ xs ! i # bs)" "set xs = set as \<union> set (xs ! i # bs)" using d by (metis, metis set_append)
  then show ?thesis unfolding xs(2,3) [symmetric] by auto
qed

lemma do_munmap_unmaps:
  assumes "get_linked_vm (vms m) native LINKAGE_HINT_VM = Some v" "vms m v = Some vm" "vm_wf vm"
    and "r \<in> set (live_regions vm)" "in_region addr r" "addr_high r - addr_low r = len"
    and "pmr_reclaim r \<noteq> None" "host_base r = Some b"
  shows "\<exists>vm'. do_munmap m native addr len = Some (0, (set_vm v vm' m)\<lparr>hmem := (hmem m)(b := None)\<rparr>) \<and>
    vm_wf vm' \<and> set (live_regions vm') = set (live_regions vm) - {r}"
proof -
  obtain i where i: "search_pm_region_callback vm (ucast addr) = Some (Some i)" "pmr_ops vm ! i = r" "i < nr_pmr_ops vm"
    using search_region_at [OF assms(3)] region_at_live [OF assms(3), of addr r] assms(4,5) search_sound by blast
  let ?vm1 = "vm\<lparr>pmr_ops := (pmr_ops vm)[i := (pmr_ops vm ! i)\<lparr>host_base := None\<rparr>]\<rparr>"
  let ?m1 = "set_vm v ?vm1 (m\<lparr>hmem := (hmem m)(b := None)\<rparr>)"
  have vm1: "vm_wf ?vm1" "live_regions ?vm1 = (live_regions vm)[i := (pmr_ops vm ! i)\<lparr>host_base := None\<rparr>]"
    using live_regions_host_base [OF assms(3) i(3)] by auto
  obtain vm' where vm': "unregister_pm_region ?vm1 i = Some vm'" "vm_wf vm'"
    "live_regions vm' = take i (live_regions ?vm1) @ drop (Suc i) (live_regions ?vm1)"
    using unregister_pm_region_live [OF vm1(1), of i] i(3) by auto
  have "live_regions vm' = take i (live_regions vm) @ drop (Suc i) (live_regions vm)"
    unfolding vm'(3) vm1(2) by simp
  moreover have "live_regions vm ! i = r" using live_regions_nth [OF assms(3) i(3)] i(2) by simp
  ultimately have "set (live_regions vm') = set (live_regions vm) - {r}"
    using set_remove_nth [OF vm_wf_distinct [OF assms(3)], of i] i(3) length_live_regions [OF assms(3)] by simp
  moreover have "vma_generic_reclaim m v i = Some ?m1"
    using assms(2,8) i(2) by (simp add: vma_generic_reclaim_def)
  then have "do_munmap m native addr len = Some (0, set_vm v vm' ?m1)"
    using assms(1,2,6,7) i vm'(1) by (simp add: do_munmap_def set_vm_def)
  moreover have "set_vm v vm' ?m1 = (set_vm v vm' m)\<lparr>hmem := (hmem m)(b := None)\<rparr>" by (simp add: set_vm_def)
  ultimately show ?thesis using vm'(2) by auto
qed

subsection \<open>Mapping and unmapping\<close>

lemma get_linked_vm_stays:
  "get_linked_vm ms native hint = Some v \<Longrightarrow> \<not> should_go hint vm' \<Longrightarrow>
     get_linked_vm (ms(v \<mapsto> vm')) native hint = Some v"
proof (induction arbitrary: vm' rule: get_linked_vm.raw_induct [rotated, consumes 1])
  case (1 f ms current hint q)
  from 1(2,3) show ?case
    by (subst get_linked_vm.simps) (auto split: option.splits if_splits intro: 1(1))
qed

lemma get_linked_vm_owner:
  "get_linked_vm ms native hint = Some v \<Longrightarrow> \<exists>vm. ms v = Some vm \<and> \<not> should_go hint vm"
proof (induction rule: get_linked_vm.raw_induct [rotated, consumes 1])
  case (1 f ms current hint q)
  from 1(2) show ?case by (auto split: option.splits if_splits intro: 1(1))
qed

lemma guest_byte_cong:
  assumes "vm_wf vm" "vm_wf vm'" "set (live_regions vm') = set (live_regions vm)" "hmem m' = hmem m"
  shows "guest_byte m' vm' a = guest_byte m vm a"
proof -
  have "region_at vm' a = Some r \<longleftrightarrow> region_at vm a = Some r" for r
    using region_at_live [OF assms(1)] region_at_live [OF assms(2)] assms(3) by simp
  then have "region_at vm' a = region_at vm a" by (metis not_None_eq)
  then show ?thesis by (simp add: guest_byte_def host_block_def assms(4))
qed

text \<open>A region that was added overlaps no other.\<close>

lemma fresh_region_apart:
  assumes "vm_wf vm" "vm_wf vm'" "set (live_regions vm') = insert r (set (live_regions vm))" "r \<notin> set (live_regions vm)" "in_region x r"
  shows "region_at vm x = None"
proof (cases "region_at vm x")
  case (Some q)
  then have "q \<in> set (live_regions vm)" "in_region x q" using region_at_live [OF assms(1)] by auto
  then have "region_at vm' x = Some q" "region_at vm' x = Some r" using region_at_live [OF assms(2)] assms(3,5) by auto
  with \<open>q \<in> set (live_regions vm)\<close> assms(4) show ?thesis by auto
qed simp

lemma mmap_then_munmap:
  assumes "get_linked_vm (vms m) native LINKAGE_HINT_VM = Some v" "vms m v = Some vm" "vm_wf vm" "nr_pmr_ops vm < MAX_VMA_NR"
    and "flags AND MAP_ANONYMOUS \<noteq> 0" "len \<noteq> 0" "unat len + 4096 < 2 ^ 32" "hmem m b = None"
    and "alloc (hmem m) (unat len) = Some b" "search_free_mmap_region vm len = Some found" "found \<noteq> 0"
  shows "\<exists>a m' m'' vm''. do_mmap alloc m native 0 len prot flags = Some (a, m') \<and> do_munmap m' native a len = Some (0, m'') \<and>
    hmem m'' = hmem m \<and> vms m'' v = Some vm'' \<and> vm_wf vm'' \<and> set (live_regions vm'') = set (live_regions vm) \<and>
    (\<forall>x. guest_byte m'' vm'' x = guest_byte m vm x)"
proof -
  let ?a = "PAGE_ROUNDUP found" and ?m1 = "m\<lparr>hmem := (hmem m)(b \<mapsto> replicate (unat len) 0)\<rparr>"
  obtain vm1 fl where mm: "do_mmap alloc m native 0 len prot flags = Some (?a, set_vm v vm1 ?m1)" "vm_wf vm1"
    "set (live_regions vm1) = insert (vma_region ?a (?a + len) fl (Some b)) (set (live_regions vm))"
    "vma_region ?a (?a + len) fl (Some b) \<notin> set (live_regions vm)" "cloned_vm vm1 = cloned_vm vm" "unat ?a + unat len < 2 ^ 32"
    using do_mmap_maps [where alloc = alloc and prot = prot, OF assms(1-7,9-11)] by blast
  let ?r = "vma_region ?a (?a + len) fl (Some b)" and ?m' = "set_vm v vm1 ?m1"
  have "\<not> cloned_vm vm" using get_linked_vm_owner [OF assms(1)] assms(2) by auto
  then have linked: "get_linked_vm (vms ?m') native LINKAGE_HINT_VM = Some v"
    using get_linked_vm_stays [OF assms(1), of vm1] mm(5) by (simp add: set_vm_def)
  have "0 < unat len" using assms(6) by (simp add: unat_gt_0)
  then have "in_region ?a ?r" using mm(6) by (simp add: in_region_def word_less_nat_alt unat_word_ariths)
  then obtain vm2 where um: "do_munmap ?m' native ?a len = Some (0, (set_vm v vm2 ?m')\<lparr>hmem := (hmem ?m')(b := None)\<rparr>)" "vm_wf vm2"
    "set (live_regions vm2) = set (live_regions vm1) - {?r}"
    using do_munmap_unmaps [OF linked, of vm1 ?r ?a len b] mm(2,3) by (auto simp: set_vm_def)
  let ?m2 = "(set_vm v vm2 ?m')\<lparr>hmem := (hmem ?m')(b := None)\<rparr>"
  have h: "hmem ?m2 = hmem m" using assms(8) by (simp add: set_vm_def fun_eq_iff)
  have live: "set (live_regions vm2) = set (live_regions vm)" using um(3) mm(3,4) by auto
  show ?thesis
    using mm(1) um(1,2) h live guest_byte_cong [OF assms(3) um(2) live h] by (auto simp: set_vm_def)
qed

end
