(* ===== verification/File_Table.thy ===== *)
theory File_Table
  imports Task_Wait Path_Name Address_Space
begin

text \<open>
  File descriptors of a process and the paths of files: \<open>sandbox/vfs.c\<close> on the fields \<open>files\<close>,
  \<open>root\<close> and \<open>cwd\<close> of \<open>struct virtual_machine\<close>. The state of all processes is the record \<open>procs\<close>,
  in which the hart, the files and the directories of a process are found under its address.
  The system calls of the host are a parameter: a record of functions on an abstract host
  state, each of which returns the result of the call and the new state, and the bytes that it
  stores through a pointer, if it has one; \<open>errno\<close> is read from that state. \<open>None\<close> is a failed \<open>ASSERT\<close>, or an access
  behind an array, which C leaves undefined.
\<close>

definition MAX_FILES_NR :: nat where "MAX_FILES_NR = 128"
definition AT_FDCWD :: u32 where "AT_FDCWD = - 100"
definition F_DUPFD :: u32 where "F_DUPFD = 0"
definition F_GETFD :: u32 where "F_GETFD = 1"
definition F_SETFD :: u32 where "F_SETFD = 2"
definition F_GETFL :: u32 where "F_GETFL = 3"
definition F_DUPFD_CLOEXEC :: u32 where "F_DUPFD_CLOEXEC = 1030"

datatype FILE_TYPE = FILE_TYPE_ERROR | FILE_TYPE_REGULAR | FILE_TYPE_SOCKET

record file_desc =
  fd_of :: u32
  host_fd :: u32
  valid :: bool
  host_cpath :: "string option"
  cb_flags :: u32
  cb_mode :: u32
  cb_file_type :: FILE_TYPE

definition cleared_file :: file_desc where
  "cleared_file = \<lparr>fd_of = 0, host_fd = 0, valid = False, host_cpath = None, cb_flags = 0, cb_mode = 0,
     cb_file_type = FILE_TYPE_ERROR\<rparr>"

record 'os procs = world +
  files :: "vmptr \<Rightarrow> file_desc list"
  fs_root :: "vmptr \<Rightarrow> string"
  fs_cwd :: "vmptr \<Rightarrow> string"
  harts :: "vmptr \<Rightarrow> hart"
  set_child_tid :: "vmptr \<Rightarrow> u32"
  gpid_counter :: u32
  os_state :: 'os

record 'os host_calls =
  os_errno :: "'os \<Rightarrow> u32"
  os_open :: "string \<Rightarrow> u32 \<Rightarrow> u32 \<Rightarrow> 'os \<Rightarrow> u32 \<times> 'os"
  os_close :: "u32 \<Rightarrow> 'os \<Rightarrow> u32 \<times> 'os"
  os_dup :: "u32 \<Rightarrow> 'os \<Rightarrow> u32 \<times> 'os"
  os_fcntl :: "u32 \<Rightarrow> u32 \<Rightarrow> u32 \<Rightarrow> 'os \<Rightarrow> u32 \<times> 'os"
  os_lseek :: "u32 \<Rightarrow> u64 \<Rightarrow> u32 \<Rightarrow> 'os \<Rightarrow> u32 \<times> 'os"
  os_unlinkat :: "string \<Rightarrow> u32 \<Rightarrow> 'os \<Rightarrow> u32 \<times> 'os"
  os_malloc :: "nat \<Rightarrow> 'os \<Rightarrow> bool"
  os_read :: "u32 \<Rightarrow> nat \<Rightarrow> 'os \<Rightarrow> (u32 \<times> u8 list) \<times> 'os"
  os_write :: "u32 \<Rightarrow> u8 list \<Rightarrow> 'os \<Rightarrow> u32 \<times> 'os"
  os_writev :: "u32 \<Rightarrow> u8 list list \<Rightarrow> 'os \<Rightarrow> u32 \<times> 'os"
  os_ioctl :: "u32 \<Rightarrow> u32 \<Rightarrow> u8 list option \<Rightarrow> 'os \<Rightarrow> (u32 \<times> u8 list) \<times> 'os"
  os_getdents64 :: "u32 \<Rightarrow> nat \<Rightarrow> 'os \<Rightarrow> (u32 \<times> u8 list) \<times> 'os"
  os_sendfile :: "u32 \<Rightarrow> u32 \<Rightarrow> u8 list option \<Rightarrow> nat \<Rightarrow> 'os \<Rightarrow> (u32 \<times> u8 list) \<times> 'os"
  os_statx :: "string \<Rightarrow> u32 \<Rightarrow> u32 \<Rightarrow> 'os \<Rightarrow> (u32 \<times> u8 list) \<times> 'os"
  os_readlinkat :: "string \<Rightarrow> nat \<Rightarrow> 'os \<Rightarrow> (u32 \<times> u8 list) \<times> 'os"

text \<open>The result of a handler: the value of the call and the state, or the end of the process.\<close>

type_synonym 'w handler_result = "(u32 \<times> 'w) option"

definition ERRNO :: "'os host_calls \<Rightarrow> u32 \<Rightarrow> 'os \<Rightarrow> u32" where
  "ERRNO hc rc os = (if sint rc < 0 then - os_errno hc os else rc)"

definition upd_file :: "vmptr \<Rightarrow> nat \<Rightarrow> file_desc \<Rightarrow> 'os procs \<Rightarrow> 'os procs" where
  "upd_file v i f w = w\<lparr>files := (files w)(v := (files w v)[i := f])\<rparr>"

definition owner_vm :: "'os procs \<Rightarrow> vmptr \<Rightarrow> linkage_hint \<Rightarrow> vmptr option" where
  "owner_vm w v hint = get_linked_vm (vms (world_machine w)) v hint"

subsection \<open>The table\<close>

fun free_slot :: "file_desc list \<Rightarrow> nat \<Rightarrow> nat \<Rightarrow> nat option" where
  "free_slot fs idx 0 = None"
| "free_slot fs idx (Suc k) = (if \<not> valid (fs ! idx) then Some idx else free_slot fs (Suc idx) k)"

definition allocate_file_descriptor :: "'os procs \<Rightarrow> vmptr \<Rightarrow> nat option \<times> 'os procs" where
  "allocate_file_descriptor w v =
     (case free_slot (files w v) 0 MAX_FILES_NR of None \<Rightarrow> (None, w)
      | Some idx \<Rightarrow> (Some idx, upd_file v idx (cleared_file\<lparr>fd_of := of_nat idx, valid := True\<rparr>) w))"

definition deallocate_file_descriptor :: "'os procs \<Rightarrow> vmptr \<Rightarrow> nat \<Rightarrow> 'os procs option" where
  "deallocate_file_descriptor w v i =
     ASSERT (valid (files w v ! i)) (Some (upd_file v i cleared_file w))"

text \<open>The check \<open>fd > MAX_FILES_NR || !files[fd].valid\<close>: the index 128 passes the first test.\<close>

definition fd_valid :: "file_desc list \<Rightarrow> u32 \<Rightarrow> bool option" where
  "fd_valid fs fd =
     (if unat fd > MAX_FILES_NR then Some False
      else if unat fd < length fs then Some (valid (fs ! unat fd)) else None)"

subsection \<open>Paths on the host\<close>

definition is_relative_path :: "string \<Rightarrow> bool" where
  "is_relative_path path = (char_at (dropWhile (\<lambda>c. c = CHR '' '') path) 0 \<noteq> slash)"

text \<open>Root, directory and path are joined in a buffer of \<open>MAX_PATH\<close> characters without a check.\<close>

definition compose_path :: "string \<Rightarrow> string \<Rightarrow> string \<Rightarrow> string option" where
  "compose_path root dir guest_cpath =
     (if length root + length dir + length guest_cpath < MAX_PATH
      then Some (canonicalize_path_name (root @ dir @ guest_cpath)) else None)"

definition host_path_of :: "string \<Rightarrow> string \<Rightarrow> u32 \<Rightarrow> string \<Rightarrow> string option" where
  "host_path_of root cwd dirfd path =
     compose_path root (if is_relative_path path \<and> dirfd = AT_FDCWD then cwd else []) (canonicalize_path_name path)"

subsection \<open>Opening and closing\<close>

definition do_openat :: "'os host_calls \<Rightarrow> 'os procs \<Rightarrow> vmptr \<Rightarrow> u32 \<Rightarrow> string \<Rightarrow> u32 \<Rightarrow> u32 \<Rightarrow> 'os procs handler_result" where
  "do_openat hc w v dirfd guest_path flags mode =
     Option.bind (owner_vm w v LINKAGE_HINT_FS) (\<lambda>vm_fs.
     Option.bind (owner_vm w v LINKAGE_HINT_FILES) (\<lambda>vm_files.
     ASSERT (\<not> is_relative_path guest_path \<or> dirfd = AT_FDCWD)
     (Option.bind (host_path_of (fs_root w vm_fs) (fs_cwd w vm_fs) dirfd guest_path) (\<lambda>host_cpath.
      case allocate_file_descriptor w vm_files of
        (None, w1) \<Rightarrow> Some (- ENOMEM, w1)
      | (Some i, w1) \<Rightarrow>
          let (hfd, os) = os_open hc host_cpath flags mode (os_state w1); w2 = w1\<lparr>os_state := os\<rparr> in
          if sint hfd < 0
          then map_option (\<lambda>w3. (ERRNO hc hfd os, w3)) (deallocate_file_descriptor w2 vm_files i)
          else let f = (files w2 vm_files ! i)\<lparr>host_fd := hfd, host_cpath := Some host_cpath,
                         cb_file_type := FILE_TYPE_REGULAR, cb_mode := mode, cb_flags := flags\<rparr>
               in Some (fd_of f, upd_file vm_files i f w2)))))"

definition do_close :: "'os host_calls \<Rightarrow> 'os procs \<Rightarrow> vmptr \<Rightarrow> u32 \<Rightarrow> 'os procs handler_result" where
  "do_close hc w v fd =
     Option.bind (owner_vm w v LINKAGE_HINT_FILES) (\<lambda>vm.
     Option.bind (fd_valid (files w vm) fd) (\<lambda>ok.
       if \<not> ok then Some (- EBADF, w)
       else let (rc, os) = os_close hc (host_fd (files w vm ! unat fd)) (os_state w) in
         map_option (\<lambda>w1. (ERRNO hc rc os, w1)) (deallocate_file_descriptor (w\<lparr>os_state := os\<rparr>) vm (unat fd))))"

definition do_unlinkat :: "'os host_calls \<Rightarrow> 'os procs \<Rightarrow> vmptr \<Rightarrow> u32 \<Rightarrow> string \<Rightarrow> u32 \<Rightarrow> 'os procs handler_result" where
  "do_unlinkat hc w v dirfd pathname flags =
     Option.bind (owner_vm w v LINKAGE_HINT_FS) (\<lambda>vm_fs.
     Option.bind (host_path_of (fs_root w vm_fs) (fs_cwd w vm_fs) dirfd pathname) (\<lambda>host_cpath.
       let (rc, os) = os_unlinkat hc host_cpath flags (os_state w) in Some (ERRNO hc rc os, w\<lparr>os_state := os\<rparr>)))"

definition do_lseek :: "'os host_calls \<Rightarrow> 'os procs \<Rightarrow> vmptr \<Rightarrow> u32 \<Rightarrow> u32 \<Rightarrow> u32 \<Rightarrow> 'os procs handler_result" where
  "do_lseek hc w v fd offset whence =
     Option.bind (owner_vm w v LINKAGE_HINT_FILES) (\<lambda>vm.
     Option.bind (fd_valid (files w vm) fd) (\<lambda>ok.
       if \<not> ok then Some (- EBADF, w)
       else let (rc, os) = os_lseek hc (host_fd (files w vm ! unat fd)) (ucast offset) whence (os_state w)
         in Some (ERRNO hc rc os, w\<lparr>os_state := os\<rparr>)))"

subsection \<open>Duplicating\<close>

text \<open>
  \<open>fcntl\<close> without an argument passes 0 here, which the host does not read.

  The part that \<open>dup\<close>, \<open>dup3\<close> and \<open>fcntl\<close> share: the type and the mode of a file are copied only
  if it has a path.
\<close>

definition duplicate_blob :: "file_desc \<Rightarrow> file_desc \<Rightarrow> file_desc" where
  "duplicate_blob src dst =
     (case host_cpath src of None \<Rightarrow> dst
      | Some p \<Rightarrow> dst\<lparr>host_cpath := Some p, cb_file_type := cb_file_type src, cb_flags := cb_flags src, cb_mode := cb_mode src\<rparr>)"

definition do_fcntl_duplicate_fd :: "'os host_calls \<Rightarrow> 'os procs \<Rightarrow> vmptr \<Rightarrow> u32 \<Rightarrow> u32 \<Rightarrow> u32 \<Rightarrow> 'os procs handler_result" where
  "do_fcntl_duplicate_fd hc w v fd cmd opaque =
     Option.bind (owner_vm w v LINKAGE_HINT_FILES) (\<lambda>vm.
     Option.bind (fd_valid (files w vm) fd) (\<lambda>ok.
       if \<not> ok then Some (- EBADF, w)
       else case allocate_file_descriptor w vm of
         (None, w1) \<Rightarrow> Some (- ENOMEM, w1)
       | (Some i, w1) \<Rightarrow>
           let (hfd, os) = os_fcntl hc (host_fd (files w1 vm ! unat fd)) cmd opaque (os_state w1); w2 = w1\<lparr>os_state := os\<rparr> in
           if sint hfd < 0
           then map_option (\<lambda>w3. (ERRNO hc hfd os, w3)) (deallocate_file_descriptor w2 vm i)
           else let f = duplicate_blob (files w2 vm ! unat fd) ((files w2 vm ! i)\<lparr>host_fd := hfd\<rparr>)
                in Some (fd_of f, upd_file vm i f w2)))"

definition fcntl_on_fd :: "'os host_calls \<Rightarrow> 'os procs \<Rightarrow> vmptr \<Rightarrow> u32 \<Rightarrow> u32 \<Rightarrow> u32 \<Rightarrow> 'os procs handler_result" where
  "fcntl_on_fd hc w v fd cmd opaque =
     Option.bind (owner_vm w v LINKAGE_HINT_FILES) (\<lambda>vm.
     Option.bind (fd_valid (files w vm) fd) (\<lambda>ok.
       if \<not> ok then Some (- EBADF, w)
       else let (rc, os) = os_fcntl hc (host_fd (files w vm ! unat fd)) cmd opaque (os_state w)
         in Some (ERRNO hc rc os, w\<lparr>os_state := os\<rparr>)))"

definition do_fcntl_getfd :: "'os host_calls \<Rightarrow> 'os procs \<Rightarrow> vmptr \<Rightarrow> u32 \<Rightarrow> 'os procs handler_result" where
  "do_fcntl_getfd hc w v fd = fcntl_on_fd hc w v fd F_GETFD 0"

definition do_fcntl_getfl :: "'os host_calls \<Rightarrow> 'os procs \<Rightarrow> vmptr \<Rightarrow> u32 \<Rightarrow> 'os procs handler_result" where
  "do_fcntl_getfl hc w v fd = fcntl_on_fd hc w v fd F_GETFL 0"

definition do_fcntl_setfd :: "'os host_calls \<Rightarrow> 'os procs \<Rightarrow> vmptr \<Rightarrow> u32 \<Rightarrow> u32 \<Rightarrow> 'os procs handler_result" where
  "do_fcntl_setfd hc w v fd opaque = fcntl_on_fd hc w v fd F_SETFD opaque"

definition call_fnctl :: "'os host_calls \<Rightarrow> 'os procs \<Rightarrow> vmptr \<Rightarrow> u32 \<Rightarrow> u32 \<Rightarrow> u32 \<Rightarrow> 'os procs handler_result" where
  "call_fnctl hc w v fd cmd opaque =
     (if cmd = F_DUPFD \<or> cmd = F_DUPFD_CLOEXEC then do_fcntl_duplicate_fd hc w v fd cmd opaque
      else if cmd = F_GETFD then do_fcntl_getfd hc w v fd
      else if cmd = F_GETFL then do_fcntl_getfl hc w v fd
      else if cmd = F_SETFD then do_fcntl_setfd hc w v fd opaque
      else Some (- ENOSYS, w))"

definition call_dup :: "'os host_calls \<Rightarrow> 'os procs \<Rightarrow> vmptr \<Rightarrow> u32 \<Rightarrow> 'os procs handler_result" where
  "call_dup hc w v fd =
     Option.bind (owner_vm w v LINKAGE_HINT_FILES) (\<lambda>vm.
     Option.bind (fd_valid (files w vm) fd) (\<lambda>ok.
       if \<not> ok then Some (- EBADF, w)
       else case allocate_file_descriptor w vm of
         (None, w1) \<Rightarrow> Some (- ENOMEM, w1)
       | (Some i, w1) \<Rightarrow>
           let (hfd, os) = os_dup hc (host_fd (files w1 vm ! unat fd)) (os_state w1); w2 = w1\<lparr>os_state := os\<rparr>;
               f = duplicate_blob (files w2 vm ! unat fd) ((files w2 vm ! i)\<lparr>host_fd := hfd\<rparr>)
           in Some (fd_of f, upd_file vm i f w2)))"

definition call_dup3 :: "'os host_calls \<Rightarrow> 'os procs \<Rightarrow> vmptr \<Rightarrow> u32 \<Rightarrow> u32 \<Rightarrow> 'os procs handler_result" where
  "call_dup3 hc w v old_fd new_fd =
     Option.bind (owner_vm w v LINKAGE_HINT_FILES) (\<lambda>vm.
     Option.bind (fd_valid (files w vm) old_fd) (\<lambda>ok.
       if \<not> ok then Some (- EBADF, w)
       else if unat new_fd > MAX_FILES_NR then Some (- EBADF, w)
       else if new_fd = old_fd then Some (0, w)
       else Option.bind (fd_valid (files w vm) new_fd) (\<lambda>used.
         Option.bind (if used then map_option snd (do_close hc w v new_fd) else Some w) (\<lambda>w1.
           let (hfd, os) = os_dup hc (host_fd (files w1 vm ! unat old_fd)) (os_state w1); w2 = w1\<lparr>os_state := os\<rparr>;
               f = duplicate_blob (files w2 vm ! unat old_fd)
                     ((files w2 vm ! unat new_fd)\<lparr>valid := True, fd_of := new_fd, host_fd := hfd\<rparr>)
           in Some (new_fd, upd_file vm (unat new_fd) f w2)))))"

subsection \<open>The invariant of the table\<close>

definition files_ok :: "file_desc list \<Rightarrow> bool" where
  "files_ok fs \<longleftrightarrow> length fs = MAX_FILES_NR \<and> (\<forall>i<MAX_FILES_NR. valid (fs ! i) \<longrightarrow> fd_of (fs ! i) = of_nat i)"

lemma free_slot_Some:
  "free_slot fs idx k = Some i \<Longrightarrow> idx \<le> i \<and> i < idx + k \<and> \<not> valid (fs ! i) \<and> (\<forall>j. idx \<le> j \<and> j < i \<longrightarrow> valid (fs ! j))"
proof (induction k arbitrary: idx)
  case (Suc k)
  show ?case
  proof (cases "valid (fs ! idx)")
    case True
    have "Suc idx \<le> i \<and> i < Suc idx + k \<and> \<not> valid (fs ! i) \<and> (\<forall>j. Suc idx \<le> j \<and> j < i \<longrightarrow> valid (fs ! j))"
      using Suc.IH [of "Suc idx"] Suc.prems True by simp
    moreover have "valid (fs ! j)" if "idx \<le> j" "j < i" for j
      using calculation that True by (cases "j = idx") auto
    ultimately show ?thesis by simp
  qed (use Suc.prems in auto)
qed simp

lemma free_slot_None: "free_slot fs idx k = None \<Longrightarrow> idx \<le> j \<Longrightarrow> j < idx + k \<Longrightarrow> valid (fs ! j)"
proof (induction k arbitrary: idx)
  case (Suc k)
  then show ?case by (cases "j = idx") (auto split: if_splits)
qed simp

lemma unat_of_nat_fd: "i < MAX_FILES_NR \<Longrightarrow> unat (of_nat i :: u32) = i"
  by (simp add: MAX_FILES_NR_def unat_of_nat)

lemma files_ok_update:
  "files_ok fs \<Longrightarrow> (valid f \<longrightarrow> fd_of f = of_nat i) \<Longrightarrow> files_ok (fs[i := f])"
  unfolding files_ok_def
  by (metis length_list_update nth_list_update_eq nth_list_update_neq)

lemma fd_valid_ok: "files_ok fs \<Longrightarrow> i < MAX_FILES_NR \<Longrightarrow> fd_valid fs (of_nat i) = Some (valid (fs ! i))"
  by (simp add: fd_valid_def unat_of_nat_fd files_ok_def)

lemma files_upd_file [simp]:
  "files (upd_file v i f w) = (files w)(v := (files w v)[i := f])" "os_state (upd_file v i f w) = os_state w"
  "world_machine (upd_file v i f w) = world_machine w" "owner_vm (upd_file v i f w) = owner_vm w"
  "owner_vm (w\<lparr>os_state := os\<rparr>) = owner_vm w"
  by (simp_all add: upd_file_def owner_vm_def fun_eq_iff)

subsection \<open>Paths stay below the root\<close>

definition cwd_ok :: "string \<Rightarrow> bool" where
  "cwd_ok cwd \<longleftrightarrow> (\<exists>cs. list_all quiet cs \<and> cwd = path_of cs @ [slash])"

lemma canonicalize_below:
  assumes "list_all proper rcs" "rcs \<noteq> []" "list_all quiet qs" "length (path_of (rcs @ qs)) < MAX_PATH"
  shows "canonicalize_path_name (path_of (rcs @ qs)) = path_of (rcs @ names qs)"
proof -
  obtain r rs where r: "rcs = r # rs" using assms(2) by (cases rcs) auto
  have "list_all plain (rcs @ qs)" using quiet_plain [OF quiet_proper [OF assms(1)]] quiet_plain [OF assms(3)] by simp
  then have "canonicalize_path_name (path_of (rcs @ qs)) = path_of (normal_comps (rcs @ qs) [])"
    using canonicalize_absolute [of r "rs @ qs"] assms(4) by (simp add: r)
  also have "normal_comps (rcs @ qs) [] = rcs @ names qs"
    using normal_append_proper [OF assms(1), of qs "[]"] normal_quiet [OF assms(3), of rcs] assms(2) by simp
  finally show ?thesis .
qed

lemma absolute_path: "\<not> is_relative_path (slash # p)"
  by (simp add: is_relative_path_def char_at_def)

text \<open>Absolute paths: the components of the path, normalized, behind those of the root.\<close>

lemma host_path_absolute:
  assumes "list_all proper rcs" "rcs \<noteq> []" "list_all plain (c # cs)"
    and "Suc (length (path_of rcs) + length (path_of (c # cs))) < MAX_PATH"
  shows "host_path_of (path_of rcs) cwd dirfd (path_of (c # cs)) = Some (path_of (rcs @ names (normal_comps (c # cs) [])))"
proof -
  let ?ns = "normal_comps (c # cs) []"
  have "length (path_of ?ns) \<le> Suc (length (path_of (c # cs)))"
    using length_path_normal [of "c # cs" "[]"] by simp
  with assms(4) have len: "length (path_of (rcs @ ?ns)) < MAX_PATH" by simp
  have "canonicalize_path_name (path_of (c # cs)) = path_of ?ns"
    using canonicalize_absolute [OF assms(3)] assms(4) by simp
  moreover note canonicalize_below [OF assms(1,2) normal_comps_quiet [OF assms(3)] len] absolute_path [of "c @ path_of cs"]
  ultimately show ?thesis using len by (simp add: host_path_of_def compose_path_def)
qed

text \<open>Without a root an absolute path of the guest is a path of the host.\<close>

lemma host_path_no_root:
  assumes "list_all proper cs" "cs \<noteq> []" "length (path_of cs) < MAX_PATH"
  shows "host_path_of [] cwd dirfd (path_of cs) = Some (path_of cs)"
proof -
  obtain d ds where d: "cs = d # ds" using assms(2) by (cases cs) auto
  have "canonicalize_path_name (path_of cs) = path_of cs" using canonicalize_below [OF assms(1,2), of "[]"] assms(3) by (simp add: names_def)
  with assms(3) absolute_path [of "d @ path_of ds"] show ?thesis by (simp add: host_path_of_def compose_path_def d)
qed

text \<open>
  Paths that do not lead out of the root: absolute ones, with one blank in front of the slash at
  most, and those relative to the working directory.
\<close>

definition host_checked :: "u32 \<Rightarrow> string \<Rightarrow> bool" where
  "host_checked dirfd p \<longleftrightarrow> (if is_relative_path p then dirfd = AT_FDCWD else char_at p 0 = slash \<or> char_at p 1 = slash)"

lemma blank_first:
  assumes "\<not> is_relative_path p" "char_at p 0 \<noteq> slash"
  shows "\<exists>t. p = CHR '' '' # t"
  using assms by (cases p) (auto simp: is_relative_path_def char_at_def split: if_splits)

lemma host_path_confined:
  assumes "list_all proper rcs" "rcs \<noteq> []" "cwd_ok cwd" "NUL \<notin> set p"
    and "Suc (length (path_of rcs) + length cwd + length p) < MAX_PATH" "host_checked dirfd p"
  shows "\<exists>qs. list_all proper qs \<and> host_path_of (path_of rcs) cwd dirfd p = Some (path_of (rcs @ qs))"
proof (cases "is_relative_path p")
  case False
  have "\<exists>c cs. list_all plain (c # cs) \<and> length (path_of (c # cs)) \<le> length p \<and> canonicalize_path_name p = canonicalize_path_name (path_of (c # cs))"
  proof (cases "char_at p 0 = slash")
    case True
    then obtain t where t: "p = slash # t" by (cases p) (auto simp: char_at_def)
    then obtain c cs where c: "t = c @ path_of cs" "list_all plain (c # cs)" using split_path [of t] assms(4) by auto
    then show ?thesis by (intro exI [of _ c] exI [of _ cs]) (simp add: t)
  next
    case nb: False
    then obtain t where "p = CHR '' '' # t" using blank_first [OF False] by blast
    moreover have "char_at p 1 = slash" using assms(6) False nb by (simp add: host_checked_def)
    ultimately obtain u where t: "p = CHR '' '' # slash # u" by (cases t) (auto simp: char_at_def)
    then obtain c cs where c: "u = c @ path_of cs" "list_all plain (c # cs)" using split_path [of u] assms(4) by auto
    have "length (path_of ([] # c # cs)) < MAX_PATH" using assms(5) by (simp add: t c(1))
    then have "canonicalize_path_name (CHR '' '' # [] @ path_of (c # cs)) = path_of (normal_comps (c # cs) [])"
      by (intro canonicalize_dropped c(2)) simp_all
    moreover have "canonicalize_path_name (path_of (c # cs)) = path_of (normal_comps (c # cs) [])"
      using assms(5) by (intro canonicalize_absolute c(2)) (simp add: t c(1))
    ultimately have "canonicalize_path_name p = canonicalize_path_name (path_of (c # cs))" by (simp add: t c(1))
    with c(2) show ?thesis by (intro exI [of _ c] exI [of _ cs]) (simp add: t c(1))
  qed
  then obtain c cs where c: "list_all plain (c # cs)" "length (path_of (c # cs)) \<le> length p"
    "canonicalize_path_name p = canonicalize_path_name (path_of (c # cs))" by blast
  have "list_all proper (names (normal_comps (c # cs) []))"
    using names_proper [OF normal_comps_quiet [OF c(1)]] .
  moreover have "host_path_of (path_of rcs) cwd dirfd p = host_path_of (path_of rcs) cwd dirfd (path_of (c # cs))"
    using False absolute_path [of "c @ path_of cs"] c(3) by (simp add: host_path_of_def)
  ultimately show ?thesis using host_path_absolute [OF assms(1,2) c(1), of cwd dirfd] assms(5) c(2) by auto
next
  case True
  then have AT: "dirfd = AT_FDCWD" using assms(6) by (simp add: host_checked_def)
  obtain ccs where cwd: "list_all quiet ccs" "cwd = path_of ccs @ [slash]" using assms(3) by (auto simp: cwd_ok_def)
  have "length p < MAX_PATH" using assms(5) by simp
  then obtain qs where qs: "list_all quiet qs" "slash # canonicalize_path_name p = path_of qs"
    "length (canonicalize_path_name p) \<le> Suc (length p)"
    using canonicalize_adds_quiet [OF assms(4)] by blast
  have join: "path_of rcs @ cwd @ canonicalize_path_name p = path_of (rcs @ ccs @ qs)" by (simp add: cwd(2) flip: qs(2))
  have len: "length (path_of rcs) + length cwd + length (canonicalize_path_name p) < MAX_PATH" using assms(5) qs(3) by simp
  then have "length (path_of (rcs @ ccs @ qs)) < MAX_PATH" unfolding join [symmetric] by simp
  then have "canonicalize_path_name (path_of (rcs @ ccs @ qs)) = path_of (rcs @ names (ccs @ qs))"
    using canonicalize_below [OF assms(1,2), of "ccs @ qs"] cwd(1) qs(1) by simp
  moreover have "list_all proper (names (ccs @ qs))" using names_proper [of "ccs @ qs"] cwd(1) qs(1) by simp
  ultimately show ?thesis using AT True len by (auto simp: host_path_of_def compose_path_def join)
qed

text \<open>
  Paths that do: without a working directory in front of it, a name that does not begin with a
  slash is glued to the last component of the root.
\<close>

lemma host_path_glued:
  assumes "list_all proper (rcs @ [r])" "list_all proper (c # cs)" "plain [x]"
    and "length (path_of (rcs @ [r])) + Suc (length c + length (path_of cs)) < MAX_PATH"
    and "is_relative_path (x # c @ path_of cs) \<Longrightarrow> dirfd \<noteq> AT_FDCWD"
  shows "host_path_of (path_of (rcs @ [r])) cwd dirfd (x # c @ path_of cs) = Some (path_of (rcs @ (r @ x # c) # cs))"
proof -
  have "canonicalize_path_name (x # c @ path_of cs) = x # c @ path_of cs"
    using assms(2-4) by (intro canonicalize_kept) (auto simp: plain_def)
  moreover have "proper (r @ x # c)" using assms(1-3) by (auto simp: proper_def plain_def Cons_eq_append_conv append_eq_Cons_conv)
  then have "list_all proper (rcs @ (r @ x # c) # cs)" using assms(1,2) by simp
  then have "canonicalize_path_name (path_of (rcs @ (r @ x # c) # cs)) = path_of (rcs @ (r @ x # c) # cs)"
    using canonicalize_below [of "rcs @ (r @ x # c) # cs" "[]"] assms(4) by (simp add: names_def)
  ultimately show ?thesis using assms(4,5) by (auto simp: host_path_of_def compose_path_def)
qed

text \<open>The working directory is put in front of a path whose first component was dropped.\<close>

lemma host_path_dropped:
  assumes "list_all proper (rcs @ ds @ cs)" "rcs \<noteq> []" "x \<noteq> NUL" "c = [] \<and> cs \<noteq> [] \<or> c = [dot]"
    and "length (path_of (rcs @ ds @ cs)) + 2 < MAX_PATH" "is_relative_path (x # c @ path_of cs)"
  shows "host_path_of (path_of rcs) (path_of ds @ [slash]) AT_FDCWD (x # c @ path_of cs) = Some (path_of (rcs @ ds @ cs))"
proof -
  have p: "list_all proper rcs" "list_all proper ds" "list_all proper cs" using assms(1) by simp_all
  have "length (path_of (c # cs)) < MAX_PATH" using assms(4,5) by auto
  then have "canonicalize_path_name (x # c @ path_of cs) = path_of cs"
    using canonicalize_dropped [OF quiet_plain [OF quiet_proper [OF p(3)]] _ assms(3,4)] normal_all_proper [OF p(3), of "[]"] by simp
  moreover have "path_of rcs @ (path_of ds @ [slash]) @ path_of cs = path_of (rcs @ ds @ [] # cs)" by simp
  moreover have "names (ds @ [] # cs) = ds @ cs" using p(2,3) by (auto simp: names_def list_all_iff proper_def intro!: filter_True)
  moreover have "list_all quiet (ds @ [] # cs)" using quiet_proper [OF p(2)] quiet_proper [OF p(3)] by (simp add: quiet_def plain_def)
  ultimately show ?thesis
    using canonicalize_below [OF p(1) assms(2), of "ds @ [] # cs"] assms(5,6) by (simp add: host_path_of_def compose_path_def)
qed

subsection \<open>Opening, closing and duplicating\<close>

lemma do_openat_opens:
  assumes "owner_vm w v LINKAGE_HINT_FS = Some vm_fs" "owner_vm w v LINKAGE_HINT_FILES = Some vm" "files_ok (files w vm)"
    and "\<not> is_relative_path path \<or> dirfd = AT_FDCWD"
    and "host_path_of (fs_root w vm_fs) (fs_cwd w vm_fs) dirfd path = Some hp"
    and "free_slot (files w vm) 0 MAX_FILES_NR = Some i" "os_open hc hp flags mode (os_state w) = (hfd, os)"
  shows "do_openat hc w v dirfd path flags mode =
    (if sint hfd < 0 then Some (- os_errno hc os, w\<lparr>os_state := os, files := (files w)(vm := (files w vm)[i := cleared_file])\<rparr>)
     else Some (of_nat i, w\<lparr>os_state := os, files := (files w)(vm := (files w vm)[i :=
       \<lparr>fd_of = of_nat i, host_fd = hfd, valid = True, host_cpath = Some hp, cb_flags = flags, cb_mode = mode,
        cb_file_type = FILE_TYPE_REGULAR\<rparr>])\<rparr>))"
proof -
  have "i < length (files w vm)" using free_slot_Some [OF assms(6)] assms(3) by (auto simp: files_ok_def)
  with assms show ?thesis
    by (auto simp: do_openat_def allocate_file_descriptor_def deallocate_file_descriptor_def upd_file_def
        ERRNO_def cleared_file_def Let_def)
qed

text \<open>What \<open>openat\<close> does once the path on the host is known.\<close>

definition openat_spec :: "'os host_calls \<Rightarrow> 'os procs \<Rightarrow> vmptr \<Rightarrow> string \<Rightarrow> u32 \<Rightarrow> u32 \<Rightarrow> u32 \<times> 'os procs" where
  "openat_spec hc w vm hp flags mode =
     (case free_slot (files w vm) 0 MAX_FILES_NR of None \<Rightarrow> (- ENOMEM, w)
      | Some i \<Rightarrow>
          let (hfd, os) = os_open hc hp flags mode (os_state w) in
          if sint hfd < 0 then (- os_errno hc os, w\<lparr>os_state := os, files := (files w)(vm := (files w vm)[i := cleared_file])\<rparr>)
          else (of_nat i, w\<lparr>os_state := os, files := (files w)(vm := (files w vm)[i :=
            \<lparr>fd_of = of_nat i, host_fd = hfd, valid = True, host_cpath = Some hp, cb_flags = flags, cb_mode = mode,
             cb_file_type = FILE_TYPE_REGULAR\<rparr>])\<rparr>))"

lemma do_openat_spec:
  assumes "owner_vm w v LINKAGE_HINT_FS = Some vm_fs" "owner_vm w v LINKAGE_HINT_FILES = Some vm" "files_ok (files w vm)"
    and "\<not> is_relative_path path \<or> dirfd = AT_FDCWD" "host_path_of (fs_root w vm_fs) (fs_cwd w vm_fs) dirfd path = Some hp"
  shows "do_openat hc w v dirfd path flags mode = Some (openat_spec hc w vm hp flags mode)"
proof (cases "free_slot (files w vm) 0 MAX_FILES_NR")
  case None
  with assms show ?thesis by (auto simp: do_openat_def openat_spec_def allocate_file_descriptor_def)
next
  case (Some i)
  obtain hfd os where "os_open hc hp flags mode (os_state w) = (hfd, os)" by fastforce
  with do_openat_opens [OF assms Some] Some show ?thesis by (simp add: openat_spec_def)
qed

text \<open>With a canonical root and a working directory that \<open>chdir\<close> could set, the host path is below the root.\<close>

lemma do_openat_confined:
  assumes "owner_vm w v LINKAGE_HINT_FS = Some vm_fs" "owner_vm w v LINKAGE_HINT_FILES = Some vm" "files_ok (files w vm)"
    and "fs_root w vm_fs = path_of rcs" "list_all proper rcs" "rcs \<noteq> []" "cwd_ok (fs_cwd w vm_fs)"
    and "NUL \<notin> set path" "Suc (length (path_of rcs) + length (fs_cwd w vm_fs) + length path) < MAX_PATH"
    and "host_checked dirfd path"
  shows "\<exists>qs. list_all proper qs \<and> do_openat hc w v dirfd path flags mode = Some (openat_spec hc w vm (path_of (rcs @ qs)) flags mode)"
proof -
  obtain qs where qs: "list_all proper qs" "host_path_of (path_of rcs) (fs_cwd w vm_fs) dirfd path = Some (path_of (rcs @ qs))"
    using host_path_confined [OF assms(5-10)] by blast
  have "\<not> is_relative_path path \<or> dirfd = AT_FDCWD"
    using assms(10) by (simp add: host_checked_def split: if_splits)
  from do_openat_spec [OF assms(1-3) this qs(2) [folded assms(4)]] qs(1) show ?thesis by blast
qed

lemma do_close_closes:
  assumes "owner_vm w v LINKAGE_HINT_FILES = Some vm" "files_ok (files w vm)" "i < MAX_FILES_NR" "valid (files w vm ! i)"
    and "os_close hc (host_fd (files w vm ! i)) (os_state w) = (rc, os)"
  shows "do_close hc w v (of_nat i) =
    Some (ERRNO hc rc os, w\<lparr>os_state := os, files := (files w)(vm := (files w vm)[i := cleared_file])\<rparr>)"
  using assms by (simp add: do_close_def fd_valid_ok unat_of_nat_fd deallocate_file_descriptor_def upd_file_def)

subsection \<open>Every operation keeps the table\<close>

definition fds_ok :: "'os procs \<Rightarrow> bool" where
  "fds_ok w \<longleftrightarrow> (\<forall>v. files_ok (files w v))"

lemma fds_ok_upd: "fds_ok w \<Longrightarrow> (valid f \<longrightarrow> fd_of f = of_nat i) \<Longrightarrow> fds_ok (upd_file v i f w)"
  by (simp add: fds_ok_def files_ok_update)

lemma fds_ok_os [simp]: "fds_ok (w\<lparr>os_state := os\<rparr>) = fds_ok w" "fds_ok (w\<lparr>world_machine := m\<rparr>) = fds_ok w"
  by (simp_all add: fds_ok_def)

lemma duplicate_blob_keeps [simp]:
  "valid (duplicate_blob f g) = valid g" "fd_of (duplicate_blob f g) = fd_of g" "host_fd (duplicate_blob f g) = host_fd g"
  by (simp_all add: duplicate_blob_def split: option.splits)

lemma allocate_keeps:
  assumes "fds_ok w" "allocate_file_descriptor w v = (r, w1)"
  shows "fds_ok w1" "r = Some i \<Longrightarrow> i < MAX_FILES_NR \<and> \<not> valid (files w v ! i) \<and>
    w1 = upd_file v i (cleared_file\<lparr>fd_of := of_nat i, valid := True\<rparr>) w"
proof -
  from assms show "fds_ok w1"
    by (auto simp: allocate_file_descriptor_def split: option.splits intro: fds_ok_upd)
  assume "r = Some i"
  with assms(2) free_slot_Some [of "files w v" 0 MAX_FILES_NR]
  show "i < MAX_FILES_NR \<and> \<not> valid (files w v ! i) \<and> w1 = upd_file v i (cleared_file\<lparr>fd_of := of_nat i, valid := True\<rparr>) w"
    by (auto simp: allocate_file_descriptor_def split: option.splits)
qed

lemma allocated_slot:
  assumes "fds_ok w" "allocate_file_descriptor w v = (Some i, w1)"
  shows "fd_of (files w1 v ! i) = of_nat i" "valid (files w1 v ! i)" "fds_ok w1"
  using allocate_keeps [OF assms] assms(1) by (auto simp: fds_ok_def files_ok_def)

lemma deallocate_keeps:
  "deallocate_file_descriptor (w\<lparr>os_state := os\<rparr>) v i = Some w1 \<Longrightarrow> fds_ok w \<Longrightarrow> fds_ok w1"
  by (auto simp: deallocate_file_descriptor_def cleared_file_def split: if_splits intro: fds_ok_upd)

lemma do_openat_keeps: "do_openat hc w v dirfd path flags mode = Some (r, w') \<Longrightarrow> fds_ok w \<Longrightarrow> fds_ok w'"
  by (auto simp: do_openat_def Let_def split: bind_splits if_splits prod.splits option.splits
      dest: allocate_keeps(1) allocated_slot deallocate_keeps intro!: fds_ok_upd)

lemma do_close_keeps: "do_close hc w v fd = Some (r, w') \<Longrightarrow> fds_ok w \<Longrightarrow> fds_ok w'"
  by (auto simp: do_close_def Let_def split: bind_splits if_splits prod.splits dest: deallocate_keeps)

lemma do_fcntl_duplicate_keeps: "do_fcntl_duplicate_fd hc w v fd cmd opq = Some (r, w') \<Longrightarrow> fds_ok w \<Longrightarrow> fds_ok w'"
  by (auto simp: do_fcntl_duplicate_fd_def Let_def split: bind_splits if_splits prod.splits option.splits
      dest: allocate_keeps(1) allocated_slot deallocate_keeps intro!: fds_ok_upd)

lemma call_fnctl_keeps: "call_fnctl hc w v fd cmd opq = Some (r, w') \<Longrightarrow> fds_ok w \<Longrightarrow> fds_ok w'"
  by (auto simp: call_fnctl_def do_fcntl_getfd_def do_fcntl_getfl_def do_fcntl_setfd_def fcntl_on_fd_def
      split: bind_splits if_splits prod.splits dest: do_fcntl_duplicate_keeps)

lemma call_dup_keeps: "call_dup hc w v fd = Some (r, w') \<Longrightarrow> fds_ok w \<Longrightarrow> fds_ok w'"
  by (auto simp: call_dup_def Let_def split: bind_splits if_splits prod.splits option.splits
      dest: allocate_keeps(1) allocated_slot intro!: fds_ok_upd)

lemma call_dup3_keeps: "call_dup3 hc w v old_fd new_fd = Some (r, w') \<Longrightarrow> fds_ok w \<Longrightarrow> fds_ok w'"
  by (auto simp: call_dup3_def Let_def split: bind_splits if_splits prod.splits option.splits
      dest: do_close_keeps intro!: fds_ok_upd)

text \<open>
  Every open file is regular and has a path, which \<open>fork\<close> relies on. The slot that an operation
  allocates is overwritten before the call returns.
\<close>

definition regular :: "file_desc \<Rightarrow> bool" where
  "regular f \<longleftrightarrow> cb_file_type f = FILE_TYPE_REGULAR \<and> host_cpath f \<noteq> None"

definition regs_ok :: "'os procs \<Rightarrow> bool" where
  "regs_ok w \<longleftrightarrow> (\<forall>v. \<forall>f\<in>set (files w v). valid f \<longrightarrow> regular f)"

lemma regs_ok_upd: "regs_ok w \<Longrightarrow> (valid f \<longrightarrow> regular f) \<Longrightarrow> regs_ok (upd_file v i f w)"
  by (auto simp: regs_ok_def dest!: subsetD [OF set_update_subset_insert])

lemma regs_ok_os [simp]: "regs_ok (w\<lparr>os_state := os\<rparr>) = regs_ok w" "regs_ok (w\<lparr>world_machine := m\<rparr>) = regs_ok w"
  by (simp_all add: regs_ok_def)

lemma upd_file_twice: "upd_file v i f ((upd_file v i g w)\<lparr>os_state := os\<rparr>) = (upd_file v i f w)\<lparr>os_state := os\<rparr>"
  by (simp add: upd_file_def)

lemma allocate_reverts:
  assumes "allocate_file_descriptor w v = (Some i, w1)"
  shows "upd_file v i f (w1\<lparr>os_state := os\<rparr>) = (upd_file v i f w)\<lparr>os_state := os\<rparr>" "regs_ok w \<Longrightarrow> valid f \<longrightarrow> regular f \<Longrightarrow> regs_ok (upd_file v i f (w1\<lparr>os_state := os\<rparr>))"
proof -
  show 1: "upd_file v i f (w1\<lparr>os_state := os\<rparr>) = (upd_file v i f w)\<lparr>os_state := os\<rparr>"
    using assms by (auto simp: allocate_file_descriptor_def upd_file_twice split: option.splits)
  show "regs_ok (upd_file v i f (w1\<lparr>os_state := os\<rparr>))" if "regs_ok w" "valid f \<longrightarrow> regular f"
    unfolding 1 using that by (simp add: regs_ok_upd)
qed

lemma deallocate_regular:
  "deallocate_file_descriptor (w\<lparr>os_state := os\<rparr>) v i = Some w1 \<Longrightarrow> regs_ok w \<Longrightarrow> regs_ok w1"
  "allocate_file_descriptor w v = (Some i, w1) \<Longrightarrow> deallocate_file_descriptor (w1\<lparr>os_state := os\<rparr>) v i = Some w2 \<Longrightarrow> regs_ok w \<Longrightarrow> regs_ok w2"
  by (auto simp: deallocate_file_descriptor_def cleared_file_def split: if_splits intro: regs_ok_upd allocate_reverts(2))

lemma allocate_none: "allocate_file_descriptor w v = (None, w1) \<Longrightarrow> w1 = w"
  by (auto simp: allocate_file_descriptor_def split: option.splits)

lemma do_openat_regular: "do_openat hc w v dirfd path flags mode = Some (r, w') \<Longrightarrow> regs_ok w \<Longrightarrow> regs_ok w'"
  by (auto simp: do_openat_def Let_def regular_def split: bind_splits if_splits prod.splits option.splits
      dest: allocate_none deallocate_regular intro!: allocate_reverts(2))

lemma do_close_regular: "do_close hc w v fd = Some (r, w') \<Longrightarrow> regs_ok w \<Longrightarrow> regs_ok w'"
  by (auto simp: do_close_def Let_def split: bind_splits if_splits prod.splits dest: deallocate_regular(1))

lemma duplicate_regular: "regular f \<Longrightarrow> regular (duplicate_blob f g)"
  by (auto simp: regular_def duplicate_blob_def)

lemma regs_ok_nth: "regs_ok w \<Longrightarrow> i < length (files w v) \<Longrightarrow> valid (files w v ! i) \<Longrightarrow> regular (files w v ! i)"
  unfolding regs_ok_def using nth_mem by blast

lemma fd_valid_regular:
  "regs_ok w \<Longrightarrow> fd_valid (files w v) fd = Some True \<Longrightarrow> regular (files w v ! unat fd) \<and> valid (files w v ! unat fd)"
  by (auto simp: fd_valid_def split: if_splits intro: regs_ok_nth)

text \<open>Neither the new slot nor a slot that is closed first is the file that is duplicated.\<close>

lemma allocate_source:
  assumes "allocate_file_descriptor w v = (Some i, w1)" "regs_ok w" "fd_valid (files w v) fd = Some True"
  shows "regular (files w1 v ! unat fd)"
proof -
  obtain s where s: "free_slot (files w v) 0 MAX_FILES_NR = Some s" "i = s"
    "w1 = upd_file v s (cleared_file\<lparr>fd_of := of_nat s, valid := True\<rparr>) w"
    using assms(1) by (auto simp: allocate_file_descriptor_def split: option.splits)
  with free_slot_Some [OF s(1)] fd_valid_regular [OF assms(2,3)] have "s \<noteq> unat fd" by auto
  with s(3) fd_valid_regular [OF assms(2,3)] show ?thesis by simp
qed

lemma do_close_source:
  assumes "do_close hc w v fd = Some (r, w1)" "owner_vm w v LINKAGE_HINT_FILES = Some vm" "j \<noteq> unat fd"
  shows "files w1 vm ! j = files w vm ! j"
  using assms by (auto simp: do_close_def Let_def deallocate_file_descriptor_def split: bind_splits if_splits prod.splits)

lemma do_fcntl_duplicate_regular: "do_fcntl_duplicate_fd hc w v fd cmd opq = Some (r, w') \<Longrightarrow> regs_ok w \<Longrightarrow> regs_ok w'"
  by (auto simp: do_fcntl_duplicate_fd_def Let_def split: bind_splits if_splits prod.splits option.splits
      dest: allocate_none deallocate_regular intro!: allocate_reverts(2) duplicate_regular allocate_source)

lemma call_fnctl_regular: "call_fnctl hc w v fd cmd opq = Some (r, w') \<Longrightarrow> regs_ok w \<Longrightarrow> regs_ok w'"
  by (auto simp: call_fnctl_def do_fcntl_getfd_def do_fcntl_getfl_def do_fcntl_setfd_def fcntl_on_fd_def
      split: bind_splits if_splits prod.splits dest: do_fcntl_duplicate_regular)

lemma call_dup_regular: "call_dup hc w v fd = Some (r, w') \<Longrightarrow> regs_ok w \<Longrightarrow> regs_ok w'"
  by (auto simp: call_dup_def Let_def split: bind_splits if_splits prod.splits option.splits
      dest: allocate_none intro!: allocate_reverts(2) duplicate_regular allocate_source)

lemma call_dup3_regular:
  assumes "call_dup3 hc w v old_fd new_fd = Some (r, w')" "regs_ok w"
  shows "regs_ok w'"
proof -
  from assms(1) obtain vm where vm: "owner_vm w v LINKAGE_HINT_FILES = Some vm" by (auto simp: call_dup3_def split: bind_splits)
  show ?thesis
  proof (cases "w' = w")
    case False
    with assms(1) vm obtain w1 os f where valid: "fd_valid (files w vm) old_fd = Some True" "new_fd \<noteq> old_fd"
      and w1: "w1 = w \<or> (\<exists>r1. do_close hc w v new_fd = Some (r1, w1))"
      and w': "w' = upd_file vm (unat new_fd) (duplicate_blob (files w1 vm ! unat old_fd) f) (w1\<lparr>os_state := os\<rparr>)"
      by (auto simp: call_dup3_def Let_def split: bind_splits if_splits prod.splits)
    have "unat old_fd \<noteq> unat new_fd" using valid(2) by (metis word_unat_eq_iff)
    then have "files w1 vm ! unat old_fd = files w vm ! unat old_fd" using w1 vm do_close_source by metis
    then have "regular (files w1 vm ! unat old_fd)" using fd_valid_regular [OF assms(2) valid(1)] by simp
    moreover have "regs_ok w1" using w1 assms(2) do_close_regular by blast
    ultimately show ?thesis unfolding w' by (simp add: regs_ok_upd duplicate_regular)
  qed (use assms(2) in simp)
qed

end
