(* ===== verification/User_Access.thy ===== *)
theory User_Access
  imports Address_Space Path_Name
begin

text \<open>
  Access of the monitor to the memory of a guest: \<open>sandbox/uaccess.h\<close>. A pointer into a region is
  a host block and an offset. Only the first address is looked up; what a call then reads or
  writes behind the end of the host block has no model (\<open>None\<close>).
\<close>

type_synonym uptr = "nat option \<times> nat"

definition vma_generic_direct :: "u64 \<Rightarrow> pm_region_operation \<Rightarrow> uptr" where
  "vma_generic_direct addr pmr = (host_base pmr, host_offset addr pmr)"

definition user_region :: "machine \<Rightarrow> vmptr \<Rightarrow> u32 \<Rightarrow> pm_region_operation option option" where
  "user_region m native uaddress =
     Option.bind (get_linked_vm (vms m) native LINKAGE_HINT_VM) (\<lambda>v.
     Option.bind (vms m v) (\<lambda>vm.
     map_option (map_option (\<lambda>i. pmr_ops vm ! i)) (search_pm_region_callback vm (ucast uaddress))))"

definition user_accessible :: "machine \<Rightarrow> vmptr \<Rightarrow> u32 \<Rightarrow> bool option" where
  "user_accessible m native uaddress =
     map_option (\<lambda>r. case r of None \<Rightarrow> False | Some pmr \<Rightarrow> pmr_direct pmr \<noteq> None) (user_region m native uaddress)"

definition user_world_pointer :: "machine \<Rightarrow> vmptr \<Rightarrow> u32 \<Rightarrow> uptr option" where
  "user_world_pointer m native uaddress =
     Option.bind (user_region m native uaddress) (\<lambda>r. case r of None \<Rightarrow> None
       | Some pmr \<Rightarrow> ASSERT (pmr_direct pmr \<noteq> None) (Some (vma_generic_direct (ucast uaddress) pmr)))"

subsection \<open>What the host does through such a pointer\<close>

definition bytes_from :: "machine \<Rightarrow> uptr \<Rightarrow> u8 list option" where
  "bytes_from m p = Option.bind (fst p) (\<lambda>b. map_option (drop (snd p)) (hmem m b))"

definition load_bytes :: "machine \<Rightarrow> uptr \<Rightarrow> nat \<Rightarrow> u8 list option" where
  "load_bytes m p n = Option.bind (bytes_from m p) (\<lambda>bs. if n \<le> length bs then Some (take n bs) else None)"

definition store_bytes :: "machine \<Rightarrow> uptr \<Rightarrow> u8 list \<Rightarrow> machine option" where
  "store_bytes m p bs =
     Option.bind (fst p) (\<lambda>b. Option.bind (hmem m b) (\<lambda>block.
       if snd p + length bs \<le> length block then Some (m\<lparr>hmem := (hmem m)(b \<mapsto> splice block (snd p) bs)\<rparr>) else None))"

text \<open>A C string ends at its first zero byte, which must come before the end of the block.\<close>

definition string_at :: "machine \<Rightarrow> uptr \<Rightarrow> string option" where
  "string_at m p = Option.bind (bytes_from m p) (\<lambda>bs.
     if 0 \<in> set bs then Some (map (\<lambda>b. char_of (unat b)) (takeWhile (\<lambda>b. b \<noteq> 0) bs)) else None)"

definition string_bytes :: "string \<Rightarrow> u8 list" where
  "string_bytes s = map (\<lambda>c. of_nat (of_char c)) s @ [0]"

subsection \<open>Pointers and the bytes of the guest\<close>

lemma user_region_at:
  assumes "get_linked_vm (vms m) native LINKAGE_HINT_VM = Some v" "vms m v = Some vm" "vm_wf vm" "region_at vm a = Some r"
  shows "user_region m native a = Some (Some r)"
  using search_region_at [OF assms(3,4)] assms(1,2) by (auto simp: user_region_def)

lemma user_world_pointer_at:
  assumes "get_linked_vm (vms m) native LINKAGE_HINT_VM = Some v" "vms m v = Some vm" "vm_wf vm" "region_at vm a = Some r"
    and "pmr_direct r \<noteq> None"
  shows "user_world_pointer m native a = Some (host_base r, region_offset a r)"
  using user_region_at [OF assms(1-4)] assms(5) host_offset_region [OF region_at_in [OF assms(4)]]
  by (simp add: user_world_pointer_def vma_generic_direct_def)

lemma store_bytes_guest:
  assumes "vm_mem_ok vm" "region_at vm a = Some r" "store_bytes m (host_base r, region_offset a r) bs = Some m'"
  shows "guest_byte m' vm x =
    (if region_at vm x = region_at vm a \<and> unat a \<le> unat x \<and> unat x < unat a + length bs
     then Some (bs ! (unat x - unat a)) else guest_byte m vm x)" "vms m' = vms m"
proof -
  from assms(3) obtain b block where b: "host_base r = Some b" "hmem m b = Some block"
    "region_offset a r + length bs \<le> length block"
    and m': "m' = m\<lparr>hmem := (hmem m)(b \<mapsto> splice block (region_offset a r) bs)\<rparr>"
    by (auto simp: store_bytes_def split: bind_splits if_splits)
  show "guest_byte m' vm x =
    (if region_at vm x = region_at vm a \<and> unat a \<le> unat x \<and> unat x < unat a + length bs
     then Some (bs ! (unat x - unat a)) else guest_byte m vm x)"
    unfolding m' by (rule splice_guest_byte [OF assms(1,2) b])
  show "vms m' = vms m" by (simp add: m')
qed

lemma store_bytes_returns:
  assumes "host_block m r = Some block" "off + length bs \<le> length block"
  shows "\<exists>m'. store_bytes m (host_base r, off) bs = Some m'"
  using assms by (auto simp: store_bytes_def host_block_def split: bind_splits)

lemma store_load_bytes:
  "store_bytes m p bs = Some m' \<Longrightarrow> load_bytes m' p (length bs) = Some bs"
  by (auto simp: store_bytes_def load_bytes_def bytes_from_def splice_read split: bind_splits if_splits)

lemma char_byte: "char_of (unat (of_nat (of_char c) :: u8)) = c"
  by (simp add: unat_of_nat)

lemma char_of_zero: "char_of (0 :: nat) = NUL"
  by (simp add: char_of_def)

text \<open>A string that was stored is read back, whatever follows it in the block.\<close>

lemma string_at_bytes:
  assumes "bytes_from m p = Some (string_bytes s @ rest)" "NUL \<notin> set s"
  shows "string_at m p = Some s"
proof -
  have nz: "of_nat (of_char c) \<noteq> (0 :: u8)" if "c \<in> set s" for c
    using that assms(2) char_byte [of c] by (metis unsigned_0 char_of_zero)
  have "takeWhile (\<lambda>b. b \<noteq> 0) (string_bytes s @ rest) = map (\<lambda>c. of_nat (of_char c)) s"
    unfolding string_bytes_def append_assoc by (subst takeWhile_append2) (use nz in auto)
  moreover have "map (\<lambda>b. char_of (unat b)) (map (\<lambda>c. of_nat (of_char c) :: u8) s) = s"
    unfolding map_map comp_def char_byte by simp
  ultimately show ?thesis using assms(1) by (simp add: string_at_def string_bytes_def)
qed

end
