(* ===== verification/File_IO.thy ===== *)
theory File_IO
  imports File_Table User_Access
begin

text \<open>
  Transfers between files of the host and the memory of a guest: the rest of \<open>sandbox/vfs.c\<close> and
  the system calls of \<open>sandbox/syscall.c\<close> that pass a pointer to it. The bytes that a call of the
  host stores through a pointer are part of its result; nothing is stored when there are none.
\<close>

definition fill :: "'os procs \<Rightarrow> uptr \<Rightarrow> u8 list \<Rightarrow> 'os procs option" where
  "fill w p bs = (if bs = [] then Some w
     else map_option (\<lambda>m. w\<lparr>world_machine := m\<rparr>) (store_bytes (world_machine w) p bs))"

definition user_pointer :: "'os procs \<Rightarrow> vmptr \<Rightarrow> u32 \<Rightarrow> uptr option" where
  "user_pointer w v a = user_world_pointer (world_machine w) v a"

definition user_string :: "'os procs \<Rightarrow> vmptr \<Rightarrow> u32 \<Rightarrow> string option" where
  "user_string w v a = Option.bind (user_pointer w v a) (string_at (world_machine w))"

text \<open>The check that all operations on a descriptor share; they differ in the error they return.\<close>

definition with_fd :: "'os procs \<Rightarrow> vmptr \<Rightarrow> u32 \<Rightarrow> u32 \<Rightarrow> (file_desc \<Rightarrow> 'os procs handler_result) \<Rightarrow> 'os procs handler_result" where
  "with_fd w v fd err k =
     Option.bind (owner_vm w v LINKAGE_HINT_FILES) (\<lambda>vm.
     Option.bind (fd_valid (files w vm) fd) (\<lambda>ok. if \<not> ok then Some (- err, w) else k (files w vm ! unat fd)))"

subsection \<open>Paths\<close>

definition with_host_path :: "'os procs \<Rightarrow> vmptr \<Rightarrow> u32 \<Rightarrow> string \<Rightarrow> (string \<Rightarrow> 'os procs handler_result) \<Rightarrow> 'os procs handler_result" where
  "with_host_path w v dirfd pathname k =
     Option.bind (owner_vm w v LINKAGE_HINT_FS) (\<lambda>vm_fs.
     Option.bind (host_path_of (fs_root w vm_fs) (fs_cwd w vm_fs) dirfd pathname) k)"

definition do_statx :: "'os host_calls \<Rightarrow> 'os procs \<Rightarrow> vmptr \<Rightarrow> u32 \<Rightarrow> string \<Rightarrow> u32 \<Rightarrow> u32 \<Rightarrow> uptr \<Rightarrow> 'os procs handler_result" where
  "do_statx hc w v dirfd pathname flag mask_arg statxbuf =
     with_host_path w v dirfd pathname (\<lambda>host_cpath.
       let ((rc, bs), os) = os_statx hc host_cpath flag mask_arg (os_state w) in
       map_option (\<lambda>w1. (ERRNO hc rc os, w1)) (fill (w\<lparr>os_state := os\<rparr>) statxbuf bs))"

definition do_readlinkat :: "'os host_calls \<Rightarrow> 'os procs \<Rightarrow> vmptr \<Rightarrow> u32 \<Rightarrow> string \<Rightarrow> uptr \<Rightarrow> u32 \<Rightarrow> 'os procs handler_result" where
  "do_readlinkat hc w v dirfd pathname buf buf_size =
     with_host_path w v dirfd pathname (\<lambda>host_cpath.
       let ((rc, bs), os) = os_readlinkat hc host_cpath (unat buf_size) (os_state w) in
       map_option (\<lambda>w1. (ERRNO hc rc os, w1)) (fill (w\<lparr>os_state := os\<rparr>) buf bs))"

subsection \<open>Reading and writing\<close>

text \<open>The array of \<open>struct iovec32\<close>: each entry is looked up, then the host gathers the bytes.\<close>

fun gather_iov :: "machine \<Rightarrow> vmptr \<Rightarrow> uptr \<Rightarrow> nat \<Rightarrow> nat \<Rightarrow> u8 list list option" where
  "gather_iov m v iov idx 0 = Some []"
| "gather_iov m v iov idx (Suc k) =
     Option.bind (load_bytes m (fst iov, snd iov + 8 * idx) 8) (\<lambda>entry.
     Option.bind (user_world_pointer m v (ucast (le_word (take 4 entry)))) (\<lambda>base.
     Option.bind (load_bytes m base (unat (le_word (drop 4 entry)))) (\<lambda>bs.
     map_option ((#) bs) (gather_iov m v iov (Suc idx) k))))"

definition do_writev :: "'os host_calls \<Rightarrow> 'os procs \<Rightarrow> vmptr \<Rightarrow> u32 \<Rightarrow> uptr \<Rightarrow> u32 \<Rightarrow> 'os procs handler_result" where
  "do_writev hc w v fd guest_iov iovcnt =
     with_fd w v fd EINVAL (\<lambda>f.
       if \<not> os_malloc hc (16 * unat iovcnt) (os_state w) then Some (- ENOMEM, w)
       else Option.bind (gather_iov (world_machine w) v guest_iov 0 (unat iovcnt)) (\<lambda>bss.
         let (rc, os) = os_writev hc (host_fd f) bss (os_state w) in Some (ERRNO hc rc os, w\<lparr>os_state := os\<rparr>)))"

definition do_write :: "'os host_calls \<Rightarrow> 'os procs \<Rightarrow> vmptr \<Rightarrow> u32 \<Rightarrow> uptr \<Rightarrow> u32 \<Rightarrow> 'os procs handler_result" where
  "do_write hc w v fd buf nr_write =
     with_fd w v fd EBADF (\<lambda>f.
       Option.bind (load_bytes (world_machine w) buf (unat nr_write)) (\<lambda>bs.
         let (rc, os) = os_write hc (host_fd f) bs (os_state w) in Some (ERRNO hc rc os, w\<lparr>os_state := os\<rparr>)))"

definition do_read :: "'os host_calls \<Rightarrow> 'os procs \<Rightarrow> vmptr \<Rightarrow> u32 \<Rightarrow> uptr \<Rightarrow> u32 \<Rightarrow> 'os procs handler_result" where
  "do_read hc w v fd buf nr_read =
     with_fd w v fd EBADF (\<lambda>f.
       let ((rc, bs), os) = os_read hc (host_fd f) (unat nr_read) (os_state w) in
       map_option (\<lambda>w1. (ERRNO hc rc os, w1)) (fill (w\<lparr>os_state := os\<rparr>) buf bs))"

definition do_ioctl :: "'os host_calls \<Rightarrow> 'os procs \<Rightarrow> vmptr \<Rightarrow> u32 \<Rightarrow> u32 \<Rightarrow> u32 \<Rightarrow> 'os procs handler_result" where
  "do_ioctl hc w v fd request argp_addr =
     with_fd w v fd EBADF (\<lambda>f.
     Option.bind (user_accessible (world_machine w) v argp_addr) (\<lambda>acc.
     Option.bind (if acc then user_pointer w v argp_addr else Some (None, 0)) (\<lambda>argp.
       let ((rc, bs), os) = os_ioctl hc (host_fd f) request (bytes_from (world_machine w) argp) (os_state w) in
       map_option (\<lambda>w1. (ERRNO hc rc os, w1)) (fill (w\<lparr>os_state := os\<rparr>) argp bs))))"

text \<open>The result of \<open>getdents64\<close> is returned as it is.\<close>

definition do_getdents64 :: "'os host_calls \<Rightarrow> 'os procs \<Rightarrow> vmptr \<Rightarrow> u32 \<Rightarrow> u32 \<Rightarrow> u32 \<Rightarrow> 'os procs handler_result" where
  "do_getdents64 hc w v fd dirp_addr nr =
     with_fd w v fd EBADF (\<lambda>f.
     Option.bind (user_pointer w v dirp_addr) (\<lambda>dirp.
       let ((rc, bs), os) = os_getdents64 hc (host_fd f) (unat nr) (os_state w) in
       map_option (\<lambda>w1. (rc, w1)) (fill (w\<lparr>os_state := os\<rparr>) dirp bs)))"

definition do_sendfile :: "'os host_calls \<Rightarrow> 'os procs \<Rightarrow> vmptr \<Rightarrow> u32 \<Rightarrow> u32 \<Rightarrow> uptr \<Rightarrow> u32 \<Rightarrow> 'os procs handler_result" where
  "do_sendfile hc w v out_fd fd offset nr =
     with_fd w v fd EBADF (\<lambda>f_in. with_fd w v out_fd EBADF (\<lambda>f_out.
       let ((rc, bs), os) = os_sendfile hc (host_fd f_out) (host_fd f_in) (bytes_from (world_machine w) offset) (unat nr) (os_state w) in
       map_option (\<lambda>w1. (ERRNO hc rc os, w1)) (fill (w\<lparr>os_state := os\<rparr>) offset bs)))"

text \<open>The three standard files; the \<open>ASSERT\<close>s fix their descriptors.\<close>

definition vfs_init :: "'os host_calls \<Rightarrow> 'os procs \<Rightarrow> vmptr \<Rightarrow> 'os procs option" where
  "vfs_init hc w v =
     Option.bind (do_openat hc w v AT_FDCWD ''/dev/stdin'' 0 0) (\<lambda>(fd0, w0). ASSERT (fd0 = 0) (
     Option.bind (do_openat hc w0 v AT_FDCWD ''/dev/stdout'' 1 0) (\<lambda>(fd1, w1). ASSERT (fd1 = 1) (
     Option.bind (do_openat hc w1 v AT_FDCWD ''/dev/stderr'' 1 0) (\<lambda>(fd2, w2). ASSERT (fd2 = 2) (Some w2))))))"

subsection \<open>The system calls\<close>

definition call_openat :: "'os host_calls \<Rightarrow> 'os procs \<Rightarrow> vmptr \<Rightarrow> u32 \<Rightarrow> u32 \<Rightarrow> u32 \<Rightarrow> u32 \<Rightarrow> 'os procs handler_result" where
  "call_openat hc w v dirfd pathaddr flags mode =
     Option.bind (user_string w v pathaddr) (\<lambda>path. do_openat hc w v dirfd path flags mode)"

definition call_writev :: "'os host_calls \<Rightarrow> 'os procs \<Rightarrow> vmptr \<Rightarrow> u32 \<Rightarrow> u32 \<Rightarrow> u32 \<Rightarrow> 'os procs handler_result" where
  "call_writev hc w v fd iov_addr iovcnt =
     Option.bind (user_pointer w v iov_addr) (\<lambda>iov_base. do_writev hc w v fd iov_base iovcnt)"

definition call_statx :: "'os host_calls \<Rightarrow> 'os procs \<Rightarrow> vmptr \<Rightarrow> u32 \<Rightarrow> u32 \<Rightarrow> u32 \<Rightarrow> u32 \<Rightarrow> u32 \<Rightarrow> 'os procs handler_result" where
  "call_statx hc w v dirfd pathname_addr flags mask_arg statxbuf_addr =
     Option.bind (user_string w v pathname_addr) (\<lambda>pathname.
     Option.bind (user_pointer w v statxbuf_addr) (\<lambda>statxbuf. do_statx hc w v dirfd pathname flags mask_arg statxbuf))"

definition call_write :: "'os host_calls \<Rightarrow> 'os procs \<Rightarrow> vmptr \<Rightarrow> u32 \<Rightarrow> u32 \<Rightarrow> u32 \<Rightarrow> 'os procs handler_result" where
  "call_write hc w v fd buf_addr nr_to_write =
     Option.bind (user_pointer w v buf_addr) (\<lambda>buf. do_write hc w v fd buf nr_to_write)"

definition call_read :: "'os host_calls \<Rightarrow> 'os procs \<Rightarrow> vmptr \<Rightarrow> u32 \<Rightarrow> u32 \<Rightarrow> u32 \<Rightarrow> 'os procs handler_result" where
  "call_read hc w v fd buf_addr nr =
     Option.bind (user_pointer w v buf_addr) (\<lambda>buf. do_read hc w v fd buf nr)"

definition call_readlinkat :: "'os host_calls \<Rightarrow> 'os procs \<Rightarrow> vmptr \<Rightarrow> u32 \<Rightarrow> u32 \<Rightarrow> u32 \<Rightarrow> u32 \<Rightarrow> 'os procs handler_result" where
  "call_readlinkat hc w v dirfd pathname_addr buff_addr buf_size =
     Option.bind (user_string w v pathname_addr) (\<lambda>pathname.
     Option.bind (user_pointer w v buff_addr) (\<lambda>buff. do_readlinkat hc w v dirfd pathname buff buf_size))"

definition call_sendfile :: "'os host_calls \<Rightarrow> 'os procs \<Rightarrow> vmptr \<Rightarrow> u32 \<Rightarrow> u32 \<Rightarrow> u32 \<Rightarrow> u32 \<Rightarrow> 'os procs handler_result" where
  "call_sendfile hc w v out_fd fd offset_addr nr =
     Option.bind (if offset_addr \<noteq> 0 then user_pointer w v offset_addr else Some (None, 0)) (\<lambda>offset.
       do_sendfile hc w v out_fd fd offset nr)"

definition call_unlinkat :: "'os host_calls \<Rightarrow> 'os procs \<Rightarrow> vmptr \<Rightarrow> u32 \<Rightarrow> u32 \<Rightarrow> u32 \<Rightarrow> 'os procs handler_result" where
  "call_unlinkat hc w v dirfd pathname_addr flags =
     Option.bind (user_string w v pathname_addr) (\<lambda>pathname. do_unlinkat hc w v dirfd pathname flags)"

definition call_getcwd :: "'os procs \<Rightarrow> vmptr \<Rightarrow> u32 \<Rightarrow> u32 \<Rightarrow> 'os procs handler_result" where
  "call_getcwd w v buf_addr sz =
     Option.bind (owner_vm w v LINKAGE_HINT_FS) (\<lambda>vm.
       if buf_addr = 0 then Some (0, w)
       else Option.bind (user_pointer w v buf_addr) (\<lambda>buf.
         map_option (\<lambda>w1. (of_nat (length (fs_cwd w vm)) + 1, w1)) (fill w buf (string_bytes (fs_cwd w vm)))))"

text \<open>
  The new directory ends in a slash; it is copied into the field \<open>cwd\<close>, of \<open>CWD_SIZE\<close> bytes,
  without a check.
\<close>

definition CWD_SIZE :: nat where "CWD_SIZE = 128"

definition new_cwd :: "string \<Rightarrow> string \<Rightarrow> string option" where
  "new_cwd cwd path =
     (let ptr = dropWhile (\<lambda>c. c = CHR '' '') path in
      map_option (\<lambda>cpath. cpath @ [slash])
       (if char_at ptr 0 = slash then Some (canonicalize_path_name ptr)
        else if length cwd + 1 + length ptr < MAX_PATH then Some (canonicalize_path_name (cwd @ [slash] @ ptr)) else None))"

definition call_chdir :: "'os procs \<Rightarrow> vmptr \<Rightarrow> u32 \<Rightarrow> 'os procs handler_result" where
  "call_chdir w v path_addr =
     Option.bind (owner_vm w v LINKAGE_HINT_FS) (\<lambda>vm.
     Option.bind (user_string w v path_addr) (\<lambda>path.
     Option.bind (new_cwd (fs_cwd w vm) path) (\<lambda>cpath.
       if length cpath < CWD_SIZE then Some (0, w\<lparr>fs_cwd := (fs_cwd w)(vm := cpath)\<rparr>) else None)))"

subsection \<open>Reading into a buffer\<close>

text \<open>
  \<open>buffer_at\<close>: the address lies in the region \<open>r\<close> of the address space that the process uses, and
  \<open>block\<close> backs the region.
\<close>

definition buffer_at :: "'os procs \<Rightarrow> vmptr \<Rightarrow> u32 \<Rightarrow> virtual_machine \<Rightarrow> pm_region_operation \<Rightarrow> u8 list \<Rightarrow> bool" where
  "buffer_at w v a vm r block \<longleftrightarrow>
     (\<exists>u. get_linked_vm (vms (world_machine w)) v LINKAGE_HINT_VM = Some u \<and> vm_of w u = Some vm) \<and>
     vm_mem_ok vm \<and> region_at vm a = Some r \<and> pmr_direct r \<noteq> None \<and> host_block (world_machine w) r = Some block"

lemma buffer_pointer:
  "buffer_at w v a vm r block \<Longrightarrow> user_pointer w v a = Some (host_base r, region_offset a r)"
  unfolding buffer_at_def user_pointer_def vm_mem_ok_def using user_world_pointer_at by blast

definition open_file :: "'os procs \<Rightarrow> vmptr \<Rightarrow> u32 \<Rightarrow> file_desc \<Rightarrow> bool" where
  "open_file w v fd f \<longleftrightarrow> (\<exists>vm. owner_vm w v LINKAGE_HINT_FILES = Some vm \<and>
     fd_valid (files w vm) fd = Some True \<and> files w vm ! unat fd = f)"

lemma with_fd_open: "open_file w v fd f \<Longrightarrow> with_fd w v fd err k = k f"
  by (auto simp: open_file_def with_fd_def)

text \<open>The bytes behind the end of the host block: nothing stops the host from storing there.\<close>

lemma call_read_overrun:
  assumes "open_file w v fd f" "buffer_at w v a vm r block" "os_read hc (host_fd f) (unat n) (os_state w) = ((rc, bs), os)"
    and "length block < region_offset a r + length bs" "bs \<noteq> []"
  shows "call_read hc w v fd a n = None"
  using assms(2-5)
  by (auto simp: call_read_def do_read_def buffer_pointer [OF assms(2)] with_fd_open [OF assms(1)] fill_def store_bytes_def
      buffer_at_def host_block_def split: bind_splits)

lemma call_write_writes:
  assumes "open_file w v fd f" "buffer_at w v a vm r block" "region_offset a r + unat n \<le> length block"
  shows "call_write hc w v fd a n =
    (let (rc, os) = os_write hc (host_fd f) (take (unat n) (drop (region_offset a r) block)) (os_state w)
     in Some (ERRNO hc rc os, w\<lparr>os_state := os\<rparr>))"
proof -
  have "load_bytes (world_machine w) (host_base r, region_offset a r) (unat n) = Some (take (unat n) (drop (region_offset a r) block))"
    using assms(2,3) by (auto simp: load_bytes_def bytes_from_def buffer_at_def host_block_def split: bind_splits)
  then show ?thesis by (simp add: call_write_def do_write_def buffer_pointer [OF assms(2)] with_fd_open [OF assms(1)])
qed

text \<open>What was read is written back unchanged.\<close>

lemma call_read_then_write:
  assumes "open_file w v fd f" "buffer_at w v a vm r block" "os_read hc (host_fd f) (unat n) (os_state w) = ((rc, bs), os)"
    and "region_offset a r + length bs \<le> length block" "length bs < 2 ^ 32"
  shows "\<exists>w'. call_read hc w v fd a n = Some (ERRNO hc rc os, w') \<and>
    (\<forall>x. guest_byte (world_machine w') vm x =
       (if region_at vm x = Some r \<and> unat a \<le> unat x \<and> unat x < unat a + length bs
        then Some (bs ! (unat x - unat a)) else guest_byte (world_machine w) vm x)) \<and>
    call_write hc w' v fd a (of_nat (length bs)) =
      (let (rc', os') = os_write hc (host_fd f) bs os in Some (ERRNO hc rc' os', w'\<lparr>os_state := os'\<rparr>))"
proof -
  obtain b where b: "host_base r = Some b" "hmem (world_machine w) b = Some block"
    using assms(2) by (auto simp: buffer_at_def host_block_def split: bind_splits)
  let ?block = "splice block (region_offset a r) bs"
  let ?w' = "w\<lparr>os_state := os, world_machine := (world_machine w)\<lparr>hmem := (hmem (world_machine w))(b \<mapsto> ?block)\<rparr>\<rparr>"
  have n: "unat (of_nat (length bs) :: u32) = length bs" using assms(5) by (simp add: unat_of_nat)
  have buf: "buffer_at ?w' v a vm r ?block" using assms(2) b by (simp add: buffer_at_def host_block_def)
  have "open_file ?w' v fd f" using assms(1) by (simp add: open_file_def owner_vm_def)
  from call_write_writes [OF this buf, of "of_nat (length bs)" hc] assms(4)
  have wr: "call_write hc ?w' v fd a (of_nat (length bs)) = (let (rc', os') = os_write hc (host_fd f) bs os in Some (ERRNO hc rc' os', ?w'\<lparr>os_state := os'\<rparr>))"
    by (simp add: n splice_read)
  have rd: "call_read hc w v fd a n = Some (ERRNO hc rc os, ?w')"
  proof (cases "bs = []")
    case True
    then have "?w' = w\<lparr>os_state := os\<rparr>" using b by (simp add: splice_def fun_upd_idem)
    with True assms(3) show ?thesis
      by (simp add: call_read_def do_read_def buffer_pointer [OF assms(2)] with_fd_open [OF assms(1)] fill_def)
  next
    case False
    with assms(3,4) b show ?thesis
      by (simp add: call_read_def do_read_def buffer_pointer [OF assms(2)] with_fd_open [OF assms(1)] fill_def store_bytes_def)
  qed
  have "\<forall>x. guest_byte (world_machine ?w') vm x =
       (if region_at vm x = Some r \<and> unat a \<le> unat x \<and> unat x < unat a + length bs
        then Some (bs ! (unat x - unat a)) else guest_byte (world_machine w) vm x)"
    using splice_guest_byte [of vm a r b "world_machine w" block bs] assms(2,4) b by (simp add: buffer_at_def)
  with rd wr show ?thesis by blast
qed

subsection \<open>Changing the directory\<close>

lemma canonicalize_cwd:
  assumes "list_all plain (c # cs)" "length (path_of (c # cs)) < MAX_PATH"
  shows "cwd_ok (canonicalize_path_name (path_of (c # cs)) @ [slash])"
  using canonicalize_absolute [OF assms] normal_comps_quiet [OF assms(1)] by (auto simp: cwd_ok_def)

lemma new_cwd_ok:
  assumes "new_cwd cwd path = Some cpath" "cwd_ok cwd" "NUL \<notin> set path" "length path < MAX_PATH"
  shows "cwd_ok cpath"
proof -
  define ptr where "ptr = dropWhile (\<lambda>c. c = CHR '' '') path"
  have ptr: "NUL \<notin> set ptr" "length ptr < MAX_PATH"
    using assms(3,4) length_dropWhile_le [of "\<lambda>c. c = CHR '' ''" path] by (auto simp: ptr_def dest: set_dropWhileD)
  obtain ccs where cwd: "list_all quiet ccs" "cwd = path_of ccs @ [slash]" using assms(2) by (auto simp: cwd_ok_def)
  show ?thesis
  proof (cases "char_at ptr 0 = slash")
    case True
    then obtain t where t: "ptr = slash # t" by (cases ptr) (auto simp: char_at_def)
    then obtain c cs where "t = c @ path_of cs" "list_all plain (c # cs)" using split_path [of t] ptr(1) by auto
    with canonicalize_cwd [of c cs] assms(1) True t ptr(2) show ?thesis by (auto simp: new_cwd_def simp flip: ptr_def)
  next
    case False
    obtain c cs where c: "ptr = c @ path_of cs" "list_all plain (c # cs)" using split_path [OF ptr(1)] by auto
    have src: "cwd @ [slash] @ ptr = path_of (ccs @ [[]] @ c # cs)" by (simp add: cwd(2) c(1))
    obtain d ds where d: "ccs @ [[]] @ c # cs = d # ds" by (cases ccs) auto
    have "list_all plain (ccs @ [[]] @ c # cs)" using quiet_plain [OF cwd(1)] c(2) by (simp add: plain_def [of "[]"])
    moreover have "length (path_of (d # ds)) < MAX_PATH \<longleftrightarrow> length cwd + 1 + length ptr < MAX_PATH"
      unfolding d [symmetric] src [symmetric] by simp
    ultimately show ?thesis
      using assms(1) False canonicalize_cwd [of d ds]
      unfolding new_cwd_def Let_def ptr_def [symmetric] src d by (auto simp del: path_of_simps split: if_splits)
  qed
qed

subsection \<open>Steps of the file system calls\<close>

text \<open>Any system call of this file by any process: the host may answer in any way it likes.\<close>

inductive file_step :: "'os host_calls \<Rightarrow> 'os procs \<Rightarrow> 'os procs \<Rightarrow> bool" for hc :: "'os host_calls" where
  "call_openat hc w v dirfd a flags mode = Some (r, w') \<Longrightarrow> file_step hc w w'"
| "do_close hc w v fd = Some (r, w') \<Longrightarrow> file_step hc w w'"
| "call_fnctl hc w v fd cmd opq = Some (r, w') \<Longrightarrow> file_step hc w w'"
| "call_dup hc w v fd = Some (r, w') \<Longrightarrow> file_step hc w w'"
| "call_dup3 hc w v fd fd' = Some (r, w') \<Longrightarrow> file_step hc w w'"
| "do_lseek hc w v fd off whence = Some (r, w') \<Longrightarrow> file_step hc w w'"
| "call_unlinkat hc w v dirfd a flags = Some (r, w') \<Longrightarrow> file_step hc w w'"
| "call_statx hc w v dirfd a flags msk b = Some (r, w') \<Longrightarrow> file_step hc w w'"
| "call_readlinkat hc w v dirfd a b n = Some (r, w') \<Longrightarrow> file_step hc w w'"
| "call_read hc w v fd a n = Some (r, w') \<Longrightarrow> file_step hc w w'"
| "call_write hc w v fd a n = Some (r, w') \<Longrightarrow> file_step hc w w'"
| "call_writev hc w v fd a n = Some (r, w') \<Longrightarrow> file_step hc w w'"
| "do_ioctl hc w v fd req a = Some (r, w') \<Longrightarrow> file_step hc w w'"
| "do_getdents64 hc w v fd a n = Some (r, w') \<Longrightarrow> file_step hc w w'"
| "call_sendfile hc w v fd' fd a n = Some (r, w') \<Longrightarrow> file_step hc w w'"
| "call_getcwd w v a n = Some (r, w') \<Longrightarrow> file_step hc w w'"
| "call_chdir w v a = Some (r, w') \<Longrightarrow> file_step hc w w'"

lemma fill_keeps:
  "fill w p bs = Some w' \<Longrightarrow> fds_ok w \<Longrightarrow> fds_ok w'" "fill (w\<lparr>os_state := os\<rparr>) p bs = Some w' \<Longrightarrow> fds_ok w \<Longrightarrow> fds_ok w'"
  "fill w p bs = Some w' \<Longrightarrow> regs_ok w \<Longrightarrow> regs_ok w'" "fill (w\<lparr>os_state := os\<rparr>) p bs = Some w' \<Longrightarrow> regs_ok w \<Longrightarrow> regs_ok w'"
  by (auto simp: fill_def split: if_splits)

lemma fds_ok_cwd [simp]: "fds_ok (w\<lparr>fs_cwd := c\<rparr>) = fds_ok w" "regs_ok (w\<lparr>fs_cwd := c\<rparr>) = regs_ok w"
  by (simp_all add: fds_ok_def regs_ok_def)

lemma with_fd_elim:
  assumes "with_fd w v fd err k = Some (r, w')"
  obtains "w' = w" | f where "k f = Some (r, w')"
  using assms by (auto simp: with_fd_def split: bind_splits if_splits)

lemma with_host_path_elim:
  assumes "with_host_path w v dirfd p k = Some (r, w')"
  obtains hp where "k hp = Some (r, w')"
  using assms by (auto simp: with_host_path_def split: bind_splits)

lemmas file_call_defs = call_openat_def call_unlinkat_def call_statx_def call_readlinkat_def call_read_def call_write_def
  call_writev_def call_sendfile_def do_lseek_def do_unlinkat_def do_statx_def do_readlinkat_def do_read_def do_write_def
  do_writev_def do_ioctl_def do_getdents64_def do_sendfile_def call_getcwd_def call_chdir_def

lemma file_step_keeps: "file_step hc w w' \<Longrightarrow> fds_ok w \<Longrightarrow> fds_ok w'"
  by (induction rule: file_step.induct)
     (auto simp: file_call_defs Let_def elim!: with_fd_elim with_host_path_elim
       split: bind_splits if_splits prod.splits
       dest: do_openat_keeps do_close_keeps call_fnctl_keeps call_dup_keeps call_dup3_keeps fill_keeps)

lemma file_step_regular: "file_step hc w w' \<Longrightarrow> regs_ok w \<Longrightarrow> regs_ok w'"
  by (induction rule: file_step.induct)
     (auto simp: file_call_defs Let_def elim!: with_fd_elim with_host_path_elim
       split: bind_splits if_splits prod.splits
       dest: do_openat_regular do_close_regular call_fnctl_regular call_dup_regular call_dup3_regular fill_keeps)

end
