(* ===== verification/Task_Clone.thy ===== *)
theory Task_Clone
  imports File_IO
begin

text \<open>
  Creating a process or a thread: \<open>clone_task\<close> of \<open>sandbox/task.c\<close> with the functions it calls, and
  \<open>reclaim_virtual_memory\<close>. The allocators are parameters: the address of the new
  \<open>struct virtual_machine\<close>, the blocks of the host heap, and the stack that \<open>hart_init\<close> maps for
  the monitor. The hart of a process is found under the address of the process; its address in
  the host is a parameter too, since the frame of the task holds it.
\<close>

definition CLONE_VM :: u32 where "CLONE_VM = 0x100"
definition CLONE_FS :: u32 where "CLONE_FS = 0x200"
definition CLONE_FILES :: u32 where "CLONE_FILES = 0x400"
definition CLONE_THREAD :: u32 where "CLONE_THREAD = 0x10000"
definition CLONE_CHILD_SETTID :: u32 where "CLONE_CHILD_SETTID = 0x1000000"

record clone_host =
  ch_vm :: "(vmptr \<rightharpoonup> virtual_machine) \<Rightarrow> vmptr option"
  ch_block :: host_alloc
  ch_stack :: "vmptr \<Rightarrow> u64"
  ch_hart :: "vmptr \<Rightarrow> u64"
  ch_vmresume :: u64

definition upd_vm :: "vmptr \<Rightarrow> (virtual_machine \<Rightarrow> virtual_machine) \<Rightarrow> 'os procs \<Rightarrow> 'os procs" where
  "upd_vm v f w = w\<lparr>world_machine := (world_machine w)\<lparr>vms := (vms (world_machine w))(v := map_option f (vm_of w v))\<rparr>\<rparr>"

definition zeroed_vm :: virtual_machine where
  "zeroed_vm = \<lparr>nr_pmr_ops = 0, pmr_ops = replicate MAX_VMA_NR empty_pmr, vma_heap = None, vma_stack = None,
     vm_pid = 0, vm_ppid = 0, vm_tgid = 0, parent_vm = None, cloned_vm = False, cloned_files = False,
     cloned_fs = False, ref_count = 0\<rparr>"

definition zeroed_links :: "sched_node list_elem" where
  "zeroed_links = \<lparr>le_prev = None, le_next = None\<rparr>"

subsection \<open>The parts of the child\<close>

definition allocate_virtual_machine_descriptor :: "clone_host \<Rightarrow> 'os procs \<Rightarrow> (vmptr \<times> 'os procs) option" where
  "allocate_virtual_machine_descriptor ch w =
     map_option (\<lambda>c. (c, w\<lparr>world_machine := set_vm c zeroed_vm (world_machine w),
         files := (files w)(c := replicate MAX_FILES_NR cleared_file), fs_root := (fs_root w)(c := []),
         fs_cwd := (fs_cwd w)(c := []), set_child_tid := (set_child_tid w)(c := 0),
         links := (links w)(Vm_list_node c := zeroed_links)\<rparr>))
       (ch_vm ch (vms (world_machine w)))"

definition new_pid :: "'os procs \<Rightarrow> u32 \<times> 'os procs" where
  "new_pid w = (gpid_counter w, w\<lparr>gpid_counter := gpid_counter w + 1\<rparr>)"

definition reference_task :: "vmptr \<Rightarrow> 'os procs \<Rightarrow> 'os procs" where
  "reference_task v = upd_vm v (\<lambda>vm. vm\<lparr>ref_count := ref_count vm + 1\<rparr>)"

definition deference_task :: "vmptr \<Rightarrow> 'os procs \<Rightarrow> 'os procs" where
  "deference_task v = upd_vm v (\<lambda>vm. vm\<lparr>ref_count := ref_count vm - 1\<rparr>)"

definition task_linkage_init :: "'os procs \<Rightarrow> vmptr \<Rightarrow> virtual_machine \<Rightarrow> vmptr \<Rightarrow> u32 \<Rightarrow> 'os procs" where
  "task_linkage_init w cur cvm c flags =
     (let (pid, w1) = new_pid w in
      reference_task cur (upd_vm c (\<lambda>vm. vm\<lparr>vm_pid := pid, vm_ppid := vm_pid cvm,
        vm_tgid := (if flags AND CLONE_THREAD \<noteq> 0 then vm_pid cvm else pid), parent_vm := Some cur\<rparr>) w1))"

text \<open>\<open>hart_init\<close> also sets up the fields of the scheduler: the state, the stack and the wait queue.\<close>

definition init_task :: "u64 \<Rightarrow> task" where
  "init_task stack = \<lparr>task_state = TASK_STATE_RUNNING, non_stop_state = TASK_STATE_ZOMBIE, host_cpustate = 0,
     vmm_stack_ptr = stack, wait_state_exited = False, wait_state_stopped = False, wait_state_continued = False\<rparr>"

definition task_cpu_init :: "clone_host \<Rightarrow> 'os procs \<Rightarrow> vmptr \<Rightarrow> vmptr \<Rightarrow> 'os procs" where
  "task_cpu_init ch w cur c =
     w\<lparr>harts := (harts w)(c := (hart_init 0)\<lparr>native_vmptr := c,
         registers := (registers (harts w cur))[10 := 0], pc := pc (harts w cur) + 4\<rparr>),
       tasks := (tasks w)(Task c := init_task (ch_stack ch c)),
       links := list_init ((links w)(Hart_list (Task c) := zeroed_links)) (Wq_pivot (Task c))\<rparr>"

fun duplicate_regions :: "host_alloc \<Rightarrow> virtual_machine \<Rightarrow> nat \<Rightarrow> nat \<Rightarrow> virtual_machine \<Rightarrow> machine \<Rightarrow> (virtual_machine \<times> machine) option" where
  "duplicate_regions alloc cvm idx 0 child m = Some (child, m)"
| "duplicate_regions alloc cvm idx (Suc k) child m =
     (let pmr = pmr_ops cvm ! idx; pmr_len = unat (scast (addr_high pmr - addr_low pmr) :: u64) in
      case preallocate_physical_memory alloc m pmr_len of
        (None, _) \<Rightarrow> None
      | (Some b, m1) \<Rightarrow>
          Option.bind (load_bytes m1 (host_base pmr, 0) pmr_len) (\<lambda>bytes.
          Option.bind (store_bytes m1 (Some b, 0) bytes) (\<lambda>m2.
            duplicate_regions alloc cvm (Suc idx) k
              (child\<lparr>pmr_ops := (pmr_ops child)[idx := pmr\<lparr>host_base := Some b\<rparr>],
                 vma_heap := (if vma_heap cvm = Some idx then Some idx else vma_heap child),
                 vma_stack := (if vma_stack cvm = Some idx then Some idx else vma_stack child)\<rparr>) m2)))"

definition duplicate_virtual_memory :: "host_alloc \<Rightarrow> 'os procs \<Rightarrow> virtual_machine \<Rightarrow> vmptr \<Rightarrow> 'os procs option" where
  "duplicate_virtual_memory alloc w cvm c =
     Option.bind (vm_of w c) (\<lambda>child.
     map_option (\<lambda>(child', m). w\<lparr>world_machine := set_vm c child' m\<rparr>)
       (duplicate_regions alloc cvm 0 (nr_pmr_ops cvm) (child\<lparr>nr_pmr_ops := nr_pmr_ops cvm\<rparr>) (world_machine w)))"

definition task_vm_init :: "clone_host \<Rightarrow> 'os procs \<Rightarrow> vmptr \<Rightarrow> virtual_machine \<Rightarrow> vmptr \<Rightarrow> u32 \<Rightarrow> 'os procs option" where
  "task_vm_init ch w cur cvm c flags =
     (if flags AND CLONE_VM \<noteq> 0
      then Some (reference_task cur (upd_vm c (\<lambda>vm. vm\<lparr>cloned_vm := True\<rparr>) w))
      else duplicate_virtual_memory (ch_block ch) w cvm c)"

definition task_fs_init :: "'os procs \<Rightarrow> vmptr \<Rightarrow> vmptr \<Rightarrow> u32 \<Rightarrow> 'os procs" where
  "task_fs_init w cur c flags =
     (if flags AND CLONE_FS \<noteq> 0
      then reference_task cur (upd_vm c (\<lambda>vm. vm\<lparr>cloned_fs := True\<rparr>) w)
      else w\<lparr>fs_root := (fs_root w)(c := fs_root w cur), fs_cwd := (fs_cwd w)(c := fs_cwd w cur)\<rparr>)"

text \<open>A regular file is opened again, and the result of the call is not checked.\<close>

fun duplicate_files :: "'os host_calls \<Rightarrow> file_desc list \<Rightarrow> nat \<Rightarrow> nat \<Rightarrow> file_desc list \<Rightarrow> 'os \<Rightarrow> (file_desc list \<times> 'os) option" where
  "duplicate_files hc cur idx 0 child os = Some (child, os)"
| "duplicate_files hc cur idx (Suc k) child os =
     (let f = cur ! idx; g = child ! idx in
      if \<not> valid f then duplicate_files hc cur (Suc idx) k (child[idx := g\<lparr>valid := False\<rparr>]) os
      else let g1 = g\<lparr>valid := True, fd_of := fd_of f,
                     host_cpath := (case host_cpath f of None \<Rightarrow> host_cpath g | Some p \<Rightarrow> Some p),
                     cb_file_type := cb_file_type f, cb_mode := cb_mode f, cb_flags := cb_flags f\<rparr> in
        case cb_file_type g1 of
          FILE_TYPE_REGULAR \<Rightarrow>
            (case host_cpath g1 of None \<Rightarrow> None
             | Some p \<Rightarrow> let (hfd, os1) = os_open hc p (cb_flags g1) (cb_mode g1) os
                         in duplicate_files hc cur (Suc idx) k (child[idx := g1\<lparr>host_fd := hfd\<rparr>]) os1)
        | FILE_TYPE_SOCKET \<Rightarrow>
            let (hfd, os1) = os_dup hc (host_fd f) os
            in duplicate_files hc cur (Suc idx) k (child[idx := g1\<lparr>host_fd := hfd\<rparr>]) os1
        | FILE_TYPE_ERROR \<Rightarrow> None)"

definition task_files_init :: "'os host_calls \<Rightarrow> 'os procs \<Rightarrow> vmptr \<Rightarrow> vmptr \<Rightarrow> u32 \<Rightarrow> 'os procs option" where
  "task_files_init hc w cur c flags =
     (if flags AND CLONE_FILES \<noteq> 0
      then Some (reference_task cur (upd_vm c (\<lambda>vm. vm\<lparr>cloned_files := True\<rparr>) w))
      else map_option (\<lambda>(fs, os). w\<lparr>files := (files w)(c := fs), os_state := os\<rparr>)
             (duplicate_files hc (files w cur) 0 MAX_FILES_NR (files w c) (os_state w)))"

definition task_threads_init :: "'os procs \<Rightarrow> vmptr \<Rightarrow> u32 \<Rightarrow> u32 \<Rightarrow> u32 \<Rightarrow> 'os procs option" where
  "task_threads_init w c child_stack flags ctid_addr =
     (let w1 = (if flags AND CLONE_CHILD_SETTID \<noteq> 0 then w\<lparr>set_child_tid := (set_child_tid w)(c := ctid_addr)\<rparr> else w) in
      if flags AND CLONE_THREAD \<noteq> 0
      then ASSERT (child_stack \<noteq> 0)
             (Some (w1\<lparr>harts := (harts w1)(c := (harts w1 c)\<lparr>registers := (registers (harts w1 c))[2 := child_stack]\<rparr>)\<rparr>))
      else Some w1)"

subsection \<open>Cloning\<close>

definition clone_parts :: "clone_host \<Rightarrow> 'os host_calls \<Rightarrow> 'os procs \<Rightarrow> vmptr \<Rightarrow> virtual_machine \<Rightarrow> vmptr \<Rightarrow> u32 \<Rightarrow> u32 \<Rightarrow> u32 \<Rightarrow> 'os procs option" where
  "clone_parts ch hc w cur cvm c child_stack flags ctid_addr =
     Option.bind (task_vm_init ch (task_cpu_init ch (task_linkage_init w cur cvm c flags) cur c) cur cvm c flags) (\<lambda>w1.
     Option.bind (task_files_init hc (task_fs_init w1 cur c flags) cur c flags) (\<lambda>w2.
       task_threads_init w2 c child_stack flags ctid_addr))"

definition clone_task :: "clone_host \<Rightarrow> 'os host_calls \<Rightarrow> 'os procs \<Rightarrow> vmptr \<Rightarrow> u32 \<Rightarrow> u32 \<Rightarrow> u32 \<Rightarrow> 'os procs handler_result" where
  "clone_task ch hc w cur child_stack flags ctid_addr =
     Option.bind (vm_of w cur) (\<lambda>cvm.
     Option.bind (allocate_virtual_machine_descriptor ch w) (\<lambda>(c, w0).
     Option.bind (clone_parts ch hc w0 cur cvm c child_stack flags ctid_addr) (\<lambda>w1.
     Option.bind (register_task w1 c) (\<lambda>w2.
     Option.bind (schedule_task (task_vmm_sched_init w2 (Task c) (ch_vmresume ch) (ch_hart ch c)) (Task c)) (\<lambda>w3.
       map_option (\<lambda>vm. (vm_pid vm, w3)) (vm_of w3 c))))))"

definition call_clone :: "clone_host \<Rightarrow> 'os host_calls \<Rightarrow> 'os procs \<Rightarrow> vmptr \<Rightarrow> u32 \<Rightarrow> u32 \<Rightarrow> u32 \<Rightarrow> u32 \<Rightarrow> u32 \<Rightarrow> 'os procs handler_result" where
  "call_clone ch hc w v flags child_stack_addr ptid_addr tls_addr ctid_addr =
     clone_task ch hc w v child_stack_addr flags ctid_addr"

definition call_set_tid_address :: "'os procs \<Rightarrow> vmptr \<Rightarrow> u32 \<Rightarrow> 'os procs handler_result" where
  "call_set_tid_address w v tid_address =
     map_option (\<lambda>vm. (vm_pid vm, w\<lparr>set_child_tid := (set_child_tid w)(v := tid_address)\<rparr>)) (vm_of w v)"

subsection \<open>Releasing an address space\<close>

fun reclaim_regions :: "vmptr \<Rightarrow> nat \<Rightarrow> nat \<Rightarrow> machine \<Rightarrow> machine option" where
  "reclaim_regions v idx 0 m = Some m"
| "reclaim_regions v idx (Suc k) m =
     Option.bind (vms m v) (\<lambda>vm.
     Option.bind (if pmr_reclaim (pmr_ops vm ! idx) \<noteq> None then vma_generic_reclaim m v idx else Some m)
       (reclaim_regions v (Suc idx) k))"

definition reclaim_virtual_memory :: "'os procs \<Rightarrow> vmptr \<Rightarrow> 'os procs option" where
  "reclaim_virtual_memory w v =
     Option.bind (vm_of w v) (\<lambda>vm.
       if cloned_vm vm
       then Option.bind (parent_vm vm) (\<lambda>p. Some (upd_vm v (\<lambda>vm. vm\<lparr>cloned_vm := False\<rparr>) (deference_task p w)))
       else map_option (\<lambda>m. upd_vm v (\<lambda>vm. vm\<lparr>nr_pmr_ops := 0, vma_heap := None, vma_stack := None\<rparr>) (w\<lparr>world_machine := m\<rparr>))
              (reclaim_regions v 0 (nr_pmr_ops vm) (world_machine w)))"

subsection \<open>The copy of the regions\<close>

text \<open>The allocator of the host does not run out of memory; a region is backed by all its bytes.\<close>

definition host_alloc_total :: "host_alloc \<Rightarrow> bool" where
  "host_alloc_total alloc \<longleftrightarrow> (\<forall>hm n. finite (dom hm) \<longrightarrow> alloc hm n \<noteq> None)"

definition region_len :: "pm_region_operation \<Rightarrow> nat" where
  "region_len r = unat (addr_high r - addr_low r)"

definition backed :: "machine \<Rightarrow> pm_region_operation \<Rightarrow> bool" where
  "backed m r \<longleftrightarrow> region_len r < 2 ^ 31 \<and> (\<exists>bytes. host_block m r = Some bytes \<and> length bytes = region_len r)"

lemma unat_scast_small: "unat x < 2 ^ 31 \<Longrightarrow> unat (scast (x :: u32) :: u64) = unat x"
proof -
  assume "unat x < 2 ^ 31"
  then have "int (unat x) < int (2 ^ 31)" by (simp only: of_nat_less_iff)
  moreover have "int (unat x) = uint x" by simp
  ultimately have "uint x < 2 ^ 31" by simp
  moreover have "0 \<le> uint x" by simp
  then have "- (2 ^ 31) \<le> uint x" by (rule order_trans [rotated]) simp
  ultimately have "sint x = uint x" by (simp add: sint_uint signed_take_bit_int_eq_self)
  then have "(scast x :: u64) = ucast x" by (metis scast_eq ucast_eq)
  then show ?thesis by simp
qed

text \<open>What the loop does not change in the child.\<close>

definition vm_frame :: "virtual_machine \<Rightarrow> virtual_machine" where
  "vm_frame vm = vm\<lparr>pmr_ops := [], vma_heap := None, vma_stack := None\<rparr>"

text \<open>One round of the loop: a new block with the bytes of the region.\<close>

lemma duplicate_step:
  assumes "host_alloc_ok alloc" "host_alloc_total alloc" "finite (dom (hmem m))" "backed m (pmr_ops cvm ! idx)"
  shows "\<exists>b child1. hmem m b = None \<and> pmr_ops child1 = (pmr_ops child)[idx := (pmr_ops cvm ! idx)\<lparr>host_base := Some b\<rparr>] \<and>
    vm_frame child1 = vm_frame child \<and> duplicate_regions alloc cvm idx (Suc k) child m =
      duplicate_regions alloc cvm (Suc idx) k child1 (m\<lparr>hmem := (hmem m)(b := host_block m (pmr_ops cvm ! idx))\<rparr>)"
proof -
  let ?r = "pmr_ops cvm ! idx"
  let ?n = "region_len ?r"
  obtain b where b: "alloc (hmem m) ?n = Some b" using assms(2,3) by (auto simp: host_alloc_total_def)
  then have fresh: "hmem m b = None" using assms(1,3) by (auto simp: host_alloc_ok_def)
  obtain p bytes where p: "host_base ?r = Some p" "hmem m p = Some bytes" "length bytes = ?n"
    using assms(4) by (auto simp: backed_def host_block_def split: bind_splits)
  have "p \<noteq> b" using p fresh by auto
  have n: "unat (scast (addr_high ?r - addr_low ?r) :: u64) = ?n"
    using assms(4) unat_scast_small by (simp add: backed_def region_len_def)
  have "splice (replicate ?n 0) 0 bytes = bytes" by (simp add: splice_def p(3))
  with b p \<open>p \<noteq> b\<close> n fresh show ?thesis
    by (intro exI [of _ b] exI [of _ "child\<lparr>pmr_ops := (pmr_ops child)[idx := ?r\<lparr>host_base := Some b\<rparr>],
        vma_heap := (if vma_heap cvm = Some idx then Some idx else vma_heap child),
        vma_stack := (if vma_stack cvm = Some idx then Some idx else vma_stack child)\<rparr>"])
       (simp add: vm_frame_def preallocate_physical_memory_def load_bytes_def bytes_from_def store_bytes_def host_block_def Let_def)
qed

lemma backed_fresh:
  "backed m r \<Longrightarrow> hmem m b = None \<Longrightarrow> backed (m\<lparr>hmem := (hmem m)(b := x)\<rparr>) r \<and> host_block (m\<lparr>hmem := (hmem m)(b := x)\<rparr>) r = host_block m r"
  by (auto simp: backed_def host_block_def split: bind_splits)

text \<open>
  The result of the loop from \<open>idx\<close> on: every region has a new block with the bytes of the
  original, and no block that was in use changes.
\<close>

definition copy_of :: "virtual_machine \<Rightarrow> machine \<Rightarrow> nat set \<Rightarrow> virtual_machine \<Rightarrow> (nat \<Rightarrow> nat) \<Rightarrow> virtual_machine \<Rightarrow> machine \<Rightarrow> bool" where
  "copy_of cvm m I child B child' m' \<longleftrightarrow> vms m' = vms m \<and>
     (\<forall>b. hmem m b \<noteq> None \<longrightarrow> hmem m' b = hmem m b) \<and> inj_on B I \<and>
     (\<forall>i\<in>I. hmem m (B i) = None \<and> hmem m' (B i) = host_block m (pmr_ops cvm ! i)) \<and>
     vm_frame child' = vm_frame child \<and> length (pmr_ops child') = length (pmr_ops child) \<and>
     (\<forall>i<length (pmr_ops child). pmr_ops child' ! i =
       (if i \<in> I then (pmr_ops cvm ! i)\<lparr>host_base := Some (B i)\<rparr> else pmr_ops child ! i))"

lemma copy_of_step:
  assumes r: "backed m (pmr_ops cvm ! idx)" and b: "hmem m b = None" and new: "idx \<notin> I"
    and child1: "pmr_ops child1 = (pmr_ops child)[idx := (pmr_ops cvm ! idx)\<lparr>host_base := Some b\<rparr>]" "vm_frame child1 = vm_frame child"
    and later: "\<forall>i\<in>I. backed m (pmr_ops cvm ! i)"
    and copy: "copy_of cvm (m\<lparr>hmem := (hmem m)(b := host_block m (pmr_ops cvm ! idx))\<rparr>) I child1 B child' m'"
  shows "copy_of cvm m (insert idx I) child (B(idx := b)) child' m'"
proof -
  let ?m1 = "m\<lparr>hmem := (hmem m)(b := host_block m (pmr_ops cvm ! idx))\<rparr>"
  have some: "host_block m (pmr_ops cvm ! idx) \<noteq> None" using r by (auto simp: backed_def)
  have same: "host_block ?m1 (pmr_ops cvm ! i) = host_block m (pmr_ops cvm ! i)" if "i \<in> I" for i
    using that later b backed_fresh by blast
  have B: "B i \<noteq> b" "hmem m (B i) = None" if "i \<in> I" for i
    using copy that some by (auto simp: copy_of_def split: if_splits)
  have frame: "hmem m' x = hmem ?m1 x" if "hmem ?m1 x \<noteq> None" for x
    using copy that unfolding copy_of_def by blast
  have "hmem m' b = host_block m (pmr_ops cvm ! idx)" using frame [of b] some by simp
  moreover have "inj_on (B(idx := b)) (insert idx I)" using copy B(1) new by (auto simp: copy_of_def inj_on_def)
  moreover have "\<forall>x. hmem m x \<noteq> None \<longrightarrow> hmem m' x = hmem m x" using frame b by (metis fun_upd_apply machine.select_convs(2) machine.surjective machine.update_convs(2))
  ultimately show ?thesis
    using copy B b new same child1 unfolding copy_of_def by (auto simp: nth_list_update)
qed

lemma duplicate_regions_copies:
  assumes "host_alloc_ok alloc" "host_alloc_total alloc" "finite (dom (hmem m))"
    and "\<forall>i\<in>{idx..<idx + k}. backed m (pmr_ops cvm ! i)"
  shows "\<exists>child' m' B. duplicate_regions alloc cvm idx k child m = Some (child', m') \<and> copy_of cvm m {idx..<idx + k} child B child' m'"
  using assms(3,4)
proof (induction k arbitrary: idx child m)
  case 0
  then show ?case by (simp add: copy_of_def)
next
  case (Suc k)
  let ?I = "{Suc idx..<Suc idx + k}"
  have range: "{idx..<idx + Suc k} = insert idx ?I" by auto
  have here: "backed m (pmr_ops cvm ! idx)" and later: "\<forall>i\<in>?I. backed m (pmr_ops cvm ! i)" using Suc.prems(2) by auto
  from duplicate_step [OF assms(1,2) Suc.prems(1) here, of child k]
  obtain b child1 where b: "hmem m b = None"
    and child1: "pmr_ops child1 = (pmr_ops child)[idx := (pmr_ops cvm ! idx)\<lparr>host_base := Some b\<rparr>]" "vm_frame child1 = vm_frame child"
    and step: "duplicate_regions alloc cvm idx (Suc k) child m =
      duplicate_regions alloc cvm (Suc idx) k child1 (m\<lparr>hmem := (hmem m)(b := host_block m (pmr_ops cvm ! idx))\<rparr>)"
    by blast
  let ?m1 = "m\<lparr>hmem := (hmem m)(b := host_block m (pmr_ops cvm ! idx))\<rparr>"
  have "finite (dom (hmem ?m1))" using Suc.prems(1) by (simp add: dom_fun_upd)
  moreover have "\<forall>i\<in>?I. backed ?m1 (pmr_ops cvm ! i)" using later b backed_fresh by blast
  ultimately obtain child' m' B where IH: "duplicate_regions alloc cvm (Suc idx) k child1 ?m1 = Some (child', m')"
    "copy_of cvm ?m1 ?I child1 B child' m'"
    using Suc.IH by blast
  from copy_of_step [OF here b _ child1 later IH(2)] have "copy_of cvm m (insert idx ?I) child (B(idx := b)) child' m'" by simp
  with step IH(1) show ?case unfolding range by auto
qed

subsection \<open>The memory of the child\<close>

lemma vm_frame_fields:
  assumes "vm_frame a = vm_frame b"
  shows "nr_pmr_ops a = nr_pmr_ops b" "vm_pid a = vm_pid b" "vm_ppid a = vm_ppid b" "vm_tgid a = vm_tgid b"
    "parent_vm a = parent_vm b" "cloned_vm a = cloned_vm b" "cloned_files a = cloned_files b" "cloned_fs a = cloned_fs b"
  using assms by (cases a; cases b; simp add: vm_frame_def)+

lemma in_region_base [simp]: "in_region a (r\<lparr>host_base := b\<rparr>) = in_region a r" "region_offset a (r\<lparr>host_base := b\<rparr>) = region_offset a r"
  by (simp_all add: in_region_def region_offset_def)

lemma copied_memory:
  assumes wf: "vm_wf cvm" and copy: "copy_of cvm m {0..<nr_pmr_ops cvm} child B child' m'"
    and child: "length (pmr_ops child) = MAX_VMA_NR" "nr_pmr_ops child = nr_pmr_ops cvm"
    and backed: "\<forall>r\<in>set (live_regions cvm). backed m r"
  shows "vm_wf child'" "guest_byte m' child' a = guest_byte m cvm a" "guest_byte m' cvm a = guest_byte m cvm a"
    "r \<in> set (live_regions child') \<Longrightarrow> \<exists>b. host_base r = Some b \<and> hmem m b = None"
proof -
  let ?n = "nr_pmr_ops cvm"
  have n: "nr_pmr_ops child' = ?n" "?n \<le> MAX_VMA_NR" "length (pmr_ops child') = MAX_VMA_NR"
    using copy child wf vm_frame_fields(1) [of child' child] by (simp_all add: copy_of_def vm_wf_def)
  have ops: "pmr_ops child' ! i = (pmr_ops cvm ! i)\<lparr>host_base := Some (B i)\<rparr>"
    "hmem m (B i) = None" "hmem m' (B i) = host_block m (pmr_ops cvm ! i)" if "i < ?n" for i
    using copy that n(2) child(1) by (simp_all add: copy_of_def)
  have live: "live_regions child' = map (\<lambda>i. (pmr_ops cvm ! i)\<lparr>host_base := Some (B i)\<rparr>) [0..<?n]"
    using n ops(1) by (intro nth_equalityI) (simp_all add: live_regions_def)
  have livec: "live_regions cvm = map (\<lambda>i. pmr_ops cvm ! i) [0..<?n]"
    using n(2) wf by (intro nth_equalityI) (simp_all add: live_regions_def vm_wf_def)
  show wf': "vm_wf child'"
    using wf n unfolding vm_wf_def live livec by (simp add: sorted_wrt_map)
  show "guest_byte m' child' a = guest_byte m cvm a"
  proof (cases "region_at cvm a")
    case None
    then have "\<forall>i<?n. \<not> in_region a (pmr_ops cvm ! i)" using region_at_none [OF wf, of a] by (auto simp: livec)
    then have "region_at child' a = None" using region_at_none [OF wf', of a] by (auto simp: live)
    with None show ?thesis by (simp add: guest_byte_def)
  next
    case (Some q)
    then obtain i where i: "i < ?n" "q = pmr_ops cvm ! i" "in_region a q" using region_at_Some [OF wf] by blast
    then have "region_at child' a = Some (q\<lparr>host_base := Some (B i)\<rparr>)"
      using region_at_Some [OF wf', of a] ops(1) n(1) by auto
    moreover have "host_block m' (q\<lparr>host_base := Some (B i)\<rparr>) = host_block m q"
      using i ops(3) by (simp add: host_block_def)
    ultimately show ?thesis using Some by (simp only: guest_byte_def in_region_base bind.simps)
  qed
  have "host_block m' q = host_block m q" if "q \<in> set (live_regions cvm)" for q
  proof -
    have "host_block m q \<noteq> None" using backed that by (auto simp: backed_def)
    with copy show ?thesis by (cases "host_base q") (auto simp: copy_of_def host_block_def)
  qed
  moreover have "q \<in> set (live_regions cvm)" if "region_at cvm a = Some q" for q
    using region_at_live [OF wf, of a q] that by simp
  ultimately show "guest_byte m' cvm a = guest_byte m cvm a"
    by (cases "region_at cvm a") (simp_all add: guest_byte_def)
  show "\<exists>b. host_base r = Some b \<and> hmem m b = None" if "r \<in> set (live_regions child')"
    using that ops(2) by (auto simp: live)
qed

subsection \<open>The child is scheduled\<close>

lemma zeroed_detached:
  "lists_ok heads H Q \<Longrightarrow> e \<notin> heads \<Longrightarrow> \<forall>l\<in>heads. e \<notin> set (Q l) \<Longrightarrow> H(e := zeroed_links) = H"
  by (auto simp: lists_ok_def detached_def zeroed_links_def fun_eq_iff intro!: list_elem.equality)

lemma list_init_empty: "dlist H l [] \<Longrightarrow> list_init H l = H"
  by (auto simp: dlist_def list_init_def link_updates fun_eq_iff intro!: list_elem.equality)

text \<open>What the parts leave alone, and the scheduler's view of the child.\<close>

definition sched_view :: "'os procs \<Rightarrow> sched_node links \<times> (taskptr \<Rightarrow> task) \<times> (u64 \<rightharpoonup> x86_64_cpustate) \<times> taskptr option \<times> u32" where
  "sched_view w = (links w, tasks w, cpustates w, current w, gpid_counter w)"

lemma sched_view_parts:
  "sched_view (upd_vm v f w) = sched_view w" "sched_view (reference_task v w) = sched_view w"
  "sched_view (task_fs_init w cur c flags) = sched_view w"
  "task_vm_init ch w cur cvm c flags = Some w' \<Longrightarrow> sched_view w' = sched_view w"
  "task_files_init hc w cur c flags = Some w' \<Longrightarrow> sched_view w' = sched_view w"
  "task_threads_init w c child_stack flags ctid = Some w' \<Longrightarrow> sched_view w' = sched_view w"
proof -
  show 1: "sched_view (upd_vm v f w) = sched_view w" for v f and w :: "'a procs" by (simp add: sched_view_def upd_vm_def)
  show 2: "sched_view (reference_task v w) = sched_view w" for v and w :: "'a procs" by (simp add: reference_task_def 1)
  show "sched_view (task_fs_init w cur c flags) = sched_view w"
    by (simp add: task_fs_init_def 1 2) (simp add: sched_view_def)
  show "sched_view w' = sched_view w" if "task_vm_init ch w cur cvm c flags = Some w'"
    using that by (auto simp: task_vm_init_def 1 2 duplicate_virtual_memory_def split: if_splits bind_splits) (simp add: sched_view_def)
  show "sched_view w' = sched_view w" if "task_files_init hc w cur c flags = Some w'"
    using that by (auto simp: task_files_init_def 1 2 split: if_splits) (simp add: sched_view_def)
  show "sched_view w' = sched_view w" if "task_threads_init w c child_stack flags ctid = Some w'"
    using that by (auto simp: task_threads_init_def Let_def sched_view_def split: if_splits)
qed

lemma clone_parts_sched:
  assumes "clone_parts ch hc w cur cvm c child_stack flags ctid = Some w'"
  shows "links w' = list_init ((links w)(Hart_list (Task c) := zeroed_links)) (Wq_pivot (Task c))"
    "tasks w' = (tasks w)(Task c := init_task (ch_stack ch c))" "cpustates w' = cpustates w" "current w' = current w"
    "gpid_counter w' = gpid_counter w + 1"
proof -
  let ?w1 = "task_linkage_init w cur cvm c flags"
  have link: "sched_view ?w1 = sched_view (w\<lparr>gpid_counter := gpid_counter w + 1\<rparr>)"
    by (simp add: task_linkage_init_def new_pid_def sched_view_parts(1,2))
  have "sched_view w' = sched_view (task_cpu_init ch ?w1 cur c)"
    using assms unfolding clone_parts_def
    by (auto simp: sched_view_parts(3) split: bind_splits dest!: sched_view_parts(4-6))
  with link show "links w' = list_init ((links w)(Hart_list (Task c) := zeroed_links)) (Wq_pivot (Task c))"
    "tasks w' = (tasks w)(Task c := init_task (ch_stack ch c))" "cpustates w' = cpustates w" "current w' = current w"
    "gpid_counter w' = gpid_counter w + 1"
    by (simp_all add: sched_view_def task_cpu_init_def)
qed

lemma sched_init_links [simp]:
  "task_vmm_sched_init (w\<lparr>links := H\<rparr>) t f x = (task_vmm_sched_init w t f x)\<lparr>links := H\<rparr>"
  "links (task_vmm_sched_init w t f x) = links w"
  by (simp_all add: task_vmm_sched_init_def Let_def upd_task_def)

definition child_free :: "'os procs \<Rightarrow> queues \<Rightarrow> (sched_node \<Rightarrow> sched_node list) \<Rightarrow> vmptr \<Rightarrow> bool" where
  "child_free w q B c \<longleftrightarrow> vm_of w c = None \<and> Task c \<notin> queued q \<and> B (Wq_pivot (Task c)) = [] \<and>
     (\<forall>l\<in>sched_heads. Vm_list_node c \<notin> set (sched_lists q B l))"

lemma queues_ok_register:
  assumes "queues_ok H q B" "lists_ok sched_heads H' ((sched_lists q B)(global_task_list_head := B global_task_list_head @ [Vm_list_node c]))"
  shows "queues_ok H' q (B(global_task_list_head := B global_task_list_head @ [Vm_list_node c]))"
proof -
  have "(sched_lists q B)(global_task_list_head := B global_task_list_head @ [Vm_list_node c]) =
      sched_lists q (B(global_task_list_head := B global_task_list_head @ [Vm_list_node c]))"
    by (simp add: sched_lists_def fun_eq_iff)
  with assms show ?thesis by (auto simp: queues_ok_def)
qed

definition initial_frame :: "clone_host \<Rightarrow> vmptr \<Rightarrow> x86_64_cpustate" where
  "initial_frame ch c = \<lparr>cpu_rdi = ch_hart ch c, cpu_others = replicate 14 0, cpu_rflag = 0, cpu_rip = ch_vmresume ch,
     cpu_trap_reason = USERSPACE_TRAP_REASON_INIT\<rparr>"

lemma clone_task_schedules:
  assumes "vm_of w cur = Some cvm" "allocate_virtual_machine_descriptor ch w = Some (c, w0)"
    and parts: "clone_parts ch hc w0 cur cvm c child_stack flags ctid = Some w1" and vm: "vm_of w1 c = Some child"
    and q: "queues_ok (links w) q B" "child_free w q B c"
  shows "\<exists>w'. clone_task ch hc w cur child_stack flags ctid = Some (vm_pid child, w') \<and>
    (\<exists>H. w' = (task_vmm_sched_init w1 (Task c) (ch_vmresume ch) (ch_hart ch c))\<lparr>links := H\<rparr>) \<and>
    queues_ok (links w') (q\<lparr>runq := runq q @ [Task c]\<rparr>) (B(global_task_list_head := B global_task_list_head @ [Vm_list_node c])) \<and>
    state_of w' (Task c) = TASK_STATE_RUNNING \<and> cpustates w' (host_cpustate (tasks w' (Task c))) = Some (initial_frame ch c)"
proof -
  have ok: "lists_ok sched_heads (links w) (sched_lists q B)" using q(1) by (simp add: queues_ok_def)
  have hart: "\<forall>l\<in>sched_heads. Hart_list (Task c) \<notin> set (sched_lists q B l)"
    using q(2) by (intro queues_ok_free [OF q(1)]) (simp add: child_free_def)
  have "links w0 = links w"
    using assms(2) zeroed_detached [OF ok, of "Vm_list_node c"] q(2)
    by (auto simp: allocate_virtual_machine_descriptor_def child_free_def)
  moreover have "dlist (links w) (Wq_pivot (Task c)) []"
    using lists_ok_dlist [OF ok, of "Wq_pivot (Task c)"] q(2) by (simp add: sched_lists_def child_free_def)
  ultimately have l1: "links w1 = links w"
    using clone_parts_sched(1) [OF parts] zeroed_detached [OF ok, of "Hart_list (Task c)"] hart list_init_empty by simp
  have "\<forall>l\<in>sched_heads. Vm_list_node c \<notin> set (sched_lists q B l)" using q(2) by (simp add: child_free_def)
  then obtain H2 where H2: "register_task w1 c = Some (w1\<lparr>links := H2\<rparr>)"
    "queues_ok H2 q (B(global_task_list_head := B global_task_list_head @ [Vm_list_node c]))"
    using register_task_ok [of w1 "sched_lists q B" c] ok l1 queues_ok_register [OF q(1)]
    by (auto simp: sched_lists_def)
  let ?w2 = "task_vmm_sched_init w1 (Task c) (ch_vmresume ch) (ch_hart ch c)"
  have t: "state_of ?w2 (Task c) = TASK_STATE_RUNNING"
    using clone_parts_sched(2) [OF parts] by (simp add: task_vmm_sched_init_def Let_def upd_task_def init_task_def)
  then obtain H3 where H3: "schedule_task (?w2\<lparr>links := H2\<rparr>) (Task c) = Some (?w2\<lparr>links := H3\<rparr>)"
    "queues_ok H3 (enqueue (state_of ?w2) [Task c] q) (B(global_task_list_head := B global_task_list_head @ [Vm_list_node c]))"
    using schedule_task_refines [of "?w2\<lparr>links := H2\<rparr>" q _ "Task c"] H2(2) q(2) by (auto simp: schedulable_def child_free_def)
  have eq: "enqueue (state_of ?w2) [Task c] q = q\<lparr>runq := runq q @ [Task c]\<rparr>" using t by (simp add: queue_spec_defs)
  have "vm_of (?w2\<lparr>links := H3\<rparr>) c = Some child" using vm by (simp add: task_vmm_sched_init_def Let_def upd_task_def)
  then have "clone_task ch hc w cur child_stack flags ctid = Some (vm_pid child, ?w2\<lparr>links := H3\<rparr>)"
    using assms(1,2) parts H2(1) H3(1) by (simp add: clone_task_def)
  moreover have "cpustates ?w2 (host_cpustate (tasks ?w2 (Task c))) = Some (initial_frame ch c)"
    by (simp add: task_vmm_sched_init_def Let_def upd_task_def initial_frame_def)
  ultimately show ?thesis using H3(2) t eq by (intro exI [of _ "?w2\<lparr>links := H3\<rparr>"]) auto
qed

subsection \<open>The files of the child\<close>

text \<open>
  What a \<open>fork\<close> is to make of the table of the parent: each open file is opened again by the host, in
  the order of the table, and differs from that of the parent in the descriptor of the host only.
\<close>

fun reopened_files :: "'os host_calls \<Rightarrow> file_desc list \<Rightarrow> 'os \<Rightarrow> file_desc list \<times> 'os" where
  "reopened_files hc [] os = ([], os)"
| "reopened_files hc (f # fs) os =
     (if valid f
      then let (hfd, os1) = os_open hc (the (host_cpath f)) (cb_flags f) (cb_mode f) os; (gs, os2) = reopened_files hc fs os1
           in (f\<lparr>host_fd := hfd\<rparr> # gs, os2)
      else let (gs, os2) = reopened_files hc fs os in (cleared_file # gs, os2))"

lemma reopened_length: "reopened_files hc fs os = (gs, os') \<Longrightarrow> length gs = length fs"
  by (induction fs arbitrary: os gs os') (auto split: prod.splits if_splits)

lemma duplicate_files_reopens:
  assumes "\<forall>f\<in>set fs. valid f \<longrightarrow> regular f" "reopened_files hc fs os = (gs, os')" "length ready = length pre"
  shows "duplicate_files hc (pre @ fs @ post) (length pre) (length fs) (ready @ replicate (length fs) cleared_file @ rest) os =
    Some (ready @ gs @ rest, os')"
  using assms
proof (induction fs arbitrary: pre ready os gs os')
  case (Cons f fs)
  let ?child = "ready @ replicate (length (f # fs)) cleared_file @ rest"
  have at: "(pre @ (f # fs) @ post) ! length pre = f" "?child ! length pre = cleared_file"
    "?child[length pre := g] = (ready @ [g]) @ replicate (length fs) cleared_file @ rest" for g
    using Cons.prems(3) by (simp_all add: nth_append list_update_append flip: Cons.prems(3))
  have IH: "duplicate_files hc (pre @ (f # fs) @ post) (Suc (length pre)) (length fs) ((ready @ [g]) @ replicate (length fs) cleared_file @ rest) os1 =
      Some ((ready @ [g]) @ gs1 @ rest, os2)" if "reopened_files hc fs os1 = (gs1, os2)" for g gs1 os1 os2
    using Cons.IH [of os1 gs1 os2 "ready @ [g]" "pre @ [f]"] Cons.prems(1,3) that by simp
  show ?case
  proof (cases "valid f")
    case True
    then obtain p where p: "host_cpath f = Some p" "cb_file_type f = FILE_TYPE_REGULAR" using Cons.prems(1) by (auto simp: regular_def)
    obtain hfd os1 where opens: "os_open hc p (cb_flags f) (cb_mode f) os = (hfd, os1)" by fastforce
    obtain gs1 where gs1: "reopened_files hc fs os1 = (gs1, os')" "gs = f\<lparr>host_fd := hfd\<rparr> # gs1"
      using Cons.prems(2) True p(1) opens by (auto split: prod.splits)
    have "cleared_file\<lparr>valid := True, fd_of := fd_of f, host_cpath := Some p, cb_file_type := FILE_TYPE_REGULAR,
        cb_mode := cb_mode f, cb_flags := cb_flags f, host_fd := hfd\<rparr> = f\<lparr>host_fd := hfd\<rparr>"
      using True p by (cases f) (simp add: cleared_file_def)
    with True p opens gs1 IH at show ?thesis by (simp add: Let_def)
  next
    case False
    then obtain gs1 where gs1: "reopened_files hc fs os = (gs1, os')" "gs = cleared_file # gs1"
      using Cons.prems(2) by (auto split: prod.splits)
    have "cleared_file\<lparr>valid := False\<rparr> = cleared_file" by (simp add: cleared_file_def)
    with False gs1 IH at show ?thesis by (simp add: Let_def)
  qed
qed simp

lemma duplicate_files_all:
  assumes "files_ok (files w v)" "regs_ok w" "reopened_files hc (files w v) os = (gs, os')"
  shows "duplicate_files hc (files w v) 0 MAX_FILES_NR (replicate MAX_FILES_NR cleared_file) os = Some (gs, os')"
proof -
  have "length (files w v) = MAX_FILES_NR" using assms(1) by (simp add: files_ok_def)
  moreover have "\<forall>f\<in>set (files w v). valid f \<longrightarrow> regular f"
    using regs_ok_nth [OF assms(2)] by (metis in_set_conv_nth)
  ultimately show ?thesis using duplicate_files_reopens [of "files w v" hc os gs os' "[]" "[]" "[]" "[]"] assms(3) by simp
qed

subsection \<open>Forking\<close>

text \<open>Flags of a \<open>fork\<close>: nothing is shared.\<close>

definition fork_flags :: "u32 \<Rightarrow> bool" where
  "fork_flags flags \<longleftrightarrow> flags AND CLONE_VM = 0 \<and> flags AND CLONE_FS = 0 \<and> flags AND CLONE_FILES = 0 \<and>
     flags AND CLONE_THREAD = 0 \<and> flags AND CLONE_CHILD_SETTID = 0"

definition fresh_child :: "u32 \<Rightarrow> vmptr \<Rightarrow> virtual_machine \<Rightarrow> virtual_machine" where
  "fresh_child pid cur cvm = zeroed_vm\<lparr>vm_pid := pid, vm_ppid := vm_pid cvm, vm_tgid := pid, parent_vm := Some cur\<rparr>"

text \<open>The state in which the memory is copied.\<close>

lemma linkage_and_cpu:
  fixes ch :: clone_host
  assumes "vm_of w cur = Some cvm" "c \<noteq> cur" "fork_flags flags"
    and "w0 = w\<lparr>world_machine := set_vm c zeroed_vm (world_machine w), files := F, fs_root := R, fs_cwd := D, set_child_tid := T, links := L\<rparr>"
  defines "w1 \<equiv> task_cpu_init ch (task_linkage_init w0 cur cvm c flags) cur c"
  shows "world_machine w1 = set_vm cur (cvm\<lparr>ref_count := ref_count cvm + 1\<rparr>) (set_vm c (fresh_child (gpid_counter w) cur cvm) (world_machine w))"
    "files w1 = F" "fs_root w1 = R" "fs_cwd w1 = D" "os_state w1 = os_state w"
    "harts w1 = (harts w)(c := (hart_init 0)\<lparr>native_vmptr := c, registers := (registers (harts w cur))[10 := 0], pc := pc (harts w cur) + 4\<rparr>)"
  using assms
  by (simp_all add: w1_def task_cpu_init_def task_linkage_init_def new_pid_def reference_task_def upd_vm_def set_vm_def
      fork_flags_def fresh_child_def)

lemma guest_byte_vms [simp]:
  "guest_byte (set_vm v x m) vm a = guest_byte m vm a" "host_block (set_vm v x m) r = host_block m r"
  "hmem (set_vm v x m) = hmem m" "backed (set_vm v x m) r = backed m r" "vms (set_vm v x m) = (vms m)(v \<mapsto> x)"
  by (simp_all add: guest_byte_def host_block_def set_vm_def backed_def)

lemma guest_byte_count [simp]: "guest_byte m (vm\<lparr>ref_count := n\<rparr>) a = guest_byte m vm a"
  by (simp add: guest_byte_def region_at_def live_regions_def)

lemma fork_parts:
  assumes "vm_of w cur = Some cvm" "ch_vm ch (vms (world_machine w)) = Some c" "c \<noteq> cur" "fork_flags flags"
    and "host_alloc_ok (ch_block ch)" "host_alloc_total (ch_block ch)" "finite (dom (hmem (world_machine w)))"
    and "vm_wf cvm" "\<forall>r\<in>set (live_regions cvm). backed (world_machine w) r"
    and "files_ok (files w cur)" "regs_ok w"
  shows "\<exists>w0 w1 child. allocate_virtual_machine_descriptor ch w = Some (c, w0) \<and>
    clone_parts ch hc w0 cur cvm c child_stack flags ctid = Some w1 \<and> vm_of w1 c = Some child \<and>
    vm_frame child = vm_frame ((fresh_child (gpid_counter w) cur cvm)\<lparr>nr_pmr_ops := nr_pmr_ops cvm\<rparr>) \<and>
    (\<exists>B. copy_of cvm (world_machine w) {0..<nr_pmr_ops cvm} ((fresh_child (gpid_counter w) cur cvm)\<lparr>nr_pmr_ops := nr_pmr_ops cvm\<rparr>) B child
       ((world_machine w1)\<lparr>vms := vms (world_machine w)\<rparr>)) \<and>
    vm_of w1 cur = Some (cvm\<lparr>ref_count := ref_count cvm + 1\<rparr>) \<and> (\<forall>v. v \<noteq> c \<longrightarrow> v \<noteq> cur \<longrightarrow> vm_of w1 v = vm_of w v) \<and>
    harts w1 = (harts w)(c := (hart_init 0)\<lparr>native_vmptr := c, registers := (registers (harts w cur))[10 := 0], pc := pc (harts w cur) + 4\<rparr>) \<and>
    fs_root w1 = (fs_root w)(c := fs_root w cur) \<and> fs_cwd w1 = (fs_cwd w)(c := fs_cwd w cur) \<and>
    (\<exists>fs. reopened_files hc (files w cur) (os_state w) = (fs, os_state w1) \<and> files w1 = (files w)(c := fs))"
proof -
  let ?m = "world_machine w" and ?cvm1 = "cvm\<lparr>ref_count := ref_count cvm + 1\<rparr>"
  let ?child0 = "(fresh_child (gpid_counter w) cur cvm)\<lparr>nr_pmr_ops := nr_pmr_ops cvm\<rparr>"
  define m1 where "m1 = set_vm cur ?cvm1 (set_vm c (fresh_child (gpid_counter w) cur cvm) ?m)"
  have m1: "hmem m1 = hmem ?m" "vms m1 c = Some (fresh_child (gpid_counter w) cur cvm)" "vms m1 cur = Some ?cvm1"
    "backed m1 = backed ?m" "host_block m1 = host_block ?m" "\<forall>v. v \<noteq> c \<longrightarrow> v \<noteq> cur \<longrightarrow> vms m1 v = vms ?m v"
    using assms(3) by (simp_all add: m1_def fun_eq_iff)
  define F where "F = (files w)(c := replicate MAX_FILES_NR cleared_file)"
  obtain w0 where w0: "allocate_virtual_machine_descriptor ch w = Some (c, w0)"
    "w0 = w\<lparr>world_machine := set_vm c zeroed_vm ?m, files := F, fs_root := (fs_root w)(c := []), fs_cwd := (fs_cwd w)(c := []),
       set_child_tid := (set_child_tid w)(c := 0), links := (links w)(Vm_list_node c := zeroed_links)\<rparr>"
    using assms(2) by (simp add: allocate_virtual_machine_descriptor_def F_def)
  define w1 where "w1 = task_cpu_init ch (task_linkage_init w0 cur cvm c flags) cur c"
  note base = linkage_and_cpu [OF assms(1,3,4) w0(2), where ch = ch, folded w1_def m1_def]
  have "\<forall>i\<in>{0..<0 + nr_pmr_ops cvm}. backed m1 (pmr_ops cvm ! i)"
    using assms(8,9) set_live_regions [of cvm] by (auto simp: vm_wf_def m1)
  then obtain child' m' B where dup: "duplicate_regions (ch_block ch) cvm 0 (nr_pmr_ops cvm) ?child0 m1 = Some (child', m')"
    and copy: "copy_of cvm m1 {0..<nr_pmr_ops cvm} ?child0 B child' m'"
    using duplicate_regions_copies [of "ch_block ch" m1 0 "nr_pmr_ops cvm" cvm ?child0] assms(5-7) by (auto simp: m1)
  obtain fs os' where fs: "reopened_files hc (files w cur) (os_state w) = (fs, os')" by fastforce
  have dupf: "duplicate_files hc (files w cur) 0 MAX_FILES_NR (F c) (os_state w) = Some (fs, os')"
    using duplicate_files_all [OF assms(10,11) fs] by (simp add: F_def)
  let ?w2 = "w1\<lparr>world_machine := set_vm c child' m', fs_root := (fs_root w1)(c := fs_root w cur), fs_cwd := (fs_cwd w1)(c := fs_cwd w cur),
    files := F(c := fs), os_state := os'\<rparr>"
  have "task_vm_init ch w1 cur cvm c flags = Some (w1\<lparr>world_machine := set_vm c child' m'\<rparr>)"
    using dup base(1) m1(2) assms(4) by (simp add: task_vm_init_def duplicate_virtual_memory_def fork_flags_def)
  then have parts: "clone_parts ch hc w0 cur cvm c child_stack flags ctid = Some ?w2"
    using assms(3,4) base dupf
    by (simp add: clone_parts_def task_fs_init_def task_files_init_def task_threads_init_def fork_flags_def F_def flip: w1_def)
  have "copy_of cvm ?m {0..<nr_pmr_ops cvm} ?child0 B child' ((set_vm c child' m')\<lparr>vms := vms ?m\<rparr>)"
    using copy by (simp add: copy_of_def m1)
  then have copy': "copy_of cvm ?m {0..<nr_pmr_ops cvm} ?child0 B child' ((world_machine ?w2)\<lparr>vms := vms ?m\<rparr>)" by simp
  have vms: "vms m' = vms m1" "vm_frame child' = vm_frame ?child0" using copy by (simp_all add: copy_of_def)
  show ?thesis
    by (rule exI [of _ w0], rule exI [of _ ?w2], rule exI [of _ child'], intro conjI exI [of _ B] w0(1) parts copy' vms(2))
       (use vms(1) base(3,4,6) fs assms(3) m1 in \<open>simp_all add: F_def w0(2) fun_eq_iff\<close>)
qed

lemma sched_init_fields [simp]:
  "world_machine (task_vmm_sched_init w t f x) = world_machine w" "harts (task_vmm_sched_init w t f x) = harts w"
  "files (task_vmm_sched_init w t f x) = files w" "fs_root (task_vmm_sched_init w t f x) = fs_root w"
  "fs_cwd (task_vmm_sched_init w t f x) = fs_cwd w" "gpid_counter (task_vmm_sched_init w t f x) = gpid_counter w"
  "os_state (task_vmm_sched_init w t f x) = os_state w"
  by (simp_all add: task_vmm_sched_init_def Let_def upd_task_def)

text \<open>The conditions under which a \<open>fork\<close> of the process \<open>cur\<close> gives the process \<open>c\<close>.\<close>

definition fork_ready :: "clone_host \<Rightarrow> 'os procs \<Rightarrow> queues \<Rightarrow> (sched_node \<Rightarrow> sched_node list) \<Rightarrow> vmptr \<Rightarrow> virtual_machine \<Rightarrow> vmptr \<Rightarrow> bool" where
  "fork_ready ch w q B cur cvm c \<longleftrightarrow> vm_of w cur = Some cvm \<and> ch_vm ch (vms (world_machine w)) = Some c \<and>
     queues_ok (links w) q B \<and> child_free w q B c \<and>
     host_alloc_ok (ch_block ch) \<and> host_alloc_total (ch_block ch) \<and> finite (dom (hmem (world_machine w))) \<and>
     vm_wf cvm \<and> (\<forall>r\<in>set (live_regions cvm). backed (world_machine w) r) \<and> files_ok (files w cur) \<and> regs_ok w"

text \<open>The registers with which the child starts: those of the parent, with result 0, behind the call.\<close>

definition child_hart :: "hart \<Rightarrow> vmptr \<Rightarrow> hart" where
  "child_hart h c = (hart_init 0)\<lparr>native_vmptr := c, registers := (registers h)[10 := 0], pc := pc h + 4\<rparr>"

lemma fork_result:
  assumes "fork_ready ch w q B cur cvm c" "fork_flags flags"
  shows "\<exists>w' child. clone_task ch hc w cur child_stack flags ctid = Some (gpid_counter w, w') \<and> vm_of w' c = Some child \<and>
    vm_wf child \<and> nr_pmr_ops child = nr_pmr_ops cvm \<and> vm_pid child = gpid_counter w \<and> vm_ppid child = vm_pid cvm \<and> \<not> cloned_vm child \<and> \<not> cloned_fs child \<and>
    (\<forall>a. guest_byte (world_machine w') child a = guest_byte (world_machine w) cvm a) \<and>
    vm_of w' cur = Some (cvm\<lparr>ref_count := ref_count cvm + 1\<rparr>) \<and>
    (\<forall>a. guest_byte (world_machine w') cvm a = guest_byte (world_machine w) cvm a) \<and>
    (\<forall>r\<in>set (live_regions child). \<exists>b. host_base r = Some b \<and> hmem (world_machine w) b = None) \<and>
    (\<forall>v. v \<noteq> c \<longrightarrow> v \<noteq> cur \<longrightarrow> vm_of w' v = vm_of w v) \<and> (\<forall>b. hmem (world_machine w) b \<noteq> None \<longrightarrow> hmem (world_machine w') b = hmem (world_machine w) b) \<and>
    harts w' = (harts w)(c := child_hart (harts w cur) c) \<and> fs_root w' = (fs_root w)(c := fs_root w cur) \<and> fs_cwd w' = (fs_cwd w)(c := fs_cwd w cur) \<and>
    (\<exists>fs. reopened_files hc (files w cur) (os_state w) = (fs, os_state w') \<and> files w' = (files w)(c := fs)) \<and>
    queues_ok (links w') (q\<lparr>runq := runq q @ [Task c]\<rparr>) (B(global_task_list_head := B global_task_list_head @ [Vm_list_node c])) \<and>
    state_of w' (Task c) = TASK_STATE_RUNNING \<and> cpustates w' (host_cpustate (tasks w' (Task c))) = Some (initial_frame ch c)"
proof -
  have "c \<noteq> cur" using assms(1) by (auto simp: fork_ready_def child_free_def)
  note ready = assms(1) [unfolded fork_ready_def]
  from ready \<open>c \<noteq> cur\<close> assms(2)
  obtain w0 w1 child B' where p: "allocate_virtual_machine_descriptor ch w = Some (c, w0)"
    "clone_parts ch hc w0 cur cvm c child_stack flags ctid = Some w1" "vm_of w1 c = Some child"
    "vm_frame child = vm_frame ((fresh_child (gpid_counter w) cur cvm)\<lparr>nr_pmr_ops := nr_pmr_ops cvm\<rparr>)"
    "copy_of cvm (world_machine w) {0..<nr_pmr_ops cvm} ((fresh_child (gpid_counter w) cur cvm)\<lparr>nr_pmr_ops := nr_pmr_ops cvm\<rparr>) B' child
       ((world_machine w1)\<lparr>vms := vms (world_machine w)\<rparr>)"
    "vm_of w1 cur = Some (cvm\<lparr>ref_count := ref_count cvm + 1\<rparr>)" "\<forall>v. v \<noteq> c \<longrightarrow> v \<noteq> cur \<longrightarrow> vm_of w1 v = vm_of w v"
    "harts w1 = (harts w)(c := child_hart (harts w cur) c)" "fs_root w1 = (fs_root w)(c := fs_root w cur)" "fs_cwd w1 = (fs_cwd w)(c := fs_cwd w cur)"
    "\<exists>fs. reopened_files hc (files w cur) (os_state w) = (fs, os_state w1) \<and> files w1 = (files w)(c := fs)"
    using fork_parts [of w cur cvm ch c flags hc child_stack ctid] unfolding child_hart_def by metis
  have fields: "nr_pmr_ops child = nr_pmr_ops cvm" "vm_pid child = gpid_counter w" "vm_ppid child = vm_pid cvm" "\<not> cloned_vm child" "\<not> cloned_fs child"
    using vm_frame_fields [OF p(4)] by (simp_all add: fresh_child_def zeroed_vm_def)
  have gb: "guest_byte (m\<lparr>vms := x\<rparr>) = guest_byte m" for m x by (simp add: guest_byte_def host_block_def fun_eq_iff)
  have mem: "vm_wf child" "guest_byte (world_machine w1) child a = guest_byte (world_machine w) cvm a"
    "guest_byte (world_machine w1) cvm a = guest_byte (world_machine w) cvm a"
    "\<forall>r\<in>set (live_regions child). \<exists>b. host_base r = Some b \<and> hmem (world_machine w) b = None" for a
    using copied_memory [OF _ p(5)] ready by (auto simp: fresh_child_def zeroed_vm_def gb)
  have blocks: "\<forall>b. hmem (world_machine w) b \<noteq> None \<longrightarrow> hmem (world_machine w1) b = hmem (world_machine w) b"
    using p(5) by (simp add: copy_of_def)
  from clone_task_schedules [OF _ p(1,2,3), of q B] ready
  obtain w' H where w': "clone_task ch hc w cur child_stack flags ctid = Some (vm_pid child, w')"
    "w' = (task_vmm_sched_init w1 (Task c) (ch_vmresume ch) (ch_hart ch c))\<lparr>links := H\<rparr>"
    "queues_ok (links w') (q\<lparr>runq := runq q @ [Task c]\<rparr>) (B(global_task_list_head := B global_task_list_head @ [Vm_list_node c]))"
    "state_of w' (Task c) = TASK_STATE_RUNNING" "cpustates w' (host_cpustate (tasks w' (Task c))) = Some (initial_frame ch c)"
    by blast
  have same: "world_machine w' = world_machine w1" "harts w' = harts w1" "files w' = files w1" "fs_root w' = fs_root w1" "fs_cwd w' = fs_cwd w1" "os_state w' = os_state w1"
    by (simp_all add: w'(2))
  show ?thesis
    by (rule exI [of _ w'], rule exI [of _ child], unfold same, intro conjI mem w'(3-5) fields p(3,6-11) blocks allI) (simp add: w'(1) fields)
qed

subsection \<open>Threads\<close>

definition thread_flags :: "u32 \<Rightarrow> bool" where
  "thread_flags flags \<longleftrightarrow> flags AND CLONE_VM \<noteq> 0 \<and> flags AND CLONE_FS \<noteq> 0 \<and> flags AND CLONE_FILES \<noteq> 0 \<and>
     flags AND CLONE_THREAD \<noteq> 0"

text \<open>The owner of a resource is found in any map that keeps the parents and the sharing flags.\<close>

lemma get_linked_vm_frame:
  assumes "get_linked_vm ms p hint = Some q"
    and "\<forall>x vm. ms x = Some vm \<longrightarrow> (\<exists>vm'. ms' x = Some vm' \<and> should_go hint vm' = should_go hint vm \<and> parent_vm vm' = parent_vm vm)"
  shows "get_linked_vm ms' p hint = Some q"
  using assms
proof (induction arbitrary: ms' rule: get_linked_vm.raw_induct [rotated, consumes 1])
  case (1 f ms current hint q)
  from 1(2) obtain vm where vm: "ms current = Some vm" by (auto split: option.splits)
  with 1(3) obtain vm' where vm': "ms' current = Some vm'" "should_go hint vm' = should_go hint vm" "parent_vm vm' = parent_vm vm"
    by blast
  from 1(2) vm show ?case
    by (subst get_linked_vm.simps) (auto simp: vm' split: option.splits if_splits intro: 1(1) [OF _ 1(3)])
qed

lemma thread_parts:
  assumes "vm_of w cur = Some cvm" "ch_vm ch (vms (world_machine w)) = Some c" "c \<noteq> cur" "thread_flags flags" "child_stack \<noteq> 0"
  shows "\<exists>w0 w1 child. allocate_virtual_machine_descriptor ch w = Some (c, w0) \<and>
    clone_parts ch hc w0 cur cvm c child_stack flags ctid = Some w1 \<and> vm_of w1 c = Some child \<and>
    cloned_vm child \<and> cloned_fs child \<and> cloned_files child \<and> parent_vm child = Some cur \<and>
    vm_pid child = gpid_counter w \<and> vm_tgid child = vm_pid cvm \<and> vm_wf child \<and> nr_pmr_ops child = 0 \<and>
    files w1 = (files w)(c := replicate MAX_FILES_NR cleared_file) \<and> fs_root w1 = (fs_root w)(c := []) \<and>
    vms (world_machine w1) = (vms (world_machine w))(c \<mapsto> child, cur \<mapsto> cvm\<lparr>ref_count := ref_count cvm + 4\<rparr>) \<and>
    hmem (world_machine w1) = hmem (world_machine w) \<and>
    registers (harts w1 c) = (registers (harts w cur))[10 := 0, 2 := child_stack] \<and> pc (harts w1 c) = pc (harts w cur) + 4"
proof -
  obtain w0 where w0: "allocate_virtual_machine_descriptor ch w = Some (c, w0)"
    using assms(2) by (simp add: allocate_virtual_machine_descriptor_def)
  have vms0: "vms (world_machine w0) = (vms (world_machine w))(c \<mapsto> zeroed_vm)" "hmem (world_machine w0) = hmem (world_machine w)"
    "gpid_counter w0 = gpid_counter w" "harts w0 = harts w"
    "files w0 = (files w)(c := replicate MAX_FILES_NR cleared_file)" "fs_root w0 = (fs_root w)(c := [])"
    using w0 assms(2) by (auto simp: allocate_virtual_machine_descriptor_def set_vm_def)
  let ?child = "(fresh_child (gpid_counter w) cur cvm)\<lparr>vm_tgid := vm_pid cvm, cloned_vm := True, cloned_fs := True, cloned_files := True\<rparr>"
  have "\<exists>w1. clone_parts ch hc w0 cur cvm c child_stack flags ctid = Some w1 \<and>
    vms (world_machine w1) = (vms (world_machine w))(c \<mapsto> ?child, cur \<mapsto> cvm\<lparr>ref_count := ref_count cvm + 4\<rparr>) \<and>
    hmem (world_machine w1) = hmem (world_machine w) \<and> files w1 = files w0 \<and> fs_root w1 = fs_root w0 \<and>
    registers (harts w1 c) = (registers (harts w cur))[10 := 0, 2 := child_stack] \<and> pc (harts w1 c) = pc (harts w cur) + 4"
    using assms(1,3-5) vms0
    by (simp add: clone_parts_def task_linkage_init_def new_pid_def reference_task_def task_cpu_init_def task_vm_init_def
        task_fs_init_def task_files_init_def task_threads_init_def upd_vm_def thread_flags_def fresh_child_def Let_def fun_eq_iff zeroed_vm_def)
  then obtain w1 where w1: "clone_parts ch hc w0 cur cvm c child_stack flags ctid = Some w1"
    "vms (world_machine w1) = (vms (world_machine w))(c \<mapsto> ?child, cur \<mapsto> cvm\<lparr>ref_count := ref_count cvm + 4\<rparr>)"
    "hmem (world_machine w1) = hmem (world_machine w)" "files w1 = files w0" "fs_root w1 = fs_root w0"
    "registers (harts w1 c) = (registers (harts w cur))[10 := 0, 2 := child_stack]" "pc (harts w1 c) = pc (harts w cur) + 4" by blast
  then show ?thesis
    by (rule_tac exI [of _ w0], rule_tac exI [of _ w1], rule_tac exI [of _ ?child])
       (use w0 vms0(5,6) assms(3) in \<open>simp add: fresh_child_def zeroed_vm_def vm_wf_def live_regions_def\<close>)
qed

lemma thread_result:
  assumes "vm_of w cur = Some cvm" "ch_vm ch (vms (world_machine w)) = Some c" "queues_ok (links w) q B" "child_free w q B c"
    and "thread_flags flags" "child_stack \<noteq> 0"
  shows "\<exists>w' child. clone_task ch hc w cur child_stack flags ctid = Some (gpid_counter w, w') \<and> hmem (world_machine w') = hmem (world_machine w) \<and>
    vms (world_machine w') = (vms (world_machine w))(c \<mapsto> child, cur \<mapsto> cvm\<lparr>ref_count := ref_count cvm + 4\<rparr>) \<and>
    vm_wf child \<and> nr_pmr_ops child = 0 \<and> cloned_vm child \<and> cloned_fs child \<and>
    files w' = (files w)(c := replicate MAX_FILES_NR cleared_file) \<and> fs_root w' = (fs_root w)(c := []) \<and>
    (\<forall>hint v. hint \<noteq> LINKAGE_HINT_NATIVE \<longrightarrow> owner_vm w cur hint = Some v \<longrightarrow> owner_vm w' c hint = Some v) \<and>
    registers (harts w' c) = (registers (harts w cur))[10 := 0, 2 := child_stack] \<and> pc (harts w' c) = pc (harts w cur) + 4 \<and>
    queues_ok (links w') (q\<lparr>runq := runq q @ [Task c]\<rparr>) (B(global_task_list_head := B global_task_list_head @ [Vm_list_node c]))"
proof -
  have c: "vm_of w c = None" "c \<noteq> cur" using assms(1,4) by (auto simp: child_free_def)
  from thread_parts [OF assms(1,2) c(2) assms(5,6), of hc ctid]
  obtain w0 w1 child where p: "allocate_virtual_machine_descriptor ch w = Some (c, w0)"
    "clone_parts ch hc w0 cur cvm c child_stack flags ctid = Some w1" "vm_of w1 c = Some child"
    "cloned_vm child \<and> cloned_fs child \<and> cloned_files child" "parent_vm child = Some cur" "vm_pid child = gpid_counter w"
    "vms (world_machine w1) = (vms (world_machine w))(c \<mapsto> child, cur \<mapsto> cvm\<lparr>ref_count := ref_count cvm + 4\<rparr>)"
    "hmem (world_machine w1) = hmem (world_machine w)"
    "registers (harts w1 c) = (registers (harts w cur))[10 := 0, 2 := child_stack]" "pc (harts w1 c) = pc (harts w cur) + 4"
    "vm_wf child" "nr_pmr_ops child = 0" "files w1 = (files w)(c := replicate MAX_FILES_NR cleared_file)" "fs_root w1 = (fs_root w)(c := [])"
    by blast
  from clone_task_schedules [OF assms(1) p(1,2,3) assms(3,4)]
  obtain w' H where w': "clone_task ch hc w cur child_stack flags ctid = Some (vm_pid child, w')"
    "w' = (task_vmm_sched_init w1 (Task c) (ch_vmresume ch) (ch_hart ch c))\<lparr>links := H\<rparr>"
    "queues_ok (links w') (q\<lparr>runq := runq q @ [Task c]\<rparr>) (B(global_task_list_head := B global_task_list_head @ [Vm_list_node c]))"
    by blast
  have same: "world_machine w' = world_machine w1" "harts w' = harts w1" "files w' = files w1" "fs_root w' = fs_root w1"
    by (simp_all add: w'(2))
  have share: "owner_vm w' c hint = Some v" if "hint \<noteq> LINKAGE_HINT_NATIVE" "owner_vm w cur hint = Some v" for hint v
  proof -
    have "\<forall>x vm. vms (world_machine w) x = Some vm \<longrightarrow> (\<exists>vm'. vms (world_machine w1) x = Some vm' \<and>
        should_go hint vm' = should_go hint vm \<and> parent_vm vm' = parent_vm vm)"
      using c assms(1) by (cases hint) (auto simp: p(7))
    then have "get_linked_vm (vms (world_machine w1)) cur hint = Some v"
      using get_linked_vm_frame that(2) unfolding owner_vm_def by blast
    moreover have "should_go hint child" using p(4) that(1) by (cases hint) auto
    ultimately show ?thesis
      unfolding owner_vm_def same using p(3,5) by (subst get_linked_vm.simps) simp
  qed
  show ?thesis
    by (rule exI [of _ w'], rule exI [of _ child], unfold same, intro conjI allI impI p(7-14) w'(3)) (use w'(1) p(4,6) share in auto)
qed

text \<open>A thread that was just created can fork in turn.\<close>

lemma thread_can_fork:
  assumes "vm_of w cur = Some cvm" "ch_vm ch (vms (world_machine w)) = Some c" "queues_ok (links w) q B" "child_free w q B c"
    and "thread_flags flags" "child_stack \<noteq> 0" "regs_ok w" "finite (dom (hmem (world_machine w)))"
    and "child_free w q B c2" "c2 \<noteq> c" "host_alloc_ok (ch_block ch2)" "host_alloc_total (ch_block ch2)"
    and "\<forall>ms. ms c \<noteq> None \<longrightarrow> ms c2 = None \<longrightarrow> ch_vm ch2 ms = Some c2"
  shows "\<exists>w' q' B' tvm. clone_task ch hc w cur child_stack flags ctid = Some (gpid_counter w, w') \<and>
    fork_ready ch2 w' q' B' c tvm c2 \<and> cloned_fs tvm \<and> nr_pmr_ops tvm = 0 \<and> (cur = c2 \<or> vm_of w' cur \<noteq> None)"
proof -
  let ?q = "q\<lparr>runq := runq q @ [Task c]\<rparr>" and ?B = "B(global_task_list_head := B global_task_list_head @ [Vm_list_node c])"
  obtain w' child where w': "clone_task ch hc w cur child_stack flags ctid = Some (gpid_counter w, w')"
    "hmem (world_machine w') = hmem (world_machine w)"
    "vms (world_machine w') = (vms (world_machine w))(c \<mapsto> child, cur \<mapsto> cvm\<lparr>ref_count := ref_count cvm + 4\<rparr>)"
    "vm_wf child" "nr_pmr_ops child = 0" "cloned_fs child" "files w' = (files w)(c := replicate MAX_FILES_NR cleared_file)" "queues_ok (links w') ?q ?B"
    using thread_result [OF assms(1-6), of hc ctid] by blast
  have ne: "c \<noteq> cur" "c2 \<noteq> cur" using assms(1,4,9) by (auto simp: child_free_def)
  have "Vm_list_node c2 \<notin> set (sched_lists ?q ?B l)" if "l \<in> sched_heads" for l
    using assms(9,10) that by (auto simp: child_free_def sched_lists_def split: if_splits)
  then have free: "child_free w' ?q ?B c2"
    using assms(9,10) ne w'(3) by (auto simp: child_free_def queued_def)
  have "live_regions child = []" using w'(5) by (simp add: live_regions_def)
  moreover have "regs_ok w'" "files_ok (files w' c)" using assms(7) w'(7) by (auto simp: regs_ok_def files_ok_def cleared_file_def)
  moreover have "ch_vm ch2 (vms (world_machine w')) = Some c2" "vm_of w' c = Some child"
    using assms(13) free ne w'(3) by (auto simp: child_free_def)
  ultimately have "fork_ready ch2 w' ?q ?B c child c2"
    using assms(8,11,12) w'(2,4,8) free by (simp add: fork_ready_def)
  with w'(1,3,5,6) show ?thesis by auto
qed

end
