(* ===== verification/Example_Files.thy ===== *)
theory Example_Files
  imports Task_Clone Example_State
begin

text \<open>
  A process with one region and no open file, and a host that answers every call, for the
  examples of the system calls. Nothing here models code.
\<close>

definition user_region_demo :: pm_region_operation where
  "user_region_demo = demo_region\<lparr>addr_low := 0x10000, addr_high := 0x10020\<rparr>"

definition user_vm :: virtual_machine where
  "user_vm = demo_vm\<lparr>pmr_ops := user_region_demo # replicate 127 empty_pmr, vm_pid := 1, vm_tgid := 1\<rparr>"

definition user_machine :: machine where
  "user_machine = demo_machine\<lparr>vms := [1 \<mapsto> user_vm]\<rparr>"

definition demo_file :: file_desc where
  "demo_file = \<lparr>fd_of = 0, host_fd = 9, valid = True, host_cpath = Some ''/jail/a'', cb_flags = 0, cb_mode = 0,
     cb_file_type = FILE_TYPE_REGULAR\<rparr>"

definition no_links :: "sched_node links" where
  "no_links = (\<lambda>_. \<lparr>le_prev = None, le_next = None\<rparr>)"

definition no_queues :: queues where
  "no_queues = \<lparr>runq = [], blkq = [], exq = []\<rparr>"

definition user_procs :: "nat procs" where
  "user_procs = \<lparr>links = no_links, tasks = (\<lambda>_. init_task 0x8000), waiter = (\<lambda>_. None), current = Some (Task 1),
     cpustates = Map.empty, world_machine = user_machine, blob_vm = [],
     files = (\<lambda>_. demo_file # replicate 127 cleared_file), fs_root = (\<lambda>_. ''/jail''), fs_cwd = (\<lambda>_. ''/''),
     harts = (\<lambda>_. demo_hart), set_child_tid = (\<lambda>_. 0), gpid_counter = 2, os_state = 3\<rparr>"

definition user_host :: "nat host_calls" where
  "user_host = \<lparr>os_errno = (\<lambda>_. 2), os_open = (\<lambda>_ _ _ s. (of_nat s, Suc s)), os_close = (\<lambda>_ s. (0, s)),
     os_dup = (\<lambda>_ s. (of_nat s, Suc s)), os_fcntl = (\<lambda>_ _ _ s. (0, s)), os_lseek = (\<lambda>_ _ _ s. (0, s)),
     os_unlinkat = (\<lambda>_ _ s. (0, s)), os_malloc = (\<lambda>_ _. True), os_read = (\<lambda>_ _ s. ((2, [65, 66]), s)),
     os_write = (\<lambda>_ bs s. (of_nat (length bs), s)), os_writev = (\<lambda>_ _ s. (0, s)), os_ioctl = (\<lambda>_ _ _ s. ((0, []), s)),
     os_getdents64 = (\<lambda>_ _ s. ((0, []), s)), os_sendfile = (\<lambda>_ _ _ _ s. ((0, []), s)), os_statx = (\<lambda>_ _ _ s. ((0, []), s)),
     os_readlinkat = (\<lambda>_ _ s. ((0, []), s))\<rparr>"

definition next_block :: host_alloc where
  "next_block hm n = Some (if dom hm = {} then 0 else Suc (Max (dom hm)))"

definition user_clone_host :: clone_host where
  "user_clone_host = \<lparr>ch_vm = (\<lambda>_. Some 2), ch_block = next_block, ch_stack = (\<lambda>_. 0x9000), ch_hart = (\<lambda>_. 0x7000), ch_vmresume = 0x400\<rparr>"

lemma next_block_total: "host_alloc_total next_block"
  by (simp add: host_alloc_total_def next_block_def)

lemma next_block_ok: "host_alloc_ok next_block"
proof -
  have "Suc (Max (dom hm)) \<notin> dom hm" if "finite (dom hm)" for hm :: "nat \<rightharpoonup> u8 list"
    using Max_ge [OF that] by fastforce
  then show ?thesis by (auto simp: host_alloc_ok_def next_block_def domIff split: if_splits)
qed

lemma user_vm_wf: "vm_wf user_vm"
  by (simp add: vm_wf_def user_vm_def demo_vm_def live_regions_def user_region_demo_def MAX_VMA_NR_def)

lemma user_vm_mem_ok: "vm_mem_ok user_vm"
  using user_vm_wf by (simp add: vm_mem_ok_def user_vm_def demo_vm_def live_regions_def user_region_demo_def demo_region_def)

lemma user_linked: "get_linked_vm (vms user_machine) 1 hint = Some 1"
  by (subst get_linked_vm.simps) (cases hint; simp add: user_machine_def user_vm_def demo_vm_def)

lemma user_owner: "owner_vm user_procs 1 hint = Some 1"
  using user_linked by (simp add: owner_vm_def user_procs_def)

lemma user_vms: "vms user_machine 1 = Some user_vm" "hmem user_machine = [0 \<mapsto> demo_bytes]" "nr_pmr_ops user_vm = 1"
  "live_regions user_vm = [user_region_demo]" "vms user_machine (Suc 0) = Some user_vm"
  by (simp_all add: user_machine_def demo_machine_def user_vm_def demo_vm_def live_regions_def)

lemma user_queues: "queues_ok (links user_procs) no_queues (\<lambda>_. [])"
proof -
  have "sched_lists no_queues (\<lambda>_. []) = (\<lambda>_. [])" by (simp add: sched_lists_def no_queues_def fun_eq_iff)
  then show ?thesis using lists_ok_empty by (simp add: queues_ok_def user_procs_def no_links_def)
qed

lemma user_child_free: "child_free user_procs no_queues (\<lambda>_. []) 2"
  by (simp add: child_free_def user_procs_def user_machine_def queued_def no_queues_def sched_lists_def)

lemma user_hosted: "hosted user_machine user_vm"
  by (simp add: hosted_def user_vms user_region_demo_def demo_region_def)

lemma user_backed: "\<forall>r\<in>set (live_regions user_vm). backed user_machine r"
  by (simp add: user_vms backed_def region_len_def user_region_demo_def host_block_def demo_region_def demo_bytes_def)

lemma user_files: "files_ok (files user_procs v)" "regs_ok user_procs" "fds_ok user_procs"
proof -
  show ok: "files_ok (files user_procs v)" for v
    by (auto simp: files_ok_def user_procs_def MAX_FILES_NR_def demo_file_def cleared_file_def nth_Cons')
  then show "fds_ok user_procs" by (simp add: fds_ok_def)
  show "regs_ok user_procs"
    by (auto simp: regs_ok_def user_procs_def demo_file_def regular_def cleared_file_def)
qed

lemma user_fork_ready: "fork_ready user_clone_host user_procs no_queues (\<lambda>_. []) 1 user_vm 2"
  using user_queues user_child_free next_block_ok next_block_total user_vm_wf user_backed user_files(1) [of 1] user_files(2)
  by (simp add: fork_ready_def user_clone_host_def user_procs_def user_vms)

lemma user_buffer: "buffer_at user_procs 1 0x10008 user_vm user_region_demo demo_bytes"
proof -
  have "region_at user_vm 0x10008 = Some user_region_demo"
    by (simp add: region_at_def user_vms in_region_def user_region_demo_def)
  then show ?thesis
    using user_linked user_vm_mem_ok
    by (simp add: buffer_at_def user_procs_def user_vms host_block_def user_region_demo_def demo_region_def)
qed

lemma user_open_file: "open_file user_procs 1 0 demo_file"
  using user_owner by (simp add: open_file_def fd_valid_def user_procs_def demo_file_def)

lemma user_paths:
  "fs_root user_procs v = path_of [''jail'']" "fs_cwd user_procs v = path_of [] @ [slash]" "list_all proper [''jail'']"
  "cwd_ok (fs_cwd user_procs v)"
  by (simp_all add: user_procs_def proper_def plain_def cwd_ok_def exI [of _ "[]"])

lemma user_search: "search_free_mmap_region user_vm 0x2000 = Some 0xd000"
  by (simp add: search_free_mmap_region_def user_vms user_vm_def demo_vm_def is_range_eligible_def user_region_demo_def Let_def)

lemma user_dup: "\<exists>rc w. call_dup user_host user_procs 1 0 = Some (rc, w)"
proof -
  obtain r w1 where "allocate_file_descriptor user_procs 1 = (r, w1)" by fastforce
  then show ?thesis
    using user_owner user_open_file
    by (auto simp: call_dup_def open_file_def Let_def user_host_def split: option.splits)
qed

lemma user_slot: "free_slot (files user_procs 1) 0 MAX_FILES_NR = Some 1"
proof -
  obtain k where k: "MAX_FILES_NR = Suc (Suc k)" by (auto simp: MAX_FILES_NR_def numeral_eq_Suc)
  show ?thesis by (simp add: k user_procs_def demo_file_def cleared_file_def)
qed

lemma user_os: "os_state user_procs = 3"
  by (simp add: user_procs_def)

lemma user_flags: "fork_flags 17" "thread_flags 0x10700"
  by (simp_all add: fork_flags_def thread_flags_def CLONE_VM_def CLONE_FS_def CLONE_FILES_def CLONE_THREAD_def CLONE_CHILD_SETTID_def)

text \<open>Process 3 is a thread of process 1.\<close>

definition thread_vm :: virtual_machine where
  "thread_vm = zeroed_vm\<lparr>vm_pid := 3, vm_ppid := 1, vm_tgid := 1, parent_vm := Some 1, cloned_vm := True, cloned_files := True,
     cloned_fs := True, nr_pmr_ops := 0\<rparr>"

lemma user_byte: "guest_byte user_machine user_vm 0x10000 \<noteq> None"
  by (simp add: guest_byte_def region_at_def user_vms in_region_def user_region_demo_def host_block_def demo_region_def
      region_offset_def demo_bytes_def)

end
