(* ===== verification/Initial_Stack.thy ===== *)
theory Initial_Stack
  imports Task_Clone
begin

text \<open>
  The stack that a new program finds: \<open>env_setup\<close> of \<open>sandbox/app.c\<close>, which copies the strings of
  the environment and the arguments below the stack pointer and puts the auxiliary vector, the
  two vectors of pointers and the number of arguments under them, and the loop of \<open>call_execve\<close>
  (\<open>sandbox/task.c\<close>) that reads such vectors. A NULL-terminated array of strings is a list.
\<close>

definition MAX_NR_ENVP :: nat where "MAX_NR_ENVP = 128"
definition MAX_NR_ARGV :: nat where "MAX_NR_ARGV = 128"

record push_state =
  ps_machine :: machine
  stack_top_upointer :: uptr
  stack_top_gap :: u32

text \<open>The host pointer moves down; below the start of its block there is nothing to write to.\<close>

definition move_down :: "nat \<Rightarrow> push_state \<Rightarrow> push_state option" where
  "move_down len st =
     (let (b, off) = stack_top_upointer st in
      if off < len then None
      else Some (st\<lparr>stack_top_upointer := (b, off - len), stack_top_gap := stack_top_gap st + of_nat len\<rparr>))"

definition PUSH_BLOB :: "u8 list \<Rightarrow> push_state \<Rightarrow> push_state option" where
  "PUSH_BLOB blob st =
     Option.bind (move_down (length blob) st) (\<lambda>st1.
     map_option (\<lambda>m. st1\<lparr>ps_machine := m\<rparr>) (store_bytes (ps_machine st1) (stack_top_upointer st1) blob))"

definition STACK_POS :: "u32 \<Rightarrow> push_state \<Rightarrow> u32" where
  "STACK_POS stack_top st = stack_top - stack_top_gap st"

definition LOCAL_ALIGN :: "u32 \<Rightarrow> u32 \<Rightarrow> push_state \<Rightarrow> push_state option" where
  "LOCAL_ALIGN stack_top align st =
     (let riscv_stack_top = stack_top - stack_top_gap st; riscv_stack_aligned = riscv_stack_top AND NOT (align - 1)
      in move_down (unat (riscv_stack_top - riscv_stack_aligned)) st)"

fun push_strings :: "u32 \<Rightarrow> string list \<Rightarrow> push_state \<Rightarrow> (u32 list \<times> push_state) option" where
  "push_strings stack_top [] st = Some ([], st)"
| "push_strings stack_top (s # ss) st =
     Option.bind (PUSH_BLOB (string_bytes s) st) (\<lambda>st1.
     map_option (\<lambda>(ptrs, st2). (STACK_POS stack_top st1 # ptrs, st2)) (push_strings stack_top ss st1))"

fun push_blobs :: "u8 list list \<Rightarrow> push_state \<Rightarrow> push_state option" where
  "push_blobs [] st = Some st"
| "push_blobs (b # bs) st = Option.bind (PUSH_BLOB b st) (push_blobs bs)"

definition word_blob :: "u32 \<Rightarrow> u8 list" where
  "word_blob x = le_bytes 4 (ucast x)"

definition aux_blob :: "u32 \<times> u32 \<Rightarrow> u8 list" where
  "aux_blob a = word_blob (fst a) @ word_blob (snd a)"

definition aux_vector :: "u32 \<Rightarrow> u32 \<Rightarrow> (u32 \<times> u32) list" where
  "aux_vector stack_top entry = [(25, stack_top), (9, entry), (0, 0)]"

definition env_setup :: "'os procs \<Rightarrow> vmptr \<Rightarrow> string list \<Rightarrow> string list \<Rightarrow> 'os procs option" where
  "env_setup w v argv envp =
     (let h = harts w v; stack_top = registers h ! 2 in
      Option.bind (user_pointer w v stack_top) (\<lambda>p.
      Option.bind (push_strings stack_top (take MAX_NR_ENVP envp)
        \<lparr>ps_machine = world_machine w, stack_top_upointer = p, stack_top_gap = 0\<rparr>) (\<lambda>(env_pointer, st1).
      Option.bind (push_strings stack_top (take MAX_NR_ARGV argv) st1) (\<lambda>(arg_pointer, st2).
      Option.bind (LOCAL_ALIGN stack_top 16 st2) (\<lambda>st3.
      Option.bind (push_blobs (rev (map aux_blob (aux_vector stack_top (pc h)))) st3) (\<lambda>st4.
      Option.bind (push_blobs (word_blob 0 # rev (map word_blob env_pointer)) st4) (\<lambda>st5.
      Option.bind (push_blobs (word_blob 0 # rev (map word_blob arg_pointer)) st5) (\<lambda>st6.
      Option.bind (PUSH_BLOB (word_blob (of_nat (length arg_pointer))) st6) (\<lambda>st7.
      Some (w\<lparr>world_machine := ps_machine st7,
        harts := (harts w)(v := h\<lparr>registers := (registers h)[2 := STACK_POS stack_top st7]\<rparr>)\<rparr>))))))))))"

text \<open>A vector of strings as \<open>call_execve\<close> reads it: it ends at a null pointer or after \<open>k\<close> entries.\<close>

fun user_strings :: "'os procs \<Rightarrow> vmptr \<Rightarrow> uptr \<Rightarrow> nat \<Rightarrow> nat \<Rightarrow> string list option" where
  "user_strings w v p idx 0 = Some []"
| "user_strings w v p idx (Suc k) =
     Option.bind (load_bytes (world_machine w) (fst p, snd p + 4 * idx) 4) (\<lambda>entry.
       if le_word entry = 0 then Some []
       else Option.bind (user_string w v (ucast (le_word entry))) (\<lambda>s.
              map_option ((#) s) (user_strings w v p (Suc idx) k)))"

subsection \<open>Pushing\<close>

text \<open>The host block is what is above the pointer, which grows downwards, after what is below it.\<close>

definition stk :: "machine \<Rightarrow> nat \<Rightarrow> u8 list \<Rightarrow> u8 list \<Rightarrow> u32 \<Rightarrow> push_state" where
  "stk m b pre tail g = \<lparr>ps_machine = m\<lparr>hmem := (hmem m)(b \<mapsto> pre @ tail)\<rparr>,
     stack_top_upointer = (Some b, length pre), stack_top_gap = g\<rparr>"

definition shrink :: "nat \<Rightarrow> u8 list \<Rightarrow> u8 list" where
  "shrink n pre = take (length pre - n) pre"

lemma length_shrink [simp]: "length (shrink n pre) = length pre - n"
  by (simp add: shrink_def)

lemma shrink_shrink [simp]: "shrink k (shrink n pre) = shrink (n + k) pre"
  by (simp add: shrink_def)

lemma shrink_0 [simp]: "shrink 0 pre = pre"
  by (simp add: shrink_def)

lemma stk_gap [simp]: "stack_top_gap (stk m b pre tail g) = g"
  by (simp add: stk_def)

lemma PUSH_BLOB_stk:
  "length bs \<le> length pre \<Longrightarrow>
     PUSH_BLOB bs (stk m b pre tail g) = Some (stk m b (shrink (length bs) pre) (bs @ tail) (g + of_nat (length bs)))"
  by (auto simp: PUSH_BLOB_def move_down_def stk_def store_bytes_def splice_def shrink_def)

lemma push_blobs_stk:
  "length (concat bss) \<le> length pre \<Longrightarrow>
     push_blobs bss (stk m b pre tail g) =
       Some (stk m b (shrink (length (concat bss)) pre) (concat (rev bss) @ tail) (g + of_nat (length (concat bss))))"
proof (induction bss arbitrary: pre tail g)
  case (Cons bs bss)
  then show ?case by (simp add: PUSH_BLOB_stk algebra_simps)
qed simp

fun string_pointers :: "u32 \<Rightarrow> nat \<Rightarrow> string list \<Rightarrow> u32 list" where
  "string_pointers tp g [] = []"
| "string_pointers tp g (s # ss) = (tp - of_nat (g + length (string_bytes s))) # string_pointers tp (g + length (string_bytes s)) ss"

definition strings_blob :: "string list \<Rightarrow> u8 list" where
  "strings_blob ss = concat (rev (map string_bytes ss))"

lemma strings_blob_simps [simp]: "strings_blob [] = []" "strings_blob (s # ss) = strings_blob ss @ string_bytes s"
  by (simp_all add: strings_blob_def)

lemma push_strings_stk:
  "length (strings_blob ss) \<le> length pre \<Longrightarrow>
     push_strings tp ss (stk m b pre tail (of_nat g)) =
       Some (string_pointers tp g ss, stk m b (shrink (length (strings_blob ss)) pre) (strings_blob ss @ tail)
         (of_nat (g + length (strings_blob ss))))"
proof (induction ss arbitrary: pre tail g)
  case (Cons s ss)
  have "push_strings tp ss (stk m b (shrink (length (string_bytes s)) pre) (string_bytes s @ tail) (of_nat (g + length (string_bytes s)))) =
    Some (string_pointers tp (g + length (string_bytes s)) ss,
      stk m b (shrink (length (strings_blob ss)) (shrink (length (string_bytes s)) pre)) (strings_blob ss @ string_bytes s @ tail)
        (of_nat (g + length (string_bytes s) + length (strings_blob ss))))"
    using Cons.prems by (intro Cons.IH) simp
  with Cons.prems show ?case
    by (simp add: PUSH_BLOB_stk STACK_POS_def ac_simps)
qed simp

lemma length_string_pointers [simp]: "length (string_pointers tp g ss) = length ss"
  by (induction ss arbitrary: g) auto

text \<open>The distance of a string from the top; its bytes in the blob.\<close>

definition string_gap :: "nat \<Rightarrow> string list \<Rightarrow> nat \<Rightarrow> nat" where
  "string_gap g ss i = g + length (strings_blob (take (Suc i) ss))"

lemma string_pointers_nth: "i < length ss \<Longrightarrow> string_pointers tp g ss ! i = tp - of_nat (string_gap g ss i)"
proof (induction ss arbitrary: g i)
  case (Cons s ss)
  have "string_gap g (s # ss) (Suc n) = string_gap (g + length (string_bytes s)) ss n" for n
    by (simp add: string_gap_def)
  with Cons show ?case by (cases i) (simp_all add: string_gap_def)
qed simp

lemma strings_blob_split:
  assumes "i < length ss"
  shows "strings_blob ss = strings_blob (drop (Suc i) ss) @ string_bytes (ss ! i) @ strings_blob (take i ss)"
proof -
  have "ss = take i ss @ ss ! i # drop (Suc i) ss" using assms by (rule id_take_nth_drop)
  then have "strings_blob ss = strings_blob (take i ss @ ss ! i # drop (Suc i) ss)" by simp
  then show ?thesis by (simp add: strings_blob_def)
qed

lemma strings_blob_take_Suc:
  "i < length ss \<Longrightarrow> strings_blob (take (Suc i) ss) = string_bytes (ss ! i) @ strings_blob (take i ss)"
  by (simp add: strings_blob_def take_Suc_conv_app_nth)

subsection \<open>The whole stack\<close>

lemma below_align: "x - (x AND NOT 15) = x AND (15 :: u32)"
proof -
  have "x = (x AND NOT 15) OR (x AND 15)" by (rule bit_word_eqI) (auto simp: bit_simps)
  also have "\<dots> = (x AND NOT 15) + (x AND 15)" by (rule disjunctive_add [symmetric]) (auto simp: bit_simps)
  finally show ?thesis by (metis add_diff_cancel_left')
qed

lemma align_bound: "unat (x AND (15 :: u32)) < 16"
proof -
  have "x AND 15 \<le> 15" by (rule word_and_le1)
  then have "unat (x AND 15) \<le> unat (15 :: u32)" by (simp only: word_le_nat_alt)
  then show ?thesis by simp
qed

lemma LOCAL_ALIGN_stk:
  assumes "unat ((tp - g) AND 15) \<le> length pre"
  shows "LOCAL_ALIGN tp 16 (stk m b pre tail g) =
    Some (stk m b (shrink (unat ((tp - g) AND 15)) pre) (drop (length pre - unat ((tp - g) AND 15)) pre @ tail)
      (g + ((tp - g) AND 15)))"
proof -
  have "LOCAL_ALIGN tp 16 (stk m b pre tail g) = move_down (unat ((tp - g) AND 15)) (stk m b pre tail g)"
    using below_align [of "tp - g"] by (simp add: LOCAL_ALIGN_def Let_def)
  moreover have td: "take (length pre - k) pre @ drop (length pre - k) pre @ tail = pre @ tail" for k
    by (simp add: append_assoc [symmetric] del: append_assoc)
  ultimately show ?thesis using assms by (simp add: move_down_def stk_def shrink_def td)
qed

text \<open>
  The words under the strings, and everything that is pushed, from the new stack pointer up;
  \<open>pad\<close> is what the alignment skips.
\<close>

definition stack_words :: "u32 \<Rightarrow> u32 \<Rightarrow> string list \<Rightarrow> string list \<Rightarrow> u8 list" where
  "stack_words tp entry argv envp =
     word_blob (of_nat (length argv)) @
     concat (map word_blob (string_pointers tp (length (strings_blob envp)) argv)) @ word_blob 0 @
     concat (map word_blob (string_pointers tp 0 envp)) @ word_blob 0 @
     concat (map aux_blob (aux_vector tp entry))"

definition pad_size :: "u32 \<Rightarrow> string list \<Rightarrow> string list \<Rightarrow> nat" where
  "pad_size tp argv envp = unat ((tp - of_nat (length (strings_blob envp) + length (strings_blob argv))) AND 15)"

definition stack_image :: "u32 \<Rightarrow> u32 \<Rightarrow> string list \<Rightarrow> string list \<Rightarrow> u8 list \<Rightarrow> u8 list" where
  "stack_image tp entry argv envp pad =
     stack_words tp entry argv envp @ pad @ strings_blob argv @ strings_blob envp"

definition stack_size :: "u32 \<Rightarrow> string list \<Rightarrow> string list \<Rightarrow> nat" where
  "stack_size tp argv envp =
     4 * (length argv + length envp + 9) + pad_size tp argv envp + length (strings_blob argv) + length (strings_blob envp)"

lemma length_word_blob [simp]: "length (word_blob x) = 4"
  by (simp add: word_blob_def)

lemma length_word_blobs [simp]: "length (concat (map word_blob xs)) = 4 * length xs"
  by (induction xs) auto

lemma length_stack_words [simp]: "length (stack_words tp entry argv envp) = 4 * (length argv + length envp + 9)"
  by (simp add: stack_words_def aux_vector_def aux_blob_def)

lemma concat_rev_rev: "length (concat (rev bss)) = length (concat bss)"
  by (induction bss) auto

lemma push_blobs_rev:
  "length (concat bss) \<le> length pre \<Longrightarrow>
     push_blobs (rev bss) (stk m b pre tail g) =
       Some (stk m b (shrink (length (concat bss)) pre) (concat bss @ tail) (g + of_nat (length (concat bss))))"
  using push_blobs_stk [of "rev bss" pre m b tail g] by (simp add: concat_rev_rev)

lemma push_vector:
  "4 * length xs + 4 \<le> length pre \<Longrightarrow>
     push_blobs (word_blob 0 # rev (map word_blob xs)) (stk m b pre tail g) =
       Some (stk m b (shrink (4 * length xs + 4) pre) (concat (map word_blob xs) @ word_blob 0 @ tail)
         (g + of_nat (4 * length xs + 4)))"
  using push_blobs_rev [of "map word_blob xs @ [word_blob 0]" pre m b tail g] by simp

lemma env_setup_runs:
  fixes argv envp :: "string list"
  assumes "registers (harts w v) ! 2 = tp" "user_pointer w v tp = Some (Some b, length pre)"
    and "hmem (world_machine w) b = Some (pre @ tail)" "length argv \<le> MAX_NR_ARGV" "length envp \<le> MAX_NR_ENVP"
    and "stack_size tp argv envp \<le> length pre"
  shows "\<exists>pad. length pad = pad_size tp argv envp \<and> env_setup w v argv envp =
    Some (w\<lparr>world_machine := (world_machine w)\<lparr>hmem := (hmem (world_machine w))
         (b \<mapsto> shrink (stack_size tp argv envp) pre @ stack_image tp (pc (harts w v)) argv envp pad @ tail)\<rparr>,
       harts := (harts w)(v := (harts w v)\<lparr>registers := (registers (harts w v))
         [2 := tp - of_nat (stack_size tp argv envp)]\<rparr>)\<rparr>)"
proof -
  let ?m = "world_machine w" and ?S = "length (strings_blob envp) + length (strings_blob argv)"
  define p where "p = pad_size tp argv envp"
  define pre2 where "pre2 = shrink ?S pre"
  have p: "(tp - of_nat ?S) AND 15 = of_nat p" "unat ((tp - of_nat ?S) AND 15) = p" by (simp_all add: p_def pad_size_def)
  then have unat_p: "unat (of_nat p :: u32) = p" by (simp only: p)
  have st0: "\<lparr>ps_machine = ?m, stack_top_upointer = (Some b, length pre), stack_top_gap = 0\<rparr> = stk ?m b pre tail (of_nat 0)"
    using assms(3) by (simp add: stk_def map_upd_triv)
  have len: "length (strings_blob envp) \<le> length pre" "length (strings_blob argv) \<le> length pre - length (strings_blob envp)"
    "p \<le> length pre - ?S" "p + ?S + 4 * (length argv + length envp + 9) \<le> length pre"
    using assms(6) by (auto simp: stack_size_def p_def)
  let ?SE = "strings_blob envp" and ?SA = "strings_blob argv" and ?pad = "drop (length pre2 - p) pre2"
  let ?E = "string_pointers tp 0 envp" and ?A = "string_pointers tp (length (strings_blob envp)) argv"
  let ?X = "map aux_blob (aux_vector tp (pc (harts w v)))"
  have s1: "push_strings tp envp (stk ?m b pre tail (of_nat 0)) =
      Some (?E, stk ?m b (shrink (length ?SE) pre) (?SE @ tail) (of_nat (length ?SE)))"
    using push_strings_stk [OF len(1), of tp ?m b tail 0] by simp
  have s2: "push_strings tp argv (stk ?m b (shrink (length ?SE) pre) (?SE @ tail) (of_nat (length ?SE))) =
      Some (?A, stk ?m b pre2 (?SA @ ?SE @ tail) (of_nat ?S))"
    using push_strings_stk [of argv "shrink (length ?SE) pre" tp ?m b "?SE @ tail" "length ?SE"] len(2)
    by (simp add: pre2_def del: of_nat_add)
  have s3: "LOCAL_ALIGN tp 16 (stk ?m b pre2 (?SA @ ?SE @ tail) (of_nat ?S)) =
      Some (stk ?m b (shrink p pre2) (?pad @ ?SA @ ?SE @ tail) (of_nat (?S + p)))"
    using LOCAL_ALIGN_stk [of tp "of_nat ?S" pre2 ?m b "?SA @ ?SE @ tail"] len(3) unat_p unfolding p(1) by (simp add: pre2_def)
  have s4: "push_blobs (rev ?X) (stk ?m b (shrink p pre2) (?pad @ ?SA @ ?SE @ tail) (of_nat (?S + p))) =
      Some (stk ?m b (shrink (p + 24) pre2) (concat ?X @ ?pad @ ?SA @ ?SE @ tail) (of_nat (?S + p + 24)))"
    using push_blobs_rev [of ?X "shrink p pre2" ?m b "?pad @ ?SA @ ?SE @ tail" "of_nat (?S + p)"] len(4)
    by (simp add: pre2_def aux_vector_def aux_blob_def add.assoc)
  have s5: "push_blobs (word_blob 0 # rev (map word_blob ?E)) (stk ?m b (shrink k pre2) T (of_nat g)) =
      Some (stk ?m b (shrink (k + (4 * length envp + 4)) pre2) (concat (map word_blob ?E) @ word_blob 0 @ T) (of_nat (g + (4 * length envp + 4))))"
    if "k = p + 24" for k T g
    using push_vector [of ?E "shrink k pre2" ?m b T "of_nat g"] len(4) that by (simp add: pre2_def ac_simps)
  have s6: "push_blobs (word_blob 0 # rev (map word_blob ?A)) (stk ?m b (shrink k pre2) T (of_nat g)) =
      Some (stk ?m b (shrink (k + (4 * length argv + 4)) pre2) (concat (map word_blob ?A) @ word_blob 0 @ T) (of_nat (g + (4 * length argv + 4))))"
    if "k = p + 24 + (4 * length envp + 4)" for k T g
    using push_vector [of ?A "shrink k pre2" ?m b T "of_nat g"] len(4) that by (simp add: pre2_def ac_simps)
  have s7: "PUSH_BLOB (word_blob x) (stk ?m b (shrink k pre2) T (of_nat g)) = Some (stk ?m b (shrink (k + 4) pre2) (word_blob x @ T) (of_nat (g + 4)))"
    if "k = p + 24 + (4 * length envp + 4) + (4 * length argv + 4)" for k T g x
    using PUSH_BLOB_stk [of "word_blob x" "shrink k pre2" ?m b T "of_nat g"] len(4) that by (simp add: pre2_def ac_simps)
  have G: "stack_size tp argv envp = ?S + p + 24 + (4 * length envp + 4) + (4 * length argv + 4) + 4"
    by (simp add: stack_size_def p_def)
  have "env_setup w v argv envp = Some (w\<lparr>world_machine := ?m\<lparr>hmem := (hmem ?m)
         (b \<mapsto> shrink (stack_size tp argv envp) pre @ stack_image tp (pc (harts w v)) argv envp ?pad @ tail)\<rparr>,
       harts := (harts w)(v := (harts w v)\<lparr>registers := (registers (harts w v))[2 := tp - of_nat (stack_size tp argv envp)]\<rparr>)\<rparr>)"
    unfolding env_setup_def Let_def assms(1,2) take_all [OF assms(4)] take_all [OF assms(5)] bind.bind_lunit st0 s1 s2 s3 s4 prod.case
      s5 [OF refl] s6 [OF refl] s7 [OF refl] STACK_POS_def stk_gap length_string_pointers
    by (simp add: G stk_def stack_image_def stack_words_def pre2_def ac_simps del: of_nat_add of_nat_mult)
  moreover have "length (drop (length pre2 - p) pre2) = p" using len by (simp add: pre2_def)
  ultimately show ?thesis unfolding p_def by blast
qed

subsection \<open>Reading it back\<close>

text \<open>The word that the guest finds at an address.\<close>

definition user_word :: "'os procs \<Rightarrow> vmptr \<Rightarrow> u32 \<Rightarrow> u32 option" where
  "user_word w v a = Option.bind (user_pointer w v a) (\<lambda>p. map_option (\<lambda>bs. ucast (le_word bs)) (load_bytes (world_machine w) p 4))"

lemma le_word_blob [simp]: "le_word (word_blob x) = ucast x"
proof -
  have "take_bit 32 (ucast x :: u64) = ucast x" by (rule bit_word_eqI) (auto simp: bit_simps dest: bit_imp_le_length)
  then show ?thesis by (simp add: word_blob_def le_word_le_bytes)
qed

lemma region_below:
  assumes "in_region tp r" "x \<le> region_offset tp r"
  shows "in_region (tp - of_nat x) r" "region_offset (tp - of_nat x) r = region_offset tp r - x"
    "unat (tp - of_nat x) = unat tp - x" "x \<le> unat tp"
proof -
  have off: "region_offset tp r = unat tp - unat (addr_low r)" "unat (addr_low r) \<le> unat tp" "unat tp < unat (addr_high r)"
    using assms(1) by (simp_all add: region_offset_def in_region_def unat_sub word_le_nat_alt word_less_nat_alt)
  then show le: "x \<le> unat tp" using assms(2) by linarith
  moreover have "unat tp < 2 ^ 32" using unsigned_less [of tp] by simp
  ultimately have ux: "unat (of_nat x :: u32) = x" by (simp add: unat_of_nat)
  then show u: "unat (tp - of_nat x) = unat tp - x" using le by (simp add: unat_sub word_le_nat_alt)
  show in': "in_region (tp - of_nat x) r"
    using off assms(2) u by (simp add: in_region_def word_le_nat_alt word_less_nat_alt) linarith
  show "region_offset (tp - of_nat x) r = region_offset tp r - x"
    using in' off u by (simp add: region_offset_def in_region_def unat_sub word_le_nat_alt)
qed

lemma in_region_same:
  assumes "vm_wf vm" "region_at vm a = Some r" "in_region x r"
  shows "region_at vm x = Some r"
  using assms region_at_live [OF assms(1)] by simp

lemma pointer_below:
  assumes "buffer_at w v tp vm r block" "x \<le> region_offset tp r" "vms (world_machine w') = vms (world_machine w)"
  shows "user_pointer w' v (tp - of_nat x) = Some (host_base r, region_offset tp r - x)"
proof -
  obtain u where u: "get_linked_vm (vms (world_machine w')) v LINKAGE_HINT_VM = Some u" "vms (world_machine w') u = Some vm"
    and vm: "vm_wf vm" "region_at vm tp = Some r" "pmr_direct r \<noteq> None"
    using assms(1,3) by (auto simp: buffer_at_def vm_mem_ok_def)
  note below = region_below [OF region_at_in [OF vm(2)] assms(2)]
  show ?thesis
    using user_world_pointer_at [OF u vm(1) in_region_same [OF vm(1,2) below(1)] vm(3)] below(2) by (simp add: user_pointer_def)
qed

lemma user_strings_vector:
  assumes "list_all2 (\<lambda>p s. p \<noteq> 0 \<and> user_string w v p = Some s) ps ss" "length ss \<le> k"
    and "bytes_from (world_machine w) (fst q, snd q + 4 * idx) = Some (concat (map word_blob ps) @ word_blob 0 @ rest)"
  shows "user_strings w v q idx k = Some ss"
  using assms
proof (induction ps ss arbitrary: idx k rule: list_all2_induct)
  case Nil
  then show ?case by (cases k) (simp_all add: load_bytes_def)
next
  case (Cons p ps s ss)
  then obtain k' where k: "k = Suc k'" by (cases k) auto
  have "bytes_from (world_machine w) (fst q, snd q + 4 * Suc idx) =
      map_option (drop 4) (bytes_from (world_machine w) (fst q, snd q + 4 * idx))"
    by (cases "fst q") (auto simp: bytes_from_def option.map_comp comp_def ac_simps)
  with Cons.prems(2) have "bytes_from (world_machine w) (fst q, snd q + 4 * Suc idx) = Some (concat (map word_blob ps) @ word_blob 0 @ rest)"
    by simp
  then have "user_strings w v q (Suc idx) k' = Some ss" using Cons.IH Cons.prems(1) k by simp
  moreover have "(ucast p :: u64) \<noteq> 0" using Cons.hyps(1) by (metis ucast_32_64_32 unsigned_0)
  ultimately show ?case using Cons.hyps(1) Cons.prems(2) by (simp add: k load_bytes_def)
qed

lemma user_string_below:
  assumes "buffer_at w v tp vm r block" "host_base r = Some b" "vms (world_machine w') = vms (world_machine w)"
    and "hmem (world_machine w') b = Some (front @ (string_bytes s @ rest) @ tail)" "NUL \<notin> set s"
    and "length front + length (string_bytes s @ rest) = region_offset tp r"
  shows "user_string w' v (tp - of_nat (length (string_bytes s @ rest))) = Some s"
proof -
  have "user_pointer w' v (tp - of_nat (length (string_bytes s @ rest))) = Some (Some b, length front)"
    using pointer_below [OF assms(1) _ assms(3), of "length (string_bytes s @ rest)"] assms(2,6) by simp
  moreover have "bytes_from (world_machine w') (Some b, length front) = Some (string_bytes s @ rest @ tail)"
    using assms(4) by (simp add: bytes_from_def)
  ultimately show ?thesis using string_at_bytes [OF _ assms(5)] by (simp add: user_string_def)
qed

text \<open>The pointers of a group of strings lead back to them.\<close>

lemma string_pointers_read:
  assumes "buffer_at w v tp vm r block" "host_base r = Some b" "vms (world_machine w') = vms (world_machine w)"
    and "hmem (world_machine w') b = Some (front @ strings_blob ss @ back @ tail)" "\<forall>s\<in>set ss. NUL \<notin> set s"
    and "length front + length (strings_blob ss) + length back = region_offset tp r" "front \<noteq> []"
  shows "list_all2 (\<lambda>p s. p \<noteq> 0 \<and> user_string w' v p = Some s) (string_pointers tp (length back) ss) ss"
  unfolding list_all2_conv_all_nth
proof (rule conjI, simp, intro allI impI)
  fix i assume "i < length (string_pointers tp (length back) ss)"
  then have i: "i < length ss" by simp
  let ?rest = "strings_blob (take i ss) @ back" and ?front = "front @ strings_blob (drop (Suc i) ss)"
  have split: "strings_blob ss = strings_blob (drop (Suc i) ss) @ string_bytes (ss ! i) @ strings_blob (take i ss)"
    by (rule strings_blob_split [OF i])
  have gap: "string_gap (length back) ss i = length (string_bytes (ss ! i) @ ?rest)"
    by (simp add: string_gap_def strings_blob_take_Suc [OF i])
  have "user_string w' v (tp - of_nat (length (string_bytes (ss ! i) @ ?rest))) = Some (ss ! i)"
    using assms(4-6) i split by (intro user_string_below [OF assms(1-3), where front = ?front and tail = tail]) auto
  moreover have in_r: "in_region tp r" using assms(1) region_at_in by (auto simp: buffer_at_def)
  have "string_gap (length back) ss i < region_offset tp r"
    using assms(6,7) gap split by (simp add: length_greater_0_conv [symmetric] del: length_greater_0_conv)
  then have "unat (tp - of_nat (string_gap (length back) ss i)) = unat tp - string_gap (length back) ss i \<and>
      string_gap (length back) ss i < unat tp"
    using region_below(3) [OF in_r, of "string_gap (length back) ss i"] region_below(4) [OF in_r, of "Suc (string_gap (length back) ss i)"] by simp
  then have "tp - of_nat (string_gap (length back) ss i) \<noteq> 0" by (metis unsigned_0 zero_less_diff less_numeral_extra(3))
  ultimately show "string_pointers tp (length back) ss ! i \<noteq> 0 \<and> user_string w' v (string_pointers tp (length back) ss ! i) = Some (ss ! i)"
    using string_pointers_nth [OF i] gap by simp
qed

text \<open>
  The start of a program: the number of arguments at the stack pointer, then the two vectors, as
  \<open>call_execve\<close> reads them.
\<close>

definition args_at :: "'os procs \<Rightarrow> vmptr \<Rightarrow> u32 \<Rightarrow> string list \<Rightarrow> string list \<Rightarrow> bool" where
  "args_at w v sp argv envp \<longleftrightarrow> sp AND 3 = 0 \<and> user_word w v sp = Some (of_nat (length argv)) \<and>
     (\<exists>p. user_pointer w v (sp + 4) = Some p \<and> user_strings w v p 0 (MAX_NR_ARGV - 1) = Some argv) \<and>
     (\<exists>q. user_pointer w v (sp + of_nat (4 * (length argv + 2))) = Some q \<and> user_strings w v q 0 MAX_NR_ENVP = Some envp)"

lemma above_pointer: "k \<le> g \<Longrightarrow> (tp :: u32) - of_nat g + of_nat k = tp - of_nat (g - k)"
  by (simp add: of_nat_diff)

lemma multiple_of_four:
  fixes x :: u32
  assumes "x AND 15 = of_nat p" "n = 4 * k + p"
  shows "(x - of_nat n) AND 3 = 0"
proof -
  have "x - of_nat n = (x - (x AND 15)) - of_nat (4 * k)" using assms by simp
  also have "x - (x AND 15) = x AND NOT 15" using below_align [of x] by (simp add: algebra_simps)
  finally have eq: "x - of_nat n = (x AND NOT 15) - of_nat (4 * k)" .
  have "x AND NOT 15 = push_bit 2 (drop_bit 2 x AND NOT 3)" 
  proof (rule bit_word_eqI)
    fix i show "bit (x AND NOT 15) i \<longleftrightarrow> bit (push_bit 2 (drop_bit 2 x AND NOT 3)) i"
      by (cases i; cases "i - 1") (auto simp: bit_simps)
  qed
  then have "x - of_nat n = push_bit 2 ((drop_bit 2 x AND NOT 3) - of_nat k)" unfolding eq by (simp add: push_bit_eq_mult algebra_simps)
  moreover have "push_bit 2 y AND 3 = 0" for y :: u32
  proof (rule bit_word_eqI)
    fix i show "bit (push_bit 2 y AND 3) i \<longleftrightarrow> bit (0 :: u32) i" by (cases i; cases "i - 1") (auto simp: bit_simps)
  qed
  ultimately show ?thesis by simp
qed

lemma image_args_at:
  assumes buf: "buffer_at w v tp vm r block" "host_base r = Some b" "vms (world_machine w') = vms (world_machine w)"
    and hm: "hmem (world_machine w') b = Some (P @ stack_image tp e argv envp pad @ tail)"
    and len: "length pad = pad_size tp argv envp" "length P + stack_size tp argv envp = region_offset tp r"
    and args: "length argv < MAX_NR_ARGV" "length envp < MAX_NR_ENVP" "\<forall>s\<in>set argv \<union> set envp. NUL \<notin> set s"
  shows "args_at w' v (tp - of_nat (stack_size tp argv envp)) argv envp"
proof -
  let ?m' = "world_machine w'" and ?W = "stack_words tp e argv envp" and ?G = "stack_size tp argv envp"
  let ?SA = "strings_blob argv" and ?SE = "strings_blob envp" and ?sp = "tp - of_nat (stack_size tp argv envp)"
  let ?q = "4 * (length argv + 2)" and ?T = "pad @ strings_blob argv @ strings_blob envp @ tail" and ?X = "concat (map aux_blob (aux_vector tp e))"
  have G: "?G = length ?W + length pad + length ?SA + length ?SE" by (simp add: stack_size_def len)
  have G4: "?q \<le> ?G" "4 \<le> ?G" by (simp_all add: G)
  have at: "user_pointer w' v (?sp + of_nat k) = Some (Some b, length P + k) \<and> bytes_from ?m' (Some b, length P + k) = Some (drop k (?W @ ?T))"
    if "k \<le> ?G" for k
  proof -
    have "?sp + of_nat k = tp - of_nat (?G - k)" by (rule above_pointer [OF that])
    then have "user_pointer w' v (?sp + of_nat k) = Some (Some b, length P + k)"
      by (simp only:) (use pointer_below [OF buf(1) _ buf(3), of "?G - k"] that buf(2) len(2) in simp)
    then show ?thesis using hm by (simp add: bytes_from_def stack_image_def)
  qed
  have W: "?W \<noteq> []" using length_stack_words [of tp e argv envp] by (metis list.size(3) mult_is_0 add_is_0 zero_neq_numeral)
  have A: "list_all2 (\<lambda>p s. p \<noteq> 0 \<and> user_string w' v p = Some s) (string_pointers tp (length ?SE) argv) argv"
    using hm len(2) G args(3) by (intro string_pointers_read [OF buf, of "P @ ?W @ pad" argv ?SE tail]) (auto simp: W stack_image_def)
  have E: "list_all2 (\<lambda>p s. p \<noteq> 0 \<and> user_string w' v p = Some s) (string_pointers tp 0 envp) envp"
    using hm len(2) G args(3) string_pointers_read [OF buf, of "P @ ?W @ pad @ ?SA" envp "[]" tail] by (auto simp: W stack_image_def)
  have "user_strings w' v (Some b, length P + 4) 0 (MAX_NR_ARGV - 1) = Some argv"
    using at [OF G4(2)] args(1)
    by (intro user_strings_vector [OF A, where rest = "concat (map word_blob (string_pointers tp 0 envp)) @ word_blob 0 @ ?X @ ?T"])
       (auto simp: stack_words_def)
  moreover have "user_strings w' v (Some b, length P + ?q) 0 MAX_NR_ENVP = Some envp"
    using at [OF G4(1)] args(2)
    by (intro user_strings_vector [OF E, where rest = "?X @ ?T"]) (auto simp: stack_words_def)
  moreover have "user_word w' v ?sp = Some (of_nat (length argv))"
    using at [of 0] by (simp add: user_word_def load_bytes_def stack_words_def)
  moreover have "(tp - of_nat (length ?SE + length ?SA)) AND 15 = of_nat (length pad)" by (simp add: len pad_size_def)
  then have "(tp - of_nat (length ?SE + length ?SA) - of_nat (length ?W + length pad)) AND 3 = 0"
    by (rule multiple_of_four [where k = "length argv + length envp + 9"]) simp
  then have "?sp AND 3 = 0" by (simp add: G algebra_simps)
  moreover note at [OF G4(2)] at [OF G4(1)]
  ultimately show ?thesis unfolding args_at_def by simp
qed

lemma env_setup_readable:
  assumes "buffer_at w v tp vm r block" "registers (harts w v) ! 2 = tp"
    and "length argv < MAX_NR_ARGV" "length envp < MAX_NR_ENVP" "\<forall>s\<in>set argv \<union> set envp. NUL \<notin> set s"
    and "stack_size tp argv envp \<le> region_offset tp r" "region_offset tp r \<le> length block"
  defines "sp \<equiv> tp - of_nat (stack_size tp argv envp)"
  shows "\<exists>w'. env_setup w v argv envp = Some w' \<and> args_at w' v sp argv envp \<and>
    w' = w\<lparr>world_machine := world_machine w', harts := (harts w)(v := (harts w v)\<lparr>registers := (registers (harts w v))[2 := sp]\<rparr>)\<rparr> \<and>
    vms (world_machine w') = vms (world_machine w) \<and> (\<forall>b. host_base r \<noteq> Some b \<longrightarrow> hmem (world_machine w') b = hmem (world_machine w) b) \<and>
    (\<forall>x. \<not> (unat sp \<le> unat x \<and> unat x < unat tp) \<longrightarrow> guest_byte (world_machine w') vm x = guest_byte (world_machine w) vm x)"
proof -
  let ?G = "stack_size tp argv envp" and ?off = "region_offset tp r" and ?e = "pc (harts w v)"
  obtain b where b: "host_base r = Some b" "hmem (world_machine w) b = Some block"
    using assms(1) by (auto simp: buffer_at_def host_block_def split: bind_splits)
  have vm: "vm_mem_ok vm" "region_at vm tp = Some r" using assms(1) by (auto simp: buffer_at_def)
  define pre tail where "pre = take ?off block" "tail = drop ?off block"
  then have block: "block = pre @ tail" "length pre = ?off" using assms(7) by auto
  have ptr: "user_pointer w v tp = Some (Some b, length pre)" using buffer_pointer [OF assms(1)] b(1) block(2) by simp
  obtain pad w' where pad: "length pad = pad_size tp argv envp" and run: "env_setup w v argv envp = Some w'"
    and w': "w' = w\<lparr>world_machine := (world_machine w)\<lparr>hmem := (hmem (world_machine w))
         (b \<mapsto> shrink ?G pre @ stack_image tp ?e argv envp pad @ tail)\<rparr>,
       harts := (harts w)(v := (harts w v)\<lparr>registers := (registers (harts w v))[2 := sp]\<rparr>)\<rparr>"
    using env_setup_runs [OF assms(2) ptr _ less_imp_le [OF assms(3)] less_imp_le [OF assms(4)]] b(2) block assms(6) sp_def by auto
  let ?m' = "world_machine w'" and ?I = "stack_image tp ?e argv envp pad"
  have "args_at w' v sp argv envp" unfolding sp_def
    using block(2) assms(6) by (intro image_args_at [OF assms(1) b(1) _ _ pad _ assms(3-5)]) (auto simp: w')
  moreover note below = region_below [OF region_at_in [OF vm(2)] assms(6), folded sp_def]
  have len: "length ?I = ?G" by (simp add: stack_image_def stack_size_def pad)
  have "splice block (region_offset sp r) ?I = shrink ?G pre @ ?I @ tail"
    using below(2) block assms(6) by (simp add: splice_def shrink_def len)
  then have m': "?m' = (world_machine w)\<lparr>hmem := (hmem (world_machine w))(b \<mapsto> splice block (region_offset sp r) ?I)\<rparr>" by (simp add: w')
  have spr: "region_at vm sp = Some r" using in_region_same [OF _ vm(2) below(1)] vm(1) by (simp add: vm_mem_ok_def)
  have "guest_byte ?m' vm x = guest_byte (world_machine w) vm x" if "\<not> (unat sp \<le> unat x \<and> unat x < unat tp)" for x
    unfolding m' using splice_guest_byte [OF vm(1) spr b, of ?I] that below assms(6,7) len by auto
  ultimately show ?thesis using run b(1) by (auto simp: w')
qed

end
