(* ===== verification/Elf_Load.thy ===== *)
theory Elf_Load
  imports Initial_Stack
begin

text \<open>
  Loading an executable: \<open>sandbox/elf_util.c\<close> and \<open>program_init\<close> of \<open>sandbox/app.c\<close>. The file is read
  through the calls of the host; a structure that is read is the record of its fields in the
  layout of \<open>sandbox/elf.h\<close>.
\<close>

record elf32_elf_header =
  e_ident :: "u8 list"
  e_type :: u16
  e_machine :: u16
  e_version :: u32
  e_entry :: u32
  e_phoff :: u32
  e_shoff :: u32
  e_flags :: u32
  e_ehsize :: u16
  e_phentsize :: u16
  e_phnum :: u16
  e_shentsize :: u16
  e_shnum :: u16
  e_shstrndx :: u16

record elf32_program_header =
  p_type :: u32
  p_offset :: u32
  p_vaddr :: u32
  p_paddr :: u32
  p_filesz :: u32
  p_memsz :: u32
  p_flags :: u32
  p_align :: u32

definition ELF32_IDENTITY_ELF :: u32 where "ELF32_IDENTITY_ELF = 0x464c457f"
definition ELF32_MACHINE_RISCV :: u16 where "ELF32_MACHINE_RISCV = 0xf3"
definition ELF32_CLASS_ELF32 :: u8 where "ELF32_CLASS_ELF32 = 1"
definition PROGRAM_TYPE_LOAD :: u32 where "PROGRAM_TYPE_LOAD = 1"

definition field32 :: "u8 list \<Rightarrow> nat \<Rightarrow> u32" where
  "field32 bs off = ucast (le_word (take 4 (drop off bs)))"

definition field16 :: "u8 list \<Rightarrow> nat \<Rightarrow> u16" where
  "field16 bs off = ucast (le_word (take 2 (drop off bs)))"

definition field8 :: "u8 list \<Rightarrow> nat \<Rightarrow> u8" where
  "field8 bs off = ucast (le_word (take 1 (drop off bs)))"

definition elf_header_of :: "u8 list \<Rightarrow> elf32_elf_header" where
  "elf_header_of bs = \<lparr>e_ident = take 16 bs, e_type = field16 bs 16, e_machine = field16 bs 18, e_version = field32 bs 20,
     e_entry = field32 bs 24, e_phoff = field32 bs 28, e_shoff = field32 bs 32, e_flags = field32 bs 36,
     e_ehsize = field16 bs 40, e_phentsize = field16 bs 42, e_phnum = field16 bs 44, e_shentsize = field16 bs 46,
     e_shnum = field16 bs 48, e_shstrndx = field16 bs 50\<rparr>"

definition program_header_of :: "u8 list \<Rightarrow> elf32_program_header" where
  "program_header_of bs = \<lparr>p_type = field32 bs 0, p_offset = field32 bs 4, p_vaddr = field32 bs 8, p_paddr = field32 bs 12,
     p_filesz = field32 bs 16, p_memsz = field32 bs 20, p_flags = field32 bs 24, p_align = field32 bs 28\<rparr>"

subsection \<open>Reading the file\<close>

definition elf_open :: "'os host_calls \<Rightarrow> string \<Rightarrow> 'os \<Rightarrow> u32 \<times> 'os" where
  "elf_open hc elf_host_path os = os_open hc elf_host_path 0 0 os"

text \<open>
  Offset and size are \<open>int\<close>s and are sign-extended for the host. The result is whether the read
  failed, with the bytes that it stored in the buffer.
\<close>

definition elf_read :: "'os host_calls \<Rightarrow> u32 \<Rightarrow> u32 \<Rightarrow> u32 \<Rightarrow> 'os \<Rightarrow> (bool \<times> u8 list) \<times> 'os" where
  "elf_read hc fd offset nr os =
     (let (_, os1) = os_lseek hc fd (scast offset) 0 os;
          ((nr_read, bs), os2) = os_read hc fd (unat (scast nr :: u64)) os1
      in ((nr_read \<noteq> nr, bs), os2))"

definition elf_header :: "'os host_calls \<Rightarrow> u32 \<Rightarrow> 'os \<Rightarrow> (bool \<times> elf32_elf_header) \<times> 'os" where
  "elf_header hc fd os =
     (let ((rc, blob), os1) = elf_read hc fd 0 52 os; hdr = elf_header_of blob
      in ((rc \<or> \<not> (ELF32_IDENTITY_ELF = field32 (e_ident hdr) 0 \<and> ELF32_CLASS_ELF32 = field8 (e_ident hdr) 4 \<and>
             ELF32_MACHINE_RISCV = e_machine hdr), hdr), os1))"

definition elf_program_header :: "'os host_calls \<Rightarrow> u32 \<Rightarrow> elf32_elf_header \<Rightarrow> nat \<Rightarrow> 'os \<Rightarrow> ((bool \<times> elf32_program_header) \<times> 'os) option" where
  "elf_program_header hc fd elf_hdr index os =
     (if index \<ge> unat (e_phnum elf_hdr) then Some ((True, program_header_of []), os)
      else ASSERT (e_phentsize elf_hdr = 32)
        (let offset = e_phoff elf_hdr + of_nat index * ucast (e_phentsize elf_hdr);
             ((rc, bs), os1) = elf_read hc fd offset (ucast (e_phentsize elf_hdr)) os
         in Some ((rc, program_header_of bs), os1)))"

subsection \<open>Loading\<close>

text \<open>One segment: the buffer may be null, which only matters if the host stores bytes in it.\<close>

definition load_segment :: "host_alloc \<Rightarrow> 'os host_calls \<Rightarrow> vmptr \<Rightarrow> u32 \<Rightarrow> elf32_program_header \<Rightarrow> 'os procs \<Rightarrow> 'os procs option" where
  "load_segment alloc hc v fd_app prog_hdr w =
     (let (base, m1) = preallocate_physical_memory alloc (world_machine w) (unat (p_memsz prog_hdr));
          ((rc, bs), os) = elf_read hc fd_app (p_offset prog_hdr) (p_filesz prog_hdr) (os_state w)
      in Option.bind (fill (w\<lparr>world_machine := m1, os_state := os\<rparr>) (base, 0) bs) (\<lambda>w2.
         ASSERT (\<not> rc) (map_option (\<lambda>m2. w2\<lparr>world_machine := m2\<rparr>)
           (register_region (world_machine w2) v
             (vma_region (p_vaddr prog_hdr) (p_vaddr prog_hdr + p_memsz prog_hdr) (p_flags prog_hdr) base)))))"

fun load_segments :: "host_alloc \<Rightarrow> 'os host_calls \<Rightarrow> vmptr \<Rightarrow> u32 \<Rightarrow> elf32_elf_header \<Rightarrow> nat \<Rightarrow> nat \<Rightarrow> u32 \<Rightarrow> 'os procs \<Rightarrow> (u32 \<times> 'os procs) option" where
  "load_segments alloc hc v fd_app elf_hdr idx 0 prog_break w = Some (prog_break, w)"
| "load_segments alloc hc v fd_app elf_hdr idx (Suc k) prog_break w =
     Option.bind (elf_program_header hc fd_app elf_hdr idx (os_state w)) (\<lambda>((rc, prog_hdr), os).
     ASSERT (\<not> rc)
      (if p_type prog_hdr \<noteq> PROGRAM_TYPE_LOAD
       then load_segments alloc hc v fd_app elf_hdr (Suc idx) k prog_break (w\<lparr>os_state := os\<rparr>)
       else Option.bind (load_segment alloc hc v fd_app prog_hdr (w\<lparr>os_state := os\<rparr>)) (\<lambda>w1.
         let high = p_vaddr prog_hdr + p_memsz prog_hdr in
         load_segments alloc hc v fd_app elf_hdr (Suc idx) k (if high > prog_break then high else prog_break) w1)))"

definition set_hart :: "vmptr \<Rightarrow> hart \<Rightarrow> 'os procs \<Rightarrow> 'os procs" where
  "set_hart v h w = w\<lparr>harts := (harts w)(v := h)\<rparr>"

definition program_init :: "host_alloc \<Rightarrow> 'os host_calls \<Rightarrow> 'os procs \<Rightarrow> vmptr \<Rightarrow> string \<Rightarrow> 'os procs option" where
  "program_init alloc hc w v app_path =
     (let (fd_app, os) = elf_open hc app_path (os_state w) in
      ASSERT (0 \<le> sint fd_app)
       (let ((rc, elf_hdr), os1) = elf_header hc fd_app os in
        ASSERT (\<not> rc)
         (Option.bind (load_segments alloc hc v fd_app elf_hdr 0 (unat (e_phnum elf_hdr)) 0
             (set_hart v ((harts w v)\<lparr>pc := e_entry elf_hdr\<rparr>) (w\<lparr>os_state := os1\<rparr>))) (\<lambda>(prog_break, w1).
          Option.bind (stack_init alloc (world_machine w1) (harts w1 v) v) (\<lambda>(h, m2).
          Option.bind (heap_init m2 v prog_break) (\<lambda>m3.
          Some (set_hart v h (w1\<lparr>world_machine := m3\<rparr>))))))))"

subsection \<open>Adding regions to a new address space\<close>

text \<open>
  \<open>loaded rs m vm A\<close>: the regions of \<open>vm\<close> are those with the bounds \<open>rs\<close>, and its bytes are \<open>A\<close>.
  \<open>vm_links\<close> is what loading does not touch.
\<close>

definition vm_links :: "virtual_machine \<Rightarrow> virtual_machine" where
  "vm_links vm = vm\<lparr>nr_pmr_ops := 0, pmr_ops := [], vma_heap := None, vma_stack := None\<rparr>"

lemma vm_links_flags:
  "vm_links vm = vm_links vm' \<Longrightarrow> cloned_vm vm = cloned_vm vm' \<and> cloned_fs vm = cloned_fs vm' \<and> cloned_files vm = cloned_files vm'"
  by (cases vm, cases vm') (simp add: vm_links_def)

definition loaded :: "(u32 \<times> u32) list \<Rightarrow> machine \<Rightarrow> virtual_machine \<Rightarrow> (u32 \<Rightarrow> u8 option) \<Rightarrow> bool" where
  "loaded rs m vm A \<longleftrightarrow> vm_mem_ok vm \<and> hosted m vm \<and> nr_pmr_ops vm = length rs \<and>
     (\<forall>r\<in>set (live_regions vm). (addr_low r, addr_high r) \<in> set rs) \<and> (\<forall>x. guest_byte m vm x = A x)"

lemma register_links:
  "register_pm_region_operation vm r = Some vm' \<Longrightarrow> vm_links vm' = vm_links vm \<and> nr_pmr_ops vm' = Suc (nr_pmr_ops vm)"
  by (auto simp: register_pm_region_operation_def vm_links_def Let_def split: bind_splits if_splits option.splits)

lemma loaded_links [simp]:
  "live_regions (vm\<lparr>vma_stack := s\<rparr>) = live_regions vm" "live_regions (vm\<lparr>vma_heap := s\<rparr>) = live_regions vm"
  "region_at (vm\<lparr>vma_stack := s\<rparr>) a = region_at vm a" "region_at (vm\<lparr>vma_heap := s\<rparr>) a = region_at vm a"
  "loaded rs m (vm\<lparr>vma_stack := s\<rparr>) A = loaded rs m vm A" "loaded rs m (vm\<lparr>vma_heap := s\<rparr>) A = loaded rs m vm A"
  "vm_links (vm\<lparr>vma_stack := s\<rparr>) = vm_links vm" "vm_links (vm\<lparr>vma_heap := s\<rparr>) = vm_links vm"
  by (simp_all add: live_regions_def region_at_def loaded_def vm_mem_ok_def vm_wf_def hosted_def guest_byte_def vm_links_def)

lemma loaded_vms [simp]: "loaded rs (m\<lparr>vms := f\<rparr>) vm A = loaded rs m vm A"
  by (simp add: loaded_def hosted_def guest_byte_def host_block_def)

lemma loaded_range_free:
  "loaded rs m vm A \<Longrightarrow> \<forall>(l, h)\<in>set rs. unat h \<le> lo \<or> hi \<le> unat l \<Longrightarrow> range_free vm lo hi"
  by (fastforce simp: loaded_def range_free_def)

text \<open>A region with a new host block.\<close>

lemma register_backed:
  fixes m :: machine and fl :: u32
  assumes inv: "loaded rs m vm A" and v: "vms m v = Some vm" and room: "length rs < MAX_VMA_NR"
    and len: "len \<noteq> 0" "unat low + unat len < 2 ^ 32" "\<forall>(l, h)\<in>set rs. unat h \<le> unat low \<or> unat low + unat len \<le> unat l"
    and b: "hmem m b = None" "length bs = unat len"
  defines "m1 \<equiv> m\<lparr>hmem := (hmem m)(b \<mapsto> bs)\<rparr>" and "r \<equiv> vma_region low (low + len) fl (Some b)"
  shows "\<exists>vm'. register_region m1 v r = Some (set_vm v vm' m1) \<and> vm_links vm' = vm_links vm \<and>
    loaded ((low, low + len) # rs) m1 vm' (\<lambda>x. if in_region x r then Some (bs ! region_offset x r) else A x) \<and> set (live_regions vm') = insert r (set (live_regions vm))"
proof -
  have wf: "vm_wf vm" "hosted m vm" "nr_pmr_ops vm < MAX_VMA_NR" using inv room by (auto simp: loaded_def vm_mem_ok_def)
  obtain vm' where vm': "register_pm_region_operation vm r = Some vm'" "vm_wf vm'"
    "set (live_regions vm') = insert r (set (live_regions vm))" "r \<notin> set (live_regions vm)"
    using register_free_range [OF wf(1,3) len(1,2) loaded_range_free [OF inv len(3)]] unfolding r_def by blast
  have notb: "host_base q \<noteq> Some b" if "q \<in> set (live_regions vm)" for q
    using wf(2) b(1) that by (auto simp: hosted_def)
  have "vm_mem_ok vm'" using inv vm'(2,3) by (auto simp: loaded_def vm_mem_ok_def r_def notb not_sym [OF notb])
  moreover have "hosted m1 vm'" using wf(2) vm'(3) by (auto simp: hosted_def m1_def r_def)
  moreover have "guest_byte m1 vm' x = (if in_region x r then Some (bs ! region_offset x r) else A x)" for x
    using guest_byte_insert [OF wf(1) vm'(2,3,4) wf(2) b(1), of m1 bs] inv b(2) by (simp add: m1_def r_def loaded_def)
  moreover have "(addr_low q, addr_high q) \<in> set ((low, low + len) # rs)" if "q \<in> set (live_regions vm')" for q
    using that vm'(3) inv by (auto simp: loaded_def r_def)
  ultimately have "loaded ((low, low + len) # rs) m1 vm' (\<lambda>x. if in_region x r then Some (bs ! region_offset x r) else A x)"
    using register_links [OF vm'(1)] inv by (auto simp: loaded_def)
  moreover have "register_region m1 v r = Some (set_vm v vm' m1)" using v vm'(1) by (simp add: register_region_def m1_def)
  ultimately show ?thesis using register_links [OF vm'(1)] vm'(3) by blast
qed

text \<open>A region without one: its bytes cannot be read.\<close>

lemma register_unbacked:
  fixes m :: machine and fl :: u32
  assumes inv: "loaded rs m vm A" and v: "vms m v = Some vm" and room: "length rs < MAX_VMA_NR"
    and len: "len \<noteq> 0" "unat low + unat len < 2 ^ 32" "\<forall>(l, h)\<in>set rs. unat h \<le> unat low \<or> unat low + unat len \<le> unat l"
  defines "r \<equiv> vma_region low (low + len) fl None"
  shows "\<exists>vm'. register_region m v r = Some (set_vm v vm' m) \<and> vm_links vm' = vm_links vm \<and>
    loaded ((low, low + len) # rs) m vm' A \<and> set (live_regions vm') = insert r (set (live_regions vm))"
proof -
  have wf: "vm_wf vm" "hosted m vm" "nr_pmr_ops vm < MAX_VMA_NR" using inv room by (auto simp: loaded_def vm_mem_ok_def)
  obtain vm' where vm': "register_pm_region_operation vm r = Some vm'" "vm_wf vm'"
    "set (live_regions vm') = insert r (set (live_regions vm))" "r \<notin> set (live_regions vm)"
    using register_free_range [OF wf(1,3) len(1,2) loaded_range_free [OF inv len(3)]] unfolding r_def by blast
  have "guest_byte m vm' x = guest_byte m vm x" for x
  proof (cases "region_at vm' x = Some r")
    case True
    then have "region_at vm x = None" using fresh_region_apart [OF wf(1) vm'(2-4)] region_at_in by blast
    with True show ?thesis by (simp add: guest_byte_def host_block_def r_def)
  next
    case False
    have "region_at vm' x = Some q \<longleftrightarrow> region_at vm x = Some q" for q
      using False region_at_live [OF vm'(2)] region_at_live [OF wf(1)] vm'(3) by auto
    then have "region_at vm' x = region_at vm x" by (metis not_None_eq)
    then show ?thesis by (simp add: guest_byte_def)
  qed
  moreover have "vm_mem_ok vm'" using inv vm'(2,3) by (auto simp: loaded_def vm_mem_ok_def r_def)
  moreover have "hosted m vm'" using wf(2) vm'(3) by (auto simp: hosted_def r_def)
  ultimately have "loaded ((low, low + len) # rs) m vm' A"
    using register_links [OF vm'(1)] inv vm'(3) by (auto simp: loaded_def r_def)
  moreover have "register_region m v r = Some (set_vm v vm' m)" using v vm'(1) by (simp add: register_region_def)
  ultimately show ?thesis using register_links [OF vm'(1)] vm'(3) by blast
qed

subsection \<open>The file\<close>

text \<open>
  What the host promises of an executable \<open>img\<close>: opening it gives a descriptor, and a read after
  a seek gives the bytes at that place, as long as the state of the host stays in \<open>P\<close>, which
  reads keep.
\<close>

definition reads_file :: "'os host_calls \<Rightarrow> u32 \<Rightarrow> u8 list \<Rightarrow> ('os \<Rightarrow> bool) \<Rightarrow> bool" where
  "reads_file hc fd img P \<longleftrightarrow> (\<forall>os off n. P os \<longrightarrow>
     (case os_read hc fd n (snd (os_lseek hc fd off 0 os)) of ((rc, bs), os') \<Rightarrow>
        P os' \<and> bs = take n (drop (unat off) img) \<and> rc = of_nat (length bs)))"

definition elf_file :: "'os host_calls \<Rightarrow> string \<Rightarrow> u8 list \<Rightarrow> ('os \<Rightarrow> bool) \<Rightarrow> 'os \<Rightarrow> bool" where
  "elf_file hc path img P os \<longleftrightarrow>
     (case os_open hc path 0 0 os of (fd, os1) \<Rightarrow> 0 \<le> sint fd \<and> P os1 \<and> reads_file hc fd img P)"

definition elf_headers :: "u8 list \<Rightarrow> elf32_elf_header \<Rightarrow> elf32_program_header list \<Rightarrow> bool" where
  "elf_headers img hdr phs \<longleftrightarrow> 52 \<le> length img \<and> hdr = elf_header_of (take 52 img) \<and>
     ELF32_IDENTITY_ELF = field32 (e_ident hdr) 0 \<and> ELF32_CLASS_ELF32 = field8 (e_ident hdr) 4 \<and>
     ELF32_MACHINE_RISCV = e_machine hdr \<and> e_phentsize hdr = 32 \<and>
     unat (e_phoff hdr) + 32 * unat (e_phnum hdr) \<le> length img \<and> length img < 2 ^ 31 \<and>
     phs = map (\<lambda>i. program_header_of (take 32 (drop (unat (e_phoff hdr) + 32 * i) img))) [0..<unat (e_phnum hdr)]"

lemma elf_read_file:
  assumes "reads_file hc fd img P" "P os" "unat off + unat nr \<le> length img" "length img < 2 ^ 31"
  shows "\<exists>os'. elf_read hc fd off nr os = ((False, take (unat nr) (drop (unat off) img)), os') \<and> P os'"
proof -
  obtain r os1 where l: "os_lseek hc fd (scast off) 0 os = (r, os1)" by fastforce
  obtain rc bs os2 where rd: "os_read hc fd (unat (scast nr :: u64)) os1 = ((rc, bs), os2)" by (metis prod.exhaust)
  have u: "unat (scast nr :: u64) = unat nr" "unat (scast off :: u64) = unat off" using assms(3,4) by (auto intro: unat_scast_small)
  have "P os2 \<and> bs = take (unat nr) (drop (unat off) img) \<and> rc = of_nat (length bs)"
  proof -
    have "case os_read hc fd (unat (scast nr :: u64)) (snd (os_lseek hc fd (scast off) 0 os)) of ((rc, bs), os') \<Rightarrow>
        P os' \<and> bs = take (unat (scast nr :: u64)) (drop (unat (scast off :: u64)) img) \<and> rc = of_nat (length bs)"
      using assms(1) [unfolded reads_file_def, rule_format, OF assms(2)] .
    then show ?thesis unfolding l snd_conv rd by (simp add: u)
  qed
  moreover from this have "length bs = unat nr" using assms(3) by simp
  ultimately show ?thesis using l rd by (simp add: elf_read_def)
qed

lemma elf_header_file:
  assumes "elf_headers img hdr phs" "reads_file hc fd img P" "P os"
  shows "\<exists>os'. elf_header hc fd os = ((False, hdr), os') \<and> P os'"
  using elf_read_file [OF assms(2,3), of 0 52] assms(1) by (auto simp: elf_header_def elf_headers_def)

lemma elf_program_header_file:
  assumes "elf_headers img hdr phs" "reads_file hc fd img P" "P os" "idx < length phs"
  shows "\<exists>os'. elf_program_header hc fd hdr idx os = Some ((False, phs ! idx), os') \<and> P os'"
proof -
  have h: "idx < unat (e_phnum hdr)" "e_phentsize hdr = 32" "unat (e_phoff hdr) + 32 * unat (e_phnum hdr) \<le> length img" "length img < 2 ^ 31"
    "phs ! idx = program_header_of (take 32 (drop (unat (e_phoff hdr) + 32 * idx) img))"
    using assms(1,4) by (auto simp: elf_headers_def)
  have off: "unat (e_phoff hdr + of_nat idx * 32) = unat (e_phoff hdr) + 32 * idx"
  proof -
    have lt: "unat (e_phoff hdr) + 32 * idx < 2 ^ 32" using h(1,3,4) by simp
    then have "unat (of_nat idx * 32 :: u32) = 32 * idx" by (simp add: unat_word_ariths unat_of_nat mult.commute)
    with lt show ?thesis by (simp add: unat_word_ariths)
  qed
  obtain os' where "elf_read hc fd (e_phoff hdr + of_nat idx * 32) 32 os = ((False, take 32 (drop (unat (e_phoff hdr) + 32 * idx) img)), os')" "P os'"
    using elf_read_file [OF assms(2,3), of "e_phoff hdr + of_nat idx * 32" 32] h off by auto
  then show ?thesis using h by (auto simp: elf_program_header_def)
qed

subsection \<open>The segments\<close>

definition stack_low :: u32 where "stack_low = DEFAULT_STACK_CELIING - DEFAULT_STACK_SIZE"

definition segment_bytes :: "u8 list \<Rightarrow> elf32_program_header \<Rightarrow> u8 list" where
  "segment_bytes img s = take (unat (p_filesz s)) (drop (unat (p_offset s)) img) @ replicate (unat (p_memsz s) - unat (p_filesz s)) 0"

definition in_segment :: "u32 \<Rightarrow> elf32_program_header \<Rightarrow> bool" where
  "in_segment x s \<longleftrightarrow> unat (p_vaddr s) \<le> unat x \<and> unat x < unat (p_vaddr s) + unat (p_memsz s)"

text \<open>A segment lies in the file and leaves room for the heap below the stack.\<close>

definition segment_ok :: "u8 list \<Rightarrow> elf32_program_header \<Rightarrow> bool" where
  "segment_ok img s \<longleftrightarrow> p_memsz s \<noteq> 0 \<and> unat (p_filesz s) \<le> unat (p_memsz s) \<and>
     unat (p_offset s) + unat (p_filesz s) \<le> length img \<and> unat (p_vaddr s) + unat (p_memsz s) + 0x10000 \<le> unat stack_low"

fun segments_fit :: "u8 list \<Rightarrow> (u32 \<times> u32) list \<Rightarrow> elf32_program_header list \<Rightarrow> bool" where
  "segments_fit img rs [] \<longleftrightarrow> True"
| "segments_fit img rs (s # ss) \<longleftrightarrow> segment_ok img s \<and>
     list_all (\<lambda>(l, h). unat h \<le> unat (p_vaddr s) \<or> unat (p_vaddr s) + unat (p_memsz s) \<le> unat l) rs \<and>
     segments_fit img ((p_vaddr s, p_vaddr s + p_memsz s) # rs) ss"

fun image_bytes :: "u8 list \<Rightarrow> elf32_program_header list \<Rightarrow> (u32 \<Rightarrow> u8 option) \<Rightarrow> u32 \<Rightarrow> u8 option" where
  "image_bytes img [] A = A"
| "image_bytes img (s # ss) A = image_bytes img ss (\<lambda>x. if in_segment x s then Some (segment_bytes img s ! (unat x - unat (p_vaddr s))) else A x)"

text \<open>
  What loading does to the rest of the machine: other processes and the blocks in use stay, and a
  block that is new backs a region of the process.
\<close>

definition host_bases :: "virtual_machine \<Rightarrow> nat set" where
  "host_bases vm = {b. \<exists>r\<in>set (live_regions vm). host_base r = Some b}"

definition grows :: "vmptr \<Rightarrow> machine \<Rightarrow> machine \<Rightarrow> bool" where
  "grows v m m' \<longleftrightarrow> (\<forall>u. u \<noteq> v \<longrightarrow> vms m' u = vms m u) \<and> (\<forall>b. hmem m b \<noteq> None \<longrightarrow> hmem m' b = hmem m b) \<and>
     (finite (dom (hmem m)) \<longrightarrow> finite (dom (hmem m'))) \<and>
     (\<exists>vm vm'. vms m v = Some vm \<and> vms m' v = Some vm' \<and> host_bases vm \<subseteq> host_bases vm' \<and> dom (hmem m') \<subseteq> dom (hmem m) \<union> host_bases vm')"

lemma grows_refl [simp]: "grows v m m \<longleftrightarrow> vms m v \<noteq> None"
  by (auto simp: grows_def)

lemma grows_trans [trans]: "grows v m1 m2 \<Longrightarrow> grows v m2 m3 \<Longrightarrow> grows v m1 m3"
  unfolding grows_def by (elim conjE exE, intro conjI) (simp_all, blast)

lemma grows_block:
  assumes "hmem m b = None" "vms m v = Some vm" "set (live_regions vm') = insert r (set (live_regions vm))" "host_base r = Some b"
  shows "grows v m (set_vm v vm' (m\<lparr>hmem := (hmem m)(b \<mapsto> bs)\<rparr>))"
  using assms by (auto simp: grows_def set_vm_def host_bases_def)

lemma grows_set_vm: "vms m v = Some vm \<Longrightarrow> set (live_regions vm) \<subseteq> set (live_regions vm') \<Longrightarrow> grows v m (set_vm v vm' m)"
  by (auto simp: grows_def set_vm_def host_bases_def)

lemma host_bases_links [simp]: "host_bases (vm\<lparr>vma_stack := s\<rparr>) = host_bases vm" "host_bases (vm\<lparr>vma_heap := s\<rparr>) = host_bases vm"
  by (simp_all add: host_bases_def)

lemma segment_limit:
  assumes "segment_ok img s"
  shows "unat (p_vaddr s) + unat (p_memsz s) < 2 ^ 32" "unat (p_vaddr s + p_memsz s) = unat (p_vaddr s) + unat (p_memsz s)"
    "length (segment_bytes img s) = unat (p_memsz s)"
proof -
  show lt: "unat (p_vaddr s) + unat (p_memsz s) < 2 ^ 32"
    using assms by (simp add: segment_ok_def stack_low_def DEFAULT_STACK_CELIING_def DEFAULT_STACK_SIZE_def)
  then show "unat (p_vaddr s + p_memsz s) = unat (p_vaddr s) + unat (p_memsz s)" by (simp add: unat_word_ariths)
  show "length (segment_bytes img s) = unat (p_memsz s)" using assms by (auto simp: segment_ok_def segment_bytes_def)
qed

lemma in_region_segment:
  assumes "segment_ok img s"
  shows "in_region x (vma_region (p_vaddr s) (p_vaddr s + p_memsz s) fl b) \<longleftrightarrow> in_segment x s"
    "in_segment x s \<Longrightarrow> region_offset x (vma_region (p_vaddr s) (p_vaddr s + p_memsz s) fl b) = unat x - unat (p_vaddr s)"
  using segment_limit(2) [OF assms]
  by (auto simp: in_region_def in_segment_def region_offset_def word_le_nat_alt word_less_nat_alt unat_sub)

lemma load_segment_loads:
  fixes w :: "'os procs"
  assumes rf: "reads_file hc fd img P" "P (os_state w)" "length img < 2 ^ 31"
    and s: "segment_ok img s" "\<forall>(l, h)\<in>set rs. unat h \<le> unat (p_vaddr s) \<or> unat (p_vaddr s) + unat (p_memsz s) \<le> unat l"
    and alloc: "host_alloc_ok alloc" "host_alloc_total alloc" "finite (dom (hmem (world_machine w)))"
    and inv: "loaded rs (world_machine w) vm A" "vm_of w v = Some vm" "length rs < MAX_VMA_NR"
  shows "\<exists>m' os' vm'. load_segment alloc hc v fd s w = Some (w\<lparr>world_machine := m', os_state := os'\<rparr>) \<and> P os' \<and>
    vms m' v = Some vm' \<and> vm_links vm' = vm_links vm \<and> grows v (world_machine w) m' \<and>
    loaded ((p_vaddr s, p_vaddr s + p_memsz s) # rs) m' vm'
      (\<lambda>x. if in_segment x s then Some (segment_bytes img s ! (unat x - unat (p_vaddr s))) else A x)"
proof -
  let ?m = "world_machine w" and ?n = "unat (p_memsz s)"
  obtain b where b: "alloc (hmem ?m) ?n = Some b" "hmem ?m b = None"
    using alloc unfolding host_alloc_total_def host_alloc_ok_def by (metis not_None_eq)
  obtain os' where rd: "elf_read hc fd (p_offset s) (p_filesz s) (os_state w) = ((False, take (unat (p_filesz s)) (drop (unat (p_offset s)) img)), os')" "P os'"
    using elf_read_file [OF rf(1,2), of "p_offset s" "p_filesz s"] s(1) rf(3) by (auto simp: segment_ok_def)
  let ?bs = "take (unat (p_filesz s)) (drop (unat (p_offset s)) img)"
  let ?m1 = "?m\<lparr>hmem := (hmem ?m)(b \<mapsto> segment_bytes img s)\<rparr>"
  have nz: "p_memsz s \<noteq> 0" using s(1) by (simp add: segment_ok_def)
  have len: "length ?bs = unat (p_filesz s)" "unat (p_filesz s) \<le> ?n" using s(1) by (auto simp: segment_ok_def)
  have "fill (w\<lparr>world_machine := ?m\<lparr>hmem := (hmem ?m)(b \<mapsto> replicate ?n 0)\<rparr>, os_state := os'\<rparr>) (Some b, 0) ?bs =
      Some (w\<lparr>world_machine := ?m1, os_state := os'\<rparr>)"
    using len by (auto simp: fill_def store_bytes_def splice_def segment_bytes_def)
  moreover obtain vm' where vm': "register_region ?m1 v (vma_region (p_vaddr s) (p_vaddr s + p_memsz s) (p_flags s) (Some b)) = Some (set_vm v vm' ?m1)"
    "vm_links vm' = vm_links vm"
    "loaded ((p_vaddr s, p_vaddr s + p_memsz s) # rs) ?m1 vm' (\<lambda>x. if in_region x (vma_region (p_vaddr s) (p_vaddr s + p_memsz s) (p_flags s) (Some b))
       then Some (segment_bytes img s ! region_offset x (vma_region (p_vaddr s) (p_vaddr s + p_memsz s) (p_flags s) (Some b))) else A x)"
    "set (live_regions vm') = insert (vma_region (p_vaddr s) (p_vaddr s + p_memsz s) (p_flags s) (Some b)) (set (live_regions vm))"
    using register_backed [OF inv(1) inv(2) inv(3) nz segment_limit(1) [OF s(1)] s(2) b(2) segment_limit(3) [OF s(1)], of "p_flags s"] by blast
  ultimately have "load_segment alloc hc v fd s w = Some (w\<lparr>world_machine := set_vm v vm' ?m1, os_state := os'\<rparr>)"
    using b(1) rd(1) by (simp add: load_segment_def preallocate_physical_memory_def)
  moreover have "loaded ((p_vaddr s, p_vaddr s + p_memsz s) # rs) (set_vm v vm' ?m1) vm'
      (\<lambda>x. if in_segment x s then Some (segment_bytes img s ! (unat x - unat (p_vaddr s))) else A x)"
    using vm'(3) in_region_segment [OF s(1)] by (simp add: set_vm_def cong: if_cong)
  ultimately show ?thesis using rd(2) vm'(2) grows_block [OF b(2) inv(2) vm'(4)]
    by (intro exI [of _ "set_vm v vm' ?m1"] exI [of _ os'] exI [of _ vm']) (simp add: set_vm_def)
qed

definition load_headers :: "elf32_program_header list \<Rightarrow> elf32_program_header list" where
  "load_headers phs = filter (\<lambda>s. p_type s = PROGRAM_TYPE_LOAD) phs"

definition below_break :: "(u32 \<times> u32) list \<Rightarrow> u32 \<Rightarrow> bool" where
  "below_break rs pb \<longleftrightarrow> (\<forall>(l, h)\<in>set rs. unat h \<le> unat pb) \<and> unat pb + 0x10000 \<le> unat stack_low"

lemma below_break_Cons:
  assumes "below_break rs pb" "segment_ok img s"
  shows "below_break ((p_vaddr s, p_vaddr s + p_memsz s) # rs) (if p_vaddr s + p_memsz s > pb then p_vaddr s + p_memsz s else pb)"
  using assms segment_limit(2) [OF assms(2)]
  by (auto simp: below_break_def segment_ok_def word_less_nat_alt)

lemma load_segments_loads:
  fixes w :: "'os procs"
  assumes hd: "elf_headers img hdr phs" "reads_file hc fd img P" "host_alloc_ok alloc" "host_alloc_total alloc"
  shows "idx + k = length phs \<Longrightarrow> P (os_state w) \<Longrightarrow> finite (dom (hmem (world_machine w))) \<Longrightarrow>
    loaded rs (world_machine w) vm A \<Longrightarrow> vm_of w v = Some vm \<Longrightarrow> segments_fit img rs (load_headers (drop idx phs)) \<Longrightarrow>
    length rs + length (load_headers (drop idx phs)) \<le> MAX_VMA_NR \<Longrightarrow> below_break rs pb \<Longrightarrow>
    \<exists>m' os' vm' pb' rs'. load_segments alloc hc v fd hdr idx k pb w = Some (pb', w\<lparr>world_machine := m', os_state := os'\<rparr>) \<and> P os' \<and>
      vms m' v = Some vm' \<and> vm_links vm' = vm_links vm \<and> grows v (world_machine w) m' \<and>
      loaded rs' m' vm' (image_bytes img (load_headers (drop idx phs)) A) \<and>
      length rs' = length rs + length (load_headers (drop idx phs)) \<and> below_break rs' pb'"
proof (induction k arbitrary: idx pb w vm A rs)
  case 0
  then show ?case by (intro exI [of _ "world_machine w"] exI [of _ "os_state w"] exI [of _ vm] exI [of _ pb] exI [of _ rs]) (simp add: load_headers_def)
next
  case (Suc k)
  let ?s = "phs ! idx"
  have idx: "idx < length phs" "Suc idx + k = length phs" using Suc.prems(1) by simp_all
  then have dr: "drop idx phs = ?s # drop (Suc idx) phs" by (simp add: Cons_nth_drop_Suc)
  obtain os1 where ph: "elf_program_header hc fd hdr idx (os_state w) = Some ((False, ?s), os1)" "P os1"
    using elf_program_header_file [OF hd(1,2) Suc.prems(2) idx(1)] by blast
  have img: "length img < 2 ^ 31" using hd(1) by (simp add: elf_headers_def)
  let ?w1 = "w\<lparr>os_state := os1\<rparr>"
  show ?case
  proof (cases "p_type ?s = PROGRAM_TYPE_LOAD")
    case False
    then have "load_headers (drop idx phs) = load_headers (drop (Suc idx) phs)" by (simp add: dr load_headers_def)
    then show ?thesis using Suc.IH [OF idx(2), of ?w1 rs vm A pb] Suc.prems ph False by simp
  next
    case True
    then have lh: "load_headers (drop idx phs) = ?s # load_headers (drop (Suc idx) phs)" by (simp add: dr load_headers_def)
    let ?rs = "(p_vaddr ?s, p_vaddr ?s + p_memsz ?s) # rs"
    let ?A = "\<lambda>x. if in_segment x ?s then Some (segment_bytes img ?s ! (unat x - unat (p_vaddr ?s))) else A x"
    have fit: "segment_ok img ?s" "\<forall>(l, h)\<in>set rs. unat h \<le> unat (p_vaddr ?s) \<or> unat (p_vaddr ?s) + unat (p_memsz ?s) \<le> unat l"
      "segments_fit img ?rs (load_headers (drop (Suc idx) phs))" "length rs < MAX_VMA_NR"
      using Suc.prems(6,7) by (auto simp: lh list_all_iff)
    obtain m1 os2 vm1 where ld: "load_segment alloc hc v fd ?s ?w1 = Some (w\<lparr>world_machine := m1, os_state := os2\<rparr>)" "P os2"
      "vms m1 v = Some vm1" "vm_links vm1 = vm_links vm" "grows v (world_machine w) m1" "loaded ?rs m1 vm1 ?A"
      using load_segment_loads [OF hd(2) _ img fit(1,2) hd(3,4), of ?w1 vm A v] ph(2) Suc.prems(3-5) fit(4) by auto
    let ?pb = "if p_vaddr ?s + p_memsz ?s > pb then p_vaddr ?s + p_memsz ?s else pb"
    have run: "load_segments alloc hc v fd hdr idx (Suc k) pb w =
        load_segments alloc hc v fd hdr (Suc idx) k ?pb (w\<lparr>world_machine := m1, os_state := os2\<rparr>)"
      using ph(1) ld(1) True by (simp add: Let_def)
    obtain m' os' vm' pb' rs' where "load_segments alloc hc v fd hdr (Suc idx) k ?pb (w\<lparr>world_machine := m1, os_state := os2\<rparr>) =
        Some (pb', w\<lparr>world_machine := m', os_state := os'\<rparr>)" "P os'" "vms m' v = Some vm'" "vm_links vm' = vm_links vm1" "grows v m1 m'"
        "loaded rs' m' vm' (image_bytes img (load_headers (drop (Suc idx) phs)) ?A)"
        "length rs' = length ?rs + length (load_headers (drop (Suc idx) phs))" "below_break rs' pb'"
      using Suc.IH [OF idx(2), of "w\<lparr>world_machine := m1, os_state := os2\<rparr>" ?rs vm1 ?A ?pb] ld(2-6) fit(3)
        Suc.prems(3,7) below_break_Cons [OF Suc.prems(8) fit(1)] by (auto simp: lh grows_def)
    then show ?thesis unfolding run lh using ld(4) grows_trans [OF ld(5)]
      by (intro exI [of _ m'] exI [of _ os'] exI [of _ vm'] exI [of _ pb'] exI [of _ rs']) simp
  qed
qed

subsection \<open>Stack and heap\<close>

definition initial_sp :: u32 where "initial_sp = DEFAULT_STACK_CELIING - 0x100"

definition stack_region :: "nat \<Rightarrow> pm_region_operation" where
  "stack_region b = vma_region stack_low DEFAULT_STACK_CELIING (PROGRAM_READ OR PROGRAM_WRITE) (Some b)"

definition in_stack :: "u32 \<Rightarrow> bool" where
  "in_stack x \<longleftrightarrow> stack_low \<le> x \<and> x < DEFAULT_STACK_CELIING"

lemmas stack_bounds = stack_low_def DEFAULT_STACK_CELIING_def DEFAULT_STACK_SIZE_def

lemma stack_init_maps:
  fixes m :: machine
  assumes alloc: "host_alloc_ok alloc" "host_alloc_total alloc" "finite (dom (hmem m))"
    and inv: "loaded rs m vm A" "vms m v = Some vm" "length rs < MAX_VMA_NR" "below_break rs pb"
  shows "\<exists>m' vm' b. stack_init alloc m h v = Some (h\<lparr>registers := (registers h)[2 := initial_sp]\<rparr>, m') \<and> vms m' v = Some vm' \<and>
    vm_links vm' = vm_links vm \<and> grows v m m' \<and> loaded ((stack_low, DEFAULT_STACK_CELIING) # rs) m' vm' (\<lambda>x. if in_stack x then Some 0 else A x) \<and>
    stack_region b \<in> set (live_regions vm') \<and> hmem m' b = Some (replicate (unat DEFAULT_STACK_SIZE) 0) \<and> hmem m b = None"
proof -
  let ?n = "unat DEFAULT_STACK_SIZE"
  obtain b where b: "alloc (hmem m) ?n = Some b" "hmem m b = None"
    using alloc unfolding host_alloc_total_def host_alloc_ok_def by (metis not_None_eq)
  let ?m1 = "m\<lparr>hmem := (hmem m)(b \<mapsto> replicate ?n 0)\<rparr>" and ?r = "stack_region b"
  have high: "stack_low + DEFAULT_STACK_SIZE = DEFAULT_STACK_CELIING" by (simp add: stack_bounds)
  have apart: "\<forall>(l, h)\<in>set rs. unat h \<le> unat stack_low \<or> unat stack_low + ?n \<le> unat l"
    using inv(4) by (fastforce simp: below_break_def)
  obtain vm1 where vm1: "register_region ?m1 v ?r = Some (set_vm v vm1 ?m1)" "vm_links vm1 = vm_links vm"
    "loaded ((stack_low, DEFAULT_STACK_CELIING) # rs) ?m1 vm1 (\<lambda>x. if in_region x ?r then Some (replicate ?n 0 ! region_offset x ?r) else A x)"
    "set (live_regions vm1) = insert ?r (set (live_regions vm))"
    using register_backed [OF inv(1-3) _ _ apart b(2), of "replicate ?n 0" "PROGRAM_READ OR PROGRAM_WRITE"]
    unfolding high stack_region_def by (auto simp: stack_bounds)
  have wf: "vm_wf vm1" using vm1(3) by (simp add: loaded_def vm_mem_ok_def)
  have "in_region stack_low ?r" by (simp add: stack_region_def in_region_def stack_bounds)
  then obtain i where i: "search_pm_region_callback vm1 (ucast stack_low) = Some (Some i)"
    using search_region_at [OF wf, of stack_low ?r] region_at_live [OF wf] vm1(4) by auto
  let ?vm' = "vm1\<lparr>vma_stack := Some i\<rparr>" and ?m' = "set_vm v (vm1\<lparr>vma_stack := Some i\<rparr>) ?m1"
  have low: "DEFAULT_STACK_CELIING - DEFAULT_STACK_SIZE = stack_low" by (simp add: stack_low_def)
  have "stack_init alloc m h v = Some (h\<lparr>registers := (registers h)[2 := initial_sp]\<rparr>, ?m')"
    using b(1) vm1(1) i by (simp add: stack_init_def preallocate_physical_memory_def low stack_region_def initial_sp_def set_vm_def Let_def)
  moreover have "(\<lambda>x. if in_region x ?r then Some (replicate ?n 0 ! region_offset x ?r) else A x) = (\<lambda>x. if in_stack x then Some 0 else A x)"
  proof
    fix x
    have "unat (addr_high ?r - addr_low ?r) = ?n" by (simp add: stack_region_def stack_bounds)
    then have "region_offset x ?r < ?n" if "in_region x ?r" using region_offset_bound [OF that] by simp
    then show "(if in_region x ?r then Some (replicate ?n 0 ! region_offset x ?r) else A x) = (if in_stack x then Some 0 else A x)"
      by (auto simp: in_stack_def in_region_def stack_region_def)
  qed
  ultimately show ?thesis
    using vm1 b(2) grows_block [OF b(2) inv(2), of ?vm' ?r "replicate ?n 0"]
    by (intro exI [of _ ?m'] exI [of _ ?vm'] exI [of _ b]) (simp add: set_vm_def stack_region_def)
qed

lemma heap_break:
  assumes "unat pb + 0x10000 \<le> unat stack_low"
  defines "p \<equiv> (pb + 4096 * 16) AND NOT (4095 :: u32)"
  shows "unat pb < unat (p - 1)" "unat p = unat (p - 1) + 1" "unat p \<le> unat stack_low"
proof -
  have s: "unat (pb + 4096 * 16) = unat pb + 0x10000"
    using assms(1) by (simp add: stack_bounds unat_word_ariths)
  note pp = page_parts [of "pb + 4096 * 16", folded p_def, unfolded s]
  have "0 < unat p" using pp(1,2) by linarith
  then have "unat (p - 1) = unat p - 1" by (simp add: unat_sub word_le_nat_alt unat_gt_0 Suc_le_eq)
  then show "unat pb < unat (p - 1)" "unat p = unat (p - 1) + 1" "unat p \<le> unat stack_low"
    using pp(1,2) assms(1) \<open>0 < unat p\<close> by linarith+
qed

lemma heap_init_maps:
  assumes inv: "loaded ((stack_low, DEFAULT_STACK_CELIING) # rs) m vm A" "vms m v = Some vm" "Suc (length rs) < MAX_VMA_NR" "below_break rs pb"
  shows "\<exists>m' vm'. heap_init m v pb = Some m' \<and> vms m' v = Some vm' \<and> vm_links vm' = vm_links vm \<and> grows v m m' \<and>
    (\<exists>rs'. loaded rs' m' vm' A) \<and> hmem m' = hmem m \<and> set (live_regions vm) \<subseteq> set (live_regions vm')"
proof -
  define p where "p = (pb + 4096 * 16) AND NOT (4095 :: u32)"
  note hb = heap_break [of pb, folded p_def]
  have brk: "unat pb + 0x10000 \<le> unat stack_low" using inv(4) by (simp add: below_break_def)
  note hb = hb [OF brk]
  have apart: "\<forall>(l, h)\<in>set ((stack_low, DEFAULT_STACK_CELIING) # rs). unat h \<le> unat (p - 1) \<or> unat (p - 1) + unat (1 :: u32) \<le> unat l"
    using inv(4) hb by (fastforce simp: below_break_def)
  have lt: "unat (p - 1) + unat (1 :: u32) < 2 ^ 32" using hb(2,3) by (simp add: stack_bounds)
  obtain vm1 where vm1: "register_region m v (vma_region (p - 1) p (PROGRAM_READ OR PROGRAM_WRITE) None) = Some (set_vm v vm1 m)"
    "vm_links vm1 = vm_links vm" "loaded ((p - 1, p) # (stack_low, DEFAULT_STACK_CELIING) # rs) m vm1 A"
    "set (live_regions vm1) = insert (vma_region (p - 1) p (PROGRAM_READ OR PROGRAM_WRITE) None) (set (live_regions vm))"
    using register_unbacked [OF inv(1,2) _ _ lt apart, of "PROGRAM_READ OR PROGRAM_WRITE"] inv(3) by auto
  have wf: "vm_wf vm1" using vm1(3) by (simp add: loaded_def vm_mem_ok_def)
  have "in_region (p - 1) (vma_region (p - 1) p (PROGRAM_READ OR PROGRAM_WRITE) None)"
    using hb(2) by (simp add: in_region_def word_less_nat_alt)
  then obtain i where i: "search_pm_region_callback vm1 (ucast (p - 1)) = Some (Some i)"
    using search_region_at [OF wf, of "p - 1"] region_at_live [OF wf] vm1(4) by blast
  let ?vm' = "vm1\<lparr>vma_heap := Some i\<rparr>"
  have "heap_init m v pb = Some (set_vm v ?vm' m)"
    unfolding heap_init_def Let_def p_def [symmetric] using vm1(1) i by (simp add: set_vm_def)
  then show ?thesis using vm1 inv(2) grows_set_vm [OF inv(2), of ?vm']
    by (intro exI [of _ "set_vm v ?vm' m"] exI [of _ ?vm']) (auto simp: set_vm_def)
qed

subsection \<open>The loaded program\<close>

lemma segments_fit_ok: "segments_fit img rs ss \<Longrightarrow> s \<in> set ss \<Longrightarrow> segment_ok img s"
  by (induction img rs ss rule: segments_fit.induct) auto

lemma segments_fit_apart:
  "segments_fit img rs ss \<Longrightarrow> (l, h) \<in> set rs \<Longrightarrow> s \<in> set ss \<Longrightarrow>
     unat h \<le> unat (p_vaddr s) \<or> unat (p_vaddr s) + unat (p_memsz s) \<le> unat l"
  by (induction img rs ss rule: segments_fit.induct) (auto simp: list_all_iff)

lemma image_bytes_out: "\<forall>s\<in>set ss. \<not> in_segment x s \<Longrightarrow> image_bytes img ss A x = A x"
  by (induction img ss A rule: image_bytes.induct) auto

lemma image_bytes_at:
  "segments_fit img rs ss \<Longrightarrow> s \<in> set ss \<Longrightarrow> in_segment x s \<Longrightarrow>
     image_bytes img ss A x = Some (segment_bytes img s ! (unat x - unat (p_vaddr s)))"
proof (induction img rs ss arbitrary: A rule: segments_fit.induct)
  case (2 img rs t ss)
  show ?case
  proof (cases "s \<in> set ss")
    case True
    with 2 show ?thesis by simp
  next
    case False
    then have t: "s = t" using 2(3) by simp
    have "\<not> in_segment x u" if "u \<in> set ss" for u
      using segments_fit_apart [of img "(p_vaddr t, p_vaddr t + p_memsz t) # rs" ss "p_vaddr t" "p_vaddr t + p_memsz t" u] that 2(2,4)
        segment_limit(2) [of img t] by (auto simp: in_segment_def t)
    then show ?thesis using 2(4) by (simp add: image_bytes_out t)
  qed
qed simp

text \<open>The bytes of a program that was just loaded.\<close>

definition program_bytes :: "u8 list \<Rightarrow> elf32_program_header list \<Rightarrow> u32 \<Rightarrow> u8 option" where
  "program_bytes img phs x = (if in_stack x then Some 0 else image_bytes img (load_headers phs) (\<lambda>_. None) x)"

text \<open>What the loader needs of the file, of the host and of the address space, which is empty.\<close>

definition loadable :: "host_alloc \<Rightarrow> 'os host_calls \<Rightarrow> 'os procs \<Rightarrow> vmptr \<Rightarrow> virtual_machine \<Rightarrow> string \<Rightarrow> u8 list \<Rightarrow> ('os \<Rightarrow> bool) \<Rightarrow>
    elf32_elf_header \<Rightarrow> elf32_program_header list \<Rightarrow> bool" where
  "loadable alloc hc w v vm path img P hdr phs \<longleftrightarrow>
     elf_file hc path img P (os_state w) \<and> elf_headers img hdr phs \<and> segments_fit img [] (load_headers phs) \<and>
     length (load_headers phs) + 2 \<le> MAX_VMA_NR \<and> host_alloc_ok alloc \<and> host_alloc_total alloc \<and>
     finite (dom (hmem (world_machine w))) \<and> vm_of w v = Some vm \<and> vm_wf vm \<and> nr_pmr_ops vm = 0"

lemma loaded_empty: "vm_wf vm \<Longrightarrow> nr_pmr_ops vm = 0 \<Longrightarrow> loaded [] m vm (\<lambda>_. None)"
  by (simp add: loaded_def vm_mem_ok_def hosted_def live_regions_def guest_byte_def region_at_def)

lemma program_init_loads:
  fixes w :: "'os procs"
  assumes "loadable alloc hc w v vm path img P hdr phs"
  shows "\<exists>m' os' vm' b. program_init alloc hc w v path =
      Some (set_hart v ((harts w v)\<lparr>pc := e_entry hdr, registers := (registers (harts w v))[2 := initial_sp]\<rparr>) (w\<lparr>world_machine := m', os_state := os'\<rparr>)) \<and>
    P os' \<and> vms m' v = Some vm' \<and> vm_links vm' = vm_links vm \<and> vm_mem_ok vm' \<and> grows v (world_machine w) m' \<and>
    (\<forall>x. guest_byte m' vm' x = program_bytes img phs x) \<and>
    stack_region b \<in> set (live_regions vm') \<and> hmem m' b = Some (replicate (unat DEFAULT_STACK_SIZE) 0) \<and> hmem (world_machine w) b = None"
proof -
  have a: "elf_headers img hdr phs" "segments_fit img [] (load_headers phs)" "length (load_headers phs) + 2 \<le> MAX_VMA_NR"
    "host_alloc_ok alloc" "host_alloc_total alloc" "finite (dom (hmem (world_machine w)))" "vm_of w v = Some vm"
    "loaded [] (world_machine w) vm (\<lambda>_. None)"
    using assms loaded_empty by (auto simp: loadable_def)
  obtain fd os0 where fd: "os_open hc path 0 0 (os_state w) = (fd, os0)" "0 \<le> sint fd" "P os0" "reads_file hc fd img P"
    using assms by (auto simp: loadable_def elf_file_def)
  obtain os1 where hd: "elf_header hc fd os0 = ((False, hdr), os1)" "P os1" using elf_header_file [OF a(1) fd(4,3)] by blast
  let ?h = "(harts w v)\<lparr>pc := e_entry hdr\<rparr>" and ?A = "image_bytes img (load_headers phs) (\<lambda>_. None)"
  let ?w1 = "set_hart v ?h (w\<lparr>os_state := os1\<rparr>)"
  have n: "unat (e_phnum hdr) = length phs" using a(1) by (simp add: elf_headers_def)
  have "below_break [] 0" by (simp add: below_break_def stack_bounds)
  then obtain m2 os2 vm2 pb rs where ld: "load_segments alloc hc v fd hdr 0 (length phs) 0 ?w1 = Some (pb, ?w1\<lparr>world_machine := m2, os_state := os2\<rparr>)"
    "P os2" "vms m2 v = Some vm2" "vm_links vm2 = vm_links vm" "grows v (world_machine w) m2" "loaded rs m2 vm2 ?A"
    "length rs = length (load_headers phs)" "below_break rs pb"
    using load_segments_loads [OF a(1) fd(4) a(4,5), of 0 "length phs" ?w1 "[]" vm "\<lambda>_. None" v 0] hd(2) a(2,3,6-8)
    by (auto simp: set_hart_def)
  have fin: "finite (dom (hmem m2))" using ld(5) a(6) by (simp add: grows_def)
  obtain m3 vm3 b where st: "stack_init alloc m2 ?h v = Some (?h\<lparr>registers := (registers ?h)[2 := initial_sp]\<rparr>, m3)" "vms m3 v = Some vm3"
    "vm_links vm3 = vm_links vm2" "grows v m2 m3" "loaded ((stack_low, DEFAULT_STACK_CELIING) # rs) m3 vm3 (\<lambda>x. if in_stack x then Some 0 else ?A x)"
    "stack_region b \<in> set (live_regions vm3)" "hmem m3 b = Some (replicate (unat DEFAULT_STACK_SIZE) 0)" "hmem m2 b = None"
    using stack_init_maps [OF a(4,5) fin ld(6,3) _ ld(8), of ?h] ld(7) a(3) by auto
  obtain m4 vm4 rs' where hp: "heap_init m3 v pb = Some m4" "vms m4 v = Some vm4" "vm_links vm4 = vm_links vm3" "grows v m3 m4"
    "loaded rs' m4 vm4 (\<lambda>x. if in_stack x then Some 0 else ?A x)" "hmem m4 = hmem m3" "set (live_regions vm3) \<subseteq> set (live_regions vm4)"
    using heap_init_maps [OF st(5,2) _ ld(8)] ld(7) a(3) by auto
  have "program_init alloc hc w v path =
      Some (set_hart v (?h\<lparr>registers := (registers ?h)[2 := initial_sp]\<rparr>) (?w1\<lparr>world_machine := m4, os_state := os2\<rparr>))"
    using fd(1,2) hd(1) ld(1) st(1) hp(1) n by (simp add: program_init_def elf_open_def set_hart_def Let_def)
  moreover have "set_hart v (?h\<lparr>registers := (registers ?h)[2 := initial_sp]\<rparr>) (?w1\<lparr>world_machine := m4, os_state := os2\<rparr>) =
      set_hart v ((harts w v)\<lparr>pc := e_entry hdr, registers := (registers (harts w v))[2 := initial_sp]\<rparr>) (w\<lparr>world_machine := m4, os_state := os2\<rparr>)"
    by (simp add: set_hart_def)
  moreover have "hmem (world_machine w) b = None" using ld(5) st(8) by (metis grows_def)
  ultimately show ?thesis
    using ld(2,4,5) st hp grows_trans [OF grows_trans [OF ld(5) st(4)] hp(4)]
    by (intro exI [of _ m4] exI [of _ os2] exI [of _ vm4] exI [of _ b]) (auto simp: loaded_def program_bytes_def)
qed

end
