(* ===== verification/Task_Exec.thy ===== *)
theory Task_Exec
  imports Elf_Load
begin

text \<open>
  Replacing the program of a process: \<open>call_execve\<close> of \<open>sandbox/task.c\<close>, with the proof that an
  address space is released and built anew. The strings are copied by \<open>strdup\<close>, which is taken to
  succeed. The result is the state in which the call yields; when the task runs again, it enters
  \<open>vmresume\<close> on the hart of the caller and does not come back.
\<close>

text \<open>Both joins are written into buffers of \<open>MAX_PATH\<close> characters without a check.\<close>

definition exec_path :: "string \<Rightarrow> string \<Rightarrow> string \<Rightarrow> string option" where
  "exec_path root cwd filename =
     (let ptr = dropWhile (\<lambda>c. c = CHR '' '') filename in
      Option.bind (if char_at ptr 0 = slash then Some (canonicalize_path_name ptr)
        else if length cwd + 1 + length ptr < MAX_PATH then Some (canonicalize_path_name (cwd @ [slash] @ ptr)) else None) (\<lambda>guest_cpath.
      if length root + 1 + length guest_cpath < MAX_PATH
      then Some (canonicalize_path_name (root @ [slash] @ guest_cpath)) else None))"

text \<open>With 128 variables the terminating null pointer is written behind \<open>host_envp\<close>.\<close>

definition call_execve :: "host_alloc \<Rightarrow> 'os host_calls \<Rightarrow> 'os procs \<Rightarrow> vmptr \<Rightarrow> u32 \<Rightarrow> u32 \<Rightarrow> u32 \<Rightarrow> 'os procs option" where
  "call_execve alloc hc w v filename_addr argv_addr envp_addr =
     Option.bind (user_string w v filename_addr) (\<lambda>filename.
     Option.bind (user_pointer w v argv_addr) (\<lambda>argv.
     Option.bind (user_pointer w v envp_addr) (\<lambda>envp.
     Option.bind (user_strings w v argv 0 (MAX_NR_ARGV - 1)) (\<lambda>host_argv.
     Option.bind (user_strings w v envp 0 MAX_NR_ENVP) (\<lambda>host_envp.
     if length host_envp = MAX_NR_ENVP then None else
     Option.bind (owner_vm w v LINKAGE_HINT_VM) (\<lambda>vm_vm.
     Option.bind (reclaim_virtual_memory w vm_vm) (\<lambda>w1.
     Option.bind (exec_path (fs_root w1 vm_vm) (fs_cwd w1 vm_vm) filename) (\<lambda>host_cpath.
     Option.bind (program_init alloc hc (set_hart v (flush_translation_cache (reset_registers (harts w1 v))) w1) vm_vm host_cpath) (\<lambda>w2.
     env_setup w2 vm_vm host_argv host_envp)))))))))"

subsection \<open>Releasing an address space\<close>

definition freed :: "pm_region_operation list \<Rightarrow> nat set \<Rightarrow> nat \<Rightarrow> bool" where
  "freed ops I b \<longleftrightarrow> (\<exists>i\<in>I. pmr_reclaim (ops ! i) \<noteq> None \<and> host_base (ops ! i) = Some b)"

lemma reclaim_regions_frees:
  "vms m v = Some vm \<Longrightarrow> idx + k \<le> length (pmr_ops vm) \<Longrightarrow>
     \<exists>ops'. length ops' = length (pmr_ops vm) \<and> reclaim_regions v idx k m =
       Some (m\<lparr>vms := (vms m)(v \<mapsto> vm\<lparr>pmr_ops := ops'\<rparr>), hmem := (\<lambda>b. if freed (pmr_ops vm) {idx..<idx + k} b then None else hmem m b)\<rparr>)"
proof (induction k arbitrary: idx m vm)
  case 0
  then show ?case by (intro exI [of _ "pmr_ops vm"]) (simp add: freed_def map_upd_triv)
next
  case (Suc k)
  let ?r = "pmr_ops vm ! idx"
  define live where "live \<longleftrightarrow> pmr_reclaim ?r \<noteq> None \<and> host_base ?r \<noteq> None"
  define vm1 where "vm1 = (if live then vm\<lparr>pmr_ops := (pmr_ops vm)[idx := ?r\<lparr>host_base := None\<rparr>]\<rparr> else vm)"
  define m1 where "m1 = (if live then set_vm v vm1 (m\<lparr>hmem := (hmem m)(the (host_base ?r) := None)\<rparr>) else m)"
  have v1: "vms m1 v = Some vm1" "idx < length (pmr_ops vm)" "length (pmr_ops vm1) = length (pmr_ops vm)"
    "Suc idx + k \<le> length (pmr_ops vm1)" using Suc.prems by (auto simp: m1_def vm1_def set_vm_def)
  have run: "reclaim_regions v idx (Suc k) m = reclaim_regions v (Suc idx) k m1"
    using Suc.prems(1) by (auto simp: vma_generic_reclaim_def m1_def vm1_def live_def split: option.splits)
  obtain ops' where ops': "length ops' = length (pmr_ops vm1)" "reclaim_regions v (Suc idx) k m1 =
      Some (m1\<lparr>vms := (vms m1)(v \<mapsto> vm1\<lparr>pmr_ops := ops'\<rparr>), hmem := (\<lambda>b. if freed (pmr_ops vm1) {Suc idx..<Suc idx + k} b then None else hmem m1 b)\<rparr>)"
    using Suc.IH [OF v1(1,4)] by blast
  have "pmr_ops vm1 ! i = pmr_ops vm ! i" if "i \<noteq> idx" for i using that by (simp add: vm1_def)
  then have "freed (pmr_ops vm1) {Suc idx..<Suc idx + k} b = freed (pmr_ops vm) {Suc idx..<Suc idx + k} b" for b
    by (simp add: freed_def)
  moreover have "{idx..<idx + Suc k} = insert idx {Suc idx..<Suc idx + k}" by auto
  ultimately have "(if freed (pmr_ops vm1) {Suc idx..<Suc idx + k} b then None else hmem m1 b) =
      (if freed (pmr_ops vm) {idx..<idx + Suc k} b then None else hmem m b)" for b
    by (auto simp: freed_def m1_def live_def set_vm_def)
  moreover have "vm1\<lparr>pmr_ops := ops'\<rparr> = vm\<lparr>pmr_ops := ops'\<rparr>" by (simp add: vm1_def)
  moreover have "(vms m1)(v \<mapsto> x) = (vms m)(v \<mapsto> x)" for x by (simp add: m1_def set_vm_def)
  moreover have "m1\<lparr>vms := f, hmem := g\<rparr> = m\<lparr>vms := f, hmem := g\<rparr>" for f g by (simp add: m1_def set_vm_def)
  ultimately show ?case using ops' v1(3) run by (intro exI [of _ ops']) (simp add: fun_upd_def)
qed

lemma reclaim_virtual_memory_frees:
  assumes "vm_of w v = Some vm" "vm_wf vm" "\<not> cloned_vm vm" "\<forall>r\<in>set (live_regions vm). pmr_reclaim r \<noteq> None"
  shows "\<exists>m' vm'. reclaim_virtual_memory w v = Some (w\<lparr>world_machine := m'\<rparr>) \<and> vms m' v = Some vm' \<and> vm_wf vm' \<and> nr_pmr_ops vm' = 0 \<and>
    vm_links vm' = vm_links vm \<and> (\<forall>u. u \<noteq> v \<longrightarrow> vms m' u = vms (world_machine w) u) \<and>
    hmem m' = (\<lambda>b. if \<exists>r\<in>set (live_regions vm). host_base r = Some b then None else hmem (world_machine w) b)"
proof -
  let ?m = "world_machine w"
  have n: "0 + nr_pmr_ops vm \<le> length (pmr_ops vm)" "length (pmr_ops vm) = MAX_VMA_NR" using assms(2) by (simp_all add: vm_wf_def)
  obtain ops' where ops': "length ops' = length (pmr_ops vm)" "reclaim_regions v 0 (nr_pmr_ops vm) ?m =
      Some (?m\<lparr>vms := (vms ?m)(v \<mapsto> vm\<lparr>pmr_ops := ops'\<rparr>), hmem := (\<lambda>b. if freed (pmr_ops vm) {0..<0 + nr_pmr_ops vm} b then None else hmem ?m b)\<rparr>)"
    using reclaim_regions_frees [OF assms(1) n(1)] by blast
  have "freed (pmr_ops vm) {0..<0 + nr_pmr_ops vm} b \<longleftrightarrow> (\<exists>r\<in>set (live_regions vm). host_base r = Some b)" for b
    using assms(4) set_live_regions [of vm] n by (auto simp: freed_def)
  moreover define vm' where "vm' = vm\<lparr>pmr_ops := ops', nr_pmr_ops := 0, vma_heap := None, vma_stack := None\<rparr>"
  moreover have "vm_wf vm'" using ops'(1) n(2) by (simp add: vm'_def vm_wf_def live_regions_def)
  ultimately show ?thesis
    using assms(1,3) ops'(2)
    by (intro exI [of _ "?m\<lparr>hmem := (\<lambda>b. if \<exists>r\<in>set (live_regions vm). host_base r = Some b then None else hmem ?m b), vms := (vms ?m)(v \<mapsto> vm')\<rparr>"] exI [of _ vm'])
       (simp add: reclaim_virtual_memory_def upd_vm_def vm_links_def)
qed

subsection \<open>The new program\<close>

lemma string_at_no_nul: "string_at m p = Some s \<Longrightarrow> NUL \<notin> set s"
proof
  assume "string_at m p = Some s" "NUL \<in> set s"
  then obtain bs b where b: "b \<in> set (takeWhile (\<lambda>b. b \<noteq> 0) bs)" "NUL = char_of (unat (b :: u8))"
    by (auto simp: string_at_def split: bind_splits if_splits)
  have "of_char NUL = unat b mod 256" unfolding b(2) by simp
  moreover have "unat b < 256" using unsigned_less [of b] by simp
  ultimately have "unat b = 0" by simp
  with b(1) show False by (auto dest: set_takeWhileD simp: unat_eq_0)
qed

lemma user_strings_no_nul:
  "user_strings w v p idx k = Some ss \<Longrightarrow> (\<forall>s\<in>set ss. NUL \<notin> set s) \<and> length ss \<le> k"
proof (induction k arbitrary: idx ss)
  case (Suc k)
  from Suc.prems show ?case
    by (auto simp: user_string_def split: bind_splits if_splits) (use string_at_no_nul Suc.IH in blast)+
qed simp

text \<open>
  The call of \<open>v\<close>, whose memory belongs to \<open>u\<close>: the arguments can be read, and the file is an
  executable that fits.
\<close>

definition exec_args :: "'os procs \<Rightarrow> vmptr \<Rightarrow> u32 \<Rightarrow> u32 \<Rightarrow> u32 \<Rightarrow> string \<Rightarrow> string list \<Rightarrow> string list \<Rightarrow> bool" where
  "exec_args w v filename_addr argv_addr envp_addr filename argv envp \<longleftrightarrow>
     user_string w v filename_addr = Some filename \<and>
     (\<exists>p. user_pointer w v argv_addr = Some p \<and> user_strings w v p 0 (MAX_NR_ARGV - 1) = Some argv) \<and>
     (\<exists>q. user_pointer w v envp_addr = Some q \<and> user_strings w v q 0 MAX_NR_ENVP = Some envp) \<and> length envp < MAX_NR_ENVP \<and>
     stack_size initial_sp argv envp \<le> unat (initial_sp - stack_low)"

definition exec_image :: "host_alloc \<Rightarrow> 'os host_calls \<Rightarrow> 'os procs \<Rightarrow> vmptr \<Rightarrow> virtual_machine \<Rightarrow> string \<Rightarrow> u8 list \<Rightarrow> ('os \<Rightarrow> bool) \<Rightarrow>
    elf32_elf_header \<Rightarrow> elf32_program_header list \<Rightarrow> bool" where
  "exec_image alloc hc w u vm filename img P hdr phs \<longleftrightarrow>
     vm_of w u = Some vm \<and> vm_wf vm \<and> (\<forall>r\<in>set (live_regions vm). pmr_reclaim r \<noteq> None) \<and>
     (\<exists>path. exec_path (fs_root w u) (fs_cwd w u) filename = Some path \<and> elf_file hc path img P (os_state w)) \<and>
     elf_headers img hdr phs \<and> segments_fit img [] (load_headers phs) \<and> length (load_headers phs) + 2 \<le> MAX_VMA_NR \<and>
     host_alloc_ok alloc \<and> host_alloc_total alloc \<and> finite (dom (hmem (world_machine w))) \<and> 2 < length (registers (harts w u))"

text \<open>The stack of a program that was just loaded is a buffer below the initial stack pointer.\<close>

lemma program_stack_buffer:
  assumes "vms (world_machine w) v = Some vm" "vm_mem_ok vm" "\<not> cloned_vm vm" "stack_region b \<in> set (live_regions vm)"
    and "hmem (world_machine w) b = Some block"
  shows "buffer_at w v initial_sp vm (stack_region b) block" "region_offset initial_sp (stack_region b) = unat (initial_sp - stack_low)"
proof -
  have "in_region initial_sp (stack_region b)" by (simp add: stack_region_def in_region_def initial_sp_def stack_bounds)
  then have "region_at vm initial_sp = Some (stack_region b)"
    using region_at_live [of vm initial_sp "stack_region b"] assms(2,4) by (simp add: vm_mem_ok_def)
  moreover have "get_linked_vm (vms (world_machine w)) v LINKAGE_HINT_VM = Some v"
    using assms(1,3) by (subst get_linked_vm.simps) simp
  ultimately show "buffer_at w v initial_sp vm (stack_region b) block"
    using assms by (auto simp: buffer_at_def host_block_def stack_region_def vma_region_def)
  show "region_offset initial_sp (stack_region b) = unat (initial_sp - stack_low)" by (simp add: region_offset_def stack_region_def)
qed

lemma execve_result:
  fixes w :: "'os procs"
  assumes args: "exec_args w v fa aa ea filename argv envp" and own: "owner_vm w v LINKAGE_HINT_VM = Some u"
    and img: "exec_image alloc hc w u vm filename img P hdr phs"
  defines "sp \<equiv> initial_sp - of_nat (stack_size initial_sp argv envp)"
    and "H \<equiv> (harts w)(v := flush_translation_cache (reset_registers (harts w v)))"
  shows "\<exists>w' vm'. call_execve alloc hc w v fa aa ea = Some w' \<and> vm_of w' u = Some vm' \<and> vm_links vm' = vm_links vm \<and> vm_mem_ok vm' \<and>
    harts w' = H(u := (H u)\<lparr>pc := e_entry hdr, registers := (registers (H u))[2 := sp]\<rparr>) \<and> args_at w' u sp argv envp \<and>
    (\<forall>x. \<not> (unat sp \<le> unat x \<and> unat x < unat initial_sp) \<longrightarrow> guest_byte (world_machine w') vm' x = program_bytes img phs x) \<and>
    (\<forall>z. z \<noteq> u \<longrightarrow> vm_of w' z = vm_of w z) \<and> files w' = files w \<and>
    (\<forall>b. hmem (world_machine w) b \<noteq> None \<longrightarrow> (\<forall>r\<in>set (live_regions vm). host_base r \<noteq> Some b) \<longrightarrow>
       hmem (world_machine w') b = hmem (world_machine w) b) \<and>
    (\<forall>b. b \<notin> host_bases vm' \<longrightarrow> hmem (world_machine w') b = (if b \<in> host_bases vm then None else hmem (world_machine w) b))"
proof -
  obtain path where path: "exec_path (fs_root w u) (fs_cwd w u) filename = Some path" "elf_file hc path img P (os_state w)"
    and vm: "vm_of w u = Some vm" "vm_wf vm" "\<forall>r\<in>set (live_regions vm). pmr_reclaim r \<noteq> None"
    using img by (auto simp: exec_image_def)
  have nc: "\<not> cloned_vm vm" using get_linked_vm_owner [OF own [unfolded owner_vm_def]] vm(1) by auto
  obtain m1 vm1 where rc: "reclaim_virtual_memory w u = Some (w\<lparr>world_machine := m1\<rparr>)" "vms m1 u = Some vm1" "vm_wf vm1" "nr_pmr_ops vm1 = 0"
    "vm_links vm1 = vm_links vm" "\<forall>z. z \<noteq> u \<longrightarrow> vms m1 z = vms (world_machine w) z"
    "hmem m1 = (\<lambda>b. if \<exists>r\<in>set (live_regions vm). host_base r = Some b then None else hmem (world_machine w) b)"
    using reclaim_virtual_memory_frees [OF vm(1,2) nc vm(3)] by blast
  have "finite (dom (hmem m1))" unfolding rc(7)
    by (rule finite_subset [of _ "dom (hmem (world_machine w))"]) (use img in \<open>auto simp: exec_image_def split: if_splits\<close>)
  let ?w2 = "set_hart v (flush_translation_cache (reset_registers (harts w v))) (w\<lparr>world_machine := m1\<rparr>)"
  have "loadable alloc hc ?w2 u vm1 path img P hdr phs"
    using img path(2) rc(2-4) \<open>finite (dom (hmem m1))\<close> by (simp add: loadable_def exec_image_def set_hart_def)
  from program_init_loads [OF this] obtain m3 os3 vm3 b where ld: "program_init alloc hc ?w2 u path =
      Some (set_hart u ((H u)\<lparr>pc := e_entry hdr, registers := (registers (H u))[2 := initial_sp]\<rparr>) (?w2\<lparr>world_machine := m3, os_state := os3\<rparr>))"
    "vms m3 u = Some vm3" "vm_links vm3 = vm_links vm1" "vm_mem_ok vm3" "grows u m1 m3" "\<forall>x. guest_byte m3 vm3 x = program_bytes img phs x"
    "stack_region b \<in> set (live_regions vm3)" "hmem m3 b = Some (replicate (unat DEFAULT_STACK_SIZE) 0)" "hmem m1 b = None"
    by (auto simp: set_hart_def H_def)
  let ?w3 = "set_hart u ((H u)\<lparr>pc := e_entry hdr, registers := (registers (H u))[2 := initial_sp]\<rparr>) (?w2\<lparr>world_machine := m3, os_state := os3\<rparr>)"
  have nc3: "\<not> cloned_vm vm3" using vm_links_flags [of vm3 vm] ld(3) rc(5) nc by simp
  have buf: "buffer_at ?w3 u initial_sp vm3 (stack_region b) (replicate (unat DEFAULT_STACK_SIZE) 0)"
    "region_offset initial_sp (stack_region b) = unat (initial_sp - stack_low)"
    using program_stack_buffer [of ?w3 u vm3 b] ld(2,4,7,8) nc3 by (auto simp: set_hart_def)
  have regs: "registers (harts ?w3 u) ! 2 = initial_sp"
    using img by (auto simp: set_hart_def H_def reset_registers_def flush_translation_cache_def exec_image_def)
  have a: "length argv < MAX_NR_ARGV" "length envp < MAX_NR_ENVP" "\<forall>s\<in>set argv \<union> set envp. NUL \<notin> set s"
    "stack_size initial_sp argv envp \<le> unat (initial_sp - stack_low)" "unat (initial_sp - stack_low) \<le> unat DEFAULT_STACK_SIZE"
    using args user_strings_no_nul by (fastforce simp: exec_args_def MAX_NR_ARGV_def initial_sp_def stack_bounds)+
  obtain w' where env: "env_setup ?w3 u argv envp = Some w'" "args_at w' u sp argv envp" "w' = ?w3\<lparr>world_machine := world_machine w',
      harts := (harts ?w3)(u := (harts ?w3 u)\<lparr>registers := (registers (harts ?w3 u))[2 := sp]\<rparr>)\<rparr>"
    "vms (world_machine w') = vms m3" "\<forall>c. host_base (stack_region b) \<noteq> Some c \<longrightarrow> hmem (world_machine w') c = hmem m3 c"
    "\<forall>x. \<not> (unat sp \<le> unat x \<and> unat x < unat initial_sp) \<longrightarrow> guest_byte (world_machine w') vm3 x = guest_byte m3 vm3 x"
    using env_setup_readable [OF buf(1) regs a(1-3)] a(4,5) buf(2) unfolding sp_def [symmetric] by (auto simp: set_hart_def)
  have "call_execve alloc hc w v fa aa ea = Some w'"
    using args own rc(1) path(1) ld(1) env(1) by (auto simp: call_execve_def exec_args_def set_hart_def)
  moreover have "harts w' = H(u := (H u)\<lparr>pc := e_entry hdr, registers := (registers (H u))[2 := sp]\<rparr>)" "files w' = files w"
    by (subst env(3), simp add: set_hart_def H_def)+
  moreover have "hmem (world_machine w') c = hmem (world_machine w) c"
    if "hmem (world_machine w) c \<noteq> None" "\<forall>r\<in>set (live_regions vm). host_base r \<noteq> Some c" for c
  proof -
    have "hmem m1 c = hmem (world_machine w) c" using rc(7) that(2) by simp
    then have "hmem m3 c = hmem (world_machine w) c" "c \<noteq> b" using ld(5,9) that(1) by (auto simp: grows_def)
    then show ?thesis using env(5) by (simp add: stack_region_def)
  qed
  moreover have "hmem (world_machine w') c = (if c \<in> host_bases vm then None else hmem (world_machine w) c)" if "c \<notin> host_bases vm3" for c
  proof -
    have m1: "hmem m1 c = (if c \<in> host_bases vm then None else hmem (world_machine w) c)" by (simp add: rc(7) host_bases_def)
    have "b \<in> host_bases vm3" using ld(7) by (auto simp: host_bases_def stack_region_def intro!: bexI [OF _ ld(7) [unfolded stack_region_def]])
    then have "hmem (world_machine w') c = hmem m3 c" using env(5) that by (auto simp: stack_region_def)
    moreover have "hmem m3 c = hmem m1 c"
      using ld(2,5) that by (cases "hmem m1 c") (auto simp: grows_def)
    ultimately show ?thesis using m1 by simp
  qed
  ultimately show ?thesis
    using env(2,4,6) ld(2-6) rc(5,6) by (intro exI [of _ w'] exI [of _ vm3]) (simp add: grows_def)
qed

end
