(* ===== verification/App_Start.thy ===== *)
theory App_Start
  imports Task_Exec Debug_Breakpoint
begin

text \<open>
  Starting the sandbox: the rest of \<open>sandbox/app.c\<close> and \<open>sandbox/main.c\<close>. The environment of the host
  process and the functions \<open>strtok\<close> and \<open>strtol\<close> of the C library are written out; \<open>strtol\<close> is
  used with base 16 only.
\<close>

subsection \<open>Words and numbers\<close>

text \<open>\<open>strtok\<close> with a blank as the only delimiter: the words between blanks. The second argument is the word read so far.\<close>

fun strtok_blank :: "string \<Rightarrow> string \<Rightarrow> string list" where
  "strtok_blank [] word = (if word = [] then [] else [rev word])"
| "strtok_blank (c # cs) word =
     (if c = CHR '' '' then (if word = [] then strtok_blank cs [] else rev word # strtok_blank cs [])
      else strtok_blank cs (c # word))"

definition hex_digit :: "char \<Rightarrow> nat option" where
  "hex_digit c = (let n = of_char c :: nat in
     if 48 \<le> n \<and> n \<le> 57 then Some (n - 48) else if 97 \<le> n \<and> n \<le> 102 then Some (n - 87)
     else if 65 \<le> n \<and> n \<le> 70 then Some (n - 55) else None)"

fun hex_value :: "string \<Rightarrow> nat \<Rightarrow> nat" where
  "hex_value [] acc = acc"
| "hex_value (c # cs) acc = (case hex_digit c of None \<Rightarrow> acc | Some d \<Rightarrow> hex_value cs (16 * acc + d))"

definition is_space :: "char \<Rightarrow> bool" where
  "is_space c \<longleftrightarrow> c = CHR '' '' \<or> 9 \<le> (of_char c :: nat) \<and> (of_char c :: nat) \<le> 13"

definition skip_prefix :: "string \<Rightarrow> string" where
  "skip_prefix s = (case s of c0 # c1 # c2 # cs \<Rightarrow>
     if c0 = CHR ''0'' \<and> (c1 = CHR ''x'' \<or> c1 = CHR ''X'') \<and> hex_digit c2 \<noteq> None then c2 # cs else s | _ \<Rightarrow> s)"

text \<open>The result is a \<open>long\<close> of 64 bits, which saturates; the callers keep its low 32 bits.\<close>

definition strtol_hex :: "string \<Rightarrow> int" where
  "strtol_hex s =
     (let t = dropWhile is_space s in
      let (neg, u) = (case t of [] \<Rightarrow> (False, t) | c # cs \<Rightarrow>
            if c = CHR ''-'' then (True, cs) else if c = CHR ''+'' then (False, cs) else (False, t));
          n = int (hex_value (skip_prefix u) 0)
      in if neg then max (- (2 ^ 63)) (- n) else min (2 ^ 63 - 1) n)"

subsection \<open>The first process\<close>

record app_env =
  env_ROOT :: "string option"
  env_BREAK :: "string option"

definition ROOT_SIZE :: nat where "ROOT_SIZE = 128"

text \<open>\<open>memset\<close> of the \<open>struct virtual_machine\<close>, with the parts of it that are kept in other fields of the state.\<close>

definition clear_vm :: "vmptr \<Rightarrow> 'os procs \<Rightarrow> 'os procs" where
  "clear_vm v w = w\<lparr>world_machine := set_vm v zeroed_vm (world_machine w),
     files := (files w)(v := replicate MAX_FILES_NR cleared_file), fs_root := (fs_root w)(v := []),
     fs_cwd := (fs_cwd w)(v := []), set_child_tid := (set_child_tid w)(v := 0),
     links := (links w)(Vm_list_node v := zeroed_links)\<rparr>"

definition cpu_init :: "clone_host \<Rightarrow> 'os procs \<Rightarrow> vmptr \<Rightarrow> 'os procs" where
  "cpu_init ch w v = w\<lparr>harts := (harts w)(v := (hart_init 0)\<lparr>native_vmptr := v\<rparr>),
     tasks := (tasks w)(Task v := init_task (ch_stack ch v)),
     links := list_init ((links w)(Hart_list (Task v) := zeroed_links)) (Wq_pivot (Task v))\<rparr>"

text \<open>Without \<open>ROOT\<close> the sandbox exits; the value is copied into a field of 128 bytes without a check.\<close>

definition app_root_init :: "app_env \<Rightarrow> 'os procs \<Rightarrow> vmptr \<Rightarrow> 'os procs option" where
  "app_root_init env w v = (case env_ROOT env of None \<Rightarrow> None
     | Some root \<Rightarrow> if length root < ROOT_SIZE then Some (w\<lparr>fs_root := (fs_root w)(v := root)\<rparr>) else None)"

definition misc_init :: "'os procs \<Rightarrow> vmptr \<Rightarrow> 'os procs" where
  "misc_init w v =
     (let (pid, w1) = new_pid w; w2 = upd_vm v (\<lambda>vm. vm\<lparr>vm_pid := pid, vm_ppid := pid, vm_tgid := pid\<rparr>) w1
      in w2\<lparr>fs_cwd := (fs_cwd w2)(v := ''/'')\<rparr>)"

fun add_breakpoints :: "string list \<Rightarrow> machine \<Rightarrow> machine option" where
  "add_breakpoints [] m = Some m"
| "add_breakpoints (bp # bps) m = Option.bind (add_breakpoint m (of_int (strtol_hex bp))) (\<lambda>(_, m1). add_breakpoints bps m1)"

definition breakpoints_init :: "app_env \<Rightarrow> 'os procs \<Rightarrow> 'os procs option" where
  "breakpoints_init env w = (case env_BREAK env of None \<Rightarrow> Some w
     | Some bps \<Rightarrow> map_option (\<lambda>m. w\<lparr>world_machine := m\<rparr>) (add_breakpoints (strtok_blank bps []) (world_machine w)))"

definition application_sandbox_init :: "clone_host \<Rightarrow> 'os host_calls \<Rightarrow> app_env \<Rightarrow> 'os procs \<Rightarrow> vmptr \<Rightarrow> string \<Rightarrow> string list \<Rightarrow> string list \<Rightarrow> 'os procs option" where
  "application_sandbox_init ch hc env w v app_path argv envp =
     Option.bind (program_init (ch_block ch) hc (cpu_init ch (clear_vm v w) v) v app_path) (\<lambda>w1.
     Option.bind (env_setup w1 v argv envp) (\<lambda>w2.
     Option.bind (app_root_init env w2 v) (\<lambda>w3.
     Option.bind (vfs_init hc w3 v) (\<lambda>w4.
     Option.bind (breakpoints_init env (misc_init w4 v)) (\<lambda>w5.
     register_task w5 v)))))"

text \<open>
  The program: it needs the path of an application; \<open>cpu\<close> is the frame in which the idle task
  yields, and the result is the stack of the task that runs next.
\<close>

definition main :: "clone_host \<Rightarrow> 'os host_calls \<Rightarrow> app_env \<Rightarrow> 'os procs \<Rightarrow> vmptr \<Rightarrow> string list \<Rightarrow> u64 \<Rightarrow> (u64 \<times> 'os procs) option" where
  "main ch hc env w v argv cpu =
     (case argv of _ # app_path # args \<Rightarrow>
        Option.bind (application_sandbox_init ch hc env w v app_path (app_path # args) []) (\<lambda>w1.
        Option.bind (transit_state w1 (Task v) TASK_STATE_RUNNING) (\<lambda>w2.
        Option.bind (schedule_task (task_vmm_sched_init w2 (Task v) (ch_vmresume ch) (ch_hart ch v)) (Task v)) (\<lambda>w3.
        schedule_idle_task w3 cpu)))
      | _ \<Rightarrow> None)"

subsection \<open>The standard files\<close>

text \<open>The host opens the three files below the root, in states of \<open>P\<close>.\<close>

definition std_names :: "string list" where "std_names = [''stdin'', ''stdout'', ''stderr'']"

definition opens_std :: "'os host_calls \<Rightarrow> string list \<Rightarrow> ('os \<Rightarrow> bool) \<Rightarrow> bool" where
  "opens_std hc rcs P \<longleftrightarrow> (\<forall>os flags. \<forall>n\<in>set std_names. P os \<longrightarrow>
     (case os_open hc (path_of (rcs @ [''dev'', n])) flags 0 os of (fd, os') \<Rightarrow> 0 \<le> sint fd \<and> P os'))"

definition root_ok :: "string list \<Rightarrow> bool" where
  "root_ok rcs \<longleftrightarrow> list_all proper rcs \<and> rcs \<noteq> [] \<and> length (path_of rcs) < ROOT_SIZE"

lemma std_host_path:
  assumes "root_ok rcs" "n \<in> set std_names"
  shows "host_path_of (path_of rcs) cwd AT_FDCWD (path_of [''dev'', n]) = Some (path_of (rcs @ [''dev'', n]))"
proof -
  have "list_all plain [''dev'', n]" "names (normal_comps [''dev'', n] []) = [''dev'', n]" "length n \<le> 6"
    using assms(2) by (auto simp: std_names_def plain_def names_def)
  moreover have "length (path_of rcs) < 128" using assms(1) by (simp add: root_ok_def ROOT_SIZE_def)
  ultimately show ?thesis
    using host_path_absolute [of rcs "''dev''" "[n]" cwd AT_FDCWD] assms(1) by (simp add: root_ok_def MAX_PATH_def)
qed

definition std_file :: "string list \<Rightarrow> nat \<Rightarrow> file_desc \<Rightarrow> bool" where
  "std_file rcs i f \<longleftrightarrow> valid f \<and> fd_of f = of_nat i \<and> host_cpath f = Some (path_of (rcs @ [''dev'', std_names ! i])) \<and> 0 \<le> sint (host_fd f)"

text \<open>The \<open>i\<close>-th of the calls, when the first \<open>i\<close> descriptors are taken.\<close>

lemma open_std:
  fixes w :: "'os procs"
  assumes own: "owner_vm w v LINKAGE_HINT_FS = Some v" "owner_vm w v LINKAGE_HINT_FILES = Some v"
    and fs: "files w v = fs @ replicate (MAX_FILES_NR - i) cleared_file" "length fs = i" "i < 3" "\<forall>j<i. std_file rcs j (fs ! j)"
    and root: "fs_root w v = path_of rcs" "root_ok rcs" "opens_std hc rcs P" "P (os_state w)"
  shows "\<exists>f os. do_openat hc w v AT_FDCWD (path_of [''dev'', std_names ! i]) flags 0 =
      Some (of_nat i, w\<lparr>os_state := os, files := (files w)(v := (fs @ [f]) @ replicate (MAX_FILES_NR - Suc i) cleared_file)\<rparr>) \<and>
    P os \<and> std_file rcs i f"
proof -
  let ?n = "std_names ! i"
  have n: "?n \<in> set std_names" using fs(3) by (intro nth_mem) (simp add: std_names_def)
  obtain hfd os where o: "os_open hc (path_of (rcs @ [''dev'', ?n])) flags 0 (os_state w) = (hfd, os)" "0 \<le> sint hfd" "P os"
    using root(3,4) n unfolding opens_std_def by fastforce
  have lt: "i < MAX_FILES_NR" using fs(3) by (simp add: MAX_FILES_NR_def)
  have "files_ok (files w v)"
    unfolding files_ok_def fs(1) using fs(2,4) lt by (auto simp: nth_append std_file_def cleared_file_def)
  moreover have "free_slot (files w v) 0 MAX_FILES_NR = Some i"
  proof -
    have v: "valid (files w v ! j) \<longleftrightarrow> j < i" if "j < MAX_FILES_NR" for j
      using fs(1,2,4) that by (auto simp: nth_append std_file_def cleared_file_def)
    then obtain a where a: "free_slot (files w v) 0 MAX_FILES_NR = Some a"
      using free_slot_None [of "files w v" 0 MAX_FILES_NR i] lt by (cases "free_slot (files w v) 0 MAX_FILES_NR") auto
    have "a < MAX_FILES_NR" "\<not> valid (files w v ! a)" "\<forall>j<a. valid (files w v ! j)" using free_slot_Some [OF a] by auto
    then have "\<not> a < i" "\<not> i < a" using v [of a] v [of i] lt by blast+
    with a show ?thesis by simp
  qed
  moreover have "(files w v)[i := f] = (fs @ [f]) @ replicate (MAX_FILES_NR - Suc i) cleared_file" for f
    unfolding fs(1) using fs(2) lt by (simp add: list_update_append Suc_diff_Suc [symmetric])
  moreover have "\<not> is_relative_path (path_of [''dev'', ?n])" using absolute_path by simp
  ultimately show ?thesis
    using do_openat_opens [OF own, of "path_of [''dev'', ?n]" AT_FDCWD] std_host_path [OF root(2) n] root(1) o
    by (intro exI [of _ "\<lparr>fd_of = of_nat i, host_fd = hfd, valid = True, host_cpath = Some (path_of (rcs @ [''dev'', ?n])), cb_flags = flags,
        cb_mode = 0, cb_file_type = FILE_TYPE_REGULAR\<rparr>"] exI [of _ os]) (simp add: std_file_def)
qed

lemma vfs_init_opens:
  fixes w :: "'os procs"
  assumes own: "owner_vm w v LINKAGE_HINT_FS = Some v" "owner_vm w v LINKAGE_HINT_FILES = Some v"
    and "files w v = replicate MAX_FILES_NR cleared_file" "fs_root w v = path_of rcs" "root_ok rcs" "opens_std hc rcs P" "P (os_state w)"
  shows "\<exists>fs os. vfs_init hc w v = Some (w\<lparr>os_state := os, files := (files w)(v := fs)\<rparr>) \<and> P os \<and> (\<forall>i<3. std_file rcs i (fs ! i))"
proof -
  have p: "''/dev/stdin'' = path_of [''dev'', std_names ! 0]" "''/dev/stdout'' = path_of [''dev'', std_names ! 1]"
    "''/dev/stderr'' = path_of [''dev'', std_names ! 2]" by (simp_all add: std_names_def)
  obtain f0 os0 where 0: "do_openat hc w v AT_FDCWD (path_of [''dev'', std_names ! 0]) 0 0 =
      Some (of_nat 0, w\<lparr>os_state := os0, files := (files w)(v := ([] @ [f0]) @ replicate (MAX_FILES_NR - Suc 0) cleared_file)\<rparr>)" "P os0" "std_file rcs 0 f0"
    using open_std [OF own, of "[]" 0 rcs hc P 0] assms(3-7) by auto
  let ?w0 = "w\<lparr>os_state := os0, files := (files w)(v := ([] @ [f0]) @ replicate (MAX_FILES_NR - Suc 0) cleared_file)\<rparr>"
  obtain f1 os1 where 1: "do_openat hc ?w0 v AT_FDCWD (path_of [''dev'', std_names ! 1]) 1 0 =
      Some (of_nat 1, ?w0\<lparr>os_state := os1, files := (files ?w0)(v := ([f0] @ [f1]) @ replicate (MAX_FILES_NR - Suc 1) cleared_file)\<rparr>)" "P os1" "std_file rcs 1 f1"
    using open_std [of ?w0 v "[f0]" 1 rcs hc P 1] own assms(4-6) 0(2,3) by (auto simp: owner_vm_def)
  let ?w1 = "?w0\<lparr>os_state := os1, files := (files ?w0)(v := ([f0] @ [f1]) @ replicate (MAX_FILES_NR - Suc 1) cleared_file)\<rparr>"
  obtain f2 os2 where 2: "do_openat hc ?w1 v AT_FDCWD (path_of [''dev'', std_names ! 2]) 1 0 =
      Some (of_nat 2, ?w1\<lparr>os_state := os2, files := (files ?w1)(v := ([f0, f1] @ [f2]) @ replicate (MAX_FILES_NR - Suc 2) cleared_file)\<rparr>)" "P os2" "std_file rcs 2 f2"
    using open_std [of ?w1 v "[f0, f1]" 2 rcs hc P 1] own assms(4-6) 0(3) 1(2,3) by (auto simp: owner_vm_def less_Suc_eq numeral_2_eq_2 numeral_3_eq_3)
  have "vfs_init hc w v = Some (w\<lparr>os_state := os2, files := (files w)(v := [f0, f1, f2] @ replicate (MAX_FILES_NR - 3) cleared_file)\<rparr>)"
    unfolding vfs_init_def p 0(1) bind.bind_lunit prod.case 1(1) 2(1) by (simp add: numeral_2_eq_2 numeral_3_eq_3)
  moreover have "std_file rcs i (([f0, f1, f2] @ replicate (MAX_FILES_NR - 3) cleared_file) ! i)" if "i < 3" for i
    using that 0(3) 1(3) 2(3) by (auto simp: less_Suc_eq numeral_3_eq_3 numeral_2_eq_2)
  ultimately show ?thesis using 2(2) by blast
qed

subsection \<open>What the arguments depend on\<close>

lemma args_at_cong:
  assumes "\<And>a. user_pointer w' v a = user_pointer w v a" "hmem (world_machine w') = hmem (world_machine w)"
  shows "args_at w' v sp argv envp = args_at w v sp argv envp"
proof -
  have b: "bytes_from (world_machine w') p = bytes_from (world_machine w) p" for p by (simp add: bytes_from_def assms(2))
  then have l: "load_bytes (world_machine w') p n = load_bytes (world_machine w) p n" for p n by (simp add: load_bytes_def)
  have "string_at (world_machine w') p = string_at (world_machine w) p" for p by (simp add: string_at_def b)
  then have s: "user_string w' v a = user_string w v a" for a by (cases "user_pointer w v a") (simp_all add: user_string_def assms(1))
  have "user_strings w' v p idx k = user_strings w v p idx k" for p idx k
    by (induction k arbitrary: idx) (simp_all add: l s cong: if_cong)
  then show ?thesis by (simp add: args_at_def user_word_def assms(1) l)
qed

lemma pids_pointer:
  assumes "vm_of w v = Some vm" "\<not> cloned_vm vm"
  shows "user_pointer (upd_vm v (\<lambda>vm. vm\<lparr>vm_pid := a, vm_ppid := b, vm_tgid := c\<rparr>) w) v x = user_pointer w v x"
proof -
  have "get_linked_vm (vms (world_machine w)) v LINKAGE_HINT_VM = Some v"
    using assms by (subst get_linked_vm.simps) simp
  moreover have "get_linked_vm ((vms (world_machine w))(v \<mapsto> vm\<lparr>vm_pid := a, vm_ppid := b, vm_tgid := c\<rparr>)) v LINKAGE_HINT_VM = Some v"
    using assms(2) by (subst get_linked_vm.simps) simp
  moreover have "search_pm_region_callback (vm\<lparr>vm_pid := a, vm_ppid := b, vm_tgid := c\<rparr>) y = search_pm_region_callback vm y" for y
    by (simp add: search_pm_region_callback_def)
  ultimately show ?thesis using assms(1) by (simp add: user_pointer_def user_world_pointer_def user_region_def upd_vm_def)
qed

lemma pids_bytes:
  "guest_byte m (vm\<lparr>vm_pid := a, vm_ppid := b, vm_tgid := c\<rparr>) x = guest_byte m vm x"
  "vm_mem_ok (vm\<lparr>vm_pid := a, vm_ppid := b, vm_tgid := c\<rparr>) = vm_mem_ok vm"
  by (simp_all add: guest_byte_def region_at_def live_regions_def vm_mem_ok_def vm_wf_def)

subsection \<open>The first program\<close>

text \<open>The state in which \<open>main\<close> starts: no process, empty queues.\<close>

definition boot_ready :: "clone_host \<Rightarrow> 'os host_calls \<Rightarrow> app_env \<Rightarrow> string list \<Rightarrow> 'os procs \<Rightarrow> vmptr \<Rightarrow> queues \<Rightarrow> (sched_node \<Rightarrow> sched_node list) \<Rightarrow>
    string \<Rightarrow> u8 list \<Rightarrow> ('os \<Rightarrow> bool) \<Rightarrow> elf32_elf_header \<Rightarrow> elf32_program_header list \<Rightarrow> bool" where
  "boot_ready ch hc env rcs w v q B path img P hdr phs \<longleftrightarrow>
     elf_file hc path img P (os_state w) \<and> elf_headers img hdr phs \<and> segments_fit img [] (load_headers phs) \<and>
     length (load_headers phs) + 2 \<le> MAX_VMA_NR \<and> host_alloc_ok (ch_block ch) \<and> host_alloc_total (ch_block ch) \<and>
     finite (dom (hmem (world_machine w))) \<and> env_ROOT env = Some (path_of rcs) \<and> root_ok rcs \<and> opens_std hc rcs P \<and>
     env_BREAK env = None \<and> queues_ok (links w) q B \<and> queued q = {} \<and> child_free w q B v \<and>
     (ch_stack ch v - SIZEOF_CPUSTATE) AND (NOT 15) \<noteq> 0"

lemma cpu_init_links:
  assumes "queues_ok (links w) q B" "child_free w q B v"
  shows "links (cpu_init ch (clear_vm v w) v) = links w"
proof -
  have ok: "lists_ok sched_heads (links w) (sched_lists q B)" using assms(1) by (simp add: queues_ok_def)
  have hart: "\<forall>l\<in>sched_heads. Hart_list (Task v) \<notin> set (sched_lists q B l)"
    using assms by (intro queues_ok_free) (simp_all add: child_free_def)
  have "(links w)(Vm_list_node v := zeroed_links) = links w"
    using zeroed_detached [OF ok, of "Vm_list_node v"] assms(2) by (auto simp: child_free_def)
  moreover have "(links w)(Hart_list (Task v) := zeroed_links) = links w"
    using zeroed_detached [OF ok, of "Hart_list (Task v)"] hart by simp
  moreover have "dlist (links w) (Wq_pivot (Task v)) []"
    using lists_ok_dlist [OF ok, of "Wq_pivot (Task v)"] assms(2) by (simp add: sched_lists_def child_free_def)
  ultimately show ?thesis by (simp add: cpu_init_def clear_vm_def list_init_empty)
qed

text \<open>The image of the program with its arguments, before the rest of the process is set up.\<close>

lemma sandbox_image:
  fixes w :: "'os procs"
  assumes ready: "boot_ready ch hc env rcs w v q B path img P hdr phs"
    and args: "length argv < MAX_NR_ARGV" "\<forall>s\<in>set argv. NUL \<notin> set s" "stack_size initial_sp argv [] \<le> unat (initial_sp - stack_low)"
  defines "sp \<equiv> initial_sp - of_nat (stack_size initial_sp argv [])" and "w0 \<equiv> cpu_init ch (clear_vm v w) v"
  shows "\<exists>w1 w2 vm. program_init (ch_block ch) hc w0 v path = Some w1 \<and> env_setup w1 v argv [] = Some w2 \<and> args_at w2 v sp argv [] \<and>
    w2 = w0\<lparr>world_machine := world_machine w2, os_state := os_state w2, harts := (harts w0)(v := (hart_init 0)\<lparr>native_vmptr := v, pc := e_entry hdr,
      registers := (replicate 32 0)[2 := sp]\<rparr>)\<rparr> \<and> P (os_state w2) \<and> vm_of w2 v = Some vm \<and> vm_links vm = vm_links zeroed_vm \<and> vm_mem_ok vm \<and>
    (\<forall>x. \<not> (unat sp \<le> unat x \<and> unat x < unat initial_sp) \<longrightarrow> guest_byte (world_machine w2) vm x = program_bytes img phs x)"
proof -
  have h0: "harts w0 v = (hart_init 0)\<lparr>native_vmptr := v\<rparr>" "registers (harts w0 v) = replicate 32 0"
    by (simp_all add: w0_def cpu_init_def hart_init_def flush_translation_cache_def)
  have "vm_wf zeroed_vm" "nr_pmr_ops zeroed_vm = 0" by (simp_all add: zeroed_vm_def vm_wf_def live_regions_def)
  then have "loadable (ch_block ch) hc w0 v zeroed_vm path img P hdr phs"
    using ready by (simp add: boot_ready_def loadable_def w0_def cpu_init_def clear_vm_def set_vm_def)
  from program_init_loads [OF this] obtain m1 os1 vm b where ld: "program_init (ch_block ch) hc w0 v path =
      Some (set_hart v ((harts w0 v)\<lparr>pc := e_entry hdr, registers := (registers (harts w0 v))[2 := initial_sp]\<rparr>) (w0\<lparr>world_machine := m1, os_state := os1\<rparr>))"
    "P os1" "vms m1 v = Some vm" "vm_links vm = vm_links zeroed_vm" "vm_mem_ok vm" "\<forall>x. guest_byte m1 vm x = program_bytes img phs x"
    "stack_region b \<in> set (live_regions vm)" "hmem m1 b = Some (replicate (unat DEFAULT_STACK_SIZE) 0)" by blast
  let ?w1 = "set_hart v ((harts w0 v)\<lparr>pc := e_entry hdr, registers := (registers (harts w0 v))[2 := initial_sp]\<rparr>) (w0\<lparr>world_machine := m1, os_state := os1\<rparr>)"
  have nc: "\<not> cloned_vm vm" using vm_links_flags [OF ld(4)] by (simp add: zeroed_vm_def)
  have buf: "buffer_at ?w1 v initial_sp vm (stack_region b) (replicate (unat DEFAULT_STACK_SIZE) 0)"
    "region_offset initial_sp (stack_region b) = unat (initial_sp - stack_low)"
    using program_stack_buffer [of ?w1 v vm b] ld(3,5,7,8) nc by (auto simp: set_hart_def)
  have regs: "registers (harts ?w1 v) ! 2 = initial_sp" using h0(2) by (simp add: set_hart_def)
  have bd: "unat (initial_sp - stack_low) \<le> unat DEFAULT_STACK_SIZE" by (simp add: initial_sp_def stack_bounds)
  obtain w2 where env: "env_setup ?w1 v argv [] = Some w2" "args_at w2 v sp argv []"
    "w2 = ?w1\<lparr>world_machine := world_machine w2, harts := (harts ?w1)(v := (harts ?w1 v)\<lparr>registers := (registers (harts ?w1 v))[2 := sp]\<rparr>)\<rparr>"
    "vms (world_machine w2) = vms m1"
    "\<forall>x. \<not> (unat sp \<le> unat x \<and> unat x < unat initial_sp) \<longrightarrow> guest_byte (world_machine w2) vm x = guest_byte m1 vm x"
    using env_setup_readable [OF buf(1) regs args(1), of "[]"] args(2,3) bd buf(2) unfolding sp_def [symmetric]
    by (auto simp: set_hart_def MAX_NR_ENVP_def)
  have os2: "os_state w2 = os1" by (subst env(3)) (simp add: set_hart_def)
  have eq: "w2 = w0\<lparr>world_machine := world_machine w2, os_state := os_state w2, harts := (harts w0)(v := (hart_init 0)\<lparr>native_vmptr := v, pc := e_entry hdr,
      registers := (replicate 32 0)[2 := sp]\<rparr>)\<rparr>"
    unfolding os2 by (subst (1) env(3)) (simp add: set_hart_def h0 h0(2) [unfolded h0(1)])
  have P2: "P (os_state w2)" "vm_of w2 v = Some vm" using ld(2,3) os2 env(4) by simp_all
  have "\<forall>x. \<not> (unat sp \<le> unat x \<and> unat x < unat initial_sp) \<longrightarrow> guest_byte (world_machine w2) vm x = program_bytes img phs x"
    using env(5) ld(6) by simp
  with ld(1) env(1,2) eq P2 ld(4,5) show ?thesis by blast
qed

definition booted :: "clone_host \<Rightarrow> string list \<Rightarrow> vmptr \<Rightarrow> string list \<Rightarrow> u8 list \<Rightarrow> elf32_elf_header \<Rightarrow> elf32_program_header list \<Rightarrow> u32 \<Rightarrow> 'os procs \<Rightarrow> bool" where
  "booted ch rcs v argv img hdr phs pid w' \<longleftrightarrow>
     (\<exists>sp vm. sp = initial_sp - of_nat (stack_size initial_sp argv []) \<and> args_at w' v sp argv [] \<and>
       harts w' v = (hart_init 0)\<lparr>native_vmptr := v, pc := e_entry hdr, registers := (replicate 32 0)[2 := sp]\<rparr> \<and>
       vm_of w' v = Some vm \<and> vm_mem_ok vm \<and> vm_pid vm = pid \<and> \<not> cloned_vm vm \<and> \<not> cloned_fs vm \<and> \<not> cloned_files vm \<and>
       (\<forall>x. \<not> (unat sp \<le> unat x \<and> unat x < unat initial_sp) \<longrightarrow> guest_byte (world_machine w') vm x = program_bytes img phs x)) \<and>
     (\<forall>i<3. std_file rcs i (files w' v ! i)) \<and> fs_root w' v = path_of rcs \<and> fs_cwd w' v = ''/''"

lemma sandbox_init_boots:
  fixes w :: "'os procs"
  assumes ready: "boot_ready ch hc env rcs w v q B path img P hdr phs"
    and args: "length argv < MAX_NR_ARGV" "\<forall>s\<in>set argv. NUL \<notin> set s" "stack_size initial_sp argv [] \<le> unat (initial_sp - stack_low)"
  shows "\<exists>w'. application_sandbox_init ch hc env w v path argv [] = Some w' \<and> booted ch rcs v argv img hdr phs (gpid_counter w) w' \<and>
    tasks w' = (tasks w)(Task v := init_task (ch_stack ch v)) \<and> cpustates w' = cpustates w \<and>
    queues_ok (links w') q (B(global_task_list_head := B global_task_list_head @ [Vm_list_node v]))"
proof -
  let ?w0 = "cpu_init ch (clear_vm v w) v" and ?sp = "initial_sp - of_nat (stack_size initial_sp argv [])"
  obtain w1 w2 vm where im: "program_init (ch_block ch) hc ?w0 v path = Some w1" "env_setup w1 v argv [] = Some w2" "args_at w2 v ?sp argv []"
    "w2 = ?w0\<lparr>world_machine := world_machine w2, os_state := os_state w2, harts := (harts ?w0)(v := (hart_init 0)\<lparr>native_vmptr := v, pc := e_entry hdr,
      registers := (replicate 32 0)[2 := ?sp]\<rparr>)\<rparr>" "P (os_state w2)" "vm_of w2 v = Some vm" "vm_links vm = vm_links zeroed_vm" "vm_mem_ok vm"
    "\<forall>x. \<not> (unat ?sp \<le> unat x \<and> unat x < unat initial_sp) \<longrightarrow> guest_byte (world_machine w2) vm x = program_bytes img phs x"
    using sandbox_image [OF ready args] by blast
  have r: "env_ROOT env = Some (path_of rcs)" "root_ok rcs" "opens_std hc rcs P" "env_BREAK env = None"
    "queues_ok (links w) q B" "child_free w q B v" using ready by (auto simp: boot_ready_def)
  have view: "links w2 = links w" "tasks w2 = (tasks w)(Task v := init_task (ch_stack ch v))" "cpustates w2 = cpustates w"
    "gpid_counter w2 = gpid_counter w" "files w2 v = replicate MAX_FILES_NR cleared_file"
    "harts w2 v = (hart_init 0)\<lparr>native_vmptr := v, pc := e_entry hdr, registers := (replicate 32 0)[2 := ?sp]\<rparr>"
    by (subst im(4), simp add: cpu_init_def clear_vm_def cpu_init_links [OF r(5,6), unfolded cpu_init_def clear_vm_def, simplified])+
  define w3 where "w3 = w2\<lparr>fs_root := (fs_root w2)(v := path_of rcs)\<rparr>"
  have nc: "\<not> cloned_vm vm" "\<not> cloned_fs vm" "\<not> cloned_files vm"
    using vm_links_flags [OF im(7)] by (simp_all add: zeroed_vm_def)
  have own: "owner_vm w3 v LINKAGE_HINT_FS = Some v" "owner_vm w3 v LINKAGE_HINT_FILES = Some v"
    unfolding owner_vm_def w3_def by (subst get_linked_vm.simps, use im(6) nc in simp)+
  obtain fs os where vfs: "vfs_init hc w3 v = Some (w3\<lparr>os_state := os, files := (files w3)(v := fs)\<rparr>)" "\<forall>i<3. std_file rcs i (fs ! i)"
    using vfs_init_opens [OF own, of rcs hc P] r(2,3) view(5) im(5) by (auto simp: w3_def)
  define w4 where "w4 = w3\<lparr>os_state := os, files := (files w3)(v := fs)\<rparr>"
  let ?pid = "gpid_counter w" and ?f = "\<lambda>p vm. vm\<lparr>vm_pid := p, vm_ppid := p, vm_tgid := p\<rparr>"
  define w5 where "w5 = misc_init w4 v"
  have w5: "w5 = (upd_vm v (?f ?pid) (w4\<lparr>gpid_counter := ?pid + 1\<rparr>))\<lparr>fs_cwd := (fs_cwd w4)(v := ''/'')\<rparr>"
    by (simp add: w5_def misc_init_def new_pid_def w4_def w3_def view(4) upd_vm_def)
  have "\<forall>l\<in>sched_heads. Vm_list_node v \<notin> set (sched_lists q B l)" using r(6) by (simp add: child_free_def)
  then obtain H where H: "register_task w5 v = Some (w5\<lparr>links := H\<rparr>)"
    "queues_ok H q (B(global_task_list_head := B global_task_list_head @ [Vm_list_node v]))"
    using register_task_ok [of w5 "sched_lists q B" v] r(5) queues_ok_register [OF r(5)]
    by (auto simp: w5 upd_vm_def w4_def w3_def view(1) queues_ok_def sched_lists_def)
  let ?w' = "w5\<lparr>links := H\<rparr>"
  have ptr: "user_pointer ?w' v a = user_pointer w2 v a" for a
    using pids_pointer [OF im(6) nc(1), of ?pid ?pid ?pid a]
    by (simp add: w5 user_pointer_def upd_vm_def w4_def w3_def)
  have "args_at ?w' v ?sp argv []"
    using im(3) by (subst args_at_cong [where w = w2]) (simp_all add: ptr, simp add: w5 upd_vm_def w4_def w3_def)
  moreover have "vm_of ?w' v = Some (?f ?pid vm)" "hmem (world_machine ?w') = hmem (world_machine w2)" "harts ?w' v = harts w2 v"
    "files ?w' v = fs" "fs_root ?w' v = path_of rcs" "fs_cwd ?w' v = ''/''" "tasks ?w' = tasks w2" "cpustates ?w' = cpustates w2"
    using im(6) by (simp_all add: w5 upd_vm_def w4_def w3_def)
  moreover from this(2) have "guest_byte (world_machine ?w') u x = guest_byte (world_machine w2) u x" for u x
    by (simp add: guest_byte_def host_block_def cong: option.case_cong)
  ultimately have "booted ch rcs v argv img hdr phs ?pid ?w'"
    using im(8,9) view(6) vfs(2) nc unfolding booted_def
    by (intro conjI exI [of _ ?sp] exI [of _ "?f ?pid vm"]) (simp_all add: pids_bytes)
  moreover have "application_sandbox_init ch hc env w v path argv [] = Some ?w'"
    using im(1,2) r(1,2,4) vfs(1) H(1)
    by (simp add: application_sandbox_init_def app_root_init_def root_ok_def breakpoints_init_def w3_def w4_def w5_def)
  ultimately show ?thesis using H(2) view(2,3) \<open>tasks ?w' = tasks w2\<close> \<open>cpustates ?w' = cpustates w2\<close> by (intro exI [of _ ?w']) simp
qed

lemma booted_cong:
  assumes "world_machine w' = world_machine w" "harts w' = harts w" "files w' = files w" "fs_root w' = fs_root w" "fs_cwd w' = fs_cwd w"
  shows "booted ch rcs v argv img hdr phs pid w' = booted ch rcs v argv img hdr phs pid w"
proof -
  have "args_at w' v sp argv [] = args_at w v sp argv []" for sp
    using assms(1) by (intro args_at_cong) (simp_all add: user_pointer_def)
  then show ?thesis by (simp add: booted_def assms)
qed

text \<open>The only task in the queue is picked.\<close>

lemma switch_single:
  assumes "queued q = {}" "st t = TASK_STATE_RUNNING" "t \<noteq> idle_task"
  shows "switch_spec st idle_task (q\<lparr>runq := runq q @ [t]\<rparr>) = (Some t, \<lparr>runq = [], blkq = [], exq = []\<rparr>)"
proof -
  have "runq q = []" "blkq q = []" "exq q = []" using assms(1) by (simp_all add: queued_def)
  then show ?thesis using assms(2)
    by (simp add: switch_spec_def pick_def wake_blocked_def queue_spec_defs)
qed

lemma main_boots:
  fixes w :: "'os procs"
  assumes ready: "boot_ready ch hc env rcs w v q B path img P hdr phs" and cpu: "cpu \<noteq> 0"
    and args: "argv = a0 # path # rest" "length argv \<le> MAX_NR_ARGV" "\<forall>s\<in>set argv. NUL \<notin> set s"
      "stack_size initial_sp (tl argv) [] \<le> unat (initial_sp - stack_low)"
  shows "\<exists>stack w'. main ch hc env w v argv cpu = Some (stack, w') \<and> current w' = Some (Task v) \<and>
    cpustates w' stack = Some (initial_frame ch v) \<and> booted ch rcs v (tl argv) img hdr phs (gpid_counter w) w'"
proof -
  have a: "length (tl argv) < MAX_NR_ARGV" "\<forall>s\<in>set (tl argv). NUL \<notin> set s" using args(1-3) by auto
  let ?B = "B(global_task_list_head := B global_task_list_head @ [Vm_list_node v])"
  obtain w1 where w1: "application_sandbox_init ch hc env w v path (tl argv) [] = Some w1" "booted ch rcs v (tl argv) img hdr phs (gpid_counter w) w1"
    "tasks w1 = (tasks w)(Task v := init_task (ch_stack ch v))" "cpustates w1 = cpustates w" "queues_ok (links w1) q ?B"
    using sandbox_init_boots [OF ready a args(4)] by blast
  have q: "queued q = {}" "(ch_stack ch v - SIZEOF_CPUSTATE) AND (NOT 15) \<noteq> 0" using ready by (auto simp: boot_ready_def)
  have st1: "state_of w1 (Task v) = TASK_STATE_RUNNING" by (simp add: w1(3) init_task_def)
  have idem: "(tasks w1 (Task v))\<lparr>task_state := TASK_STATE_RUNNING\<rparr> = tasks w1 (Task v)" by (simp add: w1(3) init_task_def)
  have tr: "transit_state w1 (Task v) TASK_STATE_RUNNING = Some w1"
    by (simp add: transit_state_def upd_task_def st1 idem)
  let ?w2 = "task_vmm_sched_init w1 (Task v) (ch_vmresume ch) (ch_hart ch v)"
  have st2: "state_of ?w2 (Task v) = TASK_STATE_RUNNING" using st1 by (simp add: task_vmm_sched_init_def Let_def upd_task_def)
  obtain H where H: "schedule_task ?w2 (Task v) = Some (?w2\<lparr>links := H\<rparr>)" "queues_ok H (enqueue (state_of ?w2) [Task v] q) ?B"
    using schedule_task_refines [of ?w2 q ?B "Task v"] w1(5) q(1) st2 by (auto simp: schedulable_def)
  have eq: "enqueue (state_of ?w2) [Task v] q = q\<lparr>runq := runq q @ [Task v]\<rparr>" using st2 by (simp add: queue_spec_defs)
  let ?w3 = "?w2\<lparr>links := H, current := Some idle_task\<rparr>" and ?q = "q\<lparr>runq := runq q @ [Task v]\<rparr>"
  have frame: "host_cpustate (tasks ?w2 (Task v)) \<noteq> 0" "cpustates ?w2 (host_cpustate (tasks ?w2 (Task v))) = Some (initial_frame ch v)"
    using q(2) by (simp_all add: task_vmm_sched_init_def Let_def upd_task_def initial_frame_def w1(3) init_task_def)
  have "queued ?q = {Task v}" using q(1) by (simp add: queued_def)
  moreover have sw: "switch_spec (state_of ?w3) idle_task ?q = (Some (Task v), \<lparr>runq = [], blkq = [], exq = []\<rparr>)"
    using st2 by (intro switch_single [OF q(1)]) simp_all
  ultimately obtain H' where H': "userspace_trap_handler ?w3 cpu =
      Some (host_cpustate (tasks ?w3 (Task v)), ?w3\<lparr>tasks := (tasks ?w3)(idle_task := (tasks ?w3 idle_task)\<lparr>host_cpustate := cpu\<rparr>), links := H', current := Some (Task v)\<rparr>)"
    using userspace_trap_refines [of ?w3 ?q ?B idle_task cpu] H(2) eq st2 frame(1) cpu
    by (auto simp: schedulable_def next_of_def)
  let ?w' = "?w3\<lparr>tasks := (tasks ?w3)(idle_task := (tasks ?w3 idle_task)\<lparr>host_cpustate := cpu\<rparr>), links := H', current := Some (Task v)\<rparr>"
  have "booted ch rcs v (tl argv) img hdr phs (gpid_counter w) ?w'"
    using w1(2) by (subst booted_cong [where w = w1]) (simp_all add: task_vmm_sched_init_def Let_def upd_task_def)
  moreover have "main ch hc env w v argv cpu = Some (host_cpustate (tasks ?w3 (Task v)), ?w')"
    using args(1) w1(1) tr H(1) H' by (simp add: main_def schedule_idle_task_def)
  ultimately show ?thesis using frame(2) by (intro exI [of _ "host_cpustate (tasks ?w3 (Task v))"] exI [of _ ?w']) simp
qed

end
