(* ===== verification/Syscall_Table.thy ===== *)
theory Syscall_Table
  imports Task_Exec
begin

text \<open>
  The system call table: the rest of \<open>sandbox/syscall.c\<close>, with the stubs of \<open>sandbox/signal.c\<close> and
  \<open>sandbox/sysnet.c\<close>, and \<open>do_syscall\<close>. What the host provides is collected in one record. A handler
  returns a value, or never comes back to its caller (\<open>exit\<close> and \<open>execve\<close>), in which case the
  result is the state in which the task yields.
\<close>

record 'os sys_host =
  sys_clone :: clone_host
  sys_calls :: "'os host_calls"
  sys_realloc :: host_realloc
  sys_blobs :: blob_alloc
  sys_yield :: "'os procs \<Rightarrow> 'os procs option"
  os_gettimeofday :: "bool \<Rightarrow> bool \<Rightarrow> 'os \<Rightarrow> (u32 \<times> u8 list \<times> u8 list) \<times> 'os"
  os_clock_gettime :: "u32 \<Rightarrow> 'os \<Rightarrow> (u32 \<times> u8 list) \<times> 'os"
  os_getrlimit :: "u32 \<Rightarrow> 'os \<Rightarrow> (u32 \<times> u8 list) \<times> 'os"

datatype 'os sys_result = Sys_return u32 "'os procs" | Sys_gone "'os procs"

definition NR_SYSCALL_LINUX :: u32 where "NR_SYSCALL_LINUX = 512"
definition ESRCH :: u32 where "ESRCH = 3"
definition FD_SETSIZE :: nat where "FD_SETSIZE = 1024"

subsection \<open>Handlers that change nothing\<close>

definition call_getuid :: "'os procs \<Rightarrow> 'os procs handler_result" where
  "call_getuid w = Some (0, w)"

definition call_faccessat :: "'os procs \<Rightarrow> 'os procs handler_result" where
  "call_faccessat w = Some (0, w)"

definition call_mprotect :: "'os procs \<Rightarrow> 'os procs handler_result" where
  "call_mprotect w = Some (0, w)"

definition call_madvice :: "'os procs \<Rightarrow> 'os procs handler_result" where
  "call_madvice w = Some (0, w)"

definition call_set_robust_list :: "'os procs \<Rightarrow> 'os procs handler_result" where
  "call_set_robust_list w = Some (0, w)"

definition call_sigaction :: "'os procs \<Rightarrow> 'os procs handler_result" where
  "call_sigaction w = Some (0, w)"

definition call_sigprocmask :: "'os procs \<Rightarrow> 'os procs handler_result" where
  "call_sigprocmask w = Some (0, w)"

definition call_kill :: "'os procs \<Rightarrow> 'os procs handler_result" where
  "call_kill w = Some (- ESRCH, w)"

definition call_sysinfo :: "'os procs \<Rightarrow> 'os procs handler_result" where
  "call_sysinfo w = Some (- ENOSYS, w)"

definition do_socket :: "'os procs \<Rightarrow> 'os procs handler_result" where
  "do_socket w = Some (- ENOSYS, w)"

definition call_socket :: "'os procs \<Rightarrow> 'os procs handler_result" where
  "call_socket w = do_socket w"

text \<open>\<open>LINKAGE_HINT_NATIVE\<close> is the process itself; \<open>getpgid\<close> returns the parent.\<close>

definition native_field :: "(virtual_machine \<Rightarrow> u32) \<Rightarrow> 'os procs \<Rightarrow> vmptr \<Rightarrow> 'os procs handler_result" where
  "native_field f w v =
     Option.bind (owner_vm w v LINKAGE_HINT_NATIVE) (\<lambda>u. map_option (\<lambda>vm. (f vm, w)) (vm_of w u))"

definition call_getpid :: "'os procs \<Rightarrow> vmptr \<Rightarrow> 'os procs handler_result" where
  "call_getpid = native_field vm_tgid"

definition call_getppid :: "'os procs \<Rightarrow> vmptr \<Rightarrow> 'os procs handler_result" where
  "call_getppid = native_field vm_ppid"

definition call_getpgid :: "'os procs \<Rightarrow> vmptr \<Rightarrow> 'os procs handler_result" where
  "call_getpgid = native_field vm_ppid"

text \<open>
  \<open>pselect\<close> collects the descriptors of the host and does not use them. A set of the guest is
  read in words of 64 bits; a host descriptor that does not fit its set is undefined in C.
\<close>

definition FD_ISSET :: "machine \<Rightarrow> uptr \<Rightarrow> nat \<Rightarrow> bool option" where
  "FD_ISSET m p fd =
     map_option (\<lambda>bs. bit (le_word bs) (fd mod 64)) (load_bytes m (fst p, snd p + 8 * (fd div 64)) 8)"

definition FD_SET :: "u32 \<Rightarrow> u32 set \<Rightarrow> u32 set option" where
  "FD_SET fd fds = (if unat fd < FD_SETSIZE then Some (insert fd fds) else None)"

fun select_sets :: "machine \<Rightarrow> nat \<Rightarrow> u32 \<Rightarrow> (uptr option \<times> u32 set) list \<Rightarrow> (uptr option \<times> u32 set) list option" where
  "select_sets m idx hfd [] = Some []"
| "select_sets m idx hfd ((p, fds) # sets) =
     Option.bind (case p of None \<Rightarrow> Some fds
       | Some q \<Rightarrow> Option.bind (FD_ISSET m q idx) (\<lambda>on. if on then FD_SET hfd fds else Some fds)) (\<lambda>fds1.
     map_option (\<lambda>rest. (p, fds1) # rest) (select_sets m idx hfd sets))"

fun select_loop :: "machine \<Rightarrow> file_desc list \<Rightarrow> nat \<Rightarrow> nat \<Rightarrow> (uptr option \<times> u32 set) list \<Rightarrow> (uptr option \<times> u32 set) list option" where
  "select_loop m fs idx 0 sets = Some sets"
| "select_loop m fs idx (Suc k) sets =
     (if \<not> valid (fs ! idx) then select_loop m fs (Suc idx) k sets
      else Option.bind (select_sets m idx (host_fd (fs ! idx)) sets) (select_loop m fs (Suc idx) k))"

definition optional_pointer :: "'os procs \<Rightarrow> vmptr \<Rightarrow> u32 \<Rightarrow> uptr option option" where
  "optional_pointer w v addr =
     Option.bind (user_accessible (world_machine w) v addr) (\<lambda>ok.
       if ok then map_option Some (user_pointer w v addr) else Some None)"

definition call_pselect :: "'os procs \<Rightarrow> vmptr \<Rightarrow> u32 \<Rightarrow> u32 \<Rightarrow> u32 \<Rightarrow> u32 \<Rightarrow> 'os procs handler_result" where
  "call_pselect w v nfds readfds_addr writefds_addr exceptfds_addr =
     Option.bind (owner_vm w v LINKAGE_HINT_FILES) (\<lambda>vm.
     Option.bind (optional_pointer w v readfds_addr) (\<lambda>readfds.
     Option.bind (optional_pointer w v writefds_addr) (\<lambda>writefds.
     Option.bind (optional_pointer w v exceptfds_addr) (\<lambda>exceptfds.
     map_option (\<lambda>_. (0, w)) (select_loop (world_machine w) (files w vm) 0 (min (unat (nfds + 1)) MAX_FILES_NR)
       [(readfds, {}), (writefds, {}), (exceptfds, {})])))))"

subsection \<open>Handlers that store through a pointer\<close>

fun store_strings :: "'os procs \<Rightarrow> uptr \<Rightarrow> nat \<Rightarrow> string list \<Rightarrow> 'os procs option" where
  "store_strings w p i [] = Some w"
| "store_strings w p i (s # ss) =
     Option.bind (fill w (fst p, snd p + i * 65) (string_bytes s)) (\<lambda>w1. store_strings w1 p (Suc i) ss)"

definition call_uname :: "'os procs \<Rightarrow> vmptr \<Rightarrow> u32 \<Rightarrow> 'os procs handler_result" where
  "call_uname w v utsname_addr =
     Option.bind (user_pointer w v utsname_addr) (\<lambda>utsname.
     map_option (\<lambda>w1. (0, w1))
       (store_strings w utsname 0 [''ZeldaLinux'', ''hyrule'', ''5.4.0'', ''v2020.03'', ''riscv32'', ''castle'']))"

definition call_gettimeofday :: "'os sys_host \<Rightarrow> 'os procs \<Rightarrow> vmptr \<Rightarrow> u32 \<Rightarrow> u32 \<Rightarrow> 'os procs handler_result" where
  "call_gettimeofday sh w v tv_addr tz_addr =
     Option.bind (if tv_addr \<noteq> 0 then user_pointer w v tv_addr else Some (None, 0)) (\<lambda>tv.
     Option.bind (if tz_addr \<noteq> 0 then user_pointer w v tz_addr else Some (None, 0)) (\<lambda>tz.
       let ((rc, tv_bytes, tz_bytes), os) = os_gettimeofday sh (tv_addr \<noteq> 0) (tz_addr \<noteq> 0) (os_state w) in
       Option.bind (fill (w\<lparr>os_state := os\<rparr>) tv tv_bytes) (\<lambda>w1. map_option (\<lambda>w2. (rc, w2)) (fill w1 tz tz_bytes))))"

definition call_clock_gettime :: "'os sys_host \<Rightarrow> 'os procs \<Rightarrow> vmptr \<Rightarrow> u32 \<Rightarrow> u32 \<Rightarrow> 'os procs handler_result" where
  "call_clock_gettime sh w v clk_id timespec_addr =
     Option.bind (user_pointer w v timespec_addr) (\<lambda>timespec_ptr.
       let ((rc, bs), os) = os_clock_gettime sh clk_id (os_state w) in
       map_option (\<lambda>w1. (rc, w1)) (fill (w\<lparr>os_state := os\<rparr>) timespec_ptr bs))"

definition call_getrlimit :: "'os sys_host \<Rightarrow> 'os procs \<Rightarrow> vmptr \<Rightarrow> u32 \<Rightarrow> u32 \<Rightarrow> 'os procs handler_result" where
  "call_getrlimit sh w v resource rlim_addr =
     Option.bind (user_pointer w v rlim_addr) (\<lambda>rlim.
       let ((rc, bs), os) = os_getrlimit sh resource (os_state w) in
       map_option (\<lambda>w1. (ERRNO (sys_calls sh) rc os, w1)) (fill (w\<lparr>os_state := os\<rparr>) rlim bs))"

subsection \<open>Handlers that pass their arguments on\<close>

text \<open>The calls on the memory of a process work on the machine alone.\<close>

definition on_machine :: "'os procs \<Rightarrow> (machine \<Rightarrow> (u32 \<times> machine) option) \<Rightarrow> 'os procs handler_result" where
  "on_machine w f = map_option (\<lambda>(r, m). (r, w\<lparr>world_machine := m\<rparr>)) (f (world_machine w))"

definition call_mmap :: "'os sys_host \<Rightarrow> 'os procs \<Rightarrow> vmptr \<Rightarrow> u32 \<Rightarrow> u32 \<Rightarrow> u32 \<Rightarrow> u32 \<Rightarrow> 'os procs handler_result" where
  "call_mmap sh w v proposal_addr len prot flags =
     on_machine w (\<lambda>m. do_mmap (ch_block (sys_clone sh)) m v proposal_addr len prot flags)"

definition call_munmap :: "'os procs \<Rightarrow> vmptr \<Rightarrow> u32 \<Rightarrow> u32 \<Rightarrow> 'os procs handler_result" where
  "call_munmap w v addr len = on_machine w (\<lambda>m. do_munmap m v addr len)"

definition call_ioctl :: "'os sys_host \<Rightarrow> 'os procs \<Rightarrow> vmptr \<Rightarrow> u32 \<Rightarrow> u32 \<Rightarrow> u32 \<Rightarrow> 'os procs handler_result" where
  "call_ioctl sh w v fd request argp_addr = do_ioctl (sys_calls sh) w v fd request argp_addr"

definition call_close :: "'os sys_host \<Rightarrow> 'os procs \<Rightarrow> vmptr \<Rightarrow> u32 \<Rightarrow> 'os procs handler_result" where
  "call_close sh w v fd = do_close (sys_calls sh) w v fd"

definition call_getdents64 :: "'os sys_host \<Rightarrow> 'os procs \<Rightarrow> vmptr \<Rightarrow> u32 \<Rightarrow> u32 \<Rightarrow> u32 \<Rightarrow> 'os procs handler_result" where
  "call_getdents64 sh w v fd dirp_addr nr = do_getdents64 (sys_calls sh) w v fd dirp_addr nr"

definition call_lseek :: "'os sys_host \<Rightarrow> 'os procs \<Rightarrow> vmptr \<Rightarrow> u32 \<Rightarrow> u32 \<Rightarrow> u32 \<Rightarrow> 'os procs handler_result" where
  "call_lseek sh w v fd offset whence = do_lseek (sys_calls sh) w v fd offset whence"

text \<open>The status of an exiting task is not kept.\<close>

definition call_exit :: "'os procs \<Rightarrow> vmptr \<Rightarrow> u32 \<Rightarrow> 'os procs option" where
  "call_exit w v st = do_exit w (Task v)"

definition call_exit_group :: "'os procs \<Rightarrow> vmptr \<Rightarrow> u32 \<Rightarrow> 'os procs option" where
  "call_exit_group w v st = do_exit w (Task v)"

subsection \<open>The table\<close>

type_synonym 'os sys_handler = "'os procs \<Rightarrow> vmptr \<Rightarrow> u32 \<Rightarrow> u32 \<Rightarrow> u32 \<Rightarrow> u32 \<Rightarrow> u32 \<Rightarrow> u32 \<Rightarrow> 'os sys_result option"

definition sys_value :: "'os procs handler_result \<Rightarrow> 'os sys_result option" where
  "sys_value r = map_option (\<lambda>(v, w). Sys_return v w) r"

text \<open>A handler takes as many of the six arguments as it has parameters.\<close>

definition handlers :: "'os sys_host \<Rightarrow> (nat \<times> 'os sys_handler) list" where
  "handlers sh = (let hc = sys_calls sh in
    [(17, \<lambda>w v a0 a1 a2 a3 a4 a5. sys_value (call_getcwd w v a0 a1)),
     (23, \<lambda>w v a0 a1 a2 a3 a4 a5. sys_value (call_dup hc w v a0)),
     (24, \<lambda>w v a0 a1 a2 a3 a4 a5. sys_value (call_dup3 hc w v a0 a1)),
     (25, \<lambda>w v a0 a1 a2 a3 a4 a5. sys_value (call_fnctl hc w v a0 a1 a2)),
     (29, \<lambda>w v a0 a1 a2 a3 a4 a5. sys_value (call_ioctl sh w v a0 a1 a2)),
     (35, \<lambda>w v a0 a1 a2 a3 a4 a5. sys_value (call_unlinkat hc w v a0 a1 a2)),
     (48, \<lambda>w v a0 a1 a2 a3 a4 a5. sys_value (call_faccessat w)),
     (49, \<lambda>w v a0 a1 a2 a3 a4 a5. sys_value (call_chdir w v a0)),
     (56, \<lambda>w v a0 a1 a2 a3 a4 a5. sys_value (call_openat hc w v a0 a1 a2 a3)),
     (57, \<lambda>w v a0 a1 a2 a3 a4 a5. sys_value (call_close sh w v a0)),
     (61, \<lambda>w v a0 a1 a2 a3 a4 a5. sys_value (call_getdents64 sh w v a0 a1 a2)),
     (62, \<lambda>w v a0 a1 a2 a3 a4 a5. sys_value (call_lseek sh w v a0 a1 a2)),
     (63, \<lambda>w v a0 a1 a2 a3 a4 a5. sys_value (call_read hc w v a0 a1 a2)),
     (64, \<lambda>w v a0 a1 a2 a3 a4 a5. sys_value (call_write hc w v a0 a1 a2)),
     (66, \<lambda>w v a0 a1 a2 a3 a4 a5. sys_value (call_writev hc w v a0 a1 a2)),
     (71, \<lambda>w v a0 a1 a2 a3 a4 a5. sys_value (call_sendfile hc w v a0 a1 a2 a3)),
     (72, \<lambda>w v a0 a1 a2 a3 a4 a5. sys_value (call_pselect w v a0 a1 a2 a3)),
     (78, \<lambda>w v a0 a1 a2 a3 a4 a5. sys_value (call_readlinkat hc w v a0 a1 a2 a3)),
     (93, \<lambda>w v a0 a1 a2 a3 a4 a5. map_option Sys_gone (call_exit w v a0)),
     (94, \<lambda>w v a0 a1 a2 a3 a4 a5. map_option Sys_gone (call_exit_group w v a0)),
     (96, \<lambda>w v a0 a1 a2 a3 a4 a5. sys_value (call_set_tid_address w v a0)),
     (99, \<lambda>w v a0 a1 a2 a3 a4 a5. sys_value (call_set_robust_list w)),
     (113, \<lambda>w v a0 a1 a2 a3 a4 a5. sys_value (call_clock_gettime sh w v a0 a1)),
     (129, \<lambda>w v a0 a1 a2 a3 a4 a5. sys_value (call_kill w)),
     (134, \<lambda>w v a0 a1 a2 a3 a4 a5. sys_value (call_sigaction w)),
     (135, \<lambda>w v a0 a1 a2 a3 a4 a5. sys_value (call_sigprocmask w)),
     (155, \<lambda>w v a0 a1 a2 a3 a4 a5. sys_value (call_getpgid w v)),
     (160, \<lambda>w v a0 a1 a2 a3 a4 a5. sys_value (call_uname w v a0)),
     (163, \<lambda>w v a0 a1 a2 a3 a4 a5. sys_value (call_getrlimit sh w v a0 a1)),
     (169, \<lambda>w v a0 a1 a2 a3 a4 a5. sys_value (call_gettimeofday sh w v a0 a1)),
     (172, \<lambda>w v a0 a1 a2 a3 a4 a5. sys_value (call_getpid w v)),
     (173, \<lambda>w v a0 a1 a2 a3 a4 a5. sys_value (call_getppid w v)),
     (174, \<lambda>w v a0 a1 a2 a3 a4 a5. sys_value (call_getuid w)),
     (175, \<lambda>w v a0 a1 a2 a3 a4 a5. sys_value (call_getuid w)),
     (176, \<lambda>w v a0 a1 a2 a3 a4 a5. sys_value (call_getuid w)),
     (177, \<lambda>w v a0 a1 a2 a3 a4 a5. sys_value (call_getuid w)),
     (179, \<lambda>w v a0 a1 a2 a3 a4 a5. sys_value (call_sysinfo w)),
     (198, \<lambda>w v a0 a1 a2 a3 a4 a5. sys_value (call_socket w)),
     (214, \<lambda>w v a0 a1 a2 a3 a4 a5. sys_value (on_machine w (\<lambda>m. call_brk (sys_realloc sh) m v a0))),
     (215, \<lambda>w v a0 a1 a2 a3 a4 a5. sys_value (call_munmap w v a0 a1)),
     (220, \<lambda>w v a0 a1 a2 a3 a4 a5. sys_value (call_clone (sys_clone sh) hc w v a0 a1 a2 a3 a4)),
     (221, \<lambda>w v a0 a1 a2 a3 a4 a5. map_option Sys_gone (call_execve (ch_block (sys_clone sh)) hc w v a0 a1 a2)),
     (222, \<lambda>w v a0 a1 a2 a3 a4 a5. sys_value (call_mmap sh w v a0 a1 a2 a3)),
     (226, \<lambda>w v a0 a1 a2 a3 a4 a5. sys_value (call_mprotect w)),
     (233, \<lambda>w v a0 a1 a2 a3 a4 a5. sys_value (call_madvice w)),
     (260, \<lambda>w v a0 a1 a2 a3 a4 a5. sys_value (call_wait4 (sys_blobs sh) (sys_yield sh) w v a0 a2)),
     (291, \<lambda>w v a0 a1 a2 a3 a4 a5. sys_value (call_statx hc w v a0 a1 a2 a3 a4))])"

definition do_syscall :: "'os sys_host \<Rightarrow> 'os procs \<Rightarrow> vmptr \<Rightarrow> u32 \<Rightarrow> u32 \<Rightarrow> u32 \<Rightarrow> u32 \<Rightarrow> u32 \<Rightarrow> u32 \<Rightarrow> u32 \<Rightarrow> 'os sys_result option" where
  "do_syscall sh w v syscall_number_a7 arg_a0 arg_a1 arg_a2 arg_a3 arg_a4 arg_a5 =
     ASSERT (syscall_number_a7 < NR_SYSCALL_LINUX)
       (case map_of (handlers sh) (unat syscall_number_a7) of
          None \<Rightarrow> None
        | Some handler \<Rightarrow> handler w v arg_a0 arg_a1 arg_a2 arg_a3 arg_a4 arg_a5)"

end
