(* ===== verification/Kernel_Step.thy ===== *)
theory Kernel_Step
  imports Syscall_Table
begin

text \<open>
  What system calls can do to the processes. Every call of \<open>do_syscall\<close> is a sequence of steps of
  a small relation: a change of memory maps and memory that keeps the maps well-formed and the
  files untouched, a file system call, a clone, or the time in which the caller is not running.
  The invariants of the next theory are proved on this relation.
\<close>

subsection \<open>Changes of the memory maps\<close>

definition map_step :: "machine \<Rightarrow> machine \<Rightarrow> bool" where
  "map_step m m' \<longleftrightarrow> (\<forall>v. rel_option (\<lambda>vm vm'. vm_links vm' = vm_links vm \<and> (vm_wf vm \<longrightarrow> vm_wf vm')) (vms m v) (vms m' v))"

named_theorems map_steps

lemma map_step_same: "vms m' = vms m \<Longrightarrow> map_step m m'"
  by (simp add: map_step_def option.rel_refl)

lemma map_step_refl [simp]: "map_step m m"
  by (simp add: map_step_same)

lemma map_step_trans:
  assumes "map_step a b" "map_step b c"
  shows "map_step a c"
  unfolding map_step_def
proof
  fix v
  show "rel_option (\<lambda>vm vm'. vm_links vm' = vm_links vm \<and> (vm_wf vm \<longrightarrow> vm_wf vm')) (vms a v) (vms c v)"
    using assms [unfolded map_step_def, rule_format, of v]
    by (cases "vms a v"; cases "vms b v"; cases "vms c v") auto
qed

lemma map_step_Some:
  assumes "map_step m m'" "vms m v = Some vm"
  shows "\<exists>vm'. vms m' v = Some vm' \<and> vm_links vm' = vm_links vm \<and> (vm_wf vm \<longrightarrow> vm_wf vm')"
  using assms(1) [unfolded map_step_def, rule_format, of v] assms(2) by (auto simp: option_rel_Some1)

lemma map_step_Some':
  assumes "map_step m m'" "vms m' v = Some vm'"
  shows "\<exists>vm. vms m v = Some vm \<and> vm_links vm' = vm_links vm \<and> (vm_wf vm \<longrightarrow> vm_wf vm')"
  using assms(1) [unfolded map_step_def, rule_format, of v] assms(2) by (auto simp: option_rel_Some2)

lemma map_step_cong: "vms m1 = vms m2 \<Longrightarrow> vms m1' = vms m2' \<Longrightarrow> map_step m1 m1' = map_step m2 m2'"
  by (simp add: map_step_def)

lemma map_step_set:
  assumes "vms m v = Some vm" "vm_links vm' = vm_links vm" "vm_wf vm \<Longrightarrow> vm_wf vm'" "vms m' = (vms m)(v \<mapsto> vm')"
  shows "map_step m m'"
  using assms by (auto simp: map_step_def option.rel_refl)

lemma map_step_upd:
  assumes "vms m v = Some vm" "vm_links vm' = vm_links vm" "vm_wf vm \<Longrightarrow> vm_wf vm'"
  shows "map_step m (m\<lparr>vms := (vms m)(v \<mapsto> vm')\<rparr>)" "map_step m (m\<lparr>hmem := H, vms := (vms m)(v \<mapsto> vm')\<rparr>)"
  using assms by (auto intro: map_step_set)

text \<open>A region that could be registered is not empty, even if its end was computed with a wrap-around.\<close>

lemma register_nonempty:
  assumes wf: "vm_wf vm" and reg: "register_pm_region_operation vm pmr = Some vm'"
  shows "addr_low pmr < addr_high pmr"
proof -
  from reg obtain ops v where r:
    "search_pm_region_callback vm (ucast (addr_low pmr)) = Some None" "nr_pmr_ops vm < length (pmr_ops vm)"
    "SORT pm_region_operation_compare ((pmr_ops vm)[nr_pmr_ops vm := pmr]) (Suc (nr_pmr_ops vm)) = Some ops"
    "vm' = vm\<lparr>nr_pmr_ops := Suc (nr_pmr_ops vm), pmr_ops := ops\<rparr>"
    "search_pm_region_callback vm' (ucast (addr_low pmr)) = Some (Some v)"
    by (rule register_elim)
  have v: "v < Suc (nr_pmr_ops vm)" "in_region (addr_low pmr) (ops ! v)" using search_sound [OF r(5)] r(4) by auto
  then have last: "addr_low pmr \<noteq> - 1"
    using word_order.extremum_strict [of "addr_high (ops ! v)"] by (auto simp: in_region_def)
  have "take (Suc (nr_pmr_ops vm)) ((pmr_ops vm)[nr_pmr_ops vm := pmr]) = live_regions vm @ [pmr]"
    using r(2) by (simp add: live_regions_def take_Suc_conv_app_nth)
  with SORT_perm [OF r(3)] r(2) have "mset (take (Suc (nr_pmr_ops vm)) ops) = mset (live_regions vm @ [pmr])"
    "length ops = length (pmr_ops vm)" by auto
  moreover from this(2) have "ops ! v \<in> set (take (Suc (nr_pmr_ops vm)) ops)"
    using v(1) r(2) by (auto simp: in_set_conv_nth intro!: exI [of _ v])
  ultimately have "ops ! v \<in> set (live_regions vm @ [pmr])" by (metis set_mset_mset)
  moreover have "ops ! v \<notin> set (live_regions vm)" using r(1) search_pm_region_iff(2) [OF wf last] v(2) by blast
  ultimately show ?thesis using v(2) by (auto simp: in_region_def)
qed

lemma register_wf: "vm_wf vm \<Longrightarrow> register_pm_region_operation vm pmr = Some vm' \<Longrightarrow> vm_wf vm'"
  using register_pm_region_safe register_nonempty by blast

lemma vm_wf_fields [simp]: "vm_wf (vm\<lparr>vma_heap := h\<rparr>) = vm_wf vm" "vm_wf (vm\<lparr>vma_stack := h\<rparr>) = vm_wf vm"
  "vm_wf (vm\<lparr>ref_count := n\<rparr>) = vm_wf vm" "vm_wf (vm\<lparr>cloned_vm := b\<rparr>) = vm_wf vm"
  "vm_wf (vm\<lparr>cloned_fs := b\<rparr>) = vm_wf vm" "vm_wf (vm\<lparr>cloned_files := b\<rparr>) = vm_wf vm"
  "vm_wf (vm\<lparr>vm_pid := p, vm_ppid := q, vm_tgid := t, parent_vm := u\<rparr>) = vm_wf vm"
  by (simp_all add: vm_wf_def live_regions_def)

lemma register_region_step [map_steps]: "register_region m v pmr = Some m' \<Longrightarrow> map_step m m'"
  by (auto simp: register_region_def set_vm_def split: bind_splits intro: map_step_set register_links [THEN conjunct1] register_wf)

lemma preallocate_step [map_steps]: "preallocate_physical_memory alloc m n = (b, m') \<Longrightarrow> map_step m m'"
  by (auto simp: preallocate_physical_memory_def split: option.splits intro: map_step_same)

text \<open>After a registration the process notes where the new region is.\<close>

lemma note_region_step:
  assumes "map_step m m1" "vms m1 v = Some vm" "vm' = vm\<lparr>vma_heap := i\<rparr> \<or> vm' = vm\<lparr>vma_stack := i\<rparr>"
  shows "map_step m (set_vm v vm' m1)"
  using assms(1) by (rule map_step_trans) (rule map_step_set [OF assms(2)], use assms(3) in \<open>auto simp: vm_links_def set_vm_def\<close>)

lemma stack_init_step [map_steps]: "stack_init alloc m h v = Some (h', m') \<Longrightarrow> map_step m m'"
  by (auto simp: stack_init_def Let_def split: prod.splits option.splits bind_splits if_splits
      dest!: preallocate_step register_region_step intro!: note_region_step dest: map_step_trans)

lemma heap_init_step [map_steps]: "heap_init m v brk = Some m' \<Longrightarrow> map_step m m'"
  by (auto simp: heap_init_def Let_def split: bind_splits if_splits dest!: register_region_step intro!: note_region_step)

lemma mmap_setup_step [map_steps]: "mmap_setup alloc m v low len fl base = Some m' \<Longrightarrow> map_step m m'"
  by (auto simp: mmap_setup_def split: prod.splits if_splits
      dest!: preallocate_step register_region_step intro: map_step_trans)

lemma do_mmap_step [map_steps]: "do_mmap alloc m v addr len prot fl = Some (r, m') \<Longrightarrow> map_step m m'"
  by (auto simp: do_mmap_def allocate_mmap_region_def Let_def split: bind_splits if_splits dest!: mmap_setup_step)

text \<open>The block of a region is given back: its bounds stay.\<close>

lemma vm_wf_host_base: "vm_wf vm \<Longrightarrow> vm_wf (vm\<lparr>pmr_ops := (pmr_ops vm)[i := (pmr_ops vm ! i)\<lparr>host_base := c\<rparr>]\<rparr>)"
proof (cases "i < nr_pmr_ops vm")
  case False
  then show "vm_wf vm \<Longrightarrow> ?thesis" by (simp add: vm_wf_def live_regions_def)
qed (use live_regions_host_base in blast)

lemma vma_generic_reclaim_step [map_steps]: "vma_generic_reclaim m v i = Some m' \<Longrightarrow> map_step m m'"
  by (auto simp: vma_generic_reclaim_def set_vm_def vm_links_def split: option.splits intro!: map_step_upd vm_wf_host_base)

lemma unregister_step:
  assumes "unregister_pm_region vm i = Some vm'"
  shows "vm_links vm' = vm_links vm" "vm_wf vm \<Longrightarrow> vm_wf vm'"
proof -
  show "vm_links vm' = vm_links vm" using assms by (auto simp: unregister_pm_region_def vm_links_def split: if_splits)
  have "i < nr_pmr_ops vm" using assms by (auto simp: unregister_pm_region_def split: if_splits)
  then show "vm_wf vm \<Longrightarrow> vm_wf vm'" using unregister_pm_region_live [of vm i] assms by auto
qed

lemma do_munmap_step [map_steps]: "do_munmap m v addr len = Some (r, m') \<Longrightarrow> map_step m m'"
  by (auto simp: do_munmap_def set_vm_def split: bind_splits if_splits option.splits dest!: vma_generic_reclaim_step
      intro: map_step_upd unregister_step map_step_trans [OF _ map_step_upd(1) [OF _ unregister_step]])

text \<open>The break moves up to a region that begins behind it at most.\<close>

lemma vm_wf_extend:
  assumes wf: "vm_wf vm" and el: "is_vma_eligible (vm\<lparr>pmr_ops := (pmr_ops vm)[i := (pmr_ops vm ! i)\<lparr>addr_high := a\<rparr>]\<rparr>) (Some i) = Some True"
    and up: "addr_high (pmr_ops vm ! i) < a"
  shows "vm_wf (vm\<lparr>pmr_ops := (pmr_ops vm)[i := (pmr_ops vm ! i)\<lparr>addr_high := a, host_base := c\<rparr>]\<rparr>)"
proof -
  let ?ops = "(pmr_ops vm)[i := (pmr_ops vm ! i)\<lparr>addr_high := a, host_base := c\<rparr>]" and ?n = "nr_pmr_ops vm"
  have i: "i < ?n" and apart: "\<And>j. j < ?n \<Longrightarrow> j \<noteq> i \<Longrightarrow> \<not> (addr_low (pmr_ops vm ! j) > addr_low (pmr_ops vm ! i) \<and> addr_low (pmr_ops vm ! j) < a)"
    using el wf by (auto simp: is_vma_eligible_def list_all_iff vm_wf_def) (metis atLeast0LessThan lessThan_iff nth_list_update_neq)
  have n: "?n \<le> length (pmr_ops vm)" using wf by (simp add: vm_wf_def)
  have low: "addr_low (?ops ! j) = addr_low (pmr_ops vm ! j)" "addr_high (?ops ! j) = (if j = i then a else addr_high (pmr_ops vm ! j))" if "j < ?n" for j
    using that n i by (auto simp: nth_list_update)
  have ne: "addr_low (?ops ! j) < addr_high (?ops ! j)" if "j < ?n" for j
    using vm_wf_nonempty [OF wf that] low [OF that] up by auto
  have "addr_high (?ops ! j) \<le> addr_low (?ops ! k)" if "j < k" "k < ?n" for j k
  proof (cases "j = i")
    case True
    have "addr_low (pmr_ops vm ! i) < addr_low (pmr_ops vm ! k)"
      using vm_wf_nonempty [OF wf i] vm_wf_gap [OF wf that] True by simp
    with apart [of k] that True low show ?thesis by (auto simp: not_less)
  next
    case False
    then show ?thesis using vm_wf_gap [OF wf that] low that by simp
  qed
  with ne n wf show ?thesis
    unfolding vm_wf_def live_regions_def sorted_wrt_iff_nth_less by (auto simp: in_set_conv_nth)
qed

lemma call_brk_step [map_steps]: "call_brk ra m v addr = Some (r, m') \<Longrightarrow> map_step m m'"
  by (auto simp: call_brk_def Let_def set_vm_def vm_links_def not_le split: bind_splits if_splits option.splits
      intro!: map_step_upd vm_wf_extend)

lemma store_bytes_step [map_steps]: "store_bytes m p bs = Some m' \<Longrightarrow> map_step m m'"
  by (auto simp: store_bytes_def split: bind_splits if_splits intro: map_step_same)

subsection \<open>Steps of the processes\<close>

text \<open>
  \<open>mem_step\<close>: the maps may change as above; files and directories stay. A step that touches only
  the scheduler, the harts or the state of the host is one, too.
\<close>

definition fs_view :: "'os procs \<Rightarrow> (vmptr \<Rightarrow> file_desc list) \<times> (vmptr \<Rightarrow> string) \<times> (vmptr \<Rightarrow> string)" where
  "fs_view w = (files w, fs_root w, fs_cwd w)"

definition mem_step :: "'os procs \<Rightarrow> 'os procs \<Rightarrow> bool" where
  "mem_step w w' \<longleftrightarrow> map_step (world_machine w) (world_machine w') \<and> fs_view w' = fs_view w"

named_theorems mem_steps

lemma mem_step_refl [simp]: "mem_step w w"
  by (simp add: mem_step_def)

lemma mem_step_trans [trans]: "mem_step a b \<Longrightarrow> mem_step b c \<Longrightarrow> mem_step a c"
  by (auto simp: mem_step_def intro: map_step_trans)

lemma mem_step_machine: "map_step (world_machine w) m \<Longrightarrow> mem_step w (w\<lparr>world_machine := m\<rparr>)"
  by (simp add: mem_step_def fs_view_def)

lemma mem_step_fields [simp]:
  "mem_step w (w'\<lparr>os_state := os\<rparr>) = mem_step w w'" "mem_step (w\<lparr>os_state := os\<rparr>) w' = mem_step w w'"
  "mem_step w (set_hart v h w') = mem_step w w'" "mem_step (set_hart v h w) w' = mem_step w w'"
  "mem_step w (w'\<lparr>set_child_tid := t\<rparr>) = mem_step w w'" "mem_step w (w'\<lparr>harts := hs\<rparr>) = mem_step w w'"
  by (simp_all add: mem_step_def fs_view_def set_hart_def)

lemma fill_step [mem_steps]: "fill w p bs = Some w' \<Longrightarrow> mem_step w w'"
  by (auto simp: fill_def split: if_splits intro!: mem_step_machine store_bytes_step)

lemma load_segment_step [mem_steps]:
  assumes "load_segment alloc hc v fd ph w = Some w'"
  shows "mem_step w w'"
proof -
  obtain base m1 rc bs os where a: "preallocate_physical_memory alloc (world_machine w) (unat (p_memsz ph)) = (base, m1)"
    "elf_read hc fd (p_offset ph) (p_filesz ph) (os_state w) = ((rc, bs), os)" by (metis surj_pair)
  then obtain w2 m2 where b: "fill (w\<lparr>world_machine := m1, os_state := os\<rparr>) (base, 0) bs = Some w2"
    "register_region (world_machine w2) v (vma_region (p_vaddr ph) (p_vaddr ph + p_memsz ph) (p_flags ph) base) = Some m2"
    "w' = w2\<lparr>world_machine := m2\<rparr>"
    using assms by (auto simp: load_segment_def split: bind_splits if_splits)
  have "mem_step w (w\<lparr>world_machine := m1, os_state := os\<rparr>)" using preallocate_step [OF a(1)] by (simp add: mem_step_machine)
  then show ?thesis
    using mem_step_trans [OF _ mem_step_trans [OF fill_step [OF b(1)] mem_step_machine [OF register_region_step [OF b(2)]]]] b(3) by simp
qed

lemma load_segments_step [mem_steps]: "load_segments alloc hc v fd eh idx k brk w = Some (brk', w') \<Longrightarrow> mem_step w w'"
proof (induction k arbitrary: idx brk w)
  case (Suc k)
  from Suc.prems obtain rc ph os where "elf_program_header hc fd eh idx (os_state w) = Some ((rc, ph), os)"
    by (auto split: bind_splits)
  with Suc.prems show ?case
    by (auto simp: Let_def split: bind_splits if_splits dest!: Suc.IH load_segment_step intro: mem_step_trans)
qed simp

lemma program_init_step [mem_steps]: "program_init alloc hc w v path = Some w' \<Longrightarrow> mem_step w w'"
  by (auto simp: program_init_def Let_def split: prod.splits bind_splits if_splits
      dest!: load_segments_step stack_init_step heap_init_step
      intro!: mem_step_machine elim!: mem_step_trans intro: map_step_trans)

text \<open>The stack of a new program is written block by block.\<close>

lemma move_down_machine: "move_down n st = Some st' \<Longrightarrow> ps_machine st' = ps_machine st"
  by (auto simp: move_down_def split: prod.splits if_splits)

lemma PUSH_BLOB_step: "PUSH_BLOB b st = Some st' \<Longrightarrow> map_step (ps_machine st) (ps_machine st')"
  by (auto simp: PUSH_BLOB_def simp flip: move_down_machine split: bind_splits intro: store_bytes_step)

lemma push_strings_step: "push_strings tp ss st = Some (ptrs, st') \<Longrightarrow> map_step (ps_machine st) (ps_machine st')"
proof (induction ss arbitrary: st ptrs)
  case (Cons s ss)
  then show ?case by (auto split: bind_splits dest!: PUSH_BLOB_step intro: map_step_trans)
qed simp

lemma push_blobs_step: "push_blobs bs st = Some st' \<Longrightarrow> map_step (ps_machine st) (ps_machine st')"
proof (induction bs arbitrary: st)
  case (Cons b bs)
  then show ?case by (auto split: bind_splits dest!: PUSH_BLOB_step intro: map_step_trans)
qed simp

lemma env_setup_step [mem_steps]:
  assumes "env_setup w v argv envp = Some w'"
  shows "mem_step w w'"
proof -
  let ?h = "harts w v" and ?top = "registers (harts w v) ! 2"
  obtain p ep ap st1 st2 st3 st4 st5 st6 st7 where r: "user_pointer w v ?top = Some p"
    "push_strings ?top (take MAX_NR_ENVP envp) \<lparr>ps_machine = world_machine w, stack_top_upointer = p, stack_top_gap = 0\<rparr> = Some (ep, st1)"
    "push_strings ?top (take MAX_NR_ARGV argv) st1 = Some (ap, st2)" "LOCAL_ALIGN ?top 16 st2 = Some st3"
    "push_blobs (rev (map aux_blob (aux_vector ?top (pc ?h)))) st3 = Some st4"
    "push_blobs (word_blob 0 # rev (map word_blob ep)) st4 = Some st5"
    "push_blobs (word_blob 0 # rev (map word_blob ap)) st5 = Some st6"
    "PUSH_BLOB (word_blob (of_nat (length ap))) st6 = Some st7"
    and w': "w' = w\<lparr>world_machine := ps_machine st7, harts := (harts w)(v := ?h\<lparr>registers := (registers ?h)[2 := STACK_POS ?top st7]\<rparr>)\<rparr>"
    using assms by (auto simp: env_setup_def Let_def simp del: push_blobs.simps split: bind_splits)
  have "ps_machine st3 = ps_machine st2" using r(4) by (auto simp: LOCAL_ALIGN_def Let_def dest: move_down_machine)
  then have "map_step (world_machine w) (ps_machine st7)"
    using push_strings_step [OF r(2)] push_strings_step [OF r(3)] push_blobs_step [OF r(5)] push_blobs_step [OF r(6)] push_blobs_step [OF r(7)]
      PUSH_BLOB_step [OF r(8)] by simp (meson map_step_trans)
  then show ?thesis unfolding w' by (simp add: mem_step_machine)
qed

text \<open>Releasing the address space of its owner, and \<open>execve\<close>.\<close>

lemma reclaim_regions_step [map_steps]: "reclaim_regions v idx k m = Some m' \<Longrightarrow> map_step m m'"
proof (induction k arbitrary: idx m)
  case (Suc k)
  then show ?case by (auto split: bind_splits if_splits dest!: vma_generic_reclaim_step intro: map_step_trans)
qed simp

lemma reclaim_virtual_memory_step:
  assumes "reclaim_virtual_memory w v = Some w'" "vm_of w v = Some vm" "\<not> cloned_vm vm"
  shows "mem_step w w'"
proof -
  obtain m where m: "reclaim_regions v 0 (nr_pmr_ops vm) (world_machine w) = Some m"
    and w': "w' = upd_vm v (\<lambda>vm. vm\<lparr>nr_pmr_ops := 0, vma_heap := None, vma_stack := None\<rparr>) (w\<lparr>world_machine := m\<rparr>)"
    using assms by (auto simp: reclaim_virtual_memory_def)
  obtain vm1 where vm1: "vms m v = Some vm1"
    using map_step_Some [OF reclaim_regions_step [OF m] assms(2)] by blast
  have "vm_wf vm1 \<Longrightarrow> vm_wf (vm1\<lparr>nr_pmr_ops := 0, vma_heap := None, vma_stack := None\<rparr>)"
    by (simp add: vm_wf_def live_regions_def)
  then have "map_step m (m\<lparr>vms := (vms m)(v \<mapsto> vm1\<lparr>nr_pmr_ops := 0, vma_heap := None, vma_stack := None\<rparr>)\<rparr>)"
    using map_step_upd(1) [OF vm1] by (simp add: vm_links_def)
  with reclaim_regions_step [OF m] vm1 show ?thesis
    unfolding w' by (auto simp: upd_vm_def intro: mem_step_machine map_step_trans)
qed

lemma call_execve_step [mem_steps]:
  assumes "call_execve alloc hc w v fa aa ea = Some w'"
  shows "mem_step w w'"
proof -
  obtain u w1 path w2 argv envp where r: "owner_vm w v LINKAGE_HINT_VM = Some u" "reclaim_virtual_memory w u = Some w1"
    "program_init alloc hc (set_hart v (flush_translation_cache (reset_registers (harts w1 v))) w1) u path = Some w2"
    "env_setup w2 u argv envp = Some w'"
    using assms by (auto simp: call_execve_def split: bind_splits if_splits)
  obtain vm where "vm_of w u = Some vm" "\<not> cloned_vm vm"
    using get_linked_vm_owner [OF r(1) [unfolded owner_vm_def]] r(2) by (auto simp: reclaim_virtual_memory_def split: bind_splits)
  with reclaim_virtual_memory_step [OF r(2)] have "mem_step w w1" by blast
  also note program_init_step [OF r(3), simplified]
  also note env_setup_step [OF r(4)]
  finally show ?thesis .
qed

subsection \<open>The scheduler\<close>

text \<open>
  The operations of the scheduler work on any extension of its record and leave what the
  processes add to it alone; those of \<open>wait4\<close> also keep the machine.
\<close>

lemma procs_more:
  fixes w w' :: "'os procs"
  assumes "world_machine w' = world_machine w" "world.more w' = world.more w"
  shows "mem_step w w'"
  using assms by (cases w; cases w') (simp add: mem_step_def fs_view_def)

lemma procs_sched_more:
  fixes w w' :: "'os procs"
  assumes "sched.more w' = sched.more w"
  shows "mem_step w w'"
  using assms by (cases w; cases w') (simp add: mem_step_def fs_view_def)

lemma sched_more_parts:
  "append_to l e s = Some s' \<Longrightarrow> sched.more s' = sched.more s" "delete_from l e s = Some s' \<Longrightarrow> sched.more s' = sched.more s"
  "fetch_from l s = Some (r, s') \<Longrightarrow> sched.more s' = sched.more s" "transit_state s t st = Some s' \<Longrightarrow> sched.more s' = sched.more s"
  "sched.more (upd_task t f s) = sched.more s" "sched.more (initialize_wait_queue_entry s n t) = sched.more s"
  by (auto simp: append_to_def delete_from_def fetch_from_def transit_state_def upd_task_def initialize_wait_queue_entry_def split: if_splits)

lemma sched_more_calls:
  "raw_task_wake_up s t = Some s' \<Longrightarrow> sched.more s' = sched.more s" "add_wait_queue_entry s t n = Some s' \<Longrightarrow> sched.more s' = sched.more s"
  "remove_wait_queue_entry s t n = Some s' \<Longrightarrow> sched.more s' = sched.more s" "unregister_task s v = Some s' \<Longrightarrow> sched.more s' = sched.more s"
  "register_task s v = Some s' \<Longrightarrow> sched.more s' = sched.more s" "schedule_task s t = Some s' \<Longrightarrow> sched.more s' = sched.more s"
  by (auto simp: raw_task_wake_up_def add_wait_queue_entry_def remove_wait_queue_entry_def unregister_task_def register_task_def
      schedule_task_def sched_more_parts(5) split: task_state.splits if_splits bind_splits dest: sched_more_parts(1-4))

lemma wake_up_loop_more: "wake_up_loop cur s = Some s' \<Longrightarrow> sched.more s' = sched.more s"
proof (induction rule: wake_up_loop.raw_induct [rotated, consumes 1])
  case (1 f cur s s')
  from 1(2) show ?case
    by (auto simp: Let_def split: option.splits sched_node.splits bind_splits dest!: 1(1) sched_more_calls(1))
qed

lemma do_exit_step [mem_steps]: "do_exit w t = Some w' \<Longrightarrow> mem_step w w'" for w :: "'os procs"
  by (rule procs_sched_more)
     (auto simp: do_exit_def wake_up_def sched_more_parts(5) split: bind_splits dest!: wake_up_loop_more sched_more_parts(4))

lemma world_more:
  fixes w w' :: "'z world_scheme"
  assumes "sched.more w' = sched.more w"
  shows "world_machine w' = world_machine w \<and> world.more w' = world.more w"
  using assms by (cases w; cases w') simp

lemma queue_wait_blob_more:
  "queue_wait_blob alloc w v c = Some w' \<Longrightarrow> world_machine w' = world_machine w \<and> world.more w' = world.more w"
  by (auto simp: queue_wait_blob_def Let_def split: bind_splits
      dest!: sched_more_parts(1) sched_more_calls(2) world_more simp: world_more [OF sched_more_parts(6)])

lemma wait4_scan_more:
  "wait4_scan alloc v vm pid opts cur ret w = Some res \<Longrightarrow>
     world_machine (snd (snd res)) = world_machine w \<and> world.more (snd (snd res)) = world.more w"
proof (induction rule: wait4_scan.raw_induct [rotated, consumes 1])
  case (1 f alloc v vm pid opts cur ret w res)
  from 1(2) show ?case
    by (auto simp: Let_def split: option.splits sched_node.splits if_splits bind_splits dest!: 1(1) queue_wait_blob_more)
qed

lemma wait4_reap_more:
  "wait4_reap v opts ret t w = Some res \<Longrightarrow>
     world_machine (snd (snd res)) = world_machine w \<and> world.more (snd (snd res)) = world.more w"
proof (induction rule: wait4_reap.raw_induct [rotated, consumes 1])
  case (1 f v opts ret t w res)
  from 1(2) show ?case
    by (auto simp: Let_def split: option.splits sched_node.splits bind_splits
        dest!: 1(1) sched_more_parts(3) sched_more_calls(3) world_more)
qed

lemma wait4_finish_more:
  assumes "wait4_finish v opts ret t w = Some (r, w')"
  shows "world_machine w' = world_machine w \<and> world.more w' = world.more w"
proof -
  obtain ret1 t1 w1 where r: "wait4_reap v opts ret t w = Some (ret1, t1, w1)"
    "(if 0 < sint ret1 then (case t1 of None \<Rightarrow> None | Some c \<Rightarrow> map_option (\<lambda>w2. (ret1, w2)) (unregister_task w1 c)) else Some (ret1, w1)) = Some (r, w')"
    using assms by (auto simp: wait4_finish_def split: bind_splits)
  from r(2) have "world_machine w' = world_machine w1 \<and> world.more w' = world.more w1"
    by (auto split: if_splits option.splits dest!: sched_more_calls(4) world_more)
  with wait4_reap_more [OF r(1)] show ?thesis by simp
qed

text \<open>A caller of \<open>wait4\<close> may sleep in between: then others run.\<close>

lemma call_wait4_step:
  fixes w :: "'os procs"
  assumes "call_wait4 alloc yield w v pid opts = Some (r, w')"
  shows "mem_step w w' \<or> (\<exists>w1 w2. mem_step w w1 \<and> yield w1 = Some w2 \<and> mem_step w2 w')"
proof -
  let ?w0 = "w\<lparr>links := list_init (links w) (Wait_blob_head (Task v))\<rparr>"
  obtain vm ret t w1 where s: "wait4_scan alloc v vm pid opts (list_next (links ?w0) global_task_list_head) (-1) ?w0 = Some (ret, t, w1)"
    and rest: "(if \<not> list_empty (links w1) (Wait_blob_head (Task v))
      then Option.bind (transit_state w1 (Task v) TASK_STATE_INTERRUPTIBLE) (\<lambda>w2. Option.bind (yield w2) (wait4_finish v opts ret t))
      else wait4_finish v opts ret t w1) = Some (r, w')"
    using assms by (auto simp: call_wait4_def Let_def split: option.splits bind_splits)
  have 1: "world_machine w1 = world_machine w" "world.more w1 = world.more w" using wait4_scan_more [OF s] by simp_all
  show ?thesis
  proof (cases "list_empty (links w1) (Wait_blob_head (Task v))")
    case True
    with rest wait4_finish_more [of v opts ret t w1 r w'] 1 show ?thesis by (auto intro: procs_more)
  next
    case False
    with rest obtain w2 w3 where y: "transit_state w1 (Task v) TASK_STATE_INTERRUPTIBLE = Some w2" "yield w2 = Some w3"
      "wait4_finish v opts ret t w3 = Some (r, w')" by (auto split: bind_splits)
    have "mem_step w w2" using world_more [OF sched_more_parts(4) [OF y(1)]] 1 by (auto intro: procs_more)
    moreover have "mem_step w3 w'" using wait4_finish_more [OF y(3)] by (auto intro: procs_more)
    ultimately show ?thesis using y(2) by blast
  qed
qed

subsection \<open>The relation\<close>

text \<open>
  File system calls other than \<open>chdir\<close> keep the directories and the address spaces. \<open>may w v n a\<close>
  restricts the calls of \<open>clone\<close> and \<open>chdir\<close>, which have the numbers 220 and 49, by their first argument.
\<close>

definition dir_view :: "'os procs \<Rightarrow> (vmptr \<rightharpoonup> virtual_machine) \<times> (vmptr \<Rightarrow> string) \<times> (vmptr \<Rightarrow> string)" where
  "dir_view w = (vms (world_machine w), fs_root w, fs_cwd w)"

lemma dir_view_parts [simp]:
  "dir_view (upd_file v i f w) = dir_view w" "dir_view (w\<lparr>os_state := os\<rparr>) = dir_view w"
  by (simp_all add: dir_view_def upd_file_def)

lemma dir_view_table:
  "allocate_file_descriptor w v = (r, w') \<Longrightarrow> dir_view w' = dir_view w"
  "deallocate_file_descriptor w v i = Some w' \<Longrightarrow> dir_view w' = dir_view w"
  "fill w p bs = Some w' \<Longrightarrow> dir_view w' = dir_view w"
  by (auto simp: allocate_file_descriptor_def deallocate_file_descriptor_def fill_def store_bytes_def
      split: option.splits if_splits bind_splits) (simp add: dir_view_def)

lemma dir_view_open:
  "do_openat hc w v dirfd path flags mode = Some (r, w') \<Longrightarrow> dir_view w' = dir_view w"
  "do_close hc w v fd = Some (r, w') \<Longrightarrow> dir_view w' = dir_view w"
  by (auto simp: do_openat_def do_close_def Let_def split: bind_splits if_splits prod.splits option.splits
      dest!: dir_view_table)

lemma dir_view_dup:
  "call_fnctl hc w v fd cmd opq = Some (r, w') \<Longrightarrow> dir_view w' = dir_view w"
  "call_dup hc w v fd = Some (r, w') \<Longrightarrow> dir_view w' = dir_view w"
  "call_dup3 hc w v fd fd' = Some (r, w') \<Longrightarrow> dir_view w' = dir_view w"
  by (auto simp: call_fnctl_def do_fcntl_duplicate_fd_def fcntl_on_fd_def do_fcntl_getfd_def do_fcntl_getfl_def do_fcntl_setfd_def
      call_dup_def call_dup3_def Let_def split: bind_splits if_splits prod.splits option.splits
      dest!: dir_view_table dir_view_open)

lemma dir_view_io:
  "call_openat hc w v dirfd a flags mode = Some (r, w') \<Longrightarrow> dir_view w' = dir_view w"
  "do_lseek hc w v fd off whence = Some (r, w') \<Longrightarrow> dir_view w' = dir_view w"
  "call_unlinkat hc w v dirfd a flags = Some (r, w') \<Longrightarrow> dir_view w' = dir_view w"
  "call_statx hc w v dirfd a flags msk b = Some (r, w') \<Longrightarrow> dir_view w' = dir_view w"
  "call_readlinkat hc w v dirfd a b n = Some (r, w') \<Longrightarrow> dir_view w' = dir_view w"
  "call_read hc w v fd a n = Some (r, w') \<Longrightarrow> dir_view w' = dir_view w"
  "call_write hc w v fd a n = Some (r, w') \<Longrightarrow> dir_view w' = dir_view w"
  "call_writev hc w v fd a n = Some (r, w') \<Longrightarrow> dir_view w' = dir_view w"
  "do_ioctl hc w v fd req a = Some (r, w') \<Longrightarrow> dir_view w' = dir_view w"
  "do_getdents64 hc w v fd a n = Some (r, w') \<Longrightarrow> dir_view w' = dir_view w"
  "call_sendfile hc w v fd' fd a n = Some (r, w') \<Longrightarrow> dir_view w' = dir_view w"
  "call_getcwd w v a n = Some (r, w') \<Longrightarrow> dir_view w' = dir_view w"
  by (auto simp: file_call_defs Let_def elim!: with_fd_elim with_host_path_elim
      split: bind_splits if_splits prod.splits dest!: dir_view_open dir_view_table)

lemmas dir_views = dir_view_open dir_view_dup dir_view_io

inductive kernel_step :: "'os sys_host \<Rightarrow> ('os procs \<Rightarrow> vmptr \<Rightarrow> nat \<Rightarrow> u32 \<Rightarrow> bool) \<Rightarrow> 'os procs \<Rightarrow> 'os procs \<Rightarrow> bool"
  for sh and may where
  memory: "mem_step w w' \<Longrightarrow> kernel_step sh may w w'"
| file_call: "file_step (sys_calls sh) w w' \<Longrightarrow> dir_view w' = dir_view w \<Longrightarrow> kernel_step sh may w w'"
| chdir: "may w v 49 a \<Longrightarrow> call_chdir w v a = Some (r, w') \<Longrightarrow> kernel_step sh may w w'"
| clone: "may w v 220 flags \<Longrightarrow> call_clone (sys_clone sh) (sys_calls sh) w v flags a1 a2 a3 a4 = Some (r, w') \<Longrightarrow> kernel_step sh may w w'"
| others: "sys_yield sh w = Some w' \<Longrightarrow> kernel_step sh may w w'"

definition sys_state :: "'os sys_result \<Rightarrow> 'os procs" where
  "sys_state r = (case r of Sys_return _ w \<Rightarrow> w | Sys_gone w \<Rightarrow> w)"

lemma sys_state_simps [simp]: "sys_state (Sys_return v w) = w" "sys_state (Sys_gone w) = w"
  by (simp_all add: sys_state_def)

text \<open>The handlers that change memory or nothing.\<close>

lemma on_machine_step: "on_machine w f = Some (r, w') \<Longrightarrow> (\<And>m' r. f (world_machine w) = Some (r, m') \<Longrightarrow> map_step (world_machine w) m') \<Longrightarrow> mem_step w w'"
  by (auto simp: on_machine_def intro: mem_step_machine)

lemma store_strings_step: "store_strings w p i ss = Some w' \<Longrightarrow> mem_step w w'"
proof (induction ss arbitrary: w i)
  case (Cons s ss)
  then show ?case by (auto split: bind_splits dest!: fill_step intro: mem_step_trans)
qed simp

lemma memory_calls_step:
  "call_mmap sh w v a0 a1 a2 a3 = Some (r, w') \<Longrightarrow> mem_step w w'"
  "call_munmap w v a0 a1 = Some (r, w') \<Longrightarrow> mem_step w w'"
  "on_machine w (\<lambda>m. call_brk ra m v a0) = Some (r, w') \<Longrightarrow> mem_step w w'"
  "call_uname w v a0 = Some (r, w') \<Longrightarrow> mem_step w w'"
  "call_set_tid_address w v a0 = Some (r, w') \<Longrightarrow> mem_step w w'"
  "native_field f w v = Some (r, w') \<Longrightarrow> mem_step w w'"
  "call_pselect w v a0 a1 a2 a3 = Some (r, w') \<Longrightarrow> mem_step w w'"
  by (auto simp del: store_strings.simps simp: call_mmap_def call_munmap_def call_uname_def call_set_tid_address_def native_field_def call_pselect_def
      split: bind_splits elim!: on_machine_step dest: do_mmap_step do_munmap_step call_brk_step store_strings_step)

lemma time_calls_step:
  "call_gettimeofday sh w v a0 a1 = Some (r, w') \<Longrightarrow> mem_step w w'"
  "call_clock_gettime sh w v a0 a1 = Some (r, w') \<Longrightarrow> mem_step w w'"
  "call_getrlimit sh w v a0 a1 = Some (r, w') \<Longrightarrow> mem_step w w'"
  by (auto simp: call_gettimeofday_def call_clock_gettime_def call_getrlimit_def Let_def
      split: bind_splits prod.splits if_splits dest!: fill_step intro: mem_step_trans)

lemma sys_value_Some: "sys_value r = Some res \<longleftrightarrow> (\<exists>v w. r = Some (v, w) \<and> res = Sys_return v w)"
  by (auto simp: sys_value_def)

text \<open>Every entry of the table.\<close>

lemmas constant_calls = call_getuid_def call_faccessat_def call_mprotect_def call_madvice_def call_set_robust_list_def
  call_sigaction_def call_sigprocmask_def call_kill_def call_sysinfo_def call_socket_def do_socket_def

lemmas forwarding_calls = call_ioctl_def call_close_def call_getdents64_def call_lseek_def call_exit_def call_exit_group_def
  call_getpid_def call_getppid_def call_getpgid_def

lemma memory_steps: "mem_step w w' \<Longrightarrow> rtranclp (kernel_step sh may) w w'"
  by (simp add: kernel_step.memory r_into_rtranclp)

lemma file_steps: "file_step (sys_calls sh) w w' \<Longrightarrow> dir_view w' = dir_view w \<Longrightarrow> rtranclp (kernel_step sh may) w w'"
  by (simp add: kernel_step.file_call r_into_rtranclp)

lemma clone_steps:
  "call_clone (sys_clone sh) (sys_calls sh) w v flags a1 a2 a3 a4 = Some (r, w') \<Longrightarrow> may w v 220 flags \<Longrightarrow> rtranclp (kernel_step sh may) w w'"
  by (rule r_into_rtranclp) (rule kernel_step.clone)

lemma chdir_steps: "call_chdir w v a = Some (r, w') \<Longrightarrow> may w v 49 a \<Longrightarrow> rtranclp (kernel_step sh may) w w'"
  by (rule r_into_rtranclp) (rule kernel_step.chdir)

lemma wait_steps:
  assumes "call_wait4 alloc (sys_yield sh) w v a0 a2 = Some (r, w')"
  shows "rtranclp (kernel_step sh may) w w'"
proof -
  consider "mem_step w w'" | w1 w2 where "mem_step w w1" "sys_yield sh w1 = Some w2" "mem_step w2 w'"
    using call_wait4_step [OF assms] by blast
  then show ?thesis
  proof cases
    case 2
    then have "kernel_step sh may w w1" "kernel_step sh may w1 w2" "kernel_step sh may w2 w'"
      by (auto intro: kernel_step.intros)
    then show ?thesis by (meson r_into_rtranclp rtranclp.rtrancl_into_rtrancl)
  qed (rule memory_steps)
qed

definition entry_ok :: "'os sys_host \<Rightarrow> ('os procs \<Rightarrow> vmptr \<Rightarrow> nat \<Rightarrow> u32 \<Rightarrow> bool) \<Rightarrow> nat \<times> 'os sys_handler \<Rightarrow> bool" where
  "entry_ok sh may e \<longleftrightarrow> (\<forall>w v a0 a1 a2 a3 a4 a5 res. snd e w v a0 a1 a2 a3 a4 a5 = Some res \<longrightarrow>
     may w v (fst e) a0 \<longrightarrow> rtranclp (kernel_step sh may) w (sys_state res))"

lemma entry_memory:
  "(\<And>w v a0 a1 a2 a3 a4 a5 r w'. f w v a0 a1 a2 a3 a4 a5 = Some (r, w') \<Longrightarrow> mem_step w w') \<Longrightarrow>
     entry_ok sh may (k, \<lambda>w v a0 a1 a2 a3 a4 a5. sys_value (f w v a0 a1 a2 a3 a4 a5))"
  by (auto simp: entry_ok_def sys_value_Some intro: memory_steps)

lemma entry_file:
  "(\<And>w v a0 a1 a2 a3 a4 a5 r w'. f w v a0 a1 a2 a3 a4 a5 = Some (r, w') \<Longrightarrow> file_step (sys_calls sh) w w' \<and> dir_view w' = dir_view w) \<Longrightarrow>
     entry_ok sh may (k, \<lambda>w v a0 a1 a2 a3 a4 a5. sys_value (f w v a0 a1 a2 a3 a4 a5))"
  by (auto simp: entry_ok_def sys_value_Some intro: file_steps)

lemma entry_gone:
  "(\<And>w v a0 a1 a2 a3 a4 a5 w'. f w v a0 a1 a2 a3 a4 a5 = Some w' \<Longrightarrow> mem_step w w') \<Longrightarrow>
     entry_ok sh may (k, \<lambda>w v a0 a1 a2 a3 a4 a5. map_option Sys_gone (f w v a0 a1 a2 a3 a4 a5))"
  by (auto simp: entry_ok_def intro: memory_steps)

lemma entry_constant: "entry_ok sh may (k, \<lambda>w v a0 a1 a2 a3 a4 a5. sys_value (Some (c, w)))"
  by (rule entry_memory) simp

lemma entry_chdir: "entry_ok sh may (49, \<lambda>w v a0 a1 a2 a3 a4 a5. sys_value (call_chdir w v a0))"
  by (auto simp: entry_ok_def sys_value_Some intro: chdir_steps)

lemma entry_clone:
  "entry_ok sh may (220, \<lambda>w v a0 a1 a2 a3 a4 a5. sys_value (call_clone (sys_clone sh) (sys_calls sh) w v a0 a1 a2 a3 a4))"
  by (auto simp: entry_ok_def sys_value_Some intro: clone_steps)

lemma entry_wait:
  "entry_ok sh may (k, \<lambda>w v a0 a1 a2 a3 a4 a5. sys_value (call_wait4 (sys_blobs sh) (sys_yield sh) w v a0 a2))"
  by (auto simp: entry_ok_def sys_value_Some intro: wait_steps)

lemma handlers_ok: "list_all (entry_ok sh may) (handlers sh)"
  unfolding handlers_def Let_def constant_calls forwarding_calls
  by (simp only: list.pred_inject; intro conjI TrueI;
      (rule entry_constant | rule entry_wait | rule entry_clone | rule entry_chdir |
       (rule entry_gone, erule do_exit_step call_execve_step) |
       (rule entry_file, rule conjI, erule file_step.intros, erule dir_views) |
       (rule entry_memory, erule memory_calls_step time_calls_step)))

lemma do_syscall_steps:
  assumes "do_syscall sh w v n a0 a1 a2 a3 a4 a5 = Some res" "may w v (unat n) a0"
  shows "rtranclp (kernel_step sh may) w (sys_state res)"
proof -
  obtain h where h: "map_of (handlers sh) (unat n) = Some h" "h w v a0 a1 a2 a3 a4 a5 = Some res"
    using assms(1) by (auto simp: do_syscall_def split: if_splits option.splits)
  then have "entry_ok sh may (unat n, h)" using handlers_ok [of sh may] by (auto simp: list_all_iff dest: map_of_SomeD)
  with h(2) assms(2) show ?thesis by (auto simp: entry_ok_def)
qed

end
