(* ===== verification/Kernel_Invariant.thy ===== *)
theory Kernel_Invariant
  imports Kernel_Step
begin

text \<open>
  Invariants of the processes under all system calls. \<open>procs_ok\<close>: every memory map is sorted and
  free of overlaps, every table of descriptors is well-formed and every open file has a path.
  \<open>jailed\<close>: every process that owns its directories has the root the sandbox was started with and a
  canonical working directory; two calls can break it and are excluded by \<open>jail_calls\<close>.
\<close>

definition maps_ok :: "machine \<Rightarrow> bool" where
  "maps_ok m \<longleftrightarrow> (\<forall>v vm. vms m v = Some vm \<longrightarrow> vm_wf vm)"

definition procs_ok :: "'os procs \<Rightarrow> bool" where
  "procs_ok w \<longleftrightarrow> fds_ok w \<and> regs_ok w \<and> maps_ok (world_machine w)"

lemma maps_ok_step: "map_step m m' \<Longrightarrow> maps_ok m \<Longrightarrow> maps_ok m'"
  using map_step_Some' by (fastforce simp: maps_ok_def)

lemma procs_ok_files:
  "files w' = files w \<Longrightarrow> fds_ok w' = fds_ok w" "files w' = files w \<Longrightarrow> regs_ok w' = regs_ok w" for w w' :: "'os procs"
  by (simp_all add: fds_ok_def regs_ok_def)

lemma mem_step_ok: "mem_step w w' \<Longrightarrow> procs_ok w \<Longrightarrow> procs_ok w'"
  using maps_ok_step procs_ok_files [of w' w] by (auto simp: mem_step_def procs_ok_def fs_view_def)

subsection \<open>Cloning\<close>

lemma maps_ok_set: "maps_ok m \<Longrightarrow> vm_wf vm \<Longrightarrow> maps_ok (set_vm v vm m)"
  by (simp add: maps_ok_def set_vm_def)

lemma maps_ok_upd: "maps_ok (world_machine w) \<Longrightarrow> (\<And>vm. vm_wf (f vm) = vm_wf vm) \<Longrightarrow> maps_ok (world_machine (upd_vm v f w))"
  by (auto simp: maps_ok_def upd_vm_def split: if_splits)

lemma zeroed_wf: "vm_wf zeroed_vm"
  by (simp add: zeroed_vm_def vm_wf_def live_regions_def)

lemma duplicate_regions_result:
  assumes "duplicate_regions alloc cvm idx k child m = Some (child', m')"
  shows "vms m' = vms m \<and> nr_pmr_ops child' = nr_pmr_ops child \<and> length (pmr_ops child') = length (pmr_ops child) \<and>
    cloned_fs child' = cloned_fs child \<and>
    (\<forall>i<length (pmr_ops child). addr_low (pmr_ops child' ! i) = addr_low ((if idx \<le> i \<and> i < idx + k then pmr_ops cvm else pmr_ops child) ! i) \<and>
       addr_high (pmr_ops child' ! i) = addr_high ((if idx \<le> i \<and> i < idx + k then pmr_ops cvm else pmr_ops child) ! i))"
  using assms
proof (induction k arbitrary: idx child m)
  case (Suc k)
  let ?len = "unat (scast (addr_high (pmr_ops cvm ! idx) - addr_low (pmr_ops cvm ! idx)) :: u64)"
  obtain b m1 where a: "preallocate_physical_memory alloc m ?len = (Some b, m1)"
    using Suc.prems by (auto simp: Let_def split: prod.splits option.splits)
  then obtain bytes m2 where b: "store_bytes m1 (Some b, 0) bytes = Some m2"
    "duplicate_regions alloc cvm (Suc idx) k (child\<lparr>pmr_ops := (pmr_ops child)[idx := (pmr_ops cvm ! idx)\<lparr>host_base := Some b\<rparr>],
       vma_heap := (if vma_heap cvm = Some idx then Some idx else vma_heap child),
       vma_stack := (if vma_stack cvm = Some idx then Some idx else vma_stack child)\<rparr>) m2 = Some (child', m')"
    using Suc.prems by (auto simp: Let_def split: bind_splits)
  have "vms m2 = vms m"
    using a b(1) by (auto simp: preallocate_physical_memory_def store_bytes_def split: option.splits if_splits bind_splits)
  moreover note Suc.IH [OF b(2)]
  moreover have "(Suc idx \<le> i \<and> i < Suc idx + k) \<longleftrightarrow> (idx \<le> i \<and> i < idx + Suc k) \<and> i \<noteq> idx" for i by auto
  ultimately show ?case by (auto simp: nth_list_update)
qed auto

lemma duplicate_wf:
  assumes "duplicate_regions alloc cvm 0 (nr_pmr_ops cvm) (child\<lparr>nr_pmr_ops := nr_pmr_ops cvm\<rparr>) m = Some (child', m')"
    and "vm_wf cvm" "length (pmr_ops child) = MAX_VMA_NR"
  shows "vm_wf child'"
proof -
  let ?n = "nr_pmr_ops cvm"
  have n: "?n \<le> MAX_VMA_NR" "length (pmr_ops cvm) = MAX_VMA_NR" using assms(2) by (simp_all add: vm_wf_def)
  have r: "nr_pmr_ops child' = ?n" "length (pmr_ops child') = MAX_VMA_NR"
    "\<forall>i<?n. addr_low (pmr_ops child' ! i) = addr_low (pmr_ops cvm ! i) \<and> addr_high (pmr_ops child' ! i) = addr_high (pmr_ops cvm ! i)"
    using duplicate_regions_result [OF assms(1)] assms(3) n by auto
  show ?thesis
    using assms(2) r n unfolding vm_wf_def live_regions_def all_set_conv_all_nth sorted_wrt_iff_nth_less by simp
qed

text \<open>The files of the child.\<close>

definition copied_file :: "file_desc \<Rightarrow> file_desc \<Rightarrow> bool" where
  "copied_file f g \<longleftrightarrow> (valid g \<longrightarrow> valid f \<and> fd_of g = fd_of f \<and> (regular f \<longrightarrow> regular g))"

lemma duplicate_files_copies:
  "duplicate_files hc cur idx k child os = Some (fs, os') \<Longrightarrow>
     length fs = length child \<and> (\<forall>i<length child. if idx \<le> i \<and> i < idx + k then copied_file (cur ! i) (fs ! i) else fs ! i = child ! i)"
proof (induction k arbitrary: idx child os)
  case (Suc k)
  obtain g os1 where g: "duplicate_files hc cur (Suc idx) k (child[idx := g]) os1 = Some (fs, os')" "copied_file (cur ! idx) g"
  proof (cases "valid (cur ! idx)")
    case True
    with Suc.prems that show thesis
      by (auto simp: Let_def copied_file_def regular_def split: FILE_TYPE.splits option.splits prod.splits)
  qed (use Suc.prems that in \<open>auto simp: Let_def copied_file_def\<close>)
  note IH = Suc.IH [OF g(1), unfolded length_list_update]
  have "if idx \<le> i \<and> i < idx + Suc k then copied_file (cur ! i) (fs ! i) else fs ! i = child ! i" if "i < length child" for i
    using IH [THEN conjunct2, rule_format, OF that] that g(2) by (cases "i = idx") (simp_all split: if_splits)
  with IH show ?case by blast
qed auto

lemma copied_files_ok:
  assumes "duplicate_files hc cur 0 MAX_FILES_NR child os = Some (fs, os')" "files_ok cur" "\<forall>f\<in>set cur. valid f \<longrightarrow> regular f" "length child = MAX_FILES_NR"
  shows "files_ok fs \<and> (\<forall>f\<in>set fs. valid f \<longrightarrow> regular f)"
proof -
  have c: "length fs = MAX_FILES_NR" "\<forall>i<MAX_FILES_NR. copied_file (cur ! i) (fs ! i)"
    using duplicate_files_copies [OF assms(1)] assms(4) by auto
  moreover have "\<forall>i<MAX_FILES_NR. valid (cur ! i) \<longrightarrow> regular (cur ! i)" using assms(2,3) by (simp add: files_ok_def)
  ultimately show ?thesis using assms(2) by (auto simp: files_ok_def copied_file_def in_set_conv_nth)
qed

text \<open>The parts of \<open>clone_task\<close>, up to steps of the scheduler.\<close>

lemma clone_elim:
  assumes "call_clone ch hc w v flags a1 a2 a3 a4 = Some (r, w')"
  obtains c cvm w0 wa wc w1 where "vm_of w v = Some cvm" "allocate_virtual_machine_descriptor ch w = Some (c, w0)"
    "task_vm_init ch (task_cpu_init ch (task_linkage_init w0 v cvm c flags) v c) v cvm c flags = Some wa"
    "task_files_init hc (task_fs_init wa v c flags) v c flags = Some wc" "task_threads_init wc c a1 flags a4 = Some w1" "mem_step w1 w'"
proof -
  obtain cvm c w0 w1 w2 where a: "vm_of w v = Some cvm" "allocate_virtual_machine_descriptor ch w = Some (c, w0)"
    "clone_parts ch hc w0 v cvm c a1 flags a4 = Some w1" "register_task w1 c = Some w2"
    "schedule_task (task_vmm_sched_init w2 (Task c) (ch_vmresume ch) (ch_hart ch c)) (Task c) = Some w'"
    using assms by (auto simp: call_clone_def clone_task_def split: bind_splits)
  have "sched.more w' = sched.more w1"
    using sched_more_calls(5) [OF a(4)] sched_more_calls(6) [OF a(5)]
    by (simp add: task_vmm_sched_init_def Let_def sched_more_parts(5))
  then have "mem_step w1 w'" by (rule procs_sched_more)
  with a that show thesis by (auto simp: clone_parts_def split: bind_splits)
qed

lemma procs_ok_fields [simp]:
  "procs_ok (w\<lparr>harts := hs\<rparr>) = procs_ok w" "procs_ok (w\<lparr>set_child_tid := t\<rparr>) = procs_ok w" "procs_ok (w\<lparr>links := l\<rparr>) = procs_ok w"
  "procs_ok (w\<lparr>tasks := ts\<rparr>) = procs_ok w" "procs_ok (w\<lparr>fs_root := rt\<rparr>) = procs_ok w" "procs_ok (w\<lparr>fs_cwd := c\<rparr>) = procs_ok w"
  "procs_ok (w\<lparr>gpid_counter := n\<rparr>) = procs_ok w" "procs_ok (w\<lparr>os_state := os\<rparr>) = procs_ok w"
  by (simp_all add: procs_ok_def fds_ok_def regs_ok_def)

lemma procs_ok_machine: "procs_ok w \<Longrightarrow> maps_ok m \<Longrightarrow> procs_ok (w\<lparr>world_machine := m\<rparr>)"
  by (simp add: procs_ok_def)

lemma procs_ok_upd: "procs_ok w \<Longrightarrow> (\<And>vm. vm_wf (f vm) = vm_wf vm) \<Longrightarrow> procs_ok (upd_vm v f w)"
  using maps_ok_upd [of w f v] by (simp add: procs_ok_def procs_ok_files [of "upd_vm v f w" w] upd_vm_def)

lemma procs_ok_table:
  "procs_ok w \<Longrightarrow> files_ok fs \<Longrightarrow> \<forall>f\<in>set fs. valid f \<longrightarrow> regular f \<Longrightarrow> procs_ok (w\<lparr>files := (files w)(c := fs)\<rparr>)"
  by (auto simp: procs_ok_def fds_ok_def regs_ok_def)

lemma allocate_vm_ok: "allocate_virtual_machine_descriptor ch w = Some (c, w0) \<Longrightarrow> procs_ok w \<Longrightarrow> procs_ok w0"
proof -
  assume a: "allocate_virtual_machine_descriptor ch w = Some (c, w0)" and ok: "procs_ok w"
  have "procs_ok (w\<lparr>world_machine := set_vm c zeroed_vm (world_machine w)\<rparr>)"
    using ok maps_ok_set [OF _ zeroed_wf] by (intro procs_ok_machine) (simp_all add: procs_ok_def)
  moreover have "files_ok (replicate MAX_FILES_NR cleared_file)" "\<forall>f\<in>set (replicate MAX_FILES_NR cleared_file). valid f \<longrightarrow> regular f"
    by (simp_all add: files_ok_def cleared_file_def)
  ultimately have "procs_ok (w\<lparr>world_machine := set_vm c zeroed_vm (world_machine w), files := (files w)(c := replicate MAX_FILES_NR cleared_file)\<rparr>)"
    using procs_ok_table [of "w\<lparr>world_machine := set_vm c zeroed_vm (world_machine w)\<rparr>"] by simp
  then show "procs_ok w0" using a by (auto simp: allocate_virtual_machine_descriptor_def)
qed

lemma reference_ok: "procs_ok w \<Longrightarrow> procs_ok (reference_task v w)"
  by (simp add: reference_task_def procs_ok_upd)

lemma linkage_ok: "procs_ok w \<Longrightarrow> procs_ok (task_linkage_init w cur cvm c flags)"
  by (simp add: task_linkage_init_def new_pid_def reference_ok procs_ok_upd)

lemma cpu_ok: "procs_ok w \<Longrightarrow> procs_ok (task_cpu_init ch w cur c)"
  by (simp add: task_cpu_init_def procs_ok_def fds_ok_def regs_ok_def)

lemma fs_init_ok: "procs_ok w \<Longrightarrow> procs_ok (task_fs_init w cur c flags)"
  by (simp add: task_fs_init_def reference_ok procs_ok_upd)

lemma vm_init_ok:
  assumes "task_vm_init ch w cur cvm c flags = Some w'" "procs_ok w" "vm_wf cvm"
  shows "procs_ok w'"
proof (cases "flags AND CLONE_VM \<noteq> 0")
  case False
  then obtain child child' m where d: "vm_of w c = Some child"
    "duplicate_regions (ch_block ch) cvm 0 (nr_pmr_ops cvm) (child\<lparr>nr_pmr_ops := nr_pmr_ops cvm\<rparr>) (world_machine w) = Some (child', m)"
    "w' = w\<lparr>world_machine := set_vm c child' m\<rparr>"
    using assms(1) by (auto simp: task_vm_init_def duplicate_virtual_memory_def split: bind_splits)
  have "length (pmr_ops child) = MAX_VMA_NR" using d(1) assms(2) by (auto simp: procs_ok_def maps_ok_def vm_wf_def)
  with duplicate_wf [OF d(2) assms(3)] have "vm_wf child'" by simp
  moreover have "maps_ok m" using duplicate_regions_result [OF d(2)] assms(2) by (simp add: procs_ok_def maps_ok_def)
  ultimately show ?thesis unfolding d(3) using assms(2) by (intro procs_ok_machine maps_ok_set)
qed (use assms in \<open>auto simp: task_vm_init_def intro!: reference_ok procs_ok_upd\<close>)

lemma files_init_ok:
  assumes "task_files_init hc w cur c flags = Some w'" "procs_ok w"
  shows "procs_ok w'"
proof (cases "flags AND CLONE_FILES \<noteq> 0")
  case False
  then obtain fs os where d: "duplicate_files hc (files w cur) 0 MAX_FILES_NR (files w c) (os_state w) = Some (fs, os)"
    "w' = w\<lparr>files := (files w)(c := fs), os_state := os\<rparr>" using assms(1) by (auto simp: task_files_init_def)
  have "files_ok (files w cur)" "\<forall>f\<in>set (files w cur). valid f \<longrightarrow> regular f" "length (files w c) = MAX_FILES_NR"
    using assms(2) by (auto simp: procs_ok_def fds_ok_def regs_ok_def files_ok_def)
  from copied_files_ok [OF d(1) this] show ?thesis unfolding d(2) using procs_ok_table [OF assms(2)] by simp
qed (use assms in \<open>auto simp: task_files_init_def intro!: reference_ok procs_ok_upd\<close>)

lemma threads_init_ok: "task_threads_init w c stack flags tid = Some w' \<Longrightarrow> procs_ok w \<Longrightarrow> procs_ok w'"
  by (auto simp: task_threads_init_def Let_def split: if_splits)

lemma call_clone_ok:
  assumes "call_clone ch hc w v flags a1 a2 a3 a4 = Some (r, w')" "procs_ok w"
  shows "procs_ok w'"
proof -
  obtain c cvm w0 wa wc w1 where p: "vm_of w v = Some cvm" "allocate_virtual_machine_descriptor ch w = Some (c, w0)"
    "task_vm_init ch (task_cpu_init ch (task_linkage_init w0 v cvm c flags) v c) v cvm c flags = Some wa"
    "task_files_init hc (task_fs_init wa v c flags) v c flags = Some wc" "task_threads_init wc c a1 flags a4 = Some w1" "mem_step w1 w'"
    by (rule clone_elim [OF assms(1)])
  have "vm_wf cvm" using p(1) assms(2) by (auto simp: procs_ok_def maps_ok_def)
  then have "procs_ok wa" using vm_init_ok [OF p(3)] cpu_ok linkage_ok allocate_vm_ok [OF p(2) assms(2)] by blast
  then show ?thesis
    using files_init_ok [OF p(4)] fs_init_ok threads_init_ok [OF p(5)] mem_step_ok [OF p(6)] by blast
qed

subsection \<open>All system calls\<close>

lemma kernel_step_ok:
  assumes "kernel_step sh may w w'" "procs_ok w" "\<And>u u'. sys_yield sh u = Some u' \<Longrightarrow> procs_ok u \<Longrightarrow> procs_ok u'"
  shows "procs_ok w'"
  using assms(1)
proof cases
  case memory
  with assms(2) show ?thesis by (rule mem_step_ok [rotated])
next
  case file_call
  with assms(2) file_step_keeps [of "sys_calls sh" w w'] file_step_regular [of "sys_calls sh" w w'] show ?thesis
    by (auto simp: procs_ok_def maps_ok_def dir_view_def)
next
  case (chdir v a r)
  with assms(2) show ?thesis by (auto simp: call_chdir_def split: bind_splits if_splits)
next
  case (clone v flags a1 a2 a3 a4 r)
  with assms(2) show ?thesis using call_clone_ok by blast
next
  case others
  with assms(2,3) show ?thesis by blast
qed

lemma kernel_steps_ok:
  assumes "rtranclp (kernel_step sh may) w w'" "procs_ok w" "\<And>u u'. sys_yield sh u = Some u' \<Longrightarrow> procs_ok u \<Longrightarrow> procs_ok u'"
  shows "procs_ok w'"
  using assms(1,2) by (induction rule: rtranclp_induct) (auto intro: kernel_step_ok assms(3))

subsection \<open>Roots and working directories\<close>

definition dir_at :: "'os procs \<Rightarrow> vmptr \<Rightarrow> bool option \<times> string \<times> string" where
  "dir_at w u = (map_option cloned_fs (vm_of w u), fs_root w u, fs_cwd w u)"

definition dir_ok :: "string list \<Rightarrow> bool option \<times> string \<times> string \<Rightarrow> bool" where
  "dir_ok rcs d \<longleftrightarrow> (case d of (shared, root, cwd) \<Rightarrow>
     shared = Some False \<longrightarrow> root = path_of rcs \<and> cwd_ok cwd \<and> length cwd < CWD_SIZE)"

definition jailed :: "string list \<Rightarrow> 'os procs \<Rightarrow> bool" where
  "jailed rcs w \<longleftrightarrow> (\<forall>u. dir_ok rcs (dir_at w u))"

text \<open>
  The two calls that are excluded: a clone by a process that shares its directories, unless the
  child shares them, too; and a change to a directory with a name of \<open>MAX_PATH\<close> characters or more.
\<close>

definition jail_calls :: "'os procs \<Rightarrow> vmptr \<Rightarrow> nat \<Rightarrow> u32 \<Rightarrow> bool" where
  "jail_calls w v n a \<longleftrightarrow>
     (n = 220 \<longrightarrow> a AND CLONE_FS \<noteq> 0 \<or> map_option cloned_fs (vm_of w v) = Some False) \<and>
     (n = 49 \<longrightarrow> (\<forall>p. user_string w v a = Some p \<longrightarrow> length p < MAX_PATH))"

definition fresh_vms :: "clone_host \<Rightarrow> bool" where
  "fresh_vms ch \<longleftrightarrow> (\<forall>ms c. ch_vm ch ms = Some c \<longrightarrow> ms c = None)"

lemma dir_at_map:
  assumes "map_step (world_machine w) (world_machine w')" "fs_root w' = fs_root w" "fs_cwd w' = fs_cwd w"
  shows "dir_at w' u = dir_at w u"
proof (cases "vm_of w u")
  case None
  with assms(1) [unfolded map_step_def, rule_format, of u] have "vm_of w' u = None" by (simp add: rel_option_None1)
  with None assms(2,3) show ?thesis by (simp add: dir_at_def)
next
  case (Some vm)
  then obtain vm' where "vm_of w' u = Some vm'" "vm_links vm' = vm_links vm" using map_step_Some [OF assms(1)] by blast
  with Some assms(2,3) vm_links_flags [of vm' vm] show ?thesis by (simp add: dir_at_def)
qed

lemma dir_at_mem: "mem_step w w' \<Longrightarrow> dir_at w' u = dir_at w u"
  by (auto simp: mem_step_def fs_view_def intro: dir_at_map)

lemma dir_at_upd: "(\<And>vm. cloned_fs (f vm) = cloned_fs vm) \<Longrightarrow> dir_at (upd_vm v f w) u = dir_at w u"
  by (simp add: dir_at_def upd_vm_def option.map_comp comp_def)

lemma dir_at_fields [simp]:
  "dir_at (w\<lparr>harts := hs\<rparr>) u = dir_at w u" "dir_at (w\<lparr>tasks := ts\<rparr>) u = dir_at w u" "dir_at (w\<lparr>links := l\<rparr>) u = dir_at w u"
  "dir_at (w\<lparr>set_child_tid := t\<rparr>) u = dir_at w u" "dir_at (w\<lparr>gpid_counter := n\<rparr>) u = dir_at w u" "dir_at (w\<lparr>files := fs\<rparr>) u = dir_at w u"
  "dir_at (w\<lparr>os_state := os\<rparr>) u = dir_at w u" "dir_at (reference_task v w) u = dir_at w u"
  by (simp_all add: dir_at_def) (simp add: reference_task_def upd_vm_def option.map_comp comp_def)

lemma dir_at_clone_parts:
  "dir_at (task_linkage_init w cur cvm c flags) u = dir_at w u" "dir_at (task_cpu_init ch w cur c) u = dir_at w u"
  "task_vm_init ch w cur cvm c flags = Some w' \<Longrightarrow> dir_at w' u = dir_at w u"
  "task_files_init hc w cur c flags = Some w' \<Longrightarrow> dir_at w' u = dir_at w u"
  "task_threads_init w c stack flags tid = Some w' \<Longrightarrow> dir_at w' u = dir_at w u"
proof -
  show "dir_at (task_linkage_init w cur cvm c flags) u = dir_at w u"
    by (simp add: task_linkage_init_def new_pid_def dir_at_upd)
  show "dir_at (task_cpu_init ch w cur c) u = dir_at w u" by (simp add: task_cpu_init_def dir_at_def)
  show "dir_at w' u = dir_at w u" if vm: "task_vm_init ch w cur cvm c flags = Some w'"
  proof (cases "flags AND CLONE_VM \<noteq> 0")
    case False
    then obtain child child' m where "vm_of w c = Some child"
      "duplicate_regions (ch_block ch) cvm 0 (nr_pmr_ops cvm) (child\<lparr>nr_pmr_ops := nr_pmr_ops cvm\<rparr>) (world_machine w) = Some (child', m)"
      "w' = w\<lparr>world_machine := set_vm c child' m\<rparr>"
      using vm by (auto simp: task_vm_init_def duplicate_virtual_memory_def split: bind_splits)
    with duplicate_regions_result [OF this(2)] show ?thesis by (simp add: dir_at_def set_vm_def)
  qed (use vm in \<open>auto simp: task_vm_init_def dir_at_upd\<close>)
  show "dir_at w' u = dir_at w u" if "task_files_init hc w cur c flags = Some w'"
    using that by (auto simp: task_files_init_def dir_at_upd split: if_splits)
  show "dir_at w' u = dir_at w u" if "task_threads_init w c stack flags tid = Some w'"
    using that by (auto simp: task_threads_init_def Let_def split: if_splits)
qed

lemma allocate_vm_dirs:
  "allocate_virtual_machine_descriptor ch w = Some (c, w0) \<Longrightarrow>
     ch_vm ch (vms (world_machine w)) = Some c \<and> dir_at w0 c = (Some False, [], []) \<and> (\<forall>u. u \<noteq> c \<longrightarrow> dir_at w0 u = dir_at w u)"
  by (auto simp: allocate_virtual_machine_descriptor_def dir_at_def set_vm_def zeroed_vm_def)

lemma fs_init_dirs:
  "u \<noteq> c \<Longrightarrow> dir_at (task_fs_init w cur c flags) u = dir_at w u"
  "flags AND CLONE_FS \<noteq> 0 \<Longrightarrow> dir_at (task_fs_init w cur c flags) c = (map_option (\<lambda>_. True) (fst (dir_at w c)), snd (dir_at w c))"
  "flags AND CLONE_FS = 0 \<Longrightarrow> dir_at (task_fs_init w cur c flags) c = (fst (dir_at w c), snd (dir_at w cur))"
  by (auto simp: task_fs_init_def dir_at_def reference_task_def upd_vm_def option.map_comp comp_def)

text \<open>The directories after a clone.\<close>

lemma clone_dirs:
  assumes "call_clone ch hc w v flags a1 a2 a3 a4 = Some (r, w')" "fresh_vms ch"
  obtains c where "vm_of w c = None" "\<forall>u. u \<noteq> c \<longrightarrow> dir_at w' u = dir_at w u" "vm_of w v \<noteq> None"
    "flags AND CLONE_FS \<noteq> 0 \<Longrightarrow> dir_at w' c = (Some True, [], [])"
    "flags AND CLONE_FS = 0 \<Longrightarrow> dir_at w' c = (Some False, snd (dir_at w v))"
proof -
  obtain c cvm w0 wa wc w1 where p: "vm_of w v = Some cvm" "allocate_virtual_machine_descriptor ch w = Some (c, w0)"
    "task_vm_init ch (task_cpu_init ch (task_linkage_init w0 v cvm c flags) v c) v cvm c flags = Some wa"
    "task_files_init hc (task_fs_init wa v c flags) v c flags = Some wc" "task_threads_init wc c a1 flags a4 = Some w1" "mem_step w1 w'"
    by (rule clone_elim [OF assms(1)])
  have c: "vm_of w c = None" "dir_at w0 c = (Some False, [], [])" "\<And>u. u \<noteq> c \<Longrightarrow> dir_at w0 u = dir_at w u"
    using allocate_vm_dirs [OF p(2)] assms(2) by (auto simp: fresh_vms_def)
  then have "v \<noteq> c" using p(1) by auto
  moreover have "dir_at w' u = dir_at (task_fs_init wa v c flags) u" "dir_at wa u = dir_at w0 u" for u
    using dir_at_clone_parts(3) [OF p(3), of u] dir_at_clone_parts(4) [OF p(4), of u]
      dir_at_clone_parts(5) [OF p(5), of u] dir_at_mem [OF p(6), of u] by (simp_all add: dir_at_clone_parts(1,2))
  ultimately show thesis using that [of c] p(1) c by (simp add: fs_init_dirs)
qed

lemma call_clone_jailed:
  assumes "call_clone ch hc w v flags a1 a2 a3 a4 = Some (r, w')" "fresh_vms ch" "jailed rcs w" "jail_calls w v 220 flags"
  shows "jailed rcs w'"
proof -
  obtain c where c: "\<forall>u. u \<noteq> c \<longrightarrow> dir_at w' u = dir_at w u" "flags AND CLONE_FS \<noteq> 0 \<Longrightarrow> dir_at w' c = (Some True, [], [])"
    "flags AND CLONE_FS = 0 \<Longrightarrow> dir_at w' c = (Some False, snd (dir_at w v))"
    by (rule clone_dirs [OF assms(1,2)]) blast
  have "dir_ok rcs (dir_at w' c)"
  proof (cases "flags AND CLONE_FS = 0")
    case True
    then have "fst (dir_at w v) = Some False" using assms(4) by (simp add: jail_calls_def dir_at_def)
    with assms(3) have "dir_ok rcs (Some False, snd (dir_at w v))" by (metis jailed_def prod.collapse)
    with c(3) [OF True] show ?thesis by simp
  qed (use c(2) in \<open>auto simp: dir_ok_def split: prod.splits\<close>)
  with c(1) assms(3) show ?thesis unfolding jailed_def by metis
qed

lemma call_chdir_jailed:
  assumes "call_chdir w v a = Some (r, w')" "jailed rcs w" "jail_calls w v 49 a"
  shows "jailed rcs w'"
proof -
  obtain u path cpath where p: "owner_vm w v LINKAGE_HINT_FS = Some u" "user_string w v a = Some path"
    "new_cwd (fs_cwd w u) path = Some cpath" "length cpath < CWD_SIZE" "w' = w\<lparr>fs_cwd := (fs_cwd w)(u := cpath)\<rparr>"
    using assms(1) by (auto simp: call_chdir_def split: bind_splits if_splits)
  obtain vm where "vm_of w u = Some vm" "\<not> cloned_fs vm" using get_linked_vm_owner [OF p(1) [unfolded owner_vm_def]] by auto
  then have ok: "fs_root w u = path_of rcs" "cwd_ok (fs_cwd w u)"
    using assms(2) [unfolded jailed_def, rule_format, of u] by (simp_all add: dir_ok_def dir_at_def)
  have "NUL \<notin> set path" using p(2) string_at_no_nul by (auto simp: user_string_def split: bind_splits)
  with new_cwd_ok [OF p(3) ok(2)] assms(3) p(2) have "cwd_ok cpath" by (simp add: jail_calls_def)
  with ok(1) p(4) have "dir_ok rcs (dir_at w' u)" by (simp add: p(5) dir_ok_def dir_at_def)
  moreover have "dir_at w' z = dir_at w z" if "z \<noteq> u" for z using that by (simp add: p(5) dir_at_def)
  ultimately show ?thesis using assms(2) unfolding jailed_def by metis
qed

lemma kernel_step_jailed:
  assumes "kernel_step sh jail_calls w w'" "jailed rcs w" "fresh_vms (sys_clone sh)"
    and "\<And>u u'. sys_yield sh u = Some u' \<Longrightarrow> jailed rcs u \<Longrightarrow> jailed rcs u'"
  shows "jailed rcs w'"
  using assms(1)
proof cases
  case memory
  with assms(2) show ?thesis by (simp add: jailed_def dir_at_mem)
next
  case file_call
  then have "dir_at w' u = dir_at w u" for u by (simp add: dir_view_def dir_at_def)
  with assms(2) show ?thesis by (simp add: jailed_def)
next
  case (chdir v a r)
  with assms(2) show ?thesis using call_chdir_jailed by blast
next
  case (clone v flags a1 a2 a3 a4 r)
  with assms(2,3) show ?thesis using call_clone_jailed by blast
qed (use assms(2,4) in blast)

lemma kernel_steps_jailed:
  assumes "rtranclp (kernel_step sh jail_calls) w w'" "jailed rcs w" "fresh_vms (sys_clone sh)"
    and "\<And>u u'. sys_yield sh u = Some u' \<Longrightarrow> jailed rcs u \<Longrightarrow> jailed rcs u'"
  shows "jailed rcs w'"
  using assms(1,2) by (induction rule: rtranclp_induct) (auto intro: kernel_step_jailed assms(3,4))

subsection \<open>Tasks that share their directories\<close>

text \<open>A task that shares its directories has none of its own: its descriptor is cleared and not filled in.\<close>

definition rootless :: "'os procs \<Rightarrow> bool" where
  "rootless w \<longleftrightarrow> (\<forall>u. fst (dir_at w u) = Some True \<longrightarrow> fst (snd (dir_at w u)) = [])"

lemma rootless_cong: "(\<And>u. dir_at w' u = dir_at w u) \<Longrightarrow> rootless w' = rootless w"
  by (simp add: rootless_def)

lemma rootless_shared: "rootless w \<Longrightarrow> vm_of w u = Some vm \<Longrightarrow> cloned_fs vm \<Longrightarrow> fs_root w u = []"
  unfolding rootless_def dir_at_def by (drule spec [of _ u]) simp

lemma rootless_none: "\<forall>u vm. vm_of w u = Some vm \<longrightarrow> \<not> cloned_fs vm \<Longrightarrow> rootless w"
  by (auto simp: rootless_def dir_at_def)

lemma kernel_step_rootless:
  assumes "kernel_step sh may w w'" "rootless w" "fresh_vms (sys_clone sh)"
    and "\<And>u u'. sys_yield sh u = Some u' \<Longrightarrow> rootless u \<Longrightarrow> rootless u'"
  shows "rootless w'"
  using assms(1)
proof cases
  case memory
  then show ?thesis using assms(2) rootless_cong [OF dir_at_mem] by blast
next
  case file_call
  then have "dir_at w' u = dir_at w u" for u by (simp add: dir_view_def dir_at_def)
  with assms(2) show ?thesis using rootless_cong by blast
next
  case (chdir v a r)
  then obtain d where "w' = w \<or> w' = w\<lparr>fs_cwd := d\<rparr>" by (auto simp: call_chdir_def split: bind_splits if_splits)
  with assms(2) show ?thesis by (auto simp: rootless_def dir_at_def)
next
  case (clone v flags a1 a2 a3 a4 r)
  then obtain c where c: "\<forall>u. u \<noteq> c \<longrightarrow> dir_at w' u = dir_at w u" "flags AND CLONE_FS \<noteq> 0 \<Longrightarrow> dir_at w' c = (Some True, [], [])"
    "flags AND CLONE_FS = 0 \<Longrightarrow> dir_at w' c = (Some False, snd (dir_at w v))"
    using assms(3) clone_dirs by metis
  have "fst (dir_at w' u) = Some True \<longrightarrow> fst (snd (dir_at w' u)) = []" for u
    using c assms(2) by (cases "u = c"; cases "flags AND CLONE_FS = 0") (auto simp: rootless_def)
  then show ?thesis by (simp add: rootless_def)
qed (use assms(2,4) in blast)

lemma kernel_steps_rootless:
  assumes "rtranclp (kernel_step sh may) w w'" "rootless w" "fresh_vms (sys_clone sh)"
    and "\<And>u u'. sys_yield sh u = Some u' \<Longrightarrow> rootless u \<Longrightarrow> rootless u'"
  shows "rootless w'"
  using assms(1,2) by (induction rule: rtranclp_induct) (auto intro: kernel_step_rootless assms(3,4))

end
