(* ===== verification/Boot_Invariant.thy ===== *)
theory Boot_Invariant
  imports App_Start Kernel_Invariant
begin

text \<open>
  The invariants of \<open>Kernel_Invariant\<close> hold when \<open>main\<close> has started the first process, and a switch of
  tasks keeps them. So they hold in every state that the guest reaches from the start by system
  calls, switches of tasks and its own instructions.
\<close>

subsection \<open>Switching tasks\<close>

lemma blocking_loop_more: "blocking_loop cur s = Some s' \<Longrightarrow> sched.more s' = sched.more s"
proof (induction rule: blocking_loop.raw_induct [rotated, consumes 1])
  case (1 f cur s s')
  from 1(2) show ?case
    by (auto simp: Let_def split: option.splits sched_node.splits task_state.splits bind_splits
        dest!: 1(1) sched_more_parts(2) sched_more_calls(6))
qed

lemma process_exiting_more: "process_exiting_list s = Some s' \<Longrightarrow> sched.more s' = sched.more s"
proof (induction rule: process_exiting_list.raw_induct [rotated, consumes 1])
  case (1 f s s')
  from 1(2) show ?case by (auto split: option.splits bind_splits dest!: 1(1) sched_more_parts(3))
qed

lemma process_running_more: "process_running_list s = Some res \<Longrightarrow> sched.more (snd res) = sched.more s"
proof (induction rule: process_running_list.raw_induct [rotated, consumes 1])
  case (1 f s res)
  from 1(2) show ?case
    by (auto split: option.splits sched_node.splits if_splits bind_splits dest!: 1(1) sched_more_parts(3) sched_more_calls(6))
qed

lemma userspace_trap_more: "userspace_trap_handler s cpu = Some (stack, s') \<Longrightarrow> sched.more s' = sched.more s"
  by (auto simp: userspace_trap_handler_def process_blocking_list_def Let_def sched_more_parts(5)
      split: option.splits bind_splits if_splits
      dest!: sched_more_calls(6) blocking_loop_more process_exiting_more process_running_more)

lemma switch_step: "userspace_trap_handler w cpu = Some (stack, w') \<Longrightarrow> mem_step w w'" for w :: "'os procs"
  by (rule procs_sched_more) (rule userspace_trap_more)

subsection \<open>The life of the processes\<close>

text \<open>
  The steps of the processes: a system call of any process, a switch of tasks, and the instructions
  of the guest, of which is used only that they touch harts and memory but no descriptor of a
  process. \<open>may\<close> restricts the calls by their number and first argument.
\<close>

inductive run_step :: "'os sys_host \<Rightarrow> ('os procs \<Rightarrow> vmptr \<Rightarrow> nat \<Rightarrow> u32 \<Rightarrow> bool) \<Rightarrow> 'os procs \<Rightarrow> 'os procs \<Rightarrow> bool"
  for sh and may where
  system_call: "may w v (unat n) a0 \<Longrightarrow> do_syscall sh w v n a0 a1 a2 a3 a4 a5 = Some res \<Longrightarrow> run_step sh may w (sys_state res)"
| switch: "userspace_trap_handler w cpu = Some (stack, w') \<Longrightarrow> run_step sh may w w'"
| guest: "vms m = vms (world_machine w) \<Longrightarrow> run_step sh may w (w\<lparr>world_machine := m, harts := hs\<rparr>)"

lemma run_step_kernel: "run_step sh may w w' \<Longrightarrow> rtranclp (kernel_step sh may) w w'"
proof (induction rule: run_step.induct)
  case (system_call w v n a0 a1 a2 a3 a4 a5 res)
  then show ?case by (auto intro: do_syscall_steps)
next
  case (switch w cpu stack w')
  then show ?case by (auto intro: kernel_step.memory switch_step)
next
  case (guest m w hs)
  then have "mem_step w (w\<lparr>world_machine := m, harts := hs\<rparr>)" by (simp add: mem_step_def map_step_same fs_view_def)
  then show ?case by (blast intro: kernel_step.memory)
qed

lemma run_steps_kernel: "rtranclp (run_step sh may) w w' \<Longrightarrow> rtranclp (kernel_step sh may) w w'"
  by (induction rule: rtranclp_induct) (auto dest: run_step_kernel intro: rtranclp_trans)

text \<open>
  What happens while a caller sleeps: steps of the other processes, which may sleep in turn, to any
  depth.
\<close>

inductive yields :: "('os procs \<Rightarrow> vmptr \<Rightarrow> nat \<Rightarrow> u32 \<Rightarrow> bool) \<Rightarrow> 'os sys_host \<Rightarrow> bool" for may where
  never: "(\<And>u. sys_yield sh u = None) \<Longrightarrow> yields may sh"
| nested: "yields may sh \<Longrightarrow> (\<And>u u'. yield u = Some u' \<Longrightarrow> rtranclp (run_step sh may) u u') \<Longrightarrow> yields may (sh\<lparr>sys_yield := yield\<rparr>)"

lemma yields_ok: "yields may sh \<Longrightarrow> sys_yield sh u = Some u' \<Longrightarrow> procs_ok u \<Longrightarrow> procs_ok u'"
proof (induction arbitrary: u u' rule: yields.induct)
  case (nested sh yield)
  then show ?case using kernel_steps_ok [OF run_steps_kernel [OF nested.hyps(2)]] by simp
qed simp

lemma yields_jailed:
  "yields jail_calls sh \<Longrightarrow> fresh_vms (sys_clone sh) \<Longrightarrow> sys_yield sh u = Some u' \<Longrightarrow> jailed rcs u \<Longrightarrow> jailed rcs u'"
proof (induction arbitrary: u u' rule: yields.induct)
  case (nested sh yield)
  then show ?case using kernel_steps_jailed [OF run_steps_kernel [OF nested.hyps(2)]] by simp
qed simp

lemma run_steps_ok: "rtranclp (run_step sh may) w w' \<Longrightarrow> yields may sh \<Longrightarrow> procs_ok w \<Longrightarrow> procs_ok w'"
  using kernel_steps_ok [OF run_steps_kernel] yields_ok by blast

lemma run_steps_jailed:
  "rtranclp (run_step sh jail_calls) w w' \<Longrightarrow> yields jail_calls sh \<Longrightarrow> fresh_vms (sys_clone sh) \<Longrightarrow> jailed rcs w \<Longrightarrow> jailed rcs w'"
  using kernel_steps_jailed [OF run_steps_kernel] yields_jailed by blast

lemma yields_rootless:
  "yields may sh \<Longrightarrow> fresh_vms (sys_clone sh) \<Longrightarrow> sys_yield sh u = Some u' \<Longrightarrow> rootless u \<Longrightarrow> rootless u'"
proof (induction arbitrary: u u' rule: yields.induct)
  case (nested sh yield)
  then show ?case using kernel_steps_rootless [OF run_steps_kernel [OF nested.hyps(2)]] by simp
qed simp

lemma run_steps_rootless:
  "rtranclp (run_step sh may) w w' \<Longrightarrow> yields may sh \<Longrightarrow> fresh_vms (sys_clone sh) \<Longrightarrow> rootless w \<Longrightarrow> rootless w'"
  using kernel_steps_rootless [OF run_steps_kernel] yields_rootless by blast

subsection \<open>The start\<close>

lemma add_breakpoints_vms: "add_breakpoints bps m = Some m' \<Longrightarrow> vms m' = vms m"
proof (induction bps arbitrary: m)
  case (Cons bp bps)
  then show ?case by (fastforce simp: add_breakpoint_def Let_def split: bind_splits if_splits)
qed simp

lemma breakpoints_step: "breakpoints_init env w = Some w' \<Longrightarrow> mem_step w w'"
  by (auto simp: breakpoints_init_def split: option.splits intro!: mem_step_machine map_step_same dest: add_breakpoints_vms)

text \<open>The parts of \<open>main\<close>; the last line is the scheduler alone.\<close>

lemma main_elim:
  assumes "main ch hc env w v argv cpu = Some (stack, w')"
  obtains path args w1 w2 w3 w4 w5 where "argv = hd argv # path # args"
    "program_init (ch_block ch) hc (cpu_init ch (clear_vm v w) v) v path = Some w1" "env_setup w1 v (path # args) [] = Some w2"
    "app_root_init env w2 v = Some w3" "vfs_init hc w3 v = Some w4" "breakpoints_init env (misc_init w4 v) = Some w5" "mem_step w5 w'"
proof -
  obtain path args w1 w2 w3 w4 w5 w6 w7 w8 where p: "argv = hd argv # path # args"
    "program_init (ch_block ch) hc (cpu_init ch (clear_vm v w) v) v path = Some w1" "env_setup w1 v (path # args) [] = Some w2"
    "app_root_init env w2 v = Some w3" "vfs_init hc w3 v = Some w4" "breakpoints_init env (misc_init w4 v) = Some w5"
    and s: "register_task w5 v = Some w6" "transit_state w6 (Task v) TASK_STATE_RUNNING = Some w7"
    "schedule_task (task_vmm_sched_init w7 (Task v) (ch_vmresume ch) (ch_hart ch v)) (Task v) = Some w8"
    "schedule_idle_task w8 cpu = Some (stack, w')"
    using assms by (auto simp: main_def application_sandbox_init_def split: list.splits bind_splits)
  have "sched.more w' = sched.more w5"
    using sched_more_calls(5) [OF s(1)] sched_more_parts(4) [OF s(2)] sched_more_calls(6) [OF s(3)]
      userspace_trap_more [OF s(4) [unfolded schedule_idle_task_def]]
    by (simp add: task_vmm_sched_init_def Let_def sched_more_parts(5))
  then have "mem_step w5 w'" by (rule procs_sched_more)
  with p that show thesis by blast
qed

lemma vfs_init_keeps:
  assumes "vfs_init hc w v = Some w'"
  shows "dir_view w' = dir_view w" "fds_ok w \<Longrightarrow> regs_ok w \<Longrightarrow> fds_ok w' \<and> regs_ok w'"
proof -
  obtain w0 w1 fd0 fd1 fd2 where p: "do_openat hc w v AT_FDCWD ''/dev/stdin'' 0 0 = Some (fd0, w0)"
    "do_openat hc w0 v AT_FDCWD ''/dev/stdout'' 1 0 = Some (fd1, w1)" "do_openat hc w1 v AT_FDCWD ''/dev/stderr'' 1 0 = Some (fd2, w')"
    using assms unfolding vfs_init_def by (auto split: bind_splits if_splits prod.splits)
  show "dir_view w' = dir_view w" using p [THEN dir_view_open(1)] by simp
  show "fds_ok w' \<and> regs_ok w'" if "fds_ok w" "regs_ok w"
    using that p [THEN do_openat_keeps] p [THEN do_openat_regular] by blast
qed

lemma clear_vm_ok: "procs_ok w \<Longrightarrow> procs_ok (cpu_init ch (clear_vm v w) v)"
proof -
  assume ok: "procs_ok w"
  let ?w = "w\<lparr>world_machine := set_vm v zeroed_vm (world_machine w)\<rparr>"
  have "procs_ok ?w" using ok maps_ok_set [OF _ zeroed_wf] by (intro procs_ok_machine) (simp_all add: procs_ok_def)
  then have "procs_ok (?w\<lparr>files := (files ?w)(v := replicate MAX_FILES_NR cleared_file)\<rparr>)"
    by (rule procs_ok_table) (simp_all add: files_ok_def cleared_file_def)
  then show "procs_ok (cpu_init ch (clear_vm v w) v)" by (simp add: clear_vm_def cpu_init_def)
qed

lemma misc_init_ok: "procs_ok w \<Longrightarrow> procs_ok (misc_init w v)"
proof -
  assume "procs_ok w"
  then have "procs_ok (upd_vm v (\<lambda>vm. vm\<lparr>vm_pid := p, vm_ppid := p, vm_tgid := p\<rparr>) (w\<lparr>gpid_counter := n\<rparr>))" for p n
    by (intro procs_ok_upd) (simp_all add: vm_wf_def live_regions_def)
  then show "procs_ok (misc_init w v)" by (simp add: misc_init_def new_pid_def Let_def)
qed

lemma main_ok:
  assumes "main ch hc env w v argv cpu = Some (stack, w')" "procs_ok w"
  shows "procs_ok w'"
proof -
  obtain path args w1 w2 w3 w4 w5 where p: "argv = hd argv # path # args"
    "program_init (ch_block ch) hc (cpu_init ch (clear_vm v w) v) v path = Some w1" "env_setup w1 v (path # args) [] = Some w2"
    "app_root_init env w2 v = Some w3" "vfs_init hc w3 v = Some w4" "breakpoints_init env (misc_init w4 v) = Some w5" "mem_step w5 w'"
    by (rule main_elim [OF assms(1)])
  have "procs_ok w2"
    using mem_step_ok [OF program_init_step [OF p(2)] clear_vm_ok [OF assms(2)]] mem_step_ok [OF env_setup_step [OF p(3)]] by blast
  then have "procs_ok w3" using p(4) by (auto simp: app_root_init_def split: option.splits if_splits)
  then have "procs_ok w4" using vfs_init_keeps [OF p(5)] by (auto simp: procs_ok_def maps_ok_def dir_view_def)
  then show ?thesis using mem_step_ok [OF breakpoints_step [OF p(6)] misc_init_ok] mem_step_ok [OF p(7)] by blast
qed

lemma clear_vm_dirs:
  "dir_at (cpu_init ch (clear_vm v w) v) u = (if u = v then (Some False, [], []) else dir_at w u)"
  by (simp add: clear_vm_def cpu_init_def dir_at_def set_vm_def zeroed_vm_def)

lemma misc_init_dirs: "dir_at (misc_init w v) u = (if u = v then (fst (dir_at w v), fs_root w v, ''/'') else dir_at w u)"
  by (auto simp: misc_init_def new_pid_def Let_def dir_at_def upd_vm_def option.map_comp comp_def)

lemma main_jailed:
  assumes "main ch hc env w v argv cpu = Some (stack, w')" "jailed rcs w" "env_ROOT env = Some (path_of rcs)"
  shows "jailed rcs w'"
proof -
  obtain path args w1 w2 w3 w4 w5 where p: "argv = hd argv # path # args"
    "program_init (ch_block ch) hc (cpu_init ch (clear_vm v w) v) v path = Some w1" "env_setup w1 v (path # args) [] = Some w2"
    "app_root_init env w2 v = Some w3" "vfs_init hc w3 v = Some w4" "breakpoints_init env (misc_init w4 v) = Some w5" "mem_step w5 w'"
    by (rule main_elim [OF assms(1)])
  have 2: "dir_at w2 u = (if u = v then (Some False, [], []) else dir_at w u)" for u
    using dir_at_mem [OF program_init_step [OF p(2)], of u] dir_at_mem [OF env_setup_step [OF p(3)], of u] clear_vm_dirs [of ch v w u] by simp
  have "w3 = w2\<lparr>fs_root := (fs_root w2)(v := path_of rcs)\<rparr>" using p(4) assms(3) by (auto simp: app_root_init_def split: if_splits)
  then have 3: "dir_at w3 u = (if u = v then (Some False, path_of rcs, []) else dir_at w u)" for u
    using 2 [of u] by (auto simp: dir_at_def)
  have 4: "dir_at w4 u = dir_at w3 u" for u using vfs_init_keeps(1) [OF p(5)] by (simp add: dir_view_def dir_at_def)
  then have root: "fs_root w4 v = path_of rcs" using 3 [of v] by (simp add: dir_at_def)
  have "dir_at w' u = dir_at (misc_init w4 v) u" for u
    using dir_at_mem [OF breakpoints_step [OF p(6)], of u] dir_at_mem [OF p(7), of u] by simp
  then have "dir_at w' u = (if u = v then (Some False, path_of rcs, ''/'') else dir_at w u)" for u
    using misc_init_dirs [of w4 v u] 3 4 root by simp
  moreover have "dir_ok rcs (Some False, path_of rcs, ''/'')"
    by (simp add: dir_ok_def cwd_ok_def CWD_SIZE_def exI [of _ "[]"])
  ultimately show ?thesis using assms(2) by (simp add: jailed_def)
qed

lemma reachable_invariants:
  assumes "main ch hc env w v argv cpu = Some (stack, w1)" "procs_ok w" "jailed rcs w" "env_ROOT env = Some (path_of rcs)"
    and "fresh_vms (sys_clone sh)" "yields jail_calls sh" "rtranclp (run_step sh jail_calls) w1 w'"
  shows "procs_ok w'" "jailed rcs w'"
  using run_steps_ok [OF assms(7,6) main_ok [OF assms(1,2)]] run_steps_jailed [OF assms(7,6,5) main_jailed [OF assms(1,3,4)]] by blast+

lemma jailed_owner:
  assumes "jailed rcs w" "owner_vm w u LINKAGE_HINT_FS = Some d"
  shows "fs_root w d = path_of rcs" "cwd_ok (fs_cwd w d)" "length (fs_cwd w d) < CWD_SIZE"
proof -
  obtain vm where "vm_of w d = Some vm" "\<not> cloned_fs vm" using get_linked_vm_owner [OF assms(2) [unfolded owner_vm_def]] by auto
  with assms(1) [unfolded jailed_def, rule_format, of d]
  show "fs_root w d = path_of rcs" "cwd_ok (fs_cwd w d)" "length (fs_cwd w d) < CWD_SIZE" by (simp_all add: dir_ok_def dir_at_def)
qed

end
