(* ===== verification/Task_Family.thy ===== *)
theory Task_Family
  imports Boot_Invariant
begin

text \<open>
  Parents and shared resources. A task that was cloned with a sharing flag uses the resource of its
  parent, and \<open>get_linked_vm\<close> follows the parents up to the task that owns the resource. The chain of
  parents is finite in every state that is reached from one in which no task shares anything, so that
  the loop ends and its \<open>ASSERT\<close> on the parent never fails.
\<close>

subsection \<open>The owner of a resource\<close>

text \<open>What a hint asks for, and the task that a task shares it with.\<close>

definition shares_with :: "(vmptr \<rightharpoonup> virtual_machine) \<Rightarrow> linkage_hint \<Rightarrow> vmptr \<Rightarrow> vmptr \<Rightarrow> bool" where
  "shares_with ms hint p q \<longleftrightarrow> (\<exists>vm. ms p = Some vm \<and> parent_vm vm = Some q \<and>
     (hint = LINKAGE_HINT_VM \<and> cloned_vm vm \<or> hint = LINKAGE_HINT_FILES \<and> cloned_files vm \<or> hint = LINKAGE_HINT_FS \<and> cloned_fs vm))"

definition owns :: "(vmptr \<rightharpoonup> virtual_machine) \<Rightarrow> linkage_hint \<Rightarrow> vmptr \<Rightarrow> bool" where
  "owns ms hint q \<longleftrightarrow> (\<exists>vm. ms q = Some vm \<and> (hint = LINKAGE_HINT_VM \<longrightarrow> \<not> cloned_vm vm) \<and>
     (hint = LINKAGE_HINT_FILES \<longrightarrow> \<not> cloned_files vm) \<and> (hint = LINKAGE_HINT_FS \<longrightarrow> \<not> cloned_fs vm))"

lemma linked_step: "shares_with ms hint p q \<Longrightarrow> get_linked_vm ms p hint = get_linked_vm ms q hint"
  by (subst get_linked_vm.simps) (auto simp: shares_with_def)

lemma linked_owner: "owns ms hint q \<Longrightarrow> get_linked_vm ms q hint = Some q"
  by (subst get_linked_vm.simps) (cases hint; auto simp: owns_def)

text \<open>The loop finds the owner at the end of the chain, and nothing else.\<close>

lemma linked_sound:
  assumes "get_linked_vm ms p hint = Some q"
  shows "rtranclp (shares_with ms hint) p q \<and> owns ms hint q"
  using assms
proof (induction rule: get_linked_vm.raw_induct [rotated, consumes 1])
  case (1 f ms p hint q)
  from 1(2) obtain vm where vm: "ms p = Some vm" by (auto split: option.splits)
  show ?case
  proof (cases "should_go hint vm")
    case True
    with 1(2) vm obtain r where r: "parent_vm vm = Some r" "f ms r hint = Some q" by (auto split: option.splits)
    have "shares_with ms hint p r" using True vm r(1) by (cases hint) (auto simp: shares_with_def)
    with 1(1) [OF r(2)] show ?thesis by (metis converse_rtranclp_into_rtranclp)
  next
    case False
    with 1(2) vm have "q = p" by simp
    moreover have "owns ms hint p" using False vm by (cases hint) (auto simp: owns_def)
    ultimately show ?thesis by simp
  qed
qed

lemma linked_iff: "get_linked_vm ms p hint = Some q \<longleftrightarrow> rtranclp (shares_with ms hint) p q \<and> owns ms hint q"
proof
  assume "rtranclp (shares_with ms hint) p q \<and> owns ms hint q"
  then have "rtranclp (shares_with ms hint) p q" "get_linked_vm ms q hint = Some q" using linked_owner by blast+
  then show "get_linked_vm ms p hint = Some q"
    by (induction rule: converse_rtranclp_induct) (simp_all add: linked_step)
qed (rule linked_sound)

subsection \<open>The chain of parents\<close>

definition kin_at :: "'os procs \<Rightarrow> vmptr \<Rightarrow> (vmptr option \<times> bool) option" where
  "kin_at w u = map_option (\<lambda>vm. (parent_vm vm, cloned_vm vm \<or> cloned_fs vm \<or> cloned_files vm)) (vm_of w u)"

definition kin_ok :: "'os procs \<Rightarrow> bool" where
  "kin_ok w \<longleftrightarrow> (\<exists>rank :: vmptr \<Rightarrow> nat. \<forall>u p. kin_at w u = Some (p, True) \<longrightarrow>
     (\<exists>q. p = Some q \<and> kin_at w q \<noteq> None \<and> rank q < rank u))"

lemma kin_ok_cong: "(\<And>u. kin_at w' u = kin_at w u) \<Longrightarrow> kin_ok w' = kin_ok w"
  by (simp add: kin_ok_def)

lemma kin_ok_none: "\<forall>u vm. vm_of w u = Some vm \<longrightarrow> \<not> cloned_vm vm \<and> \<not> cloned_fs vm \<and> \<not> cloned_files vm \<Longrightarrow> kin_ok w"
  by (auto simp: kin_ok_def kin_at_def)

lemma kin_ok_found:
  assumes "kin_ok w" "vm_of w u \<noteq> None"
  shows "\<exists>q. get_linked_vm (vms (world_machine w)) u hint = Some q"
proof -
  obtain rank :: "vmptr \<Rightarrow> nat" where rank: "\<forall>u p. kin_at w u = Some (p, True) \<longrightarrow> (\<exists>q. p = Some q \<and> kin_at w q \<noteq> None \<and> rank q < rank u)"
    using assms(1) by (auto simp: kin_ok_def)
  have "parents_ranked (vms (world_machine w)) hint rank"
    unfolding parents_ranked_def
  proof (intro allI impI)
    fix p vm
    assume vm: "vm_of w p = Some vm" "should_go hint vm"
    then have "kin_at w p = Some (parent_vm vm, True)" by (cases hint) (auto simp: kin_at_def)
    with rank show "\<exists>q. parent_vm vm = Some q \<and> vm_of w q \<noteq> None \<and> rank q < rank p" by (auto simp: kin_at_def)
  qed
  with assms(2) show ?thesis using get_linked_vm_terminates by blast
qed

lemma vm_links_parent: "vm_links vm = vm_links vm' \<Longrightarrow> parent_vm vm = parent_vm vm'"
  by (cases vm, cases vm') (simp add: vm_links_def)

lemma kin_at_map:
  assumes "map_step (world_machine w) (world_machine w')"
  shows "kin_at w' u = kin_at w u"
  using assms [unfolded map_step_def, rule_format, of u]
proof cases
  case (Some vm vm')
  with vm_links_flags [of vm' vm] vm_links_parent [of vm' vm] show ?thesis by (simp add: kin_at_def)
qed (simp add: kin_at_def)

lemma kin_at_mem: "mem_step w w' \<Longrightarrow> kin_at w' u = kin_at w u"
  by (auto simp: mem_step_def intro: kin_at_map)

lemma kin_at_upd:
  "(\<And>vm. parent_vm (f vm) = parent_vm vm \<and> cloned_vm (f vm) = cloned_vm vm \<and> cloned_fs (f vm) = cloned_fs vm \<and> cloned_files (f vm) = cloned_files vm) \<Longrightarrow>
   kin_at (upd_vm v f w) u = kin_at w u"
  "u \<noteq> v \<Longrightarrow> kin_at (upd_vm v f w) u = kin_at w u"
  by (simp_all add: kin_at_def upd_vm_def option.map_comp comp_def)

lemma kin_at_reference [simp]: "kin_at (reference_task v w) u = kin_at w u"
  by (simp add: reference_task_def kin_at_upd(1))

text \<open>The parts of a clone change the child only, and its parent is the caller.\<close>

definition child_of :: "'os procs \<Rightarrow> vmptr \<Rightarrow> vmptr \<Rightarrow> bool" where
  "child_of w c v \<longleftrightarrow> (\<exists>vm. vm_of w c = Some vm \<and> parent_vm vm = Some v)"

lemma child_of_upd:
  "(\<And>vm. parent_vm (f vm) = parent_vm vm) \<Longrightarrow> child_of (upd_vm u f w) c v = child_of w c v"
  by (auto simp: child_of_def upd_vm_def)

lemma kin_parts:
  assumes "u \<noteq> c"
  shows "kin_at (task_linkage_init w cur cvm c flags) u = kin_at w u" "kin_at (task_cpu_init ch w cur c) u = kin_at w u"
    "task_vm_init ch w cur cvm c flags = Some w' \<Longrightarrow> kin_at w' u = kin_at w u" "kin_at (task_fs_init w cur c flags) u = kin_at w u"
    "task_files_init hc w cur c flags = Some w' \<Longrightarrow> kin_at w' u = kin_at w u"
    "task_threads_init w c stack flags tid = Some w' \<Longrightarrow> kin_at w' u = kin_at w u"
proof -
  note new = kin_at_upd(2) [OF assms]
  show "kin_at (task_linkage_init w cur cvm c flags) u = kin_at w u"
    by (simp add: task_linkage_init_def new_pid_def new) (simp add: kin_at_def)
  show "kin_at (task_cpu_init ch w cur c) u = kin_at w u" by (simp add: task_cpu_init_def kin_at_def)
  show "kin_at (task_fs_init w cur c flags) u = kin_at w u" by (simp add: task_fs_init_def new) (simp add: kin_at_def)
  show "kin_at w' u = kin_at w u" if vm: "task_vm_init ch w cur cvm c flags = Some w'"
  proof (cases "flags AND CLONE_VM \<noteq> 0")
    case False
    then obtain child child' m where
      "duplicate_regions (ch_block ch) cvm 0 (nr_pmr_ops cvm) (child\<lparr>nr_pmr_ops := nr_pmr_ops cvm\<rparr>) (world_machine w) = Some (child', m)"
      "w' = w\<lparr>world_machine := set_vm c child' m\<rparr>"
      using vm by (auto simp: task_vm_init_def duplicate_virtual_memory_def split: bind_splits)
    with duplicate_regions_result [OF this(1)] assms show ?thesis by (simp add: kin_at_def set_vm_def)
  qed (use vm in \<open>auto simp: task_vm_init_def new\<close>)
  show "kin_at w' u = kin_at w u" if "task_files_init hc w cur c flags = Some w'"
    using that by (auto simp: task_files_init_def new split: if_splits) (simp add: kin_at_def)
  show "kin_at w' u = kin_at w u" if "task_threads_init w c stack flags tid = Some w'"
    using that by (auto simp: task_threads_init_def Let_def kin_at_def split: if_splits)
qed

lemma kin_at_parent: "child_of w c v \<longleftrightarrow> (\<exists>b. kin_at w c = Some (Some v, b))"
  by (auto simp: child_of_def kin_at_def)

lemma duplicate_parent: "duplicate_regions alloc cvm idx k child m = Some (child', m') \<Longrightarrow> parent_vm child' = parent_vm child"
  by (induction k arbitrary: idx child m) (auto simp: Let_def split: prod.splits option.splits bind_splits)

lemma child_parts:
  "child_of w c cur \<Longrightarrow> child_of (task_cpu_init ch w cur' c') c cur"
  "task_vm_init ch w cur' cvm c flags = Some w' \<Longrightarrow> child_of w c cur \<Longrightarrow> child_of w' c cur"
  "child_of w c cur \<Longrightarrow> child_of (task_fs_init w cur' c flags) c cur"
  "task_files_init hc w cur' c flags = Some w' \<Longrightarrow> child_of w c cur \<Longrightarrow> child_of w' c cur"
  "task_threads_init w c stack flags tid = Some w' \<Longrightarrow> child_of w c cur \<Longrightarrow> child_of w' c cur"
proof -
  have ref: "child_of (reference_task u w) c cur = child_of w c cur" for u and w :: "'a procs"
    by (simp add: reference_task_def child_of_upd)
  show "child_of w c cur \<Longrightarrow> child_of (task_cpu_init ch w cur' c') c cur" by (simp add: task_cpu_init_def child_of_def)
  show "child_of w c cur \<Longrightarrow> child_of (task_fs_init w cur' c flags) c cur"
    by (simp add: task_fs_init_def ref child_of_upd) (simp add: child_of_def)
  show "child_of w' c cur" if "task_vm_init ch w cur' cvm c flags = Some w'" "child_of w c cur"
  proof (cases "flags AND CLONE_VM \<noteq> 0")
    case False
    with that show ?thesis
      by (auto simp: task_vm_init_def duplicate_virtual_memory_def child_of_def set_vm_def split: bind_splits dest!: duplicate_parent)
  qed (use that in \<open>auto simp: task_vm_init_def ref child_of_upd\<close>)
  show "child_of w' c cur" if "task_files_init hc w cur' c flags = Some w'" "child_of w c cur"
    using that by (auto simp: task_files_init_def ref child_of_upd split: if_splits) (simp add: child_of_def)
  show "child_of w' c cur" if "task_threads_init w c stack flags tid = Some w'" "child_of w c cur"
    using that by (auto simp: task_threads_init_def Let_def child_of_def split: if_splits)
qed

lemma clone_kin:
  assumes "call_clone ch hc w v flags a1 a2 a3 a4 = Some (r, w')" "fresh_vms ch"
  obtains c where "vm_of w c = None" "\<forall>u. u \<noteq> c \<longrightarrow> kin_at w' u = kin_at w u" "vm_of w v \<noteq> None" "child_of w' c v"
proof -
  obtain c cvm w0 wa wc w1 where p: "vm_of w v = Some cvm" "allocate_virtual_machine_descriptor ch w = Some (c, w0)"
    "task_vm_init ch (task_cpu_init ch (task_linkage_init w0 v cvm c flags) v c) v cvm c flags = Some wa"
    "task_files_init hc (task_fs_init wa v c flags) v c flags = Some wc" "task_threads_init wc c a1 flags a4 = Some w1" "mem_step w1 w'"
    by (rule clone_elim [OF assms(1)])
  have c: "vm_of w c = None" using allocate_vm_dirs [OF p(2)] assms(2) by (auto simp: fresh_vms_def)
  have w0: "kin_at w0 u = kin_at w u" if "u \<noteq> c" for u
    using p(2) that by (auto simp: allocate_virtual_machine_descriptor_def kin_at_def set_vm_def)
  have "vm_of w0 c \<noteq> None" "c \<noteq> v" using p(1,2) c by (auto simp: allocate_virtual_machine_descriptor_def set_vm_def)
  then have "child_of (task_linkage_init w0 v cvm c flags) c v"
    by (auto simp: task_linkage_init_def new_pid_def reference_task_def child_of_def upd_vm_def)
  then have "child_of w1 c v"
    using child_parts(2) [OF p(3) child_parts(1)] child_parts(4) [OF p(4) child_parts(3)] child_parts(5) [OF p(5)] by blast
  then have "child_of w' c v" using kin_at_mem [OF p(6), of c] by (simp add: kin_at_parent)
  moreover have "kin_at w' u = kin_at w u" if "u \<noteq> c" for u
    using kin_at_mem [OF p(6), of u] kin_parts(6) [OF that p(5)] kin_parts(5) [OF that p(4)] kin_parts(3) [OF that p(3)]
      w0 [OF that] by (simp add: kin_parts(1,2,4) [OF that])
  ultimately show thesis using that c p(1) by blast
qed

lemma kin_ok_clone:
  assumes "call_clone ch hc w v flags a1 a2 a3 a4 = Some (r, w')" "fresh_vms ch" "kin_ok w"
  shows "kin_ok w'"
proof -
  obtain c where c: "vm_of w c = None" "\<forall>u. u \<noteq> c \<longrightarrow> kin_at w' u = kin_at w u" "vm_of w v \<noteq> None" "child_of w' c v"
    by (rule clone_kin [OF assms(1,2)])
  obtain rank :: "vmptr \<Rightarrow> nat" where rank: "\<And>u p. kin_at w u = Some (p, True) \<Longrightarrow> \<exists>q. p = Some q \<and> kin_at w q \<noteq> None \<and> rank q < rank u"
    using assms(3) by (auto simp: kin_ok_def)
  have none: "kin_at w c = None" "kin_at w v \<noteq> None" using c(1,3) by (simp_all add: kin_at_def)
  have "\<exists>q. p = Some q \<and> kin_at w' q \<noteq> None \<and> (rank(c := Suc (rank v))) q < (rank(c := Suc (rank v))) u"
    if "kin_at w' u = Some (p, True)" for u p
  proof (cases "u = c")
    case True
    with that c(2,4) none show ?thesis by (auto simp: kin_at_parent)
  next
    case False
    with that c(2) rank [of u p] none(1) show ?thesis by fastforce
  qed
  then show ?thesis unfolding kin_ok_def by blast
qed

lemma kernel_steps_kin:
  assumes "rtranclp (kernel_step sh may) w w'" "kin_ok w" "fresh_vms (sys_clone sh)"
    and "\<And>u u'. sys_yield sh u = Some u' \<Longrightarrow> kin_ok u \<Longrightarrow> kin_ok u'"
  shows "kin_ok w'"
  using assms(1,2)
proof (induction rule: rtranclp_induct)
  case (step a b)
  then have a: "kin_ok a" by simp
  from step.hyps(2) show ?case
  proof cases
    case memory
    with a show ?thesis using kin_ok_cong [OF kin_at_mem] by blast
  next
    case file_call
    then have "kin_at b u = kin_at a u" for u by (simp add: dir_view_def kin_at_def)
    with a show ?thesis using kin_ok_cong by blast
  next
    case (chdir v x r)
    then have "kin_at b u = kin_at a u" for u by (auto simp: call_chdir_def kin_at_def split: bind_splits if_splits)
    with a show ?thesis using kin_ok_cong by blast
  next
    case (clone v flags a1 a2 a3 a4 r)
    with a assms(3) show ?thesis using kin_ok_clone by blast
  qed (use a assms(4) in blast)
qed simp

lemma yields_kin: "yields may sh \<Longrightarrow> fresh_vms (sys_clone sh) \<Longrightarrow> sys_yield sh u = Some u' \<Longrightarrow> kin_ok u \<Longrightarrow> kin_ok u'"
proof (induction arbitrary: u u' rule: yields.induct)
  case (nested sh yield)
  then show ?case using kernel_steps_kin [OF run_steps_kernel [OF nested.hyps(2)]] by simp
qed simp

lemma run_steps_kin: "rtranclp (run_step sh may) w w' \<Longrightarrow> yields may sh \<Longrightarrow> fresh_vms (sys_clone sh) \<Longrightarrow> kin_ok w \<Longrightarrow> kin_ok w'"
  using kernel_steps_kin [OF run_steps_kernel] yields_kin by blast

end
