(* ===== verification/Heap_Break.thy ===== *)
theory Heap_Break
  imports Kernel_Step
begin

text \<open>
  The program break: what \<open>call_brk\<close> does to the bytes of the process, and what becomes of the break
  when a region below the heap is unmapped. The heap is found by its place in the array of
  regions, which \<open>munmap\<close> does not update.
\<close>

subsection \<open>Moving the break up\<close>

text \<open>The region can grow to \<open>addr\<close>, and the host block of the heap, if there is one, covers it.\<close>

definition heap_can_grow :: "machine \<Rightarrow> virtual_machine \<Rightarrow> nat \<Rightarrow> u32 \<Rightarrow> bool" where
  "heap_can_grow m vm i addr \<longleftrightarrow> vm_mem_ok vm \<and> hosted m vm \<and> vma_heap vm = Some i \<and> i < nr_pmr_ops vm \<and>
     addr_high (pmr_ops vm ! i) < addr \<and>
     (\<forall>j<nr_pmr_ops vm. j \<noteq> i \<longrightarrow> \<not> (addr_low (pmr_ops vm ! i) < addr_low (pmr_ops vm ! j) \<and> addr_low (pmr_ops vm ! j) < addr)) \<and>
     (\<forall>p bs. host_base (pmr_ops vm ! i) = Some p \<longrightarrow> hmem m p = Some bs \<longrightarrow>
        length bs = unat (addr_high (pmr_ops vm ! i) - addr_low (pmr_ops vm ! i)))"

lemma heap_grow_eligible:
  assumes "heap_can_grow m vm i addr"
  shows "is_vma_eligible (vm\<lparr>pmr_ops := (pmr_ops vm)[i := (pmr_ops vm ! i)\<lparr>addr_high := addr\<rparr>]\<rparr>) (Some i) = Some True"
proof -
  have n: "nr_pmr_ops vm \<le> length (pmr_ops vm)" "i < nr_pmr_ops vm"
    using assms by (simp_all add: heap_can_grow_def vm_mem_ok_def vm_wf_def)
  with assms show ?thesis by (auto simp: heap_can_grow_def is_vma_eligible_def list_all_iff)
qed

lemma region_at_nth:
  assumes "vm_wf vm" "j < nr_pmr_ops vm"
  shows "region_at vm x = Some (pmr_ops vm ! j) \<longleftrightarrow> in_region x (pmr_ops vm ! j)"
  using region_at_Some [OF assms(1)] assms(2) by blast

lemma call_brk_grows:
  assumes own: "get_linked_vm (vms m) native LINKAGE_HINT_VM = Some v" "vms m v = Some vm"
    and can: "heap_can_grow m vm i addr"
    and ra: "host_realloc_ok ra" "ra (hmem m) (host_base (pmr_ops vm ! i)) (unat (addr - addr_low (pmr_ops vm ! i))) = Some (b, bs)"
  shows "\<exists>m' vm'. call_brk ra m native addr = Some (addr, m') \<and> vms m' v = Some vm' \<and> vm_wf vm' \<and>
    (\<forall>x. addr_low (pmr_ops vm ! i) \<le> x \<and> x < addr \<longrightarrow> guest_byte m' vm' x = Some (bs ! region_offset x (pmr_ops vm ! i))) \<and>
    (\<forall>x. guest_byte m vm x \<noteq> None \<longrightarrow> guest_byte m' vm' x = guest_byte m vm x)"
proof -
  let ?heap = "pmr_ops vm ! i"
  define heap' where "heap' = ?heap\<lparr>addr_high := addr, host_base := Some b\<rparr>"
  define vm' where "vm' = vm\<lparr>pmr_ops := (pmr_ops vm)[i := heap']\<rparr>"
  define m' where "m' = set_vm v vm' (m\<lparr>hmem := (free_block (host_base ?heap) (hmem m))(b \<mapsto> bs)\<rparr>)"
  have ok: "vm_wf vm" "vm_mem_ok vm" "hosted m vm" "vma_heap vm = Some i" "i < nr_pmr_ops vm" "addr_high ?heap < addr"
    "\<And>p bs. host_base ?heap = Some p \<Longrightarrow> hmem m p = Some bs \<Longrightarrow> length bs = unat (addr_high ?heap - addr_low ?heap)"
    using can by (auto simp: heap_can_grow_def vm_mem_ok_def)
  have r: "length bs = unat (addr - addr_low ?heap)" "hmem m b = None \<or> host_base ?heap = Some b"
    "\<And>p bs0. host_base ?heap = Some p \<Longrightarrow> hmem m p = Some bs0 \<Longrightarrow> take (min (length bs) (length bs0)) bs = take (min (length bs) (length bs0)) bs0"
    using ra by (force simp: host_realloc_ok_def)+
  have "addr \<noteq> 0" "\<not> addr \<le> addr_high ?heap" using ok(6) by auto
  then have run: "call_brk ra m native addr = Some (addr, m')"
    using own ok(4) heap_grow_eligible [OF can] ra(2) by (simp add: call_brk_def Let_def m'_def vm'_def heap'_def)
  have wf': "vm_wf vm'" using vm_wf_extend [OF ok(1) heap_grow_eligible [OF can] ok(6)] by (simp add: vm'_def heap'_def)
  have len: "nr_pmr_ops vm \<le> length (pmr_ops vm)" using ok(1) by (simp add: vm_wf_def)
  have nth: "pmr_ops vm' ! j = (if j = i then heap' else pmr_ops vm ! j)" "nr_pmr_ops vm' = nr_pmr_ops vm" if "j < nr_pmr_ops vm" for j
    using that len by (simp_all add: vm'_def nth_list_update)
  have heap: "guest_byte m' vm' x = Some (bs ! region_offset x ?heap)" if "addr_low ?heap \<le> x" "x < addr" for x
  proof -
    have "in_region x heap'" using that by (simp add: in_region_def heap'_def)
    then have "region_at vm' x = Some heap'" "region_offset x heap' < length bs"
      using region_at_nth [OF wf', of i x] nth [OF ok(5)] ok(5) region_offset_bound [of x heap'] r(1) by (simp_all add: heap'_def)
    then show ?thesis by (simp add: guest_byte_def host_block_def m'_def set_vm_def heap'_def region_offset_def)
  qed
  moreover have "guest_byte m' vm' x = guest_byte m vm x" if some: "guest_byte m vm x \<noteq> None" for x
  proof -
    obtain rx where "region_at vm x = Some rx" using some by (auto simp: guest_byte_def split: bind_splits)
    then obtain j where j: "j < nr_pmr_ops vm" "region_at vm x = Some (pmr_ops vm ! j)" "in_region x (pmr_ops vm ! j)"
      using region_at_Some [OF ok(1), of x rx] by blast
    obtain q blk where q: "host_base (pmr_ops vm ! j) = Some q" "hmem m q = Some blk"
      using some j(2) by (auto simp: guest_byte_def host_block_def split: bind_splits)
    show ?thesis
    proof (cases "j = i")
      case True
      have x: "addr_low ?heap \<le> x" "x < addr_high ?heap" using j(3) True by (simp_all add: in_region_def)
      have "length blk = unat (addr_high ?heap - addr_low ?heap)" using ok(7) q True by blast
      then have off: "region_offset x ?heap < length blk" using region_offset_bound j(3) True by metis
      have "region_offset x ?heap < length bs"
        using x ok(6) r(1) region_offset_bound [of x "?heap\<lparr>addr_high := addr\<rparr>"] by (auto simp: in_region_def region_offset_def)
      with r(3) q off True have "bs ! region_offset x ?heap = blk ! region_offset x ?heap" by (metis min_less_iff_conj nth_take)
      with heap [of x] x ok(6) off j(2) q True show ?thesis by (simp add: guest_byte_def host_block_def)
    next
      case False
      have "pmr_ops vm ! j \<in> set (live_regions vm)" "?heap \<in> set (live_regions vm)"
        using set_live_regions [of vm] len j(1) ok(5) by auto
      moreover have "pmr_ops vm ! j \<noteq> ?heap"
        using vm_wf_gap [OF ok(1)] vm_wf_nonempty [OF ok(1)] j(1) ok(5) False by (metis leD linorder_neqE_nat)
      ultimately have "host_base ?heap \<noteq> Some q" using ok(2) q(1) by (auto simp: vm_mem_ok_def)
      with r(2) q(2) have "hmem m' q = Some blk" by (auto simp: m'_def set_vm_def free_block_def split: option.splits)
      moreover have "region_at vm' x = Some (pmr_ops vm ! j)"
        using region_at_nth [OF wf', of j x] nth [OF j(1)] j(1,3) False by simp
      ultimately show ?thesis using j(2) q by (simp add: guest_byte_def host_block_def)
    qed
  qed
  ultimately show ?thesis using run wf' by (intro exI [of _ m'] exI [of _ vm']) (auto simp: m'_def set_vm_def)
qed

subsection \<open>A stale place of the heap\<close>

lemma unregister_shifts:
  assumes "unregister_pm_region vm j = Some vm'" "j \<le> i" "Suc i < nr_pmr_ops vm" "nr_pmr_ops vm \<le> length (pmr_ops vm)"
  shows "pmr_ops vm' ! i = pmr_ops vm ! Suc i"
proof -
  obtain k where k: "nr_pmr_ops vm - 1 - j = k" "j + k < length (pmr_ops vm)" "i < j + k" using assms(2-4) by simp
  have "pmr_ops vm' = unregister_move (pmr_ops vm) j k" using assms(1) k(1) by (auto simp: unregister_pm_region_def split: if_splits)
  then have "pmr_ops vm' = take j (pmr_ops vm) @ take k (drop (Suc j) (pmr_ops vm)) @ drop (j + k) (pmr_ops vm)"
    using unregister_move_eq [OF k(2)] by simp
  with k assms(2,4) show ?thesis by (simp add: nth_append)
qed

lemma munmap_shifts_heap:
  assumes own: "get_linked_vm (vms m) native LINKAGE_HINT_VM = Some v" "vms m v = Some vm" "vm_wf vm"
    and heap: "vma_heap vm = Some i" "Suc i < nr_pmr_ops vm" and below: "j < i"
  shows "\<exists>m'. do_munmap m native (addr_low (pmr_ops vm ! j)) (addr_high (pmr_ops vm ! j) - addr_low (pmr_ops vm ! j)) = Some (0, m') \<and>
    call_brk ra m' native 0 = Some (addr_high (pmr_ops vm ! Suc i), m')"
proof -
  let ?r = "pmr_ops vm ! j"
  have j: "j < nr_pmr_ops vm" "in_region (addr_low ?r) ?r" using below heap(2) vm_wf_nonempty [OF own(3), of j] by (auto simp: in_region_def)
  have found: "search_pm_region_callback vm (ucast (addr_low ?r)) = Some (Some j)"
    using search_pm_region_iff(1) [OF own(3) in_region_not_last [OF j(2)]] j by blast
  have len: "nr_pmr_ops vm \<le> length (pmr_ops vm)" using own(3) by (simp add: vm_wf_def)
  obtain m1 where m1: "(if pmr_reclaim ?r \<noteq> None then vma_generic_reclaim m v j else Some m) = Some m1"
    using own(2) by (cases "pmr_reclaim ?r = None") (auto simp: vma_generic_reclaim_def)
  define vm1 where "vm1 = the (vms m1 v)"
  have vm1: "vms m1 v = Some vm1" "vma_heap vm1 = Some i" "nr_pmr_ops vm1 = nr_pmr_ops vm" "length (pmr_ops vm1) = length (pmr_ops vm)"
    "cloned_vm vm1 = cloned_vm vm" "pmr_ops vm1 ! Suc i = pmr_ops vm ! Suc i" "vms m1 = (vms m)(v \<mapsto> vm1)"
    using m1 own(2) heap(1) below
    by (auto simp: vm1_def vma_generic_reclaim_def set_vm_def map_upd_triv split: if_splits option.splits)
  obtain vm2 where vm2: "unregister_pm_region vm1 j = Some vm2" using vm1(3) j(1) by (auto simp: unregister_pm_region_def)
  have f2: "vma_heap vm2 = Some i" "cloned_vm vm2 = cloned_vm vm"
    using vm2 vm1(2,5) by (auto simp: unregister_pm_region_def split: if_splits)
  have shift: "pmr_ops vm2 ! i = pmr_ops vm ! Suc i" using unregister_shifts [OF vm2] below heap(2) len vm1(3,4,6) by simp
  have "\<not> cloned_vm vm" using get_linked_vm_owner [OF own(1)] own(2) by auto
  then have "get_linked_vm (vms (set_vm v vm2 m1)) native LINKAGE_HINT_VM = Some v"
    using get_linked_vm_stays [OF own(1), of vm2] f2(2) vm1(7) by (simp add: set_vm_def)
  then have "call_brk ra (set_vm v vm2 m1) native 0 = Some (addr_high (pmr_ops vm ! Suc i), set_vm v vm2 m1)"
    using f2(1) shift by (simp add: call_brk_def set_vm_def Let_def)
  moreover have "do_munmap m native (addr_low ?r) (addr_high ?r - addr_low ?r) = Some (0, set_vm v vm2 m1)"
    using own(1,2) found m1 vm1(1) vm2 by (simp add: do_munmap_def)
  ultimately show ?thesis by blast
qed

end
