(* ===== verification/Example_Exec.thy ===== *)
theory Example_Exec
  imports Task_Family Heap_Break Example_Files
begin

text \<open>
  A small executable, a host that serves it, a state in which the sandbox is started, and a
  process that replaces its program. Nothing here models code.
\<close>

text \<open>An ELF header, one segment of four bytes at \<open>0x10000\<close> that is extended to eight, and the bytes.\<close>

definition demo_elf :: "u8 list" where
  "demo_elf =
     [0x7f, 0x45, 0x4c, 0x46, 1, 1, 1, 0, 0, 0, 0, 0, 0, 0, 0, 0, 2, 0, 0xf3, 0, 1, 0, 0, 0,
      0, 0, 1, 0, 52, 0, 0, 0, 0, 0, 0, 0, 0, 0, 0, 0, 52, 0, 32, 0, 1, 0, 0, 0, 0, 0, 0, 0,
      1, 0, 0, 0, 84, 0, 0, 0, 0, 0, 1, 0, 0, 0, 1, 0, 4, 0, 0, 0, 8, 0, 0, 0, 5, 0, 0, 0, 0, 0x10, 0, 0,
      0x93, 0x00, 0x50, 0x00]"

definition demo_header :: elf32_elf_header where
  "demo_header = elf_header_of (take 52 demo_elf)"

definition demo_segment :: elf32_program_header where
  "demo_segment = \<lparr>p_type = 1, p_offset = 84, p_vaddr = 0x10000, p_paddr = 0x10000, p_filesz = 4, p_memsz = 8, p_flags = 5, p_align = 0x1000\<rparr>"

lemma demo_segment_read: "program_header_of (take 32 (drop 52 demo_elf)) = demo_segment"
  by (simp add: program_header_of_def demo_segment_def demo_elf_def field32_def le_word_def)

lemma demo_header_fields:
  "e_entry demo_header = 0x10000" "e_phoff demo_header = 52" "e_phnum demo_header = 1" "e_phentsize demo_header = 32"
  "ELF32_MACHINE_RISCV = e_machine demo_header" "ELF32_IDENTITY_ELF = field32 (e_ident demo_header) 0" "ELF32_CLASS_ELF32 = field8 (e_ident demo_header) 4"
  by (simp_all add: demo_header_def elf_header_of_def demo_elf_def field32_def field16_def field8_def le_word_def
      ELF32_MACHINE_RISCV_def ELF32_IDENTITY_ELF_def ELF32_CLASS_ELF32_def)

lemma demo_elf_headers: "elf_headers demo_elf demo_header [demo_segment]"
proof -
  have "length demo_elf = 88" by (simp add: demo_elf_def)
  then show ?thesis
    unfolding elf_headers_def using demo_header_fields demo_segment_read by (simp add: demo_header_def)
qed

lemma demo_segments_fit: "segments_fit demo_elf [] (load_headers [demo_segment])"
  by (simp add: load_headers_def demo_segment_def PROGRAM_TYPE_LOAD_def segment_ok_def demo_elf_def stack_bounds)

text \<open>The state of the host is the position in the file.\<close>

definition boot_host :: "nat host_calls" where
  "boot_host = user_host\<lparr>os_open := (\<lambda>_ _ _ s. (5, s)), os_lseek := (\<lambda>_ off _ s. (ucast off, unat off)),
     os_read := (\<lambda>_ n s. let bs = take n (drop s demo_elf) in ((of_nat (length bs), bs), s + length bs))\<rparr>"

lemma boot_host_file: "elf_file boot_host path demo_elf (\<lambda>_. True) s"
  by (simp add: elf_file_def reads_file_def boot_host_def Let_def)

lemma boot_host_std: "opens_std boot_host rcs (\<lambda>_. True)"
  by (simp add: opens_std_def boot_host_def)

definition boot_env :: app_env where
  "boot_env = \<lparr>env_ROOT = Some ''/jail'', env_BREAK = None\<rparr>"

definition boot_procs :: "nat procs" where
  "boot_procs = user_procs\<lparr>world_machine := demo_machine\<lparr>vms := Map.empty, hmem := Map.empty\<rparr>, current := None\<rparr>"

definition boot_clone_host :: clone_host where
  "boot_clone_host = user_clone_host\<lparr>ch_vm := (\<lambda>ms. if ms 2 = None then Some 2 else None)\<rparr>"

lemma boot_ready_demo:
  "boot_ready boot_clone_host boot_host boot_env [''jail''] boot_procs 1 no_queues (\<lambda>_. []) ''/jail/app'' demo_elf (\<lambda>_. True) demo_header [demo_segment]"
proof -
  have "root_ok [''jail'']" by (simp add: root_ok_def proper_def plain_def ROOT_SIZE_def)
  moreover have "child_free boot_procs no_queues (\<lambda>_. []) 1"
    by (simp add: child_free_def boot_procs_def queued_def no_queues_def sched_lists_def)
  moreover have "queues_ok (links boot_procs) no_queues (\<lambda>_. [])" using user_queues by (simp add: boot_procs_def)
  ultimately show ?thesis
    using boot_host_file boot_host_std demo_elf_headers demo_segments_fit next_block_ok next_block_total
    by (simp add: boot_ready_def boot_env_def boot_clone_host_def user_clone_host_def boot_procs_def load_headers_def
        MAX_VMA_NR_def queued_def no_queues_def SIZEOF_CPUSTATE_def)
qed

lemma boot_invariants: "procs_ok boot_procs" "jailed rcs boot_procs"
proof -
  show "procs_ok boot_procs"
    using user_files(2,3) by (simp add: procs_ok_def maps_ok_def boot_procs_def fds_ok_def regs_ok_def)
  show "jailed rcs boot_procs" by (simp add: jailed_def dir_ok_def dir_at_def boot_procs_def)
qed

definition boot_sys :: "nat sys_host" where
  "boot_sys = \<lparr>sys_clone = boot_clone_host, sys_calls = boot_host, sys_realloc = (\<lambda>hm _ n. Some (Suc (Max (insert 0 (dom hm))), replicate n 0)),
     sys_blobs = (\<lambda>ns. Suc (Max (insert 0 (set ns)))), sys_yield = Some,
     os_gettimeofday = (\<lambda>_ _ s. ((0, [], []), s)), os_clock_gettime = (\<lambda>_ s. ((0, []), s)), os_getrlimit = (\<lambda>_ s. ((0, []), s))\<rparr>"

lemma boot_sys_yields: "yields may boot_sys"
proof -
  have "yields may (boot_sys\<lparr>sys_yield := (\<lambda>_. None), sys_yield := Some\<rparr>)" by (intro yields.nested yields.never) simp_all
  then show ?thesis by (simp add: boot_sys_def)
qed

lemma boot_sys_fresh: "fresh_vms (sys_clone boot_sys)"
  by (simp add: boot_sys_def fresh_vms_def boot_clone_host_def)

lemma boot_args: "stack_size initial_sp [''/jail/app''] [] \<le> unat (initial_sp - stack_low)"
  by (simp add: stack_size_def pad_size_def strings_blob_def string_bytes_def initial_sp_def stack_bounds)

lemma boot_runs:
  "\<exists>stack w1. main boot_clone_host boot_host boot_env boot_procs 1 [''hyrule'', ''/jail/app''] 0x700 = Some (stack, w1) \<and>
     vm_of w1 1 \<noteq> None \<and> (\<forall>hint. owner_vm w1 1 hint = Some 1)"
proof -
  have "(0x700 :: u64) \<noteq> 0" "length [''hyrule'', ''/jail/app''] \<le> MAX_NR_ARGV" "\<forall>s\<in>set [''hyrule'', ''/jail/app'']. NUL \<notin> set s"
    "stack_size initial_sp (tl [''hyrule'', ''/jail/app'']) [] \<le> unat (initial_sp - stack_low)"
    using boot_args by (simp_all add: MAX_NR_ARGV_def)
  from main_boots [OF boot_ready_demo this(1) refl this(2-4)] obtain stack w1 vm
    where m: "main boot_clone_host boot_host boot_env boot_procs 1 [''hyrule'', ''/jail/app''] 0x700 = Some (stack, w1)" "vm_of w1 1 = Some vm"
      "\<not> cloned_vm vm" "\<not> cloned_fs vm" "\<not> cloned_files vm"
    by (auto simp: booted_def)
  then have "owner_vm w1 1 hint = Some 1" for hint
    unfolding owner_vm_def by (subst get_linked_vm.simps) (cases hint; simp)
  with m show ?thesis by blast
qed

lemma boot_getpid: "vm_of w 1 \<noteq> None \<Longrightarrow> \<exists>res. do_syscall boot_sys w 1 172 0 0 0 0 0 0 = Some res"
proof -
  assume "vm_of w 1 \<noteq> None"
  then obtain vm where vm: "vm_of w 1 = Some vm" by blast
  have "owner_vm w 1 LINKAGE_HINT_NATIVE = Some 1" unfolding owner_vm_def by (subst get_linked_vm.simps) (use vm in simp)
  with vm show ?thesis
    by (simp add: do_syscall_def handlers_def NR_SYSCALL_LINUX_def call_getpid_def native_field_def sys_value_def Let_def)
qed

text \<open>A process that creates a thread by a system call; a later clone by the thread can be served.\<close>

definition second_clone_host :: clone_host where
  "second_clone_host = user_clone_host\<lparr>ch_vm := (\<lambda>ms. if ms 2 \<noteq> None \<and> ms 3 = None then Some 3 else None)\<rparr>"

lemma user_thread_premises:
  "vm_of user_procs 1 = Some user_vm" "ch_vm boot_clone_host (vms (world_machine user_procs)) = Some 2" "gpid_counter user_procs = 2"
  "(0x5000 :: u32) \<noteq> 0"
  by (simp_all add: user_procs_def user_vms boot_clone_host_def) (simp add: user_machine_def)

lemma user_thread:
  obtains w1 q B tvm where "clone_task boot_clone_host boot_host user_procs 1 0x5000 0x10700 0 = Some (2, w1)"
    "rtranclp (run_step boot_sys (\<lambda>_ _ _ _. True)) user_procs w1" "fork_ready second_clone_host w1 q B 2 tvm 3" "cloned_fs tvm"
proof -
  have free: "child_free user_procs no_queues (\<lambda>_. []) 3"
    by (simp add: child_free_def user_procs_def user_machine_def queued_def no_queues_def sched_lists_def)
  have fin: "finite (dom (hmem (world_machine user_procs)))" by (simp add: user_procs_def user_vms)
  have host: "host_alloc_ok (ch_block second_clone_host)" "host_alloc_total (ch_block second_clone_host)"
    "\<forall>ms. ms 2 \<noteq> None \<longrightarrow> ms 3 = None \<longrightarrow> ch_vm second_clone_host ms = Some 3"
    using next_block_ok next_block_total by (simp_all add: second_clone_host_def user_clone_host_def)
  obtain w1 q B tvm where w1: "clone_task boot_clone_host boot_host user_procs 1 0x5000 0x10700 0 = Some (2, w1)"
    "fork_ready second_clone_host w1 q B 2 tvm 3" "cloned_fs tvm"
    using thread_can_fork [OF user_thread_premises(1,2) user_queues user_child_free user_flags(2) user_thread_premises(4)
        user_files(2) fin free _ host, of boot_host 0] user_thread_premises(3) by auto
  have "do_syscall boot_sys user_procs 1 220 0x10700 0x5000 0 0 0 0 = Some (Sys_return 2 w1)"
    using w1(1) by (simp add: do_syscall_def handlers_def NR_SYSCALL_LINUX_def sys_value_def call_clone_def boot_sys_def Let_def)
  then have "run_step boot_sys (\<lambda>_ _ _ _. True) user_procs (sys_state (Sys_return 2 w1))"
    by (rule run_step.system_call [rotated]) simp
  then have "rtranclp (run_step boot_sys (\<lambda>_ _ _ _. True)) user_procs w1" by auto
  with w1 that show thesis by blast
qed

lemma user_unshared: "\<forall>u vm. vm_of user_procs u = Some vm \<longrightarrow> \<not> cloned_vm vm \<and> \<not> cloned_fs vm \<and> \<not> cloned_files vm"
  by (auto simp: user_procs_def user_machine_def user_vm_def demo_vm_def)

text \<open>A process that calls \<open>execve\<close>: the file name, the argument vector and the empty environment are in its region.\<close>

definition exec_bytes :: "u8 list" where
  "exec_bytes = [0x2f, 0x61, 0x70, 0x70, 0, 0, 0, 0, 0, 0, 1, 0, 0, 0, 0, 0, 0, 0, 0, 0]"

definition exec_region :: pm_region_operation where
  "exec_region = vma_region 0x10000 0x10014 3 (Some 0)"

definition exec_vm :: virtual_machine where
  "exec_vm = user_vm\<lparr>pmr_ops := exec_region # replicate 127 empty_pmr\<rparr>"

definition exec_machine :: machine where
  "exec_machine = demo_machine\<lparr>vms := [1 \<mapsto> exec_vm, 3 \<mapsto> thread_vm], hmem := [0 \<mapsto> exec_bytes]\<rparr>"

definition exec_procs :: "nat procs" where
  "exec_procs = user_procs\<lparr>world_machine := exec_machine, harts := (\<lambda>_. demo_hart)\<rparr>"

lemma exec_vm_fields: "nr_pmr_ops exec_vm = 1" "live_regions exec_vm = [exec_region]" "\<not> cloned_vm exec_vm" "vm_of exec_procs 1 = Some exec_vm"
  "vm_of exec_procs (Suc 0) = Some exec_vm" "vm_of exec_procs 3 = Some thread_vm" "hmem (world_machine exec_procs) = [0 \<mapsto> exec_bytes]"
  by (simp_all add: exec_vm_def user_vm_def demo_vm_def live_regions_def exec_procs_def exec_machine_def)

lemma exec_vm_wf: "vm_wf exec_vm"
  unfolding vm_wf_def exec_vm_fields by (simp add: exec_vm_def exec_region_def MAX_VMA_NR_def)

lemma exec_owner: "owner_vm exec_procs 1 LINKAGE_HINT_VM = Some 1" "owner_vm exec_procs 3 LINKAGE_HINT_VM = Some 1"
proof -
  show 1: "owner_vm exec_procs 1 LINKAGE_HINT_VM = Some 1"
    unfolding owner_vm_def by (subst get_linked_vm.simps) (use exec_vm_fields in simp)
  show "owner_vm exec_procs 3 LINKAGE_HINT_VM = Some 1"
    unfolding owner_vm_def by (subst get_linked_vm.simps)
      (use 1 exec_vm_fields in \<open>simp add: thread_vm_def zeroed_vm_def owner_vm_def\<close>)
qed

lemma exec_pointer:
  assumes "v = 1 \<or> v = 3" "0x10000 \<le> a" "a < 0x10014"
  shows "user_pointer exec_procs v a = Some (Some 0, unat (a - 0x10000))"
proof -
  have r: "region_at exec_vm a = Some exec_region"
    using assms(2,3) by (simp add: region_at_def exec_vm_fields in_region_def exec_region_def)
  have l: "get_linked_vm (vms (world_machine exec_procs)) v LINKAGE_HINT_VM = Some 1"
    using exec_owner assms(1) by (auto simp: owner_vm_def)
  show ?thesis
    using user_world_pointer_at [OF l exec_vm_fields(4) exec_vm_wf r]
    by (simp add: user_pointer_def exec_region_def vma_region_def region_offset_def)
qed

lemma exec_strings:
  assumes "v = 1 \<or> v = 3"
  shows "user_string exec_procs v 0x10000 = Some ''/app''" "user_strings exec_procs v (Some 0, 8) 0 (Suc (Suc k)) = Some [''/app'']"
    "user_strings exec_procs v (Some 0, 16) 0 (Suc k) = Some []"
proof -
  show s: "user_string exec_procs v 0x10000 = Some ''/app''"
    using exec_pointer [OF assms, of "0x10000"] exec_vm_fields(7)
    by (simp add: user_string_def string_at_def bytes_from_def exec_bytes_def) (simp add: char_of_def bit_0)
  show "user_strings exec_procs v (Some 0, 8) 0 (Suc (Suc k)) = Some [''/app'']" "user_strings exec_procs v (Some 0, 16) 0 (Suc k) = Some []"
    using s exec_vm_fields(7) by (simp_all add: load_bytes_def bytes_from_def exec_bytes_def le_word_def)
qed

lemma exec_demo_args:
  assumes "v = 1 \<or> v = 3"
  shows "exec_args exec_procs v 0x10000 0x10008 0x10010 ''/app'' [''/app''] []"
proof -
  have "user_strings exec_procs v (Some 0, 8) 0 (MAX_NR_ARGV - 1) = Some [''/app'']"
    using exec_strings(2) [OF assms, of 125] by (simp add: MAX_NR_ARGV_def numeral_eq_Suc del: user_strings.simps)
  moreover have "user_strings exec_procs v (Some 0, 16) 0 MAX_NR_ENVP = Some []"
    using exec_strings(3) [OF assms, of 127] by (simp add: MAX_NR_ENVP_def numeral_eq_Suc del: user_strings.simps)
  moreover have "stack_size initial_sp [''/app''] [] \<le> unat (initial_sp - stack_low)"
    by (simp add: stack_size_def pad_size_def strings_blob_def string_bytes_def initial_sp_def stack_bounds)
  moreover have "0 < MAX_NR_ENVP" by (simp add: MAX_NR_ENVP_def)
  ultimately show ?thesis
    using exec_strings(1) [OF assms] exec_pointer [OF assms, of "0x10008"] exec_pointer [OF assms, of "0x10010"]
    by (simp add: exec_args_def del: user_strings.simps)
qed

lemma exec_demo_image: "exec_image next_block boot_host exec_procs 1 exec_vm ''/app'' demo_elf (\<lambda>_. True) demo_header [demo_segment]"
proof -
  have "exec_path ''/jail'' ''/'' ''/app'' = Some ''/jail/app''" by code_simp
  moreover have "fs_root exec_procs 1 = ''/jail''" "fs_cwd exec_procs 1 = ''/''" by (simp_all add: exec_procs_def user_procs_def)
  moreover have "2 < length (registers (harts exec_procs 1))" by (simp add: exec_procs_def demo_hart_def)
  moreover have "\<forall>r\<in>set (live_regions exec_vm). pmr_reclaim r \<noteq> None" by (simp add: exec_vm_fields exec_region_def)
  ultimately show ?thesis
    using boot_host_file demo_elf_headers demo_segments_fit next_block_ok next_block_total exec_vm_wf exec_vm_fields(4,7)
    by (simp add: exec_image_def load_headers_def MAX_VMA_NR_def)
qed

text \<open>A process with a program, a heap and a stack of one page each.\<close>

definition heap_region :: "nat \<Rightarrow> u32 \<Rightarrow> pm_region_operation" where
  "heap_region b low = vma_region low (low + 4) 6 (Some b)"

definition heap_vm :: virtual_machine where
  "heap_vm = user_vm\<lparr>nr_pmr_ops := 3, pmr_ops := heap_region 0 0x1000 # heap_region 1 0x2000 # heap_region 2 0x8000 # replicate 125 empty_pmr,
     vma_heap := Some 1\<rparr>"

definition heap_machine :: machine where
  "heap_machine = demo_machine\<lparr>vms := [1 \<mapsto> heap_vm], hmem := [0 \<mapsto> [1, 2, 3, 4], 1 \<mapsto> [5, 6, 7, 8], 2 \<mapsto> [9, 10, 11, 12]]\<rparr>"

lemma heap_vm_fields: "nr_pmr_ops heap_vm = 3" "vma_heap heap_vm = Some 1" "vms heap_machine 1 = Some heap_vm" "\<not> cloned_vm heap_vm"
  "pmr_ops heap_vm ! 0 = heap_region 0 0x1000" "pmr_ops heap_vm ! Suc 0 = heap_region 1 0x2000" "pmr_ops heap_vm ! 2 = heap_region 2 0x8000"
  "live_regions heap_vm = [heap_region 0 0x1000, heap_region 1 0x2000, heap_region 2 0x8000]"
  by (simp_all add: heap_vm_def heap_machine_def user_vm_def demo_vm_def live_regions_def)

lemma heap_vm_ok: "vm_wf heap_vm" "vm_mem_ok heap_vm" "hosted heap_machine heap_vm"
proof -
  show wf: "vm_wf heap_vm"
    unfolding vm_wf_def heap_vm_fields by (simp add: heap_vm_def heap_region_def MAX_VMA_NR_def)
  then show "vm_mem_ok heap_vm" by (auto simp: vm_mem_ok_def heap_vm_fields heap_region_def)
  show "hosted heap_machine heap_vm" by (simp add: hosted_def heap_vm_fields heap_region_def heap_machine_def)
qed

lemma heap_owner: "get_linked_vm (vms heap_machine) 1 LINKAGE_HINT_VM = Some 1"
  by (subst get_linked_vm.simps) (use heap_vm_fields in simp)

lemma heap_demo_grows: "heap_can_grow heap_machine heap_vm 1 0x2006"
proof -
  have "\<not> (addr_low (pmr_ops heap_vm ! 1) < addr_low (pmr_ops heap_vm ! j) \<and> addr_low (pmr_ops heap_vm ! j) < 0x2006)" if "j < 3" "j \<noteq> 1" for j
  proof -
    have "j = 0 \<or> j = 2" using that by auto
    then show ?thesis by (auto simp: heap_vm_fields heap_region_def)
  qed
  moreover have "host_base (pmr_ops heap_vm ! 1) = Some p \<Longrightarrow> hmem heap_machine p = Some bs \<Longrightarrow> length bs = 4" for p bs
    by (auto simp: heap_vm_fields heap_region_def heap_machine_def)
  moreover have "addr_high (pmr_ops heap_vm ! 1) < 0x2006" "addr_high (pmr_ops heap_vm ! 1) - addr_low (pmr_ops heap_vm ! 1) = 4"
    by (simp_all add: heap_vm_fields heap_region_def)
  ultimately show ?thesis
    using heap_vm_ok heap_vm_fields(1,2) unfolding heap_can_grow_def by simp
qed

definition demo_realloc :: host_realloc where
  "demo_realloc hm old n = (case old of None \<Rightarrow> None | Some p \<Rightarrow>
     (case hm p of None \<Rightarrow> None | Some bs \<Rightarrow> Some (p, take n bs @ replicate (n - length bs) 0)))"

lemma demo_realloc_ok: "host_realloc_ok demo_realloc"
  by (auto simp: host_realloc_ok_def demo_realloc_def min_def split: option.splits)

end
