(* ===== verification/Csr_Registers.thy ===== *)
theory Csr_Registers
  imports Hart_Trap Mmu
begin

unbundle bit_operations_syntax

text \<open>
  The control and status registers: \<open>sandbox/csr_machine_level.c\<close>, \<open>sandbox/csr_machine_level_pmp.c\<close>,
  \<open>sandbox/csr_misc.c\<close> and \<open>sandbox/csr_supervisor_level.c\<close>. The word \<open>csr_blob\<close> of the register at
  an address is \<open>csrs h\<close> of that address; the other fields of its entry are a \<open>csr_entry\<close>. A read
  returns the value and the hart, since reading the time changes the hart.
\<close>

definition CSR_ADDRESS_MSCRATCH :: "12 word" where "CSR_ADDRESS_MSCRATCH = 0x340"
definition CSR_ADDRESS_MSTATUS :: "12 word" where "CSR_ADDRESS_MSTATUS = 0x300"
definition CSR_ADDRESS_MIDELEG :: "12 word" where "CSR_ADDRESS_MIDELEG = 0x303"
definition CSR_ADDRESS_MIP :: "12 word" where "CSR_ADDRESS_MIP = 0x344"
definition CSR_ADDRESS_MIE :: "12 word" where "CSR_ADDRESS_MIE = 0x304"
definition CSR_ADDRESS_SIE :: "12 word" where "CSR_ADDRESS_SIE = 0x104"
definition CSR_ADDRESS_SIP :: "12 word" where "CSR_ADDRESS_SIP = 0x144"
definition CSR_ADDRESS_SSTATUS :: "12 word" where "CSR_ADDRESS_SSTATUS = 0x100"
definition CSR_ADDRESS_SSCRATCH :: "12 word" where "CSR_ADDRESS_SSCRATCH = 0x140"
definition CSR_ADDRESS_TIME :: "12 word" where "CSR_ADDRESS_TIME = 0xc01"
definition CSR_ADDRESS_TIMEH :: "12 word" where "CSR_ADDRESS_TIMEH = 0xc81"

definition WPRI_MASK_ALL :: u32 where "WPRI_MASK_ALL = 0xffffffff"

record csr_entry =
  wpri_mask :: u32
  csr_write :: "(hart \<Rightarrow> 12 word \<Rightarrow> u32 \<Rightarrow> hart) option"
  csr_read :: "(hart \<Rightarrow> 12 word \<Rightarrow> u32 \<times> hart) option"
  csr_reset :: "(hart \<Rightarrow> 12 word \<Rightarrow> hart) option"

record csr_registery_entry =
  csr_addr :: u32
  csr_registery :: csr_entry

definition set_blob :: "12 word \<Rightarrow> u32 \<Rightarrow> hart \<Rightarrow> hart" where
  "set_blob csr value h = h\<lparr>csrs := (csrs h)(csr := value)\<rparr>"

subsection \<open>Machine level\<close>

definition csr_mscratch_write :: "hart \<Rightarrow> 12 word \<Rightarrow> u32 \<Rightarrow> hart" where
  "csr_mscratch_write h csr value = set_blob csr value h"

definition csr_mscratch_read :: "hart \<Rightarrow> 12 word \<Rightarrow> u32 \<times> hart" where
  "csr_mscratch_read h csr = (csrs h csr, h)"

definition mscratch_csr_entry :: "csr_registery_entry" where
  "mscratch_csr_entry = \<lparr>csr_addr = ucast CSR_ADDRESS_MSCRATCH, csr_registery = \<lparr>wpri_mask = WPRI_MASK_ALL, csr_write = Some csr_mscratch_write,
     csr_read = Some csr_mscratch_read, csr_reset = None\<rparr>\<rparr>"

text \<open>Writes to \<open>misa\<close> are ignored.\<close>

definition csr_misa_write :: "hart \<Rightarrow> 12 word \<Rightarrow> u32 \<Rightarrow> hart" where
  "csr_misa_write h csr value = h"

definition csr_misa_read :: "hart \<Rightarrow> 12 word \<Rightarrow> u32 \<times> hart" where
  "csr_misa_read h csr = (csrs h csr, h)"

definition csr_misa_reset :: "hart \<Rightarrow> 12 word \<Rightarrow> hart" where
  "csr_misa_reset h csr = set_blob csr (push_bit 0 1 OR push_bit 8 1 OR push_bit 12 1 OR push_bit 18 1 OR push_bit 20 1 OR push_bit 30 1) h"

definition misa_csr_entry :: "csr_registery_entry" where
  "misa_csr_entry = \<lparr>csr_addr = 0x301, csr_registery = \<lparr>wpri_mask = WPRI_MASK_ALL, csr_write = Some csr_misa_write,
     csr_read = Some csr_misa_read, csr_reset = Some csr_misa_reset\<rparr>\<rparr>"

definition csr_mvendorid_read :: "hart \<Rightarrow> 12 word \<Rightarrow> u32 \<times> hart" where
  "csr_mvendorid_read h csr = (csrs h csr, h)"

definition csr_mvendorid_reset :: "hart \<Rightarrow> 12 word \<Rightarrow> hart" where
  "csr_mvendorid_reset h csr = set_blob csr 0x60a h"

definition mvendorid_csr_entry :: "csr_registery_entry" where
  "mvendorid_csr_entry = \<lparr>csr_addr = 0xf11, csr_registery = \<lparr>wpri_mask = WPRI_MASK_ALL, csr_write = None,
     csr_read = Some csr_mvendorid_read, csr_reset = Some csr_mvendorid_reset\<rparr>\<rparr>"

definition csr_mhartid_read :: "hart \<Rightarrow> 12 word \<Rightarrow> u32 \<times> hart" where
  "csr_mhartid_read h csr = (hart_id h, h)"

definition mhartid_csr_entry :: "csr_registery_entry" where
  "mhartid_csr_entry = \<lparr>csr_addr = 0xf14, csr_registery = \<lparr>wpri_mask = WPRI_MASK_ALL, csr_write = None,
     csr_read = Some csr_mhartid_read, csr_reset = None\<rparr>\<rparr>"

definition csr_mtvec_write :: "hart \<Rightarrow> 12 word \<Rightarrow> u32 \<Rightarrow> hart" where
  "csr_mtvec_write h csr value = set_blob csr value h"

definition csr_mtvec_read :: "hart \<Rightarrow> 12 word \<Rightarrow> u32 \<times> hart" where
  "csr_mtvec_read h csr = (csrs h csr, h)"

definition csr_mtvec_reset :: "hart \<Rightarrow> 12 word \<Rightarrow> hart" where
  "csr_mtvec_reset h csr = set_blob csr 0 h"

definition mtvec_csr_entry :: "csr_registery_entry" where
  "mtvec_csr_entry = \<lparr>csr_addr = ucast CSR_ADDRESS_MTVEC, csr_registery = \<lparr>wpri_mask = 0xfffffffd, csr_write = Some csr_mtvec_write,
     csr_read = Some csr_mtvec_read, csr_reset = Some csr_mtvec_reset\<rparr>\<rparr>"

definition csr_mcounteren_write :: "hart \<Rightarrow> 12 word \<Rightarrow> u32 \<Rightarrow> hart" where
  "csr_mcounteren_write h csr value = set_blob csr value h"

definition csr_mcounteren_read :: "hart \<Rightarrow> 12 word \<Rightarrow> u32 \<times> hart" where
  "csr_mcounteren_read h csr = (csrs h csr, h)"

definition csr_mcounteren_reset :: "hart \<Rightarrow> 12 word \<Rightarrow> hart" where
  "csr_mcounteren_reset h csr = set_blob csr 0 h"

definition mcounteren_csr_entry :: "csr_registery_entry" where
  "mcounteren_csr_entry = \<lparr>csr_addr = 0x306, csr_registery = \<lparr>wpri_mask = WPRI_MASK_ALL, csr_write = Some csr_mcounteren_write,
     csr_read = Some csr_mcounteren_read, csr_reset = Some csr_mcounteren_reset\<rparr>\<rparr>"

definition csr_mie_write :: "hart \<Rightarrow> 12 word \<Rightarrow> u32 \<Rightarrow> hart" where
  "csr_mie_write h csr value = h\<lparr>ienable := value\<rparr>"

definition csr_mie_read :: "hart \<Rightarrow> 12 word \<Rightarrow> u32 \<times> hart" where
  "csr_mie_read h csr = (ienable h, h)"

definition csr_mie_reset :: "hart \<Rightarrow> 12 word \<Rightarrow> hart" where
  "csr_mie_reset h csr = h\<lparr>ienable := 0\<rparr>"

definition mie_csr_entry :: "csr_registery_entry" where
  "mie_csr_entry = \<lparr>csr_addr = ucast CSR_ADDRESS_MIE, csr_registery = \<lparr>wpri_mask = 0x00000aaa, csr_write = Some csr_mie_write,
     csr_read = Some csr_mie_read, csr_reset = Some csr_mie_reset\<rparr>\<rparr>"

text \<open>The bits of the machine level are read-only in \<open>mip\<close>.\<close>

definition csr_mip_write :: "hart \<Rightarrow> 12 word \<Rightarrow> u32 \<Rightarrow> hart" where
  "csr_mip_write h csr value = h\<lparr>ipending := (value AND NOT 0x888) OR (ipending h AND 0x888)\<rparr>"

definition csr_mip_read :: "hart \<Rightarrow> 12 word \<Rightarrow> u32 \<times> hart" where
  "csr_mip_read h csr = (ipending h, h)"

definition csr_mip_reset :: "hart \<Rightarrow> 12 word \<Rightarrow> hart" where
  "csr_mip_reset h csr = h\<lparr>ipending := 0\<rparr>"

definition mip_csr_entry :: "csr_registery_entry" where
  "mip_csr_entry = \<lparr>csr_addr = ucast CSR_ADDRESS_MIP, csr_registery = \<lparr>wpri_mask = 0x00000aaa, csr_write = Some csr_mip_write,
     csr_read = Some csr_mip_read, csr_reset = Some csr_mip_reset\<rparr>\<rparr>"

definition csr_medeleg_write :: "hart \<Rightarrow> 12 word \<Rightarrow> u32 \<Rightarrow> hart" where
  "csr_medeleg_write h csr value = set_blob csr value h"

definition csr_medeleg_read :: "hart \<Rightarrow> 12 word \<Rightarrow> u32 \<times> hart" where
  "csr_medeleg_read h csr = (csrs h csr, h)"

definition csr_medeleg_reset :: "hart \<Rightarrow> 12 word \<Rightarrow> hart" where
  "csr_medeleg_reset h csr = set_blob csr 0 h"

definition medeleg_csr_entry :: "csr_registery_entry" where
  "medeleg_csr_entry = \<lparr>csr_addr = ucast CSR_ADDRESS_MEDELEG, csr_registery = \<lparr>wpri_mask = 0xfffff7ff, csr_write = Some csr_medeleg_write,
     csr_read = Some csr_medeleg_read, csr_reset = Some csr_medeleg_reset\<rparr>\<rparr>"

definition csr_mideleg_write :: "hart \<Rightarrow> 12 word \<Rightarrow> u32 \<Rightarrow> hart" where
  "csr_mideleg_write h csr value = h\<lparr>idelegation := value\<rparr>"

definition csr_mideleg_read :: "hart \<Rightarrow> 12 word \<Rightarrow> u32 \<times> hart" where
  "csr_mideleg_read h csr = (idelegation h, h)"

definition csr_mideleg_reset :: "hart \<Rightarrow> 12 word \<Rightarrow> hart" where
  "csr_mideleg_reset h csr = h\<lparr>idelegation := 0\<rparr>"

definition mideleg_csr_entry :: "csr_registery_entry" where
  "mideleg_csr_entry = \<lparr>csr_addr = ucast CSR_ADDRESS_MIDELEG, csr_registery = \<lparr>wpri_mask = 0x00000222, csr_write = Some csr_mideleg_write,
     csr_read = Some csr_mideleg_read, csr_reset = Some csr_mideleg_reset\<rparr>\<rparr>"

text \<open>The bit fields of \<open>status\<close>; the reset of \<open>mstatus\<close> clears the word of the entry, which nothing reads.\<close>

definition csr_mstatus_write :: "hart \<Rightarrow> 12 word \<Rightarrow> u32 \<Rightarrow> hart" where
  "csr_mstatus_write h csr value = h\<lparr>status := (status h)\<lparr>uie := ucast (drop_bit 0 value AND 0x1), sie := ucast (drop_bit 1 value AND 0x1),
     mie := ucast (drop_bit 3 value AND 0x1), upie := ucast (drop_bit 4 value AND 0x1), spie := ucast (drop_bit 5 value AND 0x1),
     mpie := ucast (drop_bit 7 value AND 0x1), spp := ucast (drop_bit 8 value AND 0x1), mpp := ucast (drop_bit 11 value AND 0x3)\<rparr>\<rparr>"

definition csr_mstatus_read :: "hart \<Rightarrow> 12 word \<Rightarrow> u32 \<times> hart" where
  "csr_mstatus_read h csr = (push_bit 0 (ucast (uie (status h))) OR push_bit 1 (ucast (sie (status h))) OR push_bit 3 (ucast (mie (status h))) OR
     push_bit 4 (ucast (upie (status h))) OR push_bit 5 (ucast (spie (status h))) OR push_bit 7 (ucast (mpie (status h))) OR
     push_bit 8 (ucast (spp (status h))) OR push_bit 11 (ucast (mpp (status h))), h)"

definition csr_mstatus_reset :: "hart \<Rightarrow> 12 word \<Rightarrow> hart" where
  "csr_mstatus_reset h csr = set_blob csr 0 h"

definition mstatus_csr_entry :: "csr_registery_entry" where
  "mstatus_csr_entry = \<lparr>csr_addr = ucast CSR_ADDRESS_MSTATUS, csr_registery = \<lparr>wpri_mask = 0x000019aa, csr_write = Some csr_mstatus_write,
     csr_read = Some csr_mstatus_read, csr_reset = Some csr_mstatus_reset\<rparr>\<rparr>"

definition csr_mepc_write :: "hart \<Rightarrow> 12 word \<Rightarrow> u32 \<Rightarrow> hart" where
  "csr_mepc_write h csr value = set_blob csr value h"

definition csr_mepc_read :: "hart \<Rightarrow> 12 word \<Rightarrow> u32 \<times> hart" where
  "csr_mepc_read h csr = (csrs h csr, h)"

definition csr_mepc_reset :: "hart \<Rightarrow> 12 word \<Rightarrow> hart" where
  "csr_mepc_reset h csr = set_blob csr 0 h"

definition mepc_csr_entry :: "csr_registery_entry" where
  "mepc_csr_entry = \<lparr>csr_addr = ucast CSR_ADDRESS_MEPC, csr_registery = \<lparr>wpri_mask = WPRI_MASK_ALL, csr_write = Some csr_mepc_write,
     csr_read = Some csr_mepc_read, csr_reset = Some csr_mepc_reset\<rparr>\<rparr>"

definition csr_mcause_write :: "hart \<Rightarrow> 12 word \<Rightarrow> u32 \<Rightarrow> hart" where
  "csr_mcause_write h csr value = set_blob csr value h"

definition csr_mcause_read :: "hart \<Rightarrow> 12 word \<Rightarrow> u32 \<times> hart" where
  "csr_mcause_read h csr = (csrs h csr, h)"

definition csr_mcause_reset :: "hart \<Rightarrow> 12 word \<Rightarrow> hart" where
  "csr_mcause_reset h csr = set_blob csr 0 h"

definition mcause_csr_entry :: "csr_registery_entry" where
  "mcause_csr_entry = \<lparr>csr_addr = ucast CSR_ADDRESS_MCAUSE, csr_registery = \<lparr>wpri_mask = WPRI_MASK_ALL, csr_write = Some csr_mcause_write,
     csr_read = Some csr_mcause_read, csr_reset = Some csr_mcause_reset\<rparr>\<rparr>"

definition csr_mtval_write :: "hart \<Rightarrow> 12 word \<Rightarrow> u32 \<Rightarrow> hart" where
  "csr_mtval_write h csr value = set_blob csr value h"

definition csr_mtval_read :: "hart \<Rightarrow> 12 word \<Rightarrow> u32 \<times> hart" where
  "csr_mtval_read h csr = (csrs h csr, h)"

definition csr_mtval_reset :: "hart \<Rightarrow> 12 word \<Rightarrow> hart" where
  "csr_mtval_reset h csr = set_blob csr 0 h"

definition mtval_csr_entry :: "csr_registery_entry" where
  "mtval_csr_entry = \<lparr>csr_addr = ucast CSR_ADDRESS_MTVAL, csr_registery = \<lparr>wpri_mask = WPRI_MASK_ALL, csr_write = Some csr_mtval_write,
     csr_read = Some csr_mtval_read, csr_reset = Some csr_mtval_reset\<rparr>\<rparr>"

subsection \<open>Physical memory protection\<close>

definition PMPADDR_BASE :: u32 where "PMPADDR_BASE = 0x3b0"

definition csr_pmpaddr_write :: "hart \<Rightarrow> 12 word \<Rightarrow> u32 \<Rightarrow> hart" where
  "csr_pmpaddr_write h csr value = set_blob csr value h"

definition csr_pmpaddr_read :: "hart \<Rightarrow> 12 word \<Rightarrow> u32 \<times> hart" where
  "csr_pmpaddr_read h csr = (csrs h csr, h)"

definition csr_pmpaddr_reset :: "hart \<Rightarrow> 12 word \<Rightarrow> hart" where
  "csr_pmpaddr_reset h csr = set_blob csr 0 h"

definition pmpaddr_csr_entry :: "u32 \<Rightarrow> csr_registery_entry" where
  "pmpaddr_csr_entry idx = \<lparr>csr_addr = PMPADDR_BASE + idx, csr_registery = \<lparr>wpri_mask = WPRI_MASK_ALL, csr_write = Some csr_pmpaddr_write,
     csr_read = Some csr_pmpaddr_read, csr_reset = Some csr_pmpaddr_reset\<rparr>\<rparr>"

definition PMPCFG_BASE :: u32 where "PMPCFG_BASE = 0x3a0"

definition csr_pmpcfg_write :: "hart \<Rightarrow> 12 word \<Rightarrow> u32 \<Rightarrow> hart" where
  "csr_pmpcfg_write h csr value = set_blob csr value h"

definition csr_pmpcfg_read :: "hart \<Rightarrow> 12 word \<Rightarrow> u32 \<times> hart" where
  "csr_pmpcfg_read h csr = (csrs h csr, h)"

definition csr_pmpcfg_reset :: "hart \<Rightarrow> 12 word \<Rightarrow> hart" where
  "csr_pmpcfg_reset h csr = set_blob csr 0 h"

definition pmpcfg_csr_entry :: "u32 \<Rightarrow> csr_registery_entry" where
  "pmpcfg_csr_entry idx = \<lparr>csr_addr = PMPCFG_BASE + idx, csr_registery = \<lparr>wpri_mask = WPRI_MASK_ALL, csr_write = Some csr_pmpcfg_write,
     csr_read = Some csr_pmpcfg_read, csr_reset = Some csr_pmpcfg_reset\<rparr>\<rparr>"

subsection \<open>Time\<close>

text \<open>\<open>host_tsc\<close> is what \<open>rdtsc\<close> returns. The upper half is that of the last read of the lower half.\<close>

definition csr_time_write :: "hart \<Rightarrow> 12 word \<Rightarrow> u32 \<Rightarrow> hart" where
  "csr_time_write h csr value = h"

definition csr_time_read :: "u64 \<Rightarrow> hart \<Rightarrow> 12 word \<Rightarrow> u32 \<times> hart" where
  "csr_time_read host_tsc h csr = (ucast host_tsc, h\<lparr>tsc := host_tsc\<rparr>)"

definition time_csr_entry :: "u64 \<Rightarrow> csr_registery_entry" where
  "time_csr_entry host_tsc = \<lparr>csr_addr = ucast CSR_ADDRESS_TIME, csr_registery = \<lparr>wpri_mask = WPRI_MASK_ALL, csr_write = Some csr_time_write,
     csr_read = Some (csr_time_read host_tsc), csr_reset = None\<rparr>\<rparr>"

definition csr_timeh_write :: "hart \<Rightarrow> 12 word \<Rightarrow> u32 \<Rightarrow> hart" where
  "csr_timeh_write h csr value = h"

definition csr_timeh_read :: "hart \<Rightarrow> 12 word \<Rightarrow> u32 \<times> hart" where
  "csr_timeh_read h csr = (ucast (drop_bit 32 (tsc h)), h)"

definition timeh_csr_entry :: "csr_registery_entry" where
  "timeh_csr_entry = \<lparr>csr_addr = ucast CSR_ADDRESS_TIMEH, csr_registery = \<lparr>wpri_mask = WPRI_MASK_ALL, csr_write = Some csr_timeh_write,
     csr_read = Some csr_timeh_read, csr_reset = None\<rparr>\<rparr>"

subsection \<open>Supervisor level\<close>

definition csr_scounteren_write :: "hart \<Rightarrow> 12 word \<Rightarrow> u32 \<Rightarrow> hart" where
  "csr_scounteren_write h csr value = set_blob csr value h"

definition csr_scounteren_read :: "hart \<Rightarrow> 12 word \<Rightarrow> u32 \<times> hart" where
  "csr_scounteren_read h csr = (csrs h csr, h)"

definition csr_scounteren_reset :: "hart \<Rightarrow> 12 word \<Rightarrow> hart" where
  "csr_scounteren_reset h csr = set_blob csr 0 h"

definition scounteren_csr_entry :: "csr_registery_entry" where
  "scounteren_csr_entry = \<lparr>csr_addr = 0x106, csr_registery = \<lparr>wpri_mask = WPRI_MASK_ALL, csr_write = Some csr_scounteren_write,
     csr_read = Some csr_scounteren_read, csr_reset = Some csr_scounteren_reset\<rparr>\<rparr>"

definition csr_satp_write :: "hart \<Rightarrow> 12 word \<Rightarrow> u32 \<Rightarrow> hart" where
  "csr_satp_write h csr value = flush_translation_cache ((set_blob csr value h)\<lparr>itlb := invalidate_tlb (itlb h), dtlb := invalidate_tlb (dtlb h)\<rparr>)"

definition csr_satp_read :: "hart \<Rightarrow> 12 word \<Rightarrow> u32 \<times> hart" where
  "csr_satp_read h csr = (csrs h csr, h)"

definition csr_satp_reset :: "hart \<Rightarrow> 12 word \<Rightarrow> hart" where
  "csr_satp_reset h csr = set_blob csr 0 h"

definition satp_csr_entry :: "csr_registery_entry" where
  "satp_csr_entry = \<lparr>csr_addr = ucast CSR_ADDRESS_SATP, csr_registery = \<lparr>wpri_mask = WPRI_MASK_ALL, csr_write = Some csr_satp_write,
     csr_read = Some csr_satp_read, csr_reset = Some csr_satp_reset\<rparr>\<rparr>"

text \<open>The bits of an interrupt word, which is a union of a word and bit fields.\<close>

definition irq_bit :: "nat \<Rightarrow> u32 \<Rightarrow> u32" where
  "irq_bit n dword = drop_bit n dword AND 1"

definition set_irq_bit :: "nat \<Rightarrow> u32 \<Rightarrow> u32 \<Rightarrow> u32" where
  "set_irq_bit n b dword = (dword AND NOT (push_bit n 1)) OR push_bit n (b AND 1)"

definition csr_sie_write :: "hart \<Rightarrow> 12 word \<Rightarrow> u32 \<Rightarrow> hart" where
  "csr_sie_write h csr value = h\<lparr>ienable := set_irq_bit 9 (drop_bit 9 value AND 0x1) (set_irq_bit 5 (drop_bit 5 value AND 0x1)
     (set_irq_bit 1 (drop_bit 1 value AND 0x1) (ienable h)))\<rparr>"

definition csr_sie_read :: "hart \<Rightarrow> 12 word \<Rightarrow> u32 \<times> hart" where
  "csr_sie_read h csr = (push_bit 0 (irq_bit 0 (ienable h)) OR push_bit 1 (irq_bit 1 (ienable h)) OR push_bit 4 (irq_bit 4 (ienable h)) OR
     push_bit 5 (irq_bit 5 (ienable h)) OR push_bit 8 (irq_bit 8 (ienable h)) OR push_bit 9 (irq_bit 9 (ienable h)), h)"

definition sie_csr_entry :: "csr_registery_entry" where
  "sie_csr_entry = \<lparr>csr_addr = ucast CSR_ADDRESS_SIE, csr_registery = \<lparr>wpri_mask = 0x00000222, csr_write = Some csr_sie_write,
     csr_read = Some csr_sie_read, csr_reset = None\<rparr>\<rparr>"

text \<open>Only the software interrupt can be written in \<open>sip\<close>.\<close>

definition csr_sip_write :: "hart \<Rightarrow> 12 word \<Rightarrow> u32 \<Rightarrow> hart" where
  "csr_sip_write h csr value = h\<lparr>ipending := set_irq_bit 1 (drop_bit 1 value AND 0x1) (ipending h)\<rparr>"

definition csr_sip_read :: "hart \<Rightarrow> 12 word \<Rightarrow> u32 \<times> hart" where
  "csr_sip_read h csr = (push_bit 1 (irq_bit 1 (ipending h)) OR push_bit 5 (irq_bit 5 (ipending h)) OR push_bit 9 (irq_bit 9 (ipending h)), h)"

definition sip_csr_entry :: "csr_registery_entry" where
  "sip_csr_entry = \<lparr>csr_addr = ucast CSR_ADDRESS_SIP, csr_registery = \<lparr>wpri_mask = 0x00000222, csr_write = Some csr_sip_write,
     csr_read = Some csr_sip_read, csr_reset = None\<rparr>\<rparr>"

definition csr_sstatus_write :: "hart \<Rightarrow> 12 word \<Rightarrow> u32 \<Rightarrow> hart" where
  "csr_sstatus_write h csr value = h\<lparr>status := (status h)\<lparr>uie := ucast (drop_bit 0 value AND 0x1), sie := ucast (drop_bit 1 value AND 0x1),
     upie := ucast (drop_bit 4 value AND 0x1), spie := ucast (drop_bit 5 value AND 0x1), spp := ucast (drop_bit 8 value AND 0x1)\<rparr>\<rparr>"

definition csr_sstatus_read :: "hart \<Rightarrow> 12 word \<Rightarrow> u32 \<times> hart" where
  "csr_sstatus_read h csr = (push_bit 0 (ucast (uie (status h))) OR push_bit 1 (ucast (sie (status h))) OR push_bit 4 (ucast (upie (status h))) OR
     push_bit 5 (ucast (spie (status h))) OR push_bit 8 (ucast (spp (status h))), h)"

definition sstatus_csr_entry :: "csr_registery_entry" where
  "sstatus_csr_entry = \<lparr>csr_addr = ucast CSR_ADDRESS_SSTATUS, csr_registery = \<lparr>wpri_mask = 0x00000133, csr_write = Some csr_sstatus_write,
     csr_read = Some csr_sstatus_read, csr_reset = None\<rparr>\<rparr>"

definition csr_stvec_write :: "hart \<Rightarrow> 12 word \<Rightarrow> u32 \<Rightarrow> hart" where
  "csr_stvec_write h csr value = set_blob csr value h"

definition csr_stvec_read :: "hart \<Rightarrow> 12 word \<Rightarrow> u32 \<times> hart" where
  "csr_stvec_read h csr = (csrs h csr, h)"

definition csr_stvec_reset :: "hart \<Rightarrow> 12 word \<Rightarrow> hart" where
  "csr_stvec_reset h csr = set_blob csr 0 h"

definition stvec_csr_entry :: "csr_registery_entry" where
  "stvec_csr_entry = \<lparr>csr_addr = ucast CSR_ADDRESS_STVEC, csr_registery = \<lparr>wpri_mask = WPRI_MASK_ALL, csr_write = Some csr_stvec_write,
     csr_read = Some csr_stvec_read, csr_reset = Some csr_stvec_reset\<rparr>\<rparr>"

definition csr_sscratch_write :: "hart \<Rightarrow> 12 word \<Rightarrow> u32 \<Rightarrow> hart" where
  "csr_sscratch_write h csr value = set_blob csr value h"

definition csr_sscratch_read :: "hart \<Rightarrow> 12 word \<Rightarrow> u32 \<times> hart" where
  "csr_sscratch_read h csr = (csrs h csr, h)"

definition csr_sscratch_reset :: "hart \<Rightarrow> 12 word \<Rightarrow> hart" where
  "csr_sscratch_reset h csr = set_blob csr 0 h"

definition sscratch_csr_entry :: "csr_registery_entry" where
  "sscratch_csr_entry = \<lparr>csr_addr = ucast CSR_ADDRESS_SSCRATCH, csr_registery = \<lparr>wpri_mask = WPRI_MASK_ALL, csr_write = Some csr_sscratch_write,
     csr_read = Some csr_sscratch_read, csr_reset = Some csr_sscratch_reset\<rparr>\<rparr>"

definition csr_sepc_write :: "hart \<Rightarrow> 12 word \<Rightarrow> u32 \<Rightarrow> hart" where
  "csr_sepc_write h csr value = set_blob csr value h"

definition csr_sepc_read :: "hart \<Rightarrow> 12 word \<Rightarrow> u32 \<times> hart" where
  "csr_sepc_read h csr = (csrs h csr, h)"

definition csr_sepc_reset :: "hart \<Rightarrow> 12 word \<Rightarrow> hart" where
  "csr_sepc_reset h csr = set_blob csr 0 h"

definition sepc_csr_entry :: "csr_registery_entry" where
  "sepc_csr_entry = \<lparr>csr_addr = ucast CSR_ADDRESS_SEPC, csr_registery = \<lparr>wpri_mask = WPRI_MASK_ALL, csr_write = Some csr_sepc_write,
     csr_read = Some csr_sepc_read, csr_reset = Some csr_sepc_reset\<rparr>\<rparr>"

definition csr_stval_write :: "hart \<Rightarrow> 12 word \<Rightarrow> u32 \<Rightarrow> hart" where
  "csr_stval_write h csr value = set_blob csr value h"

definition csr_stval_read :: "hart \<Rightarrow> 12 word \<Rightarrow> u32 \<times> hart" where
  "csr_stval_read h csr = (csrs h csr, h)"

definition csr_stval_reset :: "hart \<Rightarrow> 12 word \<Rightarrow> hart" where
  "csr_stval_reset h csr = set_blob csr 0 h"

definition stval_csr_entry :: "csr_registery_entry" where
  "stval_csr_entry = \<lparr>csr_addr = ucast CSR_ADDRESS_STVAL, csr_registery = \<lparr>wpri_mask = WPRI_MASK_ALL, csr_write = Some csr_stval_write,
     csr_read = Some csr_stval_read, csr_reset = Some csr_stval_reset\<rparr>\<rparr>"

definition csr_scause_write :: "hart \<Rightarrow> 12 word \<Rightarrow> u32 \<Rightarrow> hart" where
  "csr_scause_write h csr value = set_blob csr value h"

definition csr_scause_read :: "hart \<Rightarrow> 12 word \<Rightarrow> u32 \<times> hart" where
  "csr_scause_read h csr = (csrs h csr, h)"

definition csr_scause_reset :: "hart \<Rightarrow> 12 word \<Rightarrow> hart" where
  "csr_scause_reset h csr = set_blob csr 0 h"

definition scause_csr_entry :: "csr_registery_entry" where
  "scause_csr_entry = \<lparr>csr_addr = ucast CSR_ADDRESS_SCAUSE, csr_registery = \<lparr>wpri_mask = WPRI_MASK_ALL, csr_write = Some csr_scause_write,
     csr_read = Some csr_scause_read, csr_reset = Some csr_scause_reset\<rparr>\<rparr>"

subsection \<open>Registration\<close>

text \<open>
  The constructors of the four files; \<open>register\<close> is the function that they call for every entry.
  In \<open>csr.h\<close> its body is compiled out, so the list that it returns is the list that it gets; with
  the body it would be \<open>(#)\<close>.
\<close>

definition register_csr_entry :: "csr_registery_entry \<Rightarrow> csr_registery_entry list \<Rightarrow> csr_registery_entry list" where
  "register_csr_entry entry csr_registery_head = csr_registery_head"

type_synonym csr_register = "csr_registery_entry \<Rightarrow> csr_registery_entry list \<Rightarrow> csr_registery_entry list"

definition csr_machine_level_init :: "csr_register \<Rightarrow> csr_registery_entry list \<Rightarrow> csr_registery_entry list" where
  "csr_machine_level_init register = fold register
     [misa_csr_entry, mscratch_csr_entry, mvendorid_csr_entry, mhartid_csr_entry, mtvec_csr_entry, mcounteren_csr_entry, mie_csr_entry,
      mip_csr_entry, medeleg_csr_entry, mideleg_csr_entry, mstatus_csr_entry, mepc_csr_entry, mcause_csr_entry, mtval_csr_entry]"

definition csr_machine_level_pmp_init :: "csr_register \<Rightarrow> csr_registery_entry list \<Rightarrow> csr_registery_entry list" where
  "csr_machine_level_pmp_init register = fold register
     (map pmpaddr_csr_entry [0, 1, 2, 3, 4, 5, 6, 7, 8, 9, 10, 11, 12, 13, 14, 15] @ map pmpcfg_csr_entry [0, 1, 2, 3])"

definition csr_misc_init :: "u64 \<Rightarrow> csr_register \<Rightarrow> csr_registery_entry list \<Rightarrow> csr_registery_entry list" where
  "csr_misc_init host_tsc register = fold register [time_csr_entry host_tsc, timeh_csr_entry]"

definition csr_supervisor_level_init :: "csr_register \<Rightarrow> csr_registery_entry list \<Rightarrow> csr_registery_entry list" where
  "csr_supervisor_level_init register = fold register
     [scounteren_csr_entry, satp_csr_entry, sie_csr_entry, sip_csr_entry, sstatus_csr_entry, stvec_csr_entry, sscratch_csr_entry,
      sepc_csr_entry, stval_csr_entry, scause_csr_entry]"

definition all_csrs :: "u64 \<Rightarrow> csr_register \<Rightarrow> csr_registery_entry list" where
  "all_csrs host_tsc register =
     csr_supervisor_level_init register (csr_misc_init host_tsc register (csr_machine_level_pmp_init register (csr_machine_level_init register [])))"

lemmas csr_handler_defs = csr_mscratch_write_def csr_mscratch_read_def csr_misa_write_def csr_misa_read_def csr_misa_reset_def
  csr_mvendorid_read_def csr_mvendorid_reset_def csr_mhartid_read_def csr_mtvec_write_def csr_mtvec_read_def csr_mtvec_reset_def
  csr_mcounteren_write_def csr_mcounteren_read_def csr_mcounteren_reset_def csr_mie_write_def csr_mie_read_def csr_mie_reset_def
  csr_mip_write_def csr_mip_read_def csr_mip_reset_def csr_medeleg_write_def csr_medeleg_read_def csr_medeleg_reset_def
  csr_mideleg_write_def csr_mideleg_read_def csr_mideleg_reset_def csr_mstatus_write_def csr_mstatus_read_def csr_mstatus_reset_def
  csr_mepc_write_def csr_mepc_read_def csr_mepc_reset_def csr_mcause_write_def csr_mcause_read_def csr_mcause_reset_def
  csr_mtval_write_def csr_mtval_read_def csr_mtval_reset_def csr_pmpaddr_write_def csr_pmpaddr_read_def csr_pmpaddr_reset_def
  csr_pmpcfg_write_def csr_pmpcfg_read_def csr_pmpcfg_reset_def csr_time_write_def csr_time_read_def csr_timeh_write_def
  csr_timeh_read_def csr_scounteren_write_def csr_scounteren_read_def csr_scounteren_reset_def csr_satp_write_def csr_satp_read_def
  csr_satp_reset_def csr_sie_write_def csr_sie_read_def csr_sip_write_def csr_sip_read_def csr_sstatus_write_def
  csr_sstatus_read_def csr_stvec_write_def csr_stvec_read_def csr_stvec_reset_def csr_sscratch_write_def csr_sscratch_read_def
  csr_sscratch_reset_def csr_sepc_write_def csr_sepc_read_def csr_sepc_reset_def csr_stval_write_def csr_stval_read_def
  csr_stval_reset_def csr_scause_write_def csr_scause_read_def csr_scause_reset_def set_blob_def irq_bit_def set_irq_bit_def

lemmas csr_entry_defs = mscratch_csr_entry_def misa_csr_entry_def mvendorid_csr_entry_def mhartid_csr_entry_def mtvec_csr_entry_def
  mcounteren_csr_entry_def mie_csr_entry_def mip_csr_entry_def medeleg_csr_entry_def mideleg_csr_entry_def mstatus_csr_entry_def
  mepc_csr_entry_def mcause_csr_entry_def mtval_csr_entry_def pmpaddr_csr_entry_def pmpcfg_csr_entry_def time_csr_entry_def
  timeh_csr_entry_def scounteren_csr_entry_def satp_csr_entry_def sie_csr_entry_def sip_csr_entry_def sstatus_csr_entry_def
  stvec_csr_entry_def sscratch_csr_entry_def sepc_csr_entry_def stval_csr_entry_def scause_csr_entry_def
  PMPADDR_BASE_def PMPCFG_BASE_def

lemmas csr_address_defs = trap_csrs CSR_ADDRESS_MSCRATCH_def CSR_ADDRESS_MSTATUS_def CSR_ADDRESS_MIDELEG_def CSR_ADDRESS_MIP_def
  CSR_ADDRESS_MIE_def CSR_ADDRESS_SIE_def CSR_ADDRESS_SIP_def CSR_ADDRESS_SSTATUS_def CSR_ADDRESS_SSCRATCH_def CSR_ADDRESS_TIME_def
  CSR_ADDRESS_TIMEH_def

end
