(* ===== verification/Csr_Access.thy ===== *)
theory Csr_Access
  imports Csr_Registers Translation
begin

text \<open>
  Instructions on control and status registers: the registration of \<open>sandbox/csr.h\<close> and
  \<open>sandbox/hart.c\<close>, the callback and the translator of \<open>sandbox/csr_representation.c\<close>. The effect of the
  callback is given by the fields of the instruction; the laws that this needs of the registers are a locale. As
  the sources are compiled no register is installed and no translator calls the callback.
\<close>

subsection \<open>Installing registers\<close>

type_synonym csr_table = "12 word \<rightharpoonup> csr_entry"

fun csr_registery_init :: "csr_registery_entry list \<Rightarrow> hart \<times> csr_table \<Rightarrow> (hart \<times> csr_table) option" where
  "csr_registery_init [] (h, csrs_base) = Some (h, csrs_base)"
| "csr_registery_init (ptr # next) (h, csrs_base) =
     ASSERT (csr_addr ptr AND 0xfffff000 = 0)
       (let csr = ucast (csr_addr ptr AND 0xfff); entry = csr_registery ptr; h1 = set_blob csr 0 h in
        csr_registery_init next
          (case csr_reset entry of None \<Rightarrow> h1 | Some reset \<Rightarrow> reset h1 csr, csrs_base(csr \<mapsto> entry)))"

subsection \<open>The callback\<close>

definition read_csr :: "csr_entry \<Rightarrow> hart \<Rightarrow> 12 word \<Rightarrow> u32 \<times> hart" where
  "read_csr csr h a =
     (let (value_to_read, h1) = (case csr_read csr of None \<Rightarrow> (0, h) | Some read \<Rightarrow> read h a)
      in (value_to_read AND wpri_mask csr, h1))"

definition write_csr :: "csr_entry \<Rightarrow> hart \<Rightarrow> 12 word \<Rightarrow> u32 \<Rightarrow> hart" where
  "write_csr csr h a value = (case csr_write csr of None \<Rightarrow> h | Some write \<Rightarrow> write h a (value AND wpri_mask csr))"

definition riscv_generic_csr_callback :: "csr_table \<Rightarrow> hart \<Rightarrow> u64 \<Rightarrow> hart option" where
  "riscv_generic_csr_callback csrs_base h instruction =
     ASSERT (hart_magic h = HART_MAGIC_WORD)
     (ASSERT (instruction AND 0x7f = ucast RISCV_OPCODE_SUPERVISOR_LEVEL)
     (Option.bind (instruction_decoding_per_type (ucast instruction) ENCODING_TYPE_I) (\<lambda>dec.
      let a = ucast (imm dec AND 0xfff); rs1_reg = registers h ! unat (rs1_index dec) in
      case csrs_base a of
        None \<Rightarrow> None
      | Some csr \<Rightarrow>
          if funct3 dec = 0x1 \<or> funct3 dec = 0x5 then
            let h1 = (if rd_index dec \<noteq> 0 then let (value_to_read, h1) = read_csr csr h a in write_reg (rd_index dec) value_to_read h1 else h)
            in Some (write_csr csr h1 a (if funct3 dec = 0x1 then rs1_reg else ucast (rs1_index dec)))
          else if funct3 dec = 0x2 \<or> funct3 dec = 0x6 then
            let (value_to_read, h1) = read_csr csr h a; h2 = write_reg (rd_index dec) value_to_read h1;
                value_to_set = (if funct3 dec = 0x2 then rs1_reg else ucast (rs1_index dec AND 0x1f))
            in Some (if rs1_index dec \<noteq> 0 then write_csr csr h2 a (value_to_read OR value_to_set) else h2)
          else if funct3 dec = 0x3 \<or> funct3 dec = 0x7 then
            let (value_to_read, h1) = read_csr csr h a; h2 = write_reg (rd_index dec) value_to_read h1;
                value_to_clear = (if funct3 dec = 0x3 then rs1_reg else ucast (rs1_index dec AND 0x1f))
            in Some (if rs1_index dec \<noteq> 0 then write_csr csr h2 a (value_to_read AND NOT value_to_clear) else h2)
          else None)))"

definition csr_instructions_code :: "x86 list" where
  "csr_instructions_code = BEGIN_TRANSLATION @
     [Movq R12 RDI, Movl_param 0 RSI, Movq_sym riscv_generic_csr_callback_sym RAX]
     @ SAVE_GUEST_CONTEXT_SWITCH_REGS @ [Call RAX] @ RESTORE_GUEST_CONTEXT_SWITCH_REGS
     @ RESET_ZERO_REGISTER @ PROCEED_TO_NEXT_INSTRUCTION @ TRAP_TO_VMM"

definition riscv_generic_csr_instructions_translator :: "u32 \<Rightarrow> instruction_sub_translator" where
  "riscv_generic_csr_instructions_translator instruction lay dec blob h =
     emit_translation lay ''csr_instructions'' csr_instructions_code [instruction] True blob h"

text \<open>
  As the sources are compiled, the registry is empty, \<open>hart_init\<close> installs nothing and the callback
  would stop the process.
\<close>

lemma csrs_not_installed:
  "csr_registery_init (all_csrs host_tsc register_csr_entry) (h, Map.empty) = Some (h, Map.empty)"
  "riscv_generic_csr_callback Map.empty h instruction = None"
  by (simp_all add: all_csrs_def csr_machine_level_init_def csr_machine_level_pmp_init_def csr_misc_init_def
      csr_supervisor_level_init_def register_csr_entry_def riscv_generic_csr_callback_def Let_def)

subsection \<open>What the callback does\<close>

text \<open>
  The effect of the callback in terms of the fields of the instruction: the register is read into
  \<open>rd\<close> and written. The exchange does not read for \<open>x0\<close>, setting and clearing bits do not write if
  the source field is 0. Bits outside the mask of the register read as 0 and are not written. This
  describes the code, not the instruction set, which also demands an illegal instruction trap for a
  write to a read-only register and for a register of a higher privilege level.
\<close>

definition csr_operand :: "u32 \<Rightarrow> hart \<Rightarrow> u32" where
  "csr_operand w h = (if rv_funct3 w AND 4 = 0 then rv_x h (rv_rs1 w) else ucast (rv_rs1 w))"

definition csr_effect :: "csr_table \<Rightarrow> hart \<Rightarrow> u32 \<Rightarrow> hart option" where
  "csr_effect csrs_base h w =
     (let a = ucast (rv_bits w 31 20); op = rv_funct3 w AND 3; x = csr_operand w h in
      if op = 0 then None
      else case csrs_base a of
        None \<Rightarrow> None
      | Some csr \<Rightarrow>
          let (old, h1) = (if op = 1 \<and> rv_rd w = 0 then (0, h) else read_csr csr h a); h2 = rv_set (rv_rd w) old h1
          in Some (if op = 1 then write_csr csr h2 a x
            else if rv_rs1 w = 0 then h2
            else write_csr csr h2 a (if op = 2 then old OR x else old AND NOT x)))"

lemma csr_fields:
  "(ucast (imm d AND 0xfff) :: 12 word) = ucast (rv_bits w 31 20)" "funct3 d = ucast (rv_funct3 w)" "rd_index d = ucast (rv_rd w)"
  "rs1_index d = ucast (rv_rs1 w)" if "instruction_decoding_per_type w ENCODING_TYPE_I = Some d"
proof -
  have d: "d = (cleared_decoding ENCODING_TYPE_I w)\<lparr>rd_index := ucast (drop_bit 7 w AND 0x1f), funct3 := ucast (drop_bit 12 w AND 7),
      rs1_index := ucast (drop_bit 15 w AND 0x1f), imm := drop_bit 20 w AND 0xfff\<rparr>" using that by simp
  show "(ucast (imm d AND 0xfff) :: 12 word) = ucast (rv_bits w 31 20)"
    by (rule bit_word_eqI) (auto simp: d rv_bits_def and_field_masks bit_simps)
  show "funct3 d = ucast (rv_funct3 w)" "rd_index d = ucast (rv_rd w)" "rs1_index d = ucast (rv_rs1 w)"
    by (simp_all add: d decode_small_field decode_reg_field)
qed

lemma small_word_cases:
  assumes "(x :: u32) < 8"
  shows "x = 0 \<or> x = 1 \<or> x = 2 \<or> x = 3 \<or> x = 4 \<or> x = 5 \<or> x = 6 \<or> x = 7"
proof -
  have "unat x < 8" using assms by (simp add: word_less_nat_alt)
  then have "unat x \<in> {0, 1, 2, 3, 4, 5, 6, 7}" by auto
  moreover have "x = of_nat (unat x)" by simp
  ultimately show ?thesis by (elim insertE; simp only: empty_iff) simp_all
qed

lemma clear_zero_wf: "wf_hart h \<Longrightarrow> clear_zero h = h"
proof -
  assume "wf_hart h"
  then have "registers h ! 0 = 0" by (simp add: wf_hart_def)
  then have "(registers h)[0 := 0] = registers h" by (metis list_update_id)
  then show "clear_zero h = h" by (simp add: clear_zero_def)
qed

lemma unat_reg_index: "unat (ucast (r :: 5 word) :: u8) = unat r"
  by transfer (simp add: take_bit_eq_mod)

lemma reg_index_mask: "(ucast (r :: 5 word) :: u8) AND 0x1f = ucast r"
proof -
  have "x AND (0x1f :: u8) = take_bit 5 x" for x by (simp add: take_bit_eq_mask mask_numeral numeral_eq_Suc mask_Suc_exp)
  then show ?thesis by (intro bit_word_eqI) (auto simp: bit_simps dest: bit_imp_le_length)
qed

lemma reg_index_zero: "(ucast (r :: 5 word) :: u8) = 0 \<longleftrightarrow> r = 0"
proof
  assume "(ucast r :: u8) = 0"
  then have "(ucast (ucast r :: u8) :: u32) = 0" by simp
  then have "unat (ucast r :: u32) = 0" by simp
  then show "r = 0" by (simp add: unat_eq_0)
qed simp

locale csr_file =
  fixes csrs_base :: csr_table
  assumes write_frame: "csrs_base a = Some csr \<Longrightarrow> csr_write csr = Some f \<Longrightarrow> f (h\<lparr>registers := r\<rparr>) a v = (f h a v)\<lparr>registers := r\<rparr>"
    and read_frame: "csrs_base a = Some csr \<Longrightarrow> csr_read csr = Some g \<Longrightarrow>
      g (h\<lparr>registers := r\<rparr>) a = (fst (g h a), (snd (g h a))\<lparr>registers := r\<rparr>)"
    and write_magic: "csrs_base a = Some csr \<Longrightarrow> csr_write csr = Some f \<Longrightarrow> hart_magic (f h a v) = hart_magic h"
    and read_magic: "csrs_base a = Some csr \<Longrightarrow> csr_read csr = Some g \<Longrightarrow> hart_magic (snd (g h a)) = hart_magic h"
begin

lemma write_csr_frame: "csrs_base a = Some csr \<Longrightarrow> write_csr csr (h\<lparr>registers := r\<rparr>) a v = (write_csr csr h a v)\<lparr>registers := r\<rparr>"
  by (auto simp: write_csr_def write_frame split: option.splits)

lemma read_csr_frame:
  "csrs_base a = Some csr \<Longrightarrow> read_csr csr (h\<lparr>registers := r\<rparr>) a = (fst (read_csr csr h a), (snd (read_csr csr h a))\<lparr>registers := r\<rparr>)"
  by (auto simp: read_csr_def read_frame split: option.splits prod.splits)

lemma write_csr_registers: "csrs_base a = Some csr \<Longrightarrow> registers (write_csr csr h a v) = registers h"
  using write_csr_frame [where h = h and r = "registers h" and v = v] by (metis hart.select_convs(1) hart.surjective hart.update_convs(1))

lemma read_csr_registers: "csrs_base a = Some csr \<Longrightarrow> registers (snd (read_csr csr h a)) = registers h"
  using read_csr_frame [where h = h and r = "registers h"] by (metis hart.select_convs(1) hart.surjective hart.update_convs(1) snd_conv)

text \<open>A write of \<open>x0\<close> by the callback is undone by the template.\<close>

lemma write_reg_reset:
  assumes "wf_hart h"
  shows "clear_zero (write_reg (ucast rd) v h) = rv_set rd v h"
    "csrs_base a = Some csr \<Longrightarrow> clear_zero (write_csr csr (write_reg (ucast rd) v h) a x) = write_csr csr (rv_set rd v h) a x"
proof -
  have z: "(registers h)[0 := 0] = registers h" "length (registers h) = 32"
    using clear_zero_wf [OF assms] assms by (simp_all add: clear_zero_def wf_hart_def hart.defs) (metis hart.select_convs(1) hart.surjective hart.update_convs(1))
  have nz: "0 < unat rd" if "rd \<noteq> 0" using that by (simp add: unat_gt_0)
  show 1: "clear_zero (write_reg (ucast rd) v h) = rv_set rd v h"
    using z nz by (simp add: clear_zero_def write_reg_def rv_set_def unat_reg_index list_update_swap)
  assume c: "csrs_base a = Some csr"
  have "clear_zero (write_csr csr (write_reg (ucast rd) v h) a x) = (write_csr csr h a x)\<lparr>registers := registers (rv_set rd v h)\<rparr>"
    using 1 write_csr_frame [OF c] by (simp add: clear_zero_def write_reg_def) (metis hart.select_convs(1) hart.surjective hart.update_convs(1))
  also have "\<dots> = write_csr csr (rv_set rd v h) a x" using write_csr_frame [OF c, symmetric] by (simp add: rv_set_def write_csr_registers [OF c])
  finally show "clear_zero (write_csr csr (write_reg (ucast rd) v h) a x) = write_csr csr (rv_set rd v h) a x" .
qed

text \<open>The callback, followed by the reset of \<open>x0\<close> in the template, has this effect.\<close>

lemma callback_effect:
  assumes wf: "wf_hart h" "hart_magic h = HART_MAGIC_WORD" and op: "rv_opcode w = 0x73" "rv_funct3 w AND 3 \<noteq> 0"
  shows "map_option clear_zero (riscv_generic_csr_callback csrs_base h (ucast w)) = csr_effect csrs_base h w"
proof -
  let ?a = "ucast (rv_bits w 31 20) :: 12 word"
  obtain d where d: "instruction_decoding_per_type w ENCODING_TYPE_I = Some d" by simp
  have w: "(ucast (ucast w :: u64) :: u32) = w" by simp
  have "(ucast w :: u64) AND 0x7f = ucast (w AND 0x7f)" by (rule bit_word_eqI) (auto simp: bit_simps dest: bit_imp_le_length)
  also have "w AND 0x7f = 0x73" using op(1) by (simp add: rv_opcode_def rv_bits_def and_field_masks)
  finally have opc: "(ucast w :: u64) AND 0x7f = ucast RISCV_OPCODE_SUPERVISOR_LEVEL" by (simp add: RISCV_OPCODE_SUPERVISOR_LEVEL_def)
  have "rv_funct3 w < 8"
    using take_bit_nat_less_exp [of 3 "unat (drop_bit 12 w)"]
    by (simp add: rv_funct3_def rv_bits_def word_less_nat_alt unsigned_take_bit_eq)
  show ?thesis
  proof (cases "csrs_base ?a")
    case None
    then show ?thesis
      by (simp only: riscv_generic_csr_callback_def csr_effect_def w d opc Let_def bind.bind_lunit csr_fields [OF d] wf(2) ASSERT_True option.simps op if_False)
        simp
  next
    case (Some csr)
    obtain old h1 where rd: "read_csr csr h ?a = (old, h1)" by fastforce
    have "wf_hart h1" using read_csr_registers [OF Some, of h] rd wf(1) by (simp add: wf_hart_def)
    note put = write_reg_reset [OF this] write_reg_reset [OF wf(1)]
    have x: "registers h ! unat (ucast (rv_rs1 w) :: u8) = rv_x h (rv_rs1 w)"
      using wf(1) by (simp add: rv_x_def wf_hart_def unat_reg_index)
    note z = reg_index_mask [of "rv_rs1 w"]
    have keep: "clear_zero (write_csr csr h ?a y) = write_csr csr h ?a y" for y
      using wf(1) write_csr_registers [OF Some] by (intro clear_zero_wf) (simp add: wf_hart_def)
    note steps = riscv_generic_csr_callback_def csr_effect_def csr_operand_def w d opc Let_def bind.bind_lunit csr_fields [OF d] wf(2) ASSERT_True option.simps
      Some rd prod.case x z reg_index_zero
    from small_word_cases [OF \<open>rv_funct3 w < 8\<close>] op(2) consider "rv_funct3 w = 1" | "rv_funct3 w = 2" | "rv_funct3 w = 3"
      | "rv_funct3 w = 5" | "rv_funct3 w = 6" | "rv_funct3 w = 7" by auto
    then show ?thesis
    proof cases
      case 1
      then show ?thesis using put(2) [OF Some] keep by (simp only: steps) (simp add: rv_set_def)
    next
      case 2
      then show ?thesis using put(1) put(2) [OF Some] by (simp only: steps) simp
    next
      case 3
      then show ?thesis using put(1) put(2) [OF Some] by (simp only: steps) simp
    next
      case 4
      then show ?thesis using put(2) [OF Some] keep by (simp only: steps) (simp add: rv_set_def)
    next
      case 5
      then show ?thesis using put(1) put(2) [OF Some] by (simp only: steps) simp
    next
      case 6
      then show ?thesis using put(1) put(2) [OF Some] by (simp only: steps) simp
    qed
  qed
qed

end

text \<open>Registers of which the masked value that is written is the value that is read.\<close>

locale csr_storage = csr_file +
  fixes stored :: "12 word \<rightharpoonup> u32"
  assumes stored_law: "stored a = Some wm \<Longrightarrow>
    \<exists>csr. csrs_base a = Some csr \<and> (\<forall>h v. fst (read_csr csr (write_csr csr h a v) a) = v AND wm)"
begin

lemma csr_keeps:
  assumes "csrs_base a = Some csr"
  shows "wf_hart (write_csr csr h a v) = wf_hart h" "wf_hart (snd (read_csr csr h a)) = wf_hart h"
    "hart_magic (write_csr csr h a v) = hart_magic h" "hart_magic (snd (read_csr csr h a)) = hart_magic h"
proof -
  show "wf_hart (write_csr csr h a v) = wf_hart h" "wf_hart (snd (read_csr csr h a)) = wf_hart h"
    using write_csr_registers [OF assms] read_csr_registers [OF assms] by (simp_all add: wf_hart_def)
  show "hart_magic (write_csr csr h a v) = hart_magic h" "hart_magic (snd (read_csr csr h a)) = hart_magic h"
    by (auto simp: write_csr_def read_csr_def case_prod_beta Let_def write_magic [OF assms] read_magic [OF assms] split: option.splits)
qed

lemma effect_keeps:
  assumes "csr_effect csrs_base h w = Some h'" "wf_hart h"
  shows "wf_hart h' \<and> hart_magic h' = hart_magic h"
proof -
  let ?a = "ucast (rv_bits w 31 20) :: 12 word"
  obtain csr where csr: "csrs_base ?a = Some csr" using assms(1) by (auto simp: csr_effect_def Let_def split: if_splits option.splits)
  have magic: "hart_magic (rv_set r v x) = hart_magic x" for r v x by (simp add: rv_set_def)
  show ?thesis
    using assms csr_keeps [OF csr] wf_rv_set
    by (auto simp: csr_effect_def Let_def csr case_prod_beta magic split: if_splits)
qed

text \<open>The three kinds of access, on a register whose value is the last that was written.\<close>

definition csr_value :: "12 word \<Rightarrow> u32 \<Rightarrow> hart \<Rightarrow> bool" where
  "csr_value a v h \<longleftrightarrow> (\<exists>csr. csrs_base a = Some csr \<and> fst (read_csr csr h a) = v)"

lemma exchange_holds:
  assumes "stored (ucast (rv_bits w 31 20)) = Some wm" "rv_funct3 w AND 3 = 1"
  shows "\<exists>h'. csr_effect csrs_base h w = Some h' \<and> csr_value (ucast (rv_bits w 31 20)) (csr_operand w h AND wm) h'"
proof -
  obtain csr where "csrs_base (ucast (rv_bits w 31 20)) = Some csr"
    "\<And>h v. fst (read_csr csr (write_csr csr h (ucast (rv_bits w 31 20)) v) (ucast (rv_bits w 31 20))) = v AND wm"
    using stored_law [OF assms(1)] by blast
  with assms(2) show ?thesis by (auto simp: csr_effect_def csr_value_def Let_def case_prod_beta)
qed

lemma modify_holds:
  assumes "stored (ucast (rv_bits w 31 20)) = Some wm" "rv_funct3 w AND 3 = 2 \<or> rv_funct3 w AND 3 = 3" "rv_rs1 w \<noteq> 0"
    and "csr_value (ucast (rv_bits w 31 20)) (v AND wm) h" "wf_hart h"
  shows "\<exists>h'. csr_effect csrs_base h w = Some h' \<and> (rv_rd w \<noteq> 0 \<longrightarrow> rv_x h' (rv_rd w) = v AND wm) \<and>
    csr_value (ucast (rv_bits w 31 20)) ((if rv_funct3 w AND 3 = 2 then v OR csr_operand w h else v AND NOT (csr_operand w h)) AND wm) h'"
proof -
  let ?a = "ucast (rv_bits w 31 20) :: 12 word" and ?y = "csr_operand w h"
  obtain csr where csr: "csrs_base ?a = Some csr" "\<And>h v. fst (read_csr csr (write_csr csr h ?a v) ?a) = v AND wm"
    using stored_law [OF assms(1)] by blast
  obtain h1 where r: "read_csr csr h ?a = (v AND wm, h1)" using assms(4) csr(1) by (auto simp: csr_value_def) (metis prod.collapse)
  let ?new = "if rv_funct3 w AND 3 = 2 then (v AND wm) OR ?y else (v AND wm) AND NOT ?y"
  let ?h' = "write_csr csr (rv_set (rv_rd w) (v AND wm) h1) ?a ?new"
  have eff: "csr_effect csrs_base h w = Some ?h'"
    using assms(2,3) csr(1) r by (auto simp: csr_effect_def Let_def)
  have "length (registers h1) = 32" using csr_keeps(2) [OF csr(1), of h] r assms(5) by (simp add: wf_hart_def)
  then have "rv_x ?h' (rv_rd w) = v AND wm" if "rv_rd w \<noteq> 0"
    using that unsigned_less [of "rv_rd w"] by (simp add: rv_x_def write_csr_registers [OF csr(1)]) (simp add: rv_set_def)
  moreover have "?new AND wm = (if rv_funct3 w AND 3 = 2 then v OR ?y else v AND NOT ?y) AND wm"
    by (rule bit_word_eqI) (auto simp: bit_simps)
  then have "csr_value ?a ((if rv_funct3 w AND 3 = 2 then v OR ?y else v AND NOT ?y) AND wm) ?h'"
    using csr by (simp only: csr_value_def) auto
  ultimately show ?thesis using eff by blast
qed

lemma read_holds:
  assumes "csr_value (ucast (rv_bits w 31 20)) v h" "rv_funct3 w = 2" "rv_rs1 w = 0" "rv_rd w \<noteq> 0" "wf_hart h"
  shows "\<exists>h'. csr_effect csrs_base h w = Some h' \<and> rv_x h' (rv_rd w) = v"
proof -
  let ?a = "ucast (rv_bits w 31 20) :: 12 word"
  obtain csr h1 where r: "csrs_base ?a = Some csr" "read_csr csr h ?a = (v, h1)"
    using assms(1) by (auto simp: csr_value_def) (metis prod.collapse)
  have "length (registers h1) = 32" using csr_keeps(2) [OF r(1), of h] r(2) assms(5) by (simp add: wf_hart_def)
  then have "rv_x (rv_set (rv_rd w) v h1) (rv_rd w) = v"
    using assms(4) unsigned_less [of "rv_rd w"] by (simp add: rv_x_def rv_set_def)
  with r assms(2,3) show ?thesis by (simp add: csr_effect_def Let_def)
qed

text \<open>Writing a register, changing some of its bits, and reading it, by the callback.\<close>

lemma callback_modifies:
  assumes "wf_hart h" "hart_magic h = HART_MAGIC_WORD" "stored a = Some wm"
    and "\<forall>w\<in>{w1, w2, w3}. rv_opcode w = 0x73 \<and> ucast (rv_bits w 31 20) = a"
    and "rv_funct3 w1 AND 3 = 1" "rv_funct3 w2 AND 3 = 2 \<or> rv_funct3 w2 AND 3 = 3" "rv_rs1 w2 \<noteq> 0"
    and "rv_funct3 w3 = 2" "rv_rs1 w3 = 0" "rv_rd w3 \<noteq> 0"
  defines "run \<equiv> \<lambda>h w. map_option clear_zero (riscv_generic_csr_callback csrs_base h (ucast w))"
  shows "\<exists>h1 h2 h3. run h w1 = Some h1 \<and> run h1 w2 = Some h2 \<and> run h2 w3 = Some h3 \<and>
    (rv_rd w2 \<noteq> 0 \<longrightarrow> rv_x h2 (rv_rd w2) = csr_operand w1 h AND wm) \<and>
    rv_x h3 (rv_rd w3) = (if rv_funct3 w2 AND 3 = 2 then csr_operand w1 h OR csr_operand w2 h1
      else csr_operand w1 h AND NOT (csr_operand w2 h1)) AND wm"
proof -
  have w: "rv_opcode w1 = 0x73" "rv_opcode w2 = 0x73" "rv_opcode w3 = 0x73"
    "ucast (rv_bits w1 31 20) = a" "ucast (rv_bits w2 31 20) = a" "ucast (rv_bits w3 31 20) = a" using assms(4) by auto
  have eff: "run h w = csr_effect csrs_base h w"
    if "wf_hart h" "hart_magic h = HART_MAGIC_WORD" "rv_opcode w = 0x73" "rv_funct3 w AND 3 \<noteq> 0" for h w
    unfolding run_def by (rule callback_effect [OF that])
  obtain h1 where h1: "csr_effect csrs_base h w1 = Some h1" "csr_value a (csr_operand w1 h AND wm) h1"
    using exchange_holds [of w1 wm h] assms(3,5) w(4) by auto
  note k1 = effect_keeps [OF h1(1) assms(1)]
  let ?v = "if rv_funct3 w2 AND 3 = 2 then csr_operand w1 h OR csr_operand w2 h1 else csr_operand w1 h AND NOT (csr_operand w2 h1)"
  have "\<exists>h2. csr_effect csrs_base h1 w2 = Some h2 \<and> (rv_rd w2 \<noteq> 0 \<longrightarrow> rv_x h2 (rv_rd w2) = csr_operand w1 h AND wm) \<and>
      csr_value (ucast (rv_bits w2 31 20)) (?v AND wm) h2"
    by (rule modify_holds) (use assms(3,6,7) h1(2) k1 w(5) in simp_all)
  then obtain h2 where h2: "csr_effect csrs_base h1 w2 = Some h2" "rv_rd w2 \<noteq> 0 \<longrightarrow> rv_x h2 (rv_rd w2) = csr_operand w1 h AND wm"
    "csr_value a (?v AND wm) h2" using w(5) by auto
  note k2 = effect_keeps [OF h2(1) conjunct1 [OF k1]]
  obtain h3 where h3: "csr_effect csrs_base h2 w3 = Some h3" "rv_x h3 (rv_rd w3) = ?v AND wm"
    using read_holds [of w3 "?v AND wm" h2] h2(3) assms(8-10) k2 w(6) by auto
  have "run h w1 = Some h1" "run h1 w2 = Some h2" "run h2 w3 = Some h3"
    using eff [of h w1] eff [of h1 w2] eff [of h2 w3] assms(1,2,5,6,8) w(1-3) k1 k2 h1(1) h2(1) h3(1) by auto
  with h2(2) h3(2) show ?thesis by blast
qed

end

context vmm_calls
begin

text \<open>The template runs the callback on the instruction, clears \<open>x0\<close> and goes on behind the instruction.\<close>

lemma csr_block:
  assumes "entered s h w" "quiet h w"
    and "\<And>args. cc riscv_generic_csr_callback_sym (Vhart 0 # Vint (ucast instruction) # args) h w = Returned r h' w'"
    and "length (registers h') = 32"
  shows "leaves cc [instruction] csr_instructions_code s (rv_next (clear_zero h')) w'"
  unfolding csr_instructions_code_def
  using assms(3) wf_clear_zero [OF assms(4)]
  by (intro leaves_body [OF assms(1,2)]) (auto simp: template_code x86_run rv_ref clear_zero_def)

end

subsection \<open>The registers of the sandbox\<close>

text \<open>The table that \<open>hart_init\<close> would install if the registration were compiled in.\<close>

definition installed_csrs :: "u64 \<Rightarrow> csr_table" where
  "installed_csrs host_tsc =
     map_of (rev (map (\<lambda>e. (ucast (csr_addr e AND 0xfff), csr_registery e)) (all_csrs host_tsc (#))))"

lemma csr_registery_init_table:
  "list_all (\<lambda>e. csr_addr e AND 0xfffff000 = 0) es \<Longrightarrow>
     \<exists>h'. csr_registery_init es (h, t) = Some (h', t ++ map_of (rev (map (\<lambda>e. (ucast (csr_addr e AND 0xfff), csr_registery e)) es)))"
proof (induction es arbitrary: h t)
  case (Cons e es)
  then show ?case by (fastforce simp: Let_def map_of_append)
qed simp

lemma installed_csrs: "\<exists>h'. csr_registery_init (all_csrs host_tsc (#)) (h, Map.empty) = Some (h', installed_csrs host_tsc)"
proof -
  have "list_all (\<lambda>e. csr_addr e AND 0xfffff000 = 0) (all_csrs host_tsc (#))"
    by (simp add: all_csrs_def csr_machine_level_init_def csr_machine_level_pmp_init_def csr_misc_init_def csr_supervisor_level_init_def
        csr_entry_defs csr_address_defs)
  from csr_registery_init_table [OF this, of h Map.empty] show ?thesis by (simp add: installed_csrs_def)
qed

end
