(* ===== verification/Csr_Laws.thy ===== *)
theory Csr_Laws
  imports Csr_Access
begin

unbundle bit_operations_syntax

text \<open>
  Laws of the registers: the supervisor registers are views of the machine registers, the
  handlers leave the general registers alone, and a register with its own storage reads as it was
  written, within its mask. They are the interpretation of the interface of \<open>Csr_Access\<close>.
\<close>

subsection \<open>Views\<close>

lemma low_bit_cases:
  fixes n :: nat
  obtains "n = 0" | "n = Suc 0" | "n = 2" | "n = 3" | "n = 4" | "n = 5" | "n = 6" | "n = 7" | "n = 8" | "n = 9" | "n = 10" | "n = 11" | "n = 12" | "13 \<le> n"
proof -
  have "n \<in> {0, Suc 0, 2, 3, 4, 5, 6, 7, 8, 9, 10, 11, 12}" if "\<not> 13 \<le> n" using that by (simp add: numeral_eq_Suc not_le less_Suc_eq)
  then show thesis using that by blast
qed

lemma masks_high:
  assumes "13 \<le> n"
  shows "\<not> bit (0x19bb :: int) n" "\<not> bit (0x133 :: int) n" "\<not> bit (0x222 :: int) n"
    "\<not> bit (32 :: int) n" "\<not> bit (512 :: int) n" "\<not> bit (2 :: int) n" "\<not> bit (0x19aa :: int) n" "\<not> bit (0x1888 :: int) n"
    "\<not> bit (0x122 :: int) n" "\<not> n - 11 < 2"
proof -
  have high: "\<not> bit m n" if "take_bit 13 m = m" for m :: int using that assms by (metis bit_take_bit_iff leD)
  show "\<not> bit (0x19bb :: int) n" "\<not> bit (0x133 :: int) n" "\<not> bit (0x222 :: int) n"
    "\<not> bit (32 :: int) n" "\<not> bit (512 :: int) n" "\<not> bit (2 :: int) n" "\<not> bit (0x19aa :: int) n" "\<not> bit (0x1888 :: int) n"
    "\<not> bit (0x122 :: int) n" by (rule high; simp)+
  show "\<not> n - 11 < 2" using assms by simp
qed

lemma field_bits: "0 < n \<Longrightarrow> \<not> bit (x :: 1 word) n" "2 \<le> n \<Longrightarrow> \<not> bit (y :: 2 word) n"
  using bit_imp_le_length [of x n] bit_imp_le_length [of y n] by auto

lemma mstatus_value: "fst (csr_mstatus_read (csr_mstatus_write h c v) d) = v AND 0x19bb"
proof (rule bit_word_eqI)
  fix n
  show "bit (fst (csr_mstatus_read (csr_mstatus_write h c v) d)) n \<longleftrightarrow> bit (v AND 0x19bb) n"
    by (cases n rule: low_bit_cases; simp add: csr_mstatus_read_def csr_mstatus_write_def bit_simps masks_high field_bits del: push_bit_Suc)
qed

lemma sstatus_view: "fst (csr_sstatus_read h c) = fst (csr_mstatus_read h d) AND 0x133"
proof (rule bit_word_eqI)
  fix n
  show "bit (fst (csr_sstatus_read h c)) n \<longleftrightarrow> bit (fst (csr_mstatus_read h d) AND 0x133) n"
    by (cases n rule: low_bit_cases; simp add: csr_mstatus_read_def csr_sstatus_read_def bit_simps masks_high field_bits del: push_bit_Suc)
qed

lemma sstatus_write_view:
  "fst (csr_mstatus_read (csr_sstatus_write h c v) d) = (fst (csr_mstatus_read h d) AND NOT 0x133) OR (v AND 0x133)"
proof (rule bit_word_eqI)
  fix n
  show "bit (fst (csr_mstatus_read (csr_sstatus_write h c v) d)) n \<longleftrightarrow> bit ((fst (csr_mstatus_read h d) AND NOT 0x133) OR (v AND 0x133)) n"
    by (cases n rule: low_bit_cases; simp add: csr_mstatus_read_def csr_sstatus_write_def bit_simps masks_high field_bits del: push_bit_Suc)
qed

lemma sie_view: "fst (csr_sie_read h c) AND 0x222 = ienable h AND 0x222"
proof (rule bit_word_eqI)
  fix n
  show "bit (fst (csr_sie_read h c) AND 0x222) n \<longleftrightarrow> bit (ienable h AND 0x222) n"
    by (cases n rule: low_bit_cases; simp add: csr_sie_read_def irq_bit_def bit_simps masks_high field_bits del: push_bit_Suc)
qed

lemma sie_write_view: "ienable (csr_sie_write h c v) = (ienable h AND NOT 0x222) OR (v AND 0x222)"
proof (rule bit_word_eqI)
  fix n
  show "bit (ienable (csr_sie_write h c v)) n \<longleftrightarrow> bit ((ienable h AND NOT 0x222) OR (v AND 0x222)) n"
    by (cases n rule: low_bit_cases; simp add: csr_sie_write_def set_irq_bit_def bit_simps masks_high field_bits del: push_bit_Suc)
qed

lemma sip_view: "fst (csr_sip_read h c) = ipending h AND 0x222"
proof (rule bit_word_eqI)
  fix n
  show "bit (fst (csr_sip_read h c)) n \<longleftrightarrow> bit (ipending h AND 0x222) n"
    by (cases n rule: low_bit_cases; simp add: csr_sip_read_def irq_bit_def bit_simps masks_high field_bits del: push_bit_Suc)
qed

lemma sip_write_view: "ipending (csr_sip_write h c v) = (ipending h AND NOT 0x2) OR (v AND 0x2)"
proof (rule bit_word_eqI)
  fix n
  show "bit (ipending (csr_sip_write h c v)) n \<longleftrightarrow> bit ((ipending h AND NOT 0x2) OR (v AND 0x2)) n"
    by (cases n rule: low_bit_cases; simp add: csr_sip_write_def set_irq_bit_def bit_simps masks_high field_bits del: push_bit_Suc)
qed

text \<open>
  What the instructions see, with the masks of both registers. \<open>mstatus\<close> hides the two bits of the
  user level (\<open>0x11\<close>), which \<open>sstatus\<close> shows, and a write to \<open>mstatus\<close> clears them.
\<close>

lemmas csr_views = read_csr_def write_csr_def case_prod_beta Let_def and.assoc

lemma supervisor_status_view:
  "fst (read_csr (csr_registery sstatus_csr_entry) h a) AND 0x122 = fst (read_csr (csr_registery mstatus_csr_entry) h b) AND 0x122"
  "fst (read_csr (csr_registery mstatus_csr_entry) (write_csr (csr_registery sstatus_csr_entry) h a v) b) =
     (fst (read_csr (csr_registery mstatus_csr_entry) h b) AND NOT 0x122) OR (v AND 0x122)"
  "fst (read_csr (csr_registery sstatus_csr_entry) (write_csr (csr_registery mstatus_csr_entry) h b v) a) = v AND 0x122"
proof -
  show "fst (read_csr (csr_registery sstatus_csr_entry) h a) AND 0x122 = fst (read_csr (csr_registery mstatus_csr_entry) h b) AND 0x122"
    by (simp add: csr_views sstatus_csr_entry_def mstatus_csr_entry_def sstatus_view [of h a b])
  show "fst (read_csr (csr_registery mstatus_csr_entry) (write_csr (csr_registery sstatus_csr_entry) h a v) b) =
     (fst (read_csr (csr_registery mstatus_csr_entry) h b) AND NOT 0x122) OR (v AND 0x122)"
  proof (rule bit_word_eqI)
    fix n
    show "bit (fst (read_csr (csr_registery mstatus_csr_entry) (write_csr (csr_registery sstatus_csr_entry) h a v) b)) n \<longleftrightarrow>
        bit ((fst (read_csr (csr_registery mstatus_csr_entry) h b) AND NOT 0x122) OR (v AND 0x122)) n"
      by (cases n rule: low_bit_cases)
        (simp_all add: csr_views sstatus_csr_entry_def mstatus_csr_entry_def sstatus_write_view bit_simps masks_high del: push_bit_Suc)
  qed
  show "fst (read_csr (csr_registery sstatus_csr_entry) (write_csr (csr_registery mstatus_csr_entry) h b v) a) = v AND 0x122"
    by (simp add: csr_views sstatus_csr_entry_def mstatus_csr_entry_def sstatus_view [of _ a b] mstatus_value)
qed

lemma supervisor_enable_view:
  "fst (read_csr (csr_registery sie_csr_entry) h a) = fst (read_csr (csr_registery mie_csr_entry) h b) AND 0x222"
  "fst (read_csr (csr_registery mie_csr_entry) (write_csr (csr_registery sie_csr_entry) h a v) b) =
     (fst (read_csr (csr_registery mie_csr_entry) h b) AND NOT 0x222) OR (v AND 0x222)"
  by (simp_all add: csr_views sie_csr_entry_def mie_csr_entry_def sie_view sie_write_view csr_mie_read_def bit.conj_disj_distrib2)

lemma supervisor_pending_view:
  "fst (read_csr (csr_registery sip_csr_entry) h a) = fst (read_csr (csr_registery mip_csr_entry) h b) AND 0x222"
  "fst (read_csr (csr_registery mip_csr_entry) (write_csr (csr_registery sip_csr_entry) h a v) b) =
     (fst (read_csr (csr_registery mip_csr_entry) h b) AND NOT 0x2) OR (v AND 0x2)"
  by (simp_all add: csr_views sip_csr_entry_def mip_csr_entry_def sip_view sip_write_view csr_mip_read_def bit.conj_disj_distrib2)

lemma machine_pending_view:
  "fst (read_csr (csr_registery mip_csr_entry) (write_csr (csr_registery mip_csr_entry) h a v) b) =
     (v AND 0x222) OR (fst (read_csr (csr_registery mip_csr_entry) h b) AND 0x888)"
  by (simp add: csr_views mip_csr_entry_def csr_mip_read_def csr_mip_write_def bit.conj_disj_distrib2)

subsection \<open>All registers\<close>

lemmas all_csr_defs = all_csrs_def csr_machine_level_init_def csr_machine_level_pmp_init_def csr_misc_init_def csr_supervisor_level_init_def

definition keeps_registers :: "csr_entry \<Rightarrow> bool" where
  "keeps_registers csr \<longleftrightarrow>
     (\<forall>f h r a v. csr_write csr = Some f \<longrightarrow> f (h\<lparr>registers := r\<rparr>) a v = (f h a v)\<lparr>registers := r\<rparr>) \<and>
     (\<forall>g h r a. csr_read csr = Some g \<longrightarrow> g (h\<lparr>registers := r\<rparr>) a = (fst (g h a), (snd (g h a))\<lparr>registers := r\<rparr>)) \<and>
     (\<forall>f h a v. csr_write csr = Some f \<longrightarrow> hart_magic (f h a v) = hart_magic h) \<and>
     (\<forall>g h a. csr_read csr = Some g \<longrightarrow> hart_magic (snd (g h a)) = hart_magic h)"

lemma all_keep_registers: "e \<in> set (all_csrs host_tsc (#)) \<Longrightarrow> keeps_registers (csr_registery e)"
  by (auto simp: all_csr_defs csr_entry_defs keeps_registers_def csr_handler_defs flush_translation_cache_def)

lemma installed_entry: "installed_csrs host_tsc a = Some csr \<Longrightarrow> \<exists>e\<in>set (all_csrs host_tsc (#)). csr = csr_registery e"
  by (force simp: installed_csrs_def dest: map_of_SomeD)

lemma installed_keep: "installed_csrs host_tsc a = Some csr \<Longrightarrow> keeps_registers csr"
  using installed_entry all_keep_registers by blast

interpretation csr: csr_file "installed_csrs host_tsc" for host_tsc
proof
  fix a csr f h r v
  assume "installed_csrs host_tsc a = Some csr" "csr_write csr = Some f"
  then show "f (h\<lparr>registers := r\<rparr>) a v = (f h a v)\<lparr>registers := r\<rparr>" "hart_magic (f h a v) = hart_magic h"
    using installed_keep by (auto simp: keeps_registers_def)
next
  fix a csr g h r
  assume "installed_csrs host_tsc a = Some csr" "csr_read csr = Some g"
  with installed_keep have "keeps_registers csr" "csr_read csr = Some g" by blast+
  then show "g (h\<lparr>registers := r\<rparr>) a = (fst (g h a), (snd (g h a))\<lparr>registers := r\<rparr>)" "hart_magic (snd (g h a)) = hart_magic h"
    unfolding keeps_registers_def by simp_all
qed

subsection \<open>Registers with storage\<close>

text \<open>
  All but the identification registers, the pending interrupts and the time: the address of each
  register that can be written, with the bits that it implements.
\<close>

definition stored_csrs :: "(12 word \<times> u32) list" where
  "stored_csrs =
     [(0x300, 0x19aa), (0x302, 0xfffff7ff), (0x303, 0x222), (0x304, 0xaaa), (0x305, 0xfffffffd), (0x306, 0xffffffff),
      (0x340, 0xffffffff), (0x341, 0xffffffff), (0x342, 0xffffffff), (0x343, 0xffffffff),
      (0x100, 0x133), (0x104, 0x222), (0x105, 0xffffffff), (0x106, 0xffffffff), (0x140, 0xffffffff), (0x141, 0xffffffff),
      (0x142, 0xffffffff), (0x143, 0xffffffff), (0x180, 0xffffffff),
      (0x3a0, 0xffffffff), (0x3a1, 0xffffffff), (0x3a2, 0xffffffff), (0x3a3, 0xffffffff),
      (0x3b0, 0xffffffff), (0x3b1, 0xffffffff), (0x3b2, 0xffffffff), (0x3b3, 0xffffffff), (0x3b4, 0xffffffff), (0x3b5, 0xffffffff),
      (0x3b6, 0xffffffff), (0x3b7, 0xffffffff), (0x3b8, 0xffffffff), (0x3b9, 0xffffffff), (0x3ba, 0xffffffff), (0x3bb, 0xffffffff),
      (0x3bc, 0xffffffff), (0x3bd, 0xffffffff), (0x3be, 0xffffffff), (0x3bf, 0xffffffff)]"

lemma installed_map:
  "installed_csrs host_tsc = map_of (map (\<lambda>e. (ucast (csr_addr e), csr_registery e))
     ([misa_csr_entry, mscratch_csr_entry, mvendorid_csr_entry, mhartid_csr_entry, mtvec_csr_entry, mcounteren_csr_entry, mie_csr_entry,
      mip_csr_entry, medeleg_csr_entry, mideleg_csr_entry, mstatus_csr_entry, mepc_csr_entry, mcause_csr_entry, mtval_csr_entry] @
      map pmpaddr_csr_entry [0, 1, 2, 3, 4, 5, 6, 7, 8, 9, 10, 11, 12, 13, 14, 15] @ map pmpcfg_csr_entry [0, 1, 2, 3] @
      [time_csr_entry host_tsc, timeh_csr_entry] @
      [scounteren_csr_entry, satp_csr_entry, sie_csr_entry, sip_csr_entry, sstatus_csr_entry, stvec_csr_entry, sscratch_csr_entry,
      sepc_csr_entry, stval_csr_entry, scause_csr_entry]))"
  by (simp add: installed_csrs_def all_csr_defs csr_entry_defs csr_address_defs)

lemma sstatus_value: "fst (csr_sstatus_read (csr_sstatus_write h c v) d) = v AND 0x133"
  using sstatus_view [of "csr_sstatus_write h c v" d d] sstatus_write_view [of h c v d]
  by (simp add: bit.conj_disj_distrib2 and.assoc)

lemma sie_value: "fst (csr_sie_read (csr_sie_write h c v) d) AND 0x222 = v AND 0x222"
  by (simp add: sie_view sie_write_view bit.conj_disj_distrib2 and.assoc)

lemma csr_addresses:
  "csr_addr misa_csr_entry = 0x301" "csr_addr mvendorid_csr_entry = 0xf11" "csr_addr mhartid_csr_entry = 0xf14"
  "csr_addr mscratch_csr_entry = 0x340" "csr_addr mtvec_csr_entry = 0x305" "csr_addr mcounteren_csr_entry = 0x306" "csr_addr mie_csr_entry = 0x304"
  "csr_addr mip_csr_entry = 0x344" "csr_addr medeleg_csr_entry = 0x302" "csr_addr mideleg_csr_entry = 0x303" "csr_addr mstatus_csr_entry = 0x300"
  "csr_addr mepc_csr_entry = 0x341" "csr_addr mcause_csr_entry = 0x342" "csr_addr mtval_csr_entry = 0x343" "csr_addr timeh_csr_entry = 0xc81"
  "csr_addr scounteren_csr_entry = 0x106" "csr_addr satp_csr_entry = 0x180" "csr_addr sie_csr_entry = 0x104" "csr_addr sip_csr_entry = 0x144"
  "csr_addr sstatus_csr_entry = 0x100" "csr_addr stvec_csr_entry = 0x105" "csr_addr sscratch_csr_entry = 0x140" "csr_addr sepc_csr_entry = 0x141"
  "csr_addr stval_csr_entry = 0x143" "csr_addr scause_csr_entry = 0x142"
  "csr_addr (time_csr_entry host_tsc) = 0xc01" "csr_addr (pmpaddr_csr_entry i) = 0x3b0 + i" "csr_addr (pmpcfg_csr_entry i) = 0x3a0 + i"
  by (simp_all add: csr_entry_defs csr_address_defs)

definition reads_back :: "u32 \<Rightarrow> csr_entry \<Rightarrow> bool" where
  "reads_back wm csr \<longleftrightarrow> (\<forall>h a v. fst (read_csr csr (write_csr csr h a v) a) = v AND wm)"

lemmas csr_access_defs = reads_back_def read_csr_def write_csr_def case_prod_beta Let_def csr_entry_defs WPRI_MASK_ALL_def

lemma status_reads_back: "reads_back 0x19aa (csr_registery mstatus_csr_entry)" "reads_back 0x133 (csr_registery sstatus_csr_entry)"
  "reads_back 0x222 (csr_registery sie_csr_entry)"
  by (simp_all add: csr_access_defs mstatus_value sstatus_value sie_value and.assoc)

lemma satp_reads_back: "reads_back 0xffffffff (csr_registery satp_csr_entry)"
  by (simp add: csr_access_defs csr_satp_read_def csr_satp_write_def set_blob_def flush_translation_cache_def and.assoc)

lemma plain_reads_back:
  "reads_back 0xffffffff (csr_registery mscratch_csr_entry)" "reads_back 0xfffffffd (csr_registery mtvec_csr_entry)"
  "reads_back 0xffffffff (csr_registery mcounteren_csr_entry)" "reads_back 0xaaa (csr_registery mie_csr_entry)"
  "reads_back 0xfffff7ff (csr_registery medeleg_csr_entry)" "reads_back 0x222 (csr_registery mideleg_csr_entry)"
  "reads_back 0xffffffff (csr_registery mepc_csr_entry)" "reads_back 0xffffffff (csr_registery mcause_csr_entry)"
  "reads_back 0xffffffff (csr_registery mtval_csr_entry)" "reads_back 0xffffffff (csr_registery scounteren_csr_entry)"
  "reads_back 0xffffffff (csr_registery stvec_csr_entry)" "reads_back 0xffffffff (csr_registery sscratch_csr_entry)"
  "reads_back 0xffffffff (csr_registery sepc_csr_entry)" "reads_back 0xffffffff (csr_registery stval_csr_entry)"
  "reads_back 0xffffffff (csr_registery scause_csr_entry)"
  "reads_back 0xffffffff (csr_registery (pmpaddr_csr_entry i))" "reads_back 0xffffffff (csr_registery (pmpcfg_csr_entry i))"
  by (simp_all add: csr_access_defs csr_handler_defs and.assoc)

text \<open>The register of each address.\<close>

lemma stored_entries: "list_all (\<lambda>(a, wm). \<exists>csr. installed_csrs host_tsc a = Some csr \<and> reads_back wm csr) stored_csrs"
proof -
  have look: "(\<exists>csr. installed_csrs host_tsc a = Some csr \<and> reads_back wm csr) \<longleftrightarrow>
     (case installed_csrs host_tsc a of None \<Rightarrow> False | Some csr \<Rightarrow> reads_back wm csr)" for a wm
    by (auto split: option.splits)
  show ?thesis
    unfolding look stored_csrs_def installed_map
    by (simp add: csr_addresses plain_reads_back status_reads_back satp_reads_back)
qed

interpretation csr: csr_storage "installed_csrs host_tsc" "map_of stored_csrs" for host_tsc
proof
  fix a wm
  assume "map_of stored_csrs a = Some wm"
  then obtain csr where "installed_csrs host_tsc a = Some csr" "reads_back wm csr"
    using stored_entries [of host_tsc] unfolding list_all_iff by (blast dest: map_of_SomeD)
  then show "\<exists>csr. installed_csrs host_tsc a = Some csr \<and> (\<forall>h v. fst (read_csr csr (write_csr csr h a v) a) = v AND wm)"
    unfolding reads_back_def by blast
qed

end
