(* ===== verification/Debug_Shell.thy ===== *)
theory Debug_Shell
  imports App_Start Vmm_Calls
begin

text \<open>
  The interactive shell of the debugger (\<open>sandbox/debug.c\<close>): the commands, the search for the command
  of a line, and the loop that reads lines until a command lets the guest go on. Standard input is
  a string. What the commands print is left out, except for the words of memory that they read,
  since reading can leave the shell. An overflow of the static token buffers, which C leaves
  undefined, ends the process here.
\<close>

datatype ACTIONS = ACTION_CONTINUE | ACTION_STOP

type_synonym dbg_func = "hart \<Rightarrow> machine \<Rightarrow> string list \<Rightarrow> (ACTIONS \<times> u32 list) mmu_result"

record cmd_registery_item =
  cmd_prefixs :: "string list"
  func :: dbg_func
  desc :: string

definition CMDLINE_SIZE :: nat where "CMDLINE_SIZE = 256"
definition TOKEN_SIZE :: nat where "TOKEN_SIZE = 64"

subsection \<open>Commands\<close>

definition dump_registers_info :: dbg_func where
  "dump_registers_info h m argv = Mret (ACTION_CONTINUE, []) h m"

definition dump_translation :: dbg_func where
  "dump_translation h m argv = Mret (ACTION_CONTINUE, []) h m"

definition dump_breakpoints_info :: dbg_func where
  "dump_breakpoints_info h m argv = Mret (ACTION_CONTINUE, []) h m"

definition dump_threads_info :: dbg_func where
  "dump_threads_info h m argv = Mret (ACTION_CONTINUE, []) h m"

definition debug_help :: dbg_func where
  "debug_help h m argv = Mret (ACTION_CONTINUE, []) h m"

definition debug_continue :: dbg_func where
  "debug_continue h m argv = Mret (ACTION_STOP, []) h m"

definition dump_vma_call :: dbg_func where
  "dump_vma_call h m argv = (case get_linked_vm (vms m) (native_vmptr h) LINKAGE_HINT_VM of
     None \<Rightarrow> Mexit | Some _ \<Rightarrow> Mret (ACTION_CONTINUE, []) h m)"

definition dump_fd_call :: dbg_func where
  "dump_fd_call h m argv = (case get_linked_vm (vms m) (native_vmptr h) LINKAGE_HINT_FILES of
     None \<Rightarrow> Mexit | Some _ \<Rightarrow> Mret (ACTION_CONTINUE, []) h m)"

definition add_breakpoint_command :: dbg_func where
  "add_breakpoint_command h m argv =
     (case argv of [] \<Rightarrow> Mret (ACTION_CONTINUE, []) h m
      | a # _ \<Rightarrow> (case add_breakpoint m (of_int (strtol_hex a)) of
          None \<Rightarrow> Mexit | Some (rc, m1) \<Rightarrow> Mret (ACTION_CONTINUE, []) h m1))"

text \<open>The words of a host block from a pointer on, and guest words at consecutive byte addresses.\<close>

fun host_words :: "machine \<Rightarrow> uptr \<Rightarrow> nat \<Rightarrow> u32 list option" where
  "host_words m p 0 = Some []"
| "host_words m p (Suc k) =
     Option.bind (load_bytes m p 4) (\<lambda>bs. map_option ((#) (ucast (le_word bs))) (host_words m (fst p, snd p + 4) k))"

fun guest_words :: "hart \<Rightarrow> machine \<Rightarrow> u32 \<Rightarrow> nat \<Rightarrow> u32 list mmu_result" where
  "guest_words h m low_addr 0 = Mret [] h m"
| "guest_words h m low_addr (Suc k) =
     mmu_bind (mmu_read32 h m low_addr) (\<lambda>v h1 m1.
     mmu_bind (guest_words h1 m1 (low_addr + 1) k) (\<lambda>vs h2 m2. Mret (ucast v # vs) h2 m2))"

definition inspect_memory :: dbg_func where
  "inspect_memory h m argv =
     (if length argv \<noteq> 2 then Mret (ACTION_CONTINUE, []) h m
      else let low_addr = of_int (strtol_hex (argv ! 0)) :: u32; high_addr = of_int (strtol_hex (argv ! 1)) :: u32 in
        if low_addr > high_addr then Mret (ACTION_CONTINUE, []) h m
        else case Option.bind (get_linked_vm (vms m) (native_vmptr h) LINKAGE_HINT_VM) (vms m) of
          None \<Rightarrow> Mexit
        | Some vm \<Rightarrow>
            (case (search_pm_region_callback vm (ucast low_addr), search_pm_region_callback vm (ucast high_addr)) of
               (Some pmr1, Some pmr2) \<Rightarrow>
                 if pmr1 = None \<or> pmr1 \<noteq> pmr2 then Mret (ACTION_CONTINUE, []) h m
                 else let pmr = pmr_ops vm ! the pmr1; pm_low = host_offset (ucast low_addr) pmr; pm_high = host_offset (ucast high_addr) pmr in
                   if pmr_direct pmr = None then Mret (ACTION_CONTINUE, []) h m
                   else if \<not> pm_low \<le> pm_high then Mexit
                   else (case host_words m (host_base pmr, pm_low) ((pm_high - pm_low + 3) div 4) of
                       None \<Rightarrow> Mexit | Some ws \<Rightarrow> Mret (ACTION_CONTINUE, ws) h m)
             | _ \<Rightarrow> Mexit))"

definition inspect_virtual_memory :: dbg_func where
  "inspect_virtual_memory h m argv =
     (if length argv \<noteq> 2 then Mret (ACTION_CONTINUE, []) h m
      else let low_addr = of_int (strtol_hex (argv ! 0)) :: u32; high_addr = of_int (strtol_hex (argv ! 1)) :: u32 in
        if low_addr > high_addr then Mret (ACTION_CONTINUE, []) h m
        else let low = low_addr AND NOT 0x3; high = high_addr AND NOT 0x3 in
          mmu_bind (guest_words h m low (unat (high - low))) (\<lambda>vs h1 m1. Mret (ACTION_CONTINUE, vs) h1 m1))"

definition decimal_value :: "string \<Rightarrow> nat" where
  "decimal_value cs = foldl (\<lambda>acc c. 10 * acc + (of_char c - 48)) 0 (takeWhile (\<lambda>c. 48 \<le> (of_char c :: nat) \<and> (of_char c :: nat) \<le> 57) cs)"

definition atoi :: "string \<Rightarrow> int" where
  "atoi s =
     (let t = dropWhile is_space s;
          (neg, u) = (case t of [] \<Rightarrow> (False, t) | c # cs \<Rightarrow>
            if c = CHR ''-'' then (True, cs) else if c = CHR ''+'' then (False, cs) else (False, t));
          n = int (decimal_value u)
      in sint (of_int (if neg then max (- (2 ^ 63)) (- n) else min (2 ^ 63 - 1) n) :: u32))"

text \<open>The pcs of the frames, from the frame \<open>idx\<close> on.\<close>

fun backtrace_frames :: "bool \<Rightarrow> nat \<Rightarrow> nat \<Rightarrow> hart \<Rightarrow> machine \<Rightarrow> u32 \<Rightarrow> u32 \<Rightarrow> u32 list mmu_result" where
  "backtrace_frames leaf idx 0 h m current_pc current_fp = Mret [] h m"
| "backtrace_frames leaf idx (Suc k) h m current_pc current_fp =
     mmu_bind
       (if idx = 0 \<and> leaf
        then mmu_bind (mmu_read32 h m (current_fp - 4)) (\<lambda>fp h1 m1. Mret (registers h ! 1, ucast fp) h1 m1)
        else mmu_bind (mmu_read32 h m (current_fp - 4)) (\<lambda>p h1 m1.
             mmu_bind (mmu_read32 h1 m1 (current_fp - 8)) (\<lambda>fp h2 m2. Mret (ucast p, ucast fp) h2 m2)))
       (\<lambda>(p, fp) h1 m1. mmu_bind (backtrace_frames leaf (Suc idx) k h1 m1 p fp) (\<lambda>ps h2 m2. Mret (current_pc # ps) h2 m2))"

definition backtrace_call :: dbg_func where
  "backtrace_call h m argv =
     (if length argv \<noteq> 2 then Mret (ACTION_CONTINUE, []) h m
      else mmu_bind (backtrace_frames (argv ! 0 = ''leaf'') 0 (nat (atoi (argv ! 1))) h m (pc h) (registers h ! 8))
        (\<lambda>ps h1 m1. Mret (ACTION_CONTINUE, ps) h1 m1))"

definition cmds_items :: "cmd_registery_item list" where
  "cmds_items =
     [\<lparr>cmd_prefixs = [''info'', ''registers''], func = dump_registers_info, desc = ''dump the registers of a hart''\<rparr>,
      \<lparr>cmd_prefixs = [''info'', ''threads''], func = dump_threads_info, desc = ''dump the threads info''\<rparr>,
      \<lparr>cmd_prefixs = [''info'', ''translation''], func = dump_translation, desc = ''dump the items in translation cache''\<rparr>,
      \<lparr>cmd_prefixs = [''info'', ''breakpoints''], func = dump_breakpoints_info, desc = ''dump all the breakpoints''\<rparr>,
      \<lparr>cmd_prefixs = [''continue''], func = debug_continue, desc = ''continue to execute util it reaches next breakpoint''\<rparr>,
      \<lparr>cmd_prefixs = [''break''], func = add_breakpoint_command, desc = ''add a break by following the address of the target address''\<rparr>,
      \<lparr>cmd_prefixs = [''/x''], func = inspect_memory, desc = ''dump physical memory segment''\<rparr>,
      \<lparr>cmd_prefixs = [''/v''], func = inspect_virtual_memory, desc = ''dump virtual memory segment(BE CAUTIOUS TO USE IT !!!)''\<rparr>,
      \<lparr>cmd_prefixs = [''backtrace''], func = backtrace_call, desc = ''dump the calling stack...''\<rparr>,
      \<lparr>cmd_prefixs = [''dump'', ''vma''], func = dump_vma_call, desc = ''dump the vm areas(APPLICATION ONLY)''\<rparr>,
      \<lparr>cmd_prefixs = [''dump'', ''fd''], func = dump_fd_call, desc = ''dump open file descriptors(APPLICATION ONLY)''\<rparr>,
      \<lparr>cmd_prefixs = [''help''], func = debug_help, desc = ''display all the supported commands''\<rparr>]"

subsection \<open>The command of a line\<close>

text \<open>The number of words if all words of the prefix are met.\<close>

fun match_prefix :: "string list \<Rightarrow> string list \<Rightarrow> nat \<Rightarrow> nat option" where
  "match_prefix [] argv idx = Some idx"
| "match_prefix (ptr_token # ts) argv idx =
     (case argv of [] \<Rightarrow> None | a # as \<Rightarrow> if ptr_token \<noteq> a then None else match_prefix ts as (Suc idx))"

fun find_item :: "cmd_registery_item list \<Rightarrow> string list \<Rightarrow> cmd_registery_item option \<Rightarrow> nat \<Rightarrow> cmd_registery_item option \<times> nat" where
  "find_item [] argv item_found lpm_counter = (item_found, lpm_counter)"
| "find_item (pitem # items) argv item_found lpm_counter =
     (case match_prefix (cmd_prefixs pitem) argv 0 of
        Some n \<Rightarrow> if n > 0 \<and> n > lpm_counter then find_item items argv (Some pitem) n else find_item items argv item_found lpm_counter
      | None \<Rightarrow> find_item items argv item_found lpm_counter)"

definition process_cmds_tokens :: dbg_func where
  "process_cmds_tokens h m argv =
     (case find_item cmds_items argv None 0 of
        (Some item_found, lpm_counter) \<Rightarrow>
          if lpm_counter > 0 then func item_found h m (drop lpm_counter argv) else Mret (ACTION_CONTINUE, []) h m
      | (None, _) \<Rightarrow> Mret (ACTION_CONTINUE, []) h m)"

subsection \<open>The loop\<close>

text \<open>\<open>fgets\<close> with room for \<open>n\<close> characters and the final zero; at the end of the input the buffer keeps its zeros.\<close>

fun fgets :: "nat \<Rightarrow> string \<Rightarrow> string \<times> string" where
  "fgets 0 cs = ([], cs)"
| "fgets (Suc n) [] = ([], [])"
| "fgets (Suc n) (c # cs) = (if c = CHR 0x0A then ([c], cs) else let (l, rest) = fgets n cs in (c # l, rest))"

definition line_tokens :: "string \<Rightarrow> string list" where
  "line_tokens cmdline = take TOKEN_SIZE (strtok_blank (takeWhile (\<lambda>c. c \<noteq> CHR 0x0A \<and> c \<noteq> CHR 0x00) cmdline) [])"

partial_function (option) dbg_shell_loop :: "hart \<Rightarrow> machine \<Rightarrow> string \<Rightarrow> string list \<Rightarrow> (string \<times> string list) mmu_result option" where
  "dbg_shell_loop h m stdin last_tokens =
     (let (cmdline, stdin1) = fgets (CMDLINE_SIZE - 2) stdin; tokens = line_tokens cmdline in
      case process_cmds_tokens h m (if tokens \<noteq> [] then tokens else last_tokens) of
        Mret (action, _) h1 m1 \<Rightarrow>
          (if list_ex (\<lambda>t. length t \<ge> TOKEN_SIZE) tokens then Some Mexit
           else let last1 = (if tokens \<noteq> [] then tokens else last_tokens) in
             if action = ACTION_STOP then Some (Mret (stdin1, last1) h1 m1) else dbg_shell_loop h1 m1 stdin1 last1)
      | Mtrap h1 m1 \<Rightarrow> Some (Mtrap h1 m1)
      | Mexit \<Rightarrow> Some Mexit)"

subsection \<open>Laws\<close>

lemma match_prefix_iff: "match_prefix ts argv idx = Some n \<longleftrightarrow> take (length ts) argv = ts \<and> n = idx + length ts"
  by (induction ts argv idx rule: match_prefix.induct) (auto split: list.splits)

definition matches :: "string list \<Rightarrow> cmd_registery_item \<Rightarrow> bool" where
  "matches argv item \<longleftrightarrow> take (length (cmd_prefixs item)) argv = cmd_prefixs item"

lemma match_prefix_matches: "match_prefix (cmd_prefixs p) argv 0 = (if matches argv p then Some (length (cmd_prefixs p)) else None)"
  using match_prefix_iff [of "cmd_prefixs p" argv 0] by (cases "match_prefix (cmd_prefixs p) argv 0") (auto simp: matches_def)

text \<open>The search returns the first of the longest commands that begin the line.\<close>

lemma find_item_longest:
  "find_item items argv item_found lpm_counter = (found, n) \<Longrightarrow>
     lpm_counter \<le> n \<and> (\<forall>p\<in>set items. matches argv p \<longrightarrow> length (cmd_prefixs p) \<le> n) \<and>
     (found = item_found \<and> n = lpm_counter \<or> (\<exists>p\<in>set items. found = Some p \<and> matches argv p \<and> n = length (cmd_prefixs p) \<and> lpm_counter < n))"
proof (induction items arbitrary: item_found lpm_counter)
  case (Cons p items)
  show ?case
  proof (cases "matches argv p \<and> lpm_counter < length (cmd_prefixs p)")
    case True
    then have "cmd_prefixs p \<noteq> []" by auto
    with True Cons.prems have "find_item items argv (Some p) (length (cmd_prefixs p)) = (found, n)"
      by (simp add: match_prefix_matches)
    with Cons.IH [OF this] True show ?thesis by auto
  next
    case False
    with Cons.prems have "find_item items argv item_found lpm_counter = (found, n)" by (auto simp: match_prefix_matches split: if_splits)
    with Cons.IH [OF this] False show ?thesis by auto
  qed
qed auto

lemma process_found:
  assumes "p \<in> set cmds_items" "matches argv p"
  shows "\<exists>q\<in>set cmds_items. matches argv q \<and> length (cmd_prefixs p) \<le> length (cmd_prefixs q) \<and>
    process_cmds_tokens h m argv = func q h m (drop (length (cmd_prefixs q)) argv)"
proof -
  obtain found n where f: "find_item cmds_items argv None 0 = (found, n)" by fastforce
  have "0 < length (cmd_prefixs p)" using assms(1) by (auto simp: cmds_items_def)
  moreover have n: "length (cmd_prefixs p) \<le> n" using find_item_longest [OF f] assms by blast
  ultimately obtain q where "q \<in> set cmds_items" "found = Some q" "matches argv q" "n = length (cmd_prefixs q)" "0 < n"
    using find_item_longest [OF f] by auto
  with n f show ?thesis by (auto simp: process_cmds_tokens_def)
qed

text \<open>A line of the input that fits the buffer.\<close>

lemma fgets_line: "CHR 0x0A \<notin> set l \<Longrightarrow> length l < n \<Longrightarrow> fgets n (l @ CHR 0x0A # rest) = (l @ [CHR 0x0A], rest)"
proof (induction l arbitrary: n)
  case Nil
  then show ?case by (cases n) auto
next
  case (Cons c l)
  then show ?case by (cases n) auto
qed

lemma shell_line:
  assumes "CHR 0x0A \<notin> set l" "CHR 0x00 \<notin> set l" "length l < CMDLINE_SIZE - 2"
    and "strtok_blank l [] = ts" "ts \<noteq> []" "length ts \<le> TOKEN_SIZE" "\<forall>t\<in>set ts. length t < TOKEN_SIZE"
  shows "dbg_shell_loop h m (l @ CHR 0x0A # rest) last_tokens =
    (case process_cmds_tokens h m ts of
       Mret (action, _) h1 m1 \<Rightarrow> if action = ACTION_STOP then Some (Mret (rest, ts) h1 m1) else dbg_shell_loop h1 m1 rest ts
     | Mtrap h1 m1 \<Rightarrow> Some (Mtrap h1 m1)
     | Mexit \<Rightarrow> Some Mexit)"
proof -
  have "takeWhile (\<lambda>c. c \<noteq> CHR 0x0A \<and> c \<noteq> CHR 0x00) (l @ [CHR 0x0A]) = l"
    using assms(1,2) by (subst takeWhile_append2) auto
  then have "line_tokens (l @ [CHR 0x0A]) = ts" using assms(4,6) by (simp add: line_tokens_def)
  moreover have "\<not> list_ex (\<lambda>t. length t \<ge> TOKEN_SIZE) ts" using assms(7) by (auto simp: list_ex_iff)
  ultimately show ?thesis
    by (subst dbg_shell_loop.simps) (simp add: fgets_line [OF assms(1,3)] assms(5) split: mmu_result.splits prod.splits)
qed

text \<open>At the end of the input the last command is repeated, and nothing else can stop it.\<close>

lemma shell_spins:
  assumes "dbg_shell_loop h m stdin last_tokens = Some r" "stdin = []" "process_cmds_tokens h m last_tokens = Mret (ACTION_CONTINUE, out) h m"
  shows False
  using assms
proof (induction rule: dbg_shell_loop.raw_induct [rotated, consumes 1])
  case (1 f h m stdin last_tokens r)
  have "fgets n [] = ([], [])" for n by (cases n) simp_all
  then show ?case using 1(2-4) 1(1) [of h m "[]" last_tokens r] by (simp add: line_tokens_def)
qed

lemmas shell_sizes = CMDLINE_SIZE_def TOKEN_SIZE_def

lemma process_continue: "process_cmds_tokens h m [''continue''] = Mret (ACTION_STOP, []) h m"
  by (simp add: process_cmds_tokens_def cmds_items_def debug_continue_def)

lemma process_help: "process_cmds_tokens h m [''help''] = Mret (ACTION_CONTINUE, []) h m"
  by (simp add: process_cmds_tokens_def cmds_items_def debug_help_def)

end
