(* ===== verification/Page_Table.thy ===== *)
theory Page_Table
  imports Mmu
begin

text \<open>
  The reverse lookup of \<open>sandbox/mmu_pagewalker.c\<close>: \<open>pa_to_va\<close> searches the first level of the page
  table for a 4M page that holds a physical address. The walk of the address that it returns
  leads back to the physical address.
\<close>

subsection \<open>The search of the first level\<close>

definition MAX_PTES :: nat where "MAX_PTES = 1024"

text \<open>The pointer that \<open>pmr_direct\<close> returns, as a host block and the offset in it.\<close>

definition level1_table :: "machine \<Rightarrow> virtual_machine \<Rightarrow> u32 \<Rightarrow> (u8 list \<times> nat) option" where
  "level1_table m vm level1_base =
     Option.bind (search_pm_region_callback vm (ucast level1_base)) (\<lambda>found.
     case found of None \<Rightarrow> None
     | Some i \<Rightarrow> (case pmr_direct (pmr_ops vm ! i) of None \<Rightarrow> None
        | Some vma_generic_cb \<Rightarrow>
            map_option (\<lambda>block. (block, host_offset (ucast level1_base) (pmr_ops vm ! i))) (host_block m (pmr_ops vm ! i))))"

text \<open>The entry at an index of the table; outside the block the access is undefined.\<close>

definition pte_at :: "u8 list \<times> nat \<Rightarrow> nat \<Rightarrow> u32 option" where
  "pte_at table idx =
     (case table of (block, off) \<Rightarrow>
        if off + 4 * idx + 4 \<le> length block then Some (ucast (le_word (take 4 (drop (off + 4 * idx) block)))) else None)"

text \<open>
  The loop over the indices that are left. \<open>Some None\<close> is the return of \<open>-1\<close>, \<open>Some (Some va)\<close> the
  return of \<open>0\<close> with the address stored; a valid entry that points to a second level ends the process.
\<close>

fun pa_to_va_loop :: "u8 list \<times> nat \<Rightarrow> u32 \<Rightarrow> nat list \<Rightarrow> u32 option option" where
  "pa_to_va_loop table pa [] = Some None"
| "pa_to_va_loop table pa (idx # idxs) =
     Option.bind (pte_at table idx) (\<lambda>pte.
     if \<not> pte_valid pte then pa_to_va_loop table pa idxs
     else ASSERT (pte_leaf pte)
       (let ppn_4m = push_bit 12 (drop_bit 10 pte) in
        if ppn_4m AND PAGE_MASK_4M = pa AND PAGE_MASK_4M
        then Some (Some ((pa AND NOT PAGE_MASK_4M) OR push_bit 22 (word_of_nat idx)))
        else pa_to_va_loop table pa idxs))"

text \<open>The TLB arguments of the C function are not used.\<close>

definition pa_to_va :: "machine \<Rightarrow> hart \<Rightarrow> u32 \<Rightarrow> u32 option option" where
  "pa_to_va m h pa =
     (let satp = csrs h CSR_ADDRESS_SATP in
      ASSERT (satp AND 0x80000000 \<noteq> 0)
      (Option.bind (linked_vm m h) (\<lambda>vm.
       Option.bind (level1_table m vm (push_bit 12 satp)) (\<lambda>table.
       pa_to_va_loop table pa [0..<MAX_PTES]))))"

subsection \<open>What the search finds\<close>

lemma pa_to_va_loop_Some:
  assumes "pa_to_va_loop table pa idxs = Some (Some va)"
  shows "\<exists>idx pte. idx \<in> set idxs \<and> pte_at table idx = Some pte \<and> pte_valid pte \<and> pte_leaf pte \<and>
    push_bit 12 (drop_bit 10 pte) AND PAGE_MASK_4M = pa AND PAGE_MASK_4M \<and>
    va = (pa AND NOT PAGE_MASK_4M) OR push_bit 22 (word_of_nat idx)"
  using assms
proof (induction idxs)
  case (Cons idx idxs)
  then show ?case
    by (auto simp: bind_eq_Some_conv ASSERT_def Let_def split: if_splits)
qed simp

text \<open>It finds every 4M page of a table that has only such pages.\<close>

lemma pa_to_va_loop_complete:
  assumes "\<And>idx. idx \<in> set idxs \<Longrightarrow> \<exists>pte. pte_at table idx = Some pte \<and> (pte_valid pte \<longrightarrow> pte_leaf pte)"
    and "idx \<in> set idxs" "pte_at table idx = Some pte" "pte_valid pte"
    and "push_bit 12 (drop_bit 10 pte) AND PAGE_MASK_4M = pa AND PAGE_MASK_4M"
  shows "\<exists>va. pa_to_va_loop table pa idxs = Some (Some va)"
  using assms
proof (induction idxs)
  case (Cons i idxs)
  obtain p where p: "pte_at table i = Some p" "pte_valid p \<longrightarrow> pte_leaf p"
    using Cons.prems(1) by auto
  show ?case
  proof (cases "pte_valid p \<and> push_bit 12 (drop_bit 10 p) AND PAGE_MASK_4M = pa AND PAGE_MASK_4M")
    case False
    with p Cons.prems have "idx \<in> set idxs" by auto
    with Cons.IH Cons.prems(1,3-5) have "\<exists>va. pa_to_va_loop table pa idxs = Some (Some va)" by simp
    with False p show ?thesis by (auto simp: Let_def)
  qed (use p in \<open>simp add: Let_def\<close>)
qed simp

text \<open>The parts of the address that the search returns.\<close>

lemma bit_PAGE_MASK_4M: "bit PAGE_MASK_4M n \<longleftrightarrow> 22 \<le> n \<and> n < 32"
proof -
  have "PAGE_MASK_4M = push_bit 22 (mask 10)"
    by (simp add: PAGE_MASK_4M_def mask_eq_exp_minus_1 push_bit_eq_mult)
  then have "bit PAGE_MASK_4M n = bit (push_bit 22 (mask 10) :: u32) n" by simp
  then show ?thesis by (auto simp: bit_simps)
qed

lemma reverse_address:
  assumes "idx < MAX_PTES" "va = (pa AND NOT PAGE_MASK_4M) OR push_bit 22 (word_of_nat idx)"
  shows "drop_bit 22 va AND 0x3ff = word_of_nat idx"
    and "(pa AND PAGE_MASK_4M) OR (va AND NOT PAGE_MASK_4M) = pa"
proof -
  have small: "\<not> bit idx n" if "10 \<le> n" for n
    using that assms(1) take_bit_nat_eq_self [of idx 10] bit_take_bit_iff [of 10 idx n] by (simp add: MAX_PTES_def)
  have m: "(0x3ff :: u32) = mask 10" by (simp add: mask_eq_exp_minus_1)
  show "drop_bit 22 va AND 0x3ff = word_of_nat idx"
    unfolding m by (rule bit_word_eqI) (use small in \<open>auto simp: assms(2) bit_simps bit_PAGE_MASK_4M intro: ccontr [of "_ < 10"]\<close>)
  show "(pa AND PAGE_MASK_4M) OR (va AND NOT PAGE_MASK_4M) = pa"
    by (rule bit_word_eqI) (auto simp: assms(2) bit_simps bit_PAGE_MASK_4M)
qed

subsection \<open>The walk leads back\<close>

text \<open>An entry of a table that lies in one region is the entry that the walk reads.\<close>

lemma read_pte_level1:
  assumes wf: "vm_wf vm" and found: "search_pm_region_callback vm (ucast base) = Some (Some i)"
    and "level1_table m vm base = Some table" "pte_at table idx = Some pte" "idx < MAX_PTES"
    and room: "unat base + 4 * MAX_PTES \<le> unat (addr_high (pmr_ops vm ! i))"
  shows "read_pte m vm (base + word_of_nat idx * 4) = Some pte"
proof -
  let ?r = "pmr_ops vm ! i" and ?a = "base + word_of_nat idx * 4"
  have idx: "unat base + 4 * idx + 4 \<le> unat (addr_high ?r)" using room assms(5) by simp
  moreover have "unat (addr_high ?r) < 2 ^ 32" using unsigned_less [of "addr_high ?r"] by simp
  ultimately have "unat base + 4 * idx < 2 ^ 32" by linarith
  then have a: "unat ?a = unat base + 4 * idx"
    by (simp add: unat_word_ariths unat_of_nat take_bit_eq_mod mod_simps) 
  have low: "unat (addr_low ?r) \<le> unat base" and i: "i < nr_pmr_ops vm"
    using search_sound [OF found] by (auto simp: in_region_def word_le_nat_alt)
  have "in_region ?a ?r" using a idx low by (simp add: in_region_def word_le_nat_alt word_less_nat_alt)
  moreover have "?a \<noteq> - 1" using \<open>in_region ?a ?r\<close> by (auto simp: in_region_def)
  ultimately have "search_pm_region_callback vm (ucast ?a) = Some (Some i)"
    using search_pm_region_iff(1) [OF wf] i by blast
  moreover have "host_offset (ucast ?a) ?r = host_offset (ucast base) ?r + 4 * idx"
    using a low search_sound [OF found] \<open>in_region ?a ?r\<close>
    by (simp add: host_offset_region in_region_def region_offset_def unat_sub word_le_nat_alt)
  ultimately show ?thesis
    using assms(3,4) found by (auto simp: read_pte_def level1_table_def pte_at_def Let_def
        split: option.splits pm_region_callback.splits if_splits prod.splits)
qed

lemma fill_tlb_entry_Some:
  assumes "i < length tlb" "search_pm_region_callback vm (ucast (push_bit 12 ppn AND pmask)) = Some (Some r)"
  shows "fill_tlb_entry vm tlb i pmask va ppn =
    Some (tlb[i := \<lparr>va_tag = va AND pmask, pa_tag = push_bit 12 ppn AND pmask, page_mask = pmask,
                   entry_valid = True, tlb_pmr = r\<rparr>])"
  using assms by (simp add: fill_tlb_entry_def Let_def)

text \<open>
  The round trip. If \<open>pa_to_va\<close> returns an address of a physical address whose 4M frame is mapped, the
  walk of that address succeeds, and the entry that it leaves in the TLB translates the address
  back to the physical address.
\<close>

theorem walk_of_pa_to_va:
  assumes "pa_to_va m h pa = Some (Some va)" "linked_vm m h = Some vm" "vm_wf vm"
    and table: "search_pm_region_callback vm (ucast (push_bit 12 (csrs h CSR_ADDRESS_SATP))) = Some (Some i)"
      "unat (push_bit 12 (csrs h CSR_ADDRESS_SATP)) + 4 * MAX_PTES \<le> unat (addr_high (pmr_ops vm ! i))"
    and frame: "search_pm_region_callback vm (ucast (pa AND PAGE_MASK_4M)) = Some (Some r)"
    and slot: "VA_TO_4M_TLB_ENTRY tlb va < length tlb"
  shows "\<exists>tlb'. walk_page_table m h va tlb = Some (0, tlb') \<and>
    entry_valid (tlb' ! VA_TO_4M_TLB_ENTRY tlb va) \<and>
    entry_address (tlb' ! VA_TO_4M_TLB_ENTRY tlb va) va = ucast pa"
proof -
  let ?base = "push_bit 12 (csrs h CSR_ADDRESS_SATP)"
  obtain t where t: "level1_table m vm ?base = Some t" "pa_to_va_loop t pa [0..<MAX_PTES] = Some (Some va)"
    and on: "csrs h CSR_ADDRESS_SATP AND 0x80000000 \<noteq> 0"
    using assms(1,2) by (auto simp: pa_to_va_def ASSERT_def Let_def bind_eq_Some_conv split: if_splits)
  obtain idx pte where idx: "idx < MAX_PTES" "pte_at t idx = Some pte" "pte_valid pte" "pte_leaf pte"
    and ppn: "push_bit 12 (drop_bit 10 pte) AND PAGE_MASK_4M = pa AND PAGE_MASK_4M"
    and va: "va = (pa AND NOT PAGE_MASK_4M) OR push_bit 22 (word_of_nat idx)"
    using pa_to_va_loop_Some [OF t(2)] by auto
  note parts = reverse_address [OF idx(1) va]
  have "read_pte m vm (?base + (drop_bit 22 va AND 0x3ff) * 4) = Some pte"
    unfolding parts(1) using assms(3) table(1) t(1) idx(2,1) table(2) by (rule read_pte_level1)
  then have "walk_page_table m h va tlb = map_option (Pair 0)
      (fill_tlb_entry vm tlb (VA_TO_4M_TLB_ENTRY tlb va) PAGE_MASK_4M va (drop_bit 10 pte))"
    using on assms(2) idx(3,4) by (simp add: walk_page_table_def Let_def)
  with fill_tlb_entry_Some [OF slot] ppn frame parts(2) slot show ?thesis
    by (simp add: entry_address_def)
qed

end
