(* ===== verification/Spec2Isabelle.thy ===== *)
theory Spec2Isabelle
  imports Example_State Example_Tasks Example_Files Example_Exec Csr_Laws Debug_Shell Page_Table Task_Family
begin

text \<open>
  Verification of the Hyrule sandbox (\<open>src/sandbox\<close>), a user-mode emulator that runs RISC-V
  (RV32IMA) programs on an x86-64 host by translating guest instructions into host code.

  \<^bold>\<open>The program.\<close> A \<^emph>\<open>hart\<close> (\<open>hart.c\<close>) holds the guest registers, a cache of translated blocks and a
  sorted array that maps guest addresses to blocks. When the guest pc has no block,
  \<open>prefetch_instructions\<close> (\<open>translation.c\<close>) fetches and decodes instructions and one of the
  translators (\<open>translate_*.c\<close>) commits a copy of its template, patched with the operands, to the
  cache; a jumper at the end returns to the monitor (\<open>vmm_trap.S\<close>). Templates read and write guest
  memory through \<open>mmu.c\<close>, which finds the region of an address in the memory map of the process
  (\<open>pm_region.c\<close>) and may walk page tables (\<open>mmu_pagewalker.c\<close>, \<open>mmu_tlb.c\<close>); traps go through
  \<open>hart_trap.c\<close>. Processes are tasks of a cooperative scheduler (\<open>task_sched.c\<close>, \<open>vmm_sched.c\<close>) with
  intrusive lists (\<open>list.c\<close>), wait queues (\<open>wait_queue.c\<close>) and \<open>wait4\<close> (\<open>task.c\<close>). An \<open>ecall\<close> of the
  guest goes through the table of \<open>syscall.c\<close> to the handlers for memory (\<open>app.c\<close>), files (\<open>vfs.c\<close>)
  and processes (\<open>task.c\<close>); a process that was cloned with sharing flags finds the owner of a
  resource along its parents (\<open>get_linked_vm\<close>). \<open>main\<close> loads an executable (\<open>elf_util.c\<close>, \<open>app.c\<close>), puts
  the command line on its stack and switches to it.

  \<^bold>\<open>Shared material.\<close> \<open>Hyrule_Prelude\<close> has the word types, \<open>ASSERT\<close> (a failed one ends the process
  and is \<open>None\<close>) and byte lemmas. \<open>Array_Algorithms\<close> has \<open>SEARCH\<close>, \<open>SORT\<close> and \<open>INSERTION_SORT\<close>
  (\<open>search.h\<close>, \<open>sort.h\<close>) and a locale for comparison functions that are orders on a window, with
  the correctness of the three algorithms; it is interpreted for guest addresses in a window
  (\<open>pc_window\<close>), for breakpoints (\<open>bp_window\<close>) and for disjoint regions (\<open>region_order\<close>).

  \<^bold>\<open>Host and guest machines.\<close> \<open>X86_Syntax\<close> and \<open>X86_Host\<close> define the host instructions that the
  templates use and their execution; a call of a C function is an entry of a table, and the
  templates are lists of these instructions, written as the assembler text has them.
  \<open>X86_Run\<close> says what it means that a block completes or leaves for the monitor. \<open>Riscv_Spec\<close> and
  \<open>Riscv_Step\<close> are the instruction set: decoding and one step of a guest instruction,
  independent of the translators. \<open>Hart\<close> has \<open>struct hart\<close>, the cache and the macros of
  \<open>translation.h\<close>; \<open>Riscv_Decode\<close> the decoder of \<open>translation.c\<close>.

  \<^bold>\<open>Translators.\<close> \<open>Translate_Arithmetic\<close>, \<open>Translate_Arithmetic_Immediate\<close>, \<open>Translate_Branch\<close>,
  \<open>Translate_Muldiv\<close>, \<open>Translate_Jump\<close>, \<open>Translate_Load\<close>, \<open>Translate_Store\<close>, \<open>Translate_Fence\<close>,
  \<open>Translate_Privileged\<close> and \<open>Translate_Amo\<close> (with the slow paths in \<open>Amo\<close>) have one template per
  instruction, named after its indicator, the parameters and the dispatch table, and prove that
  the template computes the instruction. \<open>Vmm_Calls\<close> is the table of C functions that the
  templates call. \<open>Translation\<close> is the driver; \<open>Translation_Cache\<close> proves that committing a
  translation refines the update of a finite map; \<open>Translation_Unit\<close> has the invariant of
  prefetching and \<open>Translation_Chain\<close> the execution of the cache from block to block, against steps of
  the machine (\<open>vm_step\<close>): an instruction of the reference, an instruction that the slow path of the
  A extension carries out, or a system call.

  \<^bold>\<open>Memory and traps.\<close> \<open>Pm_Region\<close> is the memory map of a process, \<open>Mmu\<close> the accesses, the page
  walk, the TLB and \<open>get_linked_vm\<close>, \<open>Page_Table\<close> the reverse lookup \<open>pa_to_va\<close> and its round trip with the
  walk, \<open>Hart_Trap\<close> traps, exceptions, interrupts and returns,
  \<open>Debug_Breakpoint\<close> the table of breakpoints and \<open>Debug_Shell\<close> the shell that opens there, with standard
  input as a string. \<open>Csr_Registers\<close> has the control and status registers of the \<open>csr_*.c\<close> files,
  \<open>Csr_Access\<close> their registration, the callback of the CSR instructions and the locales \<open>csr_file\<close> and
  \<open>csr_storage\<close> with the laws that the callback relies on; \<open>Csr_Laws\<close> interprets them for all registers.

  \<^bold>\<open>Tasks.\<close> \<open>Intrusive_List\<close> models the lists in a heap of links; the locale \<open>list_system\<close> states
  what a family of lists in one heap promises (interpreted as \<open>klist\<close>). \<open>Task_Sched\<close> is the
  scheduler, refined to three queues of tasks; \<open>Wait_Queue\<close> the wait queues, wake-ups and the
  exit of a task; \<open>Task_Wait\<close> is \<open>wait4\<close>, with the allocator of its wait blobs and the time
  that it sleeps as parameters.

  \<^bold>\<open>Processes.\<close> \<open>Address_Space\<close> has the regions of a process as \<open>app.c\<close> sets them up, \<open>mmap\<close>, \<open>munmap\<close>
  and \<open>brk\<close>; \<open>User_Access\<close> the pointers into guest memory (\<open>uaccess.h\<close>), each a host block with an
  offset; \<open>Path_Name\<close> is \<open>canonicalize_path_name\<close> with its reference, the list of components
  without dots; \<open>File_Table\<close> and \<open>File_IO\<close> are \<open>vfs.c\<close>. \<open>Task_Clone\<close> is \<open>clone_task\<close>, \<open>Elf_Load\<close> and
  \<open>Initial_Stack\<close> load an executable and build its stack, \<open>Task_Exec\<close> is \<open>execve\<close>, \<open>App_Start\<close> the
  start from \<open>main\<close> to the first switch, and \<open>Syscall_Table\<close> the remaining handlers and the table.
  The state is the record \<open>procs\<close>: the machine (descriptors of the processes and blocks of the
  host), harts, files, directories, the lists and tasks of the scheduler, and a state of the host.

  \<^bold>\<open>Invariants of the processes.\<close> \<open>Kernel_Step\<close> shows that every system call is a sequence of steps of
  a small relation, \<open>Kernel_Invariant\<close> that the steps keep the memory maps, the descriptor tables
  and the directories in order, and \<open>Boot_Invariant\<close> that \<open>main\<close> establishes these invariants and
  that switches of tasks and guest instructions keep them (\<open>run_step\<close>). \<open>Task_Family\<close> shows that the
  chain of parents along which a resource is shared is finite. \<open>Heap_Break\<close> has the effect
  of \<open>brk\<close> on the bytes of a process. \<open>Example_State\<close>, \<open>Example_Tasks\<close>, \<open>Example_Files\<close> and
  \<open>Example_Exec\<close> are concrete states and hosts for the witnesses.

  \<^bold>\<open>Parameters.\<close> The allocator of the host (\<open>host_alloc\<close>, a function of the blocks in use) and its
  \<open>realloc\<close>; the calls of the host's file system (\<open>host_calls\<close>, functions over a state of the
  host, with any results unless a theorem says what it needs of them); the places of new
  descriptors, stacks and frames (\<open>clone_host\<close>); the clock and the limits (\<open>sys_host\<close>); and what other
  tasks do while the caller of \<open>wait4\<close> sleeps (\<open>sys_yield\<close>), which the invariants assume to be steps
  of the same kind, nested to any depth (\<open>yields\<close>). Laws of the allocator are \<open>host_alloc_ok\<close> and
  \<open>host_realloc_ok\<close>: a block that is returned was free, and \<open>realloc\<close> keeps the common prefix.

  \<^bold>\<open>What is shown.\<close> The theorems of this theory, with their witnesses: running translated code refines
  the instruction set and comes back to the monitor, or arrives at an instruction that has no
  step; prefetching returns; memory accesses, the
  memory map and its searches are exact; traps and returns are inverse; switches of tasks refine
  the queues and starve none; an exit wakes the waiters and \<open>wait4\<close> collects the child. \<open>main\<close> starts
  the program it is given; from there on the memory maps and descriptor tables of all processes
  stay well-formed, owners of shared resources are always found, and \<open>openat\<close> stays below the root, with
  two exceptions that are shown to leave it: a path with blanks in front of its slash, and a fork
  from a task that shares its directories. A writable CSR reads as it was written, set or cleared,
  within its bits. \<open>mmap\<close>, \<open>munmap\<close>, \<open>brk\<close>, \<open>clone\<close>, \<open>execve\<close> and \<open>read\<close> have their effects byte
  by byte. Nine theorems state defects of the code.

  \<^bold>\<open>Bounds.\<close> Loops that end by a count are structural recursion. Loops that follow pointers (the
  chain of parents, the links of a list) are partial functions, and the theorems show that they
  return. The execution of the cache has fuel; \<open>cache_fuel\<close>, one more than the bytes of the
  cache, is enough because every block advances the offset. Sizes of templates, which the
  assembler decides, are a parameter (\<open>layout\<close>); they are assumed positive and to fit.

  \<^bold>\<open>Not modelled.\<close> The register save of \<open>vmm_trap.S\<close> and the clock of \<open>vmexit\<close>, printing and logging (\<open>log.c\<close>,
  \<open>tinyprintf.c\<close>, the dump functions), the third-party \<open>ini.c\<close>, which nothing calls, and
  what is compiled out: \<open>fdt.c\<close>, \<open>vm.c\<close> and the emulated devices. The registration of the CSRs is compiled out as well and no
  translator calls their callback, so their theorems are about the registers that would be installed (without the traps of the
  instruction set for read-only registers and privilege levels, which the callback does not have),
  and \<open>vmm_cc\<close> ends the process for that callback. The system call in a translated \<open>ecall\<close> is a
  parameter of \<open>vmm_cc\<close>, since \<open>do_syscall\<close> works on all processes; so is the debug shell, which may not
  return. Undefined behaviour of C that a model could not express (an access outside a host block,
  a full array) is \<open>None\<close> as well.
\<close>

section \<open>Running translated code\<close>

text \<open>
  C1. Entering the cache. From a hart whose cache satisfies its invariant,
  with the code at the pc mapped and supported, \<open>vmresume\<close> returns the offset of a block of the
  cache; the invariant and the rest of the hart are kept, and the block, run from the state in
  which \<open>vmresume\<close> jumps to it, does the step of the instruction at the pc: it arrives at the
  next block, or at the monitor, with exactly the registers, pc and memory of that step.
\<close>

theorem vmresume_runs_guest:
  assumes "tu_inv b h m" "layout_ok lay" "tu_room b h" "straight_line m h n (pc h)" "vmm_quiet h m"
    and "fetched m h (pc h) = Some w" "rv_decode w = Some i"
  shows "\<exists>off h' blk stop. vmresume lay h m = Mret off h' m \<and> tu_inv b h' m \<and> arch h' = arch h \<and>
    translation_cache h' (uint off) = Some blk \<and>
    (\<forall>s h2 m2. entered s h' m \<and> rv_step i h' m = Some (h2, m2) \<and> \<not> host_fault i h' \<longrightarrow>
       (if stop then leaves (vmm_cc shell syscalls) (blk_params blk) (blk_code blk) s h2 m2
        else completes (vmm_cc shell syscalls) (blk_params blk) (blk_code blk) s h2 m2))"
proof -
  obtain h' where "prefetch_instructions lay h m = Mret () h' m"
    using prefetch_instructions_returns [OF assms(1-4)] by blast
  from vmresume_enters [OF assms(1-3) this] assms(6)
  obtain off blk stop where v: "vmresume lay h m = Mret off h' m" "tu_inv b h' m" "arch h' = arch h"
    "translation_cache h' (uint off) = Some blk"
    "translation_of w (pc h) = Some (blk_code blk, blk_params blk, stop)"
    unfolding is_translation_def by auto
  have "pc h' = pc h" "vmm_quiet h' m"
    using arch_fields(1,5) [OF v(3)] assms(5) by (simp_all add: vmm_quiet_def)
  with v assms(7) show ?thesis
    by (intro exI [of _ off] exI [of _ h'] exI [of _ blk] exI [of _ stop])
       (auto dest!: translation_runs [of w i h'])
qed

theorem vmresume_runs_guest_witness:
  "\<exists>off h' blk stop. vmresume demo_layout demo_hart demo_machine = Mret off h' demo_machine \<and>
    tu_inv 0x1000 h' demo_machine \<and> arch h' = arch demo_hart \<and> translation_cache h' (uint off) = Some blk \<and>
    (\<forall>s h2 m2. entered s h' demo_machine \<and> rv_step (iOP_IMM rADD 1 0 5) h' demo_machine = Some (h2, m2) \<and>
         \<not> host_fault (iOP_IMM rADD 1 0 5) h' \<longrightarrow>
       (if stop then leaves (vmm_cc (\<lambda>_ _. Exit) (\<lambda>_ _ _ _. Mexit)) (blk_params blk) (blk_code blk) s h2 m2
        else completes (vmm_cc (\<lambda>_ _. Exit) (\<lambda>_ _ _ _. Mexit)) (blk_params blk) (blk_code blk) s h2 m2))"
  using demo_straight_line demo_program(1) demo_hart_fields(1)
  by (intro vmresume_runs_guest [OF demo_tu_inv demo_layout_ok demo_room _ demo_quiet _ demo_decode(1)]) simp_all

text \<open>
  C2. Running a whole unit. After \<open>vmresume\<close> has entered the cache, the host runs
  from block to block. Either control comes back to the monitor after one or more steps of the
  machine, with exactly the hart and memory that these steps produce: instructions of the
  reference, \<open>lr.w\<close> and \<open>sc.w\<close> done by their slow path, or a system call that \<open>ecall_callback\<close>
  has carried out. Or the machine reaches a state in which it has no such step (memory that is
  not mapped, an unguarded division, a breakpoint, a system call that does not return); then
  the host, with fuel for the rest of the cache left, has gone block by block to the translation of the instruction there, with exactly
  the hart and memory of that state, and if that is a division without a guard the run ends
  in a divide error. The cache stays linked: behind every block lies the next guest
  instruction or the jumper.
\<close>

theorem vmresume_runs_unit:
  assumes "tu_inv b h m" "layout_ok lay" "0 < jumper_size lay" "tu_room b h" "linked lay h"
    and "prefetch_instructions lay h m = Mret () h' m'"
    and "h' = h \<or> translation_cache_ptr h' \<noteq> translation_cache_ptr h"
  shows "\<exists>off. vmresume lay h m = Mret off h' m \<and> tu_inv b h' m \<and> linked lay h' \<and>
    (\<forall>s. entered s h' m \<longrightarrow> (\<exists>h2 m2.
      (vm_step syscalls (fetched m h))\<^sup>+\<^sup>+ (h', m) (h2, m2) \<and>
        run_cache cache_fuel (vmm_cc shell syscalls) (uint off) s = Some (To_vmm h2 m2) \<or>
      (vm_step syscalls (fetched m h))\<^sup>*\<^sup>* (h', m) (h2, m2) \<and> \<not> (\<exists>y. vm_step syscalls (fetched m h) (h2, m2) y) \<and>
        stopped_at (vmm_cc shell syscalls) (fetched m h) (uint off) s
          (run_cache cache_fuel (vmm_cc shell syscalls) (uint off) s) h2 m2))"
  using assms by (rule vmresume_unit)

text \<open>The loop of the example: the host always comes back to the monitor.\<close>

theorem vmresume_runs_unit_witness:
  "\<exists>off h'. vmresume demo_layout demo_hart demo_machine = Mret off h' demo_machine \<and> linked demo_layout h' \<and>
    (\<forall>s. entered s h' demo_machine \<longrightarrow> (\<exists>h2 m2.
      (vm_step (\<lambda>_ _ _ _. Mexit) (fetched demo_machine demo_hart))\<^sup>+\<^sup>+ (h', demo_machine) (h2, m2) \<and>
        run_cache cache_fuel (vmm_cc (\<lambda>_ _. Exit) (\<lambda>_ _ _ _. Mexit)) (uint off) s = Some (To_vmm h2 m2)))"
proof -
  obtain h' where h': "prefetch_instructions demo_layout demo_hart demo_machine = Mret () h' demo_machine"
    using prefetch_instructions_returns [OF demo_tu_inv demo_layout_ok demo_room, of 5] demo_straight_line
      demo_hart_fields(1) by auto
  have "linked demo_layout demo_hart" "translation_cache_ptr demo_hart = 0"
    by (simp_all add: linked_def live_mappings_def demo_hart_def hart_init_def flush_translation_cache_def)
  moreover have inv: "tu_inv 0x1000 h' demo_machine" "arch h' = arch demo_hart" "cached h' (pc demo_hart) \<noteq> None"
    using prefetch_instructions_inv [OF demo_tu_inv demo_layout_ok demo_room h'] by auto
  then have "translation_cache_ptr h' \<noteq> 0"
    using demo_room by (intro cached_ptr [of "0x1000" h' "pc demo_hart"]) (auto simp: tu_inv_def tu_room_def in_window_def)
  moreover have "demo_running (h', demo_machine)"
    using demo_running_start demo_running_arch [OF inv(2)] by blast
  note runs = demo_never_stops [OF _ this]
  moreover have "0 < jumper_size demo_layout" by (simp add: demo_layout_def)
  ultimately obtain off where "vmresume demo_layout demo_hart demo_machine = Mret off h' demo_machine" "linked demo_layout h'"
    "\<forall>s. entered s h' demo_machine \<longrightarrow> (\<exists>h2 m2.
      (vm_step (\<lambda>_ _ _ _. Mexit) (fetched demo_machine demo_hart))\<^sup>+\<^sup>+ (h', demo_machine) (h2, m2) \<and>
        run_cache cache_fuel (vmm_cc (\<lambda>_ _. Exit) (\<lambda>_ _ _ _. Mexit)) (uint off) s = Some (To_vmm h2 m2))"
    using vmresume_runs_unit [OF demo_tu_inv demo_layout_ok _ demo_room _ h', of "\<lambda>_ _ _ _. Mexit" "\<lambda>_ _. Exit"] by metis
  then show ?thesis by blast
qed

text \<open>
  C3. Every instruction that decodes has a translation, and the block of
  that translation refines the instruction: registers, pc, memory and the way it ends.
\<close>

theorem block_refines_instruction:
  assumes "rv_decode w = Some i" "entered s h m" "vmm_quiet h m" "rv_step i h m = Some (h', m')"
    and "\<not> host_fault i h"
  shows "\<exists>code ps stop. translation_of w (pc h) = Some (code, ps, stop) \<and>
    (if stop then leaves (vmm_cc shell syscalls) ps code s h' m'
     else completes (vmm_cc shell syscalls) ps code s h' m')"
proof -
  obtain code ps stop where "translation_of w (pc h) = Some (code, ps, stop)"
    using translation_of_decoded [OF assms(1), of "pc h"] by (auto split: prod.splits)
  with translation_runs [OF assms(1) this assms(2-5)] show ?thesis by blast
qed

theorem block_refines_instruction_witness:
  "\<exists>code ps stop. translation_of 0x00500093 (pc demo_hart) = Some (code, ps, stop) \<and>
    (if stop then leaves (vmm_cc (\<lambda>_ _. Exit) (\<lambda>_ _ _ _. Mexit)) ps code demo_host
       (rv_exec_op_imm rADD 1 0 5 demo_hart) demo_machine
     else completes (vmm_cc (\<lambda>_ _. Exit) (\<lambda>_ _ _ _. Mexit)) ps code demo_host
       (rv_exec_op_imm rADD 1 0 5 demo_hart) demo_machine)"
  by (rule block_refines_instruction [OF demo_decode(1) demo_entered demo_quiet]) simp_all

text \<open>
  C7. The divisions that the templates do not guard: on a signed overflow
  (\<open>div\<close>, \<open>rem\<close>) and on a zero divisor of \<open>rem\<close> and \<open>remu\<close> the host raises a divide error, where
  the instruction set defines a result.
\<close>

theorem division_faults_host:
  assumes "rv_decode w = Some i" "entered s h m" "vmm_quiet h m" "host_fault i h"
  shows "\<exists>code ps stop. translation_of w (pc h) = Some (code, ps, stop) \<and>
    x86_exec (vmm_cc shell syscalls) ps code s = Divide_error"
proof -
  obtain code ps stop where "translation_of w (pc h) = Some (code, ps, stop)"
    using translation_of_decoded [OF assms(1), of "pc h"] by (auto split: prod.splits)
  with translation_faults [OF assms(1) this assms(2-4)] show ?thesis by blast
qed

theorem division_faults_host_witness:
  "\<exists>code ps stop. translation_of 0x0211e133 (pc demo_hart) = Some (code, ps, stop) \<and>
    x86_exec (vmm_cc (\<lambda>_ _. Exit) (\<lambda>_ _ _ _. Mexit)) ps code demo_host = Divide_error"
proof (rule division_faults_host [OF _ demo_entered demo_quiet])
  show "rv_decode 0x0211e133 = Some (iOP rREM 2 3 1)" by code_simp
  show "host_fault (iOP rREM 2 3 1) demo_hart" by (simp add: rv_x_def demo_hart_fields)
qed

text \<open>
  C17. A word that a translated \<open>sw\<close> stores is the word that a translated
  \<open>lw\<close> from the same address loads next.
\<close>

theorem store_load_roundtrip:
  assumes "entered s h m" "vmm_quiet h m" "vmm_quiet (rv_next h) m'"
    and "guest_update h m (rv_ea rs1 off h) (rv_store_bytes rSW rs2 h) = Some m'"
  shows "\<exists>s1. x86_exec (vmm_cc shell syscalls) [off, reg_param rs1, reg_param rs2] sw_instruction_code s = At_end s1 \<and>
    completes (vmm_cc shell syscalls) [off, reg_param rs1, reg_param rd] lw_instruction_code s1
      (rv_next (rv_set rd (rv_x h rs2) (rv_next h))) m'"
  using assms by (rule vmm.store_then_load)

theorem store_load_roundtrip_witness:
  "\<exists>m'. guest_update demo_hart demo_machine (rv_ea 3 24 demo_hart) (rv_store_bytes rSW 2 demo_hart) = Some m' \<and>
    (\<exists>s1. x86_exec (vmm_cc (\<lambda>_ _. Exit) (\<lambda>_ _ _ _. Mexit)) [24, reg_param 3, reg_param 2] sw_instruction_code demo_host = At_end s1 \<and>
    completes (vmm_cc (\<lambda>_ _. Exit) (\<lambda>_ _ _ _. Mexit)) [24, reg_param 3, reg_param 4] lw_instruction_code s1
      (rv_next (rv_set 4 (rv_x demo_hart 2) (rv_next demo_hart))) m')"
proof -
  have "rv_ea 3 24 demo_hart = 0x1018" by (simp add: rv_ea_def rv_x_def demo_hart_fields)
  moreover have "length (rv_store_bytes rSW 2 demo_hart) = 4" by (simp add: rv_store_bytes_def)
  ultimately have up: "guest_update demo_hart demo_machine (rv_ea 3 24 demo_hart) (rv_store_bytes rSW 2 demo_hart) =
      Some (demo_machine\<lparr>hmem := [0 \<mapsto> splice demo_bytes 24 (rv_store_bytes rSW 2 demo_hart)]\<rparr>)"
    by (simp add: demo_guest_update)
  from store_load_roundtrip [OF demo_entered demo_quiet demo_quiet_after up] up show ?thesis by blast
qed

text \<open>
  Prefetching keeps the invariant of the cache (mapping array sorted
  and without duplicates, blocks inside the used part, the cache coherent with the guest
  memory) and the rest of the hart, and leaves a translation of the instruction at the pc.
\<close>

theorem prefetch_keeps_invariant:
  assumes "tu_inv b h m" "layout_ok lay" "tu_room b h" "prefetch_instructions lay h m = Mret u h' m'"
  shows "m' = m \<and> tu_inv b h' m \<and> arch h' = arch h \<and> cached h' (pc h) \<noteq> None"
  using assms by (rule prefetch_instructions_inv)

text \<open>
  C8. The prefetch loop ends without a failed \<open>ASSERT\<close> on code that is mapped and
  supported up to the next instruction that ends a unit.
\<close>

theorem prefetch_returns:
  assumes "tu_inv b h m" "layout_ok lay" "tu_room b h" "straight_line m h n (pc h)"
  shows "\<exists>h'. prefetch_instructions lay h m = Mret () h' m"
  using assms by (rule prefetch_instructions_returns)

theorem prefetch_returns_witness:
  "\<exists>h'. prefetch_instructions demo_layout demo_hart demo_machine = Mret () h' demo_machine"
  by (rule prefetch_returns [OF demo_tu_inv demo_layout_ok demo_room, of 5])
     (simp add: demo_hart_fields demo_straight_line)

text \<open>
  C9. \<open>COMMIT_TRANSLATION\<close> refines the update of a finite map from guest
  addresses to blocks, keeps the invariant and everything outside the cache, and moves the
  cache pointer by the size of the block.
\<close>

theorem commit_refines_map_update:
  assumes "tc_wf b h" "in_window b addr" "cached h addr = None"
    and "0 < TRANSLATION_SIZE lay ind" "TRANSLATION_SIZE lay ind \<le> unoccupied_cache_size lay h"
    and "0 \<le> jumper_size lay"
  shows "\<exists>h'. COMMIT_TRANSLATION lay ind code params h addr = Some h' \<and> tc_wf b h' \<and> arch h' = arch h \<and>
    translation_cache_ptr h' = translation_cache_ptr h + TRANSLATION_SIZE lay ind \<and>
    (\<forall>p. in_window b p \<longrightarrow> cached h' p = ((cached h)(addr \<mapsto> (code, params))) p)"
  using COMMIT_TRANSLATION_refines [OF assms, of code params] by blast

theorem commit_refines_map_update_witness:
  "\<exists>h'. COMMIT_TRANSLATION demo_layout ''lui_instruction'' lui_instruction_code [1, 2] demo_hart 0x1000 = Some h' \<and>
    tc_wf 0x1000 h' \<and> arch h' = arch demo_hart \<and> translation_cache_ptr h' = 256 \<and>
    cached h' 0x1000 = Some (lui_instruction_code, [1, 2])"
proof -
  have ptr: "translation_cache_ptr demo_hart = 0" "nr_translated_instructions demo_hart = 0"
    by (simp_all add: demo_hart_def hart_init_def flush_translation_cache_def)
  have wf: "tc_wf 0x1000 demo_hart" using demo_tu_inv by (simp add: tu_inv_def)
  moreover have "live_mappings demo_hart = []" by (simp add: live_mappings_def ptr)
  ultimately have "cached demo_hart 0x1000 = None"
    using cached_None_iff [OF wf, of "0x1000"] search_None_iff [OF wf, of "0x1000"] by simp
  from commit_refines_map_update [OF wf _ this, of demo_layout "''lui_instruction''" lui_instruction_code "[1, 2]"]
  obtain h' where "COMMIT_TRANSLATION demo_layout ''lui_instruction'' lui_instruction_code [1, 2] demo_hart 0x1000 = Some h'"
    "tc_wf 0x1000 h'" "arch h' = arch demo_hart" "translation_cache_ptr h' = 256"
    "cached h' 0x1000 = Some (lui_instruction_code, [1, 2])"
    by (auto simp: demo_layout_def unoccupied_cache_size_def ptr TRANSLATION_CACHE_SIZE_def MAX_INSTRUCTIONS_TOTRANSLATE_def)
  then show ?thesis by blast
qed

text \<open>
  C16. The body of every translator on a full cache: the first instruction of a
  unit flushes the cache and is committed alone, a later one stops the unit and changes
  nothing. The cache never grows into the room of the jumper.
\<close>

theorem emit_flushes_or_stops:
  fixes ind :: indicator
  assumes "tc_wf b h" "in_window b (next_instruction_to_fetch blob)" "cached h (next_instruction_to_fetch blob) = None"
    and "layout_ok lay" "cache_full lay ind h"
  shows "\<exists>blob' h'. emit_translation lay ind code ps stop blob h = Some (blob', h') \<and>
    tc_wf b h' \<and> arch h' = arch h \<and>
    (if is_flushable blob
     then translation_cache_ptr h' + jumper_size lay \<le> TRANSLATION_CACHE_SIZE \<and> \<not> is_flushable blob' \<and>
       (\<forall>p. in_window b p \<longrightarrow>
          cached h' p = (if p = next_instruction_to_fetch blob then Some (code, ps) else None))
     else h' = h \<and> blob' = blob\<lparr>is_to_stop := True\<rparr>)"
proof -
  from emit_translation_refines [OF assms(1-4), of ind code ps stop] assms(5)
  obtain blob' h' where e: "emit_translation lay ind code ps stop blob h = Some (blob', h')" "tc_wf b h'" "arch h' = arch h"
    "if \<not> is_flushable blob then h' = h \<and> blob' = blob\<lparr>is_to_stop := True\<rparr>
     else translation_cache_ptr h' + jumper_size lay \<le> TRANSLATION_CACHE_SIZE \<and>
       (\<forall>p. in_window b p \<longrightarrow> cached h' p =
          ((cached (flush_translation_cache h))(next_instruction_to_fetch blob \<mapsto> (code, ps))) p) \<and>
       blob' = (if stop then blob\<lparr>is_flushable := False, is_to_stop := True\<rparr>
         else blob\<lparr>is_flushable := False, next_instruction_to_fetch := next_instruction_to_fetch blob + 4\<rparr>)"
    by auto
  with cached_flush [OF assms(1)] show ?thesis by (intro exI [of _ blob'] exI [of _ h']) (simp split: if_splits)
qed

theorem emit_flushes_or_stops_witness:
  "\<exists>blob' h'. emit_translation demo_layout ''lui_instruction'' lui_instruction_code [1, 2] False (unit_start 0x1000)
      (demo_hart\<lparr>translation_cache_ptr := TRANSLATION_CACHE_SIZE\<rparr>) = Some (blob', h') \<and>
    cached h' 0x1000 = Some (lui_instruction_code, [1, 2])"
proof -
  let ?h = "demo_hart\<lparr>translation_cache_ptr := TRANSLATION_CACHE_SIZE\<rparr>"
  have live: "live_mappings ?h = []" "live_mappings demo_hart = []"
    by (simp_all add: live_mappings_def demo_hart_def hart_init_def flush_translation_cache_def)
  have wf: "tc_wf 0x1000 ?h"
    using demo_tu_inv live by (simp add: tu_inv_def tc_wf_def)
  then have "cached ?h 0x1000 = None"
    using cached_None_iff [OF wf, of "0x1000"] search_None_iff [OF wf, of "0x1000"] live by simp
  moreover have "cache_full demo_layout ''lui_instruction'' ?h"
    by (simp add: cache_full_def demo_layout_def unoccupied_cache_size_def)
  ultimately show ?thesis
    using emit_flushes_or_stops [OF wf _ _ demo_layout_ok, of "unit_start 0x1000" "''lui_instruction''" lui_instruction_code "[1, 2]" False]
    by (auto simp: unit_start_def)
qed

section \<open>Guest memory\<close>

text \<open>
  C18. What a store changes, byte by byte: exactly the bytes of its range that
  lie in the region of its address get the stored values; every other byte of the process,
  of the same region or of another, keeps its value.
\<close>

theorem store_changes_its_bytes:
  assumes "guest_update h m a (le_bytes n v) = Some m'" "linked_vm m h = Some vm" "vm_mem_ok vm" "access_size_ok n"
  shows "vmwrite n h m a v = Mret () h m' \<and>
    guest_byte m' vm x =
     (if region_at vm x = region_at vm a \<and> unat a \<le> unat x \<and> unat x < unat a + n
      then Some (le_bytes n v ! (unat x - unat a)) else guest_byte m vm x)"
  using vmwrite_guest_update [OF assms(1,4)] guest_update_byte [OF assms(1-3)] by simp

theorem store_changes_its_bytes_witness:
  "\<exists>m'. vmwrite 2 demo_hart demo_machine 0x1018 0xabcd = Mret () demo_hart m' \<and>
     guest_byte m' demo_vm 0x1019 = Some 0xab"
proof -
  have up: "guest_update demo_hart demo_machine 0x1018 (le_bytes 2 0xabcd) =
      Some (demo_machine\<lparr>hmem := [0 \<mapsto> splice demo_bytes 24 (le_bytes 2 0xabcd)]\<rparr>)"
    by (simp add: demo_guest_update)
  have "le_bytes 2 0xabcd ! (unat (0x1019 :: u32) - unat (0x1018 :: u32)) = 0xab" by code_simp
  moreover have "region_at demo_vm 0x1019 = region_at demo_vm 0x1018"
    by (simp add: region_at_def demo_vm_def live_regions_def in_region_def demo_region_def)
  ultimately show ?thesis
    using store_changes_its_bytes [OF up demo_linked_vm demo_vm_mem_ok, of "0x1019"]
    by (auto simp: access_size_ok_def)
qed

text \<open>
  C19. The binary search for the region of an address is exact on a well-formed
  memory map: it always returns, what it finds contains the address, and it finds nothing
  only if no region contains it.
\<close>

theorem region_lookup_exact:
  assumes "vm_wf vm" "a \<noteq> - 1"
  shows "case search_pm_region_callback vm (ucast a) of None \<Rightarrow> False
    | Some None \<Rightarrow> (\<forall>r \<in> set (live_regions vm). \<not> in_region a r)
    | Some (Some i) \<Rightarrow> i < nr_pmr_ops vm \<and> in_region a (pmr_ops vm ! i)"
  using assms by (rule search_pm_region_exact)

theorem region_lookup_exact_witness:
  "case search_pm_region_callback demo_vm (ucast (0x1018 :: u32)) of None \<Rightarrow> False
    | Some None \<Rightarrow> (\<forall>r \<in> set (live_regions demo_vm). \<not> in_region 0x1018 r)
    | Some (Some i) \<Rightarrow> i < nr_pmr_ops demo_vm \<and> in_region 0x1018 (pmr_ops demo_vm ! i)"
  by (rule region_lookup_exact [OF demo_vm_wf]) simp

text \<open>
  C40. The last address of the guest cannot be looked up: the one-byte target
  wraps to an empty interval and the comparison's \<open>ASSERT\<close> ends the process.
\<close>

theorem last_address_fails:
  assumes "0 < nr_pmr_ops vm"
  shows "search_pm_region_callback vm (ucast (- 1 :: u32)) = None"
  using assms by (rule search_last_address)

theorem last_address_fails_witness: "search_pm_region_callback demo_vm (ucast (- 1 :: u32)) = None"
  by (rule last_address_fails) (simp add: demo_vm_def)

text \<open>
  C20. Registering a region keeps the memory map sorted and free of overlaps, and
  adds exactly that region. In particular a region that overlaps another is never accepted.
\<close>

theorem register_keeps_map:
  assumes "vm_wf vm" "addr_low pmr < addr_high pmr" "register_pm_region_operation vm pmr = Some vm'"
  shows "vm_wf vm' \<and> set (live_regions vm') = insert pmr (set (live_regions vm)) \<and> pmr \<notin> set (live_regions vm)"
  using assms by (rule register_pm_region_safe)

theorem register_keeps_map_witness:
  "\<exists>vm'. register_pm_region_operation demo_vm demo_region2 = Some vm' \<and> vm_wf vm' \<and>
     set (live_regions vm') = {demo_region2, demo_region}"
proof -
  obtain vm' where "register_pm_region_operation demo_vm demo_region2 = Some vm'" using demo_registers by blast
  moreover have "set (live_regions demo_vm) = {demo_region}" by (simp add: live_regions_def demo_vm_def)
  ultimately show ?thesis
    using register_keeps_map [OF demo_vm_wf, of demo_region2 vm'] by (auto simp: demo_region2_def)
qed

text \<open>
  A region with both callbacks that overlaps no other is accepted as long as a
  slot of the array is free.
\<close>

theorem register_accepts:
  assumes "vm_wf vm" "nr_pmr_ops vm < MAX_VMA_NR" "pmr_read pmr \<noteq> None" "pmr_write pmr \<noteq> None"
    and "disjoint_regions (insert pmr (set (live_regions vm)))" "pmr \<notin> set (live_regions vm)"
  shows "\<exists>vm'. register_pm_region_operation vm pmr = Some vm'"
  using assms by (rule register_pm_region_complete)

text \<open>
  Unregistering a region removes exactly that one; the others keep their order.
\<close>

theorem unregister_removes:
  assumes "vm_wf vm" "i < nr_pmr_ops vm"
  shows "\<exists>vm'. unregister_pm_region vm i = Some vm' \<and> vm_wf vm' \<and>
    live_regions vm' = take i (live_regions vm) @ drop (Suc i) (live_regions vm)"
  using assms by (rule unregister_pm_region_live)

text \<open>
  The range that the search for a free place returns overlaps no region and
  leaves a guard page above it, and the search never fails its own \<open>ASSERT\<close>, for sizes that do not wrap.
\<close>

theorem free_region_is_free:
  assumes "vm_wf vm" "unat sz + 4096 < 2 ^ 32"
  shows "\<exists>a. search_free_mmap_region vm sz = Some a \<and>
    (a \<noteq> 0 \<longrightarrow> is_range_eligible vm a (a + sz) \<and> unat a + unat sz + 4096 < 2 ^ 32 \<and>
       (\<forall>j<nr_pmr_ops vm. addr_high (pmr_ops vm ! j) \<le> a \<or> unat a + unat sz + 4096 \<le> unat (addr_low (pmr_ops vm ! j))))"
  using assms by (rule search_free_mmap_region_free)

text \<open>
  A hit in the TLB does not look at the tag: two pages whose numbers agree on the
  index bits share an entry, and the second one is sent to the frame of the first.
\<close>

theorem tlb_ignores_tag:
  "let e = \<lparr>va_tag = 0x1000, pa_tag = 0x8000, page_mask = PAGE_MASK_4K, entry_valid = True, tlb_pmr = 0\<rparr>;
       tlb = [e\<lparr>entry_valid := False\<rparr>, e] in
   VA_TO_TLB_ENTRY tlb 0x1004 = Some (Some 1) \<and> VA_TO_TLB_ENTRY tlb 0x3004 = Some (Some 1) \<and>
   va_tag (tlb ! 1) \<noteq> 0x3004 AND PAGE_MASK_4K \<and> entry_address (tlb ! 1) 0x3004 = 0x8004"
  by code_simp

text \<open>
  A misaligned atomic store traps, but with the cause of a misaligned
  load: the guest sees \<open>mcause\<close> 4 where the instruction set has 6.
\<close>

theorem misaligned_store_cause:
  assumes "a AND 3 \<noteq> 0" "privilege_level h = PRIVILEGE_LEVEL_MACHINE"
  shows "\<exists>h'. mmu_write32_aligned h m a v = Mtrap h' m \<and> csrs h' CSR_ADDRESS_MCAUSE = 4 \<and>
    csrs h' CSR_ADDRESS_MTVAL = a \<and> csrs h' CSR_ADDRESS_MEPC = pc h \<and> registers h' = registers h"
  using assms
  by (simp add: mmu_write32_aligned_def raise_exception_with_tvalue_def raise_exception_internal_def
      exception_target_privilege_level_def raise_trap_raw_def setup_mmode_trap_def flush_translation_cache_def
      EXCEPTION_LOAD_ADDRESS_MISALIGN_def trap_csrs Let_def ASSERT_def)

theorem misaligned_store_cause_witness:
  "\<exists>h'. mmu_write32_aligned demo_hart demo_machine 0x1002 7 = Mtrap h' demo_machine \<and>
     csrs h' CSR_ADDRESS_MCAUSE = 4"
  using misaligned_store_cause [of "0x1002" demo_hart demo_machine 7] demo_hart_fields(3) by auto

section \<open>Atomic instructions, traps and breakpoints\<close>

text \<open>
  A store-conditional of the same hart right after a load-reserved of the same
  address succeeds: the loaded word is in the register, the stored word in the memory, and the
  result register is 0.
\<close>

theorem lr_sc_succeeds:
  assumes "res_wf m" "hart_id h < 256" "registers h ! unat rs1 AND 3 = 0"
    and "guest_bytes h m (registers h ! unat rs1) 4 = Some bs"
    and "unat rd < length (registers h)" "unat rd2 < length (registers h)" "rd \<noteq> rs1" "rd \<noteq> rs2"
    and "guest_update h m (registers h ! unat rs1) (le_bytes 4 (ucast (registers h ! unat rs2))) = Some m'"
  shows "\<exists>m1 res np. lr_slowpath h m rs1 x rd = Mret () (write_reg rd (ucast (le_word bs)) h) m1 \<and>
    sc_slowpath (write_reg rd (ucast (le_word bs)) h) m1 rs1 rs2 rd2 =
      Mret () (write_reg rd2 0 (write_reg rd (ucast (le_word bs)) h)) (m'\<lparr>reservations := res, next_pointer := np\<rparr>)"
  using assms by (rule lr_then_sc)

text \<open>
  C22. A trap leaves an empty, well-formed cache: no block translated before it
  can be entered again, and the registers are as before.
\<close>

theorem trap_drops_translations:
  assumes "tc_wf b h" "raise_trap_raw h pl cause tval = Some h'"
  shows "tc_wf b h' \<and> (\<forall>p. in_window b p \<longrightarrow> cached h' p = None) \<and> registers h' = registers h"
proof -
  let ?h0 = "if pl = ucast PRIVILEGE_LEVEL_MACHINE then setup_mmode_trap h cause tval else setup_smode_trap h cause tval"
  have h': "h' = flush_translation_cache ?h0"
    using assms(2) by (simp add: raise_trap_raw_def split: if_splits)
  have wf: "tc_wf b ?h0"
    using assms(1) by (simp add: tc_wf_def live_mappings_def block_at_def setup_mmode_trap_def setup_smode_trap_def)
  show ?thesis
    using tc_wf_flush [OF wf] cached_flush [OF wf] raise_trap_raw_flushes [OF assms(2)] unfolding h' by simp
qed

theorem trap_drops_translations_witness:
  "\<exists>h'. raise_trap_raw demo_hart (ucast PRIVILEGE_LEVEL_MACHINE) 5 7 = Some h' \<and> tc_wf 0x1000 h' \<and>
     (\<forall>p. in_window 0x1000 p \<longrightarrow> cached h' p = None) \<and> registers h' = registers demo_hart"
proof -
  have "tc_wf 0x1000 demo_hart" using demo_tu_inv by (simp add: tu_inv_def)
  moreover obtain h' where "raise_trap_raw demo_hart (ucast PRIVILEGE_LEVEL_MACHINE) 5 7 = Some h'"
    by (simp add: raise_trap_raw_def)
  ultimately show ?thesis using trap_drops_translations by blast
qed

text \<open>
  An \<open>mret\<close> right after a trap into machine mode returns to the interrupted
  instruction with the privilege level and the interrupt enable bit restored.
\<close>

theorem mret_undoes_trap:
  assumes "privilege_level h \<noteq> 2" "raise_trap_raw h (ucast PRIVILEGE_LEVEL_MACHINE) cause tval = Some h'"
  shows "\<exists>h''. mret_callback h' = Some (Inl h'') \<and> pc h'' = pc h \<and> registers h'' = registers h \<and>
    privilege_level h'' = privilege_level h \<and> mie (status h'') = mie (status h)"
  using assms by (rule mret_after_trap)

text \<open>
  Adding a breakpoint is refused when it is misaligned or the table is full;
  otherwise the set of breakpoints grows by exactly that address, and the check of a pc is
  membership in that set.
\<close>

theorem breakpoint_set_grows:
  assumes "bp_wf b m" "in_window b a" "in_window b x"
  shows "\<exists>rc m'. add_breakpoint m a = Some (rc, m') \<and> bp_wf b m' \<and>
    (if a AND 3 \<noteq> 0 then rc = -2 \<and> m' = m
     else if nr_breakpoints m = MAX_BREAKPOINTS then rc = -1 \<and> m' = m
     else rc = 0 \<and> (is_address_breakpoint m' x \<longleftrightarrow> x = a \<or> is_address_breakpoint m x))"
proof -
  obtain rc m' where r: "add_breakpoint m a = Some (rc, m')" "bp_wf b m'"
    "if a AND 3 \<noteq> 0 then rc = -2 \<and> m' = m
     else if nr_breakpoints m = MAX_BREAKPOINTS then rc = -1 \<and> m' = m
     else rc = 0 \<and> set (live_breakpoints m') = insert a (set (live_breakpoints m))"
    using add_breakpoint_correct [OF assms(1,2)] by blast
  then show ?thesis
    using is_address_breakpoint_iff [OF r(2) assms(3)] is_address_breakpoint_iff [OF assms(1,3)]
    by (intro exI [of _ rc] exI [of _ m']) (auto split: if_splits)
qed

section \<open>Tasks\<close>

text \<open>
  C10. A switch of tasks. On links that represent the three queues, the
  handler of \<open>yield_cpu\<close> never fails an \<open>ASSERT\<close> and its loops end; it saves the frame of the
  current task, the links afterwards represent the queues of the abstract switch, the current
  task is the one that the abstract switch picks, and the stack returned is its saved frame.
\<close>

theorem switch_refines_queues:
  fixes s :: "'z sched_scheme"
  assumes "sched_ok s q B" "current s = Some cur" "frame \<noteq> 0"
  shows "\<exists>s'. userspace_trap_handler s frame = Some (host_cpustate (tasks s' (next_of (fst (switch_spec (state_of s) cur q)))), s') \<and>
    current s' = Some (next_of (fst (switch_spec (state_of s) cur q))) \<and>
    tasks s' = (tasks s)(cur := (tasks s cur)\<lparr>host_cpustate := frame\<rparr>) \<and>
    sched_ok s' (snd (switch_spec (state_of s) cur q)) B"
  by (rule userspace_trap_ok [OF assms])

theorem switch_refines_queues_witness:
  "\<exists>s'. userspace_trap_handler demo_world 0x3000 = Some (0x1000, s') \<and> current s' = Some (Task 2) \<and>
     sched_ok s' \<lparr>runq = [Task 1], blkq = [], exq = []\<rparr> demo_lists"
proof -
  have cur: "current demo_world = Some (Task 1)" by (simp add: demo_world_def)
  have sw: "switch_spec (state_of demo_world) (Task 1) demo_queues = (Some (Task 2), \<lparr>runq = [Task 1], blkq = [], exq = []\<rparr>)"
    by (simp add: switch_spec_def wake_blocked_def pick_def queue_spec_defs demo_queues_def demo_world_def demo_task_def)
  show ?thesis
    using switch_refines_queues [OF demo_sched_ok cur, of "0x3000"] sw
    by (auto simp: next_of_def demo_world_def demo_task_def)
qed

text \<open>
  The task that a switch picks is runnable; the idle task is picked only
  if no queued task and not the current one can run; and no task is lost: one that is not
  exiting is queued afterwards, or is the one that runs.
\<close>

theorem switch_picks_runnable:
  fixes s :: "'z sched_scheme"
  assumes "sched_ok s q B" "current s = Some cur" "frame \<noteq> 0"
  shows "\<exists>stack s' n q'. userspace_trap_handler s frame = Some (stack, s') \<and> current s' = Some n \<and> sched_ok s' q' B \<and>
    (n \<noteq> idle_task \<longrightarrow> state_of s n = TASK_STATE_RUNNING) \<and>
    (n = idle_task \<longrightarrow> (\<forall>t\<in>set (runq q) \<union> set (blkq q) \<union> ({cur} - {idle_task}). state_of s t \<noteq> TASK_STATE_RUNNING)) \<and>
    (\<forall>t\<in>set (runq q) \<union> set (blkq q) \<union> ({cur} - {idle_task}). state_of s t = TASK_STATE_EXITING \<or> t = n \<or> t \<in> queued q')"
proof -
  let ?sw = "switch_spec (state_of s) cur q"
  obtain s' where s': "userspace_trap_handler s frame = Some (host_cpustate (tasks s' (next_of (fst ?sw))), s')"
    "current s' = Some (next_of (fst ?sw))" "sched_ok s' (snd ?sw) B"
    using userspace_trap_ok [OF assms] by blast
  have ok: "idle_task \<notin> set (runq q)" "idle_task \<notin> set (blkq q)"
    "\<forall>t\<in>set (runq q) \<union> set (blkq q) \<union> ({cur} - {idle_task}). schedulable (state_of s t)"
    using assms(1,2) by (auto simp: sched_ok_def queued_def)
  have "\<forall>t\<in>set (runq q) \<union> set (blkq q) \<union> ({cur} - {idle_task}). state_of s t = TASK_STATE_EXITING \<or>
      t = next_of (fst ?sw) \<or> t \<in> queued (snd ?sw)"
    using switch_keeps_live [of _ q cur "state_of s"] ok(3) by (fastforce simp: next_of_def)
  moreover have "next_of (fst ?sw) \<noteq> idle_task \<longrightarrow> state_of s (next_of (fst ?sw)) = TASK_STATE_RUNNING"
    "next_of (fst ?sw) = idle_task \<longrightarrow> (\<forall>t\<in>set (runq q) \<union> set (blkq q) \<union> ({cur} - {idle_task}). state_of s t \<noteq> TASK_STATE_RUNNING)"
    using switch_picks_running [OF ok(1,2)] by (simp_all add: next_of_def)
  ultimately show ?thesis using s' by blast
qed

text \<open>
  C11. No starvation: a runnable task with \<open>k\<close> tasks in front of it in the run
  queue is picked by one of the next \<open>k + 1\<close> switches, and all these switches return.
\<close>

theorem runnable_task_runs:
  fixes s :: "'z sched_scheme"
  assumes "sched_ok s q B" "runq q = xs @ t # ys" "state_of s t = TASK_STATE_RUNNING"
    and "length xs < length cpus" "0 \<notin> set cpus"
  shows "\<exists>ts. chosen_tasks s cpus = Some ts \<and> t \<in> set ts"
  by (rule runnable_is_chosen [OF assms])

theorem runnable_task_runs_witness:
  "\<exists>ts. chosen_tasks demo_world [0x3000] = Some ts \<and> Task 2 \<in> set ts"
  by (rule runnable_task_runs [OF demo_sched_ok, of "[]" _ "[]"])
    (simp_all add: demo_queues_def demo_world_def demo_task_def)

text \<open>
  C12. When the running task exits, the tasks that sleep on its wait queue are
  runnable, and after the switch that follows each of them is in the run queue or runs; the
  task that exited is in no queue and never runs again.
\<close>

theorem exit_wakes_waiters:
  fixes s :: "'z sched_scheme"
  assumes "sched_ok s q B" "current s = Some t" "t \<noteq> idle_task" "state_of s t = TASK_STATE_RUNNING"
    and "B (Wq_pivot t) = map Wait_list ns"
    and "\<forall>n\<in>set ns. waiter s n = Some (w n) \<and> wakeable (tasks s (w n))" "frame \<noteq> 0"
  shows "\<exists>s1 s2 q2 stack n. do_exit s t = Some s1 \<and> userspace_trap_handler s1 frame = Some (stack, s2) \<and>
    sched_ok s2 q2 B \<and> current s2 = Some n \<and> n \<noteq> t \<and> t \<notin> queued q2 \<and>
    (\<forall>p\<in>w ` set ns \<inter> set (blkq q). state_of s p = TASK_STATE_INTERRUPTIBLE \<longrightarrow>
       state_of s2 p = TASK_STATE_RUNNING \<and> (n = p \<or> p \<in> set (runq q2)))"
  by (rule exit_then_switch [OF assms])

theorem exit_wakes_waiters_witness:
  "\<exists>s1 s2 stack n. do_exit demo_exit (Task 2) = Some s1 \<and> userspace_trap_handler s1 0x3000 = Some (stack, s2) \<and>
     current s2 = Some n \<and> n \<noteq> Task 2 \<and> state_of s2 (Task 1) = TASK_STATE_RUNNING"
proof -
  have "\<exists>s1 s2 q2 stack n. do_exit demo_exit (Task 2) = Some s1 \<and> userspace_trap_handler s1 0x3000 = Some (stack, s2) \<and>
    sched_ok s2 q2 demo_exit_lists \<and> current s2 = Some n \<and> n \<noteq> Task 2 \<and> Task 2 \<notin> queued q2 \<and>
    (\<forall>p\<in>(\<lambda>_. Task 1) ` set [0::nat] \<inter> set (blkq demo_exit_queues). state_of demo_exit p = TASK_STATE_INTERRUPTIBLE \<longrightarrow>
       state_of s2 p = TASK_STATE_RUNNING \<and> (n = p \<or> p \<in> set (runq q2)))"
    by (rule exit_wakes_waiters [OF demo_exit_ok])
      (simp_all add: demo_exit_def demo_world_def demo_exit_lists_def demo_task_def wakeable_def)
  then show ?thesis by (fastforce simp: demo_exit_queues_def demo_exit_def demo_task_def)
qed

text \<open>
  C14. \<open>wait4\<close> with \<open>WNOHANG\<close> never blocks, whatever the other tasks would do: it
  returns -1 if no process in the task list is a child that matches the hint, the pid of the
  first matching child that has exited, which it takes off the task list, and 0 if there are
  matching children but none has exited.
\<close>

theorem wait_nohang_result:
  fixes w :: "'z world_scheme"
  assumes "lists_ok sched_heads (links w) L" "L (Wait_blob_head (Task v)) = []" "L global_task_list_head = map Vm_list_node cs"
    and "vm_of w v = Some vm" "\<forall>c\<in>set cs. vm_of w c \<noteq> None" "options AND WNOHANG_MASK \<noteq> 0"
    and "scan_result w (-1) (filter (waitable w v pid_hint) cs) = (r, t)"
  shows "\<exists>w'. call_wait4 alloc yield_cpu w v pid_hint options = Some (r, w') \<and>
    lists_ok sched_heads (links w') (L(global_task_list_head := released r t (map Vm_list_node cs))) \<and>
    tasks w' = tasks w \<and> world_machine w' = world_machine w"
  by (rule call_wait4_nohang [OF assms])

theorem wait_nohang_result_witness:
  "\<exists>w'. call_wait4 demo_alloc (\<lambda>_. None) demo_world 1 (-1) WNOHANG_MASK = Some (3, w') \<and>
    lists_ok sched_heads (links w') ((sched_lists demo_queues demo_lists)(global_task_list_head := [Vm_list_node 2]))"
proof -
  have "WNOHANG_MASK AND WNOHANG_MASK \<noteq> 0" by (simp add: WNOHANG_MASK_def)
  from wait_nohang_result [OF demo_wait_premises(1-5) this demo_wait_premises(7), of demo_alloc "\<lambda>_. None"]
  show ?thesis by (simp add: released_def) blast
qed

text \<open>
  C13. \<open>wait4\<close> that may block. If a matching child is met that is alive, the
  call sleeps as INTERRUPTIBLE, and when it does so the wait queue of every matching child that
  was met holds an entry that names the caller, so that the exit of any of them wakes it. It
  sleeps also if a matching child that has already exited was met behind a living one, although
  that child could be returned at once.
\<close>

theorem wait_queues_caller:
  fixes w :: "'z world_scheme"
  assumes "lists_ok sched_heads (links w) L" "L (Wait_blob_head (Task v)) = []" "L global_task_list_head = map Vm_list_node cs"
    and "vm_of w v = Some vm" "\<forall>c\<in>set cs. vm_of w c \<noteq> None" "options AND WNOHANG_MASK = 0"
    and "blobs_ok (blob_vm w) L" "alloc_fresh alloc" "state_of w (Task v) = TASK_STATE_RUNNING"
    and "scan_result w (-1) (filter (waitable w v pid_hint) cs) = (r, t)"
    and "alive_before w (filter (waitable w v pid_hint) cs) \<noteq> []"
  shows "\<exists>w1 L1. call_wait4 alloc yield_cpu w v pid_hint options = Option.bind (yield_cpu w1) (wait4_finish v options r t) \<and>
    state_of w1 (Task v) = TASK_STATE_INTERRUPTIBLE \<and> lists_ok sched_heads (links w1) L1 \<and>
    (\<forall>c\<in>set (alive_before w (filter (waitable w v pid_hint) cs)).
       \<exists>n. Wait_list n \<in> set (L1 (Wq_pivot (Task c))) \<and> waiter w1 n = Some (Task v)) \<and>
    (\<forall>m\<in>sched_heads. m \<noteq> Wait_blob_head (Task v) \<longrightarrow> set (L m) \<subseteq> set (L1 m))"
proof -
  obtain bs H where bs: "map snd bs = alive_before w (filter (waitable w v pid_hint) cs)"
    "call_wait4 alloc yield_cpu w v pid_hint options =
      Option.bind (yield_cpu (upd_task (Task v) (task_state_update (\<lambda>_. TASK_STATE_INTERRUPTIBLE)) (queue_blobs v H bs w)))
        (wait4_finish v options r t)" "lists_ok sched_heads H (with_blobs v bs L)"
    using call_wait4_blocks [OF assms] by blast
  let ?w1 = "upd_task (Task v) (task_state_update (\<lambda>_. TASK_STATE_INTERRUPTIBLE)) (queue_blobs v H bs w)"
  have "\<exists>n. Wait_list n \<in> set (with_blobs v bs L (Wq_pivot (Task c))) \<and> waiter ?w1 n = Some (Task v)"
    if "c \<in> set (alive_before w (filter (waitable w v pid_hint) cs))" for c
  proof -
    have "c \<in> set (map snd bs)" using that bs(1) by simp
    then obtain n where "(n, c) \<in> set bs" by (auto simp del: bs(1))
    then show ?thesis by (intro exI [of _ n]) (force simp: with_blobs_at upd_task_def)
  qed
  moreover have "set (L m) \<subseteq> set (with_blobs v bs L m)" if "m \<noteq> Wait_blob_head (Task v)" for m
    using with_blobs_at(2) [of v bs L] with_blobs_at(3) [of m v bs L] that by (cases "\<exists>c. m = Wq_pivot (Task c)") auto
  ultimately show ?thesis
    using bs(2,3) by (intro exI [of _ ?w1] exI [of _ "with_blobs v bs L"]) (simp add: upd_task_def)
qed

theorem wait_queues_caller_witness:
  "\<exists>w1 n. call_wait4 demo_alloc Some demo_world 1 (-1) 0 = wait4_finish 1 0 3 (Some 3) w1 \<and>
    state_of w1 (Task 1) = TASK_STATE_INTERRUPTIBLE \<and> waiter w1 n = Some (Task 1)"
proof -
  have "(0::u32) AND WNOHANG_MASK = 0" by simp
  note call = wait_queues_caller [OF demo_wait_premises(1-5) this demo_blobs_ok demo_alloc_fresh demo_wait_premises(6-8), of Some]
  have "2 \<in> set (alive_before demo_world (filter (waitable demo_world 1 (-1)) [2, 3]))"
    unfolding demo_wait by simp
  with call show ?thesis by fastforce
qed

text \<open>
  C15. When the caller of \<open>wait4\<close> runs again, after a scan that met no exited child, it
  returns the pid of the first child it queued behind whose state has changed, that child is off
  the task list, and no wait queue keeps an entry of the call.
\<close>

theorem wait_collects_child:
  fixes w :: "'z world_scheme"
  assumes "lists_ok sched_heads (links w) L" "L (Wait_blob_head (Task v)) = map (\<lambda>b. Wait_blob_node (fst b)) bs"
    and "\<forall>(n, c)\<in>set bs. map_of (blob_vm w) n = Some c \<and> vm_of w c \<noteq> None \<and> 0 < sint (pid_of w c) \<and>
      Wait_list n \<in> set (L (Wq_pivot (Task c)))" "distinct (map fst bs)"
    and "filter (\<lambda>c. wait_state_changed options (tasks w (Task c))) (map snd bs) = c # cs"
  shows "\<exists>w' L'. wait4_finish v options 0 None w = Some (pid_of w c, w') \<and> lists_ok sched_heads (links w') L' \<and>
    L' global_task_list_head = remove1 (Vm_list_node c) (L global_task_list_head) \<and> L' (Wait_blob_head (Task v)) = [] \<and>
    (\<forall>n\<in>fst ` set bs. (\<forall>m. Wait_list n \<notin> set (L' m)) \<and> map_of (blob_vm w') n = None)"
proof -
  have "c \<in> set (filter (\<lambda>c. wait_state_changed options (tasks w (Task c))) (map snd bs))" unfolding assms(5) by simp
  then have "c \<in> set (map snd bs)" by auto
  then have pid: "0 < sint (pid_of w c)" using assms(3) by fastforce
  have "reap_result options w 0 None (map snd bs) = (pid_of w c, Some c)" using assms(5) by (simp add: reap_result_def)
  then obtain H where H: "wait4_finish v options 0 None w =
      Some (pid_of w c, w\<lparr>links := H, blob_vm := filter (\<lambda>p. fst p \<notin> fst ` set bs) (blob_vm w)\<rparr>)"
    "lists_ok sched_heads H ((unqueued v (fst ` set bs) L)(global_task_list_head :=
       released (pid_of w c) (Some c) (unqueued v (fst ` set bs) L global_task_list_head)))"
    using wait4_finish_ok [OF assms(1-4), of 0 None options] by auto
  have glob: "unqueued v N L global_task_list_head = filter (\<lambda>e. e \<notin> Wait_list ` N) (L global_task_list_head)" for N
    by (simp add: unqueued_def)
  have keep: "filter (\<lambda>e. e \<notin> Wait_list ` fst ` set bs) (L global_task_list_head) = L global_task_list_head"
    using klist.disjoint_law [OF assms(1), of "Wq_pivot _" global_task_list_head] assms(3)
    by (intro filter_True) fastforce
  have gone: "map_of (filter (\<lambda>p. fst p \<notin> N) xs) n = None" if "n \<in> N" for n N and xs :: "(nat \<times> vmptr) list"
    using that by (induction xs) auto
  have rel: "released (pid_of w c) (Some c) (unqueued v (fst ` set bs) L global_task_list_head) =
      remove1 (Vm_list_node c) (L global_task_list_head)"
    using pid keep by (simp add: glob released_def)
  have out: "Wait_list n \<notin> set (L global_task_list_head)" if "n \<in> fst ` set bs" for n
  proof -
    have "Wait_list n \<notin> set (filter (\<lambda>e. e \<notin> Wait_list ` fst ` set bs) (L global_task_list_head))" using that by auto
    then show ?thesis unfolding keep .
  qed
  from H show ?thesis
    unfolding rel by (intro exI [of _ "w\<lparr>links := H, blob_vm := filter (\<lambda>p. fst p \<notin> fst ` set bs) (blob_vm w)\<rparr>"]
        exI [of _ "(unqueued v (fst ` set bs) L)(global_task_list_head := remove1 (Vm_list_node c) (L global_task_list_head))"] conjI)
      (auto simp: gone unqueued_def dest: out [OF rev_image_eqI])
qed

theorem wait_collects_child_witness:
  "\<exists>w' L'. wait4_finish 1 0 0 None demo_woken = Some (2, w') \<and> lists_ok sched_heads (links w') L' \<and> L' global_task_list_head = []"
proof -
  have "\<exists>w' L'. wait4_finish 1 0 0 None demo_woken = Some (pid_of demo_woken 2, w') \<and> lists_ok sched_heads (links w') L' \<and>
    L' global_task_list_head = remove1 (Vm_list_node 2) (demo_woken_lists global_task_list_head) \<and> L' (Wait_blob_head (Task 1)) = [] \<and>
    (\<forall>n\<in>fst ` set [(0, 2 :: vmptr)]. (\<forall>m. Wait_list n \<notin> set (L' m)) \<and> map_of (blob_vm w') n = None)"
    by (rule wait_collects_child [OF demo_woken_ok, where cs = "[]"])
      (simp_all add: demo_woken_lists_def demo_woken_def demo_world_def demo_task_def demo_proc_def pid_of_def wait_state_changed_def)
  then show ?thesis by (simp add: demo_woken_lists_def pid_of_def demo_woken_def demo_world_def demo_proc_def) blast
qed

section \<open>Address spaces\<close>

text \<open>
  C23. An anonymous \<open>mmap\<close> without a proposed address. If the search finds no gap the
  call returns \<open>- ENOMEM\<close> and changes nothing. Otherwise it returns a page-aligned address at
  which nothing was mapped, the \<open>len\<close> bytes there read as zero, every other byte of the process
  is as before, and the memory map stays well-formed.
\<close>

theorem mmap_maps_zeros:
  assumes "get_linked_vm (vms m) native LINKAGE_HINT_VM = Some v" "vms m v = Some vm" "vm_wf vm" "hosted m vm"
    and "nr_pmr_ops vm < MAX_VMA_NR" "flags AND MAP_ANONYMOUS \<noteq> 0" "len \<noteq> 0" "unat len + 4096 < 2 ^ 32"
    and "host_alloc_ok alloc" "finite (dom (hmem m))" "alloc (hmem m) (unat len) = Some b"
  shows "search_free_mmap_region vm len = Some 0 \<and> do_mmap alloc m native 0 len prot flags = Some (- ENOMEM, m) \<or>
    (\<exists>a m' vm'. do_mmap alloc m native 0 len prot flags = Some (a, m') \<and> vms m' v = Some vm' \<and> vm_wf vm' \<and>
      unat a mod 4096 = 0 \<and> unat a + unat len < 2 ^ 32 \<and>
      (\<forall>x. a \<le> x \<and> x < a + len \<longrightarrow> region_at vm x = None) \<and>
      (\<forall>x. guest_byte m' vm' x = (if a \<le> x \<and> x < a + len then Some 0 else guest_byte m vm x)))"
proof -
  obtain found where found: "search_free_mmap_region vm len = Some found" using search_free_mmap_region_free [OF assms(3,8)] by auto
  show ?thesis
  proof (cases "found = 0")
    case True
    with assms(1,2,6,7) found show ?thesis by (simp add: do_mmap_def allocate_mmap_region_def)
  next
    case False
    let ?a = "PAGE_ROUNDUP found" and ?m1 = "m\<lparr>hmem := (hmem m)(b \<mapsto> replicate (unat len) 0)\<rparr>"
    obtain vm' fl where mm: "do_mmap alloc m native 0 len prot flags = Some (?a, set_vm v vm' ?m1)" "vm_wf vm'"
      "set (live_regions vm') = insert (vma_region ?a (?a + len) fl (Some b)) (set (live_regions vm))"
      "vma_region ?a (?a + len) fl (Some b) \<notin> set (live_regions vm)" "unat ?a mod 4096 = 0" "unat ?a + unat len < 2 ^ 32"
      using do_mmap_maps [where alloc = alloc and prot = prot, OF assms(1-3,5-8,11) found False] by (elim exE conjE) (rule that)
    let ?r = "vma_region ?a (?a + len) fl (Some b)"
    have inr: "in_region x ?r \<longleftrightarrow> ?a \<le> x \<and> x < ?a + len" for x by (simp add: in_region_def)
    have "hmem m b = None" using assms(9-11) by (auto simp: host_alloc_ok_def)
    then have byte: "guest_byte (set_vm v vm' ?m1) vm' x = (if in_region x ?r then Some (replicate (unat len) 0 ! region_offset x ?r) else guest_byte m vm x)" for x
      using guest_byte_insert [OF assms(3) mm(2-4) assms(4), of b "set_vm v vm' ?m1" "replicate (unat len) 0" x] by simp
    have "region_offset x ?r < unat len" if "in_region x ?r" for x
      using region_offset_bound [OF that] by simp
    then have zero: "guest_byte (set_vm v vm' ?m1) vm' x = (if ?a \<le> x \<and> x < ?a + len then Some 0 else guest_byte m vm x)" for x
      unfolding byte inr by (auto simp: inr)
    have none: "region_at vm x = None" if "?a \<le> x \<and> x < ?a + len" for x
      using fresh_region_apart [OF assms(3) mm(2-4), of x] that by (simp add: inr)
    show ?thesis
      using mm(1,2,5,6) zero none by (intro disjI2 exI [of _ ?a] exI [of _ "set_vm v vm' ?m1"] exI [of _ vm']) simp
  qed
qed

theorem mmap_maps_zeros_witness:
  "\<exists>a m' vm'. do_mmap next_block user_machine 1 0 0x2000 3 MAP_ANONYMOUS = Some (a, m') \<and> vms m' 1 = Some vm' \<and> vm_wf vm' \<and>
    unat a mod 4096 = 0 \<and> (\<forall>x. guest_byte m' vm' x = (if a \<le> x \<and> x < a + 0x2000 then Some 0 else guest_byte user_machine user_vm x))"
  using mmap_maps_zeros [of user_machine 1 1 user_vm MAP_ANONYMOUS "0x2000" next_block 1 3] user_linked user_vms user_vm_wf user_hosted
    next_block_ok user_search
  by (auto simp: MAP_ANONYMOUS_def MAX_VMA_NR_def next_block_def)

text \<open>
  C24. Unmapping what an anonymous \<open>mmap\<close> returned gives back the block of the
  host, and leaves the regions and every byte of the process as they were before the \<open>mmap\<close>.
\<close>

theorem mmap_munmap_roundtrip:
  assumes "get_linked_vm (vms m) native LINKAGE_HINT_VM = Some v" "vms m v = Some vm" "vm_wf vm" "nr_pmr_ops vm < MAX_VMA_NR"
    and "flags AND MAP_ANONYMOUS \<noteq> 0" "len \<noteq> 0" "unat len + 4096 < 2 ^ 32"
    and "host_alloc_ok alloc" "finite (dom (hmem m))" "alloc (hmem m) (unat len) = Some b"
    and "search_free_mmap_region vm len = Some found" "found \<noteq> 0"
  shows "\<exists>a m' m'' vm''. do_mmap alloc m native 0 len prot flags = Some (a, m') \<and> do_munmap m' native a len = Some (0, m'') \<and>
    hmem m'' = hmem m \<and> vms m'' v = Some vm'' \<and> vm_wf vm'' \<and> set (live_regions vm'') = set (live_regions vm) \<and>
    (\<forall>x. guest_byte m'' vm'' x = guest_byte m vm x)"
proof -
  have "hmem m b = None" using assms(8-10) by (auto simp: host_alloc_ok_def)
  from mmap_then_munmap [where alloc = alloc and prot = prot, OF assms(1-7) this assms(10-12)] show ?thesis .
qed

theorem mmap_munmap_roundtrip_witness:
  "\<exists>a m' m'' vm''. do_mmap next_block user_machine 1 0 0x2000 3 MAP_ANONYMOUS = Some (a, m') \<and> do_munmap m' 1 a 0x2000 = Some (0, m'') \<and>
    hmem m'' = hmem user_machine \<and> vms m'' 1 = Some vm'' \<and> (\<forall>x. guest_byte m'' vm'' x = guest_byte user_machine user_vm x)"
  using mmap_munmap_roundtrip [of user_machine 1 1 user_vm MAP_ANONYMOUS "0x2000" next_block 1 "0xd000" 3] user_linked user_vms user_vm_wf
    next_block_ok user_search
  by (auto simp: MAP_ANONYMOUS_def MAX_VMA_NR_def next_block_def)

section \<open>Paths and files\<close>

text \<open>
  C30. Paths. On an absolute path that fits the buffer \<open>canonicalize_path_name\<close> computes
  the reference normal form: empty components and dots are dropped, two dots drop the component
  before them and never lead above the root.
\<close>

theorem path_is_canonical:
  assumes "list_all plain (c # cs)" "length (path_of (c # cs)) < MAX_PATH"
  shows "canonicalize_path_name (path_of (c # cs)) = path_of (normal_comps (c # cs) []) \<and>
    (list_all proper (normal_comps (c # cs) []) \<or> normal_comps (c # cs) [] = [[]])"
  using canonicalize_absolute [OF assms] normal_comps_proper [OF assms(1), of "[]"] by simp

theorem path_is_canonical_witness:
  "canonicalize_path_name ''/a/./b//../../../c'' = ''/c''"
proof -
  have "canonicalize_path_name (path_of [''a'', ''.'', ''b'', '''', ''..'', ''..'', ''..'', ''c'']) = path_of [''c'']"
    using path_is_canonical [of "''a''" "[''.'', ''b'', '''', ''..'', ''..'', ''..'', ''c'']"] by (simp add: plain_def MAX_PATH_def)
  then show ?thesis by simp
qed

text \<open>
  C29. Reading. If the bytes that the host returns fit behind the buffer in the block of its
  region, \<open>read\<close> stores exactly these bytes at the address and changes no other byte of the process;
  a following \<open>write\<close> of the same length from the same address hands them to the host unchanged.
\<close>

theorem read_fills_buffer:
  assumes "open_file w v fd f" "buffer_at w v a vm r block" "os_read hc (host_fd f) (unat n) (os_state w) = ((rc, bs), os)"
    and "region_offset a r + length bs \<le> length block" "length bs < 2 ^ 32"
  shows "\<exists>w'. call_read hc w v fd a n = Some (ERRNO hc rc os, w') \<and>
    (\<forall>x. guest_byte (world_machine w') vm x =
       (if region_at vm x = Some r \<and> unat a \<le> unat x \<and> unat x < unat a + length bs
        then Some (bs ! (unat x - unat a)) else guest_byte (world_machine w) vm x)) \<and>
    call_write hc w' v fd a (of_nat (length bs)) =
      (let (rc', os') = os_write hc (host_fd f) bs os in Some (ERRNO hc rc' os', w'\<lparr>os_state := os'\<rparr>))"
  by (rule call_read_then_write [OF assms])

theorem read_fills_buffer_witness:
  "\<exists>w'. call_read user_host user_procs 1 0 0x10008 4 = Some (2, w') \<and>
    guest_byte (world_machine w') user_vm 0x10009 = Some 66 \<and> guest_byte (world_machine w') user_vm 0x1000a = guest_byte user_machine user_vm 0x1000a"
proof -
  have rd: "os_read user_host (host_fd demo_file) (unat (4 :: u32)) (os_state user_procs) = ((2, [65, 66]), 3)"
    by (simp add: user_host_def user_procs_def)
  have fits: "region_offset 0x10008 user_region_demo + length [65, 66 :: u8] \<le> length demo_bytes"
    by (simp add: region_offset_def user_region_demo_def demo_bytes_def)
  have "region_at user_vm 0x10009 = Some user_region_demo" "region_at user_vm 0x1000a = Some user_region_demo"
    by (simp_all add: region_at_def user_vms in_region_def user_region_demo_def)
  moreover have "ERRNO user_host 2 3 = 2" "world_machine user_procs = user_machine" by (simp_all add: ERRNO_def user_procs_def)
  ultimately show ?thesis using read_fills_buffer [OF user_open_file user_buffer rd fits] by auto
qed





section \<open>Creating processes\<close>

text \<open>
  C27. Fork. \<open>clone\<close> without sharing flags returns the new pid. The child is a process whose
  memory reads as that of the parent, in blocks of the host that no process used before. It gets
  a copy of the hart with result 0 and the pc behind the call, of the directories, and of the
  table of files, in which every valid file is opened again by the host, in the order of the
  table, at the place of the parent's file. Of the parent only the reference count changes: its
  memory, hart, files and directories and those of all other processes are as before.
\<close>

theorem fork_copies_process:
  assumes "fork_ready ch w q B cur cvm c" "fork_flags flags"
  shows "\<exists>w' child fs. clone_task ch hc w cur child_stack flags ctid = Some (gpid_counter w, w') \<and>
    vm_of w' c = Some child \<and> vm_wf child \<and> vm_pid child = gpid_counter w \<and> vm_ppid child = vm_pid cvm \<and>
    (\<forall>a. guest_byte (world_machine w') child a = guest_byte (world_machine w) cvm a) \<and>
    (\<forall>r\<in>set (live_regions child). \<exists>b. host_base r = Some b \<and> hmem (world_machine w) b = None) \<and>
    vm_of w' cur = Some (cvm\<lparr>ref_count := ref_count cvm + 1\<rparr>) \<and> (\<forall>u. u \<noteq> c \<longrightarrow> u \<noteq> cur \<longrightarrow> vm_of w' u = vm_of w u) \<and>
    (\<forall>b. hmem (world_machine w) b \<noteq> None \<longrightarrow> hmem (world_machine w') b = hmem (world_machine w) b) \<and>
    harts w' = (harts w)(c := child_hart (harts w cur) c) \<and>
    fs_root w' = (fs_root w)(c := fs_root w cur) \<and> fs_cwd w' = (fs_cwd w)(c := fs_cwd w cur) \<and>
    reopened_files hc (files w cur) (os_state w) = (fs, os_state w') \<and> files w' = (files w)(c := fs)"
proof -
  obtain w' child fs where "clone_task ch hc w cur child_stack flags ctid = Some (gpid_counter w, w')"
    "vm_of w' c = Some child" "vm_wf child" "vm_pid child = gpid_counter w" "vm_ppid child = vm_pid cvm"
    "\<forall>a. guest_byte (world_machine w') child a = guest_byte (world_machine w) cvm a"
    "\<forall>r\<in>set (live_regions child). \<exists>b. host_base r = Some b \<and> hmem (world_machine w) b = None"
    "vm_of w' cur = Some (cvm\<lparr>ref_count := ref_count cvm + 1\<rparr>)" "\<forall>u. u \<noteq> c \<longrightarrow> u \<noteq> cur \<longrightarrow> vm_of w' u = vm_of w u"
    "\<forall>b. hmem (world_machine w) b \<noteq> None \<longrightarrow> hmem (world_machine w') b = hmem (world_machine w) b"
    "harts w' = (harts w)(c := child_hart (harts w cur) c)" "fs_root w' = (fs_root w)(c := fs_root w cur)" "fs_cwd w' = (fs_cwd w)(c := fs_cwd w cur)"
    "reopened_files hc (files w cur) (os_state w) = (fs, os_state w')" "files w' = (files w)(c := fs)"
    using fork_result [OF assms, of hc child_stack ctid] by (elim exE conjE) (rule that)
  then show ?thesis by (intro exI [of _ w'] exI [of _ child] exI [of _ fs] conjI)
qed

theorem fork_copies_process_witness:
  "\<exists>w' child. clone_task user_clone_host user_host user_procs 1 0 17 0 = Some (2, w') \<and> vm_of w' 2 = Some child \<and>
    (\<forall>a. guest_byte (world_machine w') child a = guest_byte user_machine user_vm a) \<and>
    vm_of w' 1 = Some (user_vm\<lparr>ref_count := ref_count user_vm + 1\<rparr>) \<and> files w' 1 = files user_procs 1 \<and> host_fd (files w' 2 ! 0) = 3"
proof -
  have u: "gpid_counter user_procs = 2" "world_machine user_procs = user_machine" by (simp_all add: user_procs_def)
  have "host_fd (fst (reopened_files user_host (files user_procs 1) (os_state user_procs)) ! 0) = 3"
    by (simp add: user_procs_def demo_file_def user_host_def Let_def split: prod.splits)
  with fork_copies_process [OF user_fork_ready user_flags(1), of user_host 0 0] u show ?thesis by auto
qed

text \<open>
  The child of a fork is runnable: it is appended to the run queue and to the task list, and
  the frame that the scheduler will switch to starts \<open>vmresume\<close> with the hart of the child.
\<close>

theorem fork_schedules_child:
  assumes "fork_ready ch w q B cur cvm c" "fork_flags flags"
  shows "\<exists>pid w'. clone_task ch hc w cur child_stack flags ctid = Some (pid, w') \<and>
    queues_ok (links w') (q\<lparr>runq := runq q @ [Task c]\<rparr>) (B(global_task_list_head := B global_task_list_head @ [Vm_list_node c])) \<and>
    state_of w' (Task c) = TASK_STATE_RUNNING \<and>
    (\<exists>frame. cpustates w' (host_cpustate (tasks w' (Task c))) = Some frame \<and> cpu_rip frame = ch_vmresume ch \<and> cpu_rdi frame = ch_hart ch c)"
proof -
  have "cpu_rip (initial_frame ch c) = ch_vmresume ch" "cpu_rdi (initial_frame ch c) = ch_hart ch c" by (simp_all add: initial_frame_def)
  with fork_result [OF assms, of hc child_stack ctid] show ?thesis by blast
qed

text \<open>
  C28. Threads. \<open>clone\<close> with all sharing flags allocates no memory: the owner of the memory, the
  files and the directories of the new task is the owner that the caller has; the task starts
  behind the call with result 0 on the stack that was passed.
\<close>

theorem thread_shares_process:
  assumes "vm_of w cur = Some cvm" "ch_vm ch (vms (world_machine w)) = Some c" "queues_ok (links w) q B" "child_free w q B c"
    and "thread_flags flags" "child_stack \<noteq> 0"
  shows "\<exists>w'. clone_task ch hc w cur child_stack flags ctid = Some (gpid_counter w, w') \<and> hmem (world_machine w') = hmem (world_machine w) \<and>
    (\<forall>hint v. hint \<noteq> LINKAGE_HINT_NATIVE \<longrightarrow> owner_vm w cur hint = Some v \<longrightarrow> owner_vm w' c hint = Some v) \<and>
    registers (harts w' c) = (registers (harts w cur))[10 := 0, 2 := child_stack] \<and> pc (harts w' c) = pc (harts w cur) + 4 \<and>
    queues_ok (links w') (q\<lparr>runq := runq q @ [Task c]\<rparr>) (B(global_task_list_head := B global_task_list_head @ [Vm_list_node c]))"
  using thread_result [OF assms, of hc ctid] by blast

theorem thread_shares_process_witness:
  "\<exists>w'. clone_task user_clone_host user_host user_procs 1 0x5000 0x10700 0 = Some (2, w') \<and> owner_vm w' 2 LINKAGE_HINT_VM = Some 1"
proof -
  have u: "vm_of user_procs 1 = Some user_vm" "ch_vm user_clone_host (vms (world_machine user_procs)) = Some 2" "gpid_counter user_procs = 2"
    by (simp_all add: user_procs_def user_vms user_clone_host_def)
  have "(0x5000 :: u32) \<noteq> 0" by simp
  from thread_shares_process [OF u(1,2) user_queues user_child_free user_flags(2) this, of user_host 0] user_owner u(3)
  show ?thesis by (metis linkage_hint.distinct(1))
qed

text \<open>
  C21. Owners. In every state that is reached from one in which no task shares anything, the
  walk of \<open>get_linked_vm\<close> up the chain of parents ends, for every process and every kind of
  resource. It follows, from a task to its parent, only tasks that were cloned with the sharing
  flag of this resource, and the task it returns was not.
\<close>

theorem owner_always_found:
  assumes "\<forall>u vm. vm_of w u = Some vm \<longrightarrow> \<not> cloned_vm vm \<and> \<not> cloned_fs vm \<and> \<not> cloned_files vm"
    and "fresh_vms (sys_clone sh)" "yields may sh" "rtranclp (run_step sh may) w w'" "vm_of w' u \<noteq> None"
  shows "\<exists>q. get_linked_vm (vms (world_machine w')) u hint = Some q \<and>
    rtranclp (shares_with (vms (world_machine w')) hint) u q \<and> owns (vms (world_machine w')) hint q"
proof -
  have "kin_ok w'" by (rule run_steps_kin [OF assms(4,3,2) kin_ok_none [OF assms(1)]])
  from kin_ok_found [OF this assms(5), of hint] show ?thesis by (auto simp: linked_iff)
qed

theorem owner_always_found_witness:
  "\<exists>w'. clone_task boot_clone_host boot_host user_procs 1 0x5000 0x10700 0 = Some (2, w') \<and>
     (\<exists>q. get_linked_vm (vms (world_machine w')) 2 LINKAGE_HINT_FS = Some q \<and>
       rtranclp (shares_with (vms (world_machine w')) LINKAGE_HINT_FS) 2 q \<and> owns (vms (world_machine w')) LINKAGE_HINT_FS q \<and> q \<noteq> 2)"
proof (rule user_thread)
  fix w1 q B tvm
  assume w1: "clone_task boot_clone_host boot_host user_procs 1 0x5000 0x10700 0 = Some (2, w1)"
    "rtranclp (run_step boot_sys (\<lambda>_ _ _ _. True)) user_procs w1" "fork_ready second_clone_host w1 q B 2 tvm 3" "cloned_fs tvm"
  then have vm: "vm_of w1 2 = Some tvm" by (simp add: fork_ready_def)
  then have "\<not> owns (vms (world_machine w1)) LINKAGE_HINT_FS 2" using w1(4) by (simp add: owns_def)
  with owner_always_found [OF user_unshared boot_sys_fresh boot_sys_yields w1(2), of 2 LINKAGE_HINT_FS] vm w1(1)
  show ?thesis by (metis option.distinct(1))
qed

text \<open>
  C37. Forking from a thread. A process creates a thread, which uses the memory of the
  process. As long as the descriptor of the thread is the one that \<open>clone\<close> has made, a fork from
  the thread copies the regions of this descriptor, of which there are none, and not those of the
  owner of the memory: the child owns an empty address space, in which no address is mapped.
\<close>

theorem fork_of_thread_is_empty:
  assumes "vm_of w cur = Some cvm" "ch_vm ch (vms (world_machine w)) = Some t" "queues_ok (links w) q B" "child_free w q B t"
    and "thread_flags tflags" "stack \<noteq> 0" "owner_vm w cur LINKAGE_HINT_VM = Some v"
    and "clone_task ch hc w cur stack tflags ctid = Some (tid, w1)" "vm_of w2 t = vm_of w1 t"
    and "fork_ready ch' w2 q' B' t tvm c" "fork_flags flags"
  shows "owner_vm w1 t LINKAGE_HINT_VM = Some v \<and>
    (\<exists>w3 child. clone_task ch' hc w2 t child_stack flags ctid' = Some (gpid_counter w2, w3) \<and>
      owner_vm w3 c LINKAGE_HINT_VM = Some c \<and> vm_of w3 c = Some child \<and> (\<forall>a. guest_byte (world_machine w3) child a = None))"
proof -
  obtain w' tvm' where th: "clone_task ch hc w cur stack tflags ctid = Some (gpid_counter w, w')"
    "vms (world_machine w') = (vms (world_machine w))(t \<mapsto> tvm', cur \<mapsto> cvm\<lparr>ref_count := ref_count cvm + 4\<rparr>)" "nr_pmr_ops tvm' = 0"
    "\<forall>hint v. hint \<noteq> LINKAGE_HINT_NATIVE \<longrightarrow> owner_vm w cur hint = Some v \<longrightarrow> owner_vm w' t hint = Some v"
    using thread_result [OF assms(1-6), of hc ctid] by blast
  then have w': "w' = w1" using assms(8) by simp
  have "t \<noteq> cur" using assms(1,4) by (auto simp: child_free_def)
  then have none: "nr_pmr_ops tvm = 0" using th(2,3) assms(9,10) w' by (simp add: fork_ready_def)
  obtain w3 child where w3: "clone_task ch' hc w2 t child_stack flags ctid' = Some (gpid_counter w2, w3)" "vm_of w3 c = Some child"
    "nr_pmr_ops child = nr_pmr_ops tvm" "\<not> cloned_vm child"
    using fork_result [OF assms(10,11), of hc child_stack ctid'] by blast
  have "guest_byte (world_machine w3) child a = None" for a
    using w3(3) none by (simp add: guest_byte_def region_at_def live_regions_def)
  moreover have "owner_vm w3 c LINKAGE_HINT_VM = Some c"
    unfolding owner_vm_def using w3(2,4) by (subst get_linked_vm.simps) simp
  ultimately show ?thesis using w3(1,2) th(4) assms(7) w' by blast
qed

theorem fork_of_thread_is_empty_witness:
  "\<exists>w1 w3 child. clone_task boot_clone_host boot_host user_procs 1 0x5000 0x10700 0 = Some (2, w1) \<and> owner_vm w1 2 LINKAGE_HINT_VM = Some 1 \<and>
     guest_byte user_machine user_vm 0x10000 \<noteq> None \<and>
     clone_task second_clone_host boot_host w1 2 0 17 0 = Some (gpid_counter w1, w3) \<and>
     owner_vm w3 3 LINKAGE_HINT_VM = Some 3 \<and> vm_of w3 3 = Some child \<and> guest_byte (world_machine w3) child 0x10000 = None"
proof (rule user_thread)
  fix w1 q B tvm
  assume w1: "clone_task boot_clone_host boot_host user_procs 1 0x5000 0x10700 0 = Some (2, w1)"
    "fork_ready second_clone_host w1 q B 2 tvm 3"
  from fork_of_thread_is_empty [OF user_thread_premises(1,2) user_queues user_child_free user_flags(2) user_thread_premises(4)
      user_owner w1(1) refl w1(2) user_flags(1), of 0 0] w1(1) user_byte
  show ?thesis by blast
qed

text \<open>
  C33. Leaving the root. Any state that is reached from one in which no task shares its
  directories: a task that does share them has no root of its own. A fork from it without
  \<open>CLONE_FS\<close> copies this empty root to the child, which owns it. Every absolute path of the child
  then is a path of the host, outside the directory the sandbox was started with.
\<close>

theorem fork_of_thread_leaves_root:
  assumes "\<forall>u vm. vm_of w u = Some vm \<longrightarrow> \<not> cloned_fs vm" "fresh_vms (sys_clone sh)" "yields may sh" "rtranclp (run_step sh may) w w1"
    and "fork_ready ch w1 q B t tvm c" "fork_flags flags" "cloned_fs tvm"
    and "list_all proper cs" "cs \<noteq> []" "length (path_of cs) < MAX_PATH"
  shows "\<exists>w'. clone_task ch hc w1 t child_stack flags ctid = Some (gpid_counter w1, w') \<and> owner_vm w' c LINKAGE_HINT_FS = Some c \<and>
    host_path_of (fs_root w' c) (fs_cwd w' c) dirfd (path_of cs) = Some (path_of cs)"
proof -
  have "rootless w1" by (rule run_steps_rootless [OF assms(4,3,2) rootless_none [OF assms(1)]])
  moreover have "vm_of w1 t = Some tvm" using assms(5) by (simp add: fork_ready_def)
  ultimately have root: "fs_root w1 t = []" using rootless_shared assms(7) by blast
  obtain w' child where w': "clone_task ch hc w1 t child_stack flags ctid = Some (gpid_counter w1, w')" "vm_of w' c = Some child"
    "\<not> cloned_fs child" "fs_root w' = (fs_root w1)(c := fs_root w1 t)"
    using fork_result [OF assms(5,6), of hc child_stack ctid] by blast
  have "owner_vm w' c LINKAGE_HINT_FS = Some c" unfolding owner_vm_def using w'(2,3) by (subst get_linked_vm.simps) simp
  with w' host_path_no_root [OF assms(8-10)] root show ?thesis by auto
qed

theorem fork_of_thread_leaves_root_witness:
  "\<exists>w1 w'. clone_task boot_clone_host boot_host user_procs 1 0x5000 0x10700 0 = Some (2, w1) \<and> fs_root user_procs 1 = ''/jail'' \<and>
    clone_task second_clone_host boot_host w1 2 0 17 0 = Some (gpid_counter w1, w') \<and>
    host_path_of (fs_root w' 3) (fs_cwd w' 3) AT_FDCWD ''/etc/passwd'' = Some ''/etc/passwd''"
proof (rule user_thread)
  fix w1 q B tvm
  assume w1: "clone_task boot_clone_host boot_host user_procs 1 0x5000 0x10700 0 = Some (2, w1)"
    "rtranclp (run_step boot_sys (\<lambda>_ _ _ _. True)) user_procs w1" "fork_ready second_clone_host w1 q B 2 tvm 3" "cloned_fs tvm"
  have un: "\<forall>u vm. vm_of user_procs u = Some vm \<longrightarrow> \<not> cloned_fs vm" using user_unshared by blast
  have names: "list_all proper [''etc'', ''passwd'']" "[''etc'', ''passwd''] \<noteq> []" "length (path_of [''etc'', ''passwd'']) < MAX_PATH"
    by (simp_all add: proper_def plain_def MAX_PATH_def)
  have "fs_root user_procs 1 = ''/jail''" by (simp add: user_procs_def)
  with fork_of_thread_leaves_root [OF un boot_sys_fresh boot_sys_yields w1(2) w1(3) user_flags(1) w1(4) names,
      of boot_host 0 0 AT_FDCWD] w1(1) show ?thesis by auto
qed

section \<open>Starting and replacing programs\<close>

text \<open>
  C4. Start-up. \<open>main\<close> with an executable whose segments fit starts it: the idle task switches to
  the first task, whose frame enters \<open>vmresume\<close> with the hart of the process. That hart is at the
  entry point, its stack pointer at the argument count, followed by the pointers to the strings
  of the command line; every other byte of the address space is the byte of the file, a zero of
  the stack, or not mapped. The three standard descriptors are open, and the root is \<open>ROOT\<close>.
\<close>

theorem main_starts_program:
  assumes "boot_ready ch hc env rcs w v q B path img P hdr phs" "idle_frame \<noteq> 0"
    and "argv = a0 # path # rest" "length argv \<le> MAX_NR_ARGV" "\<forall>s\<in>set argv. NUL \<notin> set s"
    and "stack_size initial_sp (tl argv) [] \<le> unat (initial_sp - stack_low)"
  shows "\<exists>stack w'. main ch hc env w v argv idle_frame = Some (stack, w') \<and> current w' = Some (Task v) \<and>
    cpustates w' stack = Some (initial_frame ch v) \<and> booted ch rcs v (tl argv) img hdr phs (gpid_counter w) w'"
  by (rule main_boots [OF assms])

theorem main_starts_program_witness:
  "\<exists>stack w'. main boot_clone_host boot_host boot_env boot_procs 1 [''hyrule'', ''/jail/app''] 0x700 = Some (stack, w') \<and>
    current w' = Some (Task 1) \<and> pc (harts w' 1) = 0x10000 \<and> fs_root w' 1 = ''/jail''"
proof -
  have "(0x700 :: u64) \<noteq> 0" "length [''hyrule'', ''/jail/app''] \<le> MAX_NR_ARGV" "\<forall>s\<in>set [''hyrule'', ''/jail/app'']. NUL \<notin> set s"
    "stack_size initial_sp (tl [''hyrule'', ''/jail/app'']) [] \<le> unat (initial_sp - stack_low)"
    using boot_args by (simp_all add: MAX_NR_ARGV_def)
  from main_starts_program [OF boot_ready_demo this(1) refl this(2-4)] show ?thesis
    by (auto simp: booted_def demo_header_fields)
qed

text \<open>
  C5. The state of the processes. In every state that the guest reaches from the start (any system
  calls by any processes in any order, with any answers of the host, switches of tasks and guest
  instructions between them, and calls of other processes while a caller sleeps) every memory map
  is sorted, free of overlaps and within its array, every table of descriptors has its 128 slots
  with every open file at its own number, and every open file is a regular file with a path.
\<close>

theorem processes_stay_ok:
  assumes "main ch hc env w v argv idle_frame = Some (stack, w1)" "procs_ok w" "yields may sh" "rtranclp (run_step sh may) w1 w'"
  shows "(\<forall>u vm. vm_of w' u = Some vm \<longrightarrow> vm_wf vm) \<and> fds_ok w' \<and> regs_ok w'"
  using run_steps_ok [OF assms(4,3) main_ok [OF assms(1,2)]] by (simp add: procs_ok_def maps_ok_def)

theorem processes_stay_ok_witness:
  "\<exists>stack w1 res. main boot_clone_host boot_host boot_env boot_procs 1 [''hyrule'', ''/jail/app''] 0x700 = Some (stack, w1) \<and>
    do_syscall boot_sys w1 1 172 0 0 0 0 0 0 = Some res \<and> fds_ok (sys_state res)"
proof -
  obtain stack w1 where m: "main boot_clone_host boot_host boot_env boot_procs 1 [''hyrule'', ''/jail/app''] 0x700 = Some (stack, w1)"
    "vm_of w1 1 \<noteq> None" using boot_runs by blast
  obtain res where res: "do_syscall boot_sys w1 1 172 0 0 0 0 0 0 = Some res" using boot_getpid [OF m(2)] by blast
  then have "run_step boot_sys (\<lambda>_ _ _ _. True) w1 (sys_state res)" by (intro run_step.system_call) simp_all
  with processes_stay_ok [OF m(1) boot_invariants(1) boot_sys_yields] m(1) res show ?thesis by blast
qed

text \<open>
  C6. Confinement, with its limits. Any state that is reached from the start without a fork of
  a task that shares its directories (see the property on leaving the root) and without a \<open>chdir\<close>
  to a name of \<open>MAX_PATH\<close> characters. A path that a process passes to \<open>openat\<close>: one relative to the
  working directory, or an absolute one whose slash is the first character, or the second behind a
  blank. An absolute path with more blanks in front is not covered, and does lead out (see the
  property on glued paths); a path relative to another directory stops the process. For the paths
  covered, the host is asked to open the root of the sandbox followed by proper names, and
  nothing else. Result, table and host state are those of that call; a failed call leaves no
  descriptor behind.
\<close>

theorem guest_stays_in_root:
  assumes "main ch hc env w v argv idle_frame = Some (stack, w1)" "procs_ok w" "jailed rcs w" "env_ROOT env = Some (path_of rcs)"
    and "fresh_vms (sys_clone sh)" "yields jail_calls sh" "rtranclp (run_step sh jail_calls) w1 w'"
    and "list_all proper rcs" "rcs \<noteq> []" "owner_vm w' u LINKAGE_HINT_FS = Some d" "owner_vm w' u LINKAGE_HINT_FILES = Some t"
    and "NUL \<notin> set path" "length (path_of rcs) + CWD_SIZE + length path < MAX_PATH"
    and "if is_relative_path path then dirfd = AT_FDCWD else char_at path 0 = slash \<or> char_at path 1 = slash"
  shows "\<exists>qs. list_all proper qs \<and>
    do_openat (sys_calls sh) w' u dirfd path flags mode = Some (openat_spec (sys_calls sh) w' t (path_of (rcs @ qs)) flags mode)"
proof -
  have "procs_ok w'" "jailed rcs w'" by (rule reachable_invariants [OF assms(1-7)])+
  note dir = jailed_owner [OF \<open>jailed rcs w'\<close> assms(10)]
  have "files_ok (files w' t)" using \<open>procs_ok w'\<close> by (simp add: procs_ok_def fds_ok_def)
  moreover have "Suc (length (path_of rcs) + length (fs_cwd w' d) + length path) < MAX_PATH" using dir(3) assms(13) by simp
  ultimately show ?thesis by (intro do_openat_confined [OF assms(10,11) _ dir(1) assms(8,9) dir(2) assms(12) _ assms(14) [folded host_checked_def]])
qed

theorem guest_stays_in_root_witness:
  "\<exists>stack w1 qs. main boot_clone_host boot_host boot_env boot_procs 1 [''hyrule'', ''/jail/app''] 0x700 = Some (stack, w1) \<and> list_all proper qs \<and>
    do_openat boot_host w1 1 AT_FDCWD ''../../etc/passwd'' 0 0 = Some (openat_spec boot_host w1 1 (path_of ([''jail''] @ qs)) 0 0)"
proof -
  obtain stack w1 where m: "main boot_clone_host boot_host boot_env boot_procs 1 [''hyrule'', ''/jail/app''] 0x700 = Some (stack, w1)"
    "\<And>hint. owner_vm w1 1 hint = Some 1" using boot_runs by blast
  have calls: "sys_calls boot_sys = boot_host" by (simp add: boot_sys_def)
  have root: "env_ROOT boot_env = Some (path_of [''jail''])" "list_all proper [''jail'']" "[''jail''] \<noteq> []"
    by (simp_all add: boot_env_def proper_def plain_def)
  have path: "NUL \<notin> set ''../../etc/passwd''" "length (path_of [''jail'']) + CWD_SIZE + length ''../../etc/passwd'' < MAX_PATH"
    "if is_relative_path ''../../etc/passwd'' then AT_FDCWD = AT_FDCWD else char_at ''../../etc/passwd'' 0 = slash \<or> char_at ''../../etc/passwd'' 1 = slash"
    by (simp_all add: CWD_SIZE_def MAX_PATH_def is_relative_path_def char_at_def)
  from guest_stays_in_root [OF m(1) boot_invariants root(1) boot_sys_fresh boot_sys_yields rtranclp.rtrancl_refl root(2,3) m(2) m(2) path, of 0 0]
  show ?thesis using m(1) unfolding calls by blast
qed

text \<open>
  C25. Replacing the program. \<open>execve\<close> by a process that owns its memory releases the host blocks
  of all its regions (a block that no new region uses is gone if an old region had it, and is as
  before otherwise) and loads the file: the hart is at the entry point with the argument and
  environment vectors at its stack pointer and an empty translation cache; every other byte of the
  address space is the byte of the file, a zero of the stack, or not mapped. Open files, other
  processes and their memory are unchanged.
\<close>

theorem execve_replaces_program:
  assumes "exec_args w v fa aa ea filename argv envp" "owner_vm w v LINKAGE_HINT_VM = Some v"
    and "exec_image alloc hc w v vm filename img P hdr phs" "sp = initial_sp - of_nat (stack_size initial_sp argv envp)"
  shows "\<exists>w' vm'. call_execve alloc hc w v fa aa ea = Some w' \<and> vm_of w' v = Some vm' \<and> vm_mem_ok vm' \<and>
    pc (harts w' v) = e_entry hdr \<and> registers (harts w' v) = (replicate 32 0)[2 := sp] \<and> nr_translated_instructions (harts w' v) = 0 \<and>
    args_at w' v sp argv envp \<and>
    (\<forall>x. \<not> (unat sp \<le> unat x \<and> unat x < unat initial_sp) \<longrightarrow> guest_byte (world_machine w') vm' x = program_bytes img phs x) \<and>
    (\<forall>z. z \<noteq> v \<longrightarrow> vm_of w' z = vm_of w z \<and> harts w' z = harts w z) \<and> files w' = files w \<and>
    (\<forall>b. hmem (world_machine w) b \<noteq> None \<longrightarrow> (\<forall>r\<in>set (live_regions vm). host_base r \<noteq> Some b) \<longrightarrow>
       hmem (world_machine w') b = hmem (world_machine w) b) \<and>
    (\<forall>b. (\<forall>r\<in>set (live_regions vm'). host_base r \<noteq> Some b) \<longrightarrow>
       hmem (world_machine w') b = (if \<exists>r\<in>set (live_regions vm). host_base r = Some b then None else hmem (world_machine w) b))"
proof -
  let ?h = "flush_translation_cache (reset_registers (harts w v))"
  have h: "pc ?h = 0" "registers ?h = replicate 32 0" "nr_translated_instructions ?h = 0"
    by (simp_all add: flush_translation_cache_def reset_registers_def)
  from execve_result [OF assms(1-3), folded assms(4)] obtain w' vm' where w': "call_execve alloc hc w v fa aa ea = Some w'"
    "vm_of w' v = Some vm'" "vm_mem_ok vm'" "args_at w' v sp argv envp" "files w' = files w"
    "harts w' = (harts w)(v := ?h\<lparr>pc := e_entry hdr, registers := (registers ?h)[2 := sp]\<rparr>)"
    "\<forall>x. \<not> (unat sp \<le> unat x \<and> unat x < unat initial_sp) \<longrightarrow> guest_byte (world_machine w') vm' x = program_bytes img phs x"
    "\<forall>z. z \<noteq> v \<longrightarrow> vm_of w' z = vm_of w z"
    "\<forall>b. hmem (world_machine w) b \<noteq> None \<longrightarrow> (\<forall>r\<in>set (live_regions vm). host_base r \<noteq> Some b) \<longrightarrow>
       hmem (world_machine w') b = hmem (world_machine w) b"
    and freed: "\<forall>b. b \<notin> host_bases vm' \<longrightarrow> hmem (world_machine w') b = (if b \<in> host_bases vm then None else hmem (world_machine w) b)" by auto
  have "hmem (world_machine w') b = (if \<exists>r\<in>set (live_regions vm). host_base r = Some b then None else hmem (world_machine w) b)"
    if "\<forall>r\<in>set (live_regions vm'). host_base r \<noteq> Some b" for b
    using freed [rule_format, of b] that by (simp add: host_bases_def)
  with h w' show ?thesis by (intro exI [of _ w'] exI [of _ vm']) simp
qed

theorem execve_replaces_program_witness:
  "\<exists>w' vm'. call_execve next_block boot_host exec_procs 1 0x10000 0x10008 0x10010 = Some w' \<and> vm_of w' 1 = Some vm' \<and>
    pc (harts w' 1) = 0x10000 \<and> vm_of w' 3 = Some thread_vm"
proof -
  have "exec_args exec_procs 1 0x10000 0x10008 0x10010 ''/app'' [''/app''] []" by (rule exec_demo_args) simp
  from execve_replaces_program [OF this exec_owner(1) exec_demo_image refl] show ?thesis
    using exec_vm_fields(6) by (auto simp: demo_header_fields)
qed

text \<open>
  C34. \<open>execve\<close> in a thread. The memory of the owner is replaced, but it is the hart of the owner
  that is put at the entry point, with the new stack. The calling thread is left with cleared
  registers and the pc 0, and the owner keeps the translations of the old program.
\<close>

theorem execve_in_thread:
  assumes "exec_args w v fa aa ea filename argv envp" "owner_vm w v LINKAGE_HINT_VM = Some u" "u \<noteq> v"
    and "exec_image alloc hc w u vm filename img P hdr phs"
  shows "\<exists>w'. call_execve alloc hc w v fa aa ea = Some w' \<and> pc (harts w' v) = 0 \<and> registers (harts w' v) = replicate 32 0 \<and>
    pc (harts w' u) = e_entry hdr \<and> nr_translated_instructions (harts w' u) = nr_translated_instructions (harts w u)"
  using execve_result [OF assms(1,2,4)] assms(3) by (fastforce simp: flush_translation_cache_def reset_registers_def)

theorem execve_in_thread_witness:
  "\<exists>w'. call_execve next_block boot_host exec_procs 3 0x10000 0x10008 0x10010 = Some w' \<and> pc (harts w' 3) = 0 \<and> pc (harts w' 1) = 0x10000"
proof -
  have "exec_args exec_procs 3 0x10000 0x10008 0x10010 ''/app'' [''/app''] []" by (rule exec_demo_args) simp
  from execve_in_thread [OF this exec_owner(2) _ exec_demo_image] show ?thesis by (auto simp: demo_header_fields)
qed

section \<open>The program break\<close>

text \<open>
  C26. Growing the heap. A \<open>brk\<close> beyond the end of the heap that meets no other region returns the
  new break. Every byte up to it reads as the block that the host's \<open>realloc\<close> returned; every byte
  that was mapped before, in the heap or elsewhere, reads as before.
\<close>

theorem brk_grows_heap:
  assumes "get_linked_vm (vms m) native LINKAGE_HINT_VM = Some v" "vms m v = Some vm" "heap_can_grow m vm i addr"
    and "host_realloc_ok ra" "ra (hmem m) (host_base (pmr_ops vm ! i)) (unat (addr - addr_low (pmr_ops vm ! i))) = Some (b, bs)"
  shows "\<exists>m' vm'. call_brk ra m native addr = Some (addr, m') \<and> vms m' v = Some vm' \<and> vm_wf vm' \<and>
    (\<forall>x. addr_low (pmr_ops vm ! i) \<le> x \<and> x < addr \<longrightarrow> guest_byte m' vm' x = Some (bs ! region_offset x (pmr_ops vm ! i))) \<and>
    (\<forall>x. guest_byte m vm x \<noteq> None \<longrightarrow> guest_byte m' vm' x = guest_byte m vm x)"
  by (rule call_brk_grows [OF assms])

theorem brk_grows_heap_witness:
  "\<exists>m' vm'. call_brk demo_realloc heap_machine 1 0x2006 = Some (0x2006, m') \<and> vms m' 1 = Some vm' \<and>
    guest_byte m' vm' 0x2001 = Some 6 \<and> guest_byte m' vm' 0x2005 = Some 0"
proof -
  have "demo_realloc (hmem heap_machine) (host_base (pmr_ops heap_vm ! 1)) (unat ((0x2006 :: u32) - addr_low (pmr_ops heap_vm ! 1))) =
      Some (1, [5, 6, 7, 8, 0, 0])"
    by (simp add: heap_vm_fields(6) heap_region_def demo_realloc_def heap_machine_def) (simp add: numeral_2_eq_2)
  from brk_grows_heap [OF heap_owner heap_vm_fields(3) heap_demo_grows demo_realloc_ok this] obtain m' vm'
    where m': "call_brk demo_realloc heap_machine 1 0x2006 = Some (0x2006, m')" "vms m' 1 = Some vm'"
      "\<forall>x. 0x2000 \<le> x \<and> x < 0x2006 \<longrightarrow> guest_byte m' vm' x = Some ([5, 6, 7, 8, 0, 0] ! unat (x - 0x2000))"
    by (auto simp: heap_vm_fields(6) heap_region_def region_offset_def)
  then show ?thesis by auto
qed

text \<open>
  C35. A stale heap. The heap is kept as a place in the array of regions, which \<open>munmap\<close> compacts
  without adjusting it. After the first region below the heap is unmapped, the break is that of
  the region that follows the heap.
\<close>

theorem munmap_shifts_break:
  assumes "get_linked_vm (vms m) native LINKAGE_HINT_VM = Some v" "vms m v = Some vm" "vm_wf vm"
    and "vma_heap vm = Some i" "Suc i < nr_pmr_ops vm" "j < i"
  shows "\<exists>m'. do_munmap m native (addr_low (pmr_ops vm ! j)) (addr_high (pmr_ops vm ! j) - addr_low (pmr_ops vm ! j)) = Some (0, m') \<and>
    call_brk ra m' native 0 = Some (addr_high (pmr_ops vm ! Suc i), m')"
  by (rule munmap_shifts_heap [OF assms])

theorem munmap_shifts_break_witness:
  "\<exists>m'. call_brk demo_realloc heap_machine 1 0 = Some (0x2004, heap_machine) \<and> do_munmap heap_machine 1 0x1000 4 = Some (0, m') \<and>
    call_brk demo_realloc m' 1 0 = Some (0x8004, m')"
proof -
  have "Suc 1 < nr_pmr_ops heap_vm" "(0 :: nat) < 1" by (simp_all add: heap_vm_fields)
  from munmap_shifts_break [OF heap_owner heap_vm_fields(3) heap_vm_ok(1) heap_vm_fields(2) this, of demo_realloc]
  have "\<exists>m'. do_munmap heap_machine 1 0x1000 4 = Some (0, m') \<and> call_brk demo_realloc m' 1 0 = Some (0x8004, m')"
    using heap_vm_fields(5,7) by (simp add: heap_region_def numeral_2_eq_2)
  moreover have "call_brk demo_realloc heap_machine 1 0 = Some (0x2004, heap_machine)"
    using heap_owner heap_vm_fields(2,3,6) by (simp add: call_brk_def heap_region_def)
  ultimately show ?thesis by blast
qed

section \<open>Control and status registers, and the debugger\<close>

text \<open>
  C31. CSR instructions. On the 39 registers of \<open>stored_csrs\<close>, each with the bits that it
  implements: a \<open>csrrw\<close> or \<open>csrrwi\<close>, then a \<open>csrrs\<close>, \<open>csrrc\<close> or an immediate form of them, then a
  read, each done by the callback and the reset of \<open>x0\<close> in the template. The second instruction
  reads what the first has written, the third what the second has made of it, within the
  implemented bits. Nothing is said of registers that cannot be written, where the code has no
  trap, and of privilege levels, which it does not check.
\<close>

theorem csr_read_modify_write:
  assumes "wf_hart h" "hart_magic h = HART_MAGIC_WORD" "map_of stored_csrs a = Some wm"
    and "\<forall>w\<in>{w1, w2, w3}. rv_opcode w = 0x73 \<and> ucast (rv_bits w 31 20) = a"
    and "rv_funct3 w1 AND 3 = 1" "rv_funct3 w2 AND 3 = 2 \<or> rv_funct3 w2 AND 3 = 3" "rv_rs1 w2 \<noteq> 0"
    and "rv_funct3 w3 = 2" "rv_rs1 w3 = 0" "rv_rd w3 \<noteq> 0"
  shows "\<exists>h1 h2 h3. map_option clear_zero (riscv_generic_csr_callback (installed_csrs host_tsc) h (ucast w1)) = Some h1 \<and>
    map_option clear_zero (riscv_generic_csr_callback (installed_csrs host_tsc) h1 (ucast w2)) = Some h2 \<and>
    map_option clear_zero (riscv_generic_csr_callback (installed_csrs host_tsc) h2 (ucast w3)) = Some h3 \<and>
    (rv_rd w2 \<noteq> 0 \<longrightarrow> rv_x h2 (rv_rd w2) = csr_operand w1 h AND wm) \<and>
    rv_x h3 (rv_rd w3) = (if rv_funct3 w2 AND 3 = 2 then csr_operand w1 h OR csr_operand w2 h1
      else csr_operand w1 h AND NOT (csr_operand w2 h1)) AND wm"
  by (rule csr.callback_modifies [OF assms])

text \<open>\<open>csrrwi x0, mtvec, 31\<close>; \<open>csrrci x5, mtvec, 4\<close>; \<open>csrrs x6, mtvec, x0\<close>. The bit 1 is not implemented.\<close>

theorem csr_read_modify_write_witness:
  "\<exists>h1 h2 h3. map_option clear_zero (riscv_generic_csr_callback (installed_csrs 7) demo_hart (ucast (0x305fd073 :: u32))) = Some h1 \<and>
    map_option clear_zero (riscv_generic_csr_callback (installed_csrs 7) h1 (ucast (0x305272f3 :: u32))) = Some h2 \<and>
    map_option clear_zero (riscv_generic_csr_callback (installed_csrs 7) h2 (ucast (0x30502373 :: u32))) = Some h3 \<and>
    rv_x h2 5 = 0x1d \<and> rv_x h3 6 = 0x19"
proof -
  have h: "wf_hart demo_hart" "hart_magic demo_hart = HART_MAGIC_WORD"
    using demo_wf_hart by (simp_all add: demo_hart_def hart_init_def flush_translation_cache_def)
  have m: "map_of stored_csrs 0x305 = Some 0xfffffffd" by (simp add: stored_csrs_def)
  have w: "\<forall>w\<in>{0x305fd073, 0x305272f3, 0x30502373}. rv_opcode w = 0x73 \<and> (ucast (rv_bits w 31 20) :: 12 word) = 0x305"
    by (simp add: rv_opcode_def rv_bits_def)
  have f: "rv_funct3 0x305fd073 AND 3 = 1" "rv_funct3 0x305272f3 AND 3 = 2 \<or> rv_funct3 0x305272f3 AND 3 = 3" "rv_rs1 0x305272f3 \<noteq> 0"
    "rv_funct3 0x30502373 = 2" "rv_rs1 0x30502373 = 0" "rv_rd 0x30502373 \<noteq> 0"
    by (simp_all add: rv_funct3_def rv_rs1_def rv_rd_def rv_bits_def)
  have v: "csr_operand 0x305fd073 h = 31" "csr_operand 0x305272f3 h = 4" "rv_funct3 0x305272f3 AND 3 = 3" "rv_rd 0x305272f3 = 5" "rv_rd 0x30502373 = 6" for h
    by (simp_all add: csr_operand_def rv_funct3_def rv_rs1_def rv_rd_def rv_bits_def)
  show ?thesis using csr_read_modify_write [OF h m w f, of 7] unfolding v by simp
qed

text \<open>
  C32. Views, as the instructions see them, with the masks of both registers. \<open>sstatus\<close> and
  \<open>mstatus\<close> agree on the bits \<open>0x122\<close> of the supervisor level; a write to \<open>sstatus\<close> changes exactly
  these bits of \<open>mstatus\<close>. They do not agree on the two bits of the user level: \<open>mstatus\<close> hides
  them, and a write to \<open>mstatus\<close> clears them in \<open>sstatus\<close>. \<open>sie\<close> is the bits \<open>0x222\<close> of \<open>mie\<close>, to read
  and to write; \<open>sip\<close> shows these bits of \<open>mip\<close>, of which a write changes only the software
  interrupt. A write to \<open>mip\<close> leaves the bits of the machine level as they are.
\<close>

theorem supervisor_views:
  "fst (read_csr (csr_registery sstatus_csr_entry) h a) AND 0x122 = fst (read_csr (csr_registery mstatus_csr_entry) h b) AND 0x122 \<and>
   fst (read_csr (csr_registery mstatus_csr_entry) (write_csr (csr_registery sstatus_csr_entry) h a v) b) =
     (fst (read_csr (csr_registery mstatus_csr_entry) h b) AND NOT 0x122) OR (v AND 0x122) \<and>
   fst (read_csr (csr_registery sstatus_csr_entry) (write_csr (csr_registery sstatus_csr_entry) h a v) a) = v AND 0x133 \<and>
   fst (read_csr (csr_registery sstatus_csr_entry) (write_csr (csr_registery mstatus_csr_entry) h b v) a) = v AND 0x122 \<and>
   fst (read_csr (csr_registery sie_csr_entry) h a) = fst (read_csr (csr_registery mie_csr_entry) h b) AND 0x222 \<and>
   fst (read_csr (csr_registery mie_csr_entry) (write_csr (csr_registery sie_csr_entry) h a v) b) =
     (fst (read_csr (csr_registery mie_csr_entry) h b) AND NOT 0x222) OR (v AND 0x222) \<and>
   fst (read_csr (csr_registery sip_csr_entry) h a) = fst (read_csr (csr_registery mip_csr_entry) h b) AND 0x222 \<and>
   fst (read_csr (csr_registery mip_csr_entry) (write_csr (csr_registery sip_csr_entry) h a v) b) =
     (fst (read_csr (csr_registery mip_csr_entry) h b) AND NOT 0x2) OR (v AND 0x2) \<and>
   fst (read_csr (csr_registery mip_csr_entry) (write_csr (csr_registery mip_csr_entry) h a v) b) =
     (v AND 0x222) OR (fst (read_csr (csr_registery mip_csr_entry) h b) AND 0x888)"
  using status_reads_back(2) [unfolded reads_back_def]
  by (intro conjI supervisor_status_view supervisor_enable_view supervisor_pending_view machine_pending_view) simp

text \<open>After \<open>0x111\<close> is written to \<open>sstatus\<close>, \<open>sstatus\<close> reads \<open>0x111\<close> and \<open>mstatus\<close> only \<open>0x100\<close>.\<close>

theorem supervisor_views_witness:
  "fst (read_csr (csr_registery sstatus_csr_entry) (write_csr (csr_registery sstatus_csr_entry) demo_hart 0x100 0x111) 0x100) = 0x111 \<and>
   fst (read_csr (csr_registery mstatus_csr_entry) (write_csr (csr_registery sstatus_csr_entry) demo_hart 0x100 0x111) 0x300) = 0x100"
proof -
  have "fst (read_csr (csr_registery mstatus_csr_entry) demo_hart 0x300) = 0" by code_simp
  with supervisor_views [of demo_hart "0x100" "0x300" "0x111"] show ?thesis by simp
qed

text \<open>
  C36. The debug shell. A line \<open>continue\<close> lets the guest go on. At the end of the input the last
  command is repeated: unless that was \<open>continue\<close>, the shell never returns.
\<close>

theorem shell_needs_continue:
  "dbg_shell_loop h m (''continue'' @ CHR 0x0A # rest) last_tokens = Some (Mret (rest, [''continue'']) h m) \<and>
   (process_cmds_tokens h m last_tokens = Mret (ACTION_CONTINUE, out) h m \<longrightarrow> dbg_shell_loop h m [] last_tokens = None)"
proof
  show "dbg_shell_loop h m (''continue'' @ CHR 0x0A # rest) last_tokens = Some (Mret (rest, [''continue'']) h m)"
    by (subst shell_line [where ts = "[''continue'']"]) (simp_all add: shell_sizes process_continue)
  show "process_cmds_tokens h m last_tokens = Mret (ACTION_CONTINUE, out) h m \<longrightarrow> dbg_shell_loop h m [] last_tokens = None"
    using shell_spins [of h m "[]" last_tokens _ out] by (cases "dbg_shell_loop h m [] last_tokens") blast+
qed

theorem shell_needs_continue_witness:
  "process_cmds_tokens demo_hart demo_machine [''help''] = Mret (ACTION_CONTINUE, []) demo_hart demo_machine \<and>
   dbg_shell_loop demo_hart demo_machine [] [''help''] = None"
proof -
  have "process_cmds_tokens demo_hart demo_machine [''help''] = Mret (ACTION_CONTINUE, []) demo_hart demo_machine" by (rule process_help)
  with shell_needs_continue [of demo_hart demo_machine _ "[''help'']" "[]"] show ?thesis by blast
qed

end
